(* ===== verification/Prelude.thy ===== *)
theory Prelude
  imports Main "HOL-Library.Word"
begin

unbundle bit_operations_syntax

text \<open>
  Shared vocabulary of the development: the machine integers of the 64-bit targets, the
  error type of \<^verbatim>\<open>src/src/error.rs\<close>, the result type of fallible code (a value, an
  error, or a panic), the combinators that stand for the \<^verbatim>\<open>?\<close> operator in pure and in
  stateful code, checked and saturating arithmetic on \<open>usize\<close>, and the bit-level facts
  about words that the components share.
\<close>

section \<open>Machine integers\<close>

type_synonym u8 = "8 word"
type_synonym u16 = "16 word"
type_synonym u32 = "32 word"
type_synonym u64 = "64 word"

text \<open>
  Every target of the crate is a 64-bit one, so \<open>usize\<close> is a 64-bit word; physical and
  virtual addresses are newtypes over \<open>usize\<close> and are represented by it.
\<close>

type_synonym usize = "64 word"
type_synonym paddr = usize
type_synonym vaddr = usize

section \<open>Errors and results\<close>

datatype paging_error =
    OutOfMemory
  | NotAligned
  | NotMapped
  | AlreadyMapped
  | IntermediateIsLeaf
  | AddressOutOfRange
  | UnsupportedSize
  | NotCoalescable
  | InvalidMappingShape
  | InvalidEntryKind

text \<open>
  A \<open>PagingResult\<close> is a value or an error. The third constructor is the outcome of a Rust
  panic (a failed assertion, an arithmetic overflow of the checked build profile, an index
  out of bounds), so that an aborted run is a value of the model too.
\<close>

datatype 'a res = Ok 'a | Err paging_error | Panic

definition bind_res :: "'a res \<Rightarrow> ('a \<Rightarrow> 'b res) \<Rightarrow> 'b res" where
  "bind_res r f = (case r of Ok a \<Rightarrow> f a | Err e \<Rightarrow> Err e | Panic \<Rightarrow> Panic)"

lemma bind_res_simps [simp]:
  "bind_res (Ok a) f = f a"
  "bind_res (Err e) f = Err e"
  "bind_res Panic f = Panic"
  by (simp_all add: bind_res_def)

lemma bind_res_eq_Ok: "bind_res r f = Ok b \<longleftrightarrow> (\<exists>a. r = Ok a \<and> f a = Ok b)"
  by (cases r) auto

definition ok_or :: "'a option \<Rightarrow> paging_error \<Rightarrow> 'a res" where
  "ok_or x e = (case x of None \<Rightarrow> Err e | Some a \<Rightarrow> Ok a)"

lemma ok_or_simps [simp]: "ok_or None e = Err e" "ok_or (Some a) e = Ok a"
  by (simp_all add: ok_or_def)

lemma ok_or_eq_Ok [simp]: "ok_or x e = Ok a \<longleftrightarrow> x = Some a"
  by (cases x) auto

text \<open>The same operator where the code also changes a state.\<close>

definition bind_st :: "'a res \<times> 'w \<Rightarrow> ('a \<Rightarrow> 'w \<Rightarrow> 'b res \<times> 'w) \<Rightarrow> 'b res \<times> 'w" where
  "bind_st m f =
     (case m of (r, w) \<Rightarrow>
       (case r of Ok a \<Rightarrow> f a w | Err e \<Rightarrow> (Err e, w) | Panic \<Rightarrow> (Panic, w)))"

lemma bind_st_simps [simp]:
  "bind_st (Ok a, w) f = f a w"
  "bind_st (Err e, w) f = (Err e, w)"
  "bind_st (Panic, w) f = (Panic, w)"
  by (simp_all add: bind_st_def)

section \<open>Checked and saturating arithmetic\<close>

definition checked_add :: "usize \<Rightarrow> usize \<Rightarrow> usize option" where
  "checked_add a b = (if unat a + unat b < 2 ^ 64 then Some (a + b) else None)"

definition checked_mul :: "usize \<Rightarrow> usize \<Rightarrow> usize option" where
  "checked_mul a b = (if unat a * unat b < 2 ^ 64 then Some (a * b) else None)"

definition saturating_add :: "usize \<Rightarrow> usize \<Rightarrow> usize" where
  "saturating_add a b = (if unat a + unat b < 2 ^ 64 then a + b else - 1)"

lemma checked_add_Some:
  "checked_add a b = Some c \<Longrightarrow> c = a + b \<and> unat c = unat a + unat b"
  by (auto simp: checked_add_def unat_word_ariths split: if_splits)

lemma checked_mul_Some:
  "checked_mul a b = Some c \<Longrightarrow> c = a * b \<and> unat c = unat a * unat b"
  by (auto simp: checked_mul_def unat_word_ariths split: if_splits)

lemma saturating_add_ge: "a \<le> saturating_add a b"
proof (cases "unat a + unat b < 2 ^ 64")
  case True
  then show ?thesis
    by (simp add: saturating_add_def word_le_nat_alt unat_word_ariths)
next
  case False
  then show ?thesis
    by (simp add: saturating_add_def)
qed

section \<open>Small words bit by bit\<close>

lemma less_8_cases: "(n :: nat) < 8 \<longleftrightarrow> n \<in> {0, 1, 2, 3, 4, 5, 6, 7}"
  by auto

lemma u8_eq_iff:
  "(a :: u8) = b \<longleftrightarrow>
     bit a 0 = bit b 0 \<and> bit a 1 = bit b 1 \<and> bit a 2 = bit b 2 \<and> bit a 3 = bit b 3 \<and>
     bit a 4 = bit b 4 \<and> bit a 5 = bit b 5 \<and> bit a 6 = bit b 6 \<and> bit a 7 = bit b 7"
proof -
  have "a = b \<longleftrightarrow> (\<forall>n. n < 8 \<longrightarrow> bit a n = bit b n)"
    by (auto intro: bit_word_eqI)
  also have "\<dots> \<longleftrightarrow> (\<forall>n\<in>{0, 1, 2, 3, 4, 5, 6, 7}. bit a n = bit b n)"
    unfolding less_8_cases by (rule Ball_def [symmetric])
  finally show ?thesis
    by (simp only: ball_simps simp_thms)
qed

section \<open>Power-of-two alignment on words\<close>

lemma unat_push_bit_one: "k < 64 \<Longrightarrow> unat (push_bit k (1 :: u64)) = 2 ^ k"
proof -
  assume "k < 64"
  then have "(2 :: nat) ^ k < 2 ^ 64" by (rule power_strict_increasing) simp
  then show ?thesis
    by (simp only: unsigned_push_bit_eq) (simp add: take_bit_eq_mod push_bit_eq_mult)
qed

lemma unat_u64_less: "unat (v :: u64) < 2 ^ 64"
  using unsigned_less [where 'b = 64 and w = v, where 'a = nat] by simp

lemma bit_u64_less: "bit (v :: u64) n \<Longrightarrow> n < 64"
  using bit_imp_le_length by fastforce

lemma bit_push_bit_one: "bit (push_bit k 1 :: 'a::len word) n \<longleftrightarrow> n = k \<and> k < LENGTH('a)"
  by (auto simp: bit_exp_iff)

lemma bit_push_bit_of_bool:
  "bit (push_bit k (of_bool b) :: 'a::len word) n \<longleftrightarrow> b \<and> n = k \<and> k < LENGTH('a)"
  by (cases b) (simp_all only: of_bool_eq bit_push_bit_one push_bit_0_id bit_0_eq simp_thms, simp)

lemma and_bit_one: "(v :: 'a::len word) AND push_bit k 1 \<noteq> 0 \<longleftrightarrow> bit v k"
  by (simp add: bit_iff_and_push_bit_not_eq_0)

lemma and_bit_one_zero: "(v :: 'a::len word) AND push_bit k 1 = 0 \<longleftrightarrow> \<not> bit v k"
  using and_bit_one [of v k] by blast

lemma word_nonzero: "(v :: 'a::len word) \<noteq> 0 \<longleftrightarrow> (\<exists>n. bit v n)"
  by (metis bit_word_eqI bit_0_eq bot_apply bot_bool_def)

lemma bit_mask_word: "bit (mask k :: u64) n \<longleftrightarrow> n < 64 \<and> n < k"
  by (simp add: bit_mask_iff)

lemma and_not_mask_eq: "(v :: u64) AND NOT (mask k) = push_bit k (drop_bit k v)"
  by (rule bit_word_eqI) (auto simp: bit_simps)

lemma aligned_iff_bits: "(v :: u64) AND mask k = 0 \<longleftrightarrow> (\<forall>n<k. \<not> bit v n)"
proof
  assume h: "v AND mask k = 0"
  show "\<forall>n<k. \<not> bit v n"
  proof (intro allI impI)
    fix n assume "n < k"
    show "\<not> bit v n"
    proof
      assume "bit v n"
      then have "n < 64" using bit_imp_le_length by fastforce
      with \<open>bit v n\<close> \<open>n < k\<close> have "bit (v AND mask k) n"
        by (simp add: bit_simps)
      with h show False by simp
    qed
  qed
next
  assume "\<forall>n<k. \<not> bit v n"
  then show "v AND mask k = 0"
    by (intro bit_word_eqI) (auto simp: bit_simps)
qed

lemma aligned_push_drop: "(v :: u64) AND mask k = 0 \<Longrightarrow> push_bit k (drop_bit k v) = v"
proof (rule bit_word_eqI)
  fix n
  assume h: "v AND mask k = 0"
  then have "bit v n \<Longrightarrow> k \<le> n"
    by (meson aligned_iff_bits not_le)
  then show "bit (push_bit k (drop_bit k v)) n = bit v n"
    by (auto simp: bit_simps dest: bit_imp_le_length)
qed

lemma drop_bit_eq_iff_bits:
  "drop_bit k (v :: u64) = drop_bit k v' \<longleftrightarrow> (\<forall>n\<ge>k. bit v n = bit v' n)"
proof
  assume h: "drop_bit k v = drop_bit k v'"
  show "\<forall>n\<ge>k. bit v n = bit v' n"
  proof (intro allI impI)
    fix n assume "k \<le> n"
    have "bit (drop_bit k v) (n - k) = bit (drop_bit k v') (n - k)" by (simp add: h)
    with \<open>k \<le> n\<close> show "bit v n = bit v' n" by (simp add: bit_drop_bit_eq)
  qed
next
  assume "\<forall>n\<ge>k. bit v n = bit v' n"
  then show "drop_bit k v = drop_bit k v'"
    by (intro bit_word_eqI) (auto simp: bit_simps)
qed

section \<open>Concatenations over an index range\<close>

lemma pairs_Suc:
  assumes "\<And>i j. Q i j = Q j i"
  shows "(\<forall>i<Suc n. \<forall>j<Suc n. i \<noteq> j \<longrightarrow> Q i j) \<longleftrightarrow>
    (\<forall>i<n. \<forall>j<n. i \<noteq> j \<longrightarrow> Q i j) \<and> (\<forall>i<n. Q i n)"
  using assms by (auto simp: less_Suc_eq)

lemma distinct_concat_upt:
  "distinct (concat (map B [0..<n])) \<longleftrightarrow>
     (\<forall>i<n. distinct (B i)) \<and> (\<forall>i<n. \<forall>j<n. i \<noteq> j \<longrightarrow> set (B i) \<inter> set (B j) = {})"
proof (induction n)
  case 0
  then show ?case by simp
next
  case (Suc n)
  have split: "set (concat (map B [0..<n])) \<inter> set (B n) = {} \<longleftrightarrow>
      (\<forall>i<n. set (B i) \<inter> set (B n) = {})"
    by (simp add: Int_UN_distrib2 lessThan_atLeast0 [symmetric]) blast
  have pairs: "(\<forall>i<Suc n. \<forall>j<Suc n. i \<noteq> j \<longrightarrow> set (B i) \<inter> set (B j) = {}) \<longleftrightarrow>
      (\<forall>i<n. \<forall>j<n. i \<noteq> j \<longrightarrow> set (B i) \<inter> set (B j) = {}) \<and>
      (\<forall>i<n. set (B i) \<inter> set (B n) = {})"
    by (rule pairs_Suc) (simp add: Int_commute)
  have "distinct (concat (map B [0..<Suc n])) \<longleftrightarrow>
      distinct (concat (map B [0..<n])) \<and> distinct (B n) \<and>
      set (concat (map B [0..<n])) \<inter> set (B n) = {}"
    by simp
  then show ?case
    unfolding split pairs Suc.IH by (auto simp: less_Suc_eq)
qed

end
