(* ===== verification/AddrLib.thy ===== *)
theory AddrLib
  imports Prelude
begin

text \<open>
  The interface of the third-party crate \<^verbatim>\<open>memory_addr\<close>. \<^verbatim>\<open>PhysAddr\<close> and \<^verbatim>\<open>VirtAddr\<close>
  are newtypes over \<open>usize\<close>, \<^verbatim>\<open>AddrRange\<close> is the pair of its public fields \<^verbatim>\<open>start\<close> and
  \<^verbatim>\<open>end\<close>; every method of the crate that the sources call is a field of the record
  \<open>addr_lib\<close>, an argument of the definitions that use it. What the sources rely on is
  the predicate \<open>addr_lib_ok\<close>, the documented behaviour of those methods; \<open>ref_addr_lib\<close>
  is an instance that satisfies it.
\<close>

section \<open>Ranges and the methods of the crate\<close>

record addr_range =
  rng_start :: usize
  rng_end :: usize

record addr_lib =
  range_size :: "addr_range \<Rightarrow> usize"
  range_is_empty :: "addr_range \<Rightarrow> bool"
  range_contains :: "addr_range \<Rightarrow> usize \<Rightarrow> bool"
  range_from_start_size :: "usize \<Rightarrow> usize \<Rightarrow> addr_range res"
  range_try_from_start_size :: "usize \<Rightarrow> usize \<Rightarrow> addr_range option"
  addr_align_down :: "usize \<Rightarrow> usize \<Rightarrow> usize"
  addr_is_aligned :: "usize \<Rightarrow> usize \<Rightarrow> bool"
  addr_checked_add :: "usize \<Rightarrow> usize \<Rightarrow> usize option"
  addr_checked_sub :: "usize \<Rightarrow> usize \<Rightarrow> usize option"
  addr_add :: "usize \<Rightarrow> usize \<Rightarrow> usize res"

definition addr_lib_ok :: "addr_lib \<Rightarrow> bool" where
  "addr_lib_ok L \<longleftrightarrow>
     (\<forall>r. rng_start r \<le> rng_end r \<longrightarrow> range_size L r = rng_end r - rng_start r) \<and>
     (\<forall>r. range_is_empty L r \<longleftrightarrow> rng_end r \<le> rng_start r) \<and>
     (\<forall>r a. range_contains L r a \<longleftrightarrow> rng_start r \<le> a \<and> a < rng_end r) \<and>
     (\<forall>s n. range_from_start_size L s n =
        (case checked_add s n of None \<Rightarrow> Panic
          | Some e \<Rightarrow> Ok \<lparr>rng_start = s, rng_end = e\<rparr>)) \<and>
     (\<forall>s n. range_try_from_start_size L s n =
        map_option (\<lambda>e. \<lparr>rng_start = s, rng_end = e\<rparr>) (checked_add s n)) \<and>
     (\<forall>a k. k < 64 \<longrightarrow> addr_align_down L a (push_bit k 1) = a AND NOT (mask k)) \<and>
     (\<forall>a k. k < 64 \<longrightarrow> addr_is_aligned L a (push_bit k 1) = (a AND mask k = 0)) \<and>
     (\<forall>a n. addr_checked_add L a n = checked_add a n) \<and>
     (\<forall>a n. addr_checked_sub L a n = (if n \<le> a then Some (a - n) else None)) \<and>
     (\<forall>a n. addr_add L a n = (case checked_add a n of None \<Rightarrow> Panic | Some b \<Rightarrow> Ok b))"

text \<open>A concrete instance, written from the crate's documentation.\<close>

definition ref_addr_lib :: addr_lib where
  "ref_addr_lib =
     \<lparr>range_size = (\<lambda>r. rng_end r - rng_start r),
      range_is_empty = (\<lambda>r. rng_end r \<le> rng_start r),
      range_contains = (\<lambda>r a. rng_start r \<le> a \<and> a < rng_end r),
      range_from_start_size = (\<lambda>s n.
        case checked_add s n of None \<Rightarrow> Panic | Some e \<Rightarrow> Ok \<lparr>rng_start = s, rng_end = e\<rparr>),
      range_try_from_start_size = (\<lambda>s n.
        map_option (\<lambda>e. \<lparr>rng_start = s, rng_end = e\<rparr>) (checked_add s n)),
      addr_align_down = (\<lambda>a n. a AND NOT (n - 1)),
      addr_is_aligned = (\<lambda>a n. a AND (n - 1) = 0),
      addr_checked_add = checked_add,
      addr_checked_sub = (\<lambda>a n. if n \<le> a then Some (a - n) else None),
      addr_add = (\<lambda>a n. case checked_add a n of None \<Rightarrow> Panic | Some b \<Rightarrow> Ok b)\<rparr>"

lemma ref_addr_lib_ok: "addr_lib_ok ref_addr_lib"
  by (simp add: addr_lib_ok_def ref_addr_lib_def mask_eq_exp_minus_1)

section \<open>Facts every client uses\<close>

lemma addr_lib_facts:
  assumes "addr_lib_ok L"
  shows addr_size: "rng_start r \<le> rng_end r \<Longrightarrow> range_size L r = rng_end r - rng_start r"
    and addr_is_empty: "range_is_empty L r \<longleftrightarrow> rng_end r \<le> rng_start r"
    and addr_contains: "range_contains L r a \<longleftrightarrow> rng_start r \<le> a \<and> a < rng_end r"
    and addr_from_start_size: "range_from_start_size L s n =
        (case checked_add s n of None \<Rightarrow> Panic
          | Some e \<Rightarrow> Ok \<lparr>rng_start = s, rng_end = e\<rparr>)"
    and addr_try_from_start_size: "range_try_from_start_size L s n =
        map_option (\<lambda>e. \<lparr>rng_start = s, rng_end = e\<rparr>) (checked_add s n)"
    and addr_align_down: "k < 64 \<Longrightarrow> addr_align_down L a (push_bit k 1) = a AND NOT (mask k)"
    and addr_is_aligned: "k < 64 \<Longrightarrow> addr_is_aligned L a (push_bit k 1) = (a AND mask k = 0)"
    and addr_checked_add: "addr_checked_add L a n = checked_add a n"
    and addr_checked_sub: "addr_checked_sub L a n = (if n \<le> a then Some (a - n) else None)"
    and addr_add: "addr_add L a n = (case checked_add a n of None \<Rightarrow> Panic | Some b \<Rightarrow> Ok b)"
  using assms by (simp_all add: addr_lib_ok_def)

end
