(* ===== verification/Attrs.thy ===== *)
theory Attrs
  imports Prelude
begin

text \<open>
  \<^verbatim>\<open>src/src/meta.rs\<close>: the leaf page sizes, the access-permission bits and the
  target-neutral memory attributes that a mapping carries.
\<close>

section \<open>Page sizes\<close>

datatype page_size =
    Size4K | Size16K | Size64K | Size2M | Size32M
  | Size512M | Size1G | Size64G | Size512G | Size4T

fun bytes :: "page_size \<Rightarrow> usize" where
  "bytes Size4K = 0x1000"
| "bytes Size16K = 0x4000"
| "bytes Size64K = 0x10000"
| "bytes Size2M = 0x200000"
| "bytes Size32M = 0x2000000"
| "bytes Size512M = 0x20000000"
| "bytes Size1G = 0x40000000"
| "bytes Size64G = 0x1000000000"
| "bytes Size512G = 0x8000000000"
| "bytes Size4T = 0x40000000000"

definition is_huge :: "page_size \<Rightarrow> bool" where
  "is_huge s \<longleftrightarrow> s \<noteq> Size4K"

definition is_aligned :: "page_size \<Rightarrow> usize \<Rightarrow> bool" where
  "is_aligned s value \<longleftrightarrow> value AND (bytes s - 1) = 0"

definition from_bytes :: "usize \<Rightarrow> page_size option" where
  "from_bytes b =
     (if b = 0x1000 then Some Size4K
      else if b = 0x4000 then Some Size16K
      else if b = 0x10000 then Some Size64K
      else if b = 0x200000 then Some Size2M
      else if b = 0x2000000 then Some Size32M
      else if b = 0x20000000 then Some Size512M
      else if b = 0x40000000 then Some Size1G
      else if b = 0x1000000000 then Some Size64G
      else if b = 0x8000000000 then Some Size512G
      else if b = 0x40000000000 then Some Size4T
      else None)"

text \<open>The binary logarithm of each size: every size is a power of two below \<open>2 ^ 64\<close>.\<close>

fun size_shift :: "page_size \<Rightarrow> nat" where
  "size_shift Size4K = 12"
| "size_shift Size16K = 14"
| "size_shift Size64K = 16"
| "size_shift Size2M = 21"
| "size_shift Size32M = 25"
| "size_shift Size512M = 29"
| "size_shift Size1G = 30"
| "size_shift Size64G = 36"
| "size_shift Size512G = 39"
| "size_shift Size4T = 42"

lemma size_shift_less: "size_shift s < 64" "size_shift s \<le> 42" "12 \<le> size_shift s"
  by (cases s; simp)+

lemma bytes_push_bit: "bytes s = push_bit (size_shift s) 1"
  by (cases s) simp_all

lemma bytes_minus_one: "bytes s - 1 = mask (size_shift s)"
  by (cases s) (simp_all add: mask_numeral)

lemma unat_bytes: "unat (bytes s) = 2 ^ size_shift s"
  by (cases s) simp_all

lemma bytes_pos [simp]: "0 < bytes s" "bytes s \<noteq> 0"
  by (cases s; simp)+

lemma is_aligned_mask: "is_aligned s v \<longleftrightarrow> v AND mask (size_shift s) = 0"
  by (simp add: is_aligned_def bytes_minus_one)

lemma is_aligned_dvd: "is_aligned sz p \<longleftrightarrow> 2 ^ size_shift sz dvd unat p"
proof -
  have "is_aligned sz p \<longleftrightarrow> take_bit (size_shift sz) p = 0"
    by (simp add: is_aligned_mask take_bit_eq_mask)
  also have "\<dots> \<longleftrightarrow> unat (take_bit (size_shift sz) p) = 0" by (simp add: unat_eq_0)
  also have "\<dots> \<longleftrightarrow> unat p mod 2 ^ size_shift sz = 0"
    unfolding unsigned_take_bit_eq by (simp add: take_bit_eq_mod)
  finally show ?thesis by (simp add: dvd_eq_mod_eq_0)
qed

lemma from_bytes_bytes [simp]: "from_bytes (bytes s) = Some s"
  by (cases s) (simp_all add: from_bytes_def)

lemma from_bytes_Some_iff: "from_bytes b = Some s \<longleftrightarrow> b = bytes s"
  by (cases s) (auto simp: from_bytes_def split: if_splits)

lemma from_bytes_Some: "from_bytes b = Some s \<Longrightarrow> b = bytes s"
  by (simp add: from_bytes_Some_iff)

lemma size_shift_inj: "size_shift s = size_shift t \<longleftrightarrow> s = t"
  by (cases s; cases t; simp)

text \<open>Page sizes are ordered by their number of bytes.\<close>

instantiation page_size :: linorder
begin

definition less_eq_page_size :: "page_size \<Rightarrow> page_size \<Rightarrow> bool" where
  "s \<le> t \<longleftrightarrow> bytes s \<le> bytes t"

definition less_page_size :: "page_size \<Rightarrow> page_size \<Rightarrow> bool" where
  "s < t \<longleftrightarrow> bytes s < bytes t"

instance
proof
  fix x y z :: page_size
  show "x < y \<longleftrightarrow> x \<le> y \<and> \<not> y \<le> x"
    by (auto simp: less_eq_page_size_def less_page_size_def)
  show "x \<le> x" by (simp add: less_eq_page_size_def)
  show "x \<le> y \<Longrightarrow> y \<le> z \<Longrightarrow> x \<le> z" by (simp add: less_eq_page_size_def)
  show "x \<le> y \<or> y \<le> x" by (auto simp: less_eq_page_size_def)
  assume "x \<le> y" "y \<le> x"
  then have "from_bytes (bytes x) = from_bytes (bytes y)"
    by (simp add: less_eq_page_size_def)
  then show "x = y" by simp
qed

end

section \<open>Access flags\<close>

datatype access_flags = AccessFlags (af_bits: u8)

definition AF_READ :: access_flags where "AF_READ = AccessFlags (push_bit 0 1)"
definition AF_WRITE :: access_flags where "AF_WRITE = AccessFlags (push_bit 1 1)"
definition AF_EXECUTE :: access_flags where "AF_EXECUTE = AccessFlags (push_bit 2 1)"
definition AF_USER :: access_flags where "AF_USER = AccessFlags (push_bit 3 1)"
definition AF_GLOBAL :: access_flags where "AF_GLOBAL = AccessFlags (push_bit 4 1)"

lemma bit_af_consts:
  "bit (af_bits AF_READ) n \<longleftrightarrow> n = 0"
  "bit (af_bits AF_WRITE) n \<longleftrightarrow> n = 1"
  "bit (af_bits AF_EXECUTE) n \<longleftrightarrow> n = 2"
  "bit (af_bits AF_USER) n \<longleftrightarrow> n = 3"
  "bit (af_bits AF_GLOBAL) n \<longleftrightarrow> n = 4"
  unfolding AF_READ_def AF_WRITE_def AF_EXECUTE_def AF_USER_def AF_GLOBAL_def
    access_flags.sel bit_push_bit_one by auto

lemmas af_consts = AF_READ_def AF_WRITE_def AF_EXECUTE_def AF_USER_def AF_GLOBAL_def

definition af_empty :: access_flags where
  "af_empty = AccessFlags 0"

definition from_bits_truncate :: "u8 \<Rightarrow> access_flags" where
  "from_bits_truncate b = AccessFlags (b AND 0x1f)"

definition af_is_empty :: "access_flags \<Rightarrow> bool" where
  "af_is_empty a \<longleftrightarrow> af_bits a = 0"

definition af_contains :: "access_flags \<Rightarrow> access_flags \<Rightarrow> bool" where
  "af_contains a b \<longleftrightarrow> af_bits a AND af_bits b = af_bits b"

definition af_intersects :: "access_flags \<Rightarrow> access_flags \<Rightarrow> bool" where
  "af_intersects a b \<longleftrightarrow> af_bits a AND af_bits b \<noteq> 0"

definition af_union :: "access_flags \<Rightarrow> access_flags \<Rightarrow> access_flags" where
  "af_union a b = AccessFlags (af_bits a OR af_bits b)"

definition af_bitand :: "access_flags \<Rightarrow> access_flags \<Rightarrow> access_flags" where
  "af_bitand a b = AccessFlags (af_bits a AND af_bits b)"

text \<open>Only the five named bits are used by well-formed flags.\<close>

definition af_valid :: "access_flags \<Rightarrow> bool" where
  "af_valid a \<longleftrightarrow> af_bits a AND 0x1f = af_bits a"

lemma af_contains_consts:
  "af_contains a AF_READ \<longleftrightarrow> bit (af_bits a) 0"
  "af_contains a AF_WRITE \<longleftrightarrow> bit (af_bits a) 1"
  "af_contains a AF_EXECUTE \<longleftrightarrow> bit (af_bits a) 2"
  "af_contains a AF_USER \<longleftrightarrow> bit (af_bits a) 3"
  "af_contains a AF_GLOBAL \<longleftrightarrow> bit (af_bits a) 4"
  by (simp_all add: af_contains_def af_consts u8_eq_iff bit_simps)

lemma access_eqI: "(\<And>n. bit (af_bits a) n = bit (af_bits b) n) \<Longrightarrow> a = b"
  by (rule access_flags.expand) (auto intro: bit_word_eqI)

lemma bit_0x1f: "bit (0x1f :: u8) n \<longleftrightarrow> n < 5"
proof -
  have "(0x1f :: u8) = mask 5" by (simp add: mask_numeral)
  show ?thesis
    unfolding \<open>(0x1f :: u8) = mask 5\<close> by (auto simp: bit_mask_iff)
qed

section \<open>Memory attributes\<close>

datatype cache_policy = Writeback | Uncached | WriteCombine | WriteThrough

datatype shareability = NonShareable | Inner | Outer | System

datatype coherency = NonCoherent | Coherent

record memory_attributes =
  ma_cache :: cache_policy
  ma_shareability :: shareability
  ma_coherency :: coherency

text \<open>The discriminant that \<^verbatim>\<open>cache as usize\<close> yields: the declaration order.\<close>

fun cache_as_usize :: "cache_policy \<Rightarrow> nat" where
  "cache_as_usize Writeback = 0"
| "cache_as_usize Uncached = 1"
| "cache_as_usize WriteCombine = 2"
| "cache_as_usize WriteThrough = 3"

definition ma_new :: "cache_policy \<Rightarrow> shareability \<Rightarrow> coherency \<Rightarrow> memory_attributes" where
  "ma_new c s h = \<lparr>ma_cache = c, ma_shareability = s, ma_coherency = h\<rparr>"

definition ma_default :: memory_attributes where
  "ma_default = \<lparr>ma_cache = Writeback, ma_shareability = Inner, ma_coherency = Coherent\<rparr>"

definition ma_writeback :: memory_attributes where
  "ma_writeback = ma_new Writeback Inner Coherent"

definition ma_with_cache :: "memory_attributes \<Rightarrow> cache_policy \<Rightarrow> memory_attributes" where
  "ma_with_cache m c = m\<lparr>ma_cache := c\<rparr>"

definition ma_with_shareability :: "memory_attributes \<Rightarrow> shareability \<Rightarrow> memory_attributes" where
  "ma_with_shareability m s = m\<lparr>ma_shareability := s\<rparr>"

definition ma_with_coherency :: "memory_attributes \<Rightarrow> coherency \<Rightarrow> memory_attributes" where
  "ma_with_coherency m h = m\<lparr>ma_coherency := h\<rparr>"

lemmas ma_defs = ma_new_def ma_default_def ma_writeback_def ma_with_cache_def
  ma_with_shareability_def ma_with_coherency_def

lemma ma_default_writeback: "ma_default = ma_writeback"
  by (simp add: ma_defs)

end
