(* ===== verification/Paging.thy ===== *)
theory Paging
  imports AddrLib Attrs
begin

text \<open>
  \<^verbatim>\<open>src/src/paging.rs\<close>: the traits of the crate as records of functions (one field per
  method or associated constant), with the default methods as functions that build such a
  record, and the no-op TLB. The walker is a client of these interfaces; the architecture
  theories provide them.
\<close>

section \<open>Page-table entries\<close>

datatype pte_kind = Table | Leaf | Invalid

definition kind_is_leaf :: "pte_kind \<Rightarrow> bool" where
  "kind_is_leaf k \<longleftrightarrow> k = Leaf"

definition kind_is_table :: "pte_kind \<Rightarrow> bool" where
  "kind_is_table k \<longleftrightarrow> k = Table"

text \<open>
  The trait \<^verbatim>\<open>PageTableEntry\<close>. Its representation contract makes every implementation a
  transparent newtype over \<^verbatim>\<open>u64\<close>, so an entry is its 64 bits; \<open>'f\<close> is the associated
  type \<^verbatim>\<open>Flags\<close>. Levels are \<^verbatim>\<open>u8\<close> values between 0 and 6 and are natural numbers here.
\<close>

record 'f pte_impl =
  new_leaf :: "paddr \<Rightarrow> 'f \<Rightarrow> page_size \<Rightarrow> u64"
  new_table :: "paddr \<Rightarrow> nat \<Rightarrow> u64"
  pte_paddr :: "u64 \<Rightarrow> paddr"
  pte_flags :: "u64 \<Rightarrow> 'f"
  is_present :: "u64 \<Rightarrow> bool"
  entry_kind :: "u64 \<Rightarrow> nat \<Rightarrow> pte_kind"
  pte_clear :: "u64 \<Rightarrow> u64"
  pte_from_bits :: "u64 \<Rightarrow> u64"

definition is_leaf_at :: "'f pte_impl \<Rightarrow> u64 \<Rightarrow> nat \<Rightarrow> bool" where
  "is_leaf_at P e level = kind_is_leaf (entry_kind P e level)"

section \<open>Paging metadata\<close>

text \<open>
  The trait \<^verbatim>\<open>PagingMetaData\<close>: the geometry of a translation format. Shifts and widths are
  \<^verbatim>\<open>u32\<close> values far from their bounds and are natural numbers.
\<close>

record meta_impl =
  LEVELS :: nat
  PA_MAX_BITS :: nat
  VA_MAX_BITS :: nat
  INDEX_BITS :: nat
  BASE_PAGE_SIZE :: page_size
  TABLE_FRAME_SIZE :: page_size
  ENTRIES_PER_TABLE :: nat
  level_shift :: "nat \<Rightarrow> nat"
  level_index_bits :: "nat \<Rightarrow> nat"
  level_supports_leaf :: "nat \<Rightarrow> page_size \<Rightarrow> bool"
  leaf_size_at_level :: "nat \<Rightarrow> page_size option"
  size_to_level :: "page_size \<Rightarrow> nat option"
  vaddr_is_valid :: "vaddr \<Rightarrow> bool"
  paddr_is_valid :: "paddr \<Rightarrow> bool"

subsection \<open>Default methods\<close>

definition default_leaf_size_at_level :: "(nat \<Rightarrow> nat) \<Rightarrow> nat \<Rightarrow> page_size option" where
  "default_leaf_size_at_level shift level =
     (let s = shift level in
      if s = 12 then Some Size4K
      else if s = 14 then Some Size16K
      else if s = 16 then Some Size64K
      else if s = 21 then Some Size2M
      else if s = 25 then Some Size32M
      else if s = 29 then Some Size512M
      else if s = 30 then Some Size1G
      else if s = 36 then Some Size64G
      else if s = 39 then Some Size512G
      else if s = 42 then Some Size4T
      else None)"

text \<open>The \<^verbatim>\<open>while\<close> loop of \<^verbatim>\<open>size_to_level\<close>, from \<^verbatim>\<open>lvl = 1\<close> upwards.\<close>

function size_to_level_loop ::
  "nat \<Rightarrow> (nat \<Rightarrow> page_size \<Rightarrow> bool) \<Rightarrow> page_size \<Rightarrow> nat \<Rightarrow> nat option" where
  "size_to_level_loop levels supports sz lvl =
     (if lvl \<le> levels
      then if supports lvl sz then Some lvl
           else size_to_level_loop levels supports sz (lvl + 1)
      else None)"
  by pat_completeness auto
termination
  by (relation "measure (\<lambda>(levels, _, _, lvl). Suc levels - lvl)") auto

declare size_to_level_loop.simps [simp del]

definition default_size_to_level ::
  "nat \<Rightarrow> (nat \<Rightarrow> page_size \<Rightarrow> bool) \<Rightarrow> page_size \<Rightarrow> nat option" where
  "default_size_to_level levels supports sz = size_to_level_loop levels supports sz 1"

definition default_vaddr_is_valid :: "nat \<Rightarrow> vaddr \<Rightarrow> bool" where
  "default_vaddr_is_valid va_max_bits v =
     (if 64 \<le> va_max_bits then True else v < push_bit va_max_bits 1)"

definition default_paddr_is_valid :: "nat \<Rightarrow> paddr \<Rightarrow> bool" where
  "default_paddr_is_valid pa_max_bits p =
     (if 64 \<le> pa_max_bits then True else p < push_bit pa_max_bits 1)"

lemma size_to_level_loop_Some:
  "size_to_level_loop levels supports sz lvl = Some t \<longleftrightarrow>
     lvl \<le> t \<and> t \<le> levels \<and> supports t sz \<and> (\<forall>k. lvl \<le> k \<and> k < t \<longrightarrow> \<not> supports k sz)"
proof (induction levels supports sz lvl rule: size_to_level_loop.induct)
  case (1 levels supports sz lvl)
  show ?case
  proof (cases "lvl \<le> levels \<and> \<not> supports lvl sz")
    case True
    then have "size_to_level_loop levels supports sz lvl =
        size_to_level_loop levels supports sz (lvl + 1)"
      by (simp add: size_to_level_loop.simps [of levels supports sz lvl])
    moreover have "(lvl + 1 \<le> t \<and> t \<le> levels \<and> supports t sz \<and>
        (\<forall>k. lvl + 1 \<le> k \<and> k < t \<longrightarrow> \<not> supports k sz)) =
      (lvl \<le> t \<and> t \<le> levels \<and> supports t sz \<and>
        (\<forall>k. lvl \<le> k \<and> k < t \<longrightarrow> \<not> supports k sz))"
      using True by (metis Suc_eq_plus1 le_eq_less_or_eq less_eq_Suc_le)
    ultimately show ?thesis
      using 1 True by simp
  next
    case False
    then have "size_to_level_loop levels supports sz lvl =
        (if lvl \<le> levels then Some lvl else None)"
      by (simp add: size_to_level_loop.simps [of levels supports sz lvl])
    with False show ?thesis
      by (auto simp: le_less)
  qed
qed

lemma default_size_to_level_Some:
  "default_size_to_level levels supports sz = Some t \<longleftrightarrow>
     1 \<le> t \<and> t \<le> levels \<and> supports t sz \<and> (\<forall>k. 1 \<le> k \<and> k < t \<longrightarrow> \<not> supports k sz)"
  by (simp add: default_size_to_level_def size_to_level_loop_Some)

lemma default_size_to_level_exists:
  assumes "1 \<le> l" "l \<le> levels" "supports l sz"
  shows "\<exists>t. default_size_to_level levels supports sz = Some t"
proof -
  let ?P = "\<lambda>t. 1 \<le> t \<and> t \<le> levels \<and> supports t sz"
  have "\<exists>t. ?P t" using assms by blast
  then obtain t where t: "?P t" "\<And>k. k < t \<Longrightarrow> \<not> ?P k"
    unfolding exists_least_iff [of ?P] by blast
  have "\<not> supports k sz" if "1 \<le> k" "k < t" for k
    using t(2) [OF that(2)] t(1) that by linarith
  then have "default_size_to_level levels supports sz = Some t"
    using t(1) by (simp add: default_size_to_level_Some)
  then show ?thesis by blast
qed

lemma default_leaf_size_iff:
  "default_leaf_size_at_level shift level = Some s \<longleftrightarrow> shift level = size_shift s"
  by (cases s) (auto simp: default_leaf_size_at_level_def Let_def)

lemma word_less_push_bit:
  assumes "k < 64"
  shows "(v :: u64) < push_bit k 1 \<longleftrightarrow> (\<forall>n\<ge>k. \<not> bit v n)"
proof -
  have "v < push_bit k 1 \<longleftrightarrow> unat v < 2 ^ k"
    by (simp only: word_less_nat_alt unat_push_bit_one [OF assms])
  also have "\<dots> \<longleftrightarrow> drop_bit k (unat v) = 0"
    by (simp add: drop_bit_eq_div div_eq_0_iff)
  also have "\<dots> \<longleftrightarrow> drop_bit k v = 0"
    by (simp add: unat_drop_bit_eq [symmetric] unat_eq_0)
  also have "\<dots> \<longleftrightarrow> (\<forall>n\<ge>k. \<not> bit v n)"
    using drop_bit_eq_iff_bits [of k v 0] by simp
  finally show ?thesis .
qed

section \<open>TLB invalidation\<close>

text \<open>
  The trait \<^verbatim>\<open>TlbInvalidation\<close>. An invalidation has no result and no effect on memory; it
  is the list of instructions (type \<open>'h\<close>) it issues.
\<close>

record 'h tlb_impl =
  flush_tlb_local :: "vaddr \<Rightarrow> 'h list"
  flush_tlb_all_local :: "'h list"
  flush_tlb_range_local :: "vaddr \<Rightarrow> page_size \<Rightarrow> usize \<Rightarrow> 'h list"
  prefer_full_flush :: "usize \<Rightarrow> bool"

text \<open>The default range invalidation: a per-page sweep whose address saturates.\<close>

fun default_flush_range_loop :: "(vaddr \<Rightarrow> 'h list) \<Rightarrow> usize \<Rightarrow> usize \<Rightarrow> nat \<Rightarrow> 'h list" where
  "default_flush_range_loop flush stride base 0 = []"
| "default_flush_range_loop flush stride base (Suc n) =
     flush base @ default_flush_range_loop flush stride (saturating_add base stride) n"

definition default_flush_tlb_range_local ::
  "(vaddr \<Rightarrow> 'h list) \<Rightarrow> vaddr \<Rightarrow> page_size \<Rightarrow> usize \<Rightarrow> 'h list" where
  "default_flush_tlb_range_local flush start page_size count_pages =
     default_flush_range_loop flush (bytes page_size) start (unat count_pages)"

text \<open>Away from the top of the address space the sweep is one invalidation per page.\<close>

lemma default_flush_range_loop_pages:
  "unat base + (n - 1) * unat stride < 2 ^ 64 \<Longrightarrow>
     default_flush_range_loop flush stride base n =
       concat (map (\<lambda>i. flush (base + of_nat i * stride)) [0..<n])"
proof (induction n arbitrary: base)
  case 0
  then show ?case by simp
next
  case (Suc n)
  have list: "map (\<lambda>i. flush (base + of_nat i * stride)) [0..<Suc n] =
      flush base # map (\<lambda>i. flush (base + stride + of_nat i * stride)) [0..<n]"
    by (simp add: upt_conv_Cons map_Suc_upt [symmetric] algebra_simps del: upt_Suc map_Suc_upt)
  show ?case
  proof (cases n)
    case 0
    then show ?thesis by simp
  next
    case (Suc k)
    have "unat base + unat stride + k * unat stride < 2 ^ 64"
      using Suc.prems Suc by (simp add: algebra_simps)
    moreover from this have "unat base + unat stride < 2 ^ 64" by simp
    ultimately have "saturating_add base stride = base + stride"
      "unat (base + stride) + (n - 1) * unat stride < 2 ^ 64"
      using Suc by (simp_all add: saturating_add_def unat_word_ariths)
    then show ?thesis using Suc.IH [of "base + stride"] by (simp add: list del: upt_Suc)
  qed
qed

definition default_prefer_full_flush :: "usize \<Rightarrow> bool" where
  "default_prefer_full_flush pending_count \<longleftrightarrow> 32 < pending_count"

definition NoFlush :: "'h tlb_impl" where
  "NoFlush =
     \<lparr>flush_tlb_local = (\<lambda>_. []),
      flush_tlb_all_local = [],
      flush_tlb_range_local = (\<lambda>_ _ _. []),
      prefer_full_flush = (\<lambda>_. False)\<rparr>"

section \<open>Frame allocation\<close>

text \<open>
  Kernel-visible memory is a map from the address of an 8-byte cell to its contents. The
  trait \<^verbatim>\<open>FrameAllocator\<close> is implemented by the consumer of the crate: its operations are
  arguments of the walker, they act on a state of their own (\<open>'s\<close>) and on memory
  (\<^verbatim>\<open>allocate\<close> hands out a zeroed range).
\<close>

type_synonym memory = "usize \<Rightarrow> u64"

record 's alloc_impl =
  allocate :: "usize \<Rightarrow> page_size \<Rightarrow> 's \<times> memory \<Rightarrow> addr_range res \<times> 's \<times> memory"
  deallocate :: "addr_range \<Rightarrow> 's \<times> memory \<Rightarrow> unit res \<times> 's \<times> memory"
  phys_to_virt :: "paddr \<Rightarrow> vaddr"

section \<open>Address-space activation\<close>

text \<open>
  The trait \<^verbatim>\<open>AddrSpaceActivation\<close> over the state \<open>'c\<close> of a CPU, with the token type
  \<open>'t\<close> and the controls type \<open>'k\<close>; the default \<^verbatim>\<open>current\<close> observes nothing and the
  default \<^verbatim>\<open>uninstall\<close> does nothing.
\<close>

record ('t, 'k, 'c) activation_impl =
  token_root :: "'t \<Rightarrow> paddr"
  install :: "paddr \<Rightarrow> 'k \<Rightarrow> 't res"
  activate :: "'t \<Rightarrow> 'c \<Rightarrow> unit res \<times> 'c"
  current :: "'c \<Rightarrow> 't option res \<times> 'c"
  uninstall :: "'t \<Rightarrow> unit res"

definition default_current :: "'c \<Rightarrow> 't option res \<times> 'c" where
  "default_current c = (Ok None, c)"

definition default_uninstall :: "'t \<Rightarrow> unit res" where
  "default_uninstall t = Ok ()"

end
