(* ===== verification/Mappings.thy ===== *)
theory Mappings
  imports Paging
begin

text \<open>
  \<^verbatim>\<open>src/src/mapping.rs\<close>: a resolved leaf mapping, the physical backing of a mapping
  request, and the contiguity policy carried next to the leaf flags.
\<close>

section \<open>Resolved mappings\<close>

record 'f mapping =
  m_range :: addr_range
  m_paddr :: paddr
  m_flags :: 'f

definition mapping_new :: "addr_range \<Rightarrow> paddr \<Rightarrow> 'f \<Rightarrow> 'f mapping" where
  "mapping_new r p f = \<lparr>m_range = r, m_paddr = p, m_flags = f\<rparr>"

definition mapping_size :: "addr_lib \<Rightarrow> 'f mapping \<Rightarrow> page_size option" where
  "mapping_size L m = from_bytes (range_size L (m_range m))"

section \<open>Physical backing\<close>

datatype map_backing = ContiguousBacking addr_range | ScatteredBacking "addr_range list"

definition contiguous_from_start_size :: "addr_lib \<Rightarrow> paddr \<Rightarrow> usize \<Rightarrow> map_backing res" where
  "contiguous_from_start_size L start sz =
     bind_res (range_from_start_size L start sz) (\<lambda>r. Ok (ContiguousBacking r))"

text \<open>
  The types that implement \<^verbatim>\<open>IntoMapBacking\<close>: a backing, a bare physical address, a
  physical range, and a slice, an array or a \<^verbatim>\<open>heapless::Vec\<close> of ranges (all three are read
  as a slice).
\<close>

datatype backing_source =
    FromBacking map_backing
  | FromPhysAddr paddr
  | FromRange addr_range
  | FromSlice "addr_range list"

fun into_map_backing :: "addr_lib \<Rightarrow> backing_source \<Rightarrow> usize \<Rightarrow> map_backing res" where
  "into_map_backing L (FromBacking b) virtual_size = Ok b"
| "into_map_backing L (FromPhysAddr p) virtual_size = contiguous_from_start_size L p virtual_size"
| "into_map_backing L (FromRange r) virtual_size = Ok (ContiguousBacking r)"
| "into_map_backing L (FromSlice rs) virtual_size = Ok (ScatteredBacking rs)"

section \<open>Mapping flags\<close>

datatype contiguity = Contiguous | Scattered page_size

record 'f mapping_flags =
  mf_leaf :: 'f
  mf_contiguity :: contiguity

definition mapping_flags_new :: "'f \<Rightarrow> 'f mapping_flags" where
  "mapping_flags_new f = \<lparr>mf_leaf = f, mf_contiguity = Contiguous\<rparr>"

definition mapping_flags_scattered :: "'f \<Rightarrow> page_size \<Rightarrow> 'f mapping_flags" where
  "mapping_flags_scattered f granule = \<lparr>mf_leaf = f, mf_contiguity = Scattered granule\<rparr>"

definition mapping_flags_with_contiguity :: "'f mapping_flags \<Rightarrow> contiguity \<Rightarrow> 'f mapping_flags" where
  "mapping_flags_with_contiguity m c = m\<lparr>mf_contiguity := c\<rparr>"

end
