(* ===== verification/Frames.thy ===== *)
theory Frames
  imports Mappings
begin

text \<open>
  The ground floor of \<^verbatim>\<open>src/src/walker.rs\<close>: the generic parameters of
  \<^verbatim>\<open>PageTableWalker<Meta, Entry, Alloc>\<close> as one record, the machine state the walker acts
  on, access to table entries through the kernel window, table-frame allocation, and the
  internal helpers (index arithmetic, range checks, leaf-size selection).
\<close>

section \<open>Parameters and state\<close>

record ('f, 's, 'h) env =
  e_meta :: meta_impl
  e_pte :: "'f pte_impl"
  e_alloc :: "'s alloc_impl"
  e_tlb :: "'h tlb_impl"
  e_addr :: addr_lib

text \<open>
  The log records, in order, the table frames handed back to the allocator and the
  invalidation instructions issued, so that the order of the two kinds of effect is part of
  the state.
\<close>

datatype 'h event = Freed addr_range | Tlb 'h

record ('s, 'h) world =
  mem :: memory
  astate :: 's
  log :: "'h event list"

definition emit :: "'h list \<Rightarrow> ('s, 'h) world \<Rightarrow> ('s, 'h) world" where
  "emit is w = w\<lparr>log := log w @ map Tlb is\<rparr>"

definition MAX_LEVELS :: nat where
  "MAX_LEVELS = 6"

section \<open>Entries of a table frame\<close>

text \<open>The 8-byte cell of entry \<open>idx\<close> of the table at \<open>pa\<close>, seen through \<^verbatim>\<open>phys_to_virt\<close>.\<close>

definition entry_cell :: "('f, 's, 'h) env \<Rightarrow> paddr \<Rightarrow> nat \<Rightarrow> usize" where
  "entry_cell E pa idx = phys_to_virt (e_alloc E) pa + of_nat idx * 8"

definition read_entry :: "('f, 's, 'h) env \<Rightarrow> memory \<Rightarrow> paddr \<Rightarrow> nat \<Rightarrow> u64" where
  "read_entry E m pa idx = m (entry_cell E pa idx)"

definition write_entry :: "('f, 's, 'h) env \<Rightarrow> memory \<Rightarrow> paddr \<Rightarrow> nat \<Rightarrow> u64 \<Rightarrow> memory" where
  "write_entry E m pa idx e = m(entry_cell E pa idx := e)"

definition store :: "('f, 's, 'h) env \<Rightarrow> paddr \<Rightarrow> nat \<Rightarrow> u64 \<Rightarrow> ('s, 'h) world \<Rightarrow> ('s, 'h) world" where
  "store E pa idx e w = w\<lparr>mem := write_entry E (mem w) pa idx e\<rparr>"

definition entry_is_leaf :: "('f, 's, 'h) env \<Rightarrow> u64 \<Rightarrow> nat \<Rightarrow> bool res" where
  "entry_is_leaf E pte level =
     (case entry_kind (e_pte E) pte level of
        Leaf \<Rightarrow> Ok True
      | Table \<Rightarrow> Ok False
      | Invalid \<Rightarrow> Err InvalidEntryKind)"

fun is_table_empty_from :: "('f, 's, 'h) env \<Rightarrow> memory \<Rightarrow> paddr \<Rightarrow> nat list \<Rightarrow> bool" where
  "is_table_empty_from E m pa [] = True"
| "is_table_empty_from E m pa (i # is) =
     (if is_present (e_pte E) (read_entry E m pa i) then False
      else is_table_empty_from E m pa is)"

definition is_table_empty :: "('f, 's, 'h) env \<Rightarrow> memory \<Rightarrow> paddr \<Rightarrow> bool" where
  "is_table_empty E m pa = is_table_empty_from E m pa [0..<ENTRIES_PER_TABLE (e_meta E)]"

section \<open>Table frames\<close>

text \<open>
  \<^verbatim>\<open>assert_walker_layout\<close>: an entry is 8 bytes by the representation contract, so the first
  two assertions hold; the other two compare metadata constants and panic when they fail.
\<close>

definition assert_walker_layout :: "('f, 's, 'h) env \<Rightarrow> unit res" where
  "assert_walker_layout E =
     (if LEVELS (e_meta E) \<le> MAX_LEVELS \<and>
         ENTRIES_PER_TABLE (e_meta E) * 8 \<le> unat (bytes (TABLE_FRAME_SIZE (e_meta E)))
      then Ok () else Panic)"

definition call_deallocate :: "('f, 's, 'h) env \<Rightarrow> addr_range \<Rightarrow> ('s, 'h) world \<Rightarrow>
    unit res \<times> ('s, 'h) world" where
  "call_deallocate E r w =
     (case deallocate (e_alloc E) r (astate w, mem w) of
        (res, s, m) \<Rightarrow> (res, w\<lparr>astate := s, mem := m, log := log w @ [Freed r]\<rparr>))"

definition alloc_table_frame :: "('f, 's, 'h) env \<Rightarrow> ('s, 'h) world \<Rightarrow>
    paddr res \<times> ('s, 'h) world" where
  "alloc_table_frame E w =
     (let ts = TABLE_FRAME_SIZE (e_meta E) in
      case allocate (e_alloc E) (bytes ts) ts (astate w, mem w) of
        (res, s, m) \<Rightarrow>
          bind_st (res, w\<lparr>astate := s, mem := m\<rparr>) (\<lambda>rg w.
            if range_size (e_addr E) rg \<noteq> bytes ts \<or> \<not> is_aligned ts (rng_start rg)
            then (case call_deallocate E rg w of
                    (Panic, w) \<Rightarrow> (Panic, w)
                  | (_, w) \<Rightarrow> (Err NotAligned, w))
            else (Ok (rng_start rg), w)))"

definition dealloc_table_frame :: "('f, 's, 'h) env \<Rightarrow> paddr \<Rightarrow> ('s, 'h) world \<Rightarrow>
    unit res \<times> ('s, 'h) world" where
  "dealloc_table_frame E pa w =
     bind_st (range_from_start_size (e_addr E) pa (bytes (TABLE_FRAME_SIZE (e_meta E))), w)
       (\<lambda>rg w. call_deallocate E rg w)"

section \<open>Index arithmetic and range checks\<close>

definition index_mask :: "meta_impl \<Rightarrow> nat \<Rightarrow> usize" where
  "index_mask M level =
     (let bits = level_index_bits M level in
      if 64 \<le> bits then - 1 else push_bit bits 1 - 1)"

definition index_at :: "meta_impl \<Rightarrow> nat \<Rightarrow> vaddr \<Rightarrow> nat" where
  "index_at M level v = unat (drop_bit (level_shift M level) v AND index_mask M level)"

definition check_vaddr :: "meta_impl \<Rightarrow> vaddr \<Rightarrow> unit res" where
  "check_vaddr M v = (if vaddr_is_valid M v then Ok () else Err AddressOutOfRange)"

definition check_paddr :: "meta_impl \<Rightarrow> paddr \<Rightarrow> unit res" where
  "check_paddr M p = (if paddr_is_valid M p then Ok () else Err AddressOutOfRange)"

definition check_leaf_range :: "addr_lib \<Rightarrow> meta_impl \<Rightarrow> addr_range \<Rightarrow> page_size res" where
  "check_leaf_range L M rg =
     (if range_is_empty L rg then Err UnsupportedSize
      else bind_res (ok_or (from_bytes (range_size L rg)) UnsupportedSize) (\<lambda>sz.
        bind_res (check_vaddr M (rng_start rg)) (\<lambda>_.
        bind_res (ok_or (addr_checked_sub L (rng_end rg) 1) AddressOutOfRange) (\<lambda>last.
        bind_res (check_vaddr M last) (\<lambda>_.
        if \<not> is_aligned sz (rng_start rg) then Err NotAligned else Ok sz)))))"

definition leaf_range :: "addr_lib \<Rightarrow> vaddr \<Rightarrow> page_size \<Rightarrow> addr_range res" where
  "leaf_range L v sz =
     (let base = addr_align_down L v (bytes sz) in
      ok_or (range_try_from_start_size L base (bytes sz)) AddressOutOfRange)"

definition offset_vaddr :: "vaddr \<Rightarrow> usize \<Rightarrow> vaddr res" where
  "offset_vaddr base offset = ok_or (checked_add base offset) AddressOutOfRange"

definition offset_paddr :: "paddr \<Rightarrow> usize \<Rightarrow> paddr res" where
  "offset_paddr base offset = ok_or (checked_add base offset) AddressOutOfRange"

definition LEAF_SIZES_DESC :: "page_size list" where
  "LEAF_SIZES_DESC =
     [Size4T, Size512G, Size64G, Size1G, Size512M, Size32M, Size2M, Size64K, Size16K, Size4K]"

fun best_leaf_size_from :: "meta_impl \<Rightarrow> page_size list \<Rightarrow> vaddr \<Rightarrow> paddr \<Rightarrow> usize \<Rightarrow>
    page_size res" where
  "best_leaf_size_from M [] v p remaining = Err UnsupportedSize"
| "best_leaf_size_from M (sz # szs) v p remaining =
     (if bytes sz \<le> remaining \<and> is_aligned sz v \<and> is_aligned sz p \<and> size_to_level M sz \<noteq> None
      then Ok sz
      else best_leaf_size_from M szs v p remaining)"

definition best_leaf_size :: "meta_impl \<Rightarrow> vaddr \<Rightarrow> paddr \<Rightarrow> usize \<Rightarrow> page_size res" where
  "best_leaf_size M v p remaining = best_leaf_size_from M LEAF_SIZES_DESC v p remaining"

definition exact_leaf_size :: "addr_lib \<Rightarrow> meta_impl \<Rightarrow> addr_range \<Rightarrow> paddr \<Rightarrow>
    page_size option \<Rightarrow> (page_size \<times> nat) option res" where
  "exact_leaf_size L M rg p fixed =
     (case from_bytes (range_size L rg) of
        None \<Rightarrow> Ok None
      | Some sz \<Rightarrow>
          if (case fixed of None \<Rightarrow> False | Some f \<Rightarrow> f \<noteq> sz) then Ok None
          else
            bind_res (check_vaddr M (rng_start rg)) (\<lambda>_.
            bind_res (ok_or (addr_checked_sub L (rng_end rg) 1) AddressOutOfRange) (\<lambda>last.
            bind_res (check_vaddr M last) (\<lambda>_.
            if \<not> is_aligned sz (rng_start rg) then Err NotAligned
            else
              bind_res (check_paddr M p) (\<lambda>_.
              if \<not> is_aligned sz p then Err NotAligned
              else
                bind_res (ok_or (size_to_level M sz) UnsupportedSize) (\<lambda>target_level.
                Ok (Some (sz, target_level))))))))"

section \<open>Flushing one leaf range\<close>

definition flush_leaf_range :: "('f, 's, 'h) env \<Rightarrow> addr_range \<Rightarrow> ('s, 'h) world \<Rightarrow>
    ('s, 'h) world" where
  "flush_leaf_range E rg w =
     (let base = BASE_PAGE_SIZE (e_meta E);
          count_pages = range_size (e_addr E) rg div bytes base in
      if prefer_full_flush (e_tlb E) count_pages
      then emit (flush_tlb_all_local (e_tlb E)) w
      else emit (flush_tlb_range_local (e_tlb E) (rng_start rg) base count_pages) w)"

end
