(* ===== verification/Walker.thy ===== *)
theory Walker
  imports Frames
begin

text \<open>
  \<^verbatim>\<open>PageTableWalker\<close> of \<^verbatim>\<open>src/src/walker.rs\<close>: construction, lookup, the direct map path,
  remap, protect, unmap with reclamation, split, merge and the recursive drop. A walker is
  its root frame; an operation takes the world and returns a result and the new world.
  Every loop that decrements \<^verbatim>\<open>level\<close> is a recursion on it; reaching level 0 is a panic, since
  \<^verbatim>\<open>level_shift(0)\<close> underflows.
\<close>

section \<open>Construction\<close>

definition try_new :: "('f, 's, 'h) env \<Rightarrow> ('s, 'h) world \<Rightarrow> paddr res \<times> ('s, 'h) world" where
  "try_new E w =
     bind_st (assert_walker_layout E, w) (\<lambda>_ w. alloc_table_frame E w)"

definition adopt :: "('f, 's, 'h) env \<Rightarrow> paddr \<Rightarrow> paddr res" where
  "adopt E root = bind_res (assert_walker_layout E) (\<lambda>_. Ok root)"

section \<open>Lookup\<close>

fun query_walk :: "('f, 's, 'h) env \<Rightarrow> memory \<Rightarrow> nat \<Rightarrow> paddr \<Rightarrow> vaddr \<Rightarrow> 'f mapping res" where
  "query_walk E m 0 cur v = Panic"
| "query_walk E m (Suc l) cur v =
     (let level = Suc l; P = e_pte E;
          pte = read_entry E m cur (index_at (e_meta E) level v) in
      if \<not> is_present P pte then Err NotMapped
      else bind_res (entry_is_leaf E pte level) (\<lambda>leaf.
        if leaf then
          bind_res (ok_or (leaf_size_at_level (e_meta E) level) UnsupportedSize) (\<lambda>sz.
          bind_res (leaf_range (e_addr E) v sz) (\<lambda>rg.
          Ok (mapping_new rg (pte_paddr P pte) (pte_flags P pte))))
        else query_walk E m l (pte_paddr P pte) v))"

definition query :: "('f, 's, 'h) env \<Rightarrow> paddr \<Rightarrow> vaddr \<Rightarrow> memory \<Rightarrow> 'f mapping res" where
  "query E root v m =
     bind_res (check_vaddr (e_meta E) v) (\<lambda>_. query_walk E m (LEVELS (e_meta E)) root v)"

fun exact_leaf_walk :: "('f, 's, 'h) env \<Rightarrow> memory \<Rightarrow> addr_range \<Rightarrow> nat \<Rightarrow> paddr \<Rightarrow>
    (paddr \<times> nat \<times> u64 \<times> page_size) res" where
  "exact_leaf_walk E m rg 0 cur = Panic"
| "exact_leaf_walk E m rg (Suc l) cur =
     (let level = Suc l; P = e_pte E; v = rng_start rg;
          idx = index_at (e_meta E) level v;
          pte = read_entry E m cur idx in
      if \<not> is_present P pte then Err NotMapped
      else bind_res (entry_is_leaf E pte level) (\<lambda>leaf.
        if leaf then
          bind_res (ok_or (leaf_size_at_level (e_meta E) level) UnsupportedSize) (\<lambda>sz.
          bind_res (leaf_range (e_addr E) v sz) (\<lambda>lr.
          if lr \<noteq> rg then Err NotMapped else Ok (cur, idx, pte, sz)))
        else exact_leaf_walk E m rg l (pte_paddr P pte)))"

definition exact_leaf_slot :: "('f, 's, 'h) env \<Rightarrow> paddr \<Rightarrow> addr_range \<Rightarrow> memory \<Rightarrow>
    (paddr \<times> nat \<times> u64 \<times> page_size) res" where
  "exact_leaf_slot E root rg m =
     bind_res (check_vaddr (e_meta E) (rng_start rg)) (\<lambda>_.
     exact_leaf_walk E m rg (LEVELS (e_meta E)) root)"

section \<open>The direct map path\<close>

text \<open>The loop \<^verbatim>\<open>while level > target_level\<close>: follow tables, allocating the absent ones.\<close>

fun map_descend :: "('f, 's, 'h) env \<Rightarrow> nat \<Rightarrow> vaddr \<Rightarrow> nat \<Rightarrow> paddr \<Rightarrow> ('s, 'h) world \<Rightarrow>
    (paddr \<times> nat) res \<times> ('s, 'h) world" where
  "map_descend E target v 0 cur w = (Panic, w)"
| "map_descend E target v (Suc l) cur w =
     (let level = Suc l; P = e_pte E in
      if target < level then
        let idx = index_at (e_meta E) level v;
            pte = read_entry E (mem w) cur idx in
        if is_present P pte then
          bind_st (entry_is_leaf E pte level, w) (\<lambda>leaf w.
            if leaf then (Err AlreadyMapped, w)
            else map_descend E target v l (pte_paddr P pte) w)
        else
          bind_st (alloc_table_frame E w) (\<lambda>child w.
            map_descend E target v l child (store E cur idx (new_table P child level) w))
      else (Ok (cur, level), w))"

definition install_leaf :: "('f, 's, 'h) env \<Rightarrow> vaddr \<Rightarrow> paddr \<Rightarrow> 'f \<Rightarrow> page_size \<Rightarrow> paddr \<Rightarrow> nat \<Rightarrow>
    ('s, 'h) world \<Rightarrow> unit res \<times> ('s, 'h) world" where
  "install_leaf E v p flags sz cur level w =
     (let idx = index_at (e_meta E) level v;
          existing = read_entry E (mem w) cur idx in
      if is_present (e_pte E) existing then (Err AlreadyMapped, w)
      else (Ok (), store E cur idx (new_leaf (e_pte E) p flags sz) w))"

definition map_leaf_direct_sized_no_flush :: "('f, 's, 'h) env \<Rightarrow> paddr \<Rightarrow> addr_range \<Rightarrow> paddr \<Rightarrow>
    'f \<Rightarrow> page_size \<Rightarrow> nat \<Rightarrow> ('s, 'h) world \<Rightarrow> unit res \<times> ('s, 'h) world" where
  "map_leaf_direct_sized_no_flush E root rg p flags sz target w =
     bind_st (map_descend E target (rng_start rg) (LEVELS (e_meta E)) root w) (\<lambda>(cur, level) w.
     install_leaf E (rng_start rg) p flags sz cur level w)"

section \<open>Remap and protect\<close>

definition remap_no_flush :: "('f, 's, 'h) env \<Rightarrow> paddr \<Rightarrow> addr_range \<Rightarrow> paddr \<Rightarrow> 'f \<Rightarrow>
    ('s, 'h) world \<Rightarrow> 'f mapping res \<times> ('s, 'h) world" where
  "remap_no_flush E root rg p flags w =
     bind_st (check_paddr (e_meta E) p, w) (\<lambda>_ w.
     bind_st (exact_leaf_slot E root rg (mem w), w) (\<lambda>(cur, idx, pte, sz) w.
     if \<not> is_aligned sz p then (Err NotAligned, w)
     else (Ok (mapping_new rg p flags), store E cur idx (new_leaf (e_pte E) p flags sz) w)))"

definition remap :: "('f, 's, 'h) env \<Rightarrow> paddr \<Rightarrow> addr_range \<Rightarrow> paddr \<Rightarrow> 'f \<Rightarrow>
    ('s, 'h) world \<Rightarrow> 'f mapping res \<times> ('s, 'h) world" where
  "remap E root rg p flags w =
     bind_st (remap_no_flush E root rg p flags w) (\<lambda>mapping w.
     (Ok mapping, flush_leaf_range E (m_range mapping) w))"

definition protect_no_flush :: "('f, 's, 'h) env \<Rightarrow> paddr \<Rightarrow> addr_range \<Rightarrow> 'f \<Rightarrow>
    ('s, 'h) world \<Rightarrow> 'f mapping res \<times> ('s, 'h) world" where
  "protect_no_flush E root rg flags w =
     bind_st (exact_leaf_slot E root rg (mem w), w) (\<lambda>(cur, idx, pte, sz) w.
     let p = pte_paddr (e_pte E) pte in
     (Ok (mapping_new rg p flags), store E cur idx (new_leaf (e_pte E) p flags sz) w))"

definition protect :: "('f, 's, 'h) env \<Rightarrow> paddr \<Rightarrow> addr_range \<Rightarrow> 'f \<Rightarrow>
    ('s, 'h) world \<Rightarrow> 'f mapping res \<times> ('s, 'h) world" where
  "protect E root rg flags w =
     bind_st (protect_no_flush E root rg flags w) (\<lambda>mapping w.
     (Ok mapping, flush_leaf_range E (m_range mapping) w))"

section \<open>Unmap\<close>

text \<open>
  The descent clears the leaf and returns the mapping it held, the table it was in, and the
  stack of parents (innermost first).
\<close>

fun unmap_descend :: "('f, 's, 'h) env \<Rightarrow> addr_range \<Rightarrow> nat \<Rightarrow> paddr \<Rightarrow> (paddr \<times> nat) list \<Rightarrow>
    ('s, 'h) world \<Rightarrow> ('f mapping \<times> paddr \<times> (paddr \<times> nat) list) res \<times> ('s, 'h) world" where
  "unmap_descend E rg 0 cur parents w = (Panic, w)"
| "unmap_descend E rg (Suc l) cur parents w =
     (let level = Suc l; P = e_pte E; v = rng_start rg;
          idx = index_at (e_meta E) level v;
          pte = read_entry E (mem w) cur idx in
      if \<not> is_present P pte then (Err NotMapped, w)
      else bind_st (entry_is_leaf E pte level, w) (\<lambda>leaf w.
        if leaf then
          bind_st (ok_or (leaf_size_at_level (e_meta E) level) UnsupportedSize, w) (\<lambda>sz w.
          bind_st (leaf_range (e_addr E) v sz, w) (\<lambda>lr w.
          if lr \<noteq> rg then (Err NotMapped, w)
          else
            (Ok (mapping_new lr (pte_paddr P pte) (pte_flags P pte), cur, parents),
             store E cur idx (pte_clear P pte) w)))
        else if MAX_LEVELS \<le> length parents then (Err AddressOutOfRange, w)
        else unmap_descend E rg l (pte_paddr P pte) ((cur, idx) # parents) w))"

text \<open>Walking back up: free the tables that became empty, stop at the first that did not.\<close>

fun reclaim :: "('f, 's, 'h) env \<Rightarrow> (paddr \<times> nat) list \<Rightarrow> paddr \<Rightarrow> ('s, 'h) world \<Rightarrow>
    unit res \<times> ('s, 'h) world" where
  "reclaim E [] child w = (Ok (), w)"
| "reclaim E ((parent, idx) # parents) child w =
     (if \<not> is_table_empty E (mem w) child then (Ok (), w)
      else
        let zero = pte_clear (e_pte E) (pte_from_bits (e_pte E) 0) in
        bind_st (dealloc_table_frame E child (store E parent idx zero w)) (\<lambda>_ w.
        reclaim E parents parent w))"

definition unmap_no_flush :: "('f, 's, 'h) env \<Rightarrow> paddr \<Rightarrow> addr_range \<Rightarrow>
    ('s, 'h) world \<Rightarrow> 'f mapping res \<times> ('s, 'h) world" where
  "unmap_no_flush E root rg w =
     bind_st (check_vaddr (e_meta E) (rng_start rg), w) (\<lambda>_ w.
     bind_st (unmap_descend E rg (LEVELS (e_meta E)) root [] w) (\<lambda>(mapping, child, parents) w.
     bind_st (reclaim E parents child w) (\<lambda>_ w. (Ok mapping, w))))"

definition unmap :: "('f, 's, 'h) env \<Rightarrow> paddr \<Rightarrow> addr_range \<Rightarrow>
    ('s, 'h) world \<Rightarrow> 'f mapping res \<times> ('s, 'h) world" where
  "unmap E root rg w =
     bind_st (unmap_no_flush E root rg w) (\<lambda>mapping w.
     (Ok mapping, flush_leaf_range E (m_range mapping) w))"

section \<open>Split\<close>

text \<open>The \<^verbatim>\<open>for\<close> loop that populates the child table with the finer leaves.\<close>

fun split_fill :: "('f, 's, 'h) env \<Rightarrow> paddr \<Rightarrow> paddr \<Rightarrow> 'f \<Rightarrow> page_size \<Rightarrow> nat list \<Rightarrow>
    ('s, 'h) world \<Rightarrow> unit res \<times> ('s, 'h) world" where
  "split_fill E child leaf_paddr flags fsz [] w = (Ok (), w)"
| "split_fill E child leaf_paddr flags fsz (i # is) w =
     (case checked_mul (of_nat i) (bytes fsz) of
        None \<Rightarrow> (Panic, w)
      | Some off \<Rightarrow>
          bind_st (addr_add (e_addr E) leaf_paddr off, w) (\<lambda>sub_paddr w.
          split_fill E child leaf_paddr flags fsz is
            (store E child i (new_leaf (e_pte E) sub_paddr flags fsz) w)))"

fun split_walk :: "('f, 's, 'h) env \<Rightarrow> addr_range \<Rightarrow> nat \<Rightarrow> paddr \<Rightarrow> ('s, 'h) world \<Rightarrow>
    page_size res \<times> ('s, 'h) world" where
  "split_walk E rg 0 cur w = (Panic, w)"
| "split_walk E rg (Suc l) cur w =
     (let level = Suc l; P = e_pte E; M = e_meta E; v = rng_start rg;
          idx = index_at M level v;
          pte = read_entry E (mem w) cur idx in
      if \<not> is_present P pte then (Err NotMapped, w)
      else bind_st (entry_is_leaf E pte level, w) (\<lambda>leaf w.
        if leaf then
          if level = 1 then (Err NotMapped, w)
          else
            bind_st (ok_or (leaf_size_at_level M level) UnsupportedSize, w) (\<lambda>leaf_size w.
            bind_st (leaf_range (e_addr E) v leaf_size, w) (\<lambda>lr w.
            if lr \<noteq> rg then (Err NotMapped, w)
            else
              bind_st (ok_or (leaf_size_at_level M (level - 1)) UnsupportedSize, w) (\<lambda>fsz w.
              bind_st (alloc_table_frame E w) (\<lambda>child w.
              bind_st (split_fill E child (pte_paddr P pte) (pte_flags P pte) fsz
                         [0..<ENTRIES_PER_TABLE M] w) (\<lambda>_ w.
              (Ok fsz,
               flush_leaf_range E rg (store E cur idx (new_table P child level) w)))))))
        else if level = 1 then (Err NotMapped, w)
        else split_walk E rg l (pte_paddr P pte) w))"

definition split_at :: "('f, 's, 'h) env \<Rightarrow> paddr \<Rightarrow> addr_range \<Rightarrow> ('s, 'h) world \<Rightarrow>
    page_size res \<times> ('s, 'h) world" where
  "split_at E root rg w =
     bind_st (check_vaddr (e_meta E) (rng_start rg), w) (\<lambda>_ w.
     split_walk E rg (LEVELS (e_meta E)) root w)"

section \<open>Merge\<close>

text \<open>The loop \<^verbatim>\<open>while level > target_level\<close> of \<^verbatim>\<open>merge_at\<close>, which allocates nothing.\<close>

fun merge_descend :: "('f, 's, 'h) env \<Rightarrow> memory \<Rightarrow> nat \<Rightarrow> vaddr \<Rightarrow> nat \<Rightarrow> paddr \<Rightarrow>
    (paddr \<times> nat) res" where
  "merge_descend E m target v 0 cur = Panic"
| "merge_descend E m target v (Suc l) cur =
     (let level = Suc l; P = e_pte E in
      if target < level then
        let pte = read_entry E m cur (index_at (e_meta E) level v) in
        if \<not> is_present P pte then Err NotMapped
        else bind_res (entry_is_leaf E pte level) (\<lambda>leaf.
          if leaf then Err NotMapped
          else merge_descend E m target v l (pte_paddr P pte))
      else Ok (cur, level))"

definition usize_mul_add :: "usize \<Rightarrow> nat \<Rightarrow> usize \<Rightarrow> usize res" where
  "usize_mul_add base i stride =
     (case checked_mul (of_nat i) stride of
        None \<Rightarrow> Panic
      | Some off \<Rightarrow> (case checked_add base off of None \<Rightarrow> Panic | Some a \<Rightarrow> Ok a))"

fun merge_check :: "('f, 's, 'h) env \<Rightarrow> memory \<Rightarrow> paddr \<Rightarrow> nat \<Rightarrow> page_size \<Rightarrow> paddr \<Rightarrow> 'f \<Rightarrow>
    nat list \<Rightarrow> unit res" where
  "merge_check E m child finer_level fsz base flags [] = Ok ()"
| "merge_check E m child finer_level fsz base flags (i # is) =
     (let P = e_pte E; pte = read_entry E m child i in
      if \<not> is_present P pte then Err NotCoalescable
      else bind_res (entry_is_leaf E pte finer_level) (\<lambda>leaf.
        if \<not> leaf then Err NotCoalescable
        else if pte_flags P pte \<noteq> flags then Err NotCoalescable
        else bind_res (usize_mul_add base i (bytes fsz)) (\<lambda>expected.
          if pte_paddr P pte \<noteq> expected then Err NotCoalescable
          else merge_check E m child finer_level fsz base flags is)))"

text \<open>The checks on the child table: the base address and the flags of the merged leaf.\<close>

definition merge_children :: "('f, 's, 'h) env \<Rightarrow> memory \<Rightarrow> paddr \<Rightarrow> nat \<Rightarrow> page_size \<Rightarrow> page_size \<Rightarrow>
    (paddr \<times> 'f) res" where
  "merge_children E m child finer_level fsz tsize =
     (let P = e_pte E; first = read_entry E m child 0 in
      if \<not> is_present P first then Err NotCoalescable
      else bind_res (entry_is_leaf E first finer_level) (\<lambda>leaf.
        if \<not> leaf then Err NotCoalescable
        else
          let base = pte_paddr P first; flags = pte_flags P first in
          if \<not> is_aligned tsize base then Err NotCoalescable
          else bind_res (merge_check E m child finer_level fsz base flags
                 [1..<ENTRIES_PER_TABLE (e_meta E)]) (\<lambda>_. Ok (base, flags))))"

definition merge_at :: "('f, 's, 'h) env \<Rightarrow> paddr \<Rightarrow> addr_range \<Rightarrow> ('s, 'h) world \<Rightarrow>
    page_size res \<times> ('s, 'h) world" where
  "merge_at E root rg w =
     (let P = e_pte E; M = e_meta E; v = rng_start rg in
      bind_st (check_leaf_range (e_addr E) M rg, w) (\<lambda>tsize w.
      bind_st (ok_or (size_to_level M tsize) UnsupportedSize, w) (\<lambda>target w.
      if target \<le> 1 then (Err NotCoalescable, w)
      else
        bind_st (merge_descend E (mem w) target v (LEVELS M) root, w) (\<lambda>(cur, level) w.
        let idx = index_at M target v;
            parent_pte = read_entry E (mem w) cur idx in
        if \<not> is_present P parent_pte then (Err NotMapped, w)
        else bind_st (entry_is_leaf E parent_pte level, w) (\<lambda>leaf w.
          if leaf then (Ok tsize, w)
          else
            let child = pte_paddr P parent_pte; finer_level = target - 1 in
            bind_st (ok_or (leaf_size_at_level M finer_level) UnsupportedSize, w) (\<lambda>fsz w.
            bind_st (merge_children E (mem w) child finer_level fsz tsize, w)
              (\<lambda>(base, flags) w.
            bind_st (dealloc_table_frame E child
                       (store E cur idx (new_leaf P base flags tsize) w)) (\<lambda>_ w.
            (Ok tsize, flush_leaf_range E rg w)))))))))"

section \<open>Drop\<close>

text \<open>
  \<^verbatim>\<open>drop_subtree\<close>: the children are reclaimed in index order, each entry being read when its
  turn comes; the result of a deallocation is ignored.
\<close>

definition ignore_result :: "unit res \<times> ('s, 'h) world \<Rightarrow> unit res \<times> ('s, 'h) world" where
  "ignore_result rw = (case rw of (Panic, w) \<Rightarrow> (Panic, w) | (_, w) \<Rightarrow> (Ok (), w))"

fun drop_children :: "('f, 's, 'h) env \<Rightarrow>
    (paddr \<Rightarrow> ('s, 'h) world \<Rightarrow> unit res \<times> ('s, 'h) world) \<Rightarrow> nat \<Rightarrow> paddr \<Rightarrow> nat list \<Rightarrow>
    ('s, 'h) world \<Rightarrow> unit res \<times> ('s, 'h) world" where
  "drop_children E rec level pa [] w = (Ok (), w)"
| "drop_children E rec level pa (i # is) w =
     (let P = e_pte E; pte = read_entry E (mem w) pa i in
      if is_present P pte \<and> kind_is_table (entry_kind P pte level)
      then bind_st (rec (pte_paddr P pte) w) (\<lambda>_ w. drop_children E rec level pa is w)
      else drop_children E rec level pa is w)"

primrec drop_subtree :: "('f, 's, 'h) env \<Rightarrow> nat \<Rightarrow> paddr \<Rightarrow> ('s, 'h) world \<Rightarrow>
    unit res \<times> ('s, 'h) world" where
  "drop_subtree E 0 pa w = ignore_result (dealloc_table_frame E pa w)"
| "drop_subtree E (Suc l) pa w =
     bind_st
       (if 1 < Suc l
        then drop_children E (drop_subtree E l) (Suc l) pa [0..<ENTRIES_PER_TABLE (e_meta E)] w
        else (Ok (), w))
       (\<lambda>_ w. ignore_result (dealloc_table_frame E pa w))"

definition walker_drop :: "('f, 's, 'h) env \<Rightarrow> paddr \<Rightarrow> ('s, 'h) world \<Rightarrow>
    unit res \<times> ('s, 'h) world" where
  "walker_drop E root w = drop_subtree E (LEVELS (e_meta E)) root w"

end
