(* ===== verification/Geometry.thy ===== *)
theory Geometry
  imports Frames
begin

text \<open>
  The contract of \<^verbatim>\<open>PagingMetaData\<close> that the walker relies on, as a locale: the levels tile
  the virtual address, an index never leaves its table, a leaf size belongs to the level
  whose shift it has, and validity of an address is a matter of its top bits. Its consequence
  is that the indices of the walk down to a level identify the block of addresses that the
  entry at that level maps.
\<close>

section \<open>Blocks of addresses\<close>

text \<open>The half-open interval that starts at the block of \<open>v\<close> and spans \<open>2 ^ k\<close> bytes.\<close>

lemma unat_drop_bit: "unat (drop_bit k (v :: u64)) = unat v div 2 ^ k"
  unfolding unat_drop_bit_eq by (rule drop_bit_eq_div)

lemma unat_block_base: "unat ((v :: u64) AND NOT (mask k)) = unat v div 2 ^ k * 2 ^ k"
proof (cases "k < 64")
  case True
  have "unat (v AND NOT (mask k)) = unat (push_bit k (drop_bit k v))"
    by (simp add: and_not_mask_eq)
  also have "\<dots> = unat (drop_bit k v) * 2 ^ k mod 2 ^ 64"
    unfolding unsigned_push_bit_eq by (simp only: take_bit_eq_mod push_bit_eq_mult len_num1 len_bit0) simp
  also have "unat (drop_bit k v) * 2 ^ k = unat v div 2 ^ k * 2 ^ k"
    by (simp add: unat_drop_bit)
  also have "\<dots> mod 2 ^ 64 = unat v div 2 ^ k * 2 ^ k"
  proof -
    have "unat v div 2 ^ k * 2 ^ k \<le> unat v" by simp
    also have "\<dots> < 2 ^ 64" by (rule unat_u64_less)
    finally show ?thesis by (rule mod_less)
  qed
  finally show ?thesis .
next
  case False
  then have "(2 :: nat) ^ 64 \<le> 2 ^ k" by (intro power_increasing) auto
  then have "unat v < 2 ^ k" using unat_u64_less [of v] by simp
  moreover have "v AND NOT (mask k) = 0"
    using False by (intro bit_word_eqI) (auto simp: bit_simps)
  ultimately show ?thesis by simp
qed

lemma nat_block:
  assumes "0 < (d :: nat)"
  shows "q * d \<le> x \<and> x < q * d + d \<longleftrightarrow> x div d = q"
proof
  assume "q * d \<le> x \<and> x < q * d + d"
  then show "x div d = q" by (intro div_nat_eqI) (simp_all add: mult.commute)
next
  assume "x div d = q"
  then show "q * d \<le> x \<and> x < q * d + d"
    using div_times_less_eq_dividend [of x d] dividend_less_div_times [OF assms, of x] by auto
qed

lemma block_interval:
  fixes v v' :: u64
  assumes "checked_add (v AND NOT (mask k)) (push_bit k 1) = Some e" and "k < 64"
  shows "(v AND NOT (mask k)) \<le> v' \<and> v' < e \<longleftrightarrow> drop_bit k v' = drop_bit k v"
proof -
  let ?q = "unat v div 2 ^ k"
  have e: "unat e = ?q * 2 ^ k + 2 ^ k"
    using checked_add_Some [OF assms(1)] unat_push_bit_one [OF assms(2)]
    unfolding unat_block_base by metis
  have "(v AND NOT (mask k)) \<le> v' \<and> v' < e \<longleftrightarrow>
      ?q * 2 ^ k \<le> unat v' \<and> unat v' < ?q * 2 ^ k + 2 ^ k"
    by (simp add: word_le_nat_alt word_less_nat_alt unat_block_base e)
  also have "\<dots> \<longleftrightarrow> unat v' div 2 ^ k = ?q"
    by (rule nat_block) simp
  also have "\<dots> \<longleftrightarrow> drop_bit k v' = drop_bit k v"
    by (metis unat_drop_bit word_unat_eq_iff)
  finally show ?thesis .
qed

lemma leaf_range_Ok:
  assumes "addr_lib_ok L"
  shows "leaf_range L v sz = Ok r \<longleftrightarrow>
    (\<exists>e. checked_add (v AND NOT (mask (size_shift sz))) (bytes sz) = Some e \<and>
         r = \<lparr>rng_start = v AND NOT (mask (size_shift sz)), rng_end = e\<rparr>)"
  using size_shift_less(1) [of sz] assms
  by (auto simp: leaf_range_def Let_def bytes_push_bit addr_align_down addr_try_from_start_size
      simp del: push_bit_of_1)

lemma leaf_range_not_Panic: "leaf_range L v sz \<noteq> Panic"
  by (simp add: leaf_range_def ok_or_def split: option.split)

text \<open>Membership in the range of a leaf is membership in its block.\<close>

lemma leaf_range_mem:
  assumes "addr_lib_ok L" "leaf_range L v sz = Ok r"
  shows "rng_start r \<le> v' \<and> v' < rng_end r \<longleftrightarrow>
    drop_bit (size_shift sz) v' = drop_bit (size_shift sz) v"
proof -
  obtain e where e: "checked_add (v AND NOT (mask (size_shift sz))) (bytes sz) = Some e"
    and r: "r = \<lparr>rng_start = v AND NOT (mask (size_shift sz)), rng_end = e\<rparr>"
    using assms by (auto simp: leaf_range_Ok)
  show ?thesis
    using block_interval [OF e [unfolded bytes_push_bit] size_shift_less(1)] by (simp add: r)
qed

lemma leaf_range_cong:
  assumes "addr_lib_ok L" "drop_bit (size_shift sz) v' = drop_bit (size_shift sz) v"
  shows "leaf_range L v' sz = leaf_range L v sz"
  using assms size_shift_less(1) [of sz]
  by (simp add: leaf_range_def bytes_push_bit addr_align_down and_not_mask_eq
      del: push_bit_of_1)

section \<open>The contract\<close>

locale paging_geometry =
  fixes M :: meta_impl
  assumes levels_pos: "1 \<le> LEVELS M"
    and levels_max: "LEVELS M \<le> MAX_LEVELS"
    and table_layout: "ENTRIES_PER_TABLE M * 8 \<le> unat (bytes (TABLE_FRAME_SIZE M))"
    and entries: "ENTRIES_PER_TABLE M = 2 ^ INDEX_BITS M"
    and index_bits: "\<lbrakk>1 \<le> l; l \<le> LEVELS M\<rbrakk> \<Longrightarrow>
          0 < level_index_bits M l \<and> level_index_bits M l \<le> INDEX_BITS M"
    and index_bits_word: "INDEX_BITS M < 64"
    and shift_base: "level_shift M 1 = size_shift (BASE_PAGE_SIZE M)"
    and shift_step: "\<lbrakk>1 \<le> l; l < LEVELS M\<rbrakk> \<Longrightarrow>
          level_shift M (Suc l) = level_shift M l + level_index_bits M l"
    and shift_top: "level_shift M (LEVELS M) + level_index_bits M (LEVELS M) = VA_MAX_BITS M"
    and va_bits: "VA_MAX_BITS M < 64"
    and leaf_size: "\<lbrakk>1 \<le> l; l \<le> LEVELS M\<rbrakk> \<Longrightarrow>
          leaf_size_at_level M l = Some sz \<longleftrightarrow> level_shift M l = size_shift sz"
    and supports_size: "\<lbrakk>1 \<le> l; l \<le> LEVELS M; level_supports_leaf M l sz\<rbrakk> \<Longrightarrow>
          level_shift M l = size_shift sz"
    and size_level: "size_to_level M sz = Some t \<Longrightarrow>
          1 \<le> t \<and> t \<le> LEVELS M \<and> level_supports_leaf M t sz"
    and full_index: "\<lbrakk>1 \<le> l; l < LEVELS M\<rbrakk> \<Longrightarrow> level_index_bits M l = INDEX_BITS M"
    and finer_supported: "\<lbrakk>1 \<le> l; l < LEVELS M; leaf_size_at_level M (Suc l) \<noteq> None;
          leaf_size_at_level M l = Some sz\<rbrakk> \<Longrightarrow> level_supports_leaf M l sz"
    and pa_bits: "42 \<le> PA_MAX_BITS M" "PA_MAX_BITS M \<le> 60"
    and paddr_valid: "paddr_is_valid M p \<longleftrightarrow> (\<forall>n\<ge>PA_MAX_BITS M. \<not> bit p n)"
    and valid_top: "\<lbrakk>vaddr_is_valid M v; vaddr_is_valid M v';
          bit v (VA_MAX_BITS M - 1) = bit v' (VA_MAX_BITS M - 1); VA_MAX_BITS M \<le> n\<rbrakk> \<Longrightarrow>
          bit v n = bit v' n"
    and valid_cong: "\<lbrakk>vaddr_is_valid M v; \<forall>n\<ge>VA_MAX_BITS M - 1. bit v n = bit v' n\<rbrakk> \<Longrightarrow>
          vaddr_is_valid M v'"
    and level_size: "\<lbrakk>1 \<le> l; l \<le> LEVELS M; level_supports_leaf M l sz\<rbrakk> \<Longrightarrow>
          \<exists>t. size_to_level M sz = Some t"
begin

lemma index_mask_mask:
  "\<lbrakk>1 \<le> l; l \<le> LEVELS M\<rbrakk> \<Longrightarrow> index_mask M l = mask (level_index_bits M l)"
  using index_bits [of l] index_bits_word
  by (simp add: index_mask_def mask_eq_exp_minus_1)

lemma index_at_take_bit:
  "\<lbrakk>1 \<le> l; l \<le> LEVELS M\<rbrakk> \<Longrightarrow>
     index_at M l v = unat (take_bit (level_index_bits M l) (drop_bit (level_shift M l) v))"
  by (simp add: index_at_def index_mask_mask take_bit_eq_mask)

lemma index_at_less:
  assumes "1 \<le> l" "l \<le> LEVELS M"
  shows "index_at M l v < ENTRIES_PER_TABLE M"
proof -
  have "index_at M l v < 2 ^ level_index_bits M l"
    using assms by (simp add: index_at_take_bit unsigned_take_bit_eq)
  also have "\<dots> \<le> ENTRIES_PER_TABLE M"
    using index_bits [OF assms] by (simp add: entries power_increasing)
  finally show ?thesis .
qed

lemma index_at_eq_iff:
  assumes "1 \<le> l" "l \<le> LEVELS M"
  shows "index_at M l v = index_at M l v' \<longleftrightarrow>
    (\<forall>n. level_shift M l \<le> n \<and> n < level_shift M l + level_index_bits M l \<longrightarrow> bit v n = bit v' n)"
    (is "?l \<longleftrightarrow> ?r")
proof -
  let ?s = "level_shift M l" and ?b = "level_index_bits M l"
  have "?l \<longleftrightarrow> take_bit ?b (drop_bit ?s v) = take_bit ?b (drop_bit ?s v')"
    using assms by (simp add: index_at_take_bit word_unat_eq_iff)
  also have "\<dots> \<longleftrightarrow> (\<forall>n<?b. bit v (?s + n) = bit v' (?s + n))"
  proof -
    have "?b < 64" using index_bits [OF assms] index_bits_word by simp
    then show ?thesis
      by (auto simp: bit_eq_iff bit_take_bit_iff bit_drop_bit_eq) (meson less_trans)+
  qed
  also have "\<dots> \<longleftrightarrow> ?r"
    by (metis add_less_cancel_left le_add1 le_iff_add)
  finally show ?thesis .
qed

lemma shift_mono: "\<lbrakk>1 \<le> l; l \<le> k; k \<le> LEVELS M\<rbrakk> \<Longrightarrow> level_shift M l \<le> level_shift M k"
proof (induction k)
  case 0
  then show ?case by simp
next
  case (Suc k)
  then show ?case
    using shift_step [of k] by (cases "l = Suc k") auto
qed

lemma shift_less_va: "\<lbrakk>1 \<le> l; l \<le> LEVELS M\<rbrakk> \<Longrightarrow> level_shift M l < VA_MAX_BITS M"
  using shift_mono [of l "LEVELS M"] shift_top index_bits [of "LEVELS M"] levels_pos by simp

text \<open>Indices that agree from level \<open>t\<close> to level \<open>k\<close> cover the bits of those levels.\<close>

lemma agree_up_to:
  assumes "1 \<le> t" "t \<le> k" "k \<le> LEVELS M"
    and "\<forall>j. t \<le> j \<and> j \<le> k \<longrightarrow> index_at M j v = index_at M j v'"
    and "level_shift M t \<le> n" "n < level_shift M k + level_index_bits M k"
  shows "bit v n = bit v' n"
  using assms(2-6)
proof (induction k)
  case 0
  with assms(1) show ?case by simp
next
  case (Suc k)
  show ?case
  proof (cases "level_shift M (Suc k) \<le> n")
    case True
    have "index_at M (Suc k) v = index_at M (Suc k) v'" using Suc.prems(1,3) by simp
    with True Suc.prems(2,5) show ?thesis
      using index_at_eq_iff [of "Suc k" v v'] by simp
  next
    case False
    with Suc.prems(1,4) have "t \<le> k" by (metis le_Suc_eq)
    with False Suc.prems assms(1) show ?thesis
      using shift_step [of k] by (intro Suc.IH) auto
  qed
qed

text \<open>
  The walk is injective: between valid addresses, agreeing on every index from the root down
  to level \<open>t\<close> is lying in the same block of that level.
\<close>

lemma same_path_iff:
  assumes "vaddr_is_valid M v" "vaddr_is_valid M v'" "1 \<le> t" "t \<le> LEVELS M"
  shows "(\<forall>k. t \<le> k \<and> k \<le> LEVELS M \<longrightarrow> index_at M k v = index_at M k v') \<longleftrightarrow>
    drop_bit (level_shift M t) v = drop_bit (level_shift M t) v'"
    (is "?l \<longleftrightarrow> ?r")
proof
  assume ?l
  have low: "bit v n = bit v' n" if "level_shift M t \<le> n" "n < VA_MAX_BITS M" for n
    using agree_up_to [OF assms(3,4) order.refl \<open>?l\<close>] that shift_top by simp
  have "bit v (VA_MAX_BITS M - 1) = bit v' (VA_MAX_BITS M - 1)"
    using shift_less_va [OF assms(3,4)] by (intro low) auto
  then have "bit v n = bit v' n" if "level_shift M t \<le> n" for n
    using low valid_top [OF assms(1,2)] that by (cases "n < VA_MAX_BITS M") auto
  then show ?r by (simp add: drop_bit_eq_iff_bits)
next
  assume ?r
  then have bits: "\<forall>n\<ge>level_shift M t. bit v n = bit v' n" by (simp add: drop_bit_eq_iff_bits)
  show ?l
  proof (intro allI impI)
    fix k assume k: "t \<le> k \<and> k \<le> LEVELS M"
    then have "level_shift M t \<le> level_shift M k" using assms(3) shift_mono by blast
    with bits k assms(3) show "index_at M k v = index_at M k v'"
      by (simp add: index_at_eq_iff)
  qed
qed

lemma valid_block:
  assumes "vaddr_is_valid M v" "1 \<le> t" "t \<le> LEVELS M"
    and "drop_bit (level_shift M t) v = drop_bit (level_shift M t) v'"
  shows "vaddr_is_valid M v'"
proof (rule valid_cong [OF assms(1)])
  show "\<forall>n\<ge>VA_MAX_BITS M - 1. bit v n = bit v' n"
    using shift_less_va [OF assms(2,3)] assms(4) by (auto simp: drop_bit_eq_iff_bits)
qed

lemma size_to_level_size:
  assumes "size_to_level M sz = Some t"
  shows "1 \<le> t" "t \<le> LEVELS M" "level_shift M t = size_shift sz"
    "leaf_size_at_level M t = Some sz" "level_supports_leaf M t sz"
  using size_level [OF assms] by (auto simp: supports_size leaf_size)

text \<open>A level that supports a size is the level of the size.\<close>

lemma shift_strict: "\<lbrakk>1 \<le> l; l < k; k \<le> LEVELS M\<rbrakk> \<Longrightarrow> level_shift M l < level_shift M k"
  using shift_step [of l] index_bits [of l] shift_mono [of "Suc l" k] by simp

lemma shift_inj:
  "\<lbrakk>1 \<le> l; l \<le> LEVELS M; 1 \<le> k; k \<le> LEVELS M; level_shift M l = level_shift M k\<rbrakk> \<Longrightarrow> l = k"
  using shift_strict [of l k] shift_strict [of k l] by (cases l k rule: linorder_cases) simp_all

lemma supports_level:
  assumes "1 \<le> l" "l \<le> LEVELS M" "level_supports_leaf M l sz"
  shows "size_to_level M sz = Some l"
proof -
  obtain t where t: "size_to_level M sz = Some t" using level_size [OF assms] by blast
  have "level_shift M t = level_shift M l"
    unfolding size_to_level_size(3) [OF t] supports_size [OF assms] ..
  then have "t = l" by (rule shift_inj [OF size_to_level_size(1,2) [OF t] assms(1,2)])
  then show ?thesis using t by simp
qed

end

end
