(* ===== verification/Contracts.thy ===== *)
theory Contracts
  imports Walker Geometry
begin

text \<open>
  The other two interfaces of the walker as locales: the contract of a \<^verbatim>\<open>PageTableEntry\<close>
  implementation relative to its metadata, and the contract of the host that supplies table
  frames (\<^verbatim>\<open>FrameAllocator\<close>, \<^verbatim>\<open>memory_addr\<close>). The locale \<open>walker\<close> joins the three; its
  lemmas are proved once and hold for every architecture that interprets it.
\<close>

section \<open>Entries\<close>

text \<open>
  \<open>flags_ok\<close> are the flags that can be encoded as a leaf, \<open>norm\<close> is what decoding a leaf
  returns for the flags it was built from.
\<close>

locale pte_codec =
  fixes P :: "'f pte_impl" and M :: meta_impl
    and flags_ok :: "'f \<Rightarrow> bool" and norm :: "'f \<Rightarrow> 'f"
  assumes leaf_present: "is_present P (new_leaf P p f sz)"
    and table_present: "is_present P (new_table P p l)"
    and leaf_kind: "\<lbrakk>1 \<le> l; l \<le> LEVELS M; level_supports_leaf M l sz; flags_ok f\<rbrakk> \<Longrightarrow>
          entry_kind P (new_leaf P p f sz) l = Leaf"
    and table_kind: "\<lbrakk>1 < l; l \<le> LEVELS M\<rbrakk> \<Longrightarrow> entry_kind P (new_table P p l) l = Table"
    and kind_one: "entry_kind P e 1 \<noteq> Table"
    and leaf_paddr: "\<lbrakk>level_supports_leaf M l sz; is_aligned sz p; paddr_is_valid M p\<rbrakk> \<Longrightarrow>
          pte_paddr P (new_leaf P p f sz) = p"
    and table_paddr: "\<lbrakk>is_aligned (TABLE_FRAME_SIZE M) p; paddr_is_valid M p\<rbrakk> \<Longrightarrow>
          pte_paddr P (new_table P p l) = p"
    and decoded_paddr: "\<lbrakk>is_present P e; entry_kind P e l = Leaf\<rbrakk> \<Longrightarrow>
          paddr_is_valid M (pte_paddr P e)"
    and leaf_flags: "pte_flags P (new_leaf P p f sz) = norm f"
    and clear_absent: "\<not> is_present P (pte_clear P e)"
    and zero_absent: "\<not> is_present P 0"
    and decoded_flags: "\<lbrakk>is_present P e; entry_kind P e l = Leaf\<rbrakk> \<Longrightarrow>
          flags_ok (pte_flags P e) \<and> norm (pte_flags P e) = pte_flags P e"
begin

lemma norm_idem: "\<lbrakk>1 \<le> l; l \<le> LEVELS M; level_supports_leaf M l sz; flags_ok f\<rbrakk> \<Longrightarrow>
    flags_ok (norm f) \<and> norm (norm f) = norm f"
  using decoded_flags [of "new_leaf P 0 f sz" l] by (simp add: leaf_present leaf_kind leaf_flags)

end

section \<open>The host\<close>

text \<open>
  A table frame is usable when it is aligned and its address can be encoded. The allocator
  keeps a set of live frames: an allocation adds a fresh zeroed frame and leaves the entries
  of the live ones alone, a deallocation removes at most the frame it was given. Entries of
  distinct frames are distinct cells of the kernel window.
\<close>

definition frame_ok :: "meta_impl \<Rightarrow> paddr \<Rightarrow> bool" where
  "frame_ok M f \<longleftrightarrow> is_aligned (TABLE_FRAME_SIZE M) f \<and> paddr_is_valid M f"

definition same_entries :: "('f, 's, 'h) env \<Rightarrow> paddr set \<Rightarrow> memory \<Rightarrow> memory \<Rightarrow> bool" where
  "same_entries E F m m' \<longleftrightarrow>
     (\<forall>f\<in>F. \<forall>i<ENTRIES_PER_TABLE (e_meta E). read_entry E m' f i = read_entry E m f i)"

locale frame_host =
  fixes E :: "('f, 's, 'h) env" and live :: "'s \<Rightarrow> paddr set"
  assumes addr_ok: "addr_lib_ok (e_addr E)"
    and cells_inj: "\<lbrakk>frame_ok (e_meta E) f; frame_ok (e_meta E) g;
          i < ENTRIES_PER_TABLE (e_meta E); j < ENTRIES_PER_TABLE (e_meta E);
          entry_cell E f i = entry_cell E g j\<rbrakk> \<Longrightarrow> f = g \<and> i = j"
    and alloc_ok: "allocate (e_alloc E) (bytes (TABLE_FRAME_SIZE (e_meta E)))
            (TABLE_FRAME_SIZE (e_meta E)) (s, m) = (Ok r, s', m') \<Longrightarrow>
          rng_start r \<notin> live s \<and> live s' = insert (rng_start r) (live s) \<and>
          paddr_is_valid (e_meta E) (rng_start r) \<and>
          (\<forall>i<ENTRIES_PER_TABLE (e_meta E). read_entry E m' (rng_start r) i = 0) \<and>
          same_entries E (live s) m m'"
    and alloc_fail: "allocate (e_alloc E) (bytes (TABLE_FRAME_SIZE (e_meta E)))
            (TABLE_FRAME_SIZE (e_meta E)) (s, m) = (Err e, s', m') \<Longrightarrow>
          live s' = live s \<and> same_entries E (live s) m m'"
    and alloc_returns: "fst (allocate (e_alloc E) (bytes (TABLE_FRAME_SIZE (e_meta E)))
            (TABLE_FRAME_SIZE (e_meta E)) (s, m)) \<noteq> Panic"
    and dealloc_keeps: "deallocate (e_alloc E) r (s, m) = (res, s', m') \<Longrightarrow>
          res \<noteq> Panic \<and> live s - {rng_start r} \<subseteq> live s' \<and> live s' \<subseteq> live s \<and>
          (res = Ok () \<longrightarrow> rng_start r \<notin> live s') \<and>
          same_entries E (live s - {rng_start r}) m m'"

locale walker =
  paging_geometry "e_meta E" + pte_codec "e_pte E" "e_meta E" flags_ok norm + frame_host E live
  for E :: "('f, 's, 'h) env" and flags_ok :: "'f \<Rightarrow> bool" and norm :: "'f \<Rightarrow> 'f"
    and live :: "'s \<Rightarrow> paddr set"

end
