(* ===== verification/Tree.thy ===== *)
theory Tree
  imports Contracts "HOL-Library.Multiset"
begin

text \<open>
  The page table as a tree in memory: the table frames below an entry, the leaf an address
  reaches, and how both change when one entry of one table is rewritten. Every operation of
  the walker is a sequence of such rewrites, so these lemmas carry all of its proofs.
\<close>

section \<open>Tables and leaves\<close>

text \<open>The child table an entry points at, when it is a present table entry.\<close>

definition child :: "('f, 's, 'h) env \<Rightarrow> nat \<Rightarrow> u64 \<Rightarrow> paddr option" where
  "child E l e =
     (if is_present (e_pte E) e \<and> entry_kind (e_pte E) e l = Table
      then Some (pte_paddr (e_pte E) e) else None)"

text \<open>All table frames of the subtree at a level, in the order of a depth-first walk.\<close>

primrec tables :: "('f, 's, 'h) env \<Rightarrow> memory \<Rightarrow> nat \<Rightarrow> paddr \<Rightarrow> paddr list" where
  "tables E m 0 f = []"
| "tables E m (Suc l) f =
     f # concat (map (\<lambda>i. case child E (Suc l) (read_entry E m f i) of
                            None \<Rightarrow> [] | Some g \<Rightarrow> tables E m l g)
                 [0..<ENTRIES_PER_TABLE (e_meta E)])"

text \<open>The table at level \<open>t\<close> on the path of an address.\<close>

primrec table_at :: "('f, 's, 'h) env \<Rightarrow> memory \<Rightarrow> nat \<Rightarrow> paddr \<Rightarrow> vaddr \<Rightarrow> nat \<Rightarrow> paddr option" where
  "table_at E m 0 f v t = None"
| "table_at E m (Suc l) f v t =
     (if t = Suc l then Some f
      else case child E (Suc l) (read_entry E m f (index_at (e_meta E) (Suc l) v)) of
             None \<Rightarrow> None | Some g \<Rightarrow> table_at E m l g v t)"

text \<open>
  What the walk of an address finds: the level, the table and the bits of the leaf entry, or
  the error it stops with.
\<close>

primrec find_leaf :: "('f, 's, 'h) env \<Rightarrow> memory \<Rightarrow> nat \<Rightarrow> paddr \<Rightarrow> vaddr \<Rightarrow>
    (nat \<times> paddr \<times> u64) res" where
  "find_leaf E m 0 f v = Panic"
| "find_leaf E m (Suc l) f v =
     (let e = read_entry E m f (index_at (e_meta E) (Suc l) v) in
      if \<not> is_present (e_pte E) e then Err NotMapped
      else bind_res (entry_is_leaf E e (Suc l)) (\<lambda>leaf.
        if leaf then Ok (Suc l, f, e) else find_leaf E m l (pte_paddr (e_pte E) e) v))"

text \<open>The translation the table denotes: the level and the bits of the leaf, without the table.\<close>

definition view :: "('f, 's, 'h) env \<Rightarrow> memory \<Rightarrow> nat \<Rightarrow> paddr \<Rightarrow> vaddr \<Rightarrow> (nat \<times> u64) res" where
  "view E m l f v = bind_res (find_leaf E m l f v) (\<lambda>(t, _, e). Ok (t, e))"

text \<open>What one entry at level \<open>l\<close> contributes to the translation of an address below it.\<close>

definition entry_view :: "('f, 's, 'h) env \<Rightarrow> memory \<Rightarrow> nat \<Rightarrow> u64 \<Rightarrow> vaddr \<Rightarrow> (nat \<times> u64) res" where
  "entry_view E m l e v =
     (if \<not> is_present (e_pte E) e then Err NotMapped
      else bind_res (entry_is_leaf E e l) (\<lambda>leaf.
        if leaf then Ok (l, e) else view E m (l - 1) (pte_paddr (e_pte E) e) v))"

lemma view_Suc:
  "view E m (Suc l) f v =
     entry_view E m (Suc l) (read_entry E m f (index_at (e_meta E) (Suc l) v)) v"
  by (simp add: view_def entry_view_def Let_def entry_is_leaf_def split: pte_kind.split)

lemma view_0: "view E m 0 f v = Panic"
  by (simp add: view_def)

text \<open>The frames below an entry.\<close>

definition below :: "('f, 's, 'h) env \<Rightarrow> memory \<Rightarrow> nat \<Rightarrow> u64 \<Rightarrow> paddr list" where
  "below E m l e = (case child E l e of None \<Rightarrow> [] | Some g \<Rightarrow> tables E m (l - 1) g)"

lemma tables_Suc:
  "tables E m (Suc l) f =
     f # concat (map (\<lambda>i. below E m (Suc l) (read_entry E m f i)) [0..<ENTRIES_PER_TABLE (e_meta E)])"
  unfolding tables.simps below_def diff_Suc_1 ..

declare tables.simps(2) [simp del]

lemma set_tables_Suc:
  "set (tables E m (Suc l) f) =
     insert f (\<Union>i<ENTRIES_PER_TABLE (e_meta E). set (below E m (Suc l) (read_entry E m f i)))"
  by (simp add: tables_Suc lessThan_atLeast0)

lemma root_in_tables: "l \<noteq> 0 \<Longrightarrow> f \<in> set (tables E m l f)"
  by (cases l) (simp_all add: tables_Suc)

text \<open>Frames below different entries of one table, and the table itself, are disjoint.\<close>

lemma distinct_tables_Suc:
  assumes "distinct (tables E m (Suc l) f)"
  shows "\<And>i. i < ENTRIES_PER_TABLE (e_meta E) \<Longrightarrow>
      distinct (below E m (Suc l) (read_entry E m f i)) \<and>
      f \<notin> set (below E m (Suc l) (read_entry E m f i))"
    and "\<And>i j. \<lbrakk>i < ENTRIES_PER_TABLE (e_meta E); j < ENTRIES_PER_TABLE (e_meta E); i \<noteq> j\<rbrakk> \<Longrightarrow>
      set (below E m (Suc l) (read_entry E m f i)) \<inter>
      set (below E m (Suc l) (read_entry E m f j)) = {}"
  using assms by (simp_all add: tables_Suc distinct_concat_upt)

section \<open>Framing\<close>

lemma same_entries_mono: "same_entries E F m m' \<Longrightarrow> G \<subseteq> F \<Longrightarrow> same_entries E G m m'"
  by (auto simp: same_entries_def)

lemma same_entries_read:
  "\<lbrakk>same_entries E F m m'; f \<in> F; i < ENTRIES_PER_TABLE (e_meta E)\<rbrakk> \<Longrightarrow>
     read_entry E m' f i = read_entry E m f i"
  by (simp add: same_entries_def)

lemma below_subset:
  "i < ENTRIES_PER_TABLE (e_meta E) \<Longrightarrow>
     set (below E m (Suc l) (read_entry E m f i)) \<subseteq> set (tables E m (Suc l) f)"
  by (auto simp: set_tables_Suc)

lemma tables_cong:
  "same_entries E (set (tables E m l f)) m m' \<Longrightarrow> tables E m' l f = tables E m l f"
proof (induction l arbitrary: f)
  case 0
  then show ?case by simp
next
  case (Suc l)
  have "below E m' (Suc l) (read_entry E m' f i) = below E m (Suc l) (read_entry E m f i)"
    if i: "i < ENTRIES_PER_TABLE (e_meta E)" for i
  proof -
    have r: "read_entry E m' f i = read_entry E m f i"
      using Suc.prems i by (simp add: same_entries_def set_tables_Suc)
    show ?thesis
    proof (cases "child E (Suc l) (read_entry E m f i)")
      case None
      then show ?thesis by (simp add: below_def r)
    next
      case (Some g)
      then have "set (tables E m l g) \<subseteq> set (tables E m (Suc l) f)"
        using below_subset [OF i, of m l f] by (simp add: below_def)
      then have "tables E m' l g = tables E m l g"
        using Suc.IH Suc.prems same_entries_mono by blast
      with Some show ?thesis by (simp add: below_def r)
    qed
  qed
  then have "map (\<lambda>i. below E m' (Suc l) (read_entry E m' f i)) [0..<ENTRIES_PER_TABLE (e_meta E)] =
      map (\<lambda>i. below E m (Suc l) (read_entry E m f i)) [0..<ENTRIES_PER_TABLE (e_meta E)]"
    by (intro map_cong) simp_all
  then show ?case
    unfolding tables_Suc by (rule arg_cong)
qed

context walker
begin

text \<open>An index of the walk is inside its table, and the child it selects is in the subtree.\<close>

lemma child_in_tables:
  assumes "Suc l \<le> LEVELS (e_meta E)"
    and "child E (Suc l) (read_entry E m f (index_at (e_meta E) (Suc l) v)) = Some g"
  shows "set (tables E m l g) \<subseteq> set (tables E m (Suc l) f)"
proof -
  have "index_at (e_meta E) (Suc l) v < ENTRIES_PER_TABLE (e_meta E)"
    using assms(1) by (intro index_at_less) simp_all
  from below_subset [OF this, of m l f] assms(2) show ?thesis by (simp add: below_def)
qed

lemma read_on_path:
  assumes "same_entries E (set (tables E m (Suc l) f)) m m'" "Suc l \<le> LEVELS (e_meta E)"
  shows "read_entry E m' f (index_at (e_meta E) (Suc l) v) =
    read_entry E m f (index_at (e_meta E) (Suc l) v)"
  using assms by (intro same_entries_read [where F = "set (tables E m (Suc l) f)"] index_at_less)
    (simp_all add: set_tables_Suc)

lemma find_leaf_cong:
  "\<lbrakk>same_entries E (set (tables E m l f)) m m'; l \<le> LEVELS (e_meta E)\<rbrakk> \<Longrightarrow>
     find_leaf E m' l f v = find_leaf E m l f v"
proof (induction l arbitrary: f)
  case 0
  then show ?case by simp
next
  case (Suc l)
  let ?e = "read_entry E m f (index_at (e_meta E) (Suc l) v)"
  have r: "read_entry E m' f (index_at (e_meta E) (Suc l) v) = ?e"
    using Suc.prems by (rule read_on_path)
  have ih: "find_leaf E m' l (pte_paddr (e_pte E) ?e) v = find_leaf E m l (pte_paddr (e_pte E) ?e) v"
    if "is_present (e_pte E) ?e" "entry_kind (e_pte E) ?e (Suc l) = Table"
  proof (rule Suc.IH)
    have "child E (Suc l) ?e = Some (pte_paddr (e_pte E) ?e)"
      using that by (simp add: child_def)
    from child_in_tables [OF Suc.prems(2) this]
    show "same_entries E (set (tables E m l (pte_paddr (e_pte E) ?e))) m m'"
      using Suc.prems(1) same_entries_mono by blast
    show "l \<le> LEVELS (e_meta E)" using Suc.prems(2) by simp
  qed
  show ?case
    unfolding find_leaf.simps r Let_def entry_is_leaf_def
    by (cases "entry_kind (e_pte E) ?e (Suc l)") (simp_all add: ih)
qed

lemma view_cong:
  "\<lbrakk>same_entries E (set (tables E m l f)) m m'; l \<le> LEVELS (e_meta E)\<rbrakk> \<Longrightarrow>
     view E m' l f v = view E m l f v"
  by (simp add: view_def find_leaf_cong)

lemma table_at_level: "table_at E m l f v t = Some g \<Longrightarrow> 1 \<le> t \<and> t \<le> l"
  by (induction l arbitrary: f) (auto split: if_splits option.splits intro: le_SucI)

lemma table_at_in_tables:
  "\<lbrakk>table_at E m l f v t = Some g; l \<le> LEVELS (e_meta E)\<rbrakk> \<Longrightarrow> g \<in> set (tables E m l f)"
proof (induction l arbitrary: f)
  case 0
  then show ?case by simp
next
  case (Suc l)
  show ?case
  proof (cases "t = Suc l")
    case True
    with Suc.prems show ?thesis by (simp add: set_tables_Suc)
  next
    case False
    with Suc.prems obtain h where
      h: "child E (Suc l) (read_entry E m f (index_at (e_meta E) (Suc l) v)) = Some h"
      and "table_at E m l h v t = Some g"
      by (auto split: option.splits)
    then have "g \<in> set (tables E m l h)" using Suc by simp
    with h Suc.prems(2) show ?thesis using child_in_tables by blast
  qed
qed

text \<open>The descent of \<open>find_leaf\<close> ends in a table of the path.\<close>

lemma find_leaf_table_at:
  "find_leaf E m l f v = Ok (t, g, e) \<Longrightarrow>
     table_at E m l f v t = Some g \<and> e = read_entry E m g (index_at (e_meta E) t v) \<and>
     is_present (e_pte E) e \<and> entry_kind (e_pte E) e t = Leaf"
proof (induction l arbitrary: f)
  case 0
  then show ?case by simp
next
  case (Suc l)
  let ?e = "read_entry E m f (index_at (e_meta E) (Suc l) v)"
  have p: "is_present (e_pte E) ?e" using Suc.prems by (auto simp: Let_def split: if_splits)
  show ?case
  proof (cases "entry_kind (e_pte E) ?e (Suc l)")
    case Table
    then have "find_leaf E m l (pte_paddr (e_pte E) ?e) v = Ok (t, g, e)"
      using Suc.prems p by (simp add: Let_def entry_is_leaf_def)
    then have ih: "table_at E m l (pte_paddr (e_pte E) ?e) v t = Some g \<and>
        e = read_entry E m g (index_at (e_meta E) t v) \<and>
        is_present (e_pte E) e \<and> entry_kind (e_pte E) e t = Leaf"
      by (rule Suc.IH)
    then have "t \<le> l" using table_at_level by blast
    then have "table_at E m (Suc l) f v t = table_at E m l (pte_paddr (e_pte E) ?e) v t"
      using p Table by (simp add: child_def)
    with ih show ?thesis by metis
  qed (use Suc.prems p in \<open>auto simp: Let_def entry_is_leaf_def\<close>)
qed

lemma below_cong:
  "same_entries E (set (below E m l x)) m m' \<Longrightarrow> below E m' l x = below E m l x"
  by (cases "child E l x") (simp_all add: below_def tables_cong)

lemma child_below: "child E l x = Some h \<Longrightarrow> below E m l x = tables E m (l - 1) h"
  by (simp add: below_def)

lemma child_view: "child E l x = Some h \<Longrightarrow> entry_view E m l x v = view E m (l - 1) h v"
  by (auto simp: child_def entry_view_def entry_is_leaf_def split: if_splits)

lemma no_child_view: "child E l x = None \<Longrightarrow> entry_view E m' l x v = entry_view E m l x v"
  by (auto simp: child_def entry_view_def entry_is_leaf_def split: if_splits pte_kind.split)

lemma entry_view_cong:
  assumes "same_entries E (set (below E m l x)) m m'" "l \<le> LEVELS (e_meta E)"
  shows "entry_view E m' l x v = entry_view E m l x v"
proof (cases "child E l x")
  case None
  then show ?thesis by (rule no_child_view)
next
  case (Some h)
  then show ?thesis
    using assms by (simp add: child_view child_below view_cong)
qed

end

section \<open>Rewriting one entry\<close>

text \<open>On the tables \<open>F\<close>, the second memory is the first one with one entry rewritten.\<close>

definition updates :: "('f, 's, 'h) env \<Rightarrow> paddr set \<Rightarrow> paddr \<Rightarrow> nat \<Rightarrow> u64 \<Rightarrow> memory \<Rightarrow> memory \<Rightarrow> bool" where
  "updates E F f i e m m' \<longleftrightarrow>
     (\<forall>g\<in>F. \<forall>j<ENTRIES_PER_TABLE (e_meta E).
        read_entry E m' g j = (if g = f \<and> j = i then e else read_entry E m g j))"

lemma updates_mono: "updates E F f i e m m' \<Longrightarrow> G \<subseteq> F \<Longrightarrow> updates E G f i e m m'"
  by (auto simp: updates_def)

lemma updates_same: "updates E F f i e m m' \<Longrightarrow> G \<subseteq> F \<Longrightarrow> f \<notin> G \<Longrightarrow> same_entries E G m m'"
  by (auto simp: updates_def same_entries_def)

lemma updates_read:
  "\<lbrakk>updates E F f i e m m'; g \<in> F; j < ENTRIES_PER_TABLE (e_meta E)\<rbrakk> \<Longrightarrow>
     read_entry E m' g j = (if g = f \<and> j = i then e else read_entry E m g j)"
  by (simp add: updates_def)

context walker
begin

text \<open>
  The setting of the lemmas below: a tree without sharing, a table on the path of \<open>v\<close> at level
  \<open>t\<close>, and a second memory that rewrites the entry of \<open>v\<close> in it.
\<close>

lemma index_less_entries:
  "\<lbrakk>Suc l \<le> LEVELS (e_meta E)\<rbrakk> \<Longrightarrow> index_at (e_meta E) (Suc l) v < ENTRIES_PER_TABLE (e_meta E)"
  by (rule index_at_less) simp_all

lemma below_in_tables:
  assumes "Suc l \<le> LEVELS (e_meta E)"
  shows "set (below E m (Suc l) (read_entry E m f (index_at (e_meta E) (Suc l) v)))
    \<subseteq> set (tables E m (Suc l) f)"
  using below_subset [OF index_less_entries [OF assms]] .

lemma below_disjoint:
  assumes "distinct (tables E m (Suc l) f)" "Suc l \<le> LEVELS (e_meta E)"
    and "index_at (e_meta E) (Suc l) v' \<noteq> index_at (e_meta E) (Suc l) v"
  shows "set (below E m (Suc l) (read_entry E m f (index_at (e_meta E) (Suc l) v'))) \<inter>
    set (below E m (Suc l) (read_entry E m f (index_at (e_meta E) (Suc l) v))) = {}"
  using distinct_tables_Suc(2) [OF assms(1) index_less_entries index_less_entries] assms by simp

lemma root_not_below:
  assumes "distinct (tables E m (Suc l) f)" "Suc l \<le> LEVELS (e_meta E)"
  shows "f \<notin> set (below E m (Suc l) (read_entry E m f (index_at (e_meta E) (Suc l) v)))"
  using distinct_tables_Suc(1) [OF assms(1) index_less_entries] assms(2) by simp

lemma table_at_child:
  assumes "table_at E m (Suc l) f v t = Some g" "t \<noteq> Suc l"
  obtains h where "child E (Suc l) (read_entry E m f (index_at (e_meta E) (Suc l) v)) = Some h"
    and "table_at E m l h v t = Some g"
  using assms by (auto split: option.splits)

lemma view_update:
  assumes "distinct (tables E m l r)" "table_at E m l r v t = Some f" "l \<le> LEVELS (e_meta E)"
    and "updates E (set (tables E m l r)) f (index_at (e_meta E) t v) e m m'"
  shows "view E m' l r v' =
    (if \<forall>k. t \<le> k \<and> k \<le> l \<longrightarrow> index_at (e_meta E) k v' = index_at (e_meta E) k v
     then entry_view E m' t e v' else view E m l r v')"
  using assms
proof (induction l arbitrary: r)
  case 0
  then show ?case by simp
next
  case (Suc l)
  let ?i = "index_at (e_meta E) (Suc l) v" and ?i' = "index_at (e_meta E) (Suc l) v'"
  let ?x = "read_entry E m r ?i'"
  have rin: "r \<in> set (tables E m (Suc l) r)" by (simp add: root_in_tables)
  have read': "read_entry E m' r ?i' =
      (if r = f \<and> ?i' = index_at (e_meta E) t v then e else ?x)"
    using Suc.prems(3) by (intro updates_read [OF Suc.prems(4) rin] index_less_entries)
  have off: "view E m' (Suc l) r v' = view E m (Suc l) r v'"
    if "read_entry E m' r ?i' = ?x" "f \<notin> set (below E m (Suc l) ?x)"
    unfolding view_Suc that(1)
    using updates_same [OF Suc.prems(4) below_in_tables that(2)] Suc.prems(3)
    by (intro entry_view_cong)
  show ?case
  proof (cases "t = Suc l")
    case True
    then have f: "f = r" using Suc.prems(2) by simp
    show ?thesis
    proof (cases "?i' = ?i")
      case True
      have "view E m' (Suc l) r v' = entry_view E m' (Suc l) e v'"
        using read' True \<open>t = Suc l\<close> f by (simp add: view_Suc)
      moreover have "\<forall>k. t \<le> k \<and> k \<le> Suc l \<longrightarrow>
          index_at (e_meta E) k v' = index_at (e_meta E) k v"
        using True \<open>t = Suc l\<close> le_antisym by blast
      ultimately show ?thesis using \<open>t = Suc l\<close> by simp
    next
      case False
      have "view E m' (Suc l) r v' = view E m (Suc l) r v'"
        using read' False \<open>t = Suc l\<close> f root_not_below [OF Suc.prems(1,3)] by (intro off) simp_all
      then show ?thesis using False \<open>t = Suc l\<close> by auto
    qed
  next
    case False
    then obtain h where h: "child E (Suc l) (read_entry E m r ?i) = Some h"
      and ta: "table_at E m l h v t = Some f"
      using Suc.prems(2) table_at_child by blast
    have tl: "t \<le> l" using table_at_level [OF ta] by simp
    have sub: "set (tables E m l h) \<subseteq> set (tables E m (Suc l) r)"
      using child_in_tables [OF Suc.prems(3) h] .
    have fin: "f \<in> set (below E m (Suc l) (read_entry E m r ?i))"
      using table_at_in_tables [OF ta] Suc.prems(3) child_below [OF h] by simp
    then have fr: "f \<noteq> r" using root_not_below [OF Suc.prems(1,3)] by blast
    with read' have r': "read_entry E m' r ?i' = ?x" by simp
    show ?thesis
    proof (cases "?i' = ?i")
      case True
      have dis: "distinct (tables E m l h)"
        using distinct_tables_Suc(1) [OF Suc.prems(1) index_less_entries [OF Suc.prems(3), of v]]
          child_below [OF h] by simp
      have ih: "view E m' l h v' =
          (if \<forall>k. t \<le> k \<and> k \<le> l \<longrightarrow> index_at (e_meta E) k v' = index_at (e_meta E) k v
           then entry_view E m' t e v' else view E m l h v')"
        using Suc.prems(3) updates_mono [OF Suc.prems(4) sub] by (intro Suc.IH [OF dis ta]) simp_all
      have all: "(\<forall>k. t \<le> k \<and> k \<le> Suc l \<longrightarrow> index_at (e_meta E) k v' = index_at (e_meta E) k v) \<longleftrightarrow>
          (\<forall>k. t \<le> k \<and> k \<le> l \<longrightarrow> index_at (e_meta E) k v' = index_at (e_meta E) k v)"
        using True tl by (metis le_Suc_eq)
      have a: "view E m' (Suc l) r v' = view E m' l h v'"
        using r' h by (simp add: view_Suc True child_view)
      have b: "view E m (Suc l) r v' = view E m l h v'"
        using h by (simp add: view_Suc True child_view)
      show ?thesis unfolding all a b by (rule ih)
    next
      case False
      then have "f \<notin> set (below E m (Suc l) ?x)"
        using below_disjoint [OF Suc.prems(1,3) False] fin by blast
      then have "view E m' (Suc l) r v' = view E m (Suc l) r v'" by (rule off [OF r'])
      moreover have no: "\<not> (\<forall>k. t \<le> k \<and> k \<le> Suc l \<longrightarrow>
          index_at (e_meta E) k v' = index_at (e_meta E) k v)"
        using False tl by (meson le_SucI order.refl)
      ultimately show ?thesis unfolding if_not_P [OF no] by simp
    qed
  qed
qed

text \<open>Two paths that meet in a table share it; the path to the table survives the rewrite.\<close>

lemma table_at_update_up:
  assumes "distinct (tables E m l r)" "table_at E m l r v t = Some f" "l \<le> LEVELS (e_meta E)"
    and "updates E (set (tables E m l r)) f (index_at (e_meta E) t v) e m m'"
    and "t \<le> k" "k \<le> l"
  shows "table_at E m' l r v k = table_at E m l r v k"
  using assms
proof (induction l arbitrary: r)
  case 0
  then show ?case by simp
next
  case (Suc l)
  show ?case
  proof (cases "k = Suc l")
    case True
    then show ?thesis by simp
  next
    case False
    then have kl: "k \<le> l" and "t \<noteq> Suc l" using Suc.prems(5,6) by simp_all
    let ?x = "read_entry E m r (index_at (e_meta E) (Suc l) v)"
    obtain h where h: "child E (Suc l) ?x = Some h" and ta: "table_at E m l h v t = Some f"
      using \<open>t \<noteq> Suc l\<close> Suc.prems(2) table_at_child by blast
    have sub: "set (tables E m l h) \<subseteq> set (tables E m (Suc l) r)"
      using child_in_tables [OF Suc.prems(3) h] .
    have "f \<noteq> r"
      using table_at_in_tables [OF ta] Suc.prems(3) child_below [OF h]
        root_not_below [OF Suc.prems(1,3), of v] by auto
    then have r': "read_entry E m' r (index_at (e_meta E) (Suc l) v) = ?x"
      using updates_read [OF Suc.prems(4) root_in_tables index_less_entries [OF Suc.prems(3)]] by simp
    have dis: "distinct (tables E m l h)"
      using distinct_tables_Suc(1) [OF Suc.prems(1) index_less_entries [OF Suc.prems(3), of v]]
        child_below [OF h] by simp
    have "table_at E m' l h v k = table_at E m l h v k"
      using Suc.prems(3) updates_mono [OF Suc.prems(4) sub] Suc.prems(5) kl
      by (intro Suc.IH [OF dis ta]) simp_all
    then show ?thesis using False r' h by simp
  qed
qed

lemma table_at_update:
  assumes "distinct (tables E m l r)" "table_at E m l r v t = Some f" "l \<le> LEVELS (e_meta E)"
    and "updates E (set (tables E m l r)) f (index_at (e_meta E) t v) e m m'"
  shows "table_at E m' l r v t = Some f"
  using table_at_update_up [OF assms order.refl] table_at_level [OF assms(2)] assms(2) by simp

text \<open>The entry a path reaches at level \<open>t\<close> decides the view of the addresses on that path.\<close>

lemma view_at:
  assumes "table_at E m l r v t = Some f" "l \<le> LEVELS (e_meta E)"
    and "\<forall>k. t \<le> k \<and> k \<le> l \<longrightarrow> index_at (e_meta E) k v' = index_at (e_meta E) k v"
  shows "view E m l r v' = entry_view E m t (read_entry E m f (index_at (e_meta E) t v)) v'"
  using assms
proof (induction l arbitrary: r)
  case 0
  then show ?case by simp
next
  case (Suc l)
  show ?case
  proof (cases "t = Suc l")
    case True
    then show ?thesis using Suc.prems by (simp add: view_Suc)
  next
    case False
    let ?x = "read_entry E m r (index_at (e_meta E) (Suc l) v)"
    obtain h where h: "child E (Suc l) ?x = Some h" and ta: "table_at E m l h v t = Some f"
      using False Suc.prems(1) table_at_child by blast
    have "index_at (e_meta E) (Suc l) v' = index_at (e_meta E) (Suc l) v"
      using Suc.prems(3) table_at_level [OF Suc.prems(1)] by simp
    then have "view E m (Suc l) r v' = view E m l h v'"
      by (simp add: view_Suc child_view [OF h])
    also have "\<dots> = entry_view E m t (read_entry E m f (index_at (e_meta E) t v)) v'"
      using Suc.prems(2,3) by (intro Suc.IH [OF ta]) simp_all
    finally show ?thesis .
  qed
qed

lemma table_at_step:
  assumes "table_at E m l r v (Suc t) = Some f" "1 \<le> t"
    and "child E (Suc t) (read_entry E m f (index_at (e_meta E) (Suc t) v)) = Some g"
  shows "table_at E m l r v t = Some g"
  using assms
proof (induction l arbitrary: r)
  case 0
  then show ?case by simp
next
  case (Suc l)
  show ?case
  proof (cases "Suc t = Suc l")
    case True
    then have "r = f" "t = l" using Suc.prems(1) by simp_all
    then show ?thesis
      using Suc.prems(2,3) by (cases l) simp_all
  next
    case False
    then obtain h where h: "child E (Suc l) (read_entry E m r (index_at (e_meta E) (Suc l) v)) = Some h"
      and ta: "table_at E m l h v (Suc t) = Some f"
      using Suc.prems(1) table_at_child by blast
    have "t \<noteq> Suc l" using table_at_level [OF ta] by simp
    then show ?thesis using h Suc.IH [OF ta Suc.prems(2,3)] by simp
  qed
qed

end

section \<open>The frames of a rewritten tree\<close>

lemma mset_exchange:
  fixes a b c d x y :: "'a multiset"
  assumes "a + c = b + d" "d + x = c + y"
  shows "a + x = b + y"
proof (rule multiset_eqI)
  fix z
  have "count (a + c) z = count (b + d) z" "count (d + x) z = count (c + y) z"
    by (simp_all add: assms)
  then show "count (a + x) z = count (b + y) z" by simp
qed

lemma mset_concat_upt:
  "mset (concat (map B [0..<n])) = (\<Sum>i<n. mset (B i))"
  by (induction n) (simp_all add: add.commute)

lemma sum_mset_update:
  fixes B B' :: "nat \<Rightarrow> 'a multiset"
  assumes "i < n" "\<And>j. j < n \<Longrightarrow> j \<noteq> i \<Longrightarrow> B' j = B j"
  shows "(\<Sum>j<n. B' j) + B i = (\<Sum>j<n. B j) + B' i"
proof -
  have "(\<Sum>j\<in>{..<n} - {i}. B' j) = (\<Sum>j\<in>{..<n} - {i}. B j)"
    using assms(2) by (intro sum.cong) auto
  then show ?thesis
    using assms(1) by (simp add: sum.remove [of "{..<n}" i] ac_simps)
qed

context walker
begin

lemma tables_update:
  assumes "distinct (tables E m l r)" "table_at E m l r v t = Some f" "l \<le> LEVELS (e_meta E)"
    and "updates E (set (tables E m l r)) f (index_at (e_meta E) t v) e m m'"
  shows "mset (tables E m' l r) +
      mset (below E m t (read_entry E m f (index_at (e_meta E) t v))) =
    mset (tables E m l r) + mset (below E m' t e)"
  using assms
proof (induction l arbitrary: r)
  case 0
  then show ?case by simp
next
  case (Suc l)
  let ?N = "ENTRIES_PER_TABLE (e_meta E)"
  let ?i = "index_at (e_meta E) (Suc l) v"
  let ?x = "read_entry E m r ?i"
  let ?B = "\<lambda>j. mset (below E m (Suc l) (read_entry E m r j))"
  let ?B' = "\<lambda>j. mset (below E m' (Suc l) (read_entry E m' r j))"
  have rin: "r \<in> set (tables E m (Suc l) r)" by (simp add: root_in_tables)
  have iN: "?i < ?N" by (rule index_less_entries [OF Suc.prems(3)])
  have other: "?B' j = ?B j" if j: "j < ?N" "j \<noteq> ?i" for j
  proof -
    have f: "f \<notin> set (below E m (Suc l) (read_entry E m r j))"
    proof (cases "t = Suc l")
      case True
      then show ?thesis using Suc.prems(2) distinct_tables_Suc(1) [OF Suc.prems(1) j(1)] by simp
    next
      case False
      then obtain h where h: "child E (Suc l) ?x = Some h" and ta: "table_at E m l h v t = Some f"
        using Suc.prems(2) table_at_child by blast
      then have "f \<in> set (below E m (Suc l) ?x)"
        using table_at_in_tables [OF ta] Suc.prems(3) child_below [OF h] by simp
      then show ?thesis using distinct_tables_Suc(2) [OF Suc.prems(1) j(1) iN j(2)] by blast
    qed
    have "read_entry E m' r j = read_entry E m r j"
    proof (cases "t = Suc l")
      case True
      then show ?thesis using Suc.prems(2) updates_read [OF Suc.prems(4) rin j(1)] j(2) by simp
    next
      case False
      then obtain h where h: "child E (Suc l) ?x = Some h" and ta: "table_at E m l h v t = Some f"
        using Suc.prems(2) table_at_child by blast
      then have "f \<noteq> r"
        using table_at_in_tables [OF ta] Suc.prems(3) child_below [OF h]
          root_not_below [OF Suc.prems(1,3), of v] by auto
      then show ?thesis using updates_read [OF Suc.prems(4) rin j(1)] by simp
    qed
    then show ?thesis
      using below_cong [OF updates_same [OF Suc.prems(4) below_subset [OF j(1)] f]] by simp
  qed
  have sum: "mset (tables E m' (Suc l) r) + ?B ?i = mset (tables E m (Suc l) r) + ?B' ?i"
    using sum_mset_update [of ?i ?N ?B' ?B] iN other
    by (simp add: tables_Suc mset_concat_upt)
  show ?case
  proof (cases "t = Suc l")
    case True
    then show ?thesis
      using sum Suc.prems(2) updates_read [OF Suc.prems(4) rin iN] by simp
  next
    case False
    then obtain h where h: "child E (Suc l) ?x = Some h" and ta: "table_at E m l h v t = Some f"
      using Suc.prems(2) table_at_child by blast
    have sub: "set (tables E m l h) \<subseteq> set (tables E m (Suc l) r)"
      using child_in_tables [OF Suc.prems(3) h] .
    have "f \<noteq> r"
      using table_at_in_tables [OF ta] Suc.prems(3) child_below [OF h]
        root_not_below [OF Suc.prems(1,3), of v] by auto
    then have r': "read_entry E m' r ?i = ?x"
      using updates_read [OF Suc.prems(4) rin iN] by simp
    have dis: "distinct (tables E m l h)"
      using distinct_tables_Suc(1) [OF Suc.prems(1) iN] child_below [OF h] by simp
    have ih: "mset (tables E m' l h) +
        mset (below E m t (read_entry E m f (index_at (e_meta E) t v))) =
        mset (tables E m l h) + mset (below E m' t e)"
      using Suc.prems(3) updates_mono [OF Suc.prems(4) sub] by (intro Suc.IH [OF dis ta]) simp_all
    have b: "?B ?i = mset (tables E m l h)" "?B' ?i = mset (tables E m' l h)"
      using r' child_below [OF h] by simp_all
    show ?thesis by (rule mset_exchange [OF sum [unfolded b] ih])
  qed
qed

section \<open>The frames below a path\<close>

text \<open>The subtree under the entry a path reaches is a part of the tree, apart from its table.\<close>

lemma path_below:
  assumes "distinct (tables E m l r)" "table_at E m l r v t = Some f" "l \<le> LEVELS (e_meta E)"
  shows "set (below E m t (read_entry E m f (index_at (e_meta E) t v))) \<subseteq> set (tables E m l r) \<and>
    distinct (below E m t (read_entry E m f (index_at (e_meta E) t v))) \<and>
    f \<notin> set (below E m t (read_entry E m f (index_at (e_meta E) t v)))"
  using assms
proof (induction l arbitrary: r)
  case 0
  then show ?case by simp
next
  case (Suc l)
  have i: "index_at (e_meta E) (Suc l) v < ENTRIES_PER_TABLE (e_meta E)"
    by (rule index_less_entries [OF Suc.prems(3)])
  show ?case
  proof (cases "t = Suc l")
    case True
    then show ?thesis
      using Suc.prems(2) below_in_tables [OF Suc.prems(3)] distinct_tables_Suc(1) [OF Suc.prems(1) i]
      by simp
  next
    case False
    then obtain h where h: "child E (Suc l) (read_entry E m r (index_at (e_meta E) (Suc l) v)) = Some h"
      and ta: "table_at E m l h v t = Some f"
      using Suc.prems(2) table_at_child by blast
    have "distinct (tables E m l h)"
      using distinct_tables_Suc(1) [OF Suc.prems(1) i] child_below [OF h] by simp
    then show ?thesis
      using Suc.IH [OF _ ta] Suc.prems(3) child_in_tables [OF Suc.prems(3) h] by fastforce
  qed
qed

lemma table_at_cong:
  assumes "same_entries E (set (tables E m l r)) m m'" "l \<le> LEVELS (e_meta E)"
  shows "table_at E m' l r v t = table_at E m l r v t"
  using assms
proof (induction l arbitrary: r)
  case 0
  then show ?case by simp
next
  case (Suc l)
  let ?x = "read_entry E m r (index_at (e_meta E) (Suc l) v)"
  have r': "read_entry E m' r (index_at (e_meta E) (Suc l) v) = ?x"
    using Suc.prems by (rule read_on_path)
  show ?case
  proof (cases "child E (Suc l) ?x")
    case None
    then show ?thesis by (simp add: r')
  next
    case (Some h)
    have "same_entries E (set (tables E m l h)) m m'"
      by (rule same_entries_mono [OF Suc.prems(1) child_in_tables [OF Suc.prems(2) Some]])
    then have "table_at E m' l h v t = table_at E m l h v t"
      using Suc.prems(2) by (intro Suc.IH) simp_all
    with Some show ?thesis by (simp add: r')
  qed
qed

text \<open>A walk that ends at level \<open>t\<close> passes through every level above it.\<close>

lemma table_at_up:
  assumes "table_at E m l r v t = Some f" "t < k" "k \<le> l"
  obtains g h where "table_at E m l r v k = Some g"
    and "child E k (read_entry E m g (index_at (e_meta E) k v)) = Some h"
  using assms
proof (induction l arbitrary: r thesis)
  case 0
  then show ?case by simp
next
  case (Suc l)
  then have "t \<noteq> Suc l" by simp
  then obtain h where h: "child E (Suc l) (read_entry E m r (index_at (e_meta E) (Suc l) v)) = Some h"
    and ta: "table_at E m l h v t = Some f"
    using Suc.prems(2) table_at_child by blast
  show ?case
  proof (cases "k = Suc l")
    case True
    then show ?thesis using h Suc.prems(1) [of r h] by simp
  next
    case False
    with Suc.prems(4) have "k \<le> l" by simp
    from Suc.IH [OF _ ta Suc.prems(3) this] obtain g h' where
      "table_at E m l h v k = Some g"
      "child E k (read_entry E m g (index_at (e_meta E) k v)) = Some h'" .
    then show ?thesis using Suc.prems(1) [of g h'] False h by simp
  qed
qed

section \<open>Tables without children\<close>

lemma tables_leafy:
  assumes "\<And>i. i < ENTRIES_PER_TABLE (e_meta E) \<Longrightarrow> child E (Suc l) (read_entry E m g i) = None"
  shows "tables E m (Suc l) g = [g]"
  using assms by (simp add: tables_Suc below_def)

lemma below_leafy:
  assumes "child E (Suc (Suc l)) e = Some g"
    and "\<And>i. i < ENTRIES_PER_TABLE (e_meta E) \<Longrightarrow> child E (Suc l) (read_entry E m g i) = None"
  shows "below E m (Suc (Suc l)) e = [g]"
  using assms by (simp add: below_def tables_leafy)

lemma view_empty:
  assumes "Suc l \<le> LEVELS (e_meta E)"
    and "\<And>i. i < ENTRIES_PER_TABLE (e_meta E) \<Longrightarrow> \<not> is_present (e_pte E) (read_entry E m g i)"
  shows "view E m (Suc l) g v = Err NotMapped"
  using assms(2) [OF index_less_entries [OF assms(1)]]
  by (simp add: view_Suc entry_view_def)

end

end
