(* ===== verification/TreeOk.thy ===== *)
theory TreeOk
  imports Tree
begin

text \<open>
  The invariant of a page table: a tree of live, well-placed table frames without sharing,
  whose leaves are encodable. Allocation by the host keeps it, and one lemma says what
  rewriting an entry on a path does to it; the operations of the walker are instances.
\<close>

section \<open>The invariant\<close>

abbreviation root_view :: "('f, 's, 'h) env \<Rightarrow> ('s, 'h) world \<Rightarrow> paddr \<Rightarrow> vaddr \<Rightarrow> (nat \<times> u64) res" where
  "root_view E w root v \<equiv> view E (mem w) (LEVELS (e_meta E)) root v"

abbreviation root_tables :: "('f, 's, 'h) env \<Rightarrow> ('s, 'h) world \<Rightarrow> paddr \<Rightarrow> paddr list" where
  "root_tables E w root \<equiv> tables E (mem w) (LEVELS (e_meta E)) root"

abbreviation root_table_at :: "('f, 's, 'h) env \<Rightarrow> ('s, 'h) world \<Rightarrow> paddr \<Rightarrow> vaddr \<Rightarrow> nat \<Rightarrow>
    paddr option" where
  "root_table_at E w root v t \<equiv> table_at E (mem w) (LEVELS (e_meta E)) root v t"

text \<open>A leaf of level \<open>t\<close> has a size its level supports and an address aligned to it.\<close>

definition leaf_ok :: "('f, 's, 'h) env \<Rightarrow> nat \<Rightarrow> u64 \<Rightarrow> bool" where
  "leaf_ok E t e =
     (case leaf_size_at_level (e_meta E) t of
        None \<Rightarrow> False
      | Some sz \<Rightarrow> level_supports_leaf (e_meta E) t sz \<and> is_aligned sz (pte_paddr (e_pte E) e))"

definition tree_ok :: "('f, 's, 'h) env \<Rightarrow> ('s \<Rightarrow> paddr set) \<Rightarrow> paddr \<Rightarrow> ('s, 'h) world \<Rightarrow> bool" where
  "tree_ok E live root w \<longleftrightarrow>
     distinct (root_tables E w root) \<and>
     (\<forall>f\<in>set (root_tables E w root). frame_ok (e_meta E) f) \<and>
     set (root_tables E w root) \<subseteq> live (astate w) \<and>
     (\<forall>v t e. root_view E w root v = Ok (t, e) \<longrightarrow> leaf_ok E t e)"

lemma tree_okD:
  assumes "tree_ok E live root w"
  shows "distinct (root_tables E w root)"
    and "f \<in> set (root_tables E w root) \<Longrightarrow> frame_ok (e_meta E) f"
    and "set (root_tables E w root) \<subseteq> live (astate w)"
    and "root_view E w root v = Ok (t, e) \<Longrightarrow> leaf_ok E t e"
  using assms by (auto simp: tree_ok_def)

text \<open>The addresses of one block, as the walk sees them.\<close>

definition same_path :: "meta_impl \<Rightarrow> nat \<Rightarrow> vaddr \<Rightarrow> vaddr \<Rightarrow> bool" where
  "same_path M t v v' \<longleftrightarrow> (\<forall>k. t \<le> k \<and> k \<le> LEVELS M \<longrightarrow> index_at M k v' = index_at M k v)"

section \<open>Steps of the host\<close>

text \<open>A step that only adds live frames and leaves the entries of the live ones alone.\<close>

definition host_step :: "('f, 's, 'h) env \<Rightarrow> ('s \<Rightarrow> paddr set) \<Rightarrow> ('s, 'h) world \<Rightarrow> ('s, 'h) world \<Rightarrow> bool" where
  "host_step E live w w' \<longleftrightarrow>
     live (astate w) \<subseteq> live (astate w') \<and> same_entries E (live (astate w)) (mem w) (mem w')"

lemma host_step_refl: "host_step E live w w"
  by (simp add: host_step_def same_entries_def)

context walker
begin

text \<open>A step that leaves the entries of the tree alone and its frames live.\<close>

lemma tree_same:
  assumes ok: "tree_ok E live root w"
    and same: "same_entries E (set (root_tables E w root)) (mem w) (mem w')"
    and lv: "set (root_tables E w root) \<subseteq> live (astate w')"
  shows "tree_ok E live root w'" "root_view E w' root v = root_view E w root v"
    "root_tables E w' root = root_tables E w root"
    "root_table_at E w' root v t = root_table_at E w root v t"
proof -
  show t: "root_tables E w' root = root_tables E w root" by (rule tables_cong [OF same])
  have vw: "\<And>v. root_view E w' root v = root_view E w root v" by (rule view_cong [OF same order.refl])
  then show "root_view E w' root v = root_view E w root v" .
  show "root_table_at E w' root v t = root_table_at E w root v t"
    by (rule table_at_cong [OF same order.refl])
  show "tree_ok E live root w'"
    using ok lv unfolding tree_ok_def by (simp add: t vw)
qed

lemma host_step_same:
  assumes "tree_ok E live root w" "host_step E live w w'"
  shows "same_entries E (set (root_tables E w root)) (mem w) (mem w')"
  using assms(2) unfolding host_step_def
  by (elim conjE) (rule same_entries_mono [OF _ tree_okD(3) [OF assms(1)]])

lemma host_step_tables:
  "\<lbrakk>tree_ok E live root w; host_step E live w w'\<rbrakk> \<Longrightarrow> root_tables E w' root = root_tables E w root"
  by (intro tables_cong host_step_same)

lemma host_step_view:
  "\<lbrakk>tree_ok E live root w; host_step E live w w'\<rbrakk> \<Longrightarrow> root_view E w' root v = root_view E w root v"
  by (intro view_cong host_step_same) simp_all

lemma host_step_table_at:
  "\<lbrakk>tree_ok E live root w; host_step E live w w'\<rbrakk> \<Longrightarrow>
     root_table_at E w' root v t = root_table_at E w root v t"
  by (intro table_at_cong host_step_same) simp_all

lemma host_step_tree_ok:
  assumes "tree_ok E live root w" "host_step E live w w'"
  shows "tree_ok E live root w'"
proof -
  have "set (root_tables E w root) \<subseteq> live (astate w')"
    using tree_okD(3) [OF assms(1)] assms(2) unfolding host_step_def by blast
  then show ?thesis
    using assms(1) host_step_tables [OF assms] host_step_view [OF assms]
    unfolding tree_ok_def by simp
qed

lemma root_not_0: "LEVELS (e_meta E) \<noteq> 0"
  using levels_pos by simp

lemma root_table: "root_table_at E w root v (LEVELS (e_meta E)) = Some root"
  using root_not_0 by (cases "LEVELS (e_meta E)") simp_all

lemma table_frame_ok:
  assumes "tree_ok E live root w" "root_table_at E w root v t = Some f"
  shows "frame_ok (e_meta E) f" "f \<in> live (astate w)" "f \<in> set (root_tables E w root)"
    "1 \<le> t" "t \<le> LEVELS (e_meta E)" "index_at (e_meta E) t v < ENTRIES_PER_TABLE (e_meta E)"
proof -
  show f: "f \<in> set (root_tables E w root)"
    using table_at_in_tables [OF assms(2)] by simp
  then show "frame_ok (e_meta E) f" "f \<in> live (astate w)"
    using tree_okD [OF assms(1)] by auto
  show t: "1 \<le> t" "t \<le> LEVELS (e_meta E)"
    using table_at_level [OF assms(2)] by simp_all
  then show "index_at (e_meta E) t v < ENTRIES_PER_TABLE (e_meta E)"
    by (rule index_at_less)
qed

lemma store_updates:
  assumes "\<forall>g\<in>F. frame_ok (e_meta E) g" "frame_ok (e_meta E) f" "i < ENTRIES_PER_TABLE (e_meta E)"
  shows "updates E F f i e m (write_entry E m f i e)"
  using assms cells_inj by (auto simp: updates_def write_entry_def read_entry_def)

section \<open>Rewriting an entry of the tree\<close>

lemma update_frames:
  assumes ok: "tree_ok E live root w"
    and ta: "root_table_at E w root v t = Some f"
    and upd: "updates E (set (root_tables E w root)) f (index_at (e_meta E) t v) e (mem w) (mem w')"
    and old: "old = below E (mem w) t (read_entry E (mem w) f (index_at (e_meta E) t v))"
    and new: "new = below E (mem w') t e" "distinct new"
      "set new \<inter> (set (root_tables E w root) - set old) = {}"
  shows "distinct (root_tables E w' root)"
    and "set (root_tables E w' root) = (set (root_tables E w root) - set old) \<union> set new"
    and "mset (root_tables E w' root) = mset (root_tables E w root) - mset old + mset new"
proof -
  let ?T = "root_tables E w root" and ?T' = "root_tables E w' root"
  have dis: "distinct ?T" by (rule tree_okD(1) [OF ok])
  have sub: "set old \<subseteq> set ?T" "distinct old"
    using path_below [OF dis ta] unfolding old by simp_all
  have sum: "mset ?T' + mset old = mset ?T + mset new"
    using tables_update [OF dis ta order.refl upd] unfolding old new(1) .
  then show eq: "mset ?T' = mset ?T - mset old + mset new"
    using sub dis
    by (metis add_diff_cancel_right' mset_subset_eq_add_right subset_mset.add_diff_assoc2
        mset_set_set subset_imp_msubset_mset_set finite_set)
  have c: "count (mset ?T') x = count (mset ?T) x - count (mset old) x + count (mset new) x" for x
    by (simp add: eq)
  have T: "count (mset ?T) x = of_bool (x \<in> set ?T)" "count (mset old) x = of_bool (x \<in> set old)"
    "count (mset new) x = of_bool (x \<in> set new)" for x
    using dis sub(2) new(2) by (simp_all add: distinct_count_atmost_1)
  show s: "set ?T' = (set ?T - set old) \<union> set new"
  proof (rule set_eqI)
    fix x
    have "x \<in> set ?T' \<longleftrightarrow> 0 < count (mset ?T') x" by simp
    also have "\<dots> \<longleftrightarrow> x \<in> (set ?T - set old) \<union> set new"
      unfolding c T using sub by auto
    finally show "x \<in> set ?T' \<longleftrightarrow> x \<in> (set ?T - set old) \<union> set new" .
  qed
  have "count (mset ?T') x \<le> 1" for x
    unfolding c T using new(3) by auto
  then show "distinct ?T'"
    unfolding distinct_count_atmost_1 using s
    by (metis count_mset_0_iff le_Suc_eq le_zero_eq One_nat_def)
qed

lemma update_view:
  assumes "tree_ok E live root w" "root_table_at E w root v t = Some f"
    and "updates E (set (root_tables E w root)) f (index_at (e_meta E) t v) e (mem w) (mem w')"
  shows "root_view E w' root v' =
    (if same_path (e_meta E) t v v' then entry_view E (mem w') t e v' else root_view E w root v')"
  using view_update [OF tree_okD(1) [OF assms(1)] assms(2) order.refl assms(3)]
  unfolding same_path_def .

lemma update_tree_ok:
  assumes ok: "tree_ok E live root w"
    and ta: "root_table_at E w root v t = Some f"
    and upd: "updates E (set (root_tables E w root)) f (index_at (e_meta E) t v) e (mem w) (mem w')"
    and old: "old = below E (mem w) t (read_entry E (mem w) f (index_at (e_meta E) t v))"
    and new: "new = below E (mem w') t e" "distinct new"
      "set new \<inter> (set (root_tables E w root) - set old) = {}"
    and frames: "\<And>g. g \<in> set new \<Longrightarrow> frame_ok (e_meta E) g \<and> g \<in> live (astate w')"
      "live (astate w) - set old \<subseteq> live (astate w')"
    and leaf: "\<And>v' t' e'. entry_view E (mem w') t e v' = Ok (t', e') \<Longrightarrow> leaf_ok E t' e'"
  shows "tree_ok E live root w'"
  unfolding tree_ok_def
proof (intro conjI allI impI ballI)
  note fr = update_frames [OF ok ta upd old new]
  show "distinct (root_tables E w' root)" by (rule fr(1))
  show "frame_ok (e_meta E) g" if "g \<in> set (root_tables E w' root)" for g
    using that frames(1) tree_okD(2) [OF ok] unfolding fr(2) by blast
  show "set (root_tables E w' root) \<subseteq> live (astate w')"
    using frames tree_okD(3) [OF ok] unfolding fr(2) by blast
  show "leaf_ok E t' e'" if "root_view E w' root v' = Ok (t', e')" for v' t' e'
    using that leaf tree_okD(4) [OF ok] unfolding update_view [OF ok ta upd]
    by (auto split: if_splits)
qed

end

end
