(* ===== verification/HostSpec.thy ===== *)
theory HostSpec
  imports TreeOk
begin

text \<open>
  The two frame operations of the walker (\<^verbatim>\<open>alloc_table_frame\<close>, \<^verbatim>\<open>dealloc_table_frame\<close>)
  under the host contract, and the metadata assertions of the constructors.
\<close>

lemma bind_st_eq:
  "bind_st m f = (res, w') \<longleftrightarrow>
     (\<exists>a w. m = (Ok a, w) \<and> f a w = (res, w')) \<or>
     (\<exists>e. m = (Err e, w') \<and> res = Err e) \<or> m = (Panic, w') \<and> res = Panic"
  by (cases m; cases "fst m") auto

text \<open>What handing back a frame does, whatever the allocator answers.\<close>

definition gives_back :: "('f, 's, 'h) env \<Rightarrow> ('s \<Rightarrow> paddr set) \<Rightarrow> paddr \<Rightarrow> ('s, 'h) world \<Rightarrow>
    ('s, 'h) world \<Rightarrow> bool" where
  "gives_back E live g w w' \<longleftrightarrow>
     live (astate w) - {g} \<subseteq> live (astate w') \<and> live (astate w') \<subseteq> live (astate w) \<and>
     same_entries E (live (astate w) - {g}) (mem w) (mem w')"

definition frame_range :: "('f, 's, 'h) env \<Rightarrow> paddr \<Rightarrow> addr_range" where
  "frame_range E g = \<lparr>rng_start = g, rng_end = g + bytes (TABLE_FRAME_SIZE (e_meta E))\<rparr>"

lemma frame_range_start [simp]: "rng_start (frame_range E g) = g"
  by (simp add: frame_range_def)

text \<open>An allocator that takes back every live table frame it is handed.\<close>

definition dealloc_total :: "('f, 's, 'h) env \<Rightarrow> ('s \<Rightarrow> paddr set) \<Rightarrow> bool" where
  "dealloc_total E live \<longleftrightarrow>
     (\<forall>g s m. g \<in> live s \<longrightarrow> fst (deallocate (e_alloc E) (frame_range E g) (s, m)) = Ok ())"

context walker
begin

lemma assert_layout: "assert_walker_layout E = Ok ()"
  by (simp add: assert_walker_layout_def levels_max table_layout)

lemma call_deallocate_spec:
  assumes "call_deallocate E r w = (res, w')"
  shows "res \<noteq> Panic" "gives_back E live (rng_start r) w w'"
    "res = Ok () \<Longrightarrow> rng_start r \<notin> live (astate w')" "log w' = log w @ [Freed r]"
proof -
  obtain s m where d: "deallocate (e_alloc E) r (astate w, mem w) = (res, s, m)"
    and w': "w' = w\<lparr>astate := s, mem := m, log := log w @ [Freed r]\<rparr>"
    using assms by (auto simp: call_deallocate_def split: prod.splits)
  show "res \<noteq> Panic" "gives_back E live (rng_start r) w w'"
    "res = Ok () \<Longrightarrow> rng_start r \<notin> live (astate w')" "log w' = log w @ [Freed r]"
    using dealloc_keeps [OF d] by (auto simp: w' gives_back_def)
qed

lemma alloc_table_frame_spec:
  assumes "alloc_table_frame E w = (res, w')"
  shows "res \<noteq> Panic" "host_step E live w w'"
    "res = Ok g \<Longrightarrow> g \<notin> live (astate w) \<and> g \<in> live (astate w') \<and> frame_ok (e_meta E) g \<and>
       (\<forall>i<ENTRIES_PER_TABLE (e_meta E). read_entry E (mem w') g i = 0) \<and> log w' = log w"
proof -
  let ?M = "e_meta E" let ?ts = "TABLE_FRAME_SIZE ?M"
  obtain ra s m where a: "allocate (e_alloc E) (bytes ?ts) ?ts (astate w, mem w) = (ra, s, m)"
    by (metis prod_cases3)
  let ?w1 = "w\<lparr>astate := s, mem := m\<rparr>"
  have *: "res \<noteq> Panic \<and> host_step E live w w' \<and> (\<forall>g. res = Ok g \<longrightarrow>
      g \<notin> live (astate w) \<and> g \<in> live (astate w') \<and> frame_ok ?M g \<and>
      (\<forall>i<ENTRIES_PER_TABLE ?M. read_entry E (mem w') g i = 0) \<and> log w' = log w)"
  proof (cases ra)
    case (Ok r)
    note al = alloc_ok [OF a [unfolded Ok]]
    show ?thesis
    proof (cases "range_size (e_addr E) r \<noteq> bytes ?ts \<or> \<not> is_aligned ?ts (rng_start r)")
      case True
      obtain rd w2 where d: "call_deallocate E r ?w1 = (rd, w2)" by fastforce
      then have res: "res = Err NotAligned" "w' = w2"
        using assms call_deallocate_spec(1) [OF d]
        unfolding alloc_table_frame_def Let_def a Ok prod.case bind_st_simps if_P [OF True] d
        by (cases rd; simp)+
      have "live (astate w) \<subseteq> live s - {rng_start r}" using al by auto
      moreover have "same_entries E (live (astate w)) (mem w) (mem w2)"
      proof -
        have "same_entries E (live s - {rng_start r}) m (mem w2)"
          using call_deallocate_spec(2) [OF d] by (simp add: gives_back_def)
        then have "same_entries E (live (astate w)) m (mem w2)"
          by (rule same_entries_mono) fact
        then show ?thesis using al by (simp add: same_entries_def)
      qed
      moreover have "live s - {rng_start r} \<subseteq> live (astate w2)"
        using call_deallocate_spec(2) [OF d] by (simp add: gives_back_def)
      ultimately show ?thesis using res by (auto simp: host_step_def)
    next
      case False
      then have "res = Ok (rng_start r)" "w' = ?w1"
        using assms unfolding alloc_table_frame_def Let_def a Ok by simp_all
      then show ?thesis
        using al False by (auto simp: host_step_def frame_ok_def)
    qed
  next
    case (Err e)
    then have "res = Err e" "w' = ?w1"
      using assms unfolding alloc_table_frame_def Let_def a Err by simp_all
    then show ?thesis
      using alloc_fail [OF a [unfolded Err]] by (simp add: host_step_def)
  next
    case Panic
    then show ?thesis using alloc_returns a by (metis fst_conv)
  qed
  then show "res \<noteq> Panic" "host_step E live w w'"
    "res = Ok g \<Longrightarrow> g \<notin> live (astate w) \<and> g \<in> live (astate w') \<and> frame_ok (e_meta E) g \<and>
       (\<forall>i<ENTRIES_PER_TABLE (e_meta E). read_entry E (mem w') g i = 0) \<and> log w' = log w"
    by blast+
qed

lemma paddr_less:
  assumes "paddr_is_valid (e_meta E) p"
  shows "unat p < 2 ^ 60"
proof -
  have k: "60 < (64 :: nat)" by simp
  have "\<forall>n\<ge>60. \<not> bit p n"
    using assms pa_bits(2) unfolding paddr_valid by (meson le_trans)
  then have "p < push_bit 60 1" by (simp only: word_less_push_bit [OF k])
  then show ?thesis by (simp only: word_less_nat_alt unat_push_bit_one [OF k])
qed

lemma paddr_checked_add:
  assumes "paddr_is_valid (e_meta E) p"
  shows "checked_add p (bytes sz) = Some (p + bytes sz)"
proof -
  have "(2 :: nat) ^ size_shift sz \<le> 2 ^ 42"
    by (rule power_increasing) (simp_all add: size_shift_less)
  moreover have "(2 :: nat) ^ 60 + 2 ^ 42 < 2 ^ 64" by simp
  ultimately have "unat p + 2 ^ size_shift sz < 2 ^ 64"
    using paddr_less [OF assms] by linarith
  then show ?thesis
    unfolding checked_add_def unat_bytes by (rule if_P)
qed

lemma dealloc_table_frame_spec:
  assumes "dealloc_table_frame E g w = (res, w')" "frame_ok (e_meta E) g"
  shows "res \<noteq> Panic" "gives_back E live g w w'" "res = Ok () \<Longrightarrow> g \<notin> live (astate w')"
    "log w' = log w @ [Freed (frame_range E g)]"
    "\<lbrakk>dealloc_total E live; g \<in> live (astate w)\<rbrakk> \<Longrightarrow>
       res = Ok () \<and> live (astate w') = live (astate w) - {g}"
proof -
  have "paddr_is_valid (e_meta E) g" using assms(2) by (simp add: frame_ok_def)
  then have "range_from_start_size (e_addr E) g (bytes (TABLE_FRAME_SIZE (e_meta E))) =
      Ok (frame_range E g)"
    by (simp add: addr_from_start_size [OF addr_ok] paddr_checked_add frame_range_def)
  then have d: "call_deallocate E (frame_range E g) w = (res, w')"
    using assms(1) by (simp add: dealloc_table_frame_def)
  show "res \<noteq> Panic" "gives_back E live g w w'" "res = Ok () \<Longrightarrow> g \<notin> live (astate w')"
    "log w' = log w @ [Freed (frame_range E g)]"
    using call_deallocate_spec [OF d] by simp_all
  show "res = Ok () \<and> live (astate w') = live (astate w) - {g}"
    if total: "dealloc_total E live" and g: "g \<in> live (astate w)"
  proof -
    have "res = Ok ()"
      using total g d unfolding dealloc_total_def call_deallocate_def
      by (auto split: prod.splits) (metis fst_conv)
    then show ?thesis
      using call_deallocate_spec [OF d] by (auto simp: gives_back_def)
  qed
qed

section \<open>A new root\<close>

lemma zero_child: "child E l 0 = None"
  by (simp add: child_def zero_absent)

lemma zero_tables:
  assumes "\<forall>i<ENTRIES_PER_TABLE (e_meta E). read_entry E m g i = 0"
  shows "tables E m (Suc l) g = [g]"
  using assms by (intro tables_leafy) (simp add: zero_child)

lemma zero_view:
  assumes "\<forall>i<ENTRIES_PER_TABLE (e_meta E). read_entry E m g i = 0" "Suc l \<le> LEVELS (e_meta E)"
  shows "view E m (Suc l) g v = Err NotMapped"
  using assms by (intro view_empty) (simp_all add: zero_absent)

lemma try_new_spec:
  assumes "try_new E w = (res, w')"
  shows "res \<noteq> Panic" "host_step E live w w'"
    "res = Ok root \<Longrightarrow> tree_ok E live root w' \<and> root_tables E w' root = [root] \<and>
       (\<forall>v. root_view E w' root v = Err NotMapped)"
proof -
  have a: "alloc_table_frame E w = (res, w')"
    using assms by (simp add: try_new_def assert_layout)
  show "res \<noteq> Panic" "host_step E live w w'" using alloc_table_frame_spec [OF a] by auto
  assume "res = Ok root"
  note al = alloc_table_frame_spec(3) [OF a this]
  obtain l where l: "LEVELS (e_meta E) = Suc l" using root_not_0 by (cases "LEVELS (e_meta E)") auto
  have t: "root_tables E w' root = [root]" and v: "\<And>v. root_view E w' root v = Err NotMapped"
    unfolding l using al l by (simp_all add: zero_tables zero_view)
  then show "tree_ok E live root w' \<and> root_tables E w' root = [root] \<and>
       (\<forall>v. root_view E w' root v = Err NotMapped)"
    using al by (simp add: tree_ok_def)
qed

end

end
