(* ===== verification/QuerySpec.thy ===== *)
theory QuerySpec
  imports HostSpec
begin

text \<open>
  Lookup as a function of the translation a tree denotes, and the correspondence between
  ranges, blocks of addresses and paths of the walk.
\<close>

section \<open>Lookup\<close>

text \<open>The mapping a leaf stands for, at the address whose walk found it.\<close>

definition decode :: "('f, 's, 'h) env \<Rightarrow> vaddr \<Rightarrow> nat \<times> u64 \<Rightarrow> 'f mapping res" where
  "decode E v te =
     (case te of (t, e) \<Rightarrow>
       bind_res (ok_or (leaf_size_at_level (e_meta E) t) UnsupportedSize) (\<lambda>sz.
       bind_res (leaf_range (e_addr E) v sz) (\<lambda>rg.
       Ok (mapping_new rg (pte_paddr (e_pte E) e) (pte_flags (e_pte E) e)))))"

lemma query_walk_view: "query_walk E m l cur v = bind_res (view E m l cur v) (decode E v)"
proof (induction l arbitrary: cur)
  case 0
  then show ?case by (simp add: view_0)
next
  case (Suc l)
  let ?e = "read_entry E m cur (index_at (e_meta E) (Suc l) v)"
  show ?case
    unfolding query_walk.simps Let_def view_Suc entry_view_def entry_is_leaf_def
    by (cases "entry_kind (e_pte E) ?e (Suc l)") (simp_all add: Suc.IH decode_def)
qed

lemma query_view:
  "query E root v m = bind_res (check_vaddr (e_meta E) v)
     (\<lambda>_. bind_res (view E m (LEVELS (e_meta E)) root v) (decode E v))"
  by (simp add: query_def query_walk_view)

lemma query_cong:
  "view E m' (LEVELS (e_meta E)) root v = view E m (LEVELS (e_meta E)) root v \<Longrightarrow>
     query E root v m' = query E root v m"
  by (simp add: query_view)

section \<open>Ranges\<close>

text \<open>A range of the crate's type: its end is not below its start.\<close>

definition range_ok :: "addr_range \<Rightarrow> bool" where
  "range_ok r \<longleftrightarrow> rng_start r \<le> rng_end r"

definition in_range :: "addr_range \<Rightarrow> vaddr \<Rightarrow> bool" where
  "in_range r v \<longleftrightarrow> rng_start r \<le> v \<and> v < rng_end r"

lemma aligned_block: "v AND mask k = 0 \<Longrightarrow> v AND NOT (mask k) = (v :: u64)"
  by (metis and_not_mask_eq aligned_push_drop)

lemma leaf_range_exact:
  assumes "addr_lib_ok L" "range_ok r" "range_size L r = bytes sz" "is_aligned sz (rng_start r)"
  shows "leaf_range L (rng_start r) sz = Ok r"
proof -
  have le: "rng_start r \<le> rng_end r" using assms(2) by (simp add: range_ok_def)
  have e: "rng_end r = rng_start r + bytes sz"
    using assms(3) addr_size [OF assms(1) le] by (simp add: algebra_simps)
  have "unat (bytes sz) = unat (rng_end r) - unat (rng_start r)"
    using assms(3) addr_size [OF assms(1) le] unat_sub [OF le] by simp
  then have "unat (rng_end r) = unat (rng_start r) + unat (bytes sz)"
    using le by (simp add: word_le_nat_alt)
  then have "checked_add (rng_start r) (bytes sz) = Some (rng_end r)"
    using unat_u64_less [of "rng_end r"] by (simp add: checked_add_def e)
  then show ?thesis
    using assms(1,4) aligned_block by (simp add: leaf_range_Ok is_aligned_mask)
qed

context walker
begin

lemma same_path_block:
  assumes "vaddr_is_valid (e_meta E) v" "vaddr_is_valid (e_meta E) v'"
    and "1 \<le> t" "t \<le> LEVELS (e_meta E)"
  shows "same_path (e_meta E) t v v' \<longleftrightarrow>
    drop_bit (level_shift (e_meta E) t) v' = drop_bit (level_shift (e_meta E) t) v"
  using same_path_iff [OF assms(2,1,3,4)] unfolding same_path_def .

text \<open>The path of a leaf level, its block and its range are the same set of valid addresses.\<close>

lemma in_range_path:
  assumes "leaf_range (e_addr E) v sz = Ok r" "level_shift (e_meta E) t = size_shift sz"
    and "1 \<le> t" "t \<le> LEVELS (e_meta E)"
    and "vaddr_is_valid (e_meta E) v" "vaddr_is_valid (e_meta E) v'"
  shows "same_path (e_meta E) t v v' \<longleftrightarrow> in_range r v'"
  using same_path_block [OF assms(5,6,3,4)] leaf_range_mem [OF addr_ok assms(1), of v']
  by (simp add: in_range_def assms(2))

text \<open>The result of a lookup inside the range of a leaf.\<close>

lemma query_leaf:
  assumes "root_view E w root v' = Ok (t, e)" "leaf_size_at_level (e_meta E) t = Some sz"
    and "leaf_range (e_addr E) v sz = Ok r" "in_range r v'" "vaddr_is_valid (e_meta E) v'"
  shows "query E root v' (mem w) =
    Ok (mapping_new r (pte_paddr (e_pte E) e) (pte_flags (e_pte E) e))"
proof -
  have "drop_bit (size_shift sz) v' = drop_bit (size_shift sz) v"
    using leaf_range_mem [OF addr_ok assms(3), of v'] assms(4) by (simp add: in_range_def)
  then have "leaf_range (e_addr E) v' sz = Ok r"
    using leaf_range_cong [OF addr_ok] assms(3) by metis
  then show ?thesis
    by (simp add: query_view check_vaddr_def assms decode_def)
qed

lemma query_not_mapped:
  assumes "root_view E w root v = Err e" "vaddr_is_valid (e_meta E) v"
  shows "query E root v (mem w) = Err e"
  using assms by (simp add: query_view check_vaddr_def)

text \<open>What a successful lookup says about the tree.\<close>

lemma query_OkD:
  assumes "query E root v (mem w) = Ok mp"
  obtains t e sz where "vaddr_is_valid (e_meta E) v" "root_view E w root v = Ok (t, e)"
    "leaf_size_at_level (e_meta E) t = Some sz" "leaf_range (e_addr E) v sz = Ok (m_range mp)"
    "mp = mapping_new (m_range mp) (pte_paddr (e_pte E) e) (pte_flags (e_pte E) e)"
  using assms
  by (auto simp: query_view check_vaddr_def bind_res_eq_Ok decode_def mapping_new_def
      split: if_splits)

end

end
