(* ===== verification/MapSpec.thy ===== *)
theory MapSpec
  imports QuerySpec
begin

text \<open>
  The map path: the descent that allocates intermediate tables keeps the translation as it
  is, the installation of the leaf adds exactly its range.
\<close>

context walker
begin

section \<open>Growing the tree\<close>

text \<open>A fresh zeroed frame hung below an absent entry maps nothing new.\<close>

lemma grow_step:
  assumes ok: "tree_ok E live root w"
    and ta: "root_table_at E w root v (Suc (Suc l)) = Some cur"
    and absent: "\<not> is_present (e_pte E) (read_entry E (mem w) cur (index_at (e_meta E) (Suc (Suc l)) v))"
    and hs: "host_step E live w w1"
    and g: "g \<notin> live (astate w)" "g \<in> live (astate w1)" "frame_ok (e_meta E) g"
      "\<forall>i<ENTRIES_PER_TABLE (e_meta E). read_entry E (mem w1) g i = 0"
    and w2: "w2 = store E cur (index_at (e_meta E) (Suc (Suc l)) v)
                    (new_table (e_pte E) g (Suc (Suc l))) w1"
  shows "tree_ok E live root w2" "root_view E w2 root v' = root_view E w root v'"
    "root_table_at E w2 root v (Suc l) = Some g" "live (astate w2) = live (astate w1)"
    "set (root_tables E w2 root) = insert g (set (root_tables E w root))"
proof -
  let ?M = "e_meta E" and ?P = "e_pte E" and ?t = "Suc (Suc l)"
  let ?i = "index_at ?M ?t v" and ?e = "new_table ?P g ?t"
  have ok1: "tree_ok E live root w1" by (rule host_step_tree_ok [OF ok hs])
  have ta1: "root_table_at E w1 root v ?t = Some cur"
    using ta host_step_table_at [OF ok hs] by simp
  have T1: "root_tables E w1 root = root_tables E w root" by (rule host_step_tables [OF ok hs])
  note cf = table_frame_ok [OF ok1 ta1]
  have gT: "g \<notin> set (root_tables E w1 root)"
    using g(1) tree_okD(3) [OF ok] T1 by auto
  have curg: "cur \<noteq> g" using gT cf(3) by blast
  have same1: "read_entry E (mem w1) cur ?i = read_entry E (mem w) cur ?i"
    using host_step_same [OF ok hs] table_frame_ok(3,6) [OF ok ta] by (simp add: same_entries_def)
  have old: "below E (mem w1) ?t (read_entry E (mem w1) cur ?i) = []"
    using absent same1 by (simp add: below_def child_def)
  have all: "updates E (insert g (set (root_tables E w1 root))) cur ?i ?e (mem w1) (mem w2)"
    unfolding w2 store_def
    using store_updates [OF _ cf(1,6)] tree_okD(2) [OF ok1] g(3) by simp
  then have upd: "updates E (set (root_tables E w1 root)) cur ?i ?e (mem w1) (mem w2)"
    by (rule updates_mono) blast
  have gz: "\<forall>j<ENTRIES_PER_TABLE ?M. read_entry E (mem w2) g j = 0"
    using all curg g(4) by (simp add: updates_def)
  have al: "is_aligned (TABLE_FRAME_SIZE ?M) g" "paddr_is_valid ?M g"
    using g(3) by (simp_all add: frame_ok_def)
  have lv: "?t \<le> LEVELS ?M" by (rule cf(5))
  have ch: "child E ?t ?e = Some g"
    using al lv by (simp add: child_def table_present table_kind table_paddr)
  have new: "below E (mem w2) ?t ?e = [g]"
    using ch gz by (intro below_leafy) (simp_all add: zero_child)
  have ev: "entry_view E (mem w2) ?t ?e u = Err NotMapped" for u
    using child_view [OF ch] zero_view [OF gz] lv by simp
  have st: "astate w2 = astate w1" by (simp add: w2 store_def)
  then show "live (astate w2) = live (astate w1)" by simp
  show "tree_ok E live root w2"
    by (rule update_tree_ok [OF ok1 ta1 upd refl refl])
      (use gT g(2,3) in \<open>simp_all add: new old ev st\<close>)
  show "set (root_tables E w2 root) = insert g (set (root_tables E w root))"
    using update_frames(2) [OF ok1 ta1 upd refl refl] gT by (simp add: new old T1)
  have v1: "root_view E w1 root v' = Err NotMapped" if "same_path ?M ?t v v'"
    using view_at [OF ta1 order.refl] that absent same1
    by (simp add: same_path_def entry_view_def)
  show "root_view E w2 root v' = root_view E w root v'"
    unfolding update_view [OF ok1 ta1 upd] ev
    using v1 host_step_view [OF ok hs] by (auto split: if_splits)
  have ta2: "root_table_at E w2 root v ?t = Some cur"
    by (rule table_at_update [OF tree_okD(1) [OF ok1] ta1 order.refl upd])
  have "read_entry E (mem w2) cur ?i = ?e"
    using updates_read [OF upd cf(3,6)] by simp
  then show "root_table_at E w2 root v (Suc l) = Some g"
    using table_at_step [OF ta2] ch by simp
qed

lemma table_step:
  assumes "root_table_at E w root v (Suc (Suc l)) = Some cur"
    and "is_present (e_pte E) e" "entry_kind (e_pte E) e (Suc (Suc l)) = Table"
    and "e = read_entry E (mem w) cur (index_at (e_meta E) (Suc (Suc l)) v)"
  shows "root_table_at E w root v (Suc l) = Some (pte_paddr (e_pte E) e)"
  using assms by (intro table_at_step [OF assms(1)]) (simp_all add: child_def)

lemma map_descend_spec:
  assumes "tree_ok E live root w" "root_table_at E w root v l = Some cur" "1 \<le> target" "target \<le> l"
    and "map_descend E target v l cur w = (res, w')"
  shows "res \<noteq> Panic \<and> tree_ok E live root w' \<and> live (astate w) \<subseteq> live (astate w') \<and>
    (\<forall>v'. root_view E w' root v' = root_view E w root v') \<and>
    (\<forall>c k. res = Ok (c, k) \<longrightarrow> k = target \<and> root_table_at E w' root v target = Some c)"
  using assms
proof (induction l arbitrary: cur w)
  case 0
  then show ?case by simp
next
  case (Suc l)
  let ?M = "e_meta E" and ?P = "e_pte E"
  let ?i = "index_at ?M (Suc l) v"
  let ?e = "read_entry E (mem w) cur ?i"
  show ?case
  proof (cases "target < Suc l")
    case False
    then have "target = Suc l" using Suc.prems(4) by simp
    then show ?thesis using Suc.prems by auto
  next
    case True
    then obtain l' where l': "l = Suc l'" using Suc.prems(3) by (cases l) auto
    have tl: "target \<le> l" using True by simp
    show ?thesis
    proof (cases "is_present ?P ?e")
      case pres: True
      show ?thesis
      proof (cases "entry_kind ?P ?e (Suc l)")
        case Table
        have d: "map_descend E target v l (pte_paddr ?P ?e) w = (res, w')"
          using Suc.prems(5) True pres Table by (simp add: Let_def entry_is_leaf_def)
        have "root_table_at E w root v l = Some (pte_paddr ?P ?e)"
          using table_step Suc.prems(2) pres Table unfolding l' by blast
        from Suc.IH [OF Suc.prems(1) this Suc.prems(3) tl d] show ?thesis .
      qed (use Suc.prems True pres in \<open>auto simp: Let_def entry_is_leaf_def\<close>)
    next
      case absent: False
      obtain ra w1 where a: "alloc_table_frame E w = (ra, w1)" by fastforce
      note al = alloc_table_frame_spec [OF a]
      show ?thesis
      proof (cases ra)
        case (Ok g)
        let ?w2 = "store E cur ?i (new_table ?P g (Suc l)) w1"
        have d: "map_descend E target v l g ?w2 = (res, w')"
          using Suc.prems(5) True absent a Ok by (simp add: Let_def)
        have ta: "root_table_at E w root v (Suc (Suc l')) = Some cur"
          using Suc.prems(2) l' by simp
        have ab: "\<not> is_present ?P (read_entry E (mem w) cur (index_at ?M (Suc (Suc l')) v))"
          using absent l' by simp
        note new = al(3) [OF Ok, THEN conjunct1] al(3) [OF Ok, THEN conjunct2, THEN conjunct1]
          al(3) [OF Ok, THEN conjunct2, THEN conjunct2, THEN conjunct1]
          al(3) [OF Ok, THEN conjunct2, THEN conjunct2, THEN conjunct2, THEN conjunct1]
        note grow = grow_step [OF Suc.prems(1) ta ab al(2) new refl, folded l']
        have gr: "tree_ok E live root ?w2" "root_table_at E ?w2 root v l = Some g"
          "live (astate ?w2) = live (astate w1)"
          "\<And>v'. root_view E ?w2 root v' = root_view E w root v'"
          by (rule grow)+
        have "live (astate w) \<subseteq> live (astate w1)" using al(2) by (simp add: host_step_def)
        with Suc.IH [OF gr(1,2) Suc.prems(3) tl d] gr(3,4) show ?thesis by auto
      next
        case (Err x)
        then have "res = Err x" "w' = w1"
          using Suc.prems(5) True absent a by (simp_all add: Let_def)
        then show ?thesis
          using host_step_tree_ok [OF Suc.prems(1) al(2)] host_step_view [OF Suc.prems(1) al(2)] al(2)
          by (simp add: host_step_def)
      next
        case Panic
        then show ?thesis using al(1) by simp
      qed
    qed
  qed
qed

section \<open>Installing a leaf\<close>

text \<open>A leaf that the level supports, at an address that fits, in place of any other entry.\<close>

lemma leaf_encoding:
  assumes "level_supports_leaf (e_meta E) t sz" "1 \<le> t" "t \<le> LEVELS (e_meta E)"
    and "is_aligned sz p" "paddr_is_valid (e_meta E) p" "flags_ok flags"
  shows "child E t (new_leaf (e_pte E) p flags sz) = None"
    "entry_view E m t (new_leaf (e_pte E) p flags sz) u = Ok (t, new_leaf (e_pte E) p flags sz)"
    "leaf_ok E t (new_leaf (e_pte E) p flags sz)"
    "leaf_size_at_level (e_meta E) t = Some sz"
    "level_shift (e_meta E) t = size_shift sz"
proof -
  show s: "level_shift (e_meta E) t = size_shift sz" by (rule supports_size [OF assms(2,3,1)])
  then show z: "leaf_size_at_level (e_meta E) t = Some sz" by (simp add: leaf_size [OF assms(2,3)])
  show "child E t (new_leaf (e_pte E) p flags sz) = None"
    "entry_view E m t (new_leaf (e_pte E) p flags sz) u = Ok (t, new_leaf (e_pte E) p flags sz)"
    using assms by (simp_all add: child_def entry_view_def entry_is_leaf_def leaf_present leaf_kind)
  show "leaf_ok E t (new_leaf (e_pte E) p flags sz)"
    using assms z by (simp add: leaf_ok_def leaf_paddr)
qed

text \<open>Writing an entry without a subtree over another one.\<close>

lemma plain_store:
  assumes ok: "tree_ok E live root w"
    and ta: "root_table_at E w root v t = Some f"
    and old: "child E t (read_entry E (mem w) f (index_at (e_meta E) t v)) = None"
    and new: "child E t e = None"
    and leaf: "\<And>v' t' e'. entry_view E (mem w') t e v' = Ok (t', e') \<Longrightarrow> leaf_ok E t' e'"
    and w': "w' = store E f (index_at (e_meta E) t v) e w"
  shows "tree_ok E live root w'"
    "root_view E w' root v' =
       (if same_path (e_meta E) t v v' then entry_view E (mem w') t e v' else root_view E w root v')"
    "astate w' = astate w" "set (root_tables E w' root) = set (root_tables E w root)"
    "root_table_at E w' root v t = Some f"
proof -
  note cf = table_frame_ok [OF ok ta]
  have upd: "updates E (set (root_tables E w root)) f (index_at (e_meta E) t v) e (mem w) (mem w')"
    using store_updates [OF _ cf(1,6)] tree_okD(2) [OF ok] by (simp add: w' store_def)
  have n: "below E (mem w') t e = []" and
    o: "below E (mem w) t (read_entry E (mem w) f (index_at (e_meta E) t v)) = []"
    using old new by (simp_all add: below_def)
  have st: "astate w' = astate w" by (simp add: w' store_def)
  show "tree_ok E live root w'"
    by (rule update_tree_ok [OF ok ta upd refl refl]) (simp_all add: n o st leaf)
  show "root_view E w' root v' =
       (if same_path (e_meta E) t v v' then entry_view E (mem w') t e v' else root_view E w root v')"
    by (rule update_view [OF ok ta upd])
  show "astate w' = astate w" by (simp add: w' store_def)
  show "set (root_tables E w' root) = set (root_tables E w root)"
    using update_frames(2) [OF ok ta upd refl refl] by (simp add: n o)
  show "root_table_at E w' root v t = Some f"
    by (rule table_at_update [OF tree_okD(1) [OF ok] ta order.refl upd])
qed

lemma leaf_store:
  assumes ok: "tree_ok E live root w"
    and ta: "root_table_at E w root v t = Some f"
    and old: "child E t (read_entry E (mem w) f (index_at (e_meta E) t v)) = None"
    and sz: "level_supports_leaf (e_meta E) t sz"
    and p: "is_aligned sz p" "paddr_is_valid (e_meta E) p" "flags_ok flags"
    and w': "w' = store E f (index_at (e_meta E) t v) (new_leaf (e_pte E) p flags sz) w"
  shows "tree_ok E live root w'"
    "root_view E w' root v' =
       (if same_path (e_meta E) t v v' then Ok (t, new_leaf (e_pte E) p flags sz)
        else root_view E w root v')"
    "astate w' = astate w" "set (root_tables E w' root) = set (root_tables E w root)"
proof -
  note enc = leaf_encoding [OF sz table_frame_ok(4,5) [OF ok ta] p]
  note st = plain_store [OF ok ta old enc(1) _ w']
  have l: "\<And>v' t' e'. entry_view E (mem w') t (new_leaf (e_pte E) p flags sz) v' = Ok (t', e') \<Longrightarrow>
      leaf_ok E t' e'"
    using enc(2,3) by simp
  show "tree_ok E live root w'" "astate w' = astate w"
    "set (root_tables E w' root) = set (root_tables E w root)"
    using st(1,3,4) [OF l] by simp_all
  show "root_view E w' root v' =
       (if same_path (e_meta E) t v v' then Ok (t, new_leaf (e_pte E) p flags sz)
        else root_view E w root v')"
    using st(2) [OF l, where v' = v'] enc(2) by simp
qed

lemma install_leaf_spec:
  assumes ok: "tree_ok E live root w"
    and ta: "root_table_at E w root v t = Some cur"
    and sz: "level_supports_leaf (e_meta E) t sz"
    and p: "is_aligned sz p" "paddr_is_valid (e_meta E) p" "flags_ok flags"
    and run: "install_leaf E v p flags sz cur t w = (res, w')"
  shows "tree_ok E live root w' \<and> astate w' = astate w \<and>
    (res = Ok () \<and>
       (\<forall>v'. root_view E w' root v' =
          (if same_path (e_meta E) t v v' then Ok (t, new_leaf (e_pte E) p flags sz)
           else root_view E w root v')) \<and>
       (\<forall>v'. same_path (e_meta E) t v v' \<longrightarrow> root_view E w root v' = Err NotMapped) \<or>
     res = Err AlreadyMapped \<and> w' = w)"
proof (cases "is_present (e_pte E) (read_entry E (mem w) cur (index_at (e_meta E) t v))")
  case True
  then show ?thesis using run ok by (simp add: install_leaf_def)
next
  case False
  then have res: "res = Ok ()"
    and w': "w' = store E cur (index_at (e_meta E) t v) (new_leaf (e_pte E) p flags sz) w"
    using run by (simp_all add: install_leaf_def Let_def)
  have old: "child E t (read_entry E (mem w) cur (index_at (e_meta E) t v)) = None"
    using False by (simp add: child_def)
  have "root_view E w root v' = Err NotMapped" if "same_path (e_meta E) t v v'" for v'
    using view_at [OF ta order.refl] that False by (simp add: same_path_def entry_view_def)
  then show ?thesis
    using leaf_store [OF ok ta old sz p w'] res by simp
qed

lemma map_leaf_direct_view:
  assumes ok: "tree_ok E live root w"
    and t: "level_supports_leaf (e_meta E) target sz" "1 \<le> target" "target \<le> LEVELS (e_meta E)"
    and p: "is_aligned sz p" "paddr_is_valid (e_meta E) p" "flags_ok flags"
    and run: "map_leaf_direct_sized_no_flush E root rg p flags sz target w = (res, w')"
  shows "tree_ok E live root w' \<and> live (astate w) \<subseteq> live (astate w') \<and>
    (res = Ok () \<and>
       (\<forall>v'. root_view E w' root v' =
          (if same_path (e_meta E) target (rng_start rg) v' then Ok (target, new_leaf (e_pte E) p flags sz)
           else root_view E w root v')) \<and>
       (\<forall>v'. same_path (e_meta E) target (rng_start rg) v' \<longrightarrow> root_view E w root v' = Err NotMapped) \<or>
     (\<exists>x. res = Err x) \<and> (\<forall>v'. root_view E w' root v' = root_view E w root v'))"
proof -
  let ?v = "rng_start rg"
  obtain rd w1 where d: "map_descend E target ?v (LEVELS (e_meta E)) root w = (rd, w1)" by fastforce
  note ds = map_descend_spec [OF ok root_table t(2,3) d]
  show ?thesis
  proof (cases rd)
    case (Ok ck)
    then obtain c where rd: "rd = Ok (c, target)" and ta: "root_table_at E w1 root ?v target = Some c"
      using ds by (cases ck) auto
    have i: "install_leaf E ?v p flags sz c target w1 = (res, w')"
      using run d rd by (simp add: map_leaf_direct_sized_no_flush_def)
    have ok1: "tree_ok E live root w1" using ds by blast
    from install_leaf_spec [OF ok1 ta t(1) p i] ds show ?thesis by auto
  next
    case (Err x)
    then have "res = Err x" "w' = w1"
      using run d by (simp_all add: map_leaf_direct_sized_no_flush_def)
    then show ?thesis using ds by simp
  next
    case Panic
    then show ?thesis using ds by simp
  qed
qed

section \<open>What a lookup sees of a rewritten block\<close>

lemma query_block:
  assumes new: "\<And>v'. root_view E w' root v' =
      (if same_path (e_meta E) t v v' then r else root_view E w root v')"
    and rg: "leaf_range (e_addr E) v sz = Ok rg"
    and sz: "leaf_size_at_level (e_meta E) t = Some sz" "1 \<le> t" "t \<le> LEVELS (e_meta E)"
    and v: "vaddr_is_valid (e_meta E) v"
  shows "r = Ok (t, e) \<Longrightarrow> query E root v' (mem w') =
      (if in_range rg v' then Ok (mapping_new rg (pte_paddr (e_pte E) e) (pte_flags (e_pte E) e))
       else query E root v' (mem w))"
    and "r = Err x \<Longrightarrow> query E root v' (mem w') =
      (if in_range rg v' then Err x else query E root v' (mem w))"
proof -
  have sh: "level_shift (e_meta E) t = size_shift sz" using sz by (simp add: leaf_size)
  have val: "vaddr_is_valid (e_meta E) v'" if "in_range rg v'"
  proof -
    have "drop_bit (size_shift sz) v' = drop_bit (size_shift sz) v"
      using leaf_range_mem [OF addr_ok rg, of v'] that by (simp add: in_range_def)
    then show ?thesis using valid_block [OF v sz(2,3), of v'] by (simp add: sh)
  qed
  have path: "same_path (e_meta E) t v v' \<longleftrightarrow> in_range rg v'" if "vaddr_is_valid (e_meta E) v'"
    by (rule in_range_path [OF rg sh sz(2,3) v that])
  have out: "query E root v' (mem w') = query E root v' (mem w)" if "\<not> in_range rg v'"
    using that path new by (cases "vaddr_is_valid (e_meta E) v'") (simp_all add: query_view check_vaddr_def)
  show "query E root v' (mem w') =
      (if in_range rg v' then Ok (mapping_new rg (pte_paddr (e_pte E) e) (pte_flags (e_pte E) e))
       else query E root v' (mem w))" if "r = Ok (t, e)"
    using out path val that new query_leaf [OF _ sz(1) rg] by simp
  show "query E root v' (mem w') =
      (if in_range rg v' then Err x else query E root v' (mem w))" if "r = Err x"
    using out path val that new query_not_mapped by simp
qed

text \<open>The contract of the direct map path, over lookups.\<close>

lemma map_leaf_direct_query:
  assumes ok: "tree_ok E live root w"
    and sz: "size_to_level (e_meta E) sz = Some target"
    and p: "is_aligned sz p" "paddr_is_valid (e_meta E) p" "flags_ok flags"
    and rg: "range_ok rg" "range_size (e_addr E) rg = bytes sz" "is_aligned sz (rng_start rg)"
      "vaddr_is_valid (e_meta E) (rng_start rg)"
    and run: "map_leaf_direct_sized_no_flush E root rg p flags sz target w = (res, w')"
  shows "tree_ok E live root w' \<and> live (astate w) \<subseteq> live (astate w') \<and>
    (res = Ok () \<and>
       (\<forall>v'. query E root v' (mem w') =
          (if in_range rg v' then Ok (mapping_new rg p (norm flags)) else query E root v' (mem w))) \<and>
       (\<forall>v'. in_range rg v' \<longrightarrow> query E root v' (mem w) = Err NotMapped) \<or>
     (\<exists>x. res = Err x) \<and> (\<forall>v'. query E root v' (mem w') = query E root v' (mem w)))"
proof -
  note t = size_to_level_size [OF sz]
  note lr = leaf_range_exact [OF addr_ok rg(1-3)]
  have dec: "pte_paddr (e_pte E) (new_leaf (e_pte E) p flags sz) = p"
    "pte_flags (e_pte E) (new_leaf (e_pte E) p flags sz) = norm flags"
    using leaf_paddr t(5) p leaf_flags by blast+
  note m = map_leaf_direct_view [OF ok t(5,1,2) p run]
  from m consider (mapped) "res = Ok ()" "\<And>v'. root_view E w' root v' =
          (if same_path (e_meta E) target (rng_start rg) v' then Ok (target, new_leaf (e_pte E) p flags sz)
           else root_view E w root v')"
      "\<And>v'. same_path (e_meta E) target (rng_start rg) v' \<Longrightarrow> root_view E w root v' = Err NotMapped"
    | (failed) "\<exists>x. res = Err x" "\<And>v'. root_view E w' root v' = root_view E w root v'"
    by blast
  then show ?thesis
  proof cases
    case mapped
    have old: "\<And>v'. root_view E w root v' = (if same_path (e_meta E) target (rng_start rg) v'
        then Err NotMapped else root_view E w root v')"
      using mapped(3) by simp
    have "query E root v' (mem w') =
        (if in_range rg v' then Ok (mapping_new rg p (norm flags)) else query E root v' (mem w))" for v'
      using query_block(1) [OF mapped(2) lr t(4,1,2) rg(4) refl, of v'] by (simp add: dec)
    moreover have "query E root v' (mem w) = Err NotMapped" if "in_range rg v'" for v'
      using query_block(2) [OF old lr t(4,1,2) rg(4) refl, of v'] that by simp
    ultimately show ?thesis using m mapped(1) by simp
  next
    case failed
    then have "query E root v' (mem w') = query E root v' (mem w)" for v'
      by (intro query_cong)
    then show ?thesis using m failed(1) by blast
  qed
qed

section \<open>No mapping is overwritten\<close>

lemma map_descend_conflict:
  assumes "view E (mem w) l cur u = Ok (t, e)" "1 \<le> target" "target \<le> l"
    and "\<forall>k. target \<le> k \<and> k \<le> l \<longrightarrow> index_at (e_meta E) k v = index_at (e_meta E) k u"
  shows "map_descend E target v l cur w = (Err AlreadyMapped, w) \<or>
    (\<exists>c. map_descend E target v l cur w = (Ok (c, target), w) \<and>
       is_present (e_pte E) (read_entry E (mem w) c (index_at (e_meta E) target v)))"
  using assms
proof (induction l arbitrary: cur)
  case 0
  then show ?case by simp
next
  case (Suc l)
  let ?e = "read_entry E (mem w) cur (index_at (e_meta E) (Suc l) v)"
  have same: "index_at (e_meta E) (Suc l) u = index_at (e_meta E) (Suc l) v" using Suc.prems(3,4) by simp
  have pres: "is_present (e_pte E) ?e"
    using Suc.prems(1) same by (auto simp: view_Suc entry_view_def split: if_splits)
  show ?case
  proof (cases "target = Suc l")
    case True
    then show ?thesis using pres by simp
  next
    case False
    then have tl: "target < Suc l" using Suc.prems(3) by simp
    show ?thesis
    proof (cases "entry_kind (e_pte E) ?e (Suc l)")
      case Table
      have "view E (mem w) l (pte_paddr (e_pte E) ?e) u = Ok (t, e)"
        using Suc.prems(1) same pres Table by (simp add: view_Suc entry_view_def entry_is_leaf_def)
      from Suc.IH [OF this Suc.prems(2)] tl Suc.prems(4) show ?thesis
        using pres Table by (simp add: Let_def entry_is_leaf_def)
    next
      case Leaf
      then show ?thesis using pres tl by (simp add: Let_def entry_is_leaf_def)
    next
      case Invalid
      then show ?thesis
        using Suc.prems(1) same pres by (simp add: view_Suc entry_view_def entry_is_leaf_def)
    qed
  qed
qed

lemma map_leaf_direct_conflict:
  assumes "root_view E w root u = Ok (t, e)" "1 \<le> target" "target \<le> LEVELS (e_meta E)"
    and "same_path (e_meta E) target (rng_start rg) u"
  shows "map_leaf_direct_sized_no_flush E root rg p flags sz target w = (Err AlreadyMapped, w)"
proof -
  have "\<forall>k. target \<le> k \<and> k \<le> LEVELS (e_meta E) \<longrightarrow>
      index_at (e_meta E) k (rng_start rg) = index_at (e_meta E) k u"
    using assms(4) by (simp add: same_path_def)
  from map_descend_conflict [OF assms(1-3) this] show ?thesis
    by (auto simp: map_leaf_direct_sized_no_flush_def install_leaf_def Let_def)
qed

lemma map_leaf_direct_mapped:
  assumes "root_view E w root (rng_start rg) = Ok (t, e)" "1 \<le> target" "target \<le> LEVELS (e_meta E)"
  shows "map_leaf_direct_sized_no_flush E root rg p flags sz target w = (Err AlreadyMapped, w)"
  by (rule map_leaf_direct_conflict [OF assms]) (simp add: same_path_def)

end

end
