(* ===== verification/RemapSpec.thy ===== *)
theory RemapSpec
  imports MapSpec
begin

text \<open>
  Operations on one existing leaf: the exact slot of a range, remap and protect.
\<close>

lemma exact_leaf_walk_find:
  "exact_leaf_walk E m rg l cur =
     bind_res (find_leaf E m l cur (rng_start rg)) (\<lambda>(t, c, e).
       bind_res (ok_or (leaf_size_at_level (e_meta E) t) UnsupportedSize) (\<lambda>sz.
       bind_res (leaf_range (e_addr E) (rng_start rg) sz) (\<lambda>lr.
       if lr \<noteq> rg then Err NotMapped else Ok (c, index_at (e_meta E) t (rng_start rg), e, sz))))"
proof (induction l arbitrary: cur)
  case 0
  then show ?case by simp
next
  case (Suc l)
  let ?e = "read_entry E m cur (index_at (e_meta E) (Suc l) (rng_start rg))"
  show ?case
    unfolding exact_leaf_walk.simps find_leaf.simps Let_def entry_is_leaf_def
    by (cases "entry_kind (e_pte E) ?e (Suc l)") (simp_all add: Suc.IH)
qed

text \<open>A range is mapped by a leaf of exactly that range.\<close>

definition exact_mapped :: "('f, 's, 'h) env \<Rightarrow> paddr \<Rightarrow> addr_range \<Rightarrow> ('s, 'h) world \<Rightarrow> bool" where
  "exact_mapped E root rg w \<longleftrightarrow> (\<exists>mp. query E root (rng_start rg) (mem w) = Ok mp \<and> m_range mp = rg)"

lemma flush_leaf_range_state:
  "mem (flush_leaf_range E rg w) = mem w" "astate (flush_leaf_range E rg w) = astate w"
  by (simp_all add: flush_leaf_range_def Let_def emit_def)

lemma tree_ok_cong:
  "mem w' = mem w \<Longrightarrow> astate w' = astate w \<Longrightarrow> tree_ok E live root w' = tree_ok E live root w"
  by (simp add: tree_ok_def)

lemma flush_leaf_range_tree_ok [simp]:
  "tree_ok E live root (flush_leaf_range E rg w) = tree_ok E live root w"
  by (rule tree_ok_cong) (simp_all add: flush_leaf_range_state)

context walker
begin

lemma find_leaf_not_Panic: "l \<noteq> 0 \<Longrightarrow> find_leaf E m l cur v \<noteq> Panic"
proof (induction l arbitrary: cur)
  case 0
  then show ?case by simp
next
  case (Suc l)
  let ?e = "read_entry E m cur (index_at (e_meta E) (Suc l) v)"
  show ?case
    using Suc.IH kind_one
    by (cases "entry_kind (e_pte E) ?e (Suc l)"; cases l) (simp_all add: Let_def entry_is_leaf_def)
qed

lemma query_not_Panic: "query E root v m \<noteq> Panic"
proof -
  have "view E m (LEVELS (e_meta E)) root v \<noteq> Panic"
    using find_leaf_not_Panic [OF root_not_0, of m root v]
    by (auto simp: view_def bind_res_def split: res.split)
  then show ?thesis
    using leaf_range_not_Panic
    by (auto simp: query_view check_vaddr_def bind_res_def decode_def ok_or_def
        split: res.split option.split)
qed

lemma exact_leaf_slot_iff:
  "(\<exists>slot. exact_leaf_slot E root rg (mem w) = Ok slot) \<longleftrightarrow> exact_mapped E root rg w"
  by (auto simp: exact_leaf_slot_def exact_leaf_walk_find exact_mapped_def query_view view_def
      decode_def bind_res_eq_Ok mapping_new_def split: prod.splits if_splits)

lemma exact_leaf_slot_Ok:
  assumes "exact_leaf_slot E root rg (mem w) = Ok (c, i, e, sz)"
  obtains t where "root_table_at E w root (rng_start rg) t = Some c"
    "i = index_at (e_meta E) t (rng_start rg)" "e = read_entry E (mem w) c i"
    "child E t e = None" "leaf_size_at_level (e_meta E) t = Some sz"
    "leaf_range (e_addr E) (rng_start rg) sz = Ok rg"
    "vaddr_is_valid (e_meta E) (rng_start rg)" "root_view E w root (rng_start rg) = Ok (t, e)"
    "is_present (e_pte E) e" "entry_kind (e_pte E) e t = Leaf"
proof -
  obtain t where v: "vaddr_is_valid (e_meta E) (rng_start rg)"
    and fl: "find_leaf E (mem w) (LEVELS (e_meta E)) root (rng_start rg) = Ok (t, c, e)"
    and r: "leaf_size_at_level (e_meta E) t = Some sz" "i = index_at (e_meta E) t (rng_start rg)"
      "leaf_range (e_addr E) (rng_start rg) sz = Ok rg"
    using assms
    by (auto simp: exact_leaf_slot_def exact_leaf_walk_find check_vaddr_def bind_res_eq_Ok
        split: if_splits prod.splits)
  have a: "root_table_at E w root (rng_start rg) t = Some c"
    "e = read_entry E (mem w) c (index_at (e_meta E) t (rng_start rg))"
    "is_present (e_pte E) e" "entry_kind (e_pte E) e t = Leaf"
    using find_leaf_table_at [OF fl] by blast+
  show ?thesis
  proof (rule that [OF a(1) r(2) _ _ r(1,3) v _ a(3,4)])
    show "e = read_entry E (mem w) c i" unfolding r(2) by (rule a(2))
    show "child E t e = None" by (simp add: child_def a(4))
    show "root_view E w root (rng_start rg) = Ok (t, e)" by (simp add: view_def fl)
  qed
qed

lemma exact_leaf_slot_not_Panic: "exact_leaf_slot E root rg (mem w) \<noteq> Panic"
  using find_leaf_not_Panic [OF root_not_0, of "mem w" root "rng_start rg"] leaf_range_not_Panic
  by (auto simp: exact_leaf_slot_def exact_leaf_walk_find check_vaddr_def bind_res_def ok_or_def
      split: res.split option.split)

section \<open>Replacing a leaf\<close>

lemma replace_leaf:
  assumes ok: "tree_ok E live root w"
    and slot: "exact_leaf_slot E root rg (mem w) = Ok (c, i, e, sz)"
    and p: "is_aligned sz p" "paddr_is_valid (e_meta E) p" "flags_ok flags"
    and w': "w' = store E c i (new_leaf (e_pte E) p flags sz) w"
  shows "tree_ok E live root w'" "astate w' = astate w"
    "query E root v' (mem w') =
       (if in_range rg v' then Ok (mapping_new rg p (norm flags)) else query E root v' (mem w))"
proof -
  from slot obtain t where t: "root_table_at E w root (rng_start rg) t = Some c"
    "i = index_at (e_meta E) t (rng_start rg)" "e = read_entry E (mem w) c i"
    "child E t e = None" "leaf_size_at_level (e_meta E) t = Some sz"
    "leaf_range (e_addr E) (rng_start rg) sz = Ok rg"
    "vaddr_is_valid (e_meta E) (rng_start rg)" "root_view E w root (rng_start rg) = Ok (t, e)"
    by (rule exact_leaf_slot_Ok)
  have sup: "level_supports_leaf (e_meta E) t sz"
    using tree_okD(4) [OF ok t(8)] t(5) by (simp add: leaf_ok_def)
  note lv = table_frame_ok(4,5) [OF ok t(1)]
  have old: "child E t (read_entry E (mem w) c (index_at (e_meta E) t (rng_start rg))) = None"
    using t by simp
  note st = leaf_store [OF ok t(1) old sup p w' [unfolded t(2)]]
  show "tree_ok E live root w'" "astate w' = astate w" by (rule st)+
  have dec: "pte_paddr (e_pte E) (new_leaf (e_pte E) p flags sz) = p"
    "pte_flags (e_pte E) (new_leaf (e_pte E) p flags sz) = norm flags"
    using leaf_paddr sup p leaf_flags by blast+
  show "query E root v' (mem w') =
       (if in_range rg v' then Ok (mapping_new rg p (norm flags)) else query E root v' (mem w))"
    using query_block(1) [OF st(2) t(6,5) lv t(7) refl, of v'] by (simp add: dec)
qed

lemma remap_no_flush_spec:
  assumes ok: "tree_ok E live root w" and f: "flags_ok flags"
    and run: "remap_no_flush E root rg p flags w = (res, w')"
  shows "tree_ok E live root w' \<and> astate w' = astate w \<and>
    (res = Ok (mapping_new rg p flags) \<and> exact_mapped E root rg w \<and>
       (\<forall>v'. query E root v' (mem w') =
          (if in_range rg v' then Ok (mapping_new rg p (norm flags)) else query E root v' (mem w))) \<or>
     (\<exists>x. res = Err x) \<and> w' = w)"
proof (cases "paddr_is_valid (e_meta E) p")
  case False
  then show ?thesis using run ok by (auto simp: remap_no_flush_def check_paddr_def)
next
  case val: True
  show ?thesis
  proof (cases "exact_leaf_slot E root rg (mem w)")
    case (Ok slot)
    obtain c i e sz where s: "slot = (c, i, e, sz)" by (cases slot) auto
    show ?thesis
    proof (cases "is_aligned sz p")
      case False
      then show ?thesis using run ok Ok val by (auto simp: remap_no_flush_def check_paddr_def s)
    next
      case True
      then have r: "res = Ok (mapping_new rg p flags)"
        and w': "w' = store E c i (new_leaf (e_pte E) p flags sz) w"
        using run Ok val by (simp_all add: remap_no_flush_def check_paddr_def s)
      have "exact_mapped E root rg w" using Ok exact_leaf_slot_iff by blast
      with replace_leaf [OF ok Ok [unfolded s] True val f w'] r show ?thesis by simp
    qed
  next
    case (Err x)
    then show ?thesis using run ok val by (auto simp: remap_no_flush_def check_paddr_def)
  next
    case Panic
    then show ?thesis using exact_leaf_slot_not_Panic by blast
  qed
qed

lemma protect_no_flush_spec:
  assumes ok: "tree_ok E live root w" and f: "flags_ok flags"
    and run: "protect_no_flush E root rg flags w = (res, w')"
  shows "tree_ok E live root w' \<and> astate w' = astate w \<and>
    ((\<exists>mp. query E root (rng_start rg) (mem w) = Ok mp \<and> m_range mp = rg \<and>
       res = Ok (mapping_new rg (m_paddr mp) flags) \<and>
       (\<forall>v'. query E root v' (mem w') =
          (if in_range rg v' then Ok (mapping_new rg (m_paddr mp) (norm flags))
           else query E root v' (mem w)))) \<or>
     (\<exists>x. res = Err x) \<and> w' = w)"
proof (cases "exact_leaf_slot E root rg (mem w)")
  case (Ok slot)
  obtain c i e sz where s: "slot = (c, i, e, sz)" by (cases slot) auto
  from Ok [unfolded s] obtain t where t: "leaf_size_at_level (e_meta E) t = Some sz"
    "leaf_range (e_addr E) (rng_start rg) sz = Ok rg"
    "vaddr_is_valid (e_meta E) (rng_start rg)" "root_view E w root (rng_start rg) = Ok (t, e)"
    "is_present (e_pte E) e" "entry_kind (e_pte E) e t = Leaf"
    by (rule exact_leaf_slot_Ok) blast
  let ?p = "pte_paddr (e_pte E) e"
  have q: "query E root (rng_start rg) (mem w) = Ok (mapping_new rg ?p (pte_flags (e_pte E) e))"
    by (simp add: query_view check_vaddr_def t decode_def)
  have al: "is_aligned sz ?p" using tree_okD(4) [OF ok t(4)] t(1) by (simp add: leaf_ok_def)
  have val: "paddr_is_valid (e_meta E) ?p" using decoded_paddr t(5,6) .
  have r: "res = Ok (mapping_new rg ?p flags)"
    and w': "w' = store E c i (new_leaf (e_pte E) ?p flags sz) w"
    using run Ok by (simp_all add: protect_no_flush_def s Let_def)
  show ?thesis
    using replace_leaf [OF ok Ok [unfolded s] al val f w'] q r by (simp add: mapping_new_def)
next
  case (Err x)
  then show ?thesis using run ok by (auto simp: protect_no_flush_def)
next
  case Panic
  then show ?thesis using exact_leaf_slot_not_Panic by blast
qed

end

end
