(* ===== verification/UnmapSpec.thy ===== *)
theory UnmapSpec
  imports RemapSpec
begin

text \<open>
  Unmap: the leaf of the exact range goes away, nothing else changes, and the tables that
  became empty on the way up are unlinked before they are handed back.
\<close>

section \<open>The descent\<close>

text \<open>The stack of parents records the path, innermost first.\<close>

fun on_path :: "('f, 's, 'h) env \<Rightarrow> ('s, 'h) world \<Rightarrow> paddr \<Rightarrow> vaddr \<Rightarrow> nat \<Rightarrow> (paddr \<times> nat) list \<Rightarrow> bool" where
  "on_path E w root v t [] \<longleftrightarrow> t = LEVELS (e_meta E)"
| "on_path E w root v t ((p, i) # ps) \<longleftrightarrow>
     root_table_at E w root v (Suc t) = Some p \<and> i = index_at (e_meta E) (Suc t) v \<and>
     on_path E w root v (Suc t) ps"

lemma unmap_descend_find:
  assumes "length ps + l \<le> MAX_LEVELS"
  shows "\<exists>x. unmap_descend E rg l cur ps w =
    bind_st (find_leaf E (mem w) l cur (rng_start rg), w) (\<lambda>(t, c, e) w.
      bind_st (ok_or (leaf_size_at_level (e_meta E) t) UnsupportedSize, w) (\<lambda>sz w.
      bind_st (leaf_range (e_addr E) (rng_start rg) sz, w) (\<lambda>lr w.
      if lr \<noteq> rg then (Err NotMapped, w)
      else (Ok (mapping_new lr (pte_paddr (e_pte E) e) (pte_flags (e_pte E) e), c, x),
            store E c (index_at (e_meta E) t (rng_start rg)) (pte_clear (e_pte E) e) w))))"
  using assms
proof (induction l arbitrary: cur ps)
  case (Suc l)
  let ?i = "index_at (e_meta E) (Suc l) (rng_start rg)"
  let ?e = "read_entry E (mem w) cur ?i"
  show ?case
  proof (cases "is_present (e_pte E) ?e \<and> entry_kind (e_pte E) ?e (Suc l) = Table")
    case True
    then show ?thesis
      using Suc.IH [of "(cur, ?i) # ps" "pte_paddr (e_pte E) ?e"] Suc.prems
      by (auto simp: Let_def entry_is_leaf_def)
  next
    case False
    then show ?thesis
      by (cases "entry_kind (e_pte E) ?e (Suc l)") (auto simp: Let_def entry_is_leaf_def)
  qed
qed simp

text \<open>A clear of the leaf in the table the walk ends in, on the addresses of its range.\<close>

lemma is_table_empty_from_iff:
  "is_table_empty_from E m pa is \<longleftrightarrow> (\<forall>i\<in>set is. \<not> is_present (e_pte E) (read_entry E m pa i))"
  by (induction "is") auto

lemma is_table_empty_iff:
  "is_table_empty E m pa \<longleftrightarrow>
     (\<forall>i<ENTRIES_PER_TABLE (e_meta E). \<not> is_present (e_pte E) (read_entry E m pa i))"
  by (auto simp: is_table_empty_def is_table_empty_from_iff)

context walker
begin

lemma unmap_descend_spec:
  assumes "root_table_at E w root (rng_start rg) l = Some cur"
    and "on_path E w root (rng_start rg) l parents"
    and "length parents + l = LEVELS (e_meta E)"
    and "unmap_descend E rg l cur parents w = (res, w')"
  shows "(\<exists>x. res = Err x) \<and> w' = w \<or>
    (\<exists>t c e ps sz. res = Ok (mapping_new rg (pte_paddr (e_pte E) e) (pte_flags (e_pte E) e), c, ps) \<and>
       root_table_at E w root (rng_start rg) t = Some c \<and>
       e = read_entry E (mem w) c (index_at (e_meta E) t (rng_start rg)) \<and>
       is_present (e_pte E) e \<and> entry_kind (e_pte E) e t = Leaf \<and>
       leaf_size_at_level (e_meta E) t = Some sz \<and>
       leaf_range (e_addr E) (rng_start rg) sz = Ok rg \<and>
       on_path E w root (rng_start rg) t ps \<and>
       w' = store E c (index_at (e_meta E) t (rng_start rg)) (pte_clear (e_pte E) e) w)"
  using assms
proof (induction l arbitrary: cur parents)
  case 0
  then show ?case using table_at_level by fastforce
next
  case (Suc l)
  let ?M = "e_meta E" and ?P = "e_pte E" and ?v = "rng_start rg"
  let ?i = "index_at ?M (Suc l) ?v"
  let ?e = "read_entry E (mem w) cur ?i"
  show ?case
  proof (cases "is_present ?P ?e")
    case False
    then show ?thesis using Suc.prems(4) by (auto simp: Let_def)
  next
    case pres: True
    show ?thesis
    proof (cases "entry_kind ?P ?e (Suc l)")
      case Invalid
      then show ?thesis using Suc.prems(4) pres by (auto simp: Let_def entry_is_leaf_def)
    next
      case Table
      then obtain l' where l': "l = Suc l'" using kind_one by (cases l) auto
      have "length parents < MAX_LEVELS" using Suc.prems(3) levels_max by simp
      then have d: "unmap_descend E rg l (pte_paddr ?P ?e) ((cur, ?i) # parents) w = (res, w')"
        using Suc.prems(4) pres Table by (simp add: Let_def entry_is_leaf_def)
      have "root_table_at E w root ?v l = Some (pte_paddr ?P ?e)"
        using table_step [OF _ pres [unfolded l'] Table [unfolded l'] refl] Suc.prems(1)
        unfolding l' by simp
      from Suc.IH [OF this _ _ d] Suc.prems show ?thesis by simp
    next
      case Leaf
      show ?thesis
      proof (cases "leaf_size_at_level ?M (Suc l)")
        case None
        then show ?thesis using Suc.prems(4) pres Leaf by (auto simp: Let_def entry_is_leaf_def)
      next
        case (Some sz)
        show ?thesis
        proof (cases "leaf_range (e_addr E) ?v sz = Ok rg")
          case True
          have "res = Ok (mapping_new rg (pte_paddr ?P ?e) (pte_flags ?P ?e), cur, parents)"
            "w' = store E cur ?i (pte_clear ?P ?e) w"
            using Suc.prems(4) pres Leaf Some True by (simp_all add: Let_def entry_is_leaf_def)
          then show ?thesis using Suc.prems(1,2) pres Leaf Some True by blast
        next
          case False
          then show ?thesis
            using Suc.prems(4) pres Leaf Some leaf_range_not_Panic [of "e_addr E" ?v sz]
            by (cases "leaf_range (e_addr E) ?v sz") (auto simp: Let_def entry_is_leaf_def)
        qed
      qed
    qed
  qed
qed

section \<open>Reclaiming empty tables\<close>

lemma distinct_add_mset: "mset xs = add_mset c (mset ys) \<Longrightarrow> distinct xs \<Longrightarrow> c \<notin> set ys"
  using mset_eq_imp_distinct_iff [of xs "c # ys"] by simp

text \<open>Handing back a frame outside the tree leaves the tree alone.\<close>

lemma gives_back_outside:
  assumes ok: "tree_ok E live root w" and gb: "gives_back E live g w w'"
    and g: "g \<notin> set (root_tables E w root)"
  shows "tree_ok E live root w'" "root_view E w' root v = root_view E w root v"
    "root_tables E w' root = root_tables E w root"
    "root_table_at E w' root v t = root_table_at E w root v t"
proof -
  have "set (root_tables E w root) \<subseteq> live (astate w) - {g}"
    using g tree_okD(3) [OF ok] by blast
  then have same: "same_entries E (set (root_tables E w root)) (mem w) (mem w')"
    and lv: "set (root_tables E w root) \<subseteq> live (astate w')"
    using gb same_entries_mono unfolding gives_back_def by (blast, blast)
  show "tree_ok E live root w'" "root_view E w' root v = root_view E w root v"
    "root_tables E w' root = root_tables E w root"
    "root_table_at E w' root v t = root_table_at E w root v t"
    by (rule tree_same [OF ok same lv])+
qed

lemma on_path_cong:
  assumes "\<And>k. t < k \<Longrightarrow> k \<le> LEVELS (e_meta E) \<Longrightarrow>
      root_table_at E w' root v k = root_table_at E w root v k"
  shows "on_path E w root v t ps \<Longrightarrow> on_path E w' root v t ps"
  using assms
proof (induction ps arbitrary: t)
  case Nil
  then show ?case by simp
next
  case (Cons a ps)
  obtain p i where a: "a = (p, i)" by (cases a)
  have "Suc t \<le> LEVELS (e_meta E)" using Cons.prems(1) table_at_level unfolding a by simp blast
  then show ?case using Cons unfolding a by simp
qed

lemma child_on_path:
  assumes "root_table_at E w root v (Suc t) = Some p" "root_table_at E w root v t = Some c"
  shows "child E (Suc t) (read_entry E (mem w) p (index_at (e_meta E) (Suc t) v)) = Some c"
proof -
  have lv: "Suc t \<le> LEVELS (e_meta E)" "1 \<le> t"
    using table_at_level [OF assms(1)] table_at_level [OF assms(2)] by simp_all
  obtain g h where gh: "root_table_at E w root v (Suc t) = Some g"
    "child E (Suc t) (read_entry E (mem w) g (index_at (e_meta E) (Suc t) v)) = Some h"
    by (rule table_at_up [OF assms(2) lessI lv(1)])
  then show ?thesis using table_at_step [OF gh(1) lv(2) gh(2)] assms by simp
qed

text \<open>Unlinking an empty table.\<close>

lemma unlink_step:
  assumes ok: "tree_ok E live root w"
    and p: "root_table_at E w root v (Suc t) = Some p"
    and c: "root_table_at E w root v t = Some c"
    and empty: "is_table_empty E (mem w) c"
    and w1: "w1 = store E p (index_at (e_meta E) (Suc t) v) (pte_clear (e_pte E) z) w"
  shows "tree_ok E live root w1" "root_view E w1 root v' = root_view E w root v'"
    "mset (root_tables E w root) = add_mset c (mset (root_tables E w1 root))"
    "Suc t \<le> k \<Longrightarrow> k \<le> LEVELS (e_meta E) \<Longrightarrow> root_table_at E w1 root v k = root_table_at E w root v k"
    "astate w1 = astate w" "log w1 = log w"
proof -
  let ?M = "e_meta E" and ?i = "index_at (e_meta E) (Suc t) v" and ?z = "pte_clear (e_pte E) z"
  note pf = table_frame_ok [OF ok p] and cf = table_frame_ok [OF ok c]
  obtain t' where t': "t = Suc t'" using cf(4) by (cases t) auto
  have upd: "updates E (set (root_tables E w root)) p ?i ?z (mem w) (mem w1)"
    using store_updates [OF _ pf(1,6)] tree_okD(2) [OF ok] by (simp add: w1 store_def)
  have ch: "child E (Suc t) (read_entry E (mem w) p ?i) = Some c" by (rule child_on_path [OF p c])
  have none: "\<And>i. i < ENTRIES_PER_TABLE ?M \<Longrightarrow> \<not> is_present (e_pte E) (read_entry E (mem w) c i)"
    using empty by (simp add: is_table_empty_iff)
  have "tables E (mem w) t c = [c]"
    unfolding t' using none by (intro tables_leafy) (simp add: child_def)
  then have old: "below E (mem w) (Suc t) (read_entry E (mem w) p ?i) = [c]"
    using child_below [OF ch] by simp
  have new: "below E (mem w1) (Suc t) ?z = []"
    by (simp add: below_def child_def clear_absent)
  have ev: "entry_view E (mem w1) (Suc t) ?z u = Err NotMapped" for u
    by (simp add: entry_view_def clear_absent)
  show st: "astate w1 = astate w" "log w1 = log w" by (simp_all add: w1 store_def)
  show "tree_ok E live root w1"
    by (rule update_tree_ok [OF ok p upd refl refl]) (auto simp: old new ev st)
  have cT: "c \<in># mset (root_tables E w root)" using cf(3) by simp
  show "mset (root_tables E w root) = add_mset c (mset (root_tables E w1 root))"
    using update_frames(3) [OF ok p upd refl refl] cT by (simp add: old new)
  have "root_view E w root v' = Err NotMapped" if "same_path ?M (Suc t) v v'"
  proof -
    have "root_view E w root v' = view E (mem w) t c v'"
      using view_at [OF p order.refl] that child_view [OF ch] by (simp add: same_path_def)
    then show ?thesis
      using view_empty [of t' "mem w" c v'] none cf(5) unfolding t' by simp
  qed
  then show "root_view E w1 root v' = root_view E w root v'"
    unfolding update_view [OF ok p upd] ev by simp
  show "root_table_at E w1 root v k = root_table_at E w root v k"
    if "Suc t \<le> k" "k \<le> LEVELS ?M"
    by (rule table_at_update_up [OF tree_okD(1) [OF ok] p order.refl upd that])
qed

lemma reclaim_spec:
  assumes "tree_ok E live root w" "root_table_at E w root v t = Some c" "on_path E w root v t ps"
    and "reclaim E ps c w = (res, w')"
  shows "res \<noteq> Panic \<and> tree_ok E live root w' \<and>
    (\<forall>v'. root_view E w' root v' = root_view E w root v') \<and>
    (\<exists>fs. log w' = log w @ map (\<lambda>f. Freed (frame_range E f)) fs \<and>
       mset (root_tables E w root) = mset (root_tables E w' root) + mset fs \<and>
       (dealloc_total E live \<longrightarrow> res = Ok () \<and> live (astate w') = live (astate w) - set fs))"
  using assms
proof (induction ps arbitrary: t c w)
  case Nil
  then show ?case by auto
next
  case (Cons a ps)
  obtain p i where a: "a = (p, i)" by (cases a)
  have p: "root_table_at E w root v (Suc t) = Some p" "i = index_at (e_meta E) (Suc t) v"
    and path: "on_path E w root v (Suc t) ps"
    using Cons.prems(3) by (simp_all add: a)
  show ?case
  proof (cases "is_table_empty E (mem w) c")
    case False
    then show ?thesis using Cons.prems by (auto simp: a)
  next
    case True
    let ?w1 = "store E p i (pte_clear (e_pte E) (pte_from_bits (e_pte E) 0)) w"
    note un = unlink_step [OF Cons.prems(1) p(1) Cons.prems(2) True refl, folded p(2)]
    obtain rd w2 where d: "dealloc_table_frame E c ?w1 = (rd, w2)" by fastforce
    note de = dealloc_table_frame_spec [OF d table_frame_ok(1) [OF Cons.prems(1,2)]]
    have fresh: "c \<notin> set (root_tables E ?w1 root)"
      using un(3) tree_okD(1) [OF Cons.prems(1)] by (rule distinct_add_mset)
    note out = gives_back_outside [OF un(1) de(2) fresh]
    have step: "tree_ok E live root w2" "\<And>v'. root_view E w2 root v' = root_view E w root v'"
      "log w2 = log w @ [Freed (frame_range E c)]"
      "mset (root_tables E w root) = add_mset c (mset (root_tables E w2 root))"
      "dealloc_total E live \<Longrightarrow> rd = Ok () \<and> live (astate w2) = live (astate w) - {c}"
      using out un de(4,5) table_frame_ok(2) [OF Cons.prems(1,2)] by simp_all
    show ?thesis
    proof (cases rd)
      case (Ok u)
      have r: "reclaim E ps p w2 = (res, w')"
        using Cons.prems(4) True d Ok by (simp add: a Let_def)
      have tp: "root_table_at E w2 root v (Suc t) = Some p"
        using un(4) [of "Suc t"] out(4) p(1) table_at_level [OF p(1)] by simp
      have path2: "on_path E w2 root v (Suc t) ps"
        by (rule on_path_cong [OF _ path]) (use un(4) out(4) in simp)
      from Cons.IH [OF step(1) tp path2 r] obtain fs where
        "res \<noteq> Panic" "tree_ok E live root w'" "\<And>v'. root_view E w' root v' = root_view E w2 root v'"
        "log w' = log w2 @ map (\<lambda>f. Freed (frame_range E f)) fs"
        "mset (root_tables E w2 root) = mset (root_tables E w' root) + mset fs"
        "dealloc_total E live \<Longrightarrow> res = Ok () \<and> live (astate w') = live (astate w2) - set fs" by blast
      with step show ?thesis by (auto intro!: exI [of _ "c # fs"])
    next
      case (Err x)
      then have "res = Err x" "w' = w2" using Cons.prems(4) True d by (simp_all add: a Let_def)
      then show ?thesis using step Err by (auto intro!: exI [of _ "[c]"])
    next
      case Panic
      then show ?thesis using de(1) by simp
    qed
  qed
qed

section \<open>Unmap\<close>

text \<open>The frames a run hands back, as they appear in the log.\<close>

lemma unmap_no_flush_spec:
  assumes ok: "tree_ok E live root w" and run: "unmap_no_flush E root rg w = (res, w')"
  shows "res \<noteq> Panic \<and> tree_ok E live root w' \<and>
    ((\<exists>mp fs. query E root (rng_start rg) (mem w) = Ok mp \<and> m_range mp = rg \<and>
        (res = Ok mp \<or> (\<exists>x. res = Err x)) \<and>
        (\<forall>v'. query E root v' (mem w') =
           (if in_range rg v' then Err NotMapped else query E root v' (mem w))) \<and>
        log w' = log w @ map (\<lambda>f. Freed (frame_range E f)) fs \<and>
        mset (root_tables E w root) = mset (root_tables E w' root) + mset fs \<and>
        (dealloc_total E live \<longrightarrow> res = Ok mp \<and> live (astate w') = live (astate w) - set fs)) \<or>
     (\<exists>x. res = Err x) \<and> w' = w \<and> \<not> exact_mapped E root rg w)"
proof (cases "vaddr_is_valid (e_meta E) (rng_start rg)")
  case False
  then show ?thesis
    using run ok by (auto simp: unmap_no_flush_def check_vaddr_def exact_mapped_def query_view)
next
  case val: True
  let ?M = "e_meta E" and ?P = "e_pte E" and ?v = "rng_start rg"
  obtain rd w1 where d: "unmap_descend E rg (LEVELS ?M) root [] w = (rd, w1)" by fastforce
  have path0: "on_path E w root ?v (LEVELS ?M) []" by simp
  from unmap_descend_spec [OF root_table path0 _ d]
  consider (failed) x where "rd = Err x" "w1 = w"
    | (cleared) t c e ps sz where
      "rd = Ok (mapping_new rg (pte_paddr ?P e) (pte_flags ?P e), c, ps)"
      "root_table_at E w root ?v t = Some c"
      "e = read_entry E (mem w) c (index_at ?M t ?v)"
      "is_present ?P e" "entry_kind ?P e t = Leaf" "leaf_size_at_level ?M t = Some sz"
      "leaf_range (e_addr E) ?v sz = Ok rg" "on_path E w root ?v t ps"
      "w1 = store E c (index_at ?M t ?v) (pte_clear ?P e) w"
    by (simp only: list.size add_0) blast
  then show ?thesis
  proof cases
    case failed
    then have "res = Err x" "w' = w"
      using run val d by (simp_all add: unmap_no_flush_def check_vaddr_def)
    moreover have "\<not> exact_mapped E root rg w"
    proof
      assume "exact_mapped E root rg w"
      then obtain t c e sz where "find_leaf E (mem w) (LEVELS ?M) root ?v = Ok (t, c, e)"
        "leaf_size_at_level ?M t = Some sz" "leaf_range (e_addr E) ?v sz = Ok rg"
        by (auto simp: exact_mapped_def query_view check_vaddr_def view_def decode_def bind_res_eq_Ok
            mapping_new_def split: prod.splits)
      then show False
        using unmap_descend_find [of "[]" "LEVELS ?M" E rg root w] levels_max d failed by auto
    qed
    ultimately show ?thesis using ok by simp
  next
    case cleared
    let ?mp = "mapping_new rg (pte_paddr ?P e) (pte_flags ?P e)"
    have old: "child E t (read_entry E (mem w) c (index_at ?M t ?v)) = None"
      using cleared(3,5) by (simp add: child_def)
    have new: "child E t (pte_clear ?P e) = None"
      and ev: "\<And>u. entry_view E (mem w1) t (pte_clear ?P e) u = Err NotMapped"
      by (simp_all add: child_def entry_view_def clear_absent)
    have st: "tree_ok E live root w1" "root_table_at E w1 root ?v t = Some c"
      "\<And>v'. root_view E w1 root v' =
         (if same_path ?M t ?v v' then Err NotMapped else root_view E w root v')"
      by (rule plain_store [OF ok cleared(2) old new _ cleared(9), unfolded ev]; simp)+
    note tf = table_frame_ok [OF ok cleared(2)]
    have upd: "updates E (set (root_tables E w root)) c (index_at ?M t ?v) (pte_clear ?P e) (mem w) (mem w1)"
      using store_updates [OF _ tf(1,6)] tree_okD(2) [OF ok] by (simp add: cleared(9) store_def)
    have T: "mset (root_tables E w1 root) = mset (root_tables E w root)"
      using update_frames(3) [OF ok cleared(2) upd refl refl] old new by (simp add: below_def)
    have path1: "on_path E w1 root ?v t ps"
      by (rule on_path_cong [OF _ cleared(8)])
        (use table_at_update_up [OF tree_okD(1) [OF ok] cleared(2) order.refl upd] in simp)
    have q: "query E root ?v (mem w) = Ok ?mp"
    proof -
      have "root_view E w root ?v = entry_view E (mem w) t e ?v"
        using view_at [OF cleared(2) order.refl, of ?v] cleared(3) by simp
      also have "\<dots> = Ok (t, e)"
        using cleared(4,5) by (simp add: entry_view_def entry_is_leaf_def)
      finally show ?thesis using cleared(6,7) val by (simp add: query_view check_vaddr_def decode_def)
    qed
    obtain rr w2 where r: "reclaim E ps c w1 = (rr, w2)" by fastforce
    from reclaim_spec [OF st(1,2) path1 r] obtain fs where
      rec: "rr \<noteq> Panic" "tree_ok E live root w2" "\<And>v'. root_view E w2 root v' = root_view E w1 root v'"
      "log w2 = log w1 @ map (\<lambda>f. Freed (frame_range E f)) fs"
      "mset (root_tables E w1 root) = mset (root_tables E w2 root) + mset fs"
      "dealloc_total E live \<Longrightarrow> rr = Ok () \<and> live (astate w2) = live (astate w1) - set fs" by blast
    have w2: "w' = w2" "res = Ok ?mp \<and> rr = Ok () \<or> (\<exists>x. res = Err x)" "rr = Ok () \<Longrightarrow> res = Ok ?mp"
      using run val d cleared(1) r rec(1)
      by (cases rr; simp add: unmap_no_flush_def check_vaddr_def; blast)+
    have view2: "root_view E w2 root v' =
        (if same_path ?M t ?v v' then Err NotMapped else root_view E w root v')" for v'
      unfolding rec(3) st(3) ..
    have "query E root v' (mem w') =
        (if in_range rg v' then Err NotMapped else query E root v' (mem w))" for v'
      unfolding w2(1)
      by (rule query_block(2) [OF view2 cleared(7,6) tf(4,5) val refl])
    moreover have "log w1 = log w" "astate w1 = astate w" by (simp_all add: cleared(9) store_def)
    ultimately show ?thesis
      using rec w2 q T by (auto simp: mapping_new_def)
  qed
qed

end

end
