(* ===== verification/SplitSpec.thy ===== *)
theory SplitSpec
  imports UnmapSpec
begin

text \<open>
  Split: a huge leaf is replaced by a full table of the next finer leaves. What an address
  resolves to (physical address and flags) is the same before and after.
\<close>

section \<open>Resolving an address\<close>

definition resolve :: "('f, 's, 'h) env \<Rightarrow> paddr \<Rightarrow> vaddr \<Rightarrow> memory \<Rightarrow> (paddr \<times> 'f) res" where
  "resolve E root v m =
     bind_res (query E root v m) (\<lambda>mp.
       Ok (m_paddr mp + (v - rng_start (m_range mp)), m_flags mp))"

lemma resolve_cong: "query E root v m' = query E root v m \<Longrightarrow> resolve E root v m' = resolve E root v m"
  by (simp add: resolve_def)

section \<open>Aligned addresses as numbers\<close>

lemma block_room:
  fixes p d n k :: nat
  assumes "d dvd p" "d dvd n" "p < n" "k < d"
  shows "p + k < n"
proof -
  obtain a b where "p = d * a" "n = d * b" using assms(1,2) by (auto simp: dvd_def)
  moreover from this have "a < b" using assms(3) by simp
  then have "d * Suc a \<le> d * b" by (intro mult_le_mono2) simp
  ultimately show ?thesis using assms(4) by simp
qed

context walker
begin

lemma paddr_valid_less: "paddr_is_valid (e_meta E) p \<longleftrightarrow> unat p < 2 ^ PA_MAX_BITS (e_meta E)"
proof -
  have k: "PA_MAX_BITS (e_meta E) < 64" using pa_bits(2) by simp
  have "paddr_is_valid (e_meta E) p \<longleftrightarrow> p < push_bit (PA_MAX_BITS (e_meta E)) 1"
    by (simp only: paddr_valid word_less_push_bit [OF k])
  then show ?thesis by (simp only: word_less_nat_alt unat_push_bit_one [OF k])
qed

text \<open>The addresses of the parts of a huge leaf.\<close>

lemma sub_paddr:
  assumes p: "is_aligned sz p" "paddr_is_valid (e_meta E) p"
    and s: "size_shift sz = size_shift fsz + INDEX_BITS (e_meta E)"
    and i: "i < ENTRIES_PER_TABLE (e_meta E)"
  shows "checked_mul (of_nat i) (bytes fsz) = Some (of_nat i * bytes fsz)"
    "checked_add p (of_nat i * bytes fsz) = Some (p + of_nat i * bytes fsz)"
    "is_aligned fsz (p + of_nat i * bytes fsz)"
    "paddr_is_valid (e_meta E) (p + of_nat i * bytes fsz)"
    "unat (of_nat i * bytes fsz) = i * 2 ^ size_shift fsz"
proof -
  let ?f = "size_shift fsz" and ?s = "size_shift sz" and ?A = "PA_MAX_BITS (e_meta E)"
  have sA: "?s \<le> ?A" using size_shift_less(2) [of sz] pa_bits(1) by simp
  have small: "i * 2 ^ ?f < 2 ^ ?s"
    using i by (simp add: entries s power_add mult.commute)
  have pA: "unat p < 2 ^ ?A" using p(2) by (simp add: paddr_valid_less)
  have sum: "unat p + i * 2 ^ ?f < 2 ^ ?A"
    by (rule block_room [OF _ _ pA small])
      (use p(1) sA in \<open>simp_all add: is_aligned_dvd le_imp_power_dvd\<close>)
  have A64: "(2 :: nat) ^ ?A \<le> 2 ^ 60" using pa_bits(2) by (rule power_increasing) simp
  have sum64: "unat p + i * 2 ^ ?f < 2 ^ 64"
  proof -
    note sum
    also note A64
    also have "(2 :: nat) ^ 60 \<le> 2 ^ 64" by (rule power_increasing) simp_all
    finally show ?thesis .
  qed
  have i64: "i < 2 ^ 64"
  proof -
    have "i \<le> i * 2 ^ ?f" by simp
    also have "\<dots> \<le> unat p + i * 2 ^ ?f" by simp
    also note sum64
    finally show ?thesis .
  qed
  have ui: "unat (of_nat i :: u64) = i" using i64 by (simp add: unat_of_nat)
  have m64: "i * 2 ^ ?f < 2 ^ 64"
    using sum64 by (rule le_less_trans [OF le_add2])
  show m: "checked_mul (of_nat i) (bytes fsz) = Some (of_nat i * bytes fsz)"
    using m64 by (simp add: checked_mul_def ui unat_bytes)
  show um: "unat (of_nat i * bytes fsz) = i * 2 ^ ?f"
    using checked_mul_Some [OF m] by (simp add: ui unat_bytes)
  show a: "checked_add p (of_nat i * bytes fsz) = Some (p + of_nat i * bytes fsz)"
    using sum64 by (simp add: checked_add_def um)
  have ua: "unat (p + of_nat i * bytes fsz) = unat p + i * 2 ^ ?f"
    using checked_add_Some [OF a] um by simp
  show "paddr_is_valid (e_meta E) (p + of_nat i * bytes fsz)"
    using sum by (simp add: paddr_valid_less ua)
  have "(2 :: nat) ^ ?f dvd 2 ^ ?s" by (rule le_imp_power_dvd) (simp add: s)
  then have "2 ^ ?f dvd unat p" using p(1) by (auto simp: is_aligned_dvd intro: dvd_trans)
  then show "is_aligned fsz (p + of_nat i * bytes fsz)"
    by (simp add: is_aligned_dvd ua)
qed

end

text \<open>The base of a finer block inside a block, in bytes.\<close>

lemma block_split:
  "unat (v AND NOT (mask f)) =
     unat ((v :: u64) AND NOT (mask (f + b))) + unat v div 2 ^ f mod 2 ^ b * 2 ^ f"
proof -
  have "unat v div 2 ^ f = unat v div 2 ^ (f + b) * 2 ^ b + unat v div 2 ^ f mod 2 ^ b"
    by (simp only: power_add div_mult2_eq div_mult_mod_eq)
  then have "unat v div 2 ^ f * 2 ^ f =
      (unat v div 2 ^ (f + b) * 2 ^ b + unat v div 2 ^ f mod 2 ^ b) * 2 ^ f"
    by metis
  then show ?thesis
    unfolding unat_block_base by (simp add: algebra_simps power_add)
qed

section \<open>Filling the child table\<close>

definition split_entry :: "('f, 's, 'h) env \<Rightarrow> paddr \<Rightarrow> 'f \<Rightarrow> page_size \<Rightarrow> nat \<Rightarrow> u64" where
  "split_entry E lp flags fsz i = new_leaf (e_pte E) (lp + of_nat i * bytes fsz) flags fsz"

context walker
begin

lemma split_fill_spec:
  assumes p: "is_aligned sz lp" "paddr_is_valid (e_meta E) lp"
    and s: "size_shift sz = size_shift fsz + INDEX_BITS (e_meta E)"
    and g: "frame_ok (e_meta E) g"
    and run: "split_fill E g lp flags fsz is w = (res, w')"
    and "\<forall>i\<in>set is. i < ENTRIES_PER_TABLE (e_meta E)"
  shows "res = Ok () \<and> astate w' = astate w \<and> log w' = log w \<and>
    (\<forall>h j. frame_ok (e_meta E) h \<longrightarrow> j < ENTRIES_PER_TABLE (e_meta E) \<longrightarrow>
       read_entry E (mem w') h j =
         (if h = g \<and> j \<in> set is then split_entry E lp flags fsz j else read_entry E (mem w) h j))"
  using assms(5,6)
proof (induction "is" arbitrary: w)
  case Nil
  then show ?case by simp
next
  case (Cons i "is")
  have i: "i < ENTRIES_PER_TABLE (e_meta E)" using Cons.prems(2) by simp
  note sub = sub_paddr [OF p s i]
  let ?w1 = "store E g i (split_entry E lp flags fsz i) w"
  have run1: "split_fill E g lp flags fsz is ?w1 = (res, w')"
    using Cons.prems(1) by (simp add: sub addr_add [OF addr_ok] split_entry_def)
  have "read_entry E (mem ?w1) h j =
      (if h = g \<and> j = i then split_entry E lp flags fsz i else read_entry E (mem w) h j)"
    if "frame_ok (e_meta E) h" "j < ENTRIES_PER_TABLE (e_meta E)" for h j
    using store_updates [where F = "{h}" and f = g and i = i and m = "mem w" and
        e = "split_entry E lp flags fsz i"] that g i
    by (simp add: store_def updates_def)
  with Cons.IH [OF run1] Cons.prems(2) show ?case
    by (auto simp: store_def)
qed

text \<open>A table of leaves (or of absent entries) hung in place of a leaf or an absent entry.\<close>

lemma hang_table:
  assumes ok: "tree_ok E live root w"
    and ta: "root_table_at E w root v (Suc (Suc l)) = Some cur"
    and old: "child E (Suc (Suc l))
        (read_entry E (mem w) cur (index_at (e_meta E) (Suc (Suc l)) v)) = None"
    and g: "g \<notin> set (root_tables E w root)" "g \<in> live (astate w)" "frame_ok (e_meta E) g"
    and plain: "\<And>i. i < ENTRIES_PER_TABLE (e_meta E) \<Longrightarrow> child E (Suc l) (read_entry E (mem w) g i) = None"
    and leaves: "\<And>i t e u. \<lbrakk>i < ENTRIES_PER_TABLE (e_meta E);
        entry_view E (mem w) (Suc l) (read_entry E (mem w) g i) u = Ok (t, e)\<rbrakk> \<Longrightarrow> leaf_ok E t e"
    and w': "w' = store E cur (index_at (e_meta E) (Suc (Suc l)) v)
                    (new_table (e_pte E) g (Suc (Suc l))) w"
  shows "tree_ok E live root w'"
    "root_view E w' root v' = (if same_path (e_meta E) (Suc (Suc l)) v v'
       then entry_view E (mem w) (Suc l) (read_entry E (mem w) g (index_at (e_meta E) (Suc l) v')) v'
       else root_view E w root v')"
proof -
  let ?M = "e_meta E" and ?P = "e_pte E" and ?t = "Suc (Suc l)"
  let ?i = "index_at ?M ?t v" and ?e = "new_table ?P g ?t"
  note cf = table_frame_ok [OF ok ta]
  have curg: "cur \<noteq> g" using g(1) cf(3) by blast
  have all: "updates E (insert g (set (root_tables E w root))) cur ?i ?e (mem w) (mem w')"
    unfolding w' store_def
    using store_updates [OF _ cf(1,6)] tree_okD(2) [OF ok] g(3) by simp
  then have upd: "updates E (set (root_tables E w root)) cur ?i ?e (mem w) (mem w')"
    by (rule updates_mono) blast
  have gz: "\<And>j. j < ENTRIES_PER_TABLE ?M \<Longrightarrow> read_entry E (mem w') g j = read_entry E (mem w) g j"
    using all curg by (simp add: updates_def)
  have al: "is_aligned (TABLE_FRAME_SIZE ?M) g" "paddr_is_valid ?M g"
    using g(3) by (simp_all add: frame_ok_def)
  have lv: "?t \<le> LEVELS ?M" by (rule cf(5))
  have ch: "child E ?t ?e = Some g"
    using al lv by (simp add: child_def table_present table_kind table_paddr)
  have new: "below E (mem w') ?t ?e = [g]"
    using ch gz plain by (intro below_leafy) simp_all
  have o: "below E (mem w) ?t (read_entry E (mem w) cur ?i) = []"
    using old by (simp add: below_def)
  have ix: "index_at ?M (Suc l) u < ENTRIES_PER_TABLE ?M" for u
    using lv by (intro index_less_entries) simp
  have ev: "entry_view E (mem w') ?t ?e u =
      entry_view E (mem w) (Suc l) (read_entry E (mem w) g (index_at ?M (Suc l) u)) u" for u
  proof -
    have "entry_view E (mem w') ?t ?e u = view E (mem w') (Suc l) g u"
      using child_view [OF ch] by simp
    also have "\<dots> = entry_view E (mem w') (Suc l) (read_entry E (mem w) g (index_at ?M (Suc l) u)) u"
      by (simp add: view_Suc gz ix)
    also have "\<dots> = entry_view E (mem w) (Suc l) (read_entry E (mem w) g (index_at ?M (Suc l) u)) u"
      by (rule no_child_view [OF plain [OF ix]])
    finally show ?thesis .
  qed
  have st: "astate w' = astate w" by (simp add: w' store_def)
  show "tree_ok E live root w'"
    by (rule update_tree_ok [OF ok ta upd refl refl])
      (simp_all add: new o ev st g, erule leaves [OF ix])
  show "root_view E w' root v' = (if same_path ?M ?t v v'
       then entry_view E (mem w) (Suc l) (read_entry E (mem w) g (index_at ?M (Suc l) v')) v'
       else root_view E w root v')"
    unfolding update_view [OF ok ta upd] ev ..
qed

end

section \<open>Split\<close>

text \<open>The effect of splitting the leaf \<open>e\<close> of level \<open>Suc t\<close> on the path of the range.\<close>

definition split_result :: "('f, 's, 'h) env \<Rightarrow> paddr \<Rightarrow> addr_range \<Rightarrow> ('s, 'h) world \<Rightarrow> nat \<Rightarrow> u64 \<Rightarrow>
    page_size \<Rightarrow> page_size \<Rightarrow> ('s, 'h) world \<Rightarrow> bool" where
  "split_result E root rg w t e sz fsz w' \<longleftrightarrow>
     1 \<le> t \<and> Suc t \<le> LEVELS (e_meta E) \<and> root_view E w root (rng_start rg) = Ok (Suc t, e) \<and>
     is_present (e_pte E) e \<and> entry_kind (e_pte E) e (Suc t) = Leaf \<and>
     leaf_size_at_level (e_meta E) (Suc t) = Some sz \<and> leaf_size_at_level (e_meta E) t = Some fsz \<and>
     leaf_range (e_addr E) (rng_start rg) sz = Ok rg \<and>
     (\<forall>v'. root_view E w root v' =
        (if same_path (e_meta E) (Suc t) (rng_start rg) v' then Ok (Suc t, e) else root_view E w root v')) \<and>
     (\<forall>v'. root_view E w' root v' =
        (if same_path (e_meta E) (Suc t) (rng_start rg) v'
         then Ok (t, split_entry E (pte_paddr (e_pte E) e) (pte_flags (e_pte E) e) fsz
                       (index_at (e_meta E) t v'))
         else root_view E w root v'))"

context walker
begin

lemma split_leaf:
  assumes ok: "tree_ok E live root w"
    and ta: "root_table_at E w root (rng_start rg) (Suc (Suc l)) = Some cur"
    and e: "e = read_entry E (mem w) cur (index_at (e_meta E) (Suc (Suc l)) (rng_start rg))"
      "is_present (e_pte E) e" "entry_kind (e_pte E) e (Suc (Suc l)) = Leaf"
    and sz: "leaf_size_at_level (e_meta E) (Suc (Suc l)) = Some sz"
      "leaf_size_at_level (e_meta E) (Suc l) = Some fsz"
      "leaf_range (e_addr E) (rng_start rg) sz = Ok rg"
    and a: "alloc_table_frame E w = (Ok g, w1)"
    and f: "split_fill E g (pte_paddr (e_pte E) e) (pte_flags (e_pte E) e) fsz
              [0..<ENTRIES_PER_TABLE (e_meta E)] w1 = (rf, w2)"
    and w3: "w3 = store E cur (index_at (e_meta E) (Suc (Suc l)) (rng_start rg))
                    (new_table (e_pte E) g (Suc (Suc l))) w2"
  shows "rf = Ok () \<and> tree_ok E live root w3 \<and> split_result E root rg w (Suc l) e sz fsz w3"
proof -
  let ?M = "e_meta E" and ?P = "e_pte E" and ?v = "rng_start rg" and ?t = "Suc (Suc l)"
  let ?lp = "pte_paddr ?P e" and ?fl = "pte_flags ?P e"
  note al = alloc_table_frame_spec [OF a]
  note g = al(3) [OF refl]
  note lv = table_frame_ok(4-6) [OF ok ta]
  have view0: "root_view E w root v' = Ok (?t, e)" if "same_path ?M ?t ?v v'" for v'
    using view_at [OF ta order.refl] that e
    by (simp add: same_path_def entry_view_def entry_is_leaf_def)
  have v0: "root_view E w root ?v = Ok (?t, e)" by (rule view0) (simp add: same_path_def)
  have lp: "is_aligned sz ?lp" "paddr_is_valid ?M ?lp"
    using tree_okD(4) [OF ok v0] sz(1) decoded_paddr e(2,3) by (auto simp: leaf_ok_def)
  have sh: "level_shift ?M ?t = size_shift sz" "level_shift ?M (Suc l) = size_shift fsz"
    using leaf_size lv sz by simp_all
  have s: "size_shift sz = size_shift fsz + INDEX_BITS ?M"
    using shift_step [of "Suc l"] full_index [of "Suc l"] lv(2) sh by simp
  have sup: "level_supports_leaf ?M (Suc l) fsz"
    using finer_supported [of "Suc l"] lv(2) sz by simp
  have fl: "flags_ok ?fl" using decoded_flags e(2,3) by blast
  have gf: "frame_ok ?M g" using g by simp
  note fill = split_fill_spec [OF lp s gf f]
  have rd: "read_entry E (mem w2) h j =
      (if h = g then split_entry E ?lp ?fl fsz j else read_entry E (mem w1) h j)"
    if "frame_ok ?M h" "j < ENTRIES_PER_TABLE ?M" for h j
    using fill that by simp
  have st: "rf = Ok ()" "astate w2 = astate w1" using fill by simp_all
  have T: "set (root_tables E w root) \<subseteq> live (astate w)" by (rule tree_okD(3) [OF ok])
  have gT: "g \<notin> set (root_tables E w root)" using g T by blast
  have lv1: "live (astate w) \<subseteq> live (astate w1)" using al(2) by (simp add: host_step_def)
  have same: "same_entries E (set (root_tables E w root)) (mem w) (mem w2)"
    unfolding same_entries_def
  proof (intro ballI allI impI)
    fix h j assume h: "h \<in> set (root_tables E w root)" "j < ENTRIES_PER_TABLE ?M"
    then have "read_entry E (mem w2) h j = read_entry E (mem w1) h j"
      using rd [OF tree_okD(2) [OF ok h(1)] h(2)] gT by auto
    also have "\<dots> = read_entry E (mem w) h j"
      using host_step_same [OF ok al(2)] h by (simp add: same_entries_def)
    finally show "read_entry E (mem w2) h j = read_entry E (mem w) h j" .
  qed
  have "set (root_tables E w root) \<subseteq> live (astate w2)" using T lv1 st(2) by auto
  note ts = tree_same [OF ok same this]
  have ta2: "root_table_at E w2 root ?v ?t = Some cur" using ts(4) ta by simp
  have old: "child E ?t (read_entry E (mem w2) cur (index_at ?M ?t ?v)) = None"
    using same table_frame_ok(3) [OF ok ta] lv(3) e
    by (simp add: same_entries_def child_def)
  have g2: "g \<notin> set (root_tables E w2 root)" "g \<in> live (astate w2)"
    using gT ts(3) g st by simp_all
  have ent: "child E (Suc l) (split_entry E ?lp ?fl fsz i) = None"
    "entry_view E m (Suc l) (split_entry E ?lp ?fl fsz i) u =
       Ok (Suc l, split_entry E ?lp ?fl fsz i)"
    "leaf_ok E (Suc l) (split_entry E ?lp ?fl fsz i)" if i: "i < ENTRIES_PER_TABLE ?M" for i m u
    using leaf_encoding [OF sup _ _ sub_paddr(3,4) [OF lp s i] fl] lv(2)
    unfolding split_entry_def by simp_all
  have ix: "index_at ?M (Suc l) u < ENTRIES_PER_TABLE ?M" for u
    using lv(2) by (intro index_less_entries) simp
  have plain: "\<And>i. i < ENTRIES_PER_TABLE ?M \<Longrightarrow> child E (Suc l) (read_entry E (mem w2) g i) = None"
    using rd [OF gf] ent(1) by simp
  have leaves: "\<And>i t e' u. \<lbrakk>i < ENTRIES_PER_TABLE ?M;
      entry_view E (mem w2) (Suc l) (read_entry E (mem w2) g i) u = Ok (t, e')\<rbrakk> \<Longrightarrow> leaf_ok E t e'"
    using rd [OF gf] ent(2,3) by auto
  have ok3: "tree_ok E live root w3"
    by (rule hang_table(1) [OF ts(1) ta2 old g2 gf plain _ w3]) (assumption, rule leaves)
  have view3: "root_view E w3 root v' =
      (if same_path ?M ?t ?v v'
       then Ok (Suc l, split_entry E ?lp ?fl fsz (index_at ?M (Suc l) v'))
       else root_view E w root v')" for v'
  proof -
    have "root_view E w3 root v' = (if same_path ?M ?t ?v v'
        then entry_view E (mem w2) (Suc l) (read_entry E (mem w2) g (index_at ?M (Suc l) v')) v'
        else root_view E w2 root v')"
      by (rule hang_table(2) [OF ts(1) ta2 old g2 gf plain _ w3]) (assumption, rule leaves)
    then show ?thesis
      using rd [OF gf ix] ent(2) [OF ix] ts(2) by simp
  qed
  show ?thesis
    using st(1) ok3 view3 view0 v0 lv e(2,3) sz unfolding split_result_def by simp
qed

lemma split_walk_spec:
  assumes "tree_ok E live root w" "root_table_at E w root (rng_start rg) l = Some cur"
    and "split_walk E rg l cur w = (res, w')"
  shows "tree_ok E live root w' \<and>
    ((\<exists>x. res = Err x) \<and> (\<forall>v'. root_view E w' root v' = root_view E w root v') \<or>
     (\<exists>t e sz fsz. res = Ok fsz \<and> split_result E root rg w t e sz fsz w'))"
  using assms(2,3)
proof (induction l arbitrary: cur)
  case 0
  then show ?case using table_at_level by fastforce
next
  case (Suc l)
  let ?M = "e_meta E" and ?P = "e_pte E" and ?v = "rng_start rg"
  let ?i = "index_at ?M (Suc l) ?v"
  let ?e = "read_entry E (mem w) cur ?i"
  note ok = assms(1)
  show ?case
  proof (cases "is_present ?P ?e \<and> entry_kind ?P ?e (Suc l) \<noteq> Invalid \<and> l \<noteq> 0")
    case False
    then have "(\<exists>x. res = Err x) \<and> w' = w"
      using Suc.prems(2) kind_one [of ?e]
      by (cases "entry_kind ?P ?e (Suc l)") (auto simp: Let_def entry_is_leaf_def split: if_splits)
    then show ?thesis using ok by simp
  next
    case c: True
    then obtain l' where l': "l = Suc l'" by (cases l) auto
    show ?thesis
    proof (cases "entry_kind ?P ?e (Suc l)")
      case Table
      have d: "split_walk E rg l (pte_paddr ?P ?e) w = (res, w')"
        using Suc.prems(2) c Table by (simp add: Let_def entry_is_leaf_def)
      have "root_table_at E w root ?v l = Some (pte_paddr ?P ?e)"
        using table_step [OF Suc.prems(1) [unfolded l'] _ _ refl] c Table unfolding l' by simp
      from Suc.IH [OF this d] show ?thesis .
    next
      case Leaf
      show ?thesis
      proof (cases "\<exists>sz fsz. leaf_size_at_level ?M (Suc l) = Some sz \<and>
          leaf_range (e_addr E) ?v sz = Ok rg \<and> leaf_size_at_level ?M l = Some fsz")
        case False
        then have "(\<exists>x. res = Err x) \<and> w' = w"
          using Suc.prems(2) c Leaf leaf_range_not_Panic
          by (auto simp: Let_def entry_is_leaf_def ok_or_def bind_st_def
              split: option.splits if_splits res.splits)
        then show ?thesis using ok by simp
      next
        case True
        then obtain sz fsz where sz: "leaf_size_at_level ?M (Suc l) = Some sz"
          "leaf_range (e_addr E) ?v sz = Ok rg" "leaf_size_at_level ?M l = Some fsz" by blast
        obtain ra w1 where a: "alloc_table_frame E w = (ra, w1)" by fastforce
        note al = alloc_table_frame_spec [OF a]
        show ?thesis
        proof (cases ra)
          case (Ok g)
          obtain rf w2 where f: "split_fill E g (pte_paddr ?P ?e) (pte_flags ?P ?e) fsz
              [0..<ENTRIES_PER_TABLE ?M] w1 = (rf, w2)" by fastforce
          let ?w3 = "store E cur ?i (new_table ?P g (Suc l)) w2"
          have k: "is_present ?P ?e" "entry_kind ?P ?e (Suc l) = Leaf" using c Leaf by simp_all
          note sl = split_leaf [OF ok Suc.prems(1) [unfolded l'] refl k [unfolded l']
              sz(1) [unfolded l'] sz(3) [unfolded l'] sz(2) a [unfolded Ok] f [unfolded l'] refl,
              folded l']
          have "res = Ok fsz" "w' = flush_leaf_range E rg ?w3"
            using Suc.prems(2) c Leaf sz a Ok f sl by (simp_all add: Let_def entry_is_leaf_def)
          moreover have "split_result E root rg w l ?e sz fsz (flush_leaf_range E rg ?w3)"
            using sl by (simp add: split_result_def flush_leaf_range_state)
          ultimately show ?thesis using sl by auto
        next
          case (Err x)
          then have "res = Err x" "w' = w1"
            using Suc.prems(2) c Leaf sz a by (simp_all add: Let_def entry_is_leaf_def)
          then show ?thesis
            using host_step_tree_ok [OF ok al(2)] host_step_view [OF ok al(2)] by simp
        next
          case Panic
          then show ?thesis using al(1) by simp
        qed
      qed
    next
      case Invalid
      then show ?thesis using c by simp
    qed
  qed
qed

end

section \<open>Split keeps every resolution\<close>

lemma bytes_of_nat: "bytes sz = of_nat (2 ^ size_shift sz)"
  by (metis of_nat_unat ucast_id unat_bytes)

lemma finer_range:
  assumes "addr_lib_ok L" "leaf_range L v sz = Ok rg" "in_range rg v'"
    and "size_shift fsz \<le> size_shift sz"
  shows "leaf_range L v' fsz = Ok \<lparr>rng_start = v' AND NOT (mask (size_shift fsz)),
    rng_end = (v' AND NOT (mask (size_shift fsz))) + bytes fsz\<rparr>"
proof -
  let ?f = "size_shift fsz" and ?s = "size_shift sz"
  obtain e where e: "checked_add (v AND NOT (mask ?s)) (bytes sz) = Some e" and rg: "rng_end rg = e"
    using assms(2) leaf_range_Ok [OF assms(1)] by auto
  have ue: "unat e = unat v div 2 ^ ?s * 2 ^ ?s + 2 ^ ?s"
    using checked_add_Some [OF e, THEN conjunct2] unfolding unat_block_base unat_bytes .
  have lt: "unat v' div 2 ^ ?f * 2 ^ ?f < unat e"
  proof -
    have "unat v' div 2 ^ ?f * 2 ^ ?f \<le> unat v'" by (rule div_times_less_eq_dividend)
    also have "\<dots> < unat e" using assms(3) by (simp add: in_range_def rg word_less_nat_alt)
    finally show ?thesis .
  qed
  have "(2 :: nat) ^ ?f dvd 2 ^ ?s" using assms(4) by (rule le_imp_power_dvd)
  then have "2 ^ ?f dvd unat e" unfolding ue by simp
  then have "unat v' div 2 ^ ?f * 2 ^ ?f + (2 ^ ?f - 1) < unat e"
    by (rule block_room [OF _ _ lt, rotated]) (simp_all add: diff_less)
  then have "unat v' div 2 ^ ?f * 2 ^ ?f + 2 ^ ?f \<le> unat e" by simp
  also have "\<dots> < 2 ^ 64" by (rule unat_u64_less)
  finally have "checked_add (v' AND NOT (mask ?f)) (bytes fsz) =
      Some ((v' AND NOT (mask ?f)) + bytes fsz)"
    unfolding checked_add_def unat_block_base unat_bytes by (rule if_P)
  then show ?thesis by (simp add: leaf_range_Ok [OF assms(1)])
qed

context walker
begin

lemma finer_base:
  assumes "1 \<le> t" "Suc t \<le> LEVELS (e_meta E)"
    and "level_shift (e_meta E) t = size_shift fsz" "level_shift (e_meta E) (Suc t) = size_shift sz"
  shows "v AND NOT (mask (size_shift fsz)) =
    (v AND NOT (mask (size_shift sz))) + of_nat (index_at (e_meta E) t v) * bytes fsz"
proof -
  let ?f = "size_shift fsz" and ?b = "INDEX_BITS (e_meta E)"
  have s: "size_shift sz = ?f + ?b"
    using shift_step [of t] full_index [of t] assms by simp
  have "index_at (e_meta E) t v = unat (take_bit ?b (drop_bit ?f v))"
    using assms full_index [of t] by (simp add: index_at_take_bit)
  then have "index_at (e_meta E) t v = unat v div 2 ^ ?f mod 2 ^ ?b"
    unfolding unsigned_take_bit_eq unat_drop_bit by (simp only: take_bit_eq_mod)
  then have "unat (v AND NOT (mask ?f)) =
      unat (v AND NOT (mask (size_shift sz))) + index_at (e_meta E) t v * 2 ^ ?f"
    unfolding s block_split [of v ?f ?b] by simp
  then have "of_nat (unat (v AND NOT (mask ?f))) =
      (of_nat (unat (v AND NOT (mask (size_shift sz))) + index_at (e_meta E) t v * 2 ^ ?f) :: u64)"
    by simp
  then show ?thesis by (simp add: bytes_of_nat)
qed

lemma leaf_range_base:
  assumes "leaf_range (e_addr E) v sz = Ok rg" "in_range rg v'"
  shows "rng_start rg = v' AND NOT (mask (size_shift sz))"
proof -
  have "drop_bit (size_shift sz) v' = drop_bit (size_shift sz) v"
    using leaf_range_mem [OF addr_ok assms(1), of v'] assms(2) by (simp add: in_range_def)
  then have "v' AND NOT (mask (size_shift sz)) = v AND NOT (mask (size_shift sz))"
    by (simp add: and_not_mask_eq)
  then show ?thesis using assms(1) leaf_range_Ok [OF addr_ok] by auto
qed

text \<open>What an address of a range of leaves of one size resolves to.\<close>

lemma resolve_leaf:
  assumes "root_view E w root v' = Ok (t, e)" "leaf_size_at_level (e_meta E) t = Some fsz"
    and "leaf_range (e_addr E) v sz = Ok rg" "in_range rg v'" "vaddr_is_valid (e_meta E) v'"
    and "size_shift fsz \<le> size_shift sz"
  shows "query E root v' (mem w) = Ok (mapping_new
      \<lparr>rng_start = v' AND NOT (mask (size_shift fsz)),
       rng_end = (v' AND NOT (mask (size_shift fsz))) + bytes fsz\<rparr>
      (pte_paddr (e_pte E) e) (pte_flags (e_pte E) e))"
    and "resolve E root v' (mem w) =
      Ok (pte_paddr (e_pte E) e + (v' - (v' AND NOT (mask (size_shift fsz)))), pte_flags (e_pte E) e)"
proof -
  note fr = finer_range [OF addr_ok assms(3,4,6)]
  show q: "query E root v' (mem w) = Ok (mapping_new
      \<lparr>rng_start = v' AND NOT (mask (size_shift fsz)),
       rng_end = (v' AND NOT (mask (size_shift fsz))) + bytes fsz\<rparr>
      (pte_paddr (e_pte E) e) (pte_flags (e_pte E) e))"
    by (simp add: query_view check_vaddr_def assms decode_def fr)
  show "resolve E root v' (mem w) =
      Ok (pte_paddr (e_pte E) e + (v' - (v' AND NOT (mask (size_shift fsz)))), pte_flags (e_pte E) e)"
    by (simp add: resolve_def q mapping_new_def)
qed

lemma in_range_valid:
  assumes "leaf_range (e_addr E) v sz = Ok rg" "vaddr_is_valid (e_meta E) v" "in_range rg v'"
    and "level_shift (e_meta E) t = size_shift sz" "1 \<le> t" "t \<le> LEVELS (e_meta E)"
  shows "vaddr_is_valid (e_meta E) v'"
proof -
  have "drop_bit (size_shift sz) v' = drop_bit (size_shift sz) v"
    using leaf_range_mem [OF addr_ok assms(1), of v'] assms(3) by (simp add: in_range_def)
  then show ?thesis using valid_block [OF assms(2,5,6), of v'] by (simp add: assms(4))
qed

text \<open>The translation of a block by one leaf, and by the full table of its parts.\<close>

lemma parts_resolve:
  assumes lv: "1 \<le> t" "Suc t \<le> LEVELS (e_meta E)"
    and sz: "leaf_size_at_level (e_meta E) (Suc t) = Some sz" "leaf_size_at_level (e_meta E) t = Some fsz"
    and rg: "leaf_range (e_addr E) v sz = Ok rg" "vaddr_is_valid (e_meta E) v"
    and whole: "\<And>v'. root_view E w1 root v' =
        (if same_path (e_meta E) (Suc t) v v' then Ok (Suc t, e) else r v')"
    and parts: "\<And>v'. root_view E w2 root v' =
        (if same_path (e_meta E) (Suc t) v v' then Ok (t, part (index_at (e_meta E) t v')) else r v')"
    and part: "\<And>i. i < ENTRIES_PER_TABLE (e_meta E) \<Longrightarrow>
        pte_paddr (e_pte E) (part i) = pte_paddr (e_pte E) e + of_nat i * bytes fsz \<and>
        pte_flags (e_pte E) (part i) = pte_flags (e_pte E) e"
  shows "resolve E root v' (mem w2) = resolve E root v' (mem w1)"
    and "\<not> in_range rg v' \<Longrightarrow> query E root v' (mem w2) = query E root v' (mem w1)"
    and "in_range rg v' \<Longrightarrow> query E root v' (mem w1) =
      Ok (mapping_new rg (pte_paddr (e_pte E) e) (pte_flags (e_pte E) e))"
    and "in_range rg v' \<Longrightarrow> \<exists>mp. query E root v' (mem w2) = Ok mp \<and>
      rng_start (m_range mp) = v' AND NOT (mask (size_shift fsz)) \<and>
      rng_end (m_range mp) = rng_start (m_range mp) + bytes fsz"
proof -
  have sh: "level_shift (e_meta E) (Suc t) = size_shift sz" "level_shift (e_meta E) t = size_shift fsz"
    using leaf_size lv sz by simp_all
  have le: "size_shift fsz \<le> size_shift sz"
    using shift_mono [of t "Suc t"] lv sh by simp
  have valid: "vaddr_is_valid (e_meta E) v'" if "in_range rg v'" for v'
    using in_range_valid [OF rg that sh(1)] lv by simp
  have path: "same_path (e_meta E) (Suc t) v v' \<longleftrightarrow> in_range rg v'" if "vaddr_is_valid (e_meta E) v'" for v'
    using in_range_path [OF rg(1) sh(1) _ lv(2) rg(2) that] by simp
  have out: "query E root v' (mem w2) = query E root v' (mem w1)" if "\<not> in_range rg v'" for v'
    using that path whole parts
    by (cases "vaddr_is_valid (e_meta E) v'") (simp_all add: query_view check_vaddr_def)
  then show "\<not> in_range rg v' \<Longrightarrow> query E root v' (mem w2) = query E root v' (mem w1)" .
  have v1: "root_view E w1 root v' = Ok (Suc t, e)"
    and v2: "root_view E w2 root v' = Ok (t, part (index_at (e_meta E) t v'))" if "in_range rg v'" for v'
    using whole parts path [OF valid [OF that]] that by simp_all
  note r1 = resolve_leaf [OF v1 sz(1) rg(1) _ valid order.refl]
  note r2 = resolve_leaf [OF v2 sz(2) rg(1) _ valid le]
  show "query E root v' (mem w1) =
      Ok (mapping_new rg (pte_paddr (e_pte E) e) (pte_flags (e_pte E) e))" if "in_range rg v'"
    using query_leaf [OF v1 [OF that] sz(1) rg(1) that valid [OF that]] .
  show "\<exists>mp. query E root v' (mem w2) = Ok mp \<and>
      rng_start (m_range mp) = v' AND NOT (mask (size_shift fsz)) \<and>
      rng_end (m_range mp) = rng_start (m_range mp) + bytes fsz" if "in_range rg v'"
    using r2(1) [OF that that that] by (simp add: mapping_new_def)
  show "resolve E root v' (mem w2) = resolve E root v' (mem w1)"
  proof (cases "in_range rg v'")
    case True
    have ix: "index_at (e_meta E) t v' < ENTRIES_PER_TABLE (e_meta E)"
      using lv by (intro index_at_less) simp_all
    show ?thesis
      using r1(2) [OF True True True] r2(2) [OF True True True] part [OF ix]
        finer_base [OF lv sh(2,1), of v'] by simp
  next
    case False
    then show ?thesis using out by (intro resolve_cong) simp
  qed
qed

lemma split_result_parts:
  assumes ok: "tree_ok E live root w" and sr: "split_result E root rg w t e sz fsz w'"
    and i: "i < ENTRIES_PER_TABLE (e_meta E)"
  defines "x \<equiv> split_entry E (pte_paddr (e_pte E) e) (pte_flags (e_pte E) e) fsz i"
  shows "pte_paddr (e_pte E) x = pte_paddr (e_pte E) e + of_nat i * bytes fsz \<and>
    pte_flags (e_pte E) x = pte_flags (e_pte E) e"
proof -
  have t: "1 \<le> t" "Suc t \<le> LEVELS (e_meta E)"
    and v: "root_view E w root (rng_start rg) = Ok (Suc t, e)"
    and z: "leaf_size_at_level (e_meta E) (Suc t) = Some sz" "leaf_size_at_level (e_meta E) t = Some fsz"
    and k: "is_present (e_pte E) e" "entry_kind (e_pte E) e (Suc t) = Leaf"
    using sr unfolding split_result_def by blast+
  have lp: "is_aligned sz (pte_paddr (e_pte E) e)"
    using tree_okD(4) [OF ok v] z by (simp add: leaf_ok_def)
  note lv = decoded_paddr [OF k]
  have sh: "level_shift (e_meta E) (Suc t) = size_shift sz" "level_shift (e_meta E) t = size_shift fsz"
    using leaf_size t z by simp_all
  have s: "size_shift sz = size_shift fsz + INDEX_BITS (e_meta E)"
    using shift_step [of t] full_index [of t] t sh by simp
  have sup: "level_supports_leaf (e_meta E) t fsz"
    using finer_supported [of t] t z by simp
  show ?thesis
    using leaf_paddr [OF sup sub_paddr(3,4) [OF lp lv s i]] decoded_flags [OF k]
    unfolding x_def split_entry_def leaf_flags by simp
qed

lemma split_at_spec:
  assumes ok: "tree_ok E live root w" and run: "split_at E root rg w = (res, w')"
  shows "res \<noteq> Panic \<and> tree_ok E live root w' \<and>
    (\<forall>v. resolve E root v (mem w') = resolve E root v (mem w)) \<and>
    (\<forall>v. \<not> in_range rg v \<longrightarrow> query E root v (mem w') = query E root v (mem w)) \<and>
    (\<forall>fsz. res = Ok fsz \<longrightarrow> exact_mapped E root rg w \<and>
       (\<forall>v. in_range rg v \<longrightarrow> (\<exists>mp. query E root v (mem w') = Ok mp \<and>
          rng_start (m_range mp) = v AND NOT (mask (size_shift fsz)) \<and>
          rng_end (m_range mp) = rng_start (m_range mp) + bytes fsz)))"
proof (cases "vaddr_is_valid (e_meta E) (rng_start rg)")
  case False
  then show ?thesis using run ok by (auto simp: split_at_def check_vaddr_def)
next
  case val: True
  then have d: "split_walk E rg (LEVELS (e_meta E)) root w = (res, w')"
    using run by (simp add: split_at_def check_vaddr_def)
  from split_walk_spec [OF ok root_table d]
  consider (failed) x where "res = Err x" "tree_ok E live root w'"
      "\<And>v'. root_view E w' root v' = root_view E w root v'"
    | (ok) t e sz fsz where "res = Ok fsz" "tree_ok E live root w'" "split_result E root rg w t e sz fsz w'"
    by blast
  then show ?thesis
  proof cases
    case failed
    then show ?thesis by (auto intro: resolve_cong query_cong)
  next
    case (ok t e sz fsz)
    note d = ok(3) [unfolded split_result_def]
    have whole: "\<And>v'. root_view E w root v' =
        (if same_path (e_meta E) (Suc t) (rng_start rg) v' then Ok (Suc t, e) else root_view E w root v')"
      using d by blast
    have parts: "\<And>v'. root_view E w' root v' =
        (if same_path (e_meta E) (Suc t) (rng_start rg) v'
         then Ok (t, split_entry E (pte_paddr (e_pte E) e) (pte_flags (e_pte E) e) fsz
                       (index_at (e_meta E) t v'))
         else root_view E w root v')"
      using d by blast
    have t: "1 \<le> t" "Suc t \<le> LEVELS (e_meta E)" "leaf_size_at_level (e_meta E) (Suc t) = Some sz"
      "leaf_size_at_level (e_meta E) t = Some fsz" "leaf_range (e_addr E) (rng_start rg) sz = Ok rg"
      using d by simp_all
    note pr = parts_resolve [OF t(1-5) val whole parts split_result_parts [OF assms(1) ok(3)]]
    have "in_range rg (rng_start rg)"
      using leaf_range_mem [OF addr_ok t(5), of "rng_start rg"] by (simp add: in_range_def)
    then have "exact_mapped E root rg w"
      using pr(3) by (auto simp: exact_mapped_def mapping_new_def)
    then show ?thesis
      using ok(1,2) pr(1,2,4) by simp
  qed
qed

end

end
