(* ===== verification/MergeSpec.thy ===== *)
theory MergeSpec
  imports SplitSpec
begin

text \<open>
  Merge: a table whose entries are consecutive leaves with equal flags is replaced by one
  leaf, and its frame is handed back. No address resolves differently afterwards, whatever
  the outcome.
\<close>

text \<open>A table whose entries are the consecutive parts of one leaf.\<close>

definition uniform_table :: "('f, 's, 'h) env \<Rightarrow> memory \<Rightarrow> paddr \<Rightarrow> nat \<Rightarrow> page_size \<Rightarrow> paddr \<Rightarrow> 'f \<Rightarrow> nat set \<Rightarrow> bool" where
  "uniform_table E m g level fsz base flags I \<longleftrightarrow>
     (\<forall>i\<in>I. let e = read_entry E m g i in
        is_present (e_pte E) e \<and> entry_kind (e_pte E) e level = Leaf \<and>
        pte_flags (e_pte E) e = flags \<and> pte_paddr (e_pte E) e = base + of_nat i * bytes fsz)"

text \<open>
  The contract of \<^verbatim>\<open>merge_at\<close>: it returns, keeps the invariant and every resolution, leaves
  the mappings outside the range alone, and on success the range is one mapping.
\<close>

definition merge_ok :: "('f, 's, 'h) env \<Rightarrow> ('s \<Rightarrow> paddr set) \<Rightarrow> paddr \<Rightarrow> addr_range \<Rightarrow> ('s, 'h) world \<Rightarrow> page_size res \<Rightarrow> ('s, 'h) world \<Rightarrow> bool" where
  "merge_ok E live root rg w res w' \<longleftrightarrow>
     res \<noteq> Panic \<and> tree_ok E live root w' \<and>
     (\<forall>v. resolve E root v (mem w') = resolve E root v (mem w)) \<and>
     (\<forall>v. \<not> in_range rg v \<longrightarrow> query E root v (mem w') = query E root v (mem w)) \<and>
     ((\<exists>tsize. res = Ok tsize) \<longrightarrow> (\<exists>mp. m_range mp = rg \<and> (\<forall>v. in_range rg v \<longrightarrow>
        query E root v (mem w') = Ok mp)))"

context walker
begin

lemma usize_mul_add_sub:
  assumes "is_aligned sz p" "paddr_is_valid (e_meta E) p"
    and "size_shift sz = size_shift fsz + INDEX_BITS (e_meta E)" "i < ENTRIES_PER_TABLE (e_meta E)"
  shows "usize_mul_add p i (bytes fsz) = Ok (p + of_nat i * bytes fsz)"
  using sub_paddr [OF assms] by (simp add: usize_mul_add_def)

lemma merge_check_spec:
  assumes "is_aligned sz base" "paddr_is_valid (e_meta E) base"
    and "size_shift sz = size_shift fsz + INDEX_BITS (e_meta E)"
    and "\<forall>i\<in>set is. i < ENTRIES_PER_TABLE (e_meta E)"
  shows "merge_check E m g level fsz base flags is \<noteq> Panic \<and>
    (merge_check E m g level fsz base flags is = Ok () \<longrightarrow>
       uniform_table E m g level fsz base flags (set is))"
  using assms(4)
proof (induction "is")
  case Nil
  then show ?case by (simp add: uniform_table_def)
next
  case (Cons i "is")
  have m: "usize_mul_add base i (bytes fsz) = Ok (base + of_nat i * bytes fsz)"
    using usize_mul_add_sub [OF assms(1-3)] Cons.prems by simp
  let ?e = "read_entry E m g i"
  show ?case
    using Cons
    by (cases "entry_kind (e_pte E) ?e level")
      (simp_all add: Let_def entry_is_leaf_def m uniform_table_def)
qed

lemma merge_children_spec:
  assumes s: "size_shift sz = size_shift fsz + INDEX_BITS (e_meta E)"
  shows "merge_children E m g level fsz sz \<noteq> Panic"
    and "merge_children E m g level fsz sz = Ok (base, flags) \<Longrightarrow>
      is_aligned sz base \<and> paddr_is_valid (e_meta E) base \<and>
      flags_ok flags \<and> norm flags = flags \<and>
      uniform_table E m g level fsz base flags {..<ENTRIES_PER_TABLE (e_meta E)}"
proof -
  let ?P = "e_pte E" and ?e = "read_entry E m g 0" and ?N = "ENTRIES_PER_TABLE (e_meta E)"
  let ?b = "pte_paddr ?P ?e" and ?f = "pte_flags ?P ?e"
  have *: "merge_children E m g level fsz sz \<noteq> Panic \<and>
    (merge_children E m g level fsz sz = Ok (base, flags) \<longrightarrow>
      is_aligned sz base \<and> paddr_is_valid (e_meta E) base \<and>
      flags_ok flags \<and> norm flags = flags \<and> uniform_table E m g level fsz base flags {..<?N})"
  proof (cases "is_present ?P ?e \<and> entry_kind ?P ?e level = Leaf \<and> is_aligned sz ?b")
    case False
    then have "\<exists>x. merge_children E m g level fsz sz = Err x"
      by (cases "entry_kind ?P ?e level") (auto simp: merge_children_def Let_def entry_is_leaf_def)
    then show ?thesis by auto
  next
    case True
    have v: "paddr_is_valid (e_meta E) ?b" using True decoded_paddr by blast
    have c: "merge_children E m g level fsz sz =
        bind_res (merge_check E m g level fsz ?b ?f [1..<?N]) (\<lambda>_. Ok (?b, ?f))"
      using True by (simp add: merge_children_def Let_def entry_is_leaf_def)
    have ck: "merge_check E m g level fsz ?b ?f [1..<?N] \<noteq> Panic \<and>
        (merge_check E m g level fsz ?b ?f [1..<?N] = Ok () \<longrightarrow>
         uniform_table E m g level fsz ?b ?f (set [1..<?N]))"
      using True by (intro merge_check_spec [OF _ v s]) simp_all
    have first: "uniform_table E m g level fsz ?b ?f {0}"
      using True by (simp add: uniform_table_def)
    have "uniform_table E m g level fsz ?b ?f {..<?N}"
      if "uniform_table E m g level fsz ?b ?f (set [1..<?N])"
      unfolding uniform_table_def
    proof
      fix i assume "i \<in> {..<?N}"
      then have "i \<in> {0} \<or> i \<in> set [1..<?N]" by auto
      then show "let e = read_entry E m g i in is_present ?P e \<and> entry_kind ?P e level = Leaf \<and>
          pte_flags ?P e = ?f \<and> pte_paddr ?P e = ?b + of_nat i * bytes fsz"
        using first that unfolding uniform_table_def by blast
    qed
    then show ?thesis
      using ck v True decoded_flags [of ?e level]
      unfolding c by (cases "merge_check E m g level fsz ?b ?f [1..<?N]") auto
  qed
  show "merge_children E m g level fsz sz \<noteq> Panic" using * by blast
  show "merge_children E m g level fsz sz = Ok (base, flags) \<Longrightarrow>
      is_aligned sz base \<and> paddr_is_valid (e_meta E) base \<and>
      flags_ok flags \<and> norm flags = flags \<and> uniform_table E m g level fsz base flags {..<?N}"
    using * by blast
qed

lemma merge_descend_spec:
  assumes "root_table_at E w root v l = Some cur" "1 \<le> target" "target \<le> l"
  shows "merge_descend E (mem w) target v l cur \<noteq> Panic \<and>
    (\<forall>c k. merge_descend E (mem w) target v l cur = Ok (c, k) \<longrightarrow>
       k = target \<and> root_table_at E w root v target = Some c)"
  using assms
proof (induction l arbitrary: cur)
  case 0
  then show ?case by simp
next
  case (Suc l)
  let ?e = "read_entry E (mem w) cur (index_at (e_meta E) (Suc l) v)"
  show ?case
  proof (cases "target < Suc l \<and> is_present (e_pte E) ?e \<and> entry_kind (e_pte E) ?e (Suc l) = Table")
    case True
    then obtain l' where l': "l = Suc l'" using Suc.prems(2) by (cases l) auto
    have "root_table_at E w root v l = Some (pte_paddr (e_pte E) ?e)"
      using table_step [OF Suc.prems(1) [unfolded l'] _ _ refl] True unfolding l' by simp
    from Suc.IH [OF this Suc.prems(2)] True show ?thesis
      by (simp add: Let_def entry_is_leaf_def)
  next
    case False
    then show ?thesis
      using Suc.prems
      by (cases "entry_kind (e_pte E) ?e (Suc l)") (auto simp: Let_def entry_is_leaf_def)
  qed
qed

text \<open>The rewrite itself: one leaf in place of a uniform table.\<close>

lemma merge_step:
  assumes ok: "tree_ok E live root w"
    and ta: "root_table_at E w root v (Suc (Suc l)) = Some cur"
    and ch: "child E (Suc (Suc l)) (read_entry E (mem w) cur (index_at (e_meta E) (Suc (Suc l)) v)) = Some g"
    and sz: "level_supports_leaf (e_meta E) (Suc (Suc l)) sz"
    and p: "is_aligned sz base" "paddr_is_valid (e_meta E) base" "flags_ok flags"
    and uni: "uniform_table E (mem w) g (Suc l) fsz base flags {..<ENTRIES_PER_TABLE (e_meta E)}"
    and w1: "w1 = store E cur (index_at (e_meta E) (Suc (Suc l)) v) (new_leaf (e_pte E) base flags sz) w"
  shows "tree_ok E live root w1"
    "mset (root_tables E w root) = add_mset g (mset (root_tables E w1 root))"
    "root_view E w1 root v' = (if same_path (e_meta E) (Suc (Suc l)) v v'
       then Ok (Suc (Suc l), new_leaf (e_pte E) base flags sz) else root_view E w root v')"
    "root_view E w root v' = (if same_path (e_meta E) (Suc (Suc l)) v v'
       then Ok (Suc l, read_entry E (mem w) g (index_at (e_meta E) (Suc l) v'))
       else root_view E w root v')"
    "frame_ok (e_meta E) g"
proof -
  let ?M = "e_meta E" and ?t = "Suc (Suc l)" and ?e = "new_leaf (e_pte E) base flags sz"
  let ?i = "index_at ?M ?t v"
  note cf = table_frame_ok [OF ok ta]
  have ent: "\<And>i. i < ENTRIES_PER_TABLE ?M \<Longrightarrow> is_present (e_pte E) (read_entry E (mem w) g i) \<and>
      entry_kind (e_pte E) (read_entry E (mem w) g i) (Suc l) = Leaf"
    using uni by (auto simp: uniform_table_def Let_def)
  have upd: "updates E (set (root_tables E w root)) cur ?i ?e (mem w) (mem w1)"
    using store_updates [OF _ cf(1,6)] tree_okD(2) [OF ok] by (simp add: w1 store_def)
  have "tables E (mem w) (Suc l) g = [g]"
    using ent by (intro tables_leafy) (simp add: child_def)
  then have old: "below E (mem w) ?t (read_entry E (mem w) cur ?i) = [g]"
    using child_below [OF ch] by simp
  note enc = leaf_encoding [OF sz cf(4,5) p]
  have new: "below E (mem w1) ?t ?e = []" using enc(1) by (simp add: below_def)
  have st: "astate w1 = astate w" by (simp add: w1 store_def)
  show "tree_ok E live root w1"
    by (rule update_tree_ok [OF ok ta upd refl refl]) (use enc(2,3) in \<open>auto simp: old new st\<close>)
  have tg: "root_table_at E w root v (Suc l) = Some g"
    using table_at_step [OF ta] ch by simp
  note gf = table_frame_ok [OF ok tg]
  show "frame_ok ?M g" by (rule gf(1))
  have "g \<in># mset (root_tables E w root)" using gf(3) by simp
  then show "mset (root_tables E w root) = add_mset g (mset (root_tables E w1 root))"
    using update_frames(3) [OF ok ta upd refl refl] by (simp add: old new)
  show "root_view E w1 root v' = (if same_path ?M ?t v v'
       then Ok (?t, ?e) else root_view E w root v')"
    unfolding update_view [OF ok ta upd] enc(2) ..
  have "root_view E w root v' = Ok (Suc l, read_entry E (mem w) g (index_at ?M (Suc l) v'))"
    if "same_path ?M ?t v v'"
  proof -
    have "root_view E w root v' = view E (mem w) (Suc l) g v'"
      using view_at [OF ta order.refl] that child_view [OF ch] by (simp add: same_path_def)
    then show ?thesis
      using ent [OF index_less_entries [OF gf(5), of v']]
      by (simp add: view_Suc entry_view_def entry_is_leaf_def)
  qed
  then show "root_view E w root v' = (if same_path ?M ?t v v'
       then Ok (Suc l, read_entry E (mem w) g (index_at ?M (Suc l) v'))
       else root_view E w root v')" by simp
qed

text \<open>What the checks of \<^verbatim>\<open>merge_at\<close> establish of a range.\<close>

lemma check_leaf_range_Ok:
  assumes "check_leaf_range (e_addr E) M rg = Ok sz"
  shows "range_ok rg" "range_size (e_addr E) rg = bytes sz" "is_aligned sz (rng_start rg)"
    "vaddr_is_valid M (rng_start rg)"
  using assms addr_is_empty [OF addr_ok, of rg]
  by (auto simp: check_leaf_range_def check_vaddr_def range_ok_def bind_res_eq_Ok from_bytes_Some
      split: if_splits)

lemma check_leaf_range_not_Panic: "check_leaf_range L M rg \<noteq> Panic"
  by (auto simp: check_leaf_range_def check_vaddr_def bind_res_def ok_or_def
      split: res.splits option.splits)

lemma merge_ok_unchanged:
  assumes "tree_ok E live root w" "res = Err x"
  shows "merge_ok E live root rg w res w"
  using assms by (simp add: merge_ok_def)

lemma merge_tail:
  assumes ok: "tree_ok E live root w"
    and lr: "leaf_range (e_addr E) (rng_start rg) sz = Ok rg" "vaddr_is_valid (e_meta E) (rng_start rg)"
    and t: "size_to_level (e_meta E) sz = Some (Suc (Suc l))"
    and ta: "root_table_at E w root (rng_start rg) (Suc (Suc l)) = Some cur"
    and pe: "is_present (e_pte E) pe" "entry_kind (e_pte E) pe (Suc (Suc l)) = Table"
      "pe = read_entry E (mem w) cur (index_at (e_meta E) (Suc (Suc l)) (rng_start rg))"
    and fsz: "leaf_size_at_level (e_meta E) (Suc l) = Some fsz"
    and mc: "merge_children E (mem w) (pte_paddr (e_pte E) pe) (Suc l) fsz sz = Ok (base, flags)"
    and d: "dealloc_table_frame E (pte_paddr (e_pte E) pe)
        (store E cur (index_at (e_meta E) (Suc (Suc l)) (rng_start rg))
          (new_leaf (e_pte E) base flags sz) w) = (rd, w2)"
  shows "rd \<noteq> Panic \<and> tree_ok E live root w2 \<and>
    log w2 = log w @ [Freed (frame_range E (pte_paddr (e_pte E) pe))] \<and>
    (\<forall>v. resolve E root v (mem w2) = resolve E root v (mem w)) \<and>
    (\<forall>v. \<not> in_range rg v \<longrightarrow> query E root v (mem w2) = query E root v (mem w)) \<and>
    (\<forall>v. in_range rg v \<longrightarrow> query E root v (mem w2) = Ok (mapping_new rg base flags))"
proof -
  let ?M = "e_meta E" and ?v = "rng_start rg" and ?g = "pte_paddr (e_pte E) pe"
  let ?t = "Suc (Suc l)" and ?e = "new_leaf (e_pte E) base flags sz"
  let ?w1 = "store E cur (index_at ?M ?t ?v) ?e w"
  note tl = size_to_level_size [OF t]
  have sh: "level_shift ?M (Suc l) = size_shift fsz" using leaf_size [of "Suc l" fsz] fsz tl(2) by simp
  have s: "size_shift sz = size_shift fsz + INDEX_BITS ?M"
    using shift_step [of "Suc l"] full_index [of "Suc l"] tl(2,3) sh by simp
  note ch = merge_children_spec(2) [OF s mc]
  have c: "child E ?t (read_entry E (mem w) cur (index_at ?M ?t ?v)) = Some ?g"
    using pe by (simp add: child_def)
  have p: "is_aligned sz base" "paddr_is_valid ?M base" "flags_ok flags" "norm flags = flags"
    and uni: "uniform_table E (mem w) ?g (Suc l) fsz base flags {..<ENTRIES_PER_TABLE ?M}"
    using ch by simp_all
  note ms = merge_step [OF ok ta c tl(5) p(1-3) uni refl]
  have dec: "pte_paddr (e_pte E) ?e = base" "pte_flags (e_pte E) ?e = flags"
    using leaf_paddr [OF tl(5) p(1,2)] leaf_flags p(4) by simp_all
  have part: "pte_paddr (e_pte E) (read_entry E (mem w) ?g i) = pte_paddr (e_pte E) ?e + of_nat i * bytes fsz \<and>
      pte_flags (e_pte E) (read_entry E (mem w) ?g i) = pte_flags (e_pte E) ?e"
    if "i < ENTRIES_PER_TABLE ?M" for i
    using uni that by (simp add: uniform_table_def Let_def dec)
  note pr = parts_resolve [OF _ tl(2,4) fsz lr ms(3) ms(4) part]
  note de = dealloc_table_frame_spec [OF d ms(5)]
  have fresh: "?g \<notin> set (root_tables E ?w1 root)"
    using ms(2) tree_okD(1) [OF ok] by (rule distinct_add_mset)
  note out = gives_back_outside [OF ms(1) de(2) fresh]
  have q: "query E root v (mem w2) = query E root v (mem ?w1)" for v
    by (rule query_cong) (rule out(2))
  then have r: "resolve E root v (mem w2) = resolve E root v (mem ?w1)" for v
    by (rule resolve_cong)
  show ?thesis
    using de(1,4) out(1) pr(1,2,3) by (auto simp: q r dec store_def)
qed

lemma merge_entry:
  assumes ok: "tree_ok E live root w"
    and lr: "leaf_range (e_addr E) (rng_start rg) sz = Ok rg" "vaddr_is_valid (e_meta E) (rng_start rg)"
    and t: "size_to_level (e_meta E) sz = Some (Suc (Suc l))"
    and ta: "root_table_at E w root (rng_start rg) (Suc (Suc l)) = Some cur"
    and run: "(let pe = read_entry E (mem w) cur (index_at (e_meta E) (Suc (Suc l)) (rng_start rg)) in
              if \<not> is_present (e_pte E) pe then (Err NotMapped, w)
              else bind_st (entry_is_leaf E pe (Suc (Suc l)), w) (\<lambda>leaf w.
                if leaf then (Ok sz, w)
                else bind_st (ok_or (leaf_size_at_level (e_meta E) (Suc (Suc l) - 1)) UnsupportedSize, w) (\<lambda>fsz w.
                  bind_st (merge_children E (mem w) (pte_paddr (e_pte E) pe) (Suc (Suc l) - 1) fsz sz, w)
                    (\<lambda>(base, flags) w.
                  bind_st (dealloc_table_frame E (pte_paddr (e_pte E) pe)
                     (store E cur (index_at (e_meta E) (Suc (Suc l)) (rng_start rg))
                        (new_leaf (e_pte E) base flags sz) w)) (\<lambda>_ w.
                  (Ok sz, flush_leaf_range E rg w)))))) = (res, w')"
  shows "merge_ok E live root rg w res w'"
proof -
  let ?M = "e_meta E" and ?P = "e_pte E" and ?v = "rng_start rg" and ?t = "Suc (Suc l)"
  define pe where "pe = read_entry E (mem w) cur (index_at ?M ?t ?v)"
  note run' = run [unfolded Let_def, folded pe_def]
  note tl = size_to_level_size [OF t]
  show ?thesis
  proof (cases "is_present ?P pe \<and> entry_kind ?P pe ?t \<noteq> Invalid")
    case False
    then obtain x where "res = Err x" "w' = w"
      using run' by (cases "entry_kind ?P pe ?t") (auto simp: entry_is_leaf_def split: if_splits)
    then show ?thesis using merge_ok_unchanged [OF ok] by simp
  next
    case pres: True
    show ?thesis
    proof (cases "entry_kind ?P pe ?t")
      case Leaf
      have r: "res = Ok sz" "w' = w" using run' pres Leaf by (simp_all add: entry_is_leaf_def)
      have v: "root_view E w root v' = Ok (?t, pe)" if "same_path ?M ?t ?v v'" for v'
        using view_at [OF ta order.refl] that pres Leaf
        by (simp add: same_path_def entry_view_def entry_is_leaf_def pe_def)
      then have old: "\<And>v'. root_view E w root v' =
          (if same_path ?M ?t ?v v' then Ok (?t, pe) else root_view E w root v')" by simp
      have "query E root v' (mem w) =
          Ok (mapping_new rg (pte_paddr ?P pe) (pte_flags ?P pe))" if "in_range rg v'" for v'
        using query_block(1) [OF old lr(1) tl(4,1,2) lr(2) refl, where v' = v'] that by simp
      then show ?thesis
        using ok by (auto simp: merge_ok_def r mapping_new_def
            intro!: exI [of _ "mapping_new rg (pte_paddr ?P pe) (pte_flags ?P pe)"])
    next
      case Table
      show ?thesis
      proof (cases "leaf_size_at_level ?M (Suc l)")
        case None
        then have "res = Err UnsupportedSize" "w' = w"
          using run' pres Table by (simp_all add: entry_is_leaf_def)
        then show ?thesis using merge_ok_unchanged [OF ok] by simp
      next
        case (Some fsz)
        have "level_shift ?M (Suc l) = size_shift fsz"
          using leaf_size [of "Suc l" fsz] Some tl(2) by simp
        then have s: "size_shift sz = size_shift fsz + INDEX_BITS ?M"
          using shift_step [of "Suc l"] full_index [of "Suc l"] tl(2,3) by simp
        show ?thesis
        proof (cases "merge_children E (mem w) (pte_paddr ?P pe) (Suc l) fsz sz")
          case (Ok bf)
          obtain base flags where bf: "bf = (base, flags)" by (cases bf)
          obtain rd w2 where d: "dealloc_table_frame E (pte_paddr ?P pe)
             (store E cur (index_at ?M ?t ?v) (new_leaf ?P base flags sz) w) = (rd, w2)" by fastforce
          have pp: "is_present ?P pe" using pres by simp
          note mt = merge_tail [OF ok lr t ta pp Table pe_def Some Ok [unfolded bf] d]
          have r: "bind_st (rd, w2) (\<lambda>_ w. (Ok sz, flush_leaf_range E rg w)) = (res, w')"
            using run' pres Table Some Ok d by (simp add: entry_is_leaf_def bf)
          show ?thesis
            using mt r by (cases rd)
              (auto simp: merge_ok_def flush_leaf_range_state mapping_new_def
                intro!: exI [of _ "mapping_new rg base flags"])
        next
          case (Err x)
          then have "res = Err x" "w' = w"
            using run' pres Table Some by (simp_all add: entry_is_leaf_def)
          then show ?thesis using merge_ok_unchanged [OF ok] by simp
        next
          case Panic
          then show ?thesis using merge_children_spec(1) [OF s] by blast
        qed
      qed
    next
      case Invalid
      then show ?thesis using pres by simp
    qed
  qed
qed

lemma merge_at_spec:
  assumes ok: "tree_ok E live root w" and run: "merge_at E root rg w = (res, w')"
  shows "merge_ok E live root rg w res w'"
proof -
  let ?M = "e_meta E" and ?P = "e_pte E" and ?v = "rng_start rg"
  show ?thesis
  proof (cases "check_leaf_range (e_addr E) ?M rg")
    case (Ok sz)
    note rg = check_leaf_range_Ok [OF Ok]
    note lr = leaf_range_exact [OF addr_ok rg(1-3)]
    show ?thesis
    proof (cases "size_to_level ?M sz")
      case None
      then have "res = Err UnsupportedSize" "w' = w"
        using run Ok by (simp_all add: merge_at_def)
      then show ?thesis using merge_ok_unchanged [OF ok] by simp
    next
      case (Some target)
      note tl = size_to_level_size [OF Some]
      show ?thesis
      proof (cases "target \<le> 1")
        case True
        then have "res = Err NotCoalescable" "w' = w"
          using run Ok Some by (simp_all add: merge_at_def)
        then show ?thesis using merge_ok_unchanged [OF ok] by simp
      next
        case False
        then obtain l where l: "target = Suc (Suc l)"
          by (metis One_nat_def le_SucI not0_implies_Suc order.refl zero_le)
        have md: "merge_descend E (mem w) target ?v (LEVELS ?M) root \<noteq> Panic \<and>
            (\<forall>c k. merge_descend E (mem w) target ?v (LEVELS ?M) root = Ok (c, k) \<longrightarrow>
               k = target \<and> root_table_at E w root ?v target = Some c)"
          by (rule merge_descend_spec [OF root_table tl(1,2)])
        show ?thesis
        proof (cases "merge_descend E (mem w) target ?v (LEVELS ?M) root")
          case (Ok ck)
          then obtain cur where ck: "ck = (cur, target)" and ta: "root_table_at E w root ?v target = Some cur"
            using md by (cases ck) auto
          have run': "(let pe = read_entry E (mem w) cur (index_at ?M target ?v) in
              if \<not> is_present ?P pe then (Err NotMapped, w)
              else bind_st (entry_is_leaf E pe target, w) (\<lambda>leaf w.
                if leaf then (Ok sz, w)
                else bind_st (ok_or (leaf_size_at_level ?M (target - 1)) UnsupportedSize, w) (\<lambda>fsz w.
                  bind_st (merge_children E (mem w) (pte_paddr ?P pe) (target - 1) fsz sz, w)
                    (\<lambda>(base, flags) w.
                  bind_st (dealloc_table_frame E (pte_paddr ?P pe)
                     (store E cur (index_at ?M target ?v) (new_leaf ?P base flags sz) w)) (\<lambda>_ w.
                  (Ok sz, flush_leaf_range E rg w)))))) = (res, w')"
            using run unfolding merge_at_def Let_def \<open>check_leaf_range (e_addr E) ?M rg = Ok sz\<close>
              bind_st_simps Some ok_or_simps if_not_P [OF False] Ok ck prod.case .
          show ?thesis by (rule merge_entry [OF ok lr rg(4) Some [unfolded l] ta [unfolded l] run' [unfolded l]])
        next
          case (Err x)
          then have "res = Err x" "w' = w"
            using run False Some \<open>check_leaf_range (e_addr E) ?M rg = Ok sz\<close>
            by (simp_all add: merge_at_def)
          then show ?thesis using merge_ok_unchanged [OF ok] by simp
        next
          case Panic
          then show ?thesis using md by simp
        qed
      qed
    qed
  next
    case (Err x)
    then have "res = Err x" "w' = w" using run by (simp_all add: merge_at_def)
    then show ?thesis using merge_ok_unchanged [OF ok] by simp
  next
    case Panic
    then show ?thesis using check_leaf_range_not_Panic by blast
  qed
qed

end

end
