(* ===== verification/DropSpec.thy ===== *)
theory DropSpec
  imports MergeSpec
begin

text \<open>
  Dropping a walker: every table frame of the tree is handed back exactly once, children
  before their parent, and no other frame is touched, whatever the allocator answers.
\<close>

text \<open>The order of the recursive drop: a depth-first walk, parents last.\<close>

primrec drop_order :: "('f, 's, 'h) env \<Rightarrow> memory \<Rightarrow> nat \<Rightarrow> paddr \<Rightarrow> paddr list" where
  "drop_order E m 0 f = []"
| "drop_order E m (Suc l) f =
     concat (map (\<lambda>i. case child E (Suc l) (read_entry E m f i) of
                        None \<Rightarrow> [] | Some g \<Rightarrow> drop_order E m l g)
               [0..<ENTRIES_PER_TABLE (e_meta E)]) @ [f]"

definition drop_below :: "('f, 's, 'h) env \<Rightarrow> memory \<Rightarrow> nat \<Rightarrow> u64 \<Rightarrow> paddr list" where
  "drop_below E m l e = (case child E l e of None \<Rightarrow> [] | Some g \<Rightarrow> drop_order E m (l - 1) g)"

lemma drop_order_Suc:
  "drop_order E m (Suc l) f =
     concat (map (\<lambda>i. drop_below E m (Suc l) (read_entry E m f i)) [0..<ENTRIES_PER_TABLE (e_meta E)]) @ [f]"
  unfolding drop_order.simps drop_below_def diff_Suc_1 ..

declare drop_order.simps(2) [simp del]

lemma mset_drop_order: "mset (drop_order E m l f) = mset (tables E m l f)"
proof (induction l arbitrary: f)
  case 0
  then show ?case by simp
next
  case (Suc l)
  have "mset (drop_below E m (Suc l) e) = mset (below E m (Suc l) e)" for e
    using Suc.IH by (cases "child E (Suc l) e") (simp_all add: drop_below_def below_def)
  then show ?case
    by (simp add: drop_order_Suc tables_Suc mset_concat_upt)
qed

lemma drop_order_cong:
  "same_entries E (set (tables E m l f)) m m' \<Longrightarrow> drop_order E m' l f = drop_order E m l f"
proof (induction l arbitrary: f)
  case 0
  then show ?case by simp
next
  case (Suc l)
  have "drop_below E m' (Suc l) (read_entry E m' f i) = drop_below E m (Suc l) (read_entry E m f i)"
    if i: "i < ENTRIES_PER_TABLE (e_meta E)" for i
  proof -
    have r: "read_entry E m' f i = read_entry E m f i"
      using Suc.prems i by (simp add: same_entries_def set_tables_Suc)
    show ?thesis
    proof (cases "child E (Suc l) (read_entry E m f i)")
      case None
      then show ?thesis by (simp add: drop_below_def r)
    next
      case (Some g)
      then have "set (tables E m l g) \<subseteq> set (tables E m (Suc l) f)"
        using below_subset [OF i, of m l f] by (simp add: below_def)
      then have "drop_order E m' l g = drop_order E m l g"
        using Suc.IH Suc.prems same_entries_mono by blast
      with Some show ?thesis by (simp add: drop_below_def r)
    qed
  qed
  then have "map (\<lambda>i. drop_below E m' (Suc l) (read_entry E m' f i)) [0..<ENTRIES_PER_TABLE (e_meta E)] =
      map (\<lambda>i. drop_below E m (Suc l) (read_entry E m f i)) [0..<ENTRIES_PER_TABLE (e_meta E)]"
    by (intro map_cong) simp_all
  then show ?case unfolding drop_order_Suc by (rule arg_cong)
qed

text \<open>
  A run that hands back frames of \<open>G\<close> at most, and all of them to an allocator that takes frames back.
\<close>

definition releases :: "('f, 's, 'h) env \<Rightarrow> ('s \<Rightarrow> paddr set) \<Rightarrow> paddr set \<Rightarrow> ('s, 'h) world \<Rightarrow>
    ('s, 'h) world \<Rightarrow> bool" where
  "releases E live G w w' \<longleftrightarrow>
     live (astate w) - G \<subseteq> live (astate w') \<and> live (astate w') \<subseteq> live (astate w) \<and>
     same_entries E (live (astate w) - G) (mem w) (mem w') \<and>
     (dealloc_total E live \<longrightarrow> live (astate w') \<inter> G = {})"

lemma releases_refl: "releases E live {} w w"
  by (auto simp: releases_def same_entries_def)

lemma releases_trans:
  assumes "releases E live G w w1" "releases E live H w1 w2"
  shows "releases E live (G \<union> H) w w2"
proof -
  have "live (astate w) - (G \<union> H) \<subseteq> live (astate w1) - H"
    using assms(1) by (auto simp: releases_def)
  then have "same_entries E (live (astate w) - (G \<union> H)) (mem w1) (mem w2)"
    using assms(2) same_entries_mono by (auto simp: releases_def)
  moreover have "same_entries E (live (astate w) - (G \<union> H)) (mem w) (mem w1)"
    by (rule same_entries_mono [of E "live (astate w) - G"]) (use assms(1) in \<open>auto simp: releases_def\<close>)
  ultimately have "same_entries E (live (astate w) - (G \<union> H)) (mem w) (mem w2)"
    by (simp add: same_entries_def)
  then show ?thesis using assms by (auto simp: releases_def)
qed

text \<open>The frames of a subtree are usable.\<close>

definition frames_ok :: "('f, 's, 'h) env \<Rightarrow> ('s \<Rightarrow> paddr set) \<Rightarrow> paddr list \<Rightarrow> ('s, 'h) world \<Rightarrow> bool" where
  "frames_ok E live fs w \<longleftrightarrow>
     distinct fs \<and> set fs \<subseteq> live (astate w) \<and> (\<forall>f\<in>set fs. frame_ok (e_meta E) f)"

context walker
begin

lemma ignore_dealloc:
  assumes "frame_ok (e_meta E) f"
  shows "\<exists>w'. ignore_result (dealloc_table_frame E f w) = (Ok (), w') \<and>
    log w' = log w @ [Freed (frame_range E f)] \<and> releases E live {f} w w'"
proof -
  obtain rd w1 where d: "dealloc_table_frame E f w = (rd, w1)" by fastforce
  note de = dealloc_table_frame_spec [OF d assms]
  have "ignore_result (rd, w1) = (Ok (), w1)"
    using de(1) by (cases rd) (simp_all add: ignore_result_def)
  moreover have "dealloc_total E live \<Longrightarrow> f \<notin> live (astate w1)"
    using de(2,5) by (auto simp: gives_back_def)
  ultimately show ?thesis using d de by (simp add: releases_def gives_back_def)
qed

lemma drop_children_spec:
  assumes rec: "\<And>g w. frames_ok E live (tables E (mem w) l g) w \<Longrightarrow> l \<noteq> 0 \<Longrightarrow>
      \<exists>w'. drop_subtree E l g w = (Ok (), w') \<and>
        log w' = log w @ map (\<lambda>f. Freed (frame_range E f)) (drop_order E (mem w) l g) \<and>
        releases E live (set (tables E (mem w) l g)) w w'"
    and l: "l \<noteq> 0"
    and "\<forall>i\<in>set is. i < ENTRIES_PER_TABLE (e_meta E)"
    and "frames_ok E live (pa # concat (map (\<lambda>i. below E (mem w) (Suc l) (read_entry E (mem w) pa i)) is)) w"
  shows "\<exists>w'. drop_children E (drop_subtree E l) (Suc l) pa is w = (Ok (), w') \<and>
    log w' = log w @ map (\<lambda>f. Freed (frame_range E f))
      (concat (map (\<lambda>i. drop_below E (mem w) (Suc l) (read_entry E (mem w) pa i)) is)) \<and>
    releases E live (set (concat (map (\<lambda>i. below E (mem w) (Suc l) (read_entry E (mem w) pa i)) is))) w w'"
  using assms(3,4)
proof (induction "is" arbitrary: w)
  case Nil
  then show ?case by (simp add: releases_refl)
next
  case (Cons i "is")
  let ?B = "\<lambda>w i. below E (mem w) (Suc l) (read_entry E (mem w) pa i)"
  let ?D = "\<lambda>w i. drop_below E (mem w) (Suc l) (read_entry E (mem w) pa i)"
  let ?e = "read_entry E (mem w) pa i"
  have cond: "is_present (e_pte E) ?e \<and> kind_is_table (entry_kind (e_pte E) ?e (Suc l)) \<longleftrightarrow>
      child E (Suc l) ?e = Some (pte_paddr (e_pte E) ?e)"
    by (auto simp: child_def kind_is_table_def)
  show ?case
  proof (cases "child E (Suc l) ?e")
    case None
    then have "?B w i = []" "?D w i = []" by (simp_all add: below_def drop_below_def)
    moreover have "drop_children E (drop_subtree E l) (Suc l) pa (i # is) w =
        drop_children E (drop_subtree E l) (Suc l) pa is w"
      using None cond by (auto simp: Let_def)
    ultimately show ?thesis using Cons.IH [of w] Cons.prems by simp
  next
    case (Some g)
    then have ch: "child E (Suc l) ?e = Some (pte_paddr (e_pte E) ?e)" "g = pte_paddr (e_pte E) ?e"
      by (auto simp: child_def split: if_splits)
    have b: "?B w i = tables E (mem w) l g" "?D w i = drop_order E (mem w) l g"
      using Some by (simp_all add: below_def drop_below_def)
    have all: "frames_ok E live (pa # ?B w i @ concat (map (?B w) is)) w"
      using Cons.prems(2) by simp
    then have "frames_ok E live (tables E (mem w) l g) w"
      using b by (auto simp: frames_ok_def)
    then obtain w1 where w1: "drop_subtree E l g w = (Ok (), w1)"
      "log w1 = log w @ map (\<lambda>f. Freed (frame_range E f)) (drop_order E (mem w) l g)"
      "releases E live (set (tables E (mem w) l g)) w w1"
      using rec l by blast
    have rest: "insert pa (set (concat (map (?B w) is))) \<subseteq> live (astate w) - set (tables E (mem w) l g)"
      using all b by (auto simp: frames_ok_def)
    then have same: "same_entries E (insert pa (set (concat (map (?B w) is)))) (mem w) (mem w1)"
      and lv: "insert pa (set (concat (map (?B w) is))) \<subseteq> live (astate w1)"
    proof -
      have rel: "same_entries E (live (astate w) - set (tables E (mem w) l g)) (mem w) (mem w1)"
        "live (astate w) - set (tables E (mem w) l g) \<subseteq> live (astate w1)"
        using w1(3) by (simp_all add: releases_def)
      show "same_entries E (insert pa (set (concat (map (?B w) is)))) (mem w) (mem w1)"
        by (rule same_entries_mono [OF rel(1) rest])
      show "insert pa (set (concat (map (?B w) is))) \<subseteq> live (astate w1)"
        using rest rel(2) by (rule subset_trans)
    qed
    have e1: "read_entry E (mem w1) pa j = read_entry E (mem w) pa j" if "j \<in> set is" for j
      using same_entries_read [OF same, of pa j] that Cons.prems(1) by simp
    have sj: "same_entries E (set (?B w j)) (mem w) (mem w1)" if "j \<in> set is" for j
      using same that by (rule_tac same_entries_mono) auto
    have B1: "?B w1 j = ?B w j" and D1: "?D w1 j = ?D w j" if "j \<in> set is" for j
    proof -
      show "?B w1 j = ?B w j"
        using below_cong [OF sj [OF that]] e1 [OF that] by simp
      show "?D w1 j = ?D w j"
        using sj [OF that] e1 [OF that]
        by (cases "child E (Suc l) (read_entry E (mem w) pa j)")
          (simp_all add: drop_below_def below_def drop_order_cong)
    qed
    have mB: "map (?B w1) is = map (?B w) is" and mD: "map (?D w1) is = map (?D w) is"
      using B1 D1 by (auto intro: map_cong)
    have "frames_ok E live (pa # concat (map (?B w1) is)) w1"
      using all lv unfolding mB by (auto simp: frames_ok_def)
    then obtain w2 where w2: "drop_children E (drop_subtree E l) (Suc l) pa is w1 = (Ok (), w2)"
      "log w2 = log w1 @ map (\<lambda>f. Freed (frame_range E f)) (concat (map (?D w) is))"
      "releases E live (set (concat (map (?B w) is))) w1 w2"
      using Cons.IH [of w1] Cons.prems(1) unfolding mB mD by auto
    have "drop_children E (drop_subtree E l) (Suc l) pa (i # is) w = (Ok (), w2)"
      using ch cond w1(1) w2(1) by (simp add: Let_def)
    moreover have "releases E live (set (concat (map (?B w) (i # is)))) w w2"
      using releases_trans [OF w1(3) w2(3)] by (simp add: b)
    ultimately show ?thesis using w1(2) w2(2) by (simp add: b)
  qed
qed

lemma drop_subtree_spec:
  assumes "frames_ok E live (tables E (mem w) l pa) w" "l \<noteq> 0"
  shows "\<exists>w'. drop_subtree E l pa w = (Ok (), w') \<and>
    log w' = log w @ map (\<lambda>f. Freed (frame_range E f)) (drop_order E (mem w) l pa) \<and>
    releases E live (set (tables E (mem w) l pa)) w w'"
  using assms
proof (induction l arbitrary: pa w)
  case 0
  then show ?case by simp
next
  case (Suc l)
  let ?N = "ENTRIES_PER_TABLE (e_meta E)"
  let ?B = "concat (map (\<lambda>i. below E (mem w) (Suc l) (read_entry E (mem w) pa i)) [0..<?N])"
  let ?D = "concat (map (\<lambda>i. drop_below E (mem w) (Suc l) (read_entry E (mem w) pa i)) [0..<?N])"
  have t: "tables E (mem w) (Suc l) pa = pa # ?B" "drop_order E (mem w) (Suc l) pa = ?D @ [pa]"
    by (simp_all add: tables_Suc drop_order_Suc)
  have pa: "frame_ok (e_meta E) pa" using Suc.prems(1) by (simp add: t frames_ok_def)
  have "\<exists>w1. (if 1 < Suc l then drop_children E (drop_subtree E l) (Suc l) pa [0..<?N] w else (Ok (), w)) =
      (Ok (), w1) \<and> log w1 = log w @ map (\<lambda>f. Freed (frame_range E f)) ?D \<and>
      releases E live (set ?B) w w1"
  proof (cases "l = 0")
    case True
    have no: "child E (Suc 0) e = None" for e using kind_one by (simp add: child_def)
    have "?B = []" "?D = []" using True by (simp_all add: below_def drop_below_def no)
    then show ?thesis using True by (simp add: releases_refl)
  next
    case False
    then have "\<exists>w1. drop_children E (drop_subtree E l) (Suc l) pa [0..<?N] w = (Ok (), w1) \<and>
        log w1 = log w @ map (\<lambda>f. Freed (frame_range E f)) ?D \<and> releases E live (set ?B) w w1"
      using Suc.prems(1) by (intro drop_children_spec Suc.IH) (simp_all add: t)
    with False show ?thesis by simp
  qed
  then obtain w1 where w1: "(if 1 < Suc l then drop_children E (drop_subtree E l) (Suc l) pa [0..<?N] w
      else (Ok (), w)) = (Ok (), w1)"
    "log w1 = log w @ map (\<lambda>f. Freed (frame_range E f)) ?D" "releases E live (set ?B) w w1"
    by blast
  from ignore_dealloc [OF pa, of w1] obtain w2 where
    w2: "ignore_result (dealloc_table_frame E pa w1) = (Ok (), w2)"
    "log w2 = log w1 @ [Freed (frame_range E pa)]" "releases E live {pa} w1 w2" by blast
  have "drop_subtree E (Suc l) pa w = (Ok (), w2)"
    unfolding drop_subtree.simps w1(1) using w2(1) by simp
  moreover have "releases E live (set (tables E (mem w) (Suc l) pa)) w w2"
    using releases_trans [OF w1(3) w2(3)] by (simp add: t insert_commute)
  ultimately show ?case using w1(2) w2(2) by (simp add: t)
qed

lemma walker_drop_spec:
  assumes "tree_ok E live root w"
  shows "\<exists>w' fs. walker_drop E root w = (Ok (), w') \<and>
    log w' = log w @ map (\<lambda>f. Freed (frame_range E f)) fs \<and>
    mset fs = mset (root_tables E w root) \<and> distinct fs \<and>
    releases E live (set (root_tables E w root)) w w'"
proof -
  have "frames_ok E live (root_tables E w root) w"
    using tree_okD [OF assms] by (simp add: frames_ok_def)
  from drop_subtree_spec [OF this root_not_0] obtain w' where
    "drop_subtree E (LEVELS (e_meta E)) root w = (Ok (), w')"
    "log w' = log w @ map (\<lambda>f. Freed (frame_range E f)) (drop_order E (mem w) (LEVELS (e_meta E)) root)"
    "releases E live (set (root_tables E w root)) w w'" by blast
  then show ?thesis
    using mset_drop_order [of E "mem w" "LEVELS (e_meta E)" root] tree_okD(1) [OF assms]
      mset_eq_imp_distinct_iff
    unfolding walker_drop_def by metis
qed

end

end
