(* ===== verification/FlushQueue.thy ===== *)
theory FlushQueue
  imports Walker
begin

text \<open>
  The batched TLB invalidation of \<^verbatim>\<open>PageTableCursor\<close> in \<^verbatim>\<open>src/src/walker.rs\<close>: a bounded
  queue of page ranges that \<^verbatim>\<open>queue_flush_range\<close> keeps coalesced and that
  \<^verbatim>\<open>flush_pending\<close> drains, escalating to a full flush when the queue overflows or the TLB
  policy prefers it.
\<close>

section \<open>The queue\<close>

record flush_range =
  fr_start :: usize
  fr_pages :: usize

definition FLUSH_RANGE_CAP :: nat where
  "FLUSH_RANGE_CAP = 128"

definition fr_end :: "page_size \<Rightarrow> flush_range \<Rightarrow> usize option" where
  "fr_end page_size r =
     (case checked_mul (fr_pages r) (bytes page_size) of
        None \<Rightarrow> None
      | Some b \<Rightarrow> checked_add (fr_start r) b)"

record flush_queue =
  pending_flushes :: "flush_range list"
  needs_full_flush :: bool

text \<open>\<^verbatim>\<open>Vec::swap_remove\<close>: the last element takes the place of the removed one.\<close>

definition swap_remove :: "'a list \<Rightarrow> nat \<Rightarrow> 'a list" where
  "swap_remove q idx = butlast (q[idx := last q])"

lemma length_swap_remove [simp]: "length (swap_remove q idx) = length q - 1"
  by (simp add: swap_remove_def)

text \<open>
  The loop of \<^verbatim>\<open>queue_flush_range\<close>: ranges that overlap or touch \<open>[start, end)\<close> are taken
  out of the queue and absorbed. \<open>None\<close> stands for the early return on an overflowing end.
\<close>

function coalesce :: "page_size \<Rightarrow> nat \<Rightarrow> usize \<Rightarrow> usize \<Rightarrow> flush_range list \<Rightarrow>
    (usize \<times> usize \<times> flush_range list) option" where
  "coalesce page_size idx start fin q =
     (if idx < length q then
        (let r = q ! idx in
         case fr_end page_size r of
           None \<Rightarrow> None
         | Some range_end \<Rightarrow>
             if fin < fr_start r \<or> range_end < start
             then coalesce page_size (idx + 1) start fin q
             else coalesce page_size idx (min start (fr_start r)) (max fin range_end)
                    (swap_remove q idx))
      else Some (start, fin, q))"
  by pat_completeness auto
termination
  by (relation "measure (\<lambda>(_, idx, _, _, q). length q - idx)") auto

declare coalesce.simps [simp del]

definition escalate :: "'a flush_queue_scheme \<Rightarrow> 'a flush_queue_scheme" where
  "escalate c = c\<lparr>needs_full_flush := True, pending_flushes := []\<rparr>"

definition queue_flush_range :: "('f, 's, 'h) env \<Rightarrow> addr_range \<Rightarrow> 'a flush_queue_scheme \<Rightarrow>
    'a flush_queue_scheme" where
  "queue_flush_range E rg c =
     (if needs_full_flush c then c
      else
        let page_size = BASE_PAGE_SIZE (e_meta E);
            pages = range_size (e_addr E) rg div bytes page_size in
        if pages = 0 then c
        else
          let start = rng_start rg in
          case (case checked_mul pages (bytes page_size) of
                  None \<Rightarrow> None | Some b \<Rightarrow> checked_add start b) of
            None \<Rightarrow> escalate c
          | Some fin \<Rightarrow>
              (case coalesce page_size 0 start fin (pending_flushes c) of
                 None \<Rightarrow> escalate c
               | Some (start, fin, q) \<Rightarrow>
                   let merged_pages = (fin - start) div bytes page_size in
                   if length q < FLUSH_RANGE_CAP
                   then c\<lparr>pending_flushes := q @ [\<lparr>fr_start = start, fr_pages = merged_pages\<rparr>]\<rparr>
                   else escalate (c\<lparr>pending_flushes := q\<rparr>)))"

definition pending_count :: "flush_range list \<Rightarrow> usize" where
  "pending_count q = fold (\<lambda>r acc. saturating_add acc (fr_pages r)) q 0"

definition flush_ranges :: "('f, 's, 'h) env \<Rightarrow> flush_range list \<Rightarrow> 'h list" where
  "flush_ranges E q =
     concat (map (\<lambda>r. flush_tlb_range_local (e_tlb E) (fr_start r) (BASE_PAGE_SIZE (e_meta E))
                        (fr_pages r))
             (sort_key fr_start q))"

definition flush_pending :: "('f, 's, 'h) env \<Rightarrow> 'a flush_queue_scheme \<Rightarrow> ('s, 'h) world \<Rightarrow>
    'a flush_queue_scheme \<times> ('s, 'h) world" where
  "flush_pending E c w =
     (let count = pending_count (pending_flushes c);
          drained = c\<lparr>pending_flushes := [], needs_full_flush := False\<rparr> in
      if needs_full_flush c then (drained, emit (flush_tlb_all_local (e_tlb E)) w)
      else if count = 0 then (c, w)
      else if prefer_full_flush (e_tlb E) count
        then (drained, emit (flush_tlb_all_local (e_tlb E)) w)
      else (drained, emit (flush_ranges E (pending_flushes c)) w))"

end
