(* ===== verification/Cursor.thy ===== *)
theory Cursor
  imports FlushQueue
begin

text \<open>
  \<^verbatim>\<open>PageTableCursor\<close> of \<^verbatim>\<open>src/src/walker.rs\<close>: the batch API behind
  \<^verbatim>\<open>PageTableWalker::map\<close>. A cursor extends the flush queue by a cache of the last descent;
  it borrows the walker, so the root frame and the parameters are arguments. The cursor's
  operations return the new cursor next to the new world: the state they act on is the pair
  of the two.
\<close>

record cursor = flush_queue +
  descent :: "paddr option list"
  last_vaddr :: "usize option"

type_synonym ('s, 'h) cstate = "cursor \<times> ('s, 'h) world"

definition cursor_new :: cursor where
  "cursor_new =
     \<lparr>pending_flushes = [], needs_full_flush = False,
      descent = replicate MAX_LEVELS None, last_vaddr = None\<rparr>"

section \<open>The descent cache\<close>

text \<open>The loop over \<^verbatim>\<open>(1..=LEVELS).rev()\<close>: the first level whose index differs.\<close>

fun reusable_from :: "meta_impl \<Rightarrow> usize \<Rightarrow> usize \<Rightarrow> nat \<Rightarrow> nat" where
  "reusable_from M prev v 0 = 1"
| "reusable_from M prev v (Suc l) =
     (let level = Suc l; shift = level_shift M level; mask = index_mask M level in
      if drop_bit shift prev AND mask \<noteq> drop_bit shift v AND mask then level
      else reusable_from M prev v l)"

definition reusable_level :: "meta_impl \<Rightarrow> cursor \<Rightarrow> usize \<Rightarrow> nat" where
  "reusable_level M c v =
     (case last_vaddr c of
        None \<Rightarrow> LEVELS M
      | Some prev \<Rightarrow> reusable_from M prev v (LEVELS M))"

definition invalidate_below :: "nat \<Rightarrow> cursor \<Rightarrow> cursor" where
  "invalidate_below level c =
     (let n = min level MAX_LEVELS - 1 in
      c\<lparr>descent := replicate n None @ drop n (descent c)\<rparr>)"

text \<open>
  The loop that climbs down the cached frames from the root while they are present, to the
  level \<^verbatim>\<open>max(reusable_level, target_level)\<close> at the lowest.
\<close>

fun cached_descend :: "paddr option list \<Rightarrow> nat \<Rightarrow> nat \<Rightarrow> paddr \<Rightarrow> (nat \<times> paddr) res" where
  "cached_descend d stop 0 cur = Ok (0, cur)"
| "cached_descend d stop (Suc l) cur =
     (if stop < Suc l then
        if length d \<le> l - 1 then Panic
        else (case d ! (l - 1) of
                Some frame \<Rightarrow> cached_descend d stop l frame
              | None \<Rightarrow> Ok (Suc l, cur))
      else Ok (Suc l, cur))"

section \<open>Mapping one leaf\<close>

text \<open>The loop \<^verbatim>\<open>while level > target_level\<close>, which records every frame it enters.\<close>

fun cursor_descend :: "('f, 's, 'h) env \<Rightarrow> nat \<Rightarrow> vaddr \<Rightarrow> nat \<Rightarrow> paddr \<Rightarrow> ('s, 'h) cstate \<Rightarrow>
    (paddr \<times> nat) res \<times> ('s, 'h) cstate" where
  "cursor_descend E target v 0 cur cw = (Panic, cw)"
| "cursor_descend E target v (Suc l) cur (c, w) =
     (let level = Suc l; P = e_pte E in
      if target < level then
        let idx = index_at (e_meta E) level v;
            pte = read_entry E (mem w) cur idx in
        if is_present P pte then
          bind_st (entry_is_leaf E pte level, (c, w)) (\<lambda>leaf (c, w).
            if leaf then (Err AlreadyMapped, (c\<lparr>last_vaddr := None\<rparr>, w))
            else if length (descent c) \<le> l - 1 then (Panic, (c, w))
            else cursor_descend E target v l (pte_paddr P pte)
                   (c\<lparr>descent := (descent c)[l - 1 := Some (pte_paddr P pte)]\<rparr>, w))
        else
          (case alloc_table_frame E w of
             (Err e, w) \<Rightarrow> (Err e, (c\<lparr>last_vaddr := None\<rparr>, w))
           | (Panic, w) \<Rightarrow> (Panic, (c, w))
           | (Ok child, w) \<Rightarrow>
               let w = store E cur idx (new_table P child level) w in
               if length (descent c) \<le> l - 1 then (Panic, (c, w))
               else cursor_descend E target v l child
                      (c\<lparr>descent := (descent c)[l - 1 := Some child]\<rparr>, w))
      else (Ok (cur, level), (c, w)))"

definition cursor_install :: "('f, 's, 'h) env \<Rightarrow> addr_range \<Rightarrow> paddr \<Rightarrow> 'f \<Rightarrow> page_size \<Rightarrow> paddr \<Rightarrow>
    nat \<Rightarrow> ('s, 'h) cstate \<Rightarrow> unit res \<times> ('s, 'h) cstate" where
  "cursor_install E rg p flags sz cur level cw =
     (case cw of (c, w) \<Rightarrow>
        let v = rng_start rg;
            idx = index_at (e_meta E) level v;
            existing = read_entry E (mem w) cur idx in
        if is_present (e_pte E) existing then (Err AlreadyMapped, (c\<lparr>last_vaddr := None\<rparr>, w))
        else
          (Ok (), (queue_flush_range E rg (c\<lparr>last_vaddr := Some v\<rparr>),
                   store E cur idx (new_leaf (e_pte E) p flags sz) w)))"

definition map_leaf_sized_at_level :: "('f, 's, 'h) env \<Rightarrow> paddr \<Rightarrow> addr_range \<Rightarrow> paddr \<Rightarrow> 'f \<Rightarrow>
    page_size \<Rightarrow> nat \<Rightarrow> ('s, 'h) cstate \<Rightarrow> unit res \<times> ('s, 'h) cstate" where
  "map_leaf_sized_at_level E root rg p flags sz target cw =
     (case cw of (c, w) \<Rightarrow>
        let v = rng_start rg;
            reusable = reusable_level (e_meta E) c v;
            c = invalidate_below reusable c in
        bind_st (cached_descend (descent c) (max reusable target) (LEVELS (e_meta E)) root, (c, w))
          (\<lambda>(level, cur) cw.
        bind_st (cursor_descend E target v level cur cw) (\<lambda>(cur, level) cw.
        cursor_install E rg p flags sz cur level cw)))"

definition map_leaf_sized :: "('f, 's, 'h) env \<Rightarrow> paddr \<Rightarrow> addr_range \<Rightarrow> paddr \<Rightarrow> 'f \<Rightarrow>
    page_size \<Rightarrow> ('s, 'h) cstate \<Rightarrow> unit res \<times> ('s, 'h) cstate" where
  "map_leaf_sized E root rg p flags sz cw =
     bind_st (ok_or (size_to_level (e_meta E) sz) UnsupportedSize, cw) (\<lambda>target cw.
     map_leaf_sized_at_level E root rg p flags sz target cw)"

definition map_leaf :: "('f, 's, 'h) env \<Rightarrow> paddr \<Rightarrow> addr_range \<Rightarrow> paddr \<Rightarrow> 'f \<Rightarrow>
    ('s, 'h) cstate \<Rightarrow> unit res \<times> ('s, 'h) cstate" where
  "map_leaf E root rg p flags cw =
     bind_st (check_leaf_range (e_addr E) (e_meta E) rg, cw) (\<lambda>sz cw.
     bind_st (check_paddr (e_meta E) p, cw) (\<lambda>_ cw.
     if \<not> is_aligned sz (rng_start rg) \<or> \<not> is_aligned sz p then (Err NotAligned, cw)
     else map_leaf_sized E root rg p flags sz cw))"

section \<open>Mapping a contiguous range\<close>

lemma best_leaf_size_from_fits:
  "best_leaf_size_from M szs v p remaining = Ok sz \<Longrightarrow> bytes sz \<le> remaining"
  by (induction szs) (auto split: if_splits)

lemma best_leaf_size_fits: "best_leaf_size M v p remaining = Ok sz \<Longrightarrow> bytes sz \<le> remaining"
  unfolding best_leaf_size_def by (rule best_leaf_size_from_fits)

lemma offset_step_decreases:
  assumes "offset < tot" "bytes sz \<le> tot - offset"
  shows "unat tot - unat (offset + bytes sz) < unat tot - unat offset"
    and "unat (offset + bytes sz) = unat offset + unat (bytes sz)"
proof -
  have d: "unat (tot - offset) = unat tot - unat offset"
    using assms(1) by (simp add: unat_sub_if_size word_less_nat_alt less_imp_le)
  then have le: "unat (bytes sz) \<le> unat tot - unat offset"
    using assms(2) by (simp add: word_le_nat_alt)
  have lt: "unat offset < unat tot" using assms(1) by (simp add: word_less_nat_alt)
  have pos: "0 < unat (bytes sz)" by (simp add: unat_bytes)
  have "unat offset + unat (bytes sz) < 2 ^ 64"
    using le lt unat_u64_less [of tot] by simp
  then show eq: "unat (offset + bytes sz) = unat offset + unat (bytes sz)"
    by (simp add: unat_word_ariths)
  show "unat tot - unat (offset + bytes sz) < unat tot - unat offset"
    using eq le lt pos by simp
qed

text \<open>
  The size of the next leaf: the fixed granule when it still fits, otherwise the largest
  legal leaf at this position.
\<close>

definition next_leaf_size :: "meta_impl \<Rightarrow> page_size option \<Rightarrow> vaddr \<Rightarrow> paddr \<Rightarrow> usize \<Rightarrow>
    page_size res" where
  "next_leaf_size M fixed v p remaining =
     (case fixed of
        Some sz \<Rightarrow> if remaining < bytes sz then Err InvalidMappingShape else Ok sz
      | None \<Rightarrow> best_leaf_size M v p remaining)"

lemma next_leaf_size_fits: "next_leaf_size M fixed v p remaining = Ok sz \<Longrightarrow> bytes sz \<le> remaining"
  by (auto simp: next_leaf_size_def best_leaf_size_fits not_less split: option.splits if_splits)

text \<open>
  The loop \<^verbatim>\<open>while offset < tot\<close>. The sum \<^verbatim>\<open>offset + size.bytes()\<close> cannot overflow, because the
  size fits in what remains (\<open>offset_step_decreases\<close>).
\<close>

function map_contiguous_loop :: "('f, 's, 'h) env \<Rightarrow> paddr \<Rightarrow> addr_range \<Rightarrow> addr_range \<Rightarrow> 'f \<Rightarrow>
    page_size option \<Rightarrow> usize \<Rightarrow> usize \<Rightarrow> ('s, 'h) cstate \<Rightarrow> unit res \<times> ('s, 'h) cstate" where
  "map_contiguous_loop E root rg phys flags fixed tot offset cw =
     (if offset < tot then
        (case offset_vaddr (rng_start rg) offset of
           Err e \<Rightarrow> (Err e, cw) | Panic \<Rightarrow> (Panic, cw)
         | Ok v \<Rightarrow>
        (case offset_paddr (rng_start phys) offset of
           Err e \<Rightarrow> (Err e, cw) | Panic \<Rightarrow> (Panic, cw)
         | Ok p \<Rightarrow>
        (case next_leaf_size (e_meta E) fixed v p (tot - offset) of
           Err e \<Rightarrow> (Err e, cw) | Panic \<Rightarrow> (Panic, cw)
         | Ok sz \<Rightarrow>
        (case range_try_from_start_size (e_addr E) v (bytes sz) of
           None \<Rightarrow> (Err AddressOutOfRange, cw)
         | Some leaf \<Rightarrow>
        (case map_leaf E root leaf p flags cw of
           (Err e, cw) \<Rightarrow> (Err e, cw) | (Panic, cw) \<Rightarrow> (Panic, cw)
         | (Ok _, cw) \<Rightarrow>
             map_contiguous_loop E root rg phys flags fixed tot (offset + bytes sz) cw)))))
      else (Ok (), cw))"
  by pat_completeness auto
termination
proof (relation "measure (\<lambda>(_, _, _, _, _, _, tot, offset, _). unat tot - unat offset)",
    goal_cases)
  case 1
  show ?case by simp
next
  case (2 E root rg phys flags fixed tot offset cw v p sz leaf r cw')
  then show ?case
    by (simp add: offset_step_decreases(1) next_leaf_size_fits)
qed

declare map_contiguous_loop.simps [simp del]

definition map_contiguous :: "('f, 's, 'h) env \<Rightarrow> paddr \<Rightarrow> addr_range \<Rightarrow> addr_range \<Rightarrow> 'f \<Rightarrow>
    page_size option \<Rightarrow> ('s, 'h) cstate \<Rightarrow> unit res \<times> ('s, 'h) cstate" where
  "map_contiguous E root rg phys flags fixed cw =
     (let L = e_addr E in
      if range_is_empty L rg \<or> range_is_empty L phys \<or> range_size L rg \<noteq> range_size L phys
      then (Err InvalidMappingShape, cw)
      else
        bind_st (exact_leaf_size L (e_meta E) rg (rng_start phys) fixed, cw) (\<lambda>exact cw.
        case exact of
          Some (sz, target) \<Rightarrow>
            map_leaf_sized_at_level E root rg (rng_start phys) flags sz target cw
        | None \<Rightarrow> map_contiguous_loop E root rg phys flags fixed (range_size L rg) 0 cw))"

section \<open>Mapping a scatter list\<close>

definition check_scatter_segment :: "addr_lib \<Rightarrow> addr_range \<Rightarrow> page_size \<Rightarrow> unit res" where
  "check_scatter_segment L phys granule =
     (if range_is_empty L phys \<or> \<not> is_aligned granule (rng_start phys) \<or>
         \<not> is_aligned granule (range_size L phys)
      then Err InvalidMappingShape else Ok ())"

fun scatter_total :: "addr_lib \<Rightarrow> addr_range \<Rightarrow> page_size \<Rightarrow> addr_range list \<Rightarrow> usize \<Rightarrow>
    usize res" where
  "scatter_total L rg granule [] tot = Ok tot"
| "scatter_total L rg granule (phys # rest) tot =
     bind_res (check_scatter_segment L phys granule) (\<lambda>_.
     case checked_add tot (range_size L phys) of
       None \<Rightarrow> Err InvalidMappingShape
     | Some fin \<Rightarrow>
         if range_size L rg < fin then Err InvalidMappingShape
         else scatter_total L rg granule rest fin)"

fun map_segments :: "('f, 's, 'h) env \<Rightarrow> paddr \<Rightarrow> addr_range \<Rightarrow> 'f \<Rightarrow> page_size \<Rightarrow>
    addr_range list \<Rightarrow> usize \<Rightarrow> ('s, 'h) cstate \<Rightarrow> unit res \<times> ('s, 'h) cstate" where
  "map_segments E root rg flags granule [] offset cw = (Ok (), cw)"
| "map_segments E root rg flags granule (phys # rest) offset cw =
     bind_st (offset_vaddr (rng_start rg) offset, cw) (\<lambda>v cw.
     bind_st (ok_or (range_try_from_start_size (e_addr E) v (range_size (e_addr E) phys))
                AddressOutOfRange, cw) (\<lambda>vrange cw.
     bind_st (map_contiguous E root vrange phys flags (Some granule) cw) (\<lambda>_ cw.
     case checked_add offset (range_size (e_addr E) phys) of
       None \<Rightarrow> (Panic, cw)
     | Some offset' \<Rightarrow> map_segments E root rg flags granule rest offset' cw)))"

definition map_scattered :: "('f, 's, 'h) env \<Rightarrow> paddr \<Rightarrow> addr_range \<Rightarrow> map_backing \<Rightarrow> 'f \<Rightarrow>
    page_size \<Rightarrow> ('s, 'h) cstate \<Rightarrow> unit res \<times> ('s, 'h) cstate" where
  "map_scattered E root rg backing flags granule cw =
     (let L = e_addr E in
      if range_is_empty L rg \<or> \<not> is_aligned granule (range_size L rg)
      then (Err InvalidMappingShape, cw)
      else if size_to_level (e_meta E) granule = None then (Err UnsupportedSize, cw)
      else
        (case backing of
           ContiguousBacking phys \<Rightarrow>
             bind_st (check_scatter_segment L phys granule, cw) (\<lambda>_ cw.
             if range_size L phys \<noteq> range_size L rg then (Err InvalidMappingShape, cw)
             else map_contiguous E root rg phys flags (Some granule) cw)
         | ScatteredBacking ranges \<Rightarrow>
             if ranges = [] then (Err InvalidMappingShape, cw)
             else
               bind_st (scatter_total L rg granule ranges 0, cw) (\<lambda>tot cw.
               if tot \<noteq> range_size L rg then (Err InvalidMappingShape, cw)
               else map_segments E root rg flags granule ranges 0 cw)))"

section \<open>The cursor's operations\<close>

definition cursor_map :: "('f, 's, 'h) env \<Rightarrow> paddr \<Rightarrow> addr_range \<Rightarrow> backing_source \<Rightarrow>
    'f mapping_flags \<Rightarrow> ('s, 'h) cstate \<Rightarrow> unit res \<times> ('s, 'h) cstate" where
  "cursor_map E root rg backing flags cw =
     bind_st (into_map_backing (e_addr E) backing (range_size (e_addr E) rg), cw) (\<lambda>backing cw.
     case (mf_contiguity flags, backing) of
       (Contiguous, ContiguousBacking phys) \<Rightarrow>
         map_contiguous E root rg phys (mf_leaf flags) None cw
     | (Contiguous, ScatteredBacking _) \<Rightarrow> (Err InvalidMappingShape, cw)
     | (Scattered granule, backing) \<Rightarrow>
         map_scattered E root rg backing (mf_leaf flags) granule cw)"

definition cursor_unmap :: "('f, 's, 'h) env \<Rightarrow> paddr \<Rightarrow> addr_range \<Rightarrow> ('s, 'h) cstate \<Rightarrow>
    'f mapping res \<times> ('s, 'h) cstate" where
  "cursor_unmap E root rg cw =
     (case cw of (c, w) \<Rightarrow>
        let c = (invalidate_below (LEVELS (e_meta E)) c)\<lparr>last_vaddr := None\<rparr> in
        case unmap_no_flush E root rg w of
          (Ok m, w) \<Rightarrow> (Ok m, (queue_flush_range E (m_range m) c, w))
        | (Err e, w) \<Rightarrow> (Err e, (c, w))
        | (Panic, w) \<Rightarrow> (Panic, (c, w)))"

definition cursor_protect :: "('f, 's, 'h) env \<Rightarrow> paddr \<Rightarrow> addr_range \<Rightarrow> 'f \<Rightarrow> ('s, 'h) cstate \<Rightarrow>
    'f mapping res \<times> ('s, 'h) cstate" where
  "cursor_protect E root rg flags cw =
     (case cw of (c, w) \<Rightarrow>
        case protect_no_flush E root rg flags w of
          (Ok m, w) \<Rightarrow> (Ok m, (queue_flush_range E (m_range m) c, w))
        | (Err e, w) \<Rightarrow> (Err e, (c, w))
        | (Panic, w) \<Rightarrow> (Panic, (c, w)))"

definition cursor_remap :: "('f, 's, 'h) env \<Rightarrow> paddr \<Rightarrow> addr_range \<Rightarrow> paddr \<Rightarrow> 'f \<Rightarrow>
    ('s, 'h) cstate \<Rightarrow> 'f mapping res \<times> ('s, 'h) cstate" where
  "cursor_remap E root rg p flags cw =
     (case cw of (c, w) \<Rightarrow>
        case remap_no_flush E root rg p flags w of
          (Ok m, w) \<Rightarrow> (Ok m, (queue_flush_range E (m_range m) c, w))
        | (Err e, w) \<Rightarrow> (Err e, (c, w))
        | (Panic, w) \<Rightarrow> (Panic, (c, w)))"

text \<open>
  A cursor that goes out of scope drains its queue. \<^verbatim>\<open>finish\<close> drains it and then lets the cursor go,
  which drains again and finds the queue empty.
\<close>

definition cursor_drop :: "('f, 's, 'h) env \<Rightarrow> ('s, 'h) cstate \<Rightarrow> ('s, 'h) world" where
  "cursor_drop E cw = (case cw of (c, w) \<Rightarrow> snd (flush_pending E c w))"

definition cursor_finish :: "('f, 's, 'h) env \<Rightarrow> ('s, 'h) cstate \<Rightarrow> ('s, 'h) world" where
  "cursor_finish E cw = (case cw of (c, w) \<Rightarrow> cursor_drop E (flush_pending E c w))"

lemma flush_pending_again: "snd (flush_pending E (fst (flush_pending E c w)) u) = u"
  by (simp add: flush_pending_def Let_def pending_count_def)

lemma cursor_finish_drop: "cursor_finish E cw = cursor_drop E cw"
  by (simp add: cursor_finish_def cursor_drop_def flush_pending_again case_prod_beta)

lemmas cursor_drain = cursor_finish_drop cursor_drop_def

section \<open>\<open>PageTableWalker::map\<close>\<close>

text \<open>
  A contiguous request of exactly one leaf takes the direct path; everything else goes
  through a fresh cursor, which is finished on success and dropped on an error, so that it is
  drained either way. A panic aborts before anything is drained.
\<close>

definition map_via_cursor :: "('f, 's, 'h) env \<Rightarrow> paddr \<Rightarrow> addr_range \<Rightarrow> map_backing \<Rightarrow>
    'f mapping_flags \<Rightarrow> ('s, 'h) world \<Rightarrow> unit res \<times> ('s, 'h) world" where
  "map_via_cursor E root rg backing flags w =
     (case cursor_map E root rg (FromBacking backing) flags (cursor_new, w) of
        (Panic, cw) \<Rightarrow> (Panic, snd cw)
      | (Err e, cw) \<Rightarrow> (Err e, cursor_drop E cw)
      | (Ok _, cw) \<Rightarrow> (Ok (), cursor_finish E cw))"

definition walker_map :: "('f, 's, 'h) env \<Rightarrow> paddr \<Rightarrow> addr_range \<Rightarrow> backing_source \<Rightarrow>
    'f mapping_flags \<Rightarrow> ('s, 'h) world \<Rightarrow> unit res \<times> ('s, 'h) world" where
  "walker_map E root rg backing flags w =
     bind_st (into_map_backing (e_addr E) backing (range_size (e_addr E) rg), w) (\<lambda>backing w.
     case (mf_contiguity flags, backing) of
       (Contiguous, ContiguousBacking phys) \<Rightarrow>
         if range_is_empty (e_addr E) phys \<or>
            range_size (e_addr E) rg \<noteq> range_size (e_addr E) phys
         then (Err InvalidMappingShape, w)
         else
           bind_st (exact_leaf_size (e_addr E) (e_meta E) rg (rng_start phys) None, w)
             (\<lambda>exact w.
           case exact of
             Some (sz, target) \<Rightarrow>
               bind_st (map_leaf_direct_sized_no_flush E root rg (rng_start phys)
                          (mf_leaf flags) sz target w) (\<lambda>_ w.
               (Ok (), flush_leaf_range E rg w))
           | None \<Rightarrow> map_via_cursor E root rg backing flags w)
     | _ \<Rightarrow> map_via_cursor E root rg backing flags w)"

end
