(* ===== verification/CursorSpec.thy ===== *)
theory CursorSpec
  imports DropSpec Cursor
begin

text \<open>
  The descent cache of the cursor is transparent: mapping one leaf through the cache has the
  result and the effect of the direct path from the root. The invariant is that every frame the
  cache holds is the table that the walk of the last mapped address goes through.
\<close>

section \<open>The cache invariant\<close>

definition path_cache :: "('f, 's, 'h) env \<Rightarrow> paddr \<Rightarrow> vaddr \<Rightarrow> nat \<Rightarrow> paddr option list \<Rightarrow>
    ('s, 'h) world \<Rightarrow> bool" where
  "path_cache E root v low d w \<longleftrightarrow> length d = MAX_LEVELS \<and>
     (\<forall>k f. low \<le> k \<and> 1 \<le> k \<and> k < LEVELS (e_meta E) \<and> d ! (k - 1) = Some f \<longrightarrow>
        root_table_at E w root v k = Some f)"

definition cache_ok :: "('f, 's, 'h) env \<Rightarrow> paddr \<Rightarrow> 'a cursor_scheme \<Rightarrow> ('s, 'h) world \<Rightarrow> bool" where
  "cache_ok E root c w \<longleftrightarrow> length (descent c) = MAX_LEVELS \<and>
     (\<forall>prev. last_vaddr c = Some prev \<longrightarrow> path_cache E root prev 1 (descent c) w)"

lemma cache_ok_new: "cache_ok E root cursor_new w"
  by (simp add: cache_ok_def cursor_new_def)

lemma cache_ok_dropped: "length (descent c) = MAX_LEVELS \<Longrightarrow> last_vaddr c = None \<Longrightarrow> cache_ok E root c w"
  by (simp add: cache_ok_def)

lemma queue_flush_range_cursor:
  "descent (queue_flush_range E rg c) = descent c" "last_vaddr (queue_flush_range E rg c) = last_vaddr c"
  by (simp_all add: queue_flush_range_def escalate_def Let_def split: option.split)

text \<open>Everything the queue operations read of a cursor.\<close>

definition same_queue :: "'a flush_queue_scheme \<Rightarrow> 'a flush_queue_scheme \<Rightarrow> bool" where
  "same_queue c c' \<longleftrightarrow>
     pending_flushes c' = pending_flushes c \<and> needs_full_flush c' = needs_full_flush c"

lemma same_queue_simps [simp]:
  "same_queue c c" "same_queue c (c\<lparr>descent := d\<rparr>)" "same_queue c (c\<lparr>last_vaddr := x\<rparr>)"
  "same_queue c (invalidate_below k c)"
  by (simp_all add: same_queue_def invalidate_below_def Let_def)

lemma same_queue_trans: "same_queue a b \<Longrightarrow> same_queue b c \<Longrightarrow> same_queue a c"
  by (simp add: same_queue_def)

lemma same_queue_flush_range:
  "same_queue c c' \<Longrightarrow> same_queue (queue_flush_range E rg c) (queue_flush_range E rg c')"
  by (simp add: queue_flush_range_def escalate_def same_queue_def Let_def split: option.split)

section \<open>Reusing a path\<close>

lemma reusable_from_same:
  assumes "reusable_from M prev v n = r"
  shows "1 \<le> r \<and> (\<forall>j. r < j \<and> j \<le> n \<longrightarrow> index_at M j prev = index_at M j v)"
  using assms
proof (induction n)
  case 0
  then show ?case by simp
next
  case (Suc n)
  show ?case
  proof (cases "drop_bit (level_shift M (Suc n)) prev AND index_mask M (Suc n) =
      drop_bit (level_shift M (Suc n)) v AND index_mask M (Suc n)")
    case True
    then have "index_at M (Suc n) prev = index_at M (Suc n) v" by (simp add: index_at_def)
    moreover have "reusable_from M prev v n = r" using Suc.prems True by (simp add: Let_def)
    ultimately show ?thesis using Suc.IH by (auto simp: le_Suc_eq)
  next
    case False
    then show ?thesis using Suc.prems by (auto simp: Let_def)
  qed
qed

lemma nth_invalidate_below:
  assumes "length (descent c) = MAX_LEVELS" "1 \<le> k" "k < MAX_LEVELS"
  shows "descent (invalidate_below lv c) ! (k - 1) = (if k < lv then None else descent c ! (k - 1))"
    "length (descent (invalidate_below lv c)) = MAX_LEVELS"
  using assms by (auto simp: invalidate_below_def Let_def nth_append)

context walker
begin

lemma table_at_path:
  assumes "\<forall>j. k < j \<and> j \<le> l \<longrightarrow> index_at (e_meta E) j v = index_at (e_meta E) j v'" "k \<le> l"
  shows "table_at E m l r v' k = table_at E m l r v k"
  using assms
proof (induction l arbitrary: r)
  case 0
  then show ?case by simp
next
  case (Suc l)
  show ?case
  proof (cases "k = Suc l")
    case False
    then have "k \<le> l" using Suc.prems(2) by simp
    moreover have "index_at (e_meta E) (Suc l) v = index_at (e_meta E) (Suc l) v'"
      using False Suc.prems by simp
    ultimately show ?thesis
      using Suc.IH Suc.prems(1) by (simp split: option.split)
  qed simp
qed

text \<open>The path below an absent entry holds no table.\<close>

lemma absent_above:
  assumes "root_table_at E w root v t = Some cur"
    and "\<not> is_present (e_pte E) (read_entry E (mem w) cur (index_at (e_meta E) t v))"
    and "root_table_at E w root v k = Some f"
  shows "t \<le> k"
proof (rule ccontr)
  assume "\<not> t \<le> k"
  moreover have "t \<le> LEVELS (e_meta E)" using table_at_level [OF assms(1)] by simp
  ultimately obtain g h where "root_table_at E w root v t = Some g"
    "child E t (read_entry E (mem w) g (index_at (e_meta E) t v)) = Some h"
    using table_at_up [OF assms(3)] by (metis not_le)
  then show False using assms(1,2) by (simp add: child_def)
qed

lemma descend_skip:
  assumes "table_at E (mem w) l cur v k = Some f" "target \<le> k"
  shows "map_descend E target v l cur w = map_descend E target v k f w"
  using assms
proof (induction l arbitrary: cur)
  case 0
  then show ?case by simp
next
  case (Suc l)
  show ?case
  proof (cases "k = Suc l")
    case True
    then show ?thesis using Suc.prems(1) by simp
  next
    case False
    let ?e = "read_entry E (mem w) cur (index_at (e_meta E) (Suc l) v)"
    obtain h where h: "child E (Suc l) ?e = Some h" and ta: "table_at E (mem w) l h v k = Some f"
      using False Suc.prems(1) table_at_child by blast
    have "target < Suc l" using table_at_level [OF ta] Suc.prems(2) by simp
    moreover have "is_present (e_pte E) ?e" "entry_kind (e_pte E) ?e (Suc l) = Table"
      "h = pte_paddr (e_pte E) ?e"
      using h by (auto simp: child_def split: if_splits)
    ultimately show ?thesis
      using Suc.IH [OF ta Suc.prems(2)] by (simp add: Let_def entry_is_leaf_def)
  qed
qed

lemma cached_descend_spec:
  assumes "path_cache E root v stop d w" "root_table_at E w root v l = Some cur"
    and "1 \<le> stop" "stop \<le> l"
  obtains k f where "cached_descend d stop l cur = Ok (k, f)" "stop \<le> k"
    "root_table_at E w root v k = Some f"
  using assms(2,4)
proof (induction l arbitrary: cur thesis)
  case 0
  then show ?case using assms(3) by simp
next
  case (Suc l)
  show ?case
  proof (cases "stop < Suc l")
    case False
    then show ?thesis using Suc.prems by simp
  next
    case True
    then have sl: "stop \<le> l" "1 \<le> l" using assms(3) by simp_all
    have lv: "l < LEVELS (e_meta E)" using table_at_level [OF Suc.prems(2)] by simp
    have len: "\<not> length d \<le> l - 1"
      using lv levels_max assms(1) by (simp add: path_cache_def)
    show ?thesis
    proof (cases "d ! (l - 1)")
      case None
      then show ?thesis using Suc.prems True len by simp
    next
      case (Some f)
      then have "root_table_at E w root v l = Some f"
        using assms(1) sl lv by (simp add: path_cache_def)
      from Suc.IH [OF _ this sl(1)] obtain k f' where
        "cached_descend d stop l f = Ok (k, f')" "stop \<le> k" "root_table_at E w root v k = Some f'" .
      then show ?thesis using Suc.prems(1) Some True len by simp
    qed
  qed
qed

section \<open>Mapping one leaf through the cache\<close>

lemma path_cache_update:
  assumes "path_cache E root v low d w" "root_table_at E w' root v l = Some f"
    and "\<And>k g. root_table_at E w root v k = Some g \<Longrightarrow> root_table_at E w' root v k = Some g"
  shows "path_cache E root v low (d[l - 1 := Some f]) w'"
proof -
  have "l \<le> MAX_LEVELS" "1 \<le> l" using table_at_level [OF assms(2)] levels_max by simp_all
  moreover have "1 \<le> k \<Longrightarrow> l - 1 = k - 1 \<Longrightarrow> k = l" for k using \<open>1 \<le> l\<close> by simp
  ultimately show ?thesis
    using assms unfolding path_cache_def by (auto simp: nth_list_update split: if_splits)
qed

lemma path_cache_mono:
  assumes "path_cache E root v low d w"
    and "\<And>k g. root_table_at E w root v k = Some g \<Longrightarrow> root_table_at E w' root v k = Some g"
  shows "path_cache E root v low d w'"
  using assms unfolding path_cache_def by blast

lemma grow_path:
  assumes ok: "tree_ok E live root w"
    and ta: "root_table_at E w root v (Suc (Suc l)) = Some cur"
    and absent: "\<not> is_present (e_pte E) (read_entry E (mem w) cur (index_at (e_meta E) (Suc (Suc l)) v))"
    and hs: "host_step E live w w1"
    and k: "root_table_at E w root v k = Some f"
    and w2: "w2 = store E cur (index_at (e_meta E) (Suc (Suc l)) v) e w1"
  shows "root_table_at E w2 root v k = Some f"
proof -
  let ?t = "Suc (Suc l)"
  have ok1: "tree_ok E live root w1" by (rule host_step_tree_ok [OF ok hs])
  have ta1: "root_table_at E w1 root v ?t = Some cur"
    using ta host_step_table_at [OF ok hs] by simp
  note cf = table_frame_ok [OF ok1 ta1]
  have upd: "updates E (set (root_tables E w1 root)) cur (index_at (e_meta E) ?t v) e (mem w1) (mem w2)"
    unfolding w2 store_def using store_updates [OF _ cf(1,6)] tree_okD(2) [OF ok1] by simp
  have "?t \<le> k" "k \<le> LEVELS (e_meta E)"
    using absent_above [OF ta absent k] table_at_level [OF k] by simp_all
  from table_at_update_up [OF tree_okD(1) [OF ok1] ta1 order.refl upd this]
  show ?thesis using k host_step_table_at [OF ok hs] by simp
qed

lemma store_path:
  assumes ok: "tree_ok E live root w" and ta: "root_table_at E w root v t = Some cur"
    and k: "root_table_at E w root v k = Some f" "t \<le> k"
  shows "root_table_at E (store E cur (index_at (e_meta E) t v) e w) root v k = Some f"
proof -
  note cf = table_frame_ok [OF ok ta]
  have upd: "updates E (set (root_tables E w root)) cur (index_at (e_meta E) t v) e (mem w)
      (mem (store E cur (index_at (e_meta E) t v) e w))"
    unfolding store_def using store_updates [OF _ cf(1,6)] tree_okD(2) [OF ok] by simp
  show ?thesis
    using table_at_update_up [OF tree_okD(1) [OF ok] ta order.refl upd k(2)] k(1)
      table_at_level [OF k(1)] by simp
qed

lemma cursor_descend_spec:
  assumes "tree_ok E live root w" "root_table_at E w root v l = Some cur" "1 \<le> target" "target \<le> l"
    and "path_cache E root v 1 (descent c) w"
    and "cursor_descend E target v l cur (c, w) = (res, (c', w'))"
  shows "map_descend E target v l cur w = (res, w') \<and> same_queue c c' \<and>
    length (descent c') = MAX_LEVELS \<and>
    (\<forall>ck. res = Ok ck \<longrightarrow> path_cache E root v 1 (descent c') w') \<and>
    (\<forall>x. res = Err x \<longrightarrow>
       last_vaddr c' = None \<or> x = InvalidEntryKind \<and> root_view E w root v = Err InvalidEntryKind)"
  using assms
proof (induction l arbitrary: cur w c)
  case 0
  then show ?case by simp
next
  case (Suc l)
  let ?M = "e_meta E" and ?P = "e_pte E"
  let ?i = "index_at ?M (Suc l) v"
  let ?e = "read_entry E (mem w) cur ?i"
  have dl: "length (descent c) = MAX_LEVELS" using Suc.prems(5) by (simp add: path_cache_def)
  show ?case
  proof (cases "target < Suc l")
    case False
    then have "target = Suc l" using Suc.prems(4) by simp
    then show ?thesis using Suc.prems dl by auto
  next
    case True
    then obtain l' where l': "l = Suc l'" using Suc.prems(3) by (cases l) auto
    have tl: "target \<le> l" using True by simp
    have "l < LEVELS ?M" using table_at_level [OF Suc.prems(2)] by simp
    then have len: "\<not> length (descent c) \<le> l - 1" using dl levels_max by simp
    show ?thesis
    proof (cases "is_present ?P ?e")
      case pres: True
      show ?thesis
      proof (cases "entry_kind ?P ?e (Suc l)")
        case Table
        let ?c = "c\<lparr>descent := (descent c)[l - 1 := Some (pte_paddr ?P ?e)]\<rparr>"
        have d: "cursor_descend E target v l (pte_paddr ?P ?e) (?c, w) = (res, (c', w'))"
          using Suc.prems(6) True pres Table len by (simp add: Let_def entry_is_leaf_def)
        have ta: "root_table_at E w root v l = Some (pte_paddr ?P ?e)"
          using table_step Suc.prems(2) pres Table unfolding l' by blast
        have "path_cache E root v 1 (descent ?c) w"
          using path_cache_update [OF Suc.prems(5) ta] by simp
        from Suc.IH [OF Suc.prems(1) ta Suc.prems(3) tl this d] show ?thesis
          using True pres Table same_queue_trans [of c ?c c'] by (simp add: Let_def entry_is_leaf_def)
      next
        case Leaf
        then show ?thesis using Suc.prems True pres dl by (auto simp: Let_def entry_is_leaf_def)
      next
        case Invalid
        have "root_view E w root v = Err InvalidEntryKind"
          using view_at [OF Suc.prems(2) order.refl] pres Invalid
          by (simp add: entry_view_def entry_is_leaf_def)
        then show ?thesis using Suc.prems True pres Invalid dl by (auto simp: Let_def entry_is_leaf_def)
      qed
    next
      case absent: False
      obtain ra w1 where a: "alloc_table_frame E w = (ra, w1)" by fastforce
      note al = alloc_table_frame_spec [OF a]
      show ?thesis
      proof (cases ra)
        case (Ok g)
        let ?w2 = "store E cur ?i (new_table ?P g (Suc l)) w1"
        let ?c = "c\<lparr>descent := (descent c)[l - 1 := Some g]\<rparr>"
        have d: "cursor_descend E target v l g (?c, ?w2) = (res, (c', w'))"
          using Suc.prems(6) True absent a Ok len by (simp add: Let_def)
        have ta: "root_table_at E w root v (Suc (Suc l')) = Some cur"
          using Suc.prems(2) l' by simp
        have ab: "\<not> is_present ?P (read_entry E (mem w) cur (index_at ?M (Suc (Suc l')) v))"
          using absent l' by simp
        note new = al(3) [OF Ok, THEN conjunct1] al(3) [OF Ok, THEN conjunct2, THEN conjunct1]
          al(3) [OF Ok, THEN conjunct2, THEN conjunct2, THEN conjunct1]
          al(3) [OF Ok, THEN conjunct2, THEN conjunct2, THEN conjunct2, THEN conjunct1]
        note grow = grow_step [OF Suc.prems(1) ta ab al(2) new refl, folded l']
        have gr: "tree_ok E live root ?w2" "root_table_at E ?w2 root v l = Some g"
          and vw: "root_view E ?w2 root v = root_view E w root v" by (rule grow)+
        have "path_cache E root v 1 (descent ?c) ?w2"
          using path_cache_update [OF Suc.prems(5) gr(2)]
            grow_path [OF Suc.prems(1) ta ab al(2) _ refl, folded l'] by simp
        from Suc.IH [OF gr Suc.prems(3) tl this d] show ?thesis
          using True absent a Ok same_queue_trans [of c ?c c'] by (simp add: Let_def vw)
      next
        case (Err x)
        then show ?thesis using Suc.prems(6) True absent a dl by (auto simp: Let_def)
      next
        case Panic
        then show ?thesis using al(1) by simp
      qed
    qed
  qed
qed

lemma map_leaf_at_level_spec:
  assumes ok: "tree_ok E live root w" and cache: "cache_ok E root c w"
    and t: "1 \<le> target" "target \<le> LEVELS (e_meta E)"
    and run: "map_leaf_sized_at_level E root rg p flags sz target (c, w) = (res, (c', w'))"
  shows "map_leaf_direct_sized_no_flush E root rg p flags sz target w = (res, w')"
    and "res = Ok () \<Longrightarrow> cache_ok E root c' w' \<and> same_queue (queue_flush_range E rg c) c'"
    and "res = Err x \<Longrightarrow> same_queue c c' \<and>
      (cache_ok E root c' w' \<or> root_view E w root (rng_start rg) = Err InvalidEntryKind)"
proof -
  let ?v = "rng_start rg" and ?M = "e_meta E"
  define r where "r = reusable_level ?M c ?v"
  let ?c = "invalidate_below r c"
  have dl: "length (descent c) = MAX_LEVELS" using cache by (simp add: cache_ok_def)
  note inv = nth_invalidate_below [OF dl]
  have r1: "1 \<le> r"
    using reusable_from_same levels_pos unfolding r_def reusable_level_def
    by (cases "last_vaddr c") auto
  have pc: "path_cache E root ?v 1 (descent ?c) w"
    unfolding path_cache_def
  proof (intro conjI allI impI)
    show "length (descent ?c) = MAX_LEVELS" using inv(2) [of 1] by (simp add: MAX_LEVELS_def)
  next
    fix k f assume k: "1 \<le> k \<and> 1 \<le> k \<and> k < LEVELS ?M \<and> descent ?c ! (k - 1) = Some f"
    then have rk: "r \<le> k" and f: "descent c ! (k - 1) = Some f"
      using inv(1) [of k r] levels_max by (auto split: if_splits)
    then obtain prev where prev: "last_vaddr c = Some prev" "r = reusable_from ?M prev ?v (LEVELS ?M)"
      using k unfolding r_def reusable_level_def by (cases "last_vaddr c") auto
    have "root_table_at E w root prev k = Some f"
      using cache prev(1) k f by (simp add: cache_ok_def path_cache_def)
    moreover have "root_table_at E w root ?v k = root_table_at E w root prev k"
      using reusable_from_same [OF prev(2) [symmetric]] rk k by (intro table_at_path) auto
    ultimately show "root_table_at E w root ?v k = Some f" by simp
  qed
  have rl: "r \<le> LEVELS ?M"
  proof (cases "last_vaddr c")
    case None
    then show ?thesis by (simp add: r_def reusable_level_def)
  next
    case (Some prev)
    have "reusable_from ?M prev ?v n \<le> max 1 n" for n
      by (induction n) (auto simp: Let_def max_def split: if_splits)
    then show ?thesis
      using Some levels_pos by (metis r_def reusable_level_def option.case(2) max.absorb2)
  qed
  have "path_cache E root ?v (max r target) (descent ?c) w"
    using pc t(1) unfolding path_cache_def by auto
  then obtain k f where cd: "cached_descend (descent ?c) (max r target) (LEVELS ?M) root = Ok (k, f)"
    and k: "max r target \<le> k" "root_table_at E w root ?v k = Some f"
    by (rule cached_descend_spec [OF _ root_table]) (use t rl r1 in auto)
  have skip: "map_descend E target ?v (LEVELS ?M) root w = map_descend E target ?v k f w"
    using descend_skip [OF k(2)] k(1) by simp
  obtain rd c1 w1 where d: "cursor_descend E target ?v k f (?c, w) = (rd, (c1, w1))"
    by (metis prod_cases3)
  have tk: "target \<le> k" using k(1) by simp
  note ds = cursor_descend_spec [OF ok k(2) t(1) tk pc d]
  have md: "map_descend E target ?v (LEVELS ?M) root w = (rd, w1)" using ds skip by simp
  note ms = map_descend_spec [OF ok root_table t md]
  have sq1: "same_queue c c1" using ds same_queue_trans [OF same_queue_simps(4)] by blast
  have *: "map_leaf_direct_sized_no_flush E root rg p flags sz target w = (res, w') \<and>
    (res = Ok () \<longrightarrow> cache_ok E root c' w' \<and> same_queue (queue_flush_range E rg c) c') \<and>
    (\<forall>x. res = Err x \<longrightarrow> same_queue c c' \<and>
       (cache_ok E root c' w' \<or> root_view E w root ?v = Err InvalidEntryKind))"
  proof (cases rd)
    case (Ok ck)
    then obtain cur where rd: "rd = Ok (cur, target)" and ta: "root_table_at E w1 root ?v target = Some cur"
      using ms by (cases ck) auto
    have ok1: "tree_ok E live root w1" using ms by blast
    have pc1: "path_cache E root ?v 1 (descent c1) w1" using ds rd by blast
    let ?i = "index_at ?M target ?v"
    have run': "cursor_install E rg p flags sz cur target (c1, w1) = (res, (c', w'))"
      using run d rd cd by (simp add: map_leaf_sized_at_level_def r_def Let_def)
    have dir: "map_leaf_direct_sized_no_flush E root rg p flags sz target w =
        install_leaf E ?v p flags sz cur target w1"
      by (simp add: map_leaf_direct_sized_no_flush_def md rd)
    show ?thesis
    proof (cases "is_present (e_pte E) (read_entry E (mem w1) cur ?i)")
      case True
      then have "res = Err AlreadyMapped" "c' = c1\<lparr>last_vaddr := None\<rparr>" "w' = w1"
        using run' by (simp_all add: cursor_install_def Let_def)
      then show ?thesis
        using True dir sq1 ds same_queue_trans [OF sq1 same_queue_simps(3)]
        by (simp add: install_leaf_def Let_def cache_ok_dropped)
    next
      case False
      let ?w = "store E cur ?i (new_leaf (e_pte E) p flags sz) w1"
      have r: "res = Ok ()" "c' = queue_flush_range E rg (c1\<lparr>last_vaddr := Some ?v\<rparr>)" "w' = ?w"
        using run' False by (simp_all add: cursor_install_def Let_def)
      have "path_cache E root ?v 1 (descent c1) ?w"
        using store_path [OF ok1 ta] absent_above [OF ta False]
        by (intro path_cache_mono [OF pc1]) blast
      then have "cache_ok E root c' w'"
        using ds by (simp add: cache_ok_def r queue_flush_range_cursor)
      moreover have "same_queue (queue_flush_range E rg c) c'"
        unfolding r by (rule same_queue_flush_range [OF same_queue_trans [OF sq1 same_queue_simps(3)]])
      ultimately show ?thesis
        using dir False r by (simp add: install_leaf_def Let_def)
    qed
  next
    case (Err x)
    then have r: "res = Err x" "c' = c1" "w' = w1"
      using run d cd by (simp_all add: map_leaf_sized_at_level_def r_def Let_def)
    then show ?thesis
      using ds sq1 Err by (auto simp: map_leaf_direct_sized_no_flush_def md cache_ok_dropped)
  next
    case Panic
    then show ?thesis using ms by simp
  qed
  then show "map_leaf_direct_sized_no_flush E root rg p flags sz target w = (res, w')"
    "res = Ok () \<Longrightarrow> cache_ok E root c' w' \<and> same_queue (queue_flush_range E rg c) c'"
    "res = Err x \<Longrightarrow> same_queue c c' \<and>
      (cache_ok E root c' w' \<or> root_view E w root ?v = Err InvalidEntryKind)"
    by blast+
qed

end

end
