(* ===== verification/FlushSpec.thy ===== *)
theory FlushSpec
  imports FlushQueue "HOL-Library.Multiset"
begin

text \<open>
  The specification of the flush queue: the set of addresses a queue stands for, the invariant
  that its ranges are page aligned, do not wrap and lie pairwise apart, and what queueing and
  draining do to that set.
\<close>

section \<open>Ranges as sets of addresses\<close>

definition fr_lo :: "flush_range \<Rightarrow> nat" where
  "fr_lo r = unat (fr_start r)"

definition fr_hi :: "page_size \<Rightarrow> flush_range \<Rightarrow> nat" where
  "fr_hi ps r = fr_lo r + unat (fr_pages r) * 2 ^ size_shift ps"

definition covered :: "page_size \<Rightarrow> flush_range list \<Rightarrow> nat set" where
  "covered ps q = (\<Union>r\<in>set q. {fr_lo r..<fr_hi ps r})"

definition fr_ok :: "page_size \<Rightarrow> flush_range \<Rightarrow> bool" where
  "fr_ok ps r \<longleftrightarrow> fr_pages r \<noteq> 0 \<and> is_aligned ps (fr_start r) \<and> fr_hi ps r < 2 ^ 64"

text \<open>Two ranges neither overlap nor touch.\<close>

definition apart :: "page_size \<Rightarrow> flush_range \<Rightarrow> flush_range \<Rightarrow> bool" where
  "apart ps a b \<longleftrightarrow> fr_hi ps a < fr_lo b \<or> fr_hi ps b < fr_lo a"

definition queue_ok :: "page_size \<Rightarrow> flush_range list \<Rightarrow> bool" where
  "queue_ok ps q \<longleftrightarrow>
     (\<forall>r\<in>set q. fr_ok ps r) \<and> distinct q \<and> (\<forall>a\<in>set q. \<forall>b\<in>set q. a \<noteq> b \<longrightarrow> apart ps a b)"

lemma fr_end_ok:
  assumes "fr_ok ps r"
  obtains e where "fr_end ps r = Some e" "unat e = fr_hi ps r"
proof -
  have less: "unat (fr_start r) + unat (fr_pages r) * 2 ^ size_shift ps < 2 ^ 64"
    using assms by (simp add: fr_ok_def fr_hi_def fr_lo_def)
  let ?b = "fr_pages r * bytes ps"
  have "checked_mul (fr_pages r) (bytes ps) = Some ?b"
    unfolding checked_mul_def unat_bytes by (rule if_P) (use less in simp)
  moreover from this have "unat ?b = unat (fr_pages r) * 2 ^ size_shift ps"
    using checked_mul_Some unat_bytes by metis
  moreover from this have "checked_add (fr_start r) ?b = Some (fr_start r + ?b)"
    unfolding checked_add_def using less by simp
  moreover from this have "unat (fr_start r + ?b) = unat (fr_start r) + unat ?b"
    using checked_add_Some by blast
  ultimately show ?thesis
    using that [of "fr_start r + ?b"] by (simp add: fr_end_def fr_hi_def fr_lo_def)
qed

lemma fr_lo_less_hi: "fr_ok ps r \<Longrightarrow> fr_lo r < fr_hi ps r"
  by (simp add: fr_ok_def fr_hi_def unat_gt_0)

lemma fr_dvd: "fr_ok ps r \<Longrightarrow> 2 ^ size_shift ps dvd fr_lo r \<and> 2 ^ size_shift ps dvd fr_hi ps r"
  by (simp add: fr_ok_def fr_hi_def fr_lo_def is_aligned_dvd)

section \<open>Removal by swapping\<close>

lemma swap_remove_split:
  "swap_remove (xs @ a # ys) (length xs) = (if ys = [] then xs else xs @ last ys # butlast ys)"
  by (simp add: swap_remove_def butlast_append)

lemma swap_remove_props:
  assumes "distinct q" "idx < length q"
  shows "distinct (swap_remove q idx)" "set (swap_remove q idx) = set q - {q ! idx}"
    "i < idx \<Longrightarrow> swap_remove q idx ! i = q ! i"
proof -
  obtain xs a ys where q: "q = xs @ a # ys" and i: "idx = length xs"
    using id_take_nth_drop [OF assms(2)] assms(2) by (metis length_take min.absorb4)
  have ys: "ys \<noteq> [] \<Longrightarrow> insert (last ys) (set (butlast ys)) = set ys"
    using append_butlast_last_id [of ys] by (metis Un_insert_right set_append list.set(1,2) sup_bot_right)
  have d: "distinct (last ys # butlast ys)" if "ys \<noteq> []"
  proof -
    have "mset (last ys # butlast ys) = mset ys"
      using append_butlast_last_id [OF that] by (metis mset_append add.commute mset.simps append_Cons append_Nil)
    moreover have "distinct ys" using assms(1) q by simp
    ultimately show ?thesis by (metis mset_eq_imp_distinct_iff)
  qed
  show "distinct (swap_remove q idx)"
    using assms(1) d ys unfolding q i swap_remove_split by (cases "ys = []") auto
  show "set (swap_remove q idx) = set q - {q ! idx}"
    using assms(1) ys unfolding q i swap_remove_split by (cases "ys = []") auto
  show "swap_remove q idx ! i = q ! i" if "i < idx"
    using that unfolding q i swap_remove_split by (cases "ys = []") (simp_all add: nth_append)
qed

section \<open>Coalescing\<close>

lemma coalesce_spec:
  assumes "queue_ok ps q" "start < fin" "2 ^ size_shift ps dvd unat start" "2 ^ size_shift ps dvd unat fin"
    and "\<forall>i<idx. unat fin < fr_lo (q ! i) \<or> fr_hi ps (q ! i) < unat start" "idx \<le> length q"
  shows "\<exists>s f q'. coalesce ps idx start fin q = Some (s, f, q') \<and> queue_ok ps q' \<and>
    length q' \<le> length q \<and> s < f \<and>
    2 ^ size_shift ps dvd unat s \<and> 2 ^ size_shift ps dvd unat f \<and>
    (\<forall>r\<in>set q'. unat f < fr_lo r \<or> fr_hi ps r < unat s) \<and>
    {unat s..<unat f} \<union> covered ps q' = {unat start..<unat fin} \<union> covered ps q"
  using assms
proof (induction ps idx start fin q rule: coalesce.induct)
  case (1 ps idx start fin q)
  show ?case
  proof (cases "idx < length q")
    case False
    then have "\<forall>r\<in>set q. unat fin < fr_lo r \<or> fr_hi ps r < unat start"
      using "1.prems"(5,6) by (auto simp: in_set_conv_nth)
    moreover have "coalesce ps idx start fin q = Some (start, fin, q)"
      by (subst coalesce.simps) (simp add: False)
    ultimately show ?thesis using "1.prems"(1-4) by blast
  next
    case True
    let ?r = "q ! idx"
    have mem: "?r \<in> set q" using True by simp
    then have rok: "fr_ok ps ?r" using "1.prems"(1) by (simp add: queue_ok_def)
    obtain e where e: "fr_end ps ?r = Some e" "unat e = fr_hi ps ?r" by (rule fr_end_ok [OF rok])
    have keep: "fin < fr_start ?r \<or> e < start \<longleftrightarrow> unat fin < fr_lo ?r \<or> fr_hi ps ?r < unat start"
      by (simp add: word_less_nat_alt e(2) fr_lo_def)
    show ?thesis
    proof (cases "fin < fr_start ?r \<or> e < start")
      case skip: True
      have "\<forall>i<idx + 1. unat fin < fr_lo (q ! i) \<or> fr_hi ps (q ! i) < unat start"
        using "1.prems"(5) skip keep by (auto simp: less_Suc_eq)
      from "1.IH"(1) [OF True refl e(1) skip "1.prems"(1-4) this] True show ?thesis
        by (subst coalesce.simps) (use e(1) skip in \<open>simp add: Let_def\<close>)
    next
      case absorb: False
      let ?s = "min start (fr_start ?r)" and ?f = "max fin e" and ?q = "swap_remove q idx"
      have dist: "distinct q" using "1.prems"(1) by (simp add: queue_ok_def)
      note sr = swap_remove_props [OF dist True]
      have nat: "unat ?s = min (unat start) (fr_lo ?r)" "unat ?f = max (unat fin) (fr_hi ps ?r)"
        by (simp_all add: min_def max_def word_le_nat_alt e(2) fr_lo_def)
      have touch: "fr_lo ?r \<le> unat fin" "unat start \<le> fr_hi ps ?r" using absorb keep by auto
      have lo: "fr_lo ?r < fr_hi ps ?r" "unat start < unat fin"
        using fr_lo_less_hi [OF rok] "1.prems"(2) by (simp_all add: word_less_nat_alt)
      have qok: "queue_ok ps ?q" using "1.prems"(1) sr(1,2) by (auto simp: queue_ok_def)
      have "?s < ?f" using lo touch by (simp add: word_less_nat_alt nat)
      moreover have "2 ^ size_shift ps dvd unat ?s" "2 ^ size_shift ps dvd unat ?f"
        using fr_dvd [OF rok] "1.prems"(3,4) unfolding nat unfolding min_def max_def by simp_all
      moreover have "\<forall>i<idx. unat ?f < fr_lo (?q ! i) \<or> fr_hi ps (?q ! i) < unat ?s"
      proof (intro allI impI)
        fix i assume i: "i < idx"
        have "q ! i \<noteq> ?r" using i True dist by (simp add: nth_eq_iff_index_eq)
        moreover have "q ! i \<in> set q" using i True by simp
        ultimately have "apart ps (q ! i) ?r" and "fr_ok ps (q ! i)"
          using "1.prems"(1) mem by (simp_all add: queue_ok_def)
        then show "unat ?f < fr_lo (?q ! i) \<or> fr_hi ps (?q ! i) < unat ?s"
          using "1.prems"(5) i touch lo fr_lo_less_hi [of ps "q ! i"]
          by (auto simp: sr(3) nat apart_def)
      qed
      moreover have "idx \<le> length ?q" using True by simp
      ultimately have ih: "\<exists>s f q'. coalesce ps idx ?s ?f ?q = Some (s, f, q') \<and> queue_ok ps q' \<and>
          length q' \<le> length ?q \<and> s < f \<and>
          2 ^ size_shift ps dvd unat s \<and> 2 ^ size_shift ps dvd unat f \<and>
          (\<forall>r\<in>set q'. unat f < fr_lo r \<or> fr_hi ps r < unat s) \<and>
          {unat s..<unat f} \<union> covered ps q' = {unat ?s..<unat ?f} \<union> covered ps ?q"
        by (rule "1.IH"(2) [OF True refl e(1) absorb qok])
      have "{unat ?s..<unat ?f} = {unat start..<unat fin} \<union> {fr_lo ?r..<fr_hi ps ?r}"
        using touch lo unfolding nat by auto
      moreover have "{fr_lo ?r..<fr_hi ps ?r} \<union> covered ps ?q = covered ps q"
        using mem by (auto simp: covered_def sr(2))
      ultimately have u: "{unat ?s..<unat ?f} \<union> covered ps ?q = {unat start..<unat fin} \<union> covered ps q"
        by blast
      have c: "coalesce ps idx start fin q = coalesce ps idx ?s ?f ?q"
        by (subst coalesce.simps) (use True e(1) absorb in \<open>simp add: Let_def\<close>)
      show ?thesis using ih unfolding u c by (auto intro: le_trans)
    qed
  qed
qed

section \<open>Queueing\<close>

text \<open>The invariant of a queue, and the addresses it stands for.\<close>

definition flush_inv :: "page_size \<Rightarrow> 'a flush_queue_scheme \<Rightarrow> bool" where
  "flush_inv ps c \<longleftrightarrow> queue_ok ps (pending_flushes c) \<and>
     length (pending_flushes c) \<le> FLUSH_RANGE_CAP \<and>
     (needs_full_flush c \<longrightarrow> pending_flushes c = [])"

definition to_flush :: "page_size \<Rightarrow> 'a flush_queue_scheme \<Rightarrow> nat set" where
  "to_flush ps c = (if needs_full_flush c then UNIV else covered ps (pending_flushes c))"

lemma flush_inv_empty: "pending_flushes c = [] \<Longrightarrow> flush_inv ps c"
  by (simp add: flush_inv_def queue_ok_def)

lemma escalate_inv: "flush_inv ps (escalate c)" "needs_full_flush (escalate c)"
  by (simp_all add: escalate_def flush_inv_empty)

text \<open>The page-aligned ranges that the walker invalidates.\<close>

definition page_range :: "page_size \<Rightarrow> addr_range \<Rightarrow> bool" where
  "page_range ps rg \<longleftrightarrow> rng_start rg < rng_end rg \<and>
     2 ^ size_shift ps dvd unat (rng_start rg) \<and> 2 ^ size_shift ps dvd unat (rng_end rg)"

definition addrs :: "addr_range \<Rightarrow> nat set" where
  "addrs rg = {unat (rng_start rg)..<unat (rng_end rg)}"

lemma pages_between:
  fixes a b :: u64
  assumes "a < b" "2 ^ size_shift ps dvd unat a" "2 ^ size_shift ps dvd unat b"
  shows "unat ((b - a) div bytes ps) * 2 ^ size_shift ps = unat b - unat a"
    "(b - a) div bytes ps \<noteq> 0"
proof -
  have "unat ((b - a) div bytes ps) = (unat b - unat a) div 2 ^ size_shift ps"
    using assms(1) by (simp add: unat_div_distrib unat_bytes unat_sub)
  then show eq: "unat ((b - a) div bytes ps) * 2 ^ size_shift ps = unat b - unat a"
    using assms(2,3) by (simp add: dvd_diff_nat)
  show "(b - a) div bytes ps \<noteq> 0"
    using eq assms(1) by (auto simp: word_less_nat_alt)
qed

lemma merged_range:
  assumes "s < f" "2 ^ size_shift ps dvd unat s" "2 ^ size_shift ps dvd unat f"
  defines "r \<equiv> \<lparr>fr_start = s, fr_pages = (f - s) div bytes ps\<rparr>"
  shows "fr_lo r = unat s" "fr_hi ps r = unat f" "fr_ok ps r"
proof -
  show lo: "fr_lo r = unat s" by (simp add: r_def fr_lo_def)
  show hi: "fr_hi ps r = unat f"
    using pages_between [OF assms(1-3)] assms(1)
    by (simp add: fr_hi_def lo) (simp add: r_def word_less_nat_alt)
  show "fr_ok ps r"
    using pages_between(2) [OF assms(1-3)] assms(2) unat_u64_less [of f]
    by (simp add: fr_ok_def hi) (simp add: r_def is_aligned_dvd)
qed

lemma queue_flush_range_spec:
  assumes inv: "flush_inv (BASE_PAGE_SIZE (e_meta E)) c" and L: "addr_lib_ok (e_addr E)"
    and rg: "page_range (BASE_PAGE_SIZE (e_meta E)) rg"
    and c': "c' = queue_flush_range E rg c"
  shows "flush_inv (BASE_PAGE_SIZE (e_meta E)) c'"
    and "needs_full_flush c' \<or> to_flush (BASE_PAGE_SIZE (e_meta E)) c' =
      to_flush (BASE_PAGE_SIZE (e_meta E)) c \<union> addrs rg"
    and "needs_full_flush c \<Longrightarrow> needs_full_flush c'"
proof -
  let ?ps = "BASE_PAGE_SIZE (e_meta E)" and ?s = "rng_start rg" and ?f = "rng_end rg"
  let ?q = "pending_flushes c" and ?pages = "(rng_end rg - rng_start rg) div bytes (BASE_PAGE_SIZE (e_meta E))"
  have p: "?s < ?f" "2 ^ size_shift ?ps dvd unat ?s" "2 ^ size_shift ?ps dvd unat ?f"
    using rg by (simp_all add: page_range_def)
  have size: "range_size (e_addr E) rg = ?f - ?s" using p(1) by (intro addr_size [OF L]) simp
  note pb = pages_between [OF p]
  have mul: "checked_mul ?pages (bytes ?ps) = Some (?f - ?s)"
  proof -
    have "unat (?f - ?s) = unat ?f - unat ?s" using p(1) by (simp add: unat_sub)
    moreover have "unat (?pages * bytes ?ps) = unat ?f - unat ?s"
      using pb(1) unat_u64_less [of ?f] by (simp add: unat_word_ariths unat_bytes)
    ultimately show ?thesis
      using pb(1) unat_u64_less [of ?f] by (simp add: checked_mul_def unat_bytes word_unat_eq_iff)
  qed
  have add: "checked_add ?s (?f - ?s) = Some ?f"
    using unat_sub [OF less_imp_le [OF p(1)]] p(1) unat_u64_less [of ?f]
    unfolding checked_add_def word_less_nat_alt by simp
  have *: "flush_inv ?ps c' \<and> (needs_full_flush c' \<or> to_flush ?ps c' = to_flush ?ps c \<union> addrs rg) \<and>
      (needs_full_flush c \<longrightarrow> needs_full_flush c')"
  proof (cases "needs_full_flush c")
    case True
    then show ?thesis using inv c' by (simp add: queue_flush_range_def)
  next
    case False
    have qok: "queue_ok ?ps ?q" using inv by (simp add: flush_inv_def)
    have "\<forall>i<0. unat ?f < fr_lo (?q ! i) \<or> fr_hi ?ps (?q ! i) < unat ?s" "0 \<le> length ?q" by simp_all
    from coalesce_spec [OF qok p this] obtain s f q' where
      co: "coalesce ?ps 0 ?s ?f ?q = Some (s, f, q')" "queue_ok ?ps q'" "s < f"
        "2 ^ size_shift ?ps dvd unat s" "2 ^ size_shift ?ps dvd unat f"
        "\<forall>r\<in>set q'. unat f < fr_lo r \<or> fr_hi ?ps r < unat s"
        "{unat s..<unat f} \<union> covered ?ps q' = {unat ?s..<unat ?f} \<union> covered ?ps ?q"
      by blast
    let ?r = "\<lparr>fr_start = s, fr_pages = (f - s) div bytes ?ps\<rparr>"
    note mr = merged_range [OF co(3-5)]
    have run: "c' = (if length q' < FLUSH_RANGE_CAP then c\<lparr>pending_flushes := q' @ [?r]\<rparr>
        else escalate (c\<lparr>pending_flushes := q'\<rparr>))"
      using False pb(2) by (simp add: c' queue_flush_range_def size mul add co(1))
    show ?thesis
    proof (cases "length q' < FLUSH_RANGE_CAP")
      case cap: True
      have "?r \<notin> set q'" using co(6) mr(1,2) fr_lo_less_hi [OF mr(3)] by (auto simp: less_imp_le)
      then have "queue_ok ?ps (q' @ [?r])"
        using co(2,6) mr by (auto simp: queue_ok_def apart_def)
      moreover have "covered ?ps (q' @ [?r]) = {unat s..<unat f} \<union> covered ?ps q'"
        by (simp add: covered_def mr)
      ultimately show ?thesis
        using False cap co(7) by (auto simp: run flush_inv_def to_flush_def addrs_def)
    next
      case full: False
      then show ?thesis using False by (simp add: run escalate_inv)
    qed
  qed
  then show "flush_inv ?ps c'" "needs_full_flush c' \<or> to_flush ?ps c' = to_flush ?ps c \<union> addrs rg"
    "needs_full_flush c \<Longrightarrow> needs_full_flush c'" by blast+
qed

section \<open>Draining\<close>

lemma pending_count_mono: "acc \<le> fold (\<lambda>r acc. saturating_add acc (fr_pages r)) q acc"
proof (induction q arbitrary: acc)
  case (Cons r q)
  show ?case using order_trans [OF saturating_add_ge Cons.IH] by simp
qed simp

lemma saturating_add_ge_right: "b \<le> saturating_add a b"
proof (cases "unat a + unat b < 2 ^ 64")
  case True
  then have "unat (a + b) = unat a + unat b" by (simp add: unat_word_ariths)
  then have "b \<le> a + b" unfolding word_le_nat_alt by simp
  then show ?thesis using True by (simp add: saturating_add_def)
next
  case False
  then show ?thesis by (simp add: saturating_add_def)
qed

lemma pending_count_0:
  assumes "queue_ok ps q"
  shows "pending_count q = 0 \<longleftrightarrow> q = []"
proof (cases q)
  case Nil
  then show ?thesis by (simp add: pending_count_def)
next
  case (Cons r q')
  then have "fr_pages r \<noteq> 0" using assms by (simp add: queue_ok_def fr_ok_def)
  then have "0 < fr_pages r" by (simp only: word_gt_0)
  also note saturating_add_ge_right
  also have "saturating_add 0 (fr_pages r) \<le> pending_count q"
    using pending_count_mono [of "saturating_add 0 (fr_pages r)" q'] Cons
    by (simp only: pending_count_def fold_simps)
  finally have "pending_count q \<noteq> 0" by (simp only: word_gt_0)
  then show ?thesis using Cons by simp
qed

text \<open>
  What a TLB back end promises: a full flush invalidates every address, a range flush at least
  the pages of its range, when all of them are addresses the back end accepts.
\<close>

definition invalidated :: "('h \<Rightarrow> nat set) \<Rightarrow> 'h list \<Rightarrow> nat set" where
  "invalidated invalidates hs = (\<Union>h\<in>set hs. invalidates h)"

locale tlb_contract =
  fixes tlb :: "'h tlb_impl" and ps :: page_size
    and invalidates :: "'h \<Rightarrow> nat set" and accepts :: "vaddr \<Rightarrow> bool"
  assumes all_flushed: "invalidated invalidates (flush_tlb_all_local tlb) = UNIV"
    and range_flushed: "\<lbrakk>is_aligned ps a; unat a + unat n * 2 ^ size_shift ps < 2 ^ 64;
        \<forall>x\<in>{unat a..<unat a + unat n * 2 ^ size_shift ps}. accepts (of_nat x)\<rbrakk> \<Longrightarrow>
        {unat a..<unat a + unat n * 2 ^ size_shift ps} \<subseteq>
          invalidated invalidates (flush_tlb_range_local tlb a ps n)"
begin

lemma flush_ranges_cover:
  assumes "e_tlb E = tlb" "BASE_PAGE_SIZE (e_meta E) = ps" "queue_ok ps q"
    and "\<forall>x\<in>covered ps q. accepts (of_nat x)"
  shows "covered ps q \<subseteq> invalidated invalidates (flush_ranges E q)"
proof
  fix x assume "x \<in> covered ps q"
  then obtain r where r: "r \<in> set q" "x \<in> {fr_lo r..<fr_hi ps r}" by (auto simp: covered_def)
  then have "is_aligned ps (fr_start r)" "fr_hi ps r < 2 ^ 64"
    using assms(3) by (simp_all add: queue_ok_def fr_ok_def)
  moreover have "\<forall>x\<in>{fr_lo r..<fr_hi ps r}. accepts (of_nat x)"
    using assms(4) r(1) by (auto simp: covered_def)
  ultimately have "{fr_lo r..<fr_hi ps r} \<subseteq>
      invalidated invalidates (flush_tlb_range_local tlb (fr_start r) ps (fr_pages r))"
    using range_flushed [of "fr_start r" "fr_pages r"] by (simp add: fr_hi_def fr_lo_def)
  then obtain h where "h \<in> set (flush_tlb_range_local tlb (fr_start r) ps (fr_pages r))"
    "x \<in> invalidates h"
    using r(2) by (auto simp: invalidated_def)
  then show "x \<in> invalidated invalidates (flush_ranges E q)"
    using r(1) by (auto simp: invalidated_def flush_ranges_def assms(1,2))
qed

lemma flush_pending_spec:
  assumes "e_tlb E = tlb" "BASE_PAGE_SIZE (e_meta E) = ps" "flush_inv ps c"
    and "needs_full_flush c \<or> (\<forall>x\<in>to_flush ps c. accepts (of_nat x))"
    and run: "flush_pending E c w = (c', w')"
  shows "\<exists>hs. w' = emit hs w \<and> to_flush ps c \<subseteq> invalidated invalidates hs \<and> to_flush ps c' = {} \<and> flush_inv ps c'"
proof -
  have q: "queue_ok ps (pending_flushes c)" using assms(3) by (simp add: flush_inv_def)
  have flush_all: "invalidated invalidates (flush_tlb_all_local tlb) = UNIV"
    by (rule all_flushed)
  have drained: "to_flush ps (c\<lparr>pending_flushes := [], needs_full_flush := False\<rparr>) = {}"
    "flush_inv ps (c\<lparr>pending_flushes := [], needs_full_flush := False\<rparr>)"
    by (simp_all add: to_flush_def covered_def flush_inv_empty)
  consider (full) "needs_full_flush c \<or>
      pending_flushes c \<noteq> [] \<and> prefer_full_flush tlb (pending_count (pending_flushes c))"
    | (empty) "\<not> needs_full_flush c" "pending_flushes c = []"
    | (ranges) "\<not> needs_full_flush c" "pending_flushes c \<noteq> []"
        "\<not> prefer_full_flush tlb (pending_count (pending_flushes c))"
    by blast
  then show ?thesis
  proof cases
    case full
    then have "c' = c\<lparr>pending_flushes := [], needs_full_flush := False\<rparr>"
      "w' = emit (flush_tlb_all_local tlb) w"
      using run pending_count_0 [OF q] by (auto simp: flush_pending_def assms(1) Let_def split: if_splits)
    then show ?thesis using drained flush_all by blast
  next
    case empty
    then have "c' = c" "w' = w"
      using run pending_count_0 [OF q] by (auto simp: flush_pending_def Let_def split: if_splits)
    moreover have "w = emit [] w" by (simp add: emit_def)
    ultimately show ?thesis using empty assms(3) by (force simp: to_flush_def covered_def)
  next
    case ranges
    then have "c' = c\<lparr>pending_flushes := [], needs_full_flush := False\<rparr>"
      "w' = emit (flush_ranges E (pending_flushes c)) w"
      using run pending_count_0 [OF q] by (auto simp: flush_pending_def assms(1) Let_def split: if_splits)
    moreover have "to_flush ps c \<subseteq> invalidated invalidates (flush_ranges E (pending_flushes c))"
      using flush_ranges_cover [OF assms(1,2) q] assms(4) ranges(1) by (simp add: to_flush_def)
    ultimately show ?thesis using drained by blast
  qed
qed

end

end
