(* ===== verification/BatchSpec.thy ===== *)
theory BatchSpec
  imports CursorSpec FlushSpec
begin

text \<open>
  Mapping of ranges: what \<^verbatim>\<open>map_contiguous\<close>, \<^verbatim>\<open>map_scattered\<close> and \<^verbatim>\<open>PageTableWalker::map\<close> do to
  the translation, on success and on every error. Whatever the outcome, a prefix of the range is
  mapped as asked, nothing else changes, and everything that changed is queued for invalidation.
\<close>

section \<open>Mapping a prefix\<close>

text \<open>
  Between two worlds the \<open>n\<close> bytes from \<open>a\<close> became mapped, the byte at distance \<open>d\<close> to the
  physical address \<open>g d\<close>, and no other lookup changed.
\<close>

definition maps_range :: "('f, 's, 'h) env \<Rightarrow> paddr \<Rightarrow> vaddr \<Rightarrow> nat \<Rightarrow> (nat \<Rightarrow> paddr) \<Rightarrow> 'f \<Rightarrow>
    ('s, 'h) world \<Rightarrow> ('s, 'h) world \<Rightarrow> bool" where
  "maps_range E root a n g f w w' \<longleftrightarrow>
     (\<forall>v. if unat a \<le> unat v \<and> unat v < unat a + n
       then query E root v (mem w) = Err NotMapped \<and>
            resolve E root v (mem w') = Ok (g (unat v - unat a), f)
       else query E root v (mem w') = query E root v (mem w))"

lemma maps_range_0: "maps_range E root a 0 g f w w' \<longleftrightarrow>
    (\<forall>v. query E root v (mem w') = query E root v (mem w))"
  by (auto simp: maps_range_def)

lemma maps_range_cong:
  "maps_range E root a n g f w w' \<Longrightarrow> (\<And>d. d < n \<Longrightarrow> g d = h d) \<Longrightarrow> maps_range E root a n h f w w'"
  by (auto simp: maps_range_def)

lemma maps_range_append:
  assumes "maps_range E root a n g f w w1" "maps_range E root b k (\<lambda>d. g (n + d)) f w1 w2"
    and b: "k \<noteq> 0 \<Longrightarrow> unat b = unat a + n"
  shows "maps_range E root a (n + k) g f w w2"
proof (cases "k = 0")
  case True
  then have q: "query E root v (mem w2) = query E root v (mem w1)" for v
    using assms(2) by (simp add: maps_range_0)
  have "resolve E root v (mem w2) = resolve E root v (mem w1)" for v by (rule resolve_cong [OF q])
  then show ?thesis using assms(1) True q by (simp add: maps_range_def)
next
  case False
  then have b: "unat b = unat a + n" by (rule b)
  show ?thesis
    unfolding maps_range_def
  proof
    fix v
    have 1: "if unat a \<le> unat v \<and> unat v < unat a + n
       then query E root v (mem w) = Err NotMapped \<and>
            resolve E root v (mem w1) = Ok (g (unat v - unat a), f)
       else query E root v (mem w1) = query E root v (mem w)"
      using assms(1) by (simp add: maps_range_def)
    have 2: "if unat b \<le> unat v \<and> unat v < unat b + k
       then query E root v (mem w1) = Err NotMapped \<and>
            resolve E root v (mem w2) = Ok (g (n + (unat v - unat b)), f)
       else query E root v (mem w2) = query E root v (mem w1)"
      using assms(2) by (simp add: maps_range_def)
    have r: "query E root v (mem w2) = query E root v (mem w1) \<Longrightarrow>
        resolve E root v (mem w2) = resolve E root v (mem w1)" by (rule resolve_cong)
    consider "unat a \<le> unat v" "unat v < unat a + n" | "unat a + n \<le> unat v" "unat v < unat a + n + k"
      | "unat v < unat a" | "unat a + n + k \<le> unat v" by linarith
    then show "if unat a \<le> unat v \<and> unat v < unat a + (n + k)
       then query E root v (mem w) = Err NotMapped \<and>
            resolve E root v (mem w2) = Ok (g (unat v - unat a), f)
       else query E root v (mem w2) = query E root v (mem w)"
    proof cases
      assume c: "unat a \<le> unat v" "unat v < unat a + n"
      then have "query E root v (mem w2) = query E root v (mem w1)" using 2 b by simp
      then show ?thesis using 1 c r by simp
    next
      assume c: "unat a + n \<le> unat v" "unat v < unat a + n + k"
      then have "n + (unat v - (unat a + n)) = unat v - unat a" by simp
      then show ?thesis using 2 1 c b by simp
    next
      assume "unat v < unat a"
      then show ?thesis using 1 2 b by simp
    next
      assume "unat a + n + k \<le> unat v"
      then show ?thesis using 1 2 b by simp
    qed
  qed
qed

section \<open>What is queued\<close>

text \<open>
  Nothing pending is lost, every address whose lookup changed is pending, and only valid
  addresses become pending.
\<close>

definition covers :: "('f, 's, 'h) env \<Rightarrow> paddr \<Rightarrow> (('s, 'h) cstate) \<Rightarrow> ('s, 'h) cstate \<Rightarrow> bool" where
  "covers E root cw cw' \<longleftrightarrow> (case (cw, cw') of ((c, w), (c', w')) \<Rightarrow>
     let ps = BASE_PAGE_SIZE (e_meta E) in
     to_flush ps c \<subseteq> to_flush ps c' \<and>
     (\<forall>v. query E root v (mem w') \<noteq> query E root v (mem w) \<longrightarrow> unat v \<in> to_flush ps c') \<and>
     (needs_full_flush c' \<or> to_flush ps c' \<subseteq> to_flush ps c \<union> unat ` {v. vaddr_is_valid (e_meta E) v}))"

lemma to_flush_same: "same_queue c c' \<Longrightarrow> to_flush ps c' = to_flush ps c"
  and flush_inv_same: "same_queue c c' \<Longrightarrow> flush_inv ps c' = flush_inv ps c"
  by (simp_all add: to_flush_def flush_inv_def same_queue_def)

lemma covers_same:
  assumes "same_queue c c'" "\<And>v. query E root v (mem w') = query E root v (mem w)"
  shows "covers E root (c, w) (c', w')"
  using assms to_flush_same [OF assms(1)] by (simp add: covers_def Let_def)

lemma covers_trans:
  assumes "covers E root cw cw1" "covers E root cw1 cw2"
  shows "covers E root cw cw2"
proof -
  obtain c w c1 w1 c2 w2 where cw: "cw = (c, w)" "cw1 = (c1, w1)" "cw2 = (c2, w2)"
    by (metis prod.exhaust_sel)
  let ?ps = "BASE_PAGE_SIZE (e_meta E)"
  have m: "to_flush ?ps c \<subseteq> to_flush ?ps c2"
    and q: "\<And>v. query E root v (mem w2) \<noteq> query E root v (mem w) \<Longrightarrow> unat v \<in> to_flush ?ps c2"
    using assms unfolding covers_def cw prod.case Let_def by (blast, metis subsetD)
  have v: "needs_full_flush c2 \<or>
      to_flush ?ps c2 \<subseteq> to_flush ?ps c \<union> unat ` {v. vaddr_is_valid (e_meta E) v}"
  proof (cases "needs_full_flush c1 \<and> \<not> needs_full_flush c2")
    case True
    then have "to_flush ?ps c2 = UNIV"
      using assms(2) by (auto simp: covers_def cw Let_def to_flush_def [of _ c1])
    moreover have "finite (to_flush ?ps c2)" using True by (simp add: to_flush_def covered_def)
    ultimately show ?thesis using infinite_UNIV_nat by simp
  next
    case False
    then show ?thesis using assms unfolding covers_def cw prod.case Let_def by blast
  qed
  show ?thesis using m q v by (simp add: covers_def cw Let_def)
qed

section \<open>The outcome of a mapping operation\<close>

text \<open>No lookup meets an entry that the format does not define.\<close>

definition no_invalid :: "('f, 's, 'h) env \<Rightarrow> paddr \<Rightarrow> ('s, 'h) world \<Rightarrow> bool" where
  "no_invalid E root w \<longleftrightarrow> (\<forall>v. query E root v (mem w) \<noteq> Err InvalidEntryKind)"

lemma maps_range_no_invalid:
  assumes "maps_range E root a n g f w w'" "no_invalid E root w"
  shows "no_invalid E root w'"
  unfolding no_invalid_def
proof
  fix v
  have v: "query E root v (mem w) \<noteq> Err InvalidEntryKind" using assms(2) by (simp add: no_invalid_def)
  show "query E root v (mem w') \<noteq> Err InvalidEntryKind"
  proof (cases "unat a \<le> unat v \<and> unat v < unat a + n")
    case True
    then have "resolve E root v (mem w') = Ok (g (unat v - unat a), f)"
      using assms(1) by (simp add: maps_range_def)
    then show ?thesis by (auto simp: resolve_def)
  next
    case False
    then have "query E root v (mem w') = query E root v (mem w)"
      using assms(1) unfolding maps_range_def by meson
    then show ?thesis using v by simp
  qed
qed

definition map_outcome :: "('f, 's, 'h) env \<Rightarrow> ('s \<Rightarrow> paddr set) \<Rightarrow> paddr \<Rightarrow> vaddr \<Rightarrow> nat \<Rightarrow>
    (nat \<Rightarrow> paddr) \<Rightarrow> 'f \<Rightarrow> ('s, 'h) cstate \<Rightarrow> unit res \<Rightarrow> ('s, 'h) cstate \<Rightarrow> bool" where
  "map_outcome E live root a n g f cw res cw' \<longleftrightarrow>
     res \<noteq> Panic \<and> tree_ok E live root (snd cw') \<and>
     flush_inv (BASE_PAGE_SIZE (e_meta E)) (fst cw') \<and>
     (res = Ok () \<or> no_invalid E root (snd cw) \<longrightarrow> cache_ok E root (fst cw') (snd cw')) \<and>
     covers E root cw cw' \<and>
     (\<exists>k\<le>n. maps_range E root a k g f (snd cw) (snd cw') \<and> (res = Ok () \<longrightarrow> k = n))"

lemma map_outcomeI:
  assumes "res \<noteq> Panic" "tree_ok E live root (snd cw')"
    and "flush_inv (BASE_PAGE_SIZE (e_meta E)) (fst cw')"
    and "res = Ok () \<or> no_invalid E root (snd cw) \<Longrightarrow> cache_ok E root (fst cw') (snd cw')"
    and "covers E root cw cw'" "k \<le> n" "maps_range E root a k g f (snd cw) (snd cw')"
    and "res = Ok () \<Longrightarrow> k = n"
  shows "map_outcome E live root a n g f cw res cw'"
  unfolding map_outcome_def
  by (intro conjI impI exI [of _ k]) (fact | rule assms(4,8), assumption)+

lemma map_outcomeE:
  assumes "map_outcome E live root a n g f cw res cw'"
  obtains k where "res \<noteq> Panic" "tree_ok E live root (snd cw')"
    "flush_inv (BASE_PAGE_SIZE (e_meta E)) (fst cw')"
    "res = Ok () \<or> no_invalid E root (snd cw) \<Longrightarrow> cache_ok E root (fst cw') (snd cw')"
    "covers E root cw cw'" "k \<le> n" "maps_range E root a k g f (snd cw) (snd cw')"
    "res = Ok () \<Longrightarrow> k = n"
  using assms unfolding map_outcome_def by blast

text \<open>The state a cursor is in between two operations.\<close>

definition cursor_inv :: "('f, 's, 'h) env \<Rightarrow> ('s \<Rightarrow> paddr set) \<Rightarrow> paddr \<Rightarrow> ('s, 'h) cstate \<Rightarrow> bool" where
  "cursor_inv E live root cw \<longleftrightarrow>
     tree_ok E live root (snd cw) \<and> cache_ok E root (fst cw) (snd cw) \<and>
     flush_inv (BASE_PAGE_SIZE (e_meta E)) (fst cw)"

lemma outcome_error:
  assumes "cursor_inv E live root cw"
  shows "map_outcome E live root a n g f cw (Err x) cw"
  using assms covers_same [of "fst cw" "fst cw" E root "snd cw" "snd cw"]
  by (auto simp: map_outcome_def cursor_inv_def maps_range_0 intro!: exI [of _ 0])

lemma outcome_done:
  assumes "cursor_inv E live root cw"
  shows "map_outcome E live root a 0 g f cw (Ok ()) cw"
  using assms covers_same [of "fst cw" "fst cw" E root "snd cw" "snd cw"]
  by (auto simp: map_outcome_def cursor_inv_def maps_range_0)

lemma outcome_inv:
  "map_outcome E live root a n g f cw (Ok ()) cw' \<Longrightarrow> cursor_inv E live root cw'"
  by (simp add: map_outcome_def cursor_inv_def)

lemma outcome_weaken:
  assumes "map_outcome E live root a n g f cw (Err x) cw'" "n \<le> m"
  shows "map_outcome E live root a m g f cw (Err x) cw'"
  using assms by (auto simp: map_outcome_def intro: order_trans)

lemma outcome_seq:
  assumes "map_outcome E live root a n g f cw (Ok ()) cw1"
    and "map_outcome E live root b k (\<lambda>d. g (n + d)) f cw1 res cw2"
    and "k \<noteq> 0 \<Longrightarrow> unat b = unat a + n"
  shows "map_outcome E live root a (n + k) g f cw res cw2"
proof -
  from assms(1) obtain n' where 1: "covers E root cw cw1" "maps_range E root a n g f (snd cw) (snd cw1)"
    by (rule map_outcomeE) blast
  from assms(2) show ?thesis
  proof (rule map_outcomeE)
    fix j
    assume 2: "res \<noteq> Panic" "tree_ok E live root (snd cw2)"
      "flush_inv (BASE_PAGE_SIZE (e_meta E)) (fst cw2)"
      "res = Ok () \<or> no_invalid E root (snd cw1) \<Longrightarrow> cache_ok E root (fst cw2) (snd cw2)"
      "covers E root cw1 cw2" "j \<le> k"
      "maps_range E root b j (\<lambda>d. g (n + d)) f (snd cw1) (snd cw2)" "res = Ok () \<Longrightarrow> j = k"
    have m: "maps_range E root a (n + j) g f (snd cw) (snd cw2)"
      by (rule maps_range_append [OF 1(2) 2(7)]) (use assms(3) 2(6) in simp)
    have cache: "cache_ok E root (fst cw2) (snd cw2)" if "res = Ok () \<or> no_invalid E root (snd cw)"
      using that maps_range_no_invalid [OF 1(2)] 2(4) by blast
    show ?thesis
      by (rule map_outcomeI [OF 2(1-3) cache covers_trans [OF 1(1) 2(5)] add_left_mono [OF 2(6)] m])
        (use 2(8) in simp_all)
  qed
qed

lemma outcome_cong:
  assumes "map_outcome E live root a n g f cw res cw'" "\<And>d. d < n \<Longrightarrow> g d = h d"
  shows "map_outcome E live root a n h f cw res cw'"
proof (rule map_outcomeE [OF assms(1)])
  fix k
  assume k: "res \<noteq> Panic" "tree_ok E live root (snd cw')"
    "flush_inv (BASE_PAGE_SIZE (e_meta E)) (fst cw')"
    "res = Ok () \<or> no_invalid E root (snd cw) \<Longrightarrow> cache_ok E root (fst cw') (snd cw')"
    "covers E root cw cw'" "k \<le> n" "maps_range E root a k g f (snd cw) (snd cw')"
    "res = Ok () \<Longrightarrow> k = n"
  have m: "maps_range E root a k h f (snd cw) (snd cw')"
    by (rule maps_range_cong [OF k(7)]) (use assms(2) k(6) in simp)
  show ?thesis by (rule map_outcomeI [OF k(1-6) m]) (use k(8) in simp_all)
qed

section \<open>One leaf\<close>

lemma range_end_nat:
  assumes "addr_lib_ok L" "range_ok r"
  shows "unat (rng_end r) = unat (rng_start r) + unat (range_size L r)"
proof -
  have le: "rng_start r \<le> rng_end r" using assms(2) by (simp add: range_ok_def)
  then show ?thesis
    using addr_size [OF assms(1) le] unat_sub [OF le] by (simp add: word_le_nat_alt)
qed

lemma in_range_nat: "in_range r v \<longleftrightarrow> unat (rng_start r) \<le> unat v \<and> unat v < unat (rng_end r)"
  by (simp add: in_range_def word_le_nat_alt word_less_nat_alt)

lemma of_nat_distance: "unat a \<le> unat v \<Longrightarrow> of_nat (unat v - unat a) = (v :: u64) - a"
  by (simp add: of_nat_diff)

context walker
begin

abbreviation base :: page_size where
  "base \<equiv> BASE_PAGE_SIZE (e_meta E)"

lemma size_at_least_base: "size_to_level (e_meta E) sz = Some t \<Longrightarrow> size_shift base \<le> size_shift sz"
  using size_to_level_size [of sz t] shift_mono [of 1 t] shift_base by simp

lemma leaf_page_range:
  assumes "size_to_level (e_meta E) sz = Some t" "range_ok rg" "range_size (e_addr E) rg = bytes sz"
    and "is_aligned sz (rng_start rg)"
  shows "page_range base rg"
proof -
  have e: "unat (rng_end rg) = unat (rng_start rg) + 2 ^ size_shift sz"
    using range_end_nat [OF addr_ok assms(2)] by (simp add: assms(3) unat_bytes)
  have d: "2 ^ size_shift base dvd (2 :: nat) ^ size_shift sz"
    by (rule le_imp_power_dvd [OF size_at_least_base [OF assms(1)]])
  then have s: "2 ^ size_shift base dvd unat (rng_start rg)"
    using assms(4) dvd_trans unfolding is_aligned_dvd by blast
  show ?thesis
    unfolding page_range_def word_less_nat_alt e using s d by (simp add: dvd_add)
qed

lemma leaf_valid:
  assumes "size_to_level (e_meta E) sz = Some t" "range_ok rg" "range_size (e_addr E) rg = bytes sz"
    and "is_aligned sz (rng_start rg)" "vaddr_is_valid (e_meta E) (rng_start rg)" "in_range rg v"
  shows "vaddr_is_valid (e_meta E) v"
proof -
  note lr = leaf_range_exact [OF addr_ok assms(2-4)]
  have "drop_bit (size_shift sz) v = drop_bit (size_shift sz) (rng_start rg)"
    using leaf_range_mem [OF addr_ok lr, of v] assms(6) by (simp add: in_range_def)
  then show ?thesis
    using valid_block [OF assms(5) size_to_level_size(1,2) [OF assms(1)], of v]
    by (simp add: size_to_level_size(3) [OF assms(1)])
qed

lemma covers_queued:
  assumes c: "flush_inv base c" and rg: "page_range base rg"
    and val: "\<And>v. in_range rg v \<Longrightarrow> vaddr_is_valid (e_meta E) v"
    and same: "same_queue (queue_flush_range E rg c) c'"
    and q: "\<And>v. \<not> in_range rg v \<Longrightarrow> query E root v (mem w') = query E root v (mem w)"
  shows "covers E root (c, w) (c', w')" "flush_inv base c'"
proof -
  note qs = queue_flush_range_spec [OF c addr_ok rg refl]
  have full: "needs_full_flush c' = needs_full_flush (queue_flush_range E rg c)"
    using same by (simp add: same_queue_def)
  have u: "needs_full_flush c' \<or> to_flush base c' = to_flush base c \<union> addrs rg"
    using qs(2) unfolding full to_flush_same [OF same] .
  have all: "needs_full_flush c' \<Longrightarrow> to_flush base c' = UNIV" by (simp add: to_flush_def)
  have a: "unat v \<in> addrs rg \<longleftrightarrow> in_range rg v" for v by (simp add: addrs_def in_range_nat)
  have "addrs rg \<subseteq> unat ` {v. vaddr_is_valid (e_meta E) v}"
  proof
    fix x assume x: "x \<in> addrs rg"
    then have "x < 2 ^ 64" using unat_u64_less [of "rng_end rg"] by (simp add: addrs_def)
    then have "unat (of_nat x :: u64) = x" by (simp add: unat_of_nat)
    then show "x \<in> unat ` {v. vaddr_is_valid (e_meta E) v}"
      using val [of "of_nat x"] a [of "of_nat x"] x by (metis (mono_tags) imageI mem_Collect_eq)
  qed
  then have v: "needs_full_flush c' \<or>
      to_flush base c' \<subseteq> to_flush base c \<union> unat ` {v. vaddr_is_valid (e_meta E) v}"
    using u by auto
  have m: "to_flush base c \<subseteq> to_flush base c'" using u all by auto
  have ch: "unat v \<in> to_flush base c'" if "query E root v (mem w') \<noteq> query E root v (mem w)" for v
    using that q a u all by (metis UNIV_I UnI2)
  show "covers E root (c, w) (c', w')" using m ch v by (simp add: covers_def Let_def)
  show "flush_inv base c'" using qs(1) unfolding flush_inv_same [OF same] .
qed

lemma leaf_outcome:
  assumes inv: "cursor_inv E live root (c, w)"
    and sz: "size_to_level (e_meta E) sz = Some target"
    and p: "is_aligned sz p" "paddr_is_valid (e_meta E) p" "flags_ok flags"
    and rg: "range_ok rg" "range_size (e_addr E) rg = bytes sz" "is_aligned sz (rng_start rg)"
      "vaddr_is_valid (e_meta E) (rng_start rg)"
    and run: "map_leaf_sized_at_level E root rg p flags sz target (c, w) = (res, cw')"
  shows "map_outcome E live root (rng_start rg) (unat (bytes sz)) (\<lambda>d. p + of_nat d) (norm flags)
    (c, w) res cw'"
proof -
  obtain c' w' where cw': "cw' = (c', w')" by fastforce
  have ok: "tree_ok E live root w" and cache: "cache_ok E root c w" and fl: "flush_inv base c"
    using inv by (simp_all add: cursor_inv_def)
  note at = map_leaf_at_level_spec [OF ok cache size_to_level_size(1,2) [OF sz] run [unfolded cw']]
  note q = map_leaf_direct_query [OF ok sz p rg at(1)]
  have e: "unat (rng_end rg) = unat (rng_start rg) + unat (bytes sz)"
    using range_end_nat [OF addr_ok rg(1)] by (simp add: rg(2))
  consider (mapped) "res = Ok ()" "\<forall>v. query E root v (mem w') =
        (if in_range rg v then Ok (mapping_new rg p (norm flags)) else query E root v (mem w))"
      "\<forall>v. in_range rg v \<longrightarrow> query E root v (mem w) = Err NotMapped"
    | (failed) x where "res = Err x" "\<forall>v. query E root v (mem w') = query E root v (mem w)"
    using q by blast
  then show ?thesis
  proof cases
    case mapped
    note sp = at(2) [OF mapped(1)]
    have cv: "covers E root (c, w) (c', w')" "flush_inv base c'"
      by (rule covers_queued [OF fl leaf_page_range [OF sz rg(1-3)] leaf_valid [OF sz rg]
            sp [THEN conjunct2]]; simp add: mapped(2))+
    have "resolve E root v (mem w') = Ok (p + of_nat (unat v - unat (rng_start rg)), norm flags)"
      if "in_range rg v" for v
      using that mapped(2) by (simp add: resolve_def mapping_new_def of_nat_distance in_range_nat)
    then have "maps_range E root (rng_start rg) (unat (bytes sz)) (\<lambda>d. p + of_nat d) (norm flags) w w'"
      using mapped(2,3) unfolding maps_range_def in_range_nat e by simp
    then show ?thesis
      using q sp cv mapped(1) unfolding cw' by (intro map_outcomeI [OF _ _ _ _ _ order.refl]) simp_all
  next
    case failed
    note sp = at(3) [OF failed(1)]
    have "covers E root (c, w) (c', w')"
      by (rule covers_same) (use sp failed(2) in simp_all)
    moreover have "flush_inv base c'" using fl flush_inv_same sp by metis
    moreover have "maps_range E root (rng_start rg) 0 (\<lambda>d. p + of_nat d) (norm flags) w w'"
      using failed(2) by (simp add: maps_range_0)
    moreover have "cache_ok E root c' w'" if "no_invalid E root w"
      using that sp query_not_mapped [OF _ rg(4)] unfolding no_invalid_def by blast
    ultimately show ?thesis
      using q sp failed(1) unfolding cw' by (intro map_outcomeI [OF _ _ _ _ _ le0]) auto
  qed
qed

section \<open>A contiguous range\<close>

lemma map_leaf_outcome:
  assumes inv: "cursor_inv E live root cw" and f: "flags_ok flags"
    and run: "map_leaf E root rg p flags cw = (res, cw')"
  shows "map_outcome E live root (rng_start rg) (unat (range_size (e_addr E) rg)) (\<lambda>d. p + of_nat d)
    (norm flags) cw res cw'"
proof (cases "check_leaf_range (e_addr E) (e_meta E) rg")
  case (Ok sz)
  note rg = check_leaf_range_Ok [OF Ok]
  show ?thesis
  proof (cases "paddr_is_valid (e_meta E) p \<and> is_aligned sz p \<and> size_to_level (e_meta E) sz \<noteq> None")
    case True
    then obtain t where t: "size_to_level (e_meta E) sz = Some t" by blast
    obtain c w where cw: "cw = (c, w)" by fastforce
    have "map_leaf_sized_at_level E root rg p flags sz t (c, w) = (res, cw')"
      using run True Ok t rg by (simp add: map_leaf_def map_leaf_sized_def check_paddr_def cw)
    from leaf_outcome [OF inv [unfolded cw] t _ _ f rg this] True show ?thesis by (simp add: rg(2) cw)
  next
    case False
    then obtain x where "res = Err x" "cw' = cw"
      using run Ok rg by (auto simp: map_leaf_def map_leaf_sized_def check_paddr_def split: if_splits)
    then show ?thesis using outcome_error [OF inv] by simp
  qed
next
  case (Err x)
  then have "res = Err x" "cw' = cw" using run by (simp_all add: map_leaf_def)
  then show ?thesis using outcome_error [OF inv] by simp
next
  case Panic
  then show ?thesis using check_leaf_range_not_Panic by blast
qed

lemma next_leaf_size_not_Panic: "next_leaf_size M fixed v p remaining \<noteq> Panic"
proof -
  have "best_leaf_size_from M szs v p remaining \<noteq> Panic" for szs by (induction szs) auto
  then show ?thesis by (auto simp: next_leaf_size_def best_leaf_size_def split: option.split)
qed

lemma map_contiguous_loop_outcome:
  assumes "cursor_inv E live root cw" "flags_ok flags" "offset \<le> tot"
    and "unat (rng_start rg) + unat tot < 2 ^ 64" "unat (rng_start phys) + unat tot < 2 ^ 64"
    and "map_contiguous_loop E root rg phys flags fixed tot offset cw = (res, cw')"
  shows "map_outcome E live root (rng_start rg + offset) (unat tot - unat offset)
    (\<lambda>d. rng_start phys + offset + of_nat d) (norm flags) cw res cw'"
  using assms(1,3,6)
proof (induction "unat tot - unat offset" arbitrary: offset cw rule: less_induct)
  case less
  note run = less.prems(3) [unfolded map_contiguous_loop.simps [of E root rg phys flags fixed tot offset cw]]
  show ?case
  proof (cases "offset < tot")
    case False
    then have "offset = tot" using less.prems(2) by simp
    then show ?thesis using run outcome_done [OF less.prems(1)] by simp
  next
    case True
    let ?v = "rng_start rg + offset" and ?p = "rng_start phys + offset"
    have off: "unat offset < unat tot" using True by (simp add: word_less_nat_alt)
    have v: "offset_vaddr (rng_start rg) offset = Ok ?v" "unat ?v = unat (rng_start rg) + unat offset"
      using off assms(4) by (simp_all add: offset_vaddr_def checked_add_def unat_word_ariths)
    have p: "offset_paddr (rng_start phys) offset = Ok ?p"
      using off assms(5) by (simp add: offset_paddr_def checked_add_def)
    show ?thesis
    proof (cases "next_leaf_size (e_meta E) fixed ?v ?p (tot - offset)")
      case (Err x)
      then have "res = Err x" "cw' = cw" using run True v p by simp_all
      then show ?thesis using outcome_error [OF less.prems(1)] by simp
    next
      case Panic
      then show ?thesis using next_leaf_size_not_Panic by blast
    next
      case (Ok sz)
      note fits = next_leaf_size_fits [OF Ok]
      note dec = offset_step_decreases [OF True fits]
      let ?b = "bytes sz" and ?leaf = "\<lparr>rng_start = ?v, rng_end = ?v + bytes sz\<rparr>"
      have "unat (tot - offset) = unat tot - unat offset"
        using unat_sub [OF less_imp_le [OF True]] .
      then have le: "unat offset + unat ?b \<le> unat tot"
        using fits off by (simp add: word_le_nat_alt)
      have sum: "unat ?v + unat ?b < 2 ^ 64" using le v(2) assms(4) by linarith
      have leaf: "range_try_from_start_size (e_addr E) ?v ?b = Some ?leaf"
        using sum by (simp add: addr_try_from_start_size [OF addr_ok] checked_add_def)
      have "?v \<le> ?v + ?b" using sum by (simp add: word_le_nat_alt unat_word_ariths)
      then have size: "range_size (e_addr E) ?leaf = ?b" using addr_size [OF addr_ok, of ?leaf] by simp
      obtain rl cw1 where l: "map_leaf E root ?leaf ?p flags cw = (rl, cw1)" by (meson surj_pair)
      note out = map_leaf_outcome [OF less.prems(1) assms(2) l, unfolded size addr_range.select_convs]
      have n: "unat ?b \<le> unat tot - unat offset" using le by simp
      show ?thesis
      proof (cases rl)
        case (Err x)
        then have "res = Err x" "cw' = cw1" using run True v p Ok leaf l by simp_all
        then show ?thesis using outcome_weaken [OF out [unfolded Err] n] by simp
      next
        case Panic
        then show ?thesis using out by (simp add: map_outcome_def)
      next
        case rl: (Ok u)
        have run': "map_contiguous_loop E root rg phys flags fixed tot (offset + ?b) cw1 = (res, cw')"
          using run True v p Ok leaf l rl by simp
        have u: "u = ()" by simp
        note out1 = out [unfolded rl u]
        have le': "offset + ?b \<le> tot" using le by (simp add: word_le_nat_alt dec(2))
        note rest = less.hyps [OF dec(1) outcome_inv [OF out1] le' run']
        have g: "(\<lambda>d. rng_start phys + (offset + ?b) + of_nat d) =
            (\<lambda>d. ?p + of_nat (unat ?b + d))" by (simp add: algebra_simps)
        have b: "unat (rng_start rg + (offset + ?b)) = unat ?v + unat ?b"
          using sum by (simp add: unat_word_ariths(1) [of ?v ?b] add.assoc [symmetric])
        have tot: "unat ?b + (unat tot - unat (offset + ?b)) = unat tot - unat offset"
          using le by (simp add: dec(2))
        show ?thesis
          using outcome_seq [OF out1 rest [unfolded g] b] unfolding tot .
      qed
    qed
  qed
qed

lemma exact_leaf_size_Some:
  assumes "exact_leaf_size (e_addr E) (e_meta E) rg p fixed = Ok (Some (sz, t))"
  shows "range_size (e_addr E) rg = bytes sz" "is_aligned sz (rng_start rg)"
    "vaddr_is_valid (e_meta E) (rng_start rg)" "is_aligned sz p" "paddr_is_valid (e_meta E) p"
    "size_to_level (e_meta E) sz = Some t"
  using assms
  by (auto simp: exact_leaf_size_def check_vaddr_def check_paddr_def bind_res_eq_Ok from_bytes_Some
      split: option.splits if_splits)

lemma exact_leaf_size_not_Panic: "exact_leaf_size L M rg p fixed \<noteq> Panic"
  by (auto simp: exact_leaf_size_def check_vaddr_def check_paddr_def bind_res_def ok_or_def Let_def
      split: res.splits option.splits)

lemma range_bound: "range_ok rg \<Longrightarrow> unat (rng_start rg) + unat (range_size (e_addr E) rg) < 2 ^ 64"
  using range_end_nat [OF addr_ok, of rg] unat_u64_less [of "rng_end rg"] by simp

lemma map_contiguous_outcome:
  assumes inv: "cursor_inv E live root cw" and f: "flags_ok flags"
    and rg: "range_ok rg" and phys: "range_ok phys"
    and run: "map_contiguous E root rg phys flags fixed cw = (res, cw')"
  shows "map_outcome E live root (rng_start rg) (unat (range_size (e_addr E) rg))
    (\<lambda>d. rng_start phys + of_nat d) (norm flags) cw res cw'"
proof (cases "range_is_empty (e_addr E) rg \<or> range_is_empty (e_addr E) phys \<or>
    range_size (e_addr E) rg \<noteq> range_size (e_addr E) phys")
  case True
  then have "res = Err InvalidMappingShape" "cw' = cw" using run by (simp_all add: map_contiguous_def)
  then show ?thesis using outcome_error [OF inv] by simp
next
  case False
  then have sizes: "range_size (e_addr E) rg = range_size (e_addr E) phys" by simp
  show ?thesis
  proof (cases "exact_leaf_size (e_addr E) (e_meta E) rg (rng_start phys) fixed")
    case (Ok exact)
    show ?thesis
    proof (cases exact)
      case None
      have "map_contiguous_loop E root rg phys flags fixed (range_size (e_addr E) rg) 0 cw = (res, cw')"
        using run False Ok None by (simp add: map_contiguous_def)
      from map_contiguous_loop_outcome [OF inv f _ range_bound [OF rg] _ this] range_bound [OF phys]
      show ?thesis by (simp add: sizes)
    next
      case (Some st)
      obtain sz t where st: "st = (sz, t)" by fastforce
      note ex = exact_leaf_size_Some [OF Ok [unfolded Some st]]
      obtain c w where cw: "cw = (c, w)" by fastforce
      have "map_leaf_sized_at_level E root rg (rng_start phys) flags sz t (c, w) = (res, cw')"
        using run False Ok Some st by (simp add: map_contiguous_def cw)
      from leaf_outcome [OF inv [unfolded cw] ex(6,4,5) f rg ex(1-3) this]
      show ?thesis by (simp add: ex(1) cw)
    qed
  next
    case (Err x)
    then have "res = Err x" "cw' = cw" using run False by (simp_all add: map_contiguous_def)
    then show ?thesis using outcome_error [OF inv] by simp
  next
    case Panic
    then show ?thesis using exact_leaf_size_not_Panic by blast
  qed
qed

end

section \<open>A scatter list\<close>

text \<open>The physical address at a distance from the start of the backing.\<close>

fun scatter_paddr :: "addr_lib \<Rightarrow> addr_range list \<Rightarrow> nat \<Rightarrow> paddr" where
  "scatter_paddr L [] d = 0"
| "scatter_paddr L (r # rs) d =
     (if d < unat (range_size L r) then rng_start r + of_nat d
      else scatter_paddr L rs (d - unat (range_size L r)))"

fun backing_paddr :: "addr_lib \<Rightarrow> map_backing \<Rightarrow> nat \<Rightarrow> paddr" where
  "backing_paddr L (ContiguousBacking r) d = rng_start r + of_nat d"
| "backing_paddr L (ScatteredBacking rs) d = scatter_paddr L rs d"

fun backing_ok :: "map_backing \<Rightarrow> bool" where
  "backing_ok (ContiguousBacking r) = range_ok r"
| "backing_ok (ScatteredBacking rs) = (\<forall>r\<in>set rs. range_ok r)"

lemma scatter_total_sum:
  "scatter_total L rg granule rs acc = Ok tot \<Longrightarrow>
     unat tot = unat acc + (\<Sum>r\<leftarrow>rs. unat (range_size L r))"
proof (induction rs arbitrary: acc)
  case (Cons r rs)
  then obtain fin where "checked_add acc (range_size L r) = Some fin"
    "scatter_total L rg granule rs fin = Ok tot"
    by (auto simp: bind_res_eq_Ok split: option.splits if_splits)
  with Cons.IH show ?case using checked_add_Some by fastforce
qed simp

lemma check_scatter_segment_not_Panic: "check_scatter_segment L phys granule \<noteq> Panic"
  by (simp add: check_scatter_segment_def)

lemma scatter_total_not_Panic: "scatter_total L rg granule rs acc \<noteq> Panic"
proof (induction rs arbitrary: acc)
  case (Cons r rs)
  then show ?case
    using check_scatter_segment_not_Panic [of L r granule]
    by (auto simp: bind_res_def split: res.split option.split)
qed simp

context walker
begin

lemma map_segments_outcome:
  assumes "cursor_inv E live root cw" "flags_ok flags"
    and "unat (rng_start rg) + unat offset + (\<Sum>r\<leftarrow>rs. unat (range_size (e_addr E) r)) < 2 ^ 64"
    and "\<forall>r\<in>set rs. range_ok r"
    and "map_segments E root rg flags granule rs offset cw = (res, cw')"
  shows "map_outcome E live root (rng_start rg + offset) (\<Sum>r\<leftarrow>rs. unat (range_size (e_addr E) r))
    (scatter_paddr (e_addr E) rs) (norm flags) cw res cw'"
  using assms(1,3,4,5)
proof (induction rs arbitrary: offset cw)
  case Nil
  then show ?case using outcome_done [OF Nil(1)] by simp
next
  case (Cons r rs)
  let ?L = "e_addr E" and ?v = "rng_start rg + offset"
  let ?n = "range_size ?L r" and ?vr = "\<lparr>rng_start = ?v, rng_end = ?v + range_size ?L r\<rparr>"
  have v: "offset_vaddr (rng_start rg) offset = Ok ?v" "unat ?v = unat (rng_start rg) + unat offset"
    using Cons.prems(2) by (simp_all add: offset_vaddr_def checked_add_def unat_word_ariths)
  have sum: "unat ?v + unat ?n + (\<Sum>r\<leftarrow>rs. unat (range_size ?L r)) < 2 ^ 64"
    using Cons.prems(2) v(2) by simp
  have vr: "range_try_from_start_size ?L ?v ?n = Some ?vr"
    using sum by (simp add: addr_try_from_start_size [OF addr_ok] checked_add_def)
  have vok: "range_ok ?vr" using sum by (simp add: range_ok_def word_le_nat_alt unat_word_ariths)
  then have size: "range_size ?L ?vr = ?n"
    using addr_size [OF addr_ok, of ?vr] by (simp add: range_ok_def)
  have add: "checked_add offset ?n = Some (offset + ?n)" "unat (offset + ?n) = unat offset + unat ?n"
    using sum v(2) by (simp_all add: checked_add_def unat_word_ariths)
  obtain rl cw1 where l: "map_contiguous E root ?vr r flags (Some granule) cw = (rl, cw1)"
    by (meson surj_pair)
  have rok: "range_ok r" using Cons.prems(3) by simp
  note out = map_contiguous_outcome [OF Cons.prems(1) assms(2) vok rok l,
      unfolded size addr_range.select_convs]
  have out': "map_outcome E live root ?v (unat ?n) (scatter_paddr ?L (r # rs)) (norm flags) cw rl cw1"
    by (rule outcome_cong [OF out]) simp
  show ?case
  proof (cases rl)
    case (Err x)
    then have r: "res = Err x" "cw' = cw1" using Cons.prems(4) v vr l by simp_all
    show ?thesis unfolding r by (rule outcome_weaken [OF out' [unfolded Err]]) simp
  next
    case Panic
    then show ?thesis using out by (simp add: map_outcome_def)
  next
    case (Ok u)
    have u: "u = ()" by simp
    have run': "map_segments E root rg flags granule rs (offset + ?n) cw1 = (res, cw')"
      using Cons.prems(4) v vr l Ok add by simp
    note out1 = out' [unfolded Ok u]
    have b': "unat (rng_start rg) + unat (offset + ?n) + (\<Sum>r\<leftarrow>rs. unat (range_size ?L r)) < 2 ^ 64"
      using Cons.prems(2) by (simp add: add(2))
    have "\<forall>r\<in>set rs. range_ok r" using Cons.prems(3) by simp
    note rest = Cons.IH [OF outcome_inv [OF out1] b' this run']
    have g: "scatter_paddr ?L rs = (\<lambda>d. scatter_paddr ?L (r # rs) (unat ?n + d))" by (rule ext) simp
    have b: "unat (rng_start rg + (offset + ?n)) = unat ?v + unat ?n"
      using sum by (simp add: unat_word_ariths(1) [of ?v ?n] add.assoc [symmetric])
    have tot: "unat ?n + (\<Sum>r\<leftarrow>rs. unat (range_size ?L r)) = (\<Sum>r\<leftarrow>r # rs. unat (range_size ?L r))"
      by simp
    show ?thesis
      using outcome_seq [OF out1 rest [unfolded g] b] unfolding tot .
  qed
qed

end

end
