(* ===== verification/MapApiSpec.thy ===== *)
theory MapApiSpec
  imports BatchSpec
begin

text \<open>
  \<^verbatim>\<open>PageTableCursor::map\<close> and \<^verbatim>\<open>PageTableWalker::map\<close> on every kind of backing, with the
  invalidations they leave in the log.
\<close>

context walker
begin

section \<open>The cursor\<close>

lemma map_scattered_outcome:
  assumes inv: "cursor_inv E live root cw" and f: "flags_ok flags"
    and rg: "range_ok rg" and b: "backing_ok backing"
    and run: "map_scattered E root rg backing flags granule cw = (res, cw')"
  shows "map_outcome E live root (rng_start rg) (unat (range_size (e_addr E) rg))
    (backing_paddr (e_addr E) backing) (norm flags) cw res cw'"
proof -
  let ?L = "e_addr E"
  note err = outcome_error [OF inv]
  show ?thesis
  proof (cases "range_is_empty ?L rg \<or> \<not> is_aligned granule (range_size ?L rg) \<or>
      size_to_level (e_meta E) granule = None")
    case True
    then obtain x where "res = Err x" "cw' = cw"
      using run by (auto simp: map_scattered_def Let_def split: if_splits)
    then show ?thesis using err by simp
  next
    case pre: False
    show ?thesis
    proof (cases backing)
      case (ContiguousBacking phys)
      show ?thesis
      proof (cases "check_scatter_segment ?L phys granule = Ok () \<and> range_size ?L phys = range_size ?L rg")
        case True
        then have "map_contiguous E root rg phys flags (Some granule) cw = (res, cw')"
          using run pre ContiguousBacking by (auto simp: map_scattered_def Let_def)
        from map_contiguous_outcome [OF inv f rg _ this] b ContiguousBacking
        have "map_outcome E live root (rng_start rg) (unat (range_size ?L rg))
            (\<lambda>d. rng_start phys + of_nat d) (norm flags) cw res cw'" by simp
        then show ?thesis by (rule outcome_cong) (simp add: ContiguousBacking)
      next
        case False
        then obtain x where "res = Err x" "cw' = cw"
          using run pre ContiguousBacking
          by (auto simp: map_scattered_def check_scatter_segment_def Let_def split: if_splits)
        then show ?thesis using err by simp
      qed
    next
      case (ScatteredBacking rs)
      show ?thesis
      proof (cases "rs \<noteq> [] \<and> scatter_total ?L rg granule rs 0 = Ok (range_size ?L rg)")
        case True
        then have run': "map_segments E root rg flags granule rs 0 cw = (res, cw')"
          using run pre ScatteredBacking by (auto simp: map_scattered_def Let_def)
        have sum: "unat (range_size ?L rg) = (\<Sum>r\<leftarrow>rs. unat (range_size ?L r))"
          using scatter_total_sum [of ?L rg granule rs 0] True by simp
        have bound: "unat (rng_start rg) + unat (0 :: usize) + (\<Sum>r\<leftarrow>rs. unat (range_size ?L r)) < 2 ^ 64"
          using range_bound [OF rg] by (simp add: sum)
        have rok: "\<forall>r\<in>set rs. range_ok r" using b ScatteredBacking by simp
        from map_segments_outcome [OF inv f bound rok run']
        have "map_outcome E live root (rng_start rg) (unat (range_size ?L rg))
            (scatter_paddr ?L rs) (norm flags) cw res cw'" by (simp add: sum)
        then show ?thesis by (rule outcome_cong) (simp add: ScatteredBacking)
      next
        case False
        then obtain x where "res = Err x" "cw' = cw"
          using run pre ScatteredBacking scatter_total_not_Panic [of ?L rg granule rs 0]
          by (cases "scatter_total ?L rg granule rs 0") (auto simp: map_scattered_def Let_def split: if_splits)
        then show ?thesis using err by simp
      qed
    qed
  qed
qed

lemma cursor_map_outcome:
  assumes inv: "cursor_inv E live root cw" and f: "flags_ok (mf_leaf flags)"
    and rg: "range_ok rg" and b: "backing_ok backing"
    and src: "into_map_backing (e_addr E) src (range_size (e_addr E) rg) = Ok backing"
    and run: "cursor_map E root rg src flags cw = (res, cw')"
  shows "map_outcome E live root (rng_start rg) (unat (range_size (e_addr E) rg))
    (backing_paddr (e_addr E) backing) (norm (mf_leaf flags)) cw res cw'"
proof (cases "mf_contiguity flags")
  case Contiguous
  show ?thesis
  proof (cases backing)
    case (ContiguousBacking phys)
    have "map_contiguous E root rg phys (mf_leaf flags) None cw = (res, cw')"
      using run src Contiguous ContiguousBacking by (simp add: cursor_map_def)
    from map_contiguous_outcome [OF inv f rg _ this] b ContiguousBacking
    have "map_outcome E live root (rng_start rg) (unat (range_size (e_addr E) rg))
        (\<lambda>d. rng_start phys + of_nat d) (norm (mf_leaf flags)) cw res cw'" by simp
    then show ?thesis by (rule outcome_cong) (simp add: ContiguousBacking)
  next
    case (ScatteredBacking rs)
    then have "res = Err InvalidMappingShape" "cw' = cw"
      using run src Contiguous by (simp_all add: cursor_map_def)
    then show ?thesis using outcome_error [OF inv] by simp
  qed
next
  case (Scattered granule)
  then have "map_scattered E root rg backing (mf_leaf flags) granule cw = (res, cw')"
    using run src by (simp add: cursor_map_def)
  then show ?thesis by (rule map_scattered_outcome [OF inv f rg b])
qed

section \<open>\<open>PageTableWalker::map\<close>\<close>

lemma cursor_inv_new: "tree_ok E live root w \<Longrightarrow> cursor_inv E live root (cursor_new, w)"
  using flush_inv_empty [of cursor_new] by (simp add: cursor_inv_def cache_ok_new) (simp add: cursor_new_def)

lemma to_flush_new: "to_flush ps cursor_new = {}"
  by (simp add: to_flush_def covered_def cursor_new_def)

lemma cursor_finish_state:
  "mem (cursor_finish E (c, w)) = mem w" "astate (cursor_finish E (c, w)) = astate w"
  by (simp_all add: cursor_drain flush_pending_def emit_def Let_def)

lemma map_via_cursor_run:
  assumes "tree_ok E live root w" "flags_ok (mf_leaf flags)" "range_ok rg" "backing_ok backing"
    and run: "map_via_cursor E root rg backing flags w = (res, w')"
  obtains c1 w1 where "map_outcome E live root (rng_start rg) (unat (range_size (e_addr E) rg))
      (backing_paddr (e_addr E) backing) (norm (mf_leaf flags)) (cursor_new, w) res (c1, w1)"
    "w' = cursor_finish E (c1, w1)"
    "cursor_map E root rg (FromBacking backing) flags (cursor_new, w) = (res, (c1, w1))"
proof -
  obtain r c1 w1 where r: "cursor_map E root rg (FromBacking backing) flags (cursor_new, w) = (r, (c1, w1))"
    by (metis prod_cases3)
  note out = cursor_map_outcome [OF cursor_inv_new [OF assms(1)] assms(2-4) _ r]
  have np: "r \<noteq> Panic" using out by (simp add: map_outcome_def)
  then have "res = r" "w' = cursor_finish E (c1, w1)"
    using run r by (cases r; simp add: map_via_cursor_def cursor_finish_drop)+
  then show ?thesis using out r that by simp
qed

lemma map_via_cursor_spec:
  assumes "tree_ok E live root w" "flags_ok (mf_leaf flags)" "range_ok rg" "backing_ok backing"
    and run: "map_via_cursor E root rg backing flags w = (res, w')"
  shows "res \<noteq> Panic \<and> tree_ok E live root w' \<and>
    (\<exists>n\<le>unat (range_size (e_addr E) rg).
       maps_range E root (rng_start rg) n (backing_paddr (e_addr E) backing) (norm (mf_leaf flags)) w w' \<and>
       (res = Ok () \<longrightarrow> n = unat (range_size (e_addr E) rg)))"
proof -
  obtain c1 w1 where out: "map_outcome E live root (rng_start rg) (unat (range_size (e_addr E) rg))
      (backing_paddr (e_addr E) backing) (norm (mf_leaf flags)) (cursor_new, w) res (c1, w1)"
    and w': "w' = cursor_finish E (c1, w1)"
    by (rule map_via_cursor_run [OF assms])
  have "tree_ok E live root w' = tree_ok E live root w1"
    by (rule tree_ok_cong) (simp_all add: w' cursor_finish_state)
  then show ?thesis
    using out by (auto simp: map_outcome_def maps_range_def w' cursor_finish_state)
qed

text \<open>The three ways through \<^verbatim>\<open>map\<close>: refused, through a cursor, or one leaf directly.\<close>

lemma walker_map_cases:
  assumes ok: "tree_ok E live root w" and f: "flags_ok (mf_leaf flags)" and rg: "range_ok rg"
    and src: "into_map_backing (e_addr E) src (range_size (e_addr E) rg) = Ok backing"
    and run: "walker_map E root rg src flags w = (res, w')"
  obtains (refused) x where "res = Err x" "w' = w"
  | (cursor) "map_via_cursor E root rg backing flags w = (res, w')"
  | (direct) phys sz t w1 where "backing = ContiguousBacking phys"
      "range_size (e_addr E) rg = bytes sz" "is_aligned sz (rng_start rg)"
      "vaddr_is_valid (e_meta E) (rng_start rg)" "is_aligned sz (rng_start phys)"
      "paddr_is_valid (e_meta E) (rng_start phys)" "size_to_level (e_meta E) sz = Some t"
      "map_leaf_direct_sized_no_flush E root rg (rng_start phys) (mf_leaf flags) sz t w = (res, w1)"
      "res = Ok () \<and> w' = flush_leaf_range E rg w1 \<or> (\<exists>x. res = Err x) \<and> w' = w1"
proof -
  let ?L = "e_addr E"
  have via: thesis if "mf_contiguity flags \<noteq> Contiguous \<or> (\<forall>p. backing \<noteq> ContiguousBacking p)"
  proof (rule cursor)
    show "map_via_cursor E root rg backing flags w = (res, w')"
      using that run src
      by (cases "mf_contiguity flags"; cases backing) (auto simp: walker_map_def)
  qed
  show thesis
  proof (cases "mf_contiguity flags = Contiguous \<and> (\<exists>p. backing = ContiguousBacking p)")
    case False
    then show thesis using via by blast
  next
    case True
    then obtain phys where c: "mf_contiguity flags = Contiguous" "backing = ContiguousBacking phys" by blast
    show thesis
    proof (cases "range_is_empty ?L phys \<or> range_size ?L rg \<noteq> range_size ?L phys")
      case True
      then show thesis using refused run src c by (auto simp: walker_map_def)
    next
      case False
      show thesis
      proof (cases "exact_leaf_size ?L (e_meta E) rg (rng_start phys) None")
        case (Ok exact)
        show thesis
        proof (cases exact)
          case None
          then show thesis
            using cursor run src c False Ok by (simp add: walker_map_def)
        next
          case (Some st)
          obtain sz t where st: "st = (sz, t)" by fastforce
          note ex = exact_leaf_size_Some [OF Ok [unfolded Some st]]
          obtain rd w1 where d: "map_leaf_direct_sized_no_flush E root rg (rng_start phys)
              (mf_leaf flags) sz t w = (rd, w1)" by fastforce
          show thesis
          proof (cases rd)
            case rd: (Ok u)
            then have "res = Ok ()" "w' = flush_leaf_range E rg w1"
              using run src c False Ok Some st d by (simp_all add: walker_map_def)
            then show thesis using direct [OF c(2) ex] d rd by simp
          next
            case (Err x)
            then have "res = Err x" "w' = w1"
              using run src c False Ok Some st d by (simp_all add: walker_map_def)
            then show thesis using direct [OF c(2) ex] d Err by blast
          next
            case Panic
            then show thesis using map_leaf_direct_query [OF ok ex(6,4,5) f rg ex(1-3) d] by auto
          qed
        qed
      next
        case (Err x)
        then have "res = Err x" "w' = w" using run src c False by (simp_all add: walker_map_def)
        then show thesis by (rule refused)
      next
        case Panic
        then show thesis using exact_leaf_size_not_Panic by blast
      qed
    qed
  qed
qed

lemma walker_map_spec:
  assumes ok: "tree_ok E live root w" and f: "flags_ok (mf_leaf flags)"
    and rg: "range_ok rg" and b: "backing_ok backing"
    and src: "into_map_backing (e_addr E) src (range_size (e_addr E) rg) = Ok backing"
    and run: "walker_map E root rg src flags w = (res, w')"
  shows "res \<noteq> Panic \<and> tree_ok E live root w' \<and>
    (\<exists>n\<le>unat (range_size (e_addr E) rg).
       maps_range E root (rng_start rg) n (backing_paddr (e_addr E) backing) (norm (mf_leaf flags)) w w' \<and>
       (res = Ok () \<longrightarrow> n = unat (range_size (e_addr E) rg)))"
proof (rule walker_map_cases [OF ok f rg src run], goal_cases)
  case (1 x)
  then show ?case using ok by (auto simp: maps_range_0 intro!: exI [of _ 0])
next
  case 2
  then show ?case by (rule map_via_cursor_spec [OF ok f rg b])
next
  case (3 phys sz t w1)
  let ?n = "unat (range_size (e_addr E) rg)" and ?f = "norm (mf_leaf flags)"
  note q = map_leaf_direct_query [OF ok 3(7,5,6) f rg 3(2-4,8)]
  have e: "unat (rng_end rg) = unat (rng_start rg) + ?n" by (rule range_end_nat [OF addr_ok rg])
  from 3(9) show ?case
  proof
    assume r: "res = Ok () \<and> w' = flush_leaf_range E rg w1"
    then have m: "mem w' = mem w1" by (simp add: flush_leaf_range_state)
    from q r have new: "\<forall>v. query E root v (mem w1) =
        (if in_range rg v then Ok (mapping_new rg (rng_start phys) ?f) else query E root v (mem w))"
      and old: "\<forall>v. in_range rg v \<longrightarrow> query E root v (mem w) = Err NotMapped" by simp_all
    have "resolve E root v (mem w1) =
        Ok (rng_start phys + of_nat (unat v - unat (rng_start rg)), ?f)" if "in_range rg v" for v
      using that new by (simp add: resolve_def mapping_new_def of_nat_distance in_range_nat)
    then have "maps_range E root (rng_start rg) ?n (backing_paddr (e_addr E) backing) ?f w w'"
      using new old unfolding maps_range_def in_range_nat e m by (simp add: 3(1))
    moreover have "tree_ok E live root w'" using q r by simp
    ultimately show ?thesis using r by blast
  next
    assume "(\<exists>x. res = Err x) \<and> w' = w1"
    then show ?thesis using q by (auto simp: maps_range_0 intro!: exI [of _ 0])
  qed
qed

text \<open>A leaf range with a mapped address anywhere in it is refused, and nothing changes.\<close>

lemma map_leaf_direct_occupied:
  assumes sz: "size_to_level (e_meta E) sz = Some t"
    and rg: "range_ok rg" "range_size (e_addr E) rg = bytes sz" "is_aligned sz (rng_start rg)"
      "vaddr_is_valid (e_meta E) (rng_start rg)"
    and q: "query E root v (mem w) = Ok mp" "in_range rg v"
  shows "map_leaf_direct_sized_no_flush E root rg p flags sz t w = (Err AlreadyMapped, w)"
proof -
  note tl = size_to_level_size [OF sz]
  obtain k e where v: "vaddr_is_valid (e_meta E) v" "root_view E w root v = Ok (k, e)"
    by (rule query_OkD [OF q(1)])
  have "same_path (e_meta E) t (rng_start rg) v"
    using in_range_path [OF leaf_range_exact [OF addr_ok rg(1-3)] tl(3,1,2) rg(4) v(1)] q(2) by simp
  then show ?thesis by (rule map_leaf_direct_conflict [OF v(2) tl(1,2)])
qed

lemma walker_map_occupied:
  assumes src: "into_map_backing (e_addr E) src (range_size (e_addr E) rg) = Ok (ContiguousBacking phys)"
    and c: "mf_contiguity flags = Contiguous" "range_size (e_addr E) phys = range_size (e_addr E) rg"
      "range_ok rg" "range_ok phys"
    and ex: "exact_leaf_size (e_addr E) (e_meta E) rg (rng_start phys) None = Ok (Some st)"
    and q: "query E root v (mem w) = Ok mp" "in_range rg v"
  shows "walker_map E root rg src flags w = (Err AlreadyMapped, w)"
proof -
  obtain sz t where st: "st = (sz, t)" by fastforce
  note e = exact_leaf_size_Some [OF ex [unfolded st]]
  have d: "map_leaf_direct_sized_no_flush E root rg (rng_start phys) (mf_leaf flags) sz t w = (Err AlreadyMapped, w)"
    by (rule map_leaf_direct_occupied [OF e(6) c(3) e(1-3) q])
  have "rng_end phys - rng_start phys = bytes sz"
    using c(2,4) e(1) addr_size [OF addr_ok] by (simp add: range_ok_def)
  then have "\<not> range_is_empty (e_addr E) phys"
    using c(4) addr_is_empty [OF addr_ok, of phys] bytes_pos [of sz] by (auto simp: range_ok_def)
  then show ?thesis using src c(1,2) ex d by (simp add: walker_map_def st)
qed

end

end
