(* ===== verification/CursorOps.thy ===== *)
theory CursorOps
  imports MapApiSpec
begin

text \<open>
  The other operations of the cursor: remap and protect leave the cached path alone because they
  replace a leaf by a leaf, unmap drops it. Each queues the range it changed.
\<close>

context walker
begin

text \<open>Rewriting an entry without a subtree by another one keeps every table where it is.\<close>

lemma table_at_plain:
  assumes "distinct (tables E m l r)" "table_at E m l r v t = Some f" "l \<le> LEVELS (e_meta E)"
    and "updates E (set (tables E m l r)) f (index_at (e_meta E) t v) e m m'"
    and old: "child E t (read_entry E m f (index_at (e_meta E) t v)) = None" and new: "child E t e = None"
  shows "table_at E m' l r u k = table_at E m l r u k"
  using assms(1-4)
proof (induction l arbitrary: r)
  case 0
  then show ?case by simp
next
  case (Suc l)
  let ?i = "index_at (e_meta E) (Suc l) v" and ?j = "index_at (e_meta E) (Suc l) u"
  let ?x = "read_entry E m r ?j"
  have rd: "read_entry E m' r ?j = (if r = f \<and> ?j = index_at (e_meta E) t v then e else ?x)"
    using Suc.prems(3)
    by (intro updates_read [OF Suc.prems(4)] root_in_tables index_less_entries) simp_all
  have off: "table_at E m' (Suc l) r u k = table_at E m (Suc l) r u k"
    if "read_entry E m' r ?j = ?x" "f \<notin> set (below E m (Suc l) ?x)"
  proof (cases "child E (Suc l) ?x")
    case (Some h)
    have "same_entries E (set (tables E m l h)) m m'"
      using updates_same [OF Suc.prems(4) below_in_tables [OF Suc.prems(3)] that(2)]
      by (simp add: child_below [OF Some])
    then have "table_at E m' l h u k = table_at E m l h u k"
      using Suc.prems(3) by (intro table_at_cong) simp_all
    then show ?thesis using that(1) Some by simp
  qed (simp add: that(1))
  show ?case
  proof (cases "t = Suc l")
    case True
    then have f: "f = r" using Suc.prems(2) by simp
    show ?thesis
    proof (cases "?j = ?i")
      case True
      then have "child E (Suc l) ?x = None" "child E (Suc l) (read_entry E m' r ?j) = None"
        using old new rd \<open>t = Suc l\<close> f by simp_all
      then show ?thesis by simp
    next
      case False
      show ?thesis
        using rd False \<open>t = Suc l\<close> f root_not_below [OF Suc.prems(1,3)] by (intro off) simp_all
    qed
  next
    case False
    then obtain h where h: "child E (Suc l) (read_entry E m r ?i) = Some h"
      and ta: "table_at E m l h v t = Some f"
      using Suc.prems(2) table_at_child by blast
    have fin: "f \<in> set (below E m (Suc l) (read_entry E m r ?i))"
      using table_at_in_tables [OF ta] Suc.prems(3) child_below [OF h] by simp
    then have "f \<noteq> r" using root_not_below [OF Suc.prems(1,3)] by blast
    with rd have r': "read_entry E m' r ?j = ?x" by simp
    show ?thesis
    proof (cases "?j = ?i")
      case True
      have dis: "distinct (tables E m l h)"
        using distinct_tables_Suc(1) [OF Suc.prems(1) index_less_entries [OF Suc.prems(3), of v]]
          child_below [OF h] by simp
      have "table_at E m' l h u k = table_at E m l h u k"
        using Suc.prems(3) updates_mono [OF Suc.prems(4) child_in_tables [OF Suc.prems(3) h]]
        by (intro Suc.IH [OF dis ta]) simp_all
      then show ?thesis using True r' h by simp
    next
      case False
      then show ?thesis
        using below_disjoint [OF Suc.prems(1,3) False] fin by (intro off [OF r']) blast
    qed
  qed
qed

lemma replace_leaf_tables:
  assumes ok: "tree_ok E live root w"
    and slot: "exact_leaf_slot E root rg (mem w) = Ok (c, i, e, sz)"
    and p: "is_aligned sz p" "paddr_is_valid (e_meta E) p" "flags_ok flags"
    and w': "w' = store E c i (new_leaf (e_pte E) p flags sz) w"
  shows "root_table_at E w' root u k = root_table_at E w root u k"
proof -
  from slot obtain t where t: "root_table_at E w root (rng_start rg) t = Some c"
    "i = index_at (e_meta E) t (rng_start rg)" "e = read_entry E (mem w) c i"
    "child E t e = None" "leaf_size_at_level (e_meta E) t = Some sz"
    "root_view E w root (rng_start rg) = Ok (t, e)"
    by (rule exact_leaf_slot_Ok) blast
  have sup: "level_supports_leaf (e_meta E) t sz"
    using tree_okD(4) [OF ok t(6)] t(5) by (simp add: leaf_ok_def)
  note lv = table_frame_ok(4,5) [OF ok t(1)] and cf = table_frame_ok [OF ok t(1)]
  have upd: "updates E (set (root_tables E w root)) c (index_at (e_meta E) t (rng_start rg))
      (new_leaf (e_pte E) p flags sz) (mem w) (mem w')"
    using store_updates [OF _ cf(1,6)] tree_okD(2) [OF ok] by (simp add: w' store_def t(2))
  show ?thesis
    by (rule table_at_plain [OF tree_okD(1) [OF ok] t(1) order.refl upd])
      (use t leaf_encoding(1) [OF sup lv p] in simp_all)
qed

lemma remap_tables:
  assumes ok: "tree_ok E live root w" and f: "flags_ok flags"
    and run: "remap_no_flush E root rg p flags w = (res, w')"
  shows "root_table_at E w' root u k = root_table_at E w root u k"
proof (cases "check_paddr (e_meta E) p = Ok () \<and>
    (\<exists>c i e sz. exact_leaf_slot E root rg (mem w) = Ok (c, i, e, sz) \<and> is_aligned sz p)")
  case True
  then obtain c i e sz where s: "exact_leaf_slot E root rg (mem w) = Ok (c, i, e, sz)" "is_aligned sz p"
    and v: "paddr_is_valid (e_meta E) p"
    by (auto simp: check_paddr_def split: if_splits)
  have "w' = store E c i (new_leaf (e_pte E) p flags sz) w"
    using run s v by (simp add: remap_no_flush_def check_paddr_def)
  then show ?thesis by (rule replace_leaf_tables [OF ok s v f])
next
  case False
  then have "w' = w"
    using run by (cases "exact_leaf_slot E root rg (mem w)")
      (auto simp: remap_no_flush_def check_paddr_def split: if_splits)
  then show ?thesis by simp
qed

lemma protect_tables:
  assumes ok: "tree_ok E live root w" and f: "flags_ok flags"
    and run: "protect_no_flush E root rg flags w = (res, w')"
  shows "root_table_at E w' root u k = root_table_at E w root u k"
proof (cases "exact_leaf_slot E root rg (mem w)")
  case (Ok slot)
  obtain c i e sz where s: "slot = (c, i, e, sz)" by (cases slot) auto
  from Ok [unfolded s] obtain t where t: "leaf_size_at_level (e_meta E) t = Some sz"
    "root_view E w root (rng_start rg) = Ok (t, e)" "is_present (e_pte E) e" "entry_kind (e_pte E) e t = Leaf"
    by (rule exact_leaf_slot_Ok) blast
  let ?p = "pte_paddr (e_pte E) e"
  have "is_aligned sz ?p" using tree_okD(4) [OF ok t(2)] t(1) by (simp add: leaf_ok_def)
  moreover have "paddr_is_valid (e_meta E) ?p" using decoded_paddr t(3,4) .
  moreover have "w' = store E c i (new_leaf (e_pte E) ?p flags sz) w"
    using run Ok by (simp add: protect_no_flush_def s Let_def)
  ultimately show ?thesis by (rule replace_leaf_tables [OF ok Ok [unfolded s] _ _ f])
next
  case (Err x)
  then show ?thesis using run by (simp add: protect_no_flush_def)
next
  case Panic
  then show ?thesis using run by (simp add: protect_no_flush_def)
qed

section \<open>Effects and queueing\<close>

lemma mapped_range:
  fixes w :: "('s, 'h) world"
  assumes "query E root (rng_start rg) (mem w) = Ok mp" "m_range mp = rg"
  shows "page_range base rg" "in_range rg v \<Longrightarrow> vaddr_is_valid (e_meta E) v"
proof -
  let ?a = "rng_start rg"
  from assms obtain t e sz where val: "vaddr_is_valid (e_meta E) ?a"
    and vw: "root_view E w root ?a = Ok (t, e)" and sz: "leaf_size_at_level (e_meta E) t = Some sz"
    and lr: "leaf_range (e_addr E) ?a sz = Ok rg"
    by (metis query_OkD)
  from vw obtain f where "find_leaf E (mem w) (LEVELS (e_meta E)) root ?a = Ok (t, f, e)"
    by (auto simp: view_def bind_res_eq_Ok)
  from find_leaf_table_at [OF this] have "root_table_at E w root ?a t = Some f" by blast
  then have t: "1 \<le> t" "t \<le> LEVELS (e_meta E)" using table_at_level by blast+
  then have sh: "level_shift (e_meta E) t = size_shift sz" using leaf_size sz by blast
  from lr obtain x where x: "checked_add (?a AND NOT (mask (size_shift sz))) (bytes sz) = Some x"
    "rg = \<lparr>rng_start = ?a AND NOT (mask (size_shift sz)), rng_end = x\<rparr>"
    using addr_ok by (auto simp: leaf_range_Ok)
  then have st: "?a AND NOT (mask (size_shift sz)) = ?a" "rng_end rg = x"
    by (metis addr_range.select_convs(1), metis addr_range.select_convs(2))
  have e: "unat (rng_end rg) = unat ?a + 2 ^ size_shift sz"
    using checked_add_Some [OF x(1) [unfolded st(1)]] unfolding st(2) unat_bytes by (rule conjunct2)
  have al: "2 ^ size_shift sz dvd unat ?a"
    using unat_block_base [of ?a "size_shift sz"] unfolding st(1) by (metis dvd_triv_right)
  have le: "size_shift base \<le> size_shift sz"
    using shift_mono [OF order.refl t] shift_base sh by simp
  then have d: "2 ^ size_shift base dvd (2 :: nat) ^ size_shift sz" by (rule le_imp_power_dvd)
  show "page_range base rg"
    unfolding page_range_def word_less_nat_alt e using d dvd_trans [OF d al] by (simp add: dvd_add)
  show "vaddr_is_valid (e_meta E) v" if "in_range rg v"
  proof -
    have "drop_bit (size_shift sz) v = drop_bit (size_shift sz) ?a"
      using leaf_range_mem [OF addr_ok lr, of v] that by (simp add: in_range_def)
    then show ?thesis using valid_block [OF val t, of v] by (simp add: sh)
  qed
qed

text \<open>Queueing the range of a changed leaf restores the invariant of the cursor.\<close>

lemma queued_effect:
  assumes inv: "cursor_inv E live root (c, w)" and ok: "tree_ok E live root w'"
    and rg: "query E root (rng_start rg) (mem w) = Ok mp" "m_range mp = rg"
    and same: "same_queue c c1" and cache: "cache_ok E root c1 w'"
    and q: "\<And>v. \<not> in_range rg v \<Longrightarrow> query E root v (mem w') = query E root v (mem w)"
  shows "cursor_inv E live root (queue_flush_range E rg c1, w') \<and>
    covers E root (c, w) (queue_flush_range E rg c1, w')"
proof -
  have fl: "flush_inv base c" using inv by (simp add: cursor_inv_def)
  note cv = covers_queued [OF fl mapped_range [OF rg] same_queue_flush_range [OF same] q]
  have "cache_ok E root (queue_flush_range E rg c1) w'"
    using cache by (simp add: cache_ok_def queue_flush_range_cursor)
  then show ?thesis using cv ok by (simp add: cursor_inv_def)
qed

lemma cache_ok_tables:
  assumes "cache_ok E root c w" "\<And>u k. root_table_at E w' root u k = root_table_at E w root u k"
  shows "cache_ok E root c w'"
  using assms by (simp add: cache_ok_def path_cache_def)

lemma cursor_remap_effect:
  assumes inv: "cursor_inv E live root cw" and f: "flags_ok flags"
    and run: "cursor_remap E root rg p flags cw = (res, cw')"
  shows "res \<noteq> Panic \<and> cursor_inv E live root cw' \<and> covers E root cw cw' \<and>
    (no_invalid E root (snd cw) \<longrightarrow> no_invalid E root (snd cw'))"
proof -
  obtain c w where cw: "cw = (c, w)" by fastforce
  obtain r w1 where r: "remap_no_flush E root rg p flags w = (r, w1)" by fastforce
  have ok: "tree_ok E live root w" and cache: "cache_ok E root c w"
    using inv by (simp_all add: cursor_inv_def cw)
  from remap_no_flush_spec [OF ok f r] consider
    (changed) "r = Ok (mapping_new rg p flags)" "exact_mapped E root rg w" "tree_ok E live root w1"
      "\<forall>v'. query E root v' (mem w1) =
          (if in_range rg v' then Ok (mapping_new rg p (norm flags)) else query E root v' (mem w))"
    | (failed) x where "r = Err x" "w1 = w" by blast
  then show ?thesis
  proof cases
    case changed
    have e: "res = r" "cw' = (queue_flush_range E rg c, w1)"
      using run r changed(1) by (simp_all add: cursor_remap_def cw mapping_new_def)
    from changed(2) obtain mp where mp: "query E root (rng_start rg) (mem w) = Ok mp" "m_range mp = rg"
      by (auto simp: exact_mapped_def)
    have "cache_ok E root c w1" by (rule cache_ok_tables [OF cache remap_tables [OF ok f r]])
    from queued_effect [OF inv [unfolded cw] changed(3) mp same_queue_simps(1) this] changed(4)
    have "cursor_inv E live root cw' \<and> covers E root cw cw'" by (simp add: e cw)
    moreover have "no_invalid E root w \<longrightarrow> no_invalid E root w1"
      using changed(4) by (simp add: no_invalid_def)
    ultimately show ?thesis using changed(1) by (simp add: e cw)
  next
    case failed
    then have "res = Err x" "cw' = cw" using run r by (simp_all add: cursor_remap_def cw)
    then show ?thesis using inv covers_same [of c c E root w w] by (simp add: cw)
  qed
qed

lemma cursor_protect_effect:
  assumes inv: "cursor_inv E live root cw" and f: "flags_ok flags"
    and run: "cursor_protect E root rg flags cw = (res, cw')"
  shows "res \<noteq> Panic \<and> cursor_inv E live root cw' \<and> covers E root cw cw' \<and>
    (no_invalid E root (snd cw) \<longrightarrow> no_invalid E root (snd cw'))"
proof -
  obtain c w where cw: "cw = (c, w)" by fastforce
  obtain r w1 where r: "protect_no_flush E root rg flags w = (r, w1)" by fastforce
  have ok: "tree_ok E live root w" and cache: "cache_ok E root c w"
    using inv by (simp_all add: cursor_inv_def cw)
  from protect_no_flush_spec [OF ok f r] consider
    (changed) mp where "query E root (rng_start rg) (mem w) = Ok mp" "m_range mp = rg"
      "r = Ok (mapping_new rg (m_paddr mp) flags)" "tree_ok E live root w1"
      "\<forall>v'. query E root v' (mem w1) =
          (if in_range rg v' then Ok (mapping_new rg (m_paddr mp) (norm flags))
           else query E root v' (mem w))"
    | (failed) x where "r = Err x" "w1 = w" by blast
  then show ?thesis
  proof cases
    case changed
    have e: "res = r" "cw' = (queue_flush_range E rg c, w1)"
      using run r changed(3) by (simp_all add: cursor_protect_def cw mapping_new_def)
    have "cache_ok E root c w1" by (rule cache_ok_tables [OF cache protect_tables [OF ok f r]])
    from queued_effect [OF inv [unfolded cw] changed(4,1,2) same_queue_simps(1) this] changed(5)
    have "cursor_inv E live root cw' \<and> covers E root cw cw'" by (simp add: e cw)
    moreover have "no_invalid E root w \<longrightarrow> no_invalid E root w1"
      using changed(5) by (simp add: no_invalid_def)
    ultimately show ?thesis using changed(3) by (simp add: e cw)
  next
    case failed
    then have "res = Err x" "cw' = cw" using run r by (simp_all add: cursor_protect_def cw)
    then show ?thesis using inv covers_same [of c c E root w w] by (simp add: cw)
  qed
qed

end

section \<open>Unmapping through the cursor\<close>

context walker
begin

lemma cursor_unmap_effect:
  assumes inv: "cursor_inv E live root cw" and total: "dealloc_total E live"
    and run: "cursor_unmap E root rg cw = (res, cw')"
  shows "res \<noteq> Panic \<and> cursor_inv E live root cw' \<and> covers E root cw cw' \<and>
    (no_invalid E root (snd cw) \<longrightarrow> no_invalid E root (snd cw'))"
proof -
  obtain c w where cw: "cw = (c, w)" by fastforce
  let ?c = "(invalidate_below (LEVELS (e_meta E)) c)\<lparr>last_vaddr := None\<rparr>"
  obtain r w1 where r: "unmap_no_flush E root rg w = (r, w1)" by fastforce
  have ok: "tree_ok E live root w" and cache: "cache_ok E root c w" and fl: "flush_inv base c"
    using inv by (simp_all add: cursor_inv_def cw)
  have dl: "length (descent c) = MAX_LEVELS" using cache by (simp add: cache_ok_def)
  have same: "same_queue c ?c" using same_queue_trans [OF same_queue_simps(4,3)] .
  have cache': "cache_ok E root ?c w'" for w' :: "('s, 'h) world"
    using nth_invalidate_below(2) [OF dl, of 1] by (intro cache_ok_dropped) (simp_all add: MAX_LEVELS_def)
  from unmap_no_flush_spec [OF ok r] consider
    (changed) mp where "query E root (rng_start rg) (mem w) = Ok mp" "m_range mp = rg" "r = Ok mp"
      "tree_ok E live root w1" "\<forall>v'. query E root v' (mem w1) =
         (if in_range rg v' then Err NotMapped else query E root v' (mem w))"
    | (failed) x where "r = Err x" "w1 = w"
    using total by blast
  then show ?thesis
  proof cases
    case changed
    have e: "res = r" "cw' = (queue_flush_range E rg ?c, w1)"
      using run r changed(2,3) by (simp_all add: cursor_unmap_def cw Let_def)
    from queued_effect [OF inv [unfolded cw] changed(4,1,2) same cache'] changed(5)
    have "cursor_inv E live root cw' \<and> covers E root cw cw'" by (simp add: e cw)
    moreover have "no_invalid E root w \<longrightarrow> no_invalid E root w1"
      using changed(5) by (simp add: no_invalid_def)
    ultimately show ?thesis using changed(3) by (simp add: e cw)
  next
    case failed
    then have e: "res = Err x" "cw' = (?c, w)" using run r by (simp_all add: cursor_unmap_def cw Let_def)
    have "flush_inv base ?c" using fl flush_inv_same [OF same] by simp
    then have "cursor_inv E live root cw'" using ok cache' by (simp add: cursor_inv_def e)
    then show ?thesis using covers_same [OF same, of E root w w] by (simp add: e cw)
  qed
qed

end

end
