(* ===== verification/Issued.thy ===== *)
theory Issued
  imports CursorOps
begin

text \<open>
  The log only grows: no operation of the walker or of a cursor forgets an event. The instructions that
  an operation issues are therefore the invalidations at the end of the log after it.
\<close>

definition logged :: "('s, 'h) world \<Rightarrow> ('s, 'h) world \<Rightarrow> bool" where
  "logged w w' \<longleftrightarrow> (\<exists>es. log w' = log w @ es)"

definition issued :: "('s, 'h) world \<Rightarrow> ('s, 'h) world \<Rightarrow> 'h list" where
  "issued w w' = List.map_filter (\<lambda>e. case e of Tlb h \<Rightarrow> Some h | Freed r \<Rightarrow> None) (drop (length (log w)) (log w'))"

named_theorems logs

lemma logged_refl [logs, simp]: "logged w w"
  by (simp add: logged_def)

lemma logged_trans: "\<lbrakk>logged w w1; logged w1 w'\<rbrakk> \<Longrightarrow> logged w w'"
  by (auto simp: logged_def)

lemma logged_same: "log w' = log w \<Longrightarrow> logged w w'"
  by (simp add: logged_def)

lemma logged_emit [logs]: "logged w w1 \<Longrightarrow> logged w (emit hs w1)"
  by (auto simp: logged_def emit_def)

lemma logged_store [logs]: "logged w w1 \<Longrightarrow> logged w (store E f i e w1)"
  by (simp add: logged_def store_def)

lemma logged_flush [logs]: "logged w w1 \<Longrightarrow> logged w (flush_leaf_range E rg w1)"
  by (simp add: flush_leaf_range_def Let_def logs)

text \<open>What comes last in an operation is among what the operation issues.\<close>

lemma issued_emit:
  assumes "logged w w1"
  shows "set hs \<subseteq> set (issued w (emit hs w1))"
proof -
  obtain es where es: "log w1 = log w @ es" using assms by (auto simp: logged_def)
  have "List.map_filter (\<lambda>e. case e of Tlb h \<Rightarrow> Some h | Freed r \<Rightarrow> None) (map Tlb hs) = hs"
    by (induction hs) (simp_all add: List.map_filter_simps)
  then show ?thesis by (simp add: issued_def emit_def es List.map_filter_def)
qed

lemma issued_only: "issued w (emit hs w) = hs"
  by (simp add: issued_def emit_def) (induction hs; simp add: List.map_filter_simps)

section \<open>Composition\<close>

lemma logged_bind:
  assumes "logged w (snd p)" "\<And>x. fst p = Ok x \<Longrightarrow> logged w (snd (f x (snd p)))"
  shows "logged w (snd (bind_st p f))"
  using assms by (cases p; cases "fst p") (simp_all add: bind_st_def)

lemma logged_bind_c:
  assumes "logged w (snd (snd p))" "\<And>x. fst p = Ok x \<Longrightarrow> logged w (snd (snd (f x (snd p))))"
  shows "logged w (snd (snd (bind_st p f)))"
  using assms by (cases p; cases "fst p") (simp_all add: bind_st_def)

section \<open>The operations\<close>

lemma call_deallocate_logged: "logged w (snd (call_deallocate E r w))"
  by (simp add: call_deallocate_def logged_def split: prod.split)

lemma alloc_logged: "logged w (snd (alloc_table_frame E w))"
proof -
  obtain res s m where a: "allocate (e_alloc E) (bytes (TABLE_FRAME_SIZE (e_meta E))) (TABLE_FRAME_SIZE (e_meta E))
      (astate w, mem w) = (res, s, m)" by (metis prod_cases3)
  let ?w = "w\<lparr>astate := s, mem := m\<rparr>"
  have l: "logged w ?w" by (simp add: logged_def)
  have d: "logged w (snd (call_deallocate E rg ?w))" for rg
    by (rule logged_trans [OF l call_deallocate_logged])
  show ?thesis
    unfolding alloc_table_frame_def Let_def a prod.case
  proof (rule logged_bind, goal_cases)
    case 1
    show ?case using l by simp
  next
    case (2 rg)
    obtain r u where c: "call_deallocate E rg ?w = (r, u)" by fastforce
    show ?case using d [of rg] l by (cases r) (simp_all add: c)
  qed
qed

lemma dealloc_logged: "logged w (snd (dealloc_table_frame E g w))"
  unfolding dealloc_table_frame_def by (rule logged_bind) (simp_all add: call_deallocate_logged)

lemma map_descend_logged: "logged w (snd (map_descend E target v l cur w))"
proof (induction l arbitrary: cur w)
  case 0
  then show ?case by simp
next
  case (Suc l)
  have tail: "logged w (snd (map_descend E target v l g (store E f i e (snd (alloc_table_frame E w)))))" for g f i e
    by (rule logged_trans [OF logged_store [OF alloc_logged] Suc])
  show ?case by (auto simp: Let_def tail Suc alloc_logged intro!: logged_bind)
qed

lemma map_leaf_direct_logged: "logged w (snd (map_leaf_direct_sized_no_flush E root rg p flags sz target w))"
  unfolding map_leaf_direct_sized_no_flush_def install_leaf_def Let_def
  by (rule logged_bind; simp add: map_descend_logged logs split: prod.split)

lemma remap_logged: "logged w (snd (remap_no_flush E root rg p flags w))"
  unfolding remap_no_flush_def by (intro logged_bind; simp add: logs split: prod.split)

lemma protect_logged: "logged w (snd (protect_no_flush E root rg flags w))"
  unfolding protect_no_flush_def Let_def by (intro logged_bind; simp add: logs split: prod.split)

lemma unmap_descend_logged: "logged w (snd (unmap_descend E rg l cur ps w))"
proof (induction l arbitrary: cur ps)
  case 0
  then show ?case by simp
next
  case (Suc l)
  then show ?case
    by (simp only: unmap_descend.simps Let_def split: if_split)
      (auto intro!: logged_bind logs)
qed

lemma reclaim_logged: "logged w (snd (reclaim E ps g w))"
proof (induction ps arbitrary: g w)
  case Nil
  then show ?case by simp
next
  case (Cons a ps)
  obtain f i where a: "a = (f, i)" by fastforce
  have d: "logged w (snd (dealloc_table_frame E g (store E f i e w)))" for e
    by (rule logged_trans [OF logged_store [OF logged_refl] dealloc_logged])
  show ?case
    by (simp add: a Let_def) (intro impI logged_bind d, rule logged_trans [OF d Cons.IH])
qed

lemma unmap_logged: "logged w (snd (unmap_no_flush E root rg w))"
  unfolding unmap_no_flush_def
proof (intro logged_bind, goal_cases)
  case (3 u x)
  then show ?case
    by (cases x) (auto intro!: logged_bind logged_trans [OF unmap_descend_logged reclaim_logged])
qed (simp_all add: unmap_descend_logged)

section \<open>The cursor\<close>

lemma cursor_descend_logged: "logged w (snd (snd (cursor_descend E target v l cur (c, w))))"
proof (induction l arbitrary: cur c w)
  case 0
  then show ?case by simp
next
  case (Suc l)
  obtain r w1 where a: "alloc_table_frame E w = (r, w1)" by fastforce
  have l1: "logged w w1" using alloc_logged [of w E] by (simp add: a)
  have l2: "logged w (snd (snd (cursor_descend E target v l g (c', store E f i e w1))))" for c' f i e g
    by (rule logged_trans [OF logged_store [OF l1] Suc])
  show ?case
    by (cases r) (auto simp: Let_def a l1 l2 Suc logs intro!: logged_bind_c)
qed

lemma cursor_install_logged:
  "logged w (snd cw) \<Longrightarrow> logged w (snd (snd (cursor_install E rg p flags sz cur level cw)))"
  by (auto simp: cursor_install_def Let_def logged_store split: prod.split)

lemma map_leaf_at_level_logged: "logged (snd cw) (snd (snd (map_leaf_sized_at_level E root rg p flags sz target cw)))"
proof -
  obtain c w where cw: "cw = (c, w)" by fastforce
  show ?thesis
    by (auto simp: map_leaf_sized_at_level_def cw Let_def cursor_descend_logged cursor_install_logged
        intro!: logged_bind_c split: prod.split)
qed

lemma map_leaf_logged: "logged (snd cw) (snd (snd (map_leaf E root rg p flags cw)))"
  unfolding map_leaf_def map_leaf_sized_def
  by (intro logged_bind_c; auto intro!: logged_bind_c map_leaf_at_level_logged)

lemma map_contiguous_loop_logged: "logged (snd cw) (snd (snd (map_contiguous_loop E root rg phys flags fixed tot offset cw)))"
proof (induction "unat tot - unat offset" arbitrary: offset cw rule: less_induct)
  case less
  have leaf: "logged (snd cw) b" if "map_leaf E root lf p flags cw = (r, (a, b))" for lf p r a b
    using map_leaf_logged [of cw E root lf p flags] by (simp add: that)
  have step: "logged (snd cw) (snd (snd (map_contiguous_loop E root rg phys flags fixed tot (offset + bytes sz) (a, b))))"
    if "map_leaf E root lf p flags cw = (r, (a, b))" "next_leaf_size (e_meta E) fixed v q (tot - offset) = Ok sz"
      "offset < tot" for lf p r a b v q sz
  proof -
    have "logged (snd (a, b)) (snd (snd (map_contiguous_loop E root rg phys flags fixed tot (offset + bytes sz) (a, b))))"
      by (rule less, rule offset_step_decreases(1) [OF that(3) next_leaf_size_fits [OF that(2)]])
    then show ?thesis using logged_trans [OF leaf [OF that(1)]] by simp
  qed
  show ?case
    by (subst map_contiguous_loop.simps) (auto dest: leaf step split: res.splits option.splits prod.splits)
qed

lemma map_contiguous_logged: "logged (snd cw) (snd (snd (map_contiguous E root rg phys flags fixed cw)))"
  unfolding map_contiguous_def Let_def
  by (auto intro!: logged_bind_c map_leaf_at_level_logged map_contiguous_loop_logged split: option.split)

lemma map_segments_logged: "logged (snd cw) (snd (snd (map_segments E root rg flags granule segs offset cw)))"
proof (induction segs arbitrary: offset cw)
  case Nil
  then show ?case by simp
next
  case (Cons phys segs)
  show ?case
    unfolding map_segments.simps
  proof (intro logged_bind_c, goal_cases)
    case (3 v vr)
    then show ?case by (simp add: map_contiguous_logged)
  next
    case (4 v vr u)
    have "logged (snd cw) (snd (snd (map_segments E root rg flags granule segs off
        (snd (map_contiguous E root vr phys flags (Some granule) cw)))))" for off
      by (rule logged_trans [OF map_contiguous_logged Cons])
    then show ?case by (auto simp: map_contiguous_logged split: option.split)
  qed simp_all
qed

lemma cursor_map_logged: "logged (snd cw) (snd (snd (cursor_map E root rg src flags cw)))"
proof -
  have s: "logged (snd cw) (snd (snd (map_scattered E root rg b f g cw)))" for b f g
    unfolding map_scattered_def Let_def
    by (auto intro!: logged_bind_c map_contiguous_logged map_segments_logged split: map_backing.split)
  show ?thesis
    unfolding cursor_map_def
    by (rule logged_bind_c) (auto simp: s map_contiguous_logged split: contiguity.split map_backing.split)
qed

end
