(* ===== verification/Rv64Vas.thy ===== *)
theory Rv64Vas
  imports Paging
begin

text \<open>
  \<^verbatim>\<open>src/src/arch/riscv64/vas.rs\<close> and \<^verbatim>\<open>tlb.rs\<close>: activation of an address space through \<^verbatim>\<open>satp\<close> and
  the local \<^verbatim>\<open>sfence.vma\<close> invalidation. The state of the CPU is the trace of the privileged
  operations executed so far; what a register reads is a function of that trace and belongs to the
  crate \<^verbatim>\<open>riscv\<close>, as do the type of translation modes (\<open>'m\<close>) and the validity check of
  \<^verbatim>\<open>satp::try_set\<close>.
\<close>

section \<open>Privileged operations\<close>

datatype 'm rv_op =
    SfenceVma vaddr
  | SfenceVmaAll
  | ClearSie
  | SetSie
  | SatpSet 'm usize usize

type_synonym 'm rv_trace = "'m rv_op list"

record 'm riscv_lib =
  sstatus_sie :: "'m rv_trace \<Rightarrow> bool"
  satp_try_set_ok :: "'m \<Rightarrow> usize \<Rightarrow> usize \<Rightarrow> bool"
  satp_try_mode :: "'m rv_trace \<Rightarrow> 'm option"
  satp_asid :: "'m rv_trace \<Rightarrow> usize"
  satp_ppn :: "'m rv_trace \<Rightarrow> usize"

section \<open>TLB invalidation\<close>

definition Rv64Tlb :: "'m rv_op tlb_impl" where
  "Rv64Tlb =
     \<lparr>flush_tlb_local = (\<lambda>v. [SfenceVma v]),
      flush_tlb_all_local = [SfenceVmaAll],
      flush_tlb_range_local = default_flush_tlb_range_local (\<lambda>v. [SfenceVma v]),
      prefer_full_flush = default_prefer_full_flush\<rparr>"

section \<open>Controls and tokens\<close>

record 'm satp_controls =
  sc_mode :: 'm
  sc_asid :: u16
  sc_fence_after :: bool

definition satp_controls_new :: "'m \<Rightarrow> 'm satp_controls" where
  "satp_controls_new mode = \<lparr>sc_mode = mode, sc_asid = 0, sc_fence_after = True\<rparr>"

definition satp_with_asid :: "'m satp_controls \<Rightarrow> u16 \<Rightarrow> 'm satp_controls" where
  "satp_with_asid c asid = c\<lparr>sc_asid := asid\<rparr>"

definition satp_with_fence_after :: "'m satp_controls \<Rightarrow> bool \<Rightarrow> 'm satp_controls" where
  "satp_with_fence_after c fence_after = c\<lparr>sc_fence_after := fence_after\<rparr>"

record 'm satp_token =
  st_root :: paddr
  st_controls :: "'m satp_controls"
  st_ppn :: usize

section \<open>Register access\<close>

definition rv64_ppn_from_root :: "addr_lib \<Rightarrow> paddr \<Rightarrow> usize res" where
  "rv64_ppn_from_root L root =
     (if \<not> addr_is_aligned L root (bytes Size4K) then Err NotAligned
      else let ppn = drop_bit 12 root in
        if 0x0fffffffffff < ppn then Err AddressOutOfRange else Ok ppn)"

definition write_satp_ppn :: "'m riscv_lib \<Rightarrow> usize \<Rightarrow> 'm satp_controls \<Rightarrow> 'm rv_trace \<Rightarrow>
    unit res \<times> 'm rv_trace" where
  "write_satp_ppn R ppn c t =
     (if satp_try_set_ok R (sc_mode c) (ucast (sc_asid c)) ppn
      then (Ok (), t @ [SatpSet (sc_mode c) (ucast (sc_asid c)) ppn])
      else (Err AddressOutOfRange, t))"

definition rv64_with_irq_disabled :: "'m riscv_lib \<Rightarrow> ('m rv_trace \<Rightarrow> 'a \<times> 'm rv_trace) \<Rightarrow>
    'm rv_trace \<Rightarrow> 'a \<times> 'm rv_trace" where
  "rv64_with_irq_disabled R f t =
     (let interrupts_enabled = sstatus_sie R t;
          (result, t) = f (t @ [ClearSie])
      in (result, if interrupts_enabled then t @ [SetSie] else t))"

section \<open>Activation\<close>

text \<open>The closure that \<^verbatim>\<open>write_satp\<close> and \<^verbatim>\<open>activate\<close> run with interrupts disabled.\<close>

definition satp_switch :: "'m riscv_lib \<Rightarrow> usize \<Rightarrow> 'm satp_controls \<Rightarrow> 'm rv_trace \<Rightarrow>
    unit res \<times> 'm rv_trace" where
  "satp_switch R ppn c t =
     bind_st (write_satp_ppn R ppn c t) (\<lambda>_ t.
     (Ok (), if sc_fence_after c then t @ [SfenceVmaAll] else t))"

definition write_satp :: "addr_lib \<Rightarrow> 'm riscv_lib \<Rightarrow> paddr \<Rightarrow> 'm satp_controls \<Rightarrow> 'm rv_trace \<Rightarrow>
    unit res \<times> 'm rv_trace" where
  "write_satp L R root c t =
     bind_st (rv64_ppn_from_root L root, t) (\<lambda>ppn t. rv64_with_irq_disabled R (satp_switch R ppn c) t)"

definition rv64_install :: "addr_lib \<Rightarrow> paddr \<Rightarrow> 'm satp_controls \<Rightarrow> 'm satp_token res" where
  "rv64_install L root c =
     bind_res (rv64_ppn_from_root L root) (\<lambda>ppn.
     Ok \<lparr>st_root = root, st_controls = c, st_ppn = ppn\<rparr>)"

definition rv64_activate :: "'m riscv_lib \<Rightarrow> 'm satp_token \<Rightarrow> 'm rv_trace \<Rightarrow> unit res \<times> 'm rv_trace" where
  "rv64_activate R token t =
     rv64_with_irq_disabled R (satp_switch R (st_ppn token) (st_controls token)) t"

definition rv64_current :: "'m riscv_lib \<Rightarrow> 'm rv_trace \<Rightarrow> 'm satp_token option res \<times> 'm rv_trace" where
  "rv64_current R t =
     rv64_with_irq_disabled R (\<lambda>t.
       (case satp_try_mode R t of
          None \<Rightarrow> (Err InvalidMappingShape, t)
        | Some mode \<Rightarrow>
            (let controls = satp_with_asid (satp_controls_new mode) (ucast (satp_asid R t));
                 root = push_bit 12 (satp_ppn R t)
             in (Ok (Some \<lparr>st_root = root, st_controls = controls, st_ppn = satp_ppn R t\<rparr>), t)))) t"

definition Rv64SatpActivation ::
  "addr_lib \<Rightarrow> 'm riscv_lib \<Rightarrow> ('m satp_token, 'm satp_controls, 'm rv_trace) activation_impl" where
  "Rv64SatpActivation L R =
     \<lparr>token_root = st_root, install = rv64_install L, activate = rv64_activate R,
      current = rv64_current R, uninstall = default_uninstall\<rparr>"

section \<open>What the code relies on in the register crate\<close>

text \<open>
  \<^verbatim>\<open>satp\<close> reads back what the last write put there, and the interrupt-enable bit follows the last
  write to it; neither is affected by other operations.
\<close>

fun last_satp :: "'m rv_trace \<Rightarrow> ('m \<times> usize \<times> usize) option" where
  "last_satp [] = None"
| "last_satp (op # t) =
     (case last_satp t of
        Some s \<Rightarrow> Some s
      | None \<Rightarrow> (case op of SatpSet m a p \<Rightarrow> Some (m, a, p) | _ \<Rightarrow> None))"

definition riscv_ok :: "'m riscv_lib \<Rightarrow> bool" where
  "riscv_ok R \<longleftrightarrow>
     (\<forall>t m a p. last_satp t = Some (m, a, p) \<longrightarrow>
        satp_try_mode R t = Some m \<and> satp_asid R t = a \<and> satp_ppn R t = p) \<and>
     (\<forall>t. \<not> sstatus_sie R (t @ [ClearSie])) \<and> (\<forall>t. sstatus_sie R (t @ [SetSie])) \<and>
     (\<forall>t op. op \<noteq> ClearSie \<and> op \<noteq> SetSie \<longrightarrow> sstatus_sie R (t @ [op]) = sstatus_sie R t)"

lemma last_satp_append:
  "last_satp (t @ u) = (case last_satp u of Some s \<Rightarrow> Some s | None \<Rightarrow> last_satp t)"
  by (induction t) (auto split: option.splits)

text \<open>An instance: a CPU that remembers.\<close>

definition ref_riscv :: "unit riscv_lib" where
  "ref_riscv =
     \<lparr>sstatus_sie = (\<lambda>t. case rev (filter (\<lambda>op. op = ClearSie \<or> op = SetSie) t) of
        [] \<Rightarrow> True | op # _ \<Rightarrow> op = SetSie),
      satp_try_set_ok = (\<lambda>_ _ ppn. ppn < push_bit 44 1),
      satp_try_mode = (\<lambda>t. map_option fst (last_satp t)),
      satp_asid = (\<lambda>t. case last_satp t of None \<Rightarrow> 0 | Some (_, a, _) \<Rightarrow> a),
      satp_ppn = (\<lambda>t. case last_satp t of None \<Rightarrow> 0 | Some (_, _, p) \<Rightarrow> p)\<rparr>"

lemma ref_riscv_ok: "riscv_ok ref_riscv"
  by (auto simp: riscv_ok_def ref_riscv_def)

section \<open>Activation is exclusive and observable\<close>

text \<open>Interrupts are off while the closure runs and afterwards are as they were.\<close>

lemma rv64_irq_restored:
  assumes "riscv_ok R" "rv64_with_irq_disabled R f t = (r, t')"
    and "\<And>u. sstatus_sie R (snd (f u)) = sstatus_sie R u"
  shows "sstatus_sie R t' = sstatus_sie R t"
  using assms by (auto simp: rv64_with_irq_disabled_def riscv_ok_def Let_def split: prod.splits if_splits)
    (metis snd_conv)+

lemma satp_switch_cases:
  "satp_switch R ppn c t =
     (if satp_try_set_ok R (sc_mode c) (ucast (sc_asid c)) ppn
      then (Ok (), t @ [SatpSet (sc_mode c) (ucast (sc_asid c)) ppn] @
                   (if sc_fence_after c then [SfenceVmaAll] else []))
      else (Err AddressOutOfRange, t))"
  by (simp add: satp_switch_def write_satp_ppn_def)

lemma satp_switch_sie: "riscv_ok R \<Longrightarrow> sstatus_sie R (snd (satp_switch R ppn c t)) = sstatus_sie R t"
proof -
  assume R: "riscv_ok R"
  have step: "op \<noteq> ClearSie \<Longrightarrow> op \<noteq> SetSie \<Longrightarrow> sstatus_sie R (u @ [op]) = sstatus_sie R u" for u op
    using R by (simp add: riscv_ok_def)
  show ?thesis
    using step [of SfenceVmaAll "t @ [SatpSet (sc_mode c) (ucast (sc_asid c)) ppn]"]
    by (simp add: satp_switch_cases step)
qed

lemma rv64_activate_cases:
  "rv64_activate R token t =
     (if satp_try_set_ok R (sc_mode (st_controls token)) (ucast (sc_asid (st_controls token))) (st_ppn token)
      then (Ok (), t @ [ClearSie, SatpSet (sc_mode (st_controls token))
              (ucast (sc_asid (st_controls token))) (st_ppn token)] @
              (if sc_fence_after (st_controls token) then [SfenceVmaAll] else []) @
              (if sstatus_sie R t then [SetSie] else []))
      else (Err AddressOutOfRange, t @ [ClearSie] @ (if sstatus_sie R t then [SetSie] else [])))"
  by (simp add: rv64_activate_def rv64_with_irq_disabled_def satp_switch_cases Let_def)

lemma rv64_ppn_from_root_Ok:
  assumes "addr_lib_ok L" "rv64_ppn_from_root L root = Ok ppn"
  shows "root AND mask 12 = 0" "ppn = drop_bit 12 root" "push_bit 12 ppn = root" "ppn < push_bit 44 1"
proof -
  have p: "bytes Size4K = push_bit 12 1" by (simp add: bytes_push_bit)
  show a: "root AND mask 12 = 0"
    using assms addr_is_aligned [OF assms(1), of 12 root]
    unfolding rv64_ppn_from_root_def p by (simp split: if_splits)
  show d: "ppn = drop_bit 12 root"
    using assms(2) by (auto simp: rv64_ppn_from_root_def Let_def split: if_splits)
  show "push_bit 12 ppn = root" unfolding d by (rule aligned_push_drop [OF a])
  have "ppn \<le> 0x0fffffffffff"
    using assms(2) by (auto simp: rv64_ppn_from_root_def Let_def not_less split: if_splits)
  also have "(0x0fffffffffff :: u64) < push_bit 44 1" by simp
  finally show "ppn < push_bit 44 1" .
qed

text \<open>A token that was installed and activated is the one the CPU reports.\<close>

lemma rv64_activate_current:
  assumes R: "riscv_ok R" and L: "addr_lib_ok L"
    and inst: "rv64_install L root c = Ok token" and act: "rv64_activate R token t = (Ok (), t')"
  shows "fst (rv64_current R t') =
    Ok (Some \<lparr>st_root = root, st_controls = satp_with_fence_after c True, st_ppn = drop_bit 12 root\<rparr>)"
proof -
  obtain ppn where ppn: "rv64_ppn_from_root L root = Ok ppn"
    and tok: "token = \<lparr>st_root = root, st_controls = c, st_ppn = ppn\<rparr>"
    using inst by (auto simp: rv64_install_def bind_res_eq_Ok)
  note facts = rv64_ppn_from_root_Ok [OF L ppn]
  have "last_satp (t' @ [ClearSie]) = Some (sc_mode c, ucast (sc_asid c), ppn)"
    using act by (auto simp: rv64_activate_cases tok last_satp_append split: if_splits)
  then have "satp_try_mode R (t' @ [ClearSie]) = Some (sc_mode c)"
    "satp_asid R (t' @ [ClearSie]) = ucast (sc_asid c)" "satp_ppn R (t' @ [ClearSie]) = ppn"
    using R by (auto simp: riscv_ok_def)
  moreover have "(ucast (ucast (sc_asid c) :: u64) :: u16) = sc_asid c"
    by (rule bit_word_eqI) (auto simp: bit_unsigned_iff dest: bit_imp_le_length)
  ultimately show ?thesis
    using facts by (simp add: rv64_current_def rv64_with_irq_disabled_def Let_def satp_controls_new_def
        satp_with_asid_def satp_with_fence_after_def)
qed

end
