(* ===== verification/Canonical.thy ===== *)
theory Canonical
  imports Paging
begin

text \<open>
  Canonical virtual addresses. The three architecture modules each carry a private copy of
  \<^verbatim>\<open>canonical_vaddr_is_valid\<close>; what the test means is stated once here, over the bits of
  the address, together with the fact that makes the radix walk injective: two canonical
  addresses that agree below the address width agree everywhere.
\<close>

definition canonical :: "nat \<Rightarrow> vaddr \<Rightarrow> bool" where
  "canonical bits v \<longleftrightarrow> (\<forall>n. bits - 1 \<le> n \<and> n < 64 \<longrightarrow> bit v n = bit v (bits - 1))"

text \<open>The arithmetic test of the sources is the bit-level definition.\<close>

lemma canonical_test:
  assumes "0 < bits" "bits < 64"
  shows "(if v AND push_bit (bits - 1) 1 \<noteq> 0
          then drop_bit bits v = push_bit (64 - bits) 1 - 1
          else drop_bit bits v = 0) \<longleftrightarrow> canonical bits v"
proof -
  have m: "push_bit (64 - bits) 1 - 1 = (mask (64 - bits) :: u64)"
    by (simp add: mask_eq_exp_minus_1)
  have ones: "drop_bit bits v = push_bit (64 - bits) 1 - 1 \<longleftrightarrow>
      (\<forall>n. bits \<le> n \<and> n < 64 \<longrightarrow> bit v n)" (is "?l \<longleftrightarrow> ?r")
  proof
    assume ?l
    show ?r
    proof (intro allI impI)
      fix n assume n: "bits \<le> n \<and> n < 64"
      have "bit (drop_bit bits v) (n - bits)"
        using \<open>?l\<close> n unfolding m by (auto simp: bit_mask_word)
      with n show "bit v n" by (simp add: bit_drop_bit_eq)
    qed
  next
    assume ?r
    then show ?l
      unfolding m using assms
      by (intro bit_word_eqI) (auto simp: bit_drop_bit_eq bit_mask_word dest: bit_imp_le_length)
  qed
  have zeros: "drop_bit bits v = 0 \<longleftrightarrow> (\<forall>n. bits \<le> n \<and> n < 64 \<longrightarrow> \<not> bit v n)"
    using drop_bit_eq_iff_bits [of bits v 0] by simp (metis bit_u64_less)
  have split: "canonical bits v \<longleftrightarrow>
      (\<forall>n. bits \<le> n \<and> n < 64 \<longrightarrow> bit v n = bit v (bits - 1))"
  proof
    assume "canonical bits v"
    then show "\<forall>n. bits \<le> n \<and> n < 64 \<longrightarrow> bit v n = bit v (bits - 1)"
      unfolding canonical_def by (meson diff_le_self le_trans)
  next
    assume h: "\<forall>n. bits \<le> n \<and> n < 64 \<longrightarrow> bit v n = bit v (bits - 1)"
    show "canonical bits v"
      unfolding canonical_def
    proof (intro allI impI)
      fix n assume n: "bits - 1 \<le> n \<and> n < 64"
      show "bit v n = bit v (bits - 1)"
        using h n by (cases "n = bits - 1") auto
    qed
  qed
  have gen: "(if b then (\<forall>n. P n \<longrightarrow> Q n) else (\<forall>n. P n \<longrightarrow> \<not> Q n)) \<longleftrightarrow>
      (\<forall>n. P n \<longrightarrow> Q n = b)" for b and P Q :: "nat \<Rightarrow> bool"
    by (cases b) auto
  show ?thesis
    by (simp only: and_bit_one ones zeros split gen)
qed

lemma canonical_agree:
  assumes "canonical bits v" "canonical bits v'" "0 < bits" "bits < 64"
    and "bit v (bits - 1) = bit v' (bits - 1)" and "bits \<le> n"
  shows "bit v n = bit v' n"
proof (cases "n < 64")
  case True
  have "bits - 1 \<le> n" using assms(6) by simp
  with True assms(1,2) have "bit v n = bit v (bits - 1)" "bit v' n = bit v' (bits - 1)"
    unfolding canonical_def by blast+
  with assms(5) show ?thesis by blast
next
  case False
  then show ?thesis by (metis bit_u64_less)
qed

lemma canonical_cong:
  assumes "canonical bits v" "\<forall>n\<ge>bits - 1. bit v n = bit v' n"
  shows "canonical bits v'"
  unfolding canonical_def
proof (intro allI impI)
  fix n assume n: "bits - 1 \<le> n \<and> n < 64"
  then have "bit v' n = bit v n" "bit v' (bits - 1) = bit v (bits - 1)"
    using assms(2) by (metis, metis order.refl)
  then show "bit v' n = bit v' (bits - 1)" using assms(1) n unfolding canonical_def by blast
qed

section \<open>Physical addresses below a power of two\<close>

lemma default_paddr_valid_bits:
  "k < 64 \<Longrightarrow> default_paddr_is_valid k p \<longleftrightarrow> (\<forall>n\<ge>k. \<not> bit p n)"
  unfolding default_paddr_is_valid_def by (simp add: word_less_push_bit del: push_bit_of_1)

lemma aligned_4k: "is_aligned sz p \<Longrightarrow> p AND mask 12 = 0"
  using size_shift_less(3) [of sz] by (auto simp: is_aligned_mask aligned_iff_bits)

text \<open>Canonical addresses as numbers: the lower and the upper half.\<close>

lemma bits_zero_nat: "(\<forall>i. k \<le> i \<and> i < 64 \<longrightarrow> \<not> bit (v :: u64) i) \<longleftrightarrow> unat v < 2 ^ k"
proof -
  have "(\<forall>i. k \<le> i \<and> i < 64 \<longrightarrow> \<not> bit v i) \<longleftrightarrow> drop_bit k v = 0"
    using drop_bit_eq_iff_bits [of k v 0] by simp (metis bit_u64_less)
  also have "\<dots> \<longleftrightarrow> unat v div 2 ^ k = 0"
    by (metis unat_drop_bit_eq drop_bit_eq_div unat_eq_zero)
  finally show ?thesis by (simp add: div_eq_0_iff)
qed

lemma canonical_nat:
  assumes "1 \<le> n" "n \<le> 64"
  shows "canonical n v \<longleftrightarrow> unat v < 2 ^ (n - 1) \<or> 2 ^ 64 - 2 ^ (n - 1) \<le> unat v"
proof -
  let ?k = "n - 1"
  have c: "canonical n v \<longleftrightarrow> (\<forall>i. ?k \<le> i \<and> i < 64 \<longrightarrow> \<not> bit v i) \<or> (\<forall>i. ?k \<le> i \<and> i < 64 \<longrightarrow> \<not> bit (NOT v) i)"
    using assms by (cases "bit v ?k") (auto simp: canonical_def bit_not_iff)
  have "NOT v = - 1 - v" by (simp add: not_eq_complement)
  moreover have "unat (- 1 - v) = unat (- 1 :: u64) - unat v" by (rule unat_sub) simp
  moreover have "unat (- 1 :: u64) = 2 ^ 64 - 1" by (simp add: unsigned_minus_1_eq_mask mask_eq_exp_minus_1)
  ultimately have "unat (NOT v) = 2 ^ 64 - 1 - unat v" by metis
  then have "unat (NOT v) < 2 ^ ?k \<longleftrightarrow> 2 ^ 64 - 2 ^ ?k \<le> unat v"
    using unat_u64_less [of v] by auto
  then show ?thesis unfolding c bits_zero_nat by simp
qed
end
