(* ===== verification/A64Entry.thy ===== *)
theory A64Entry
  imports Canonical
begin

text \<open>
  \<^verbatim>\<open>src/src/arch/aarch64/entry.rs\<close>: the AArch64 stage-1 page-table entry over the descriptor type
  \<^verbatim>\<open>TTE64\<close> of the crate \<^verbatim>\<open>aarch64-cpu-ext\<close>, its flag bundle, the MAIR layout behind the cache
  policies, and the metadata of the six granule and address-width combinations. The descriptor
  type is not part of the sources: its operations are an argument (a record), what the code relies
  on is the predicate \<open>tte_ok\<close>.
\<close>

section \<open>MAIR layout\<close>

definition A64_MAIR_WRITEBACK_INDEX :: u64 where "A64_MAIR_WRITEBACK_INDEX = 0"
definition A64_MAIR_DEVICE_INDEX :: u64 where "A64_MAIR_DEVICE_INDEX = 1"
definition A64_MAIR_NORMAL_NC_INDEX :: u64 where "A64_MAIR_NORMAL_NC_INDEX = 2"
definition A64_MAIR_WRITETHROUGH_INDEX :: u64 where "A64_MAIR_WRITETHROUGH_INDEX = 3"

definition A64_MAIR_ATTR_WRITEBACK :: u64 where "A64_MAIR_ATTR_WRITEBACK = 0xff"
definition A64_MAIR_ATTR_DEVICE_NGNRNE :: u64 where "A64_MAIR_ATTR_DEVICE_NGNRNE = 0x00"
definition A64_MAIR_ATTR_NORMAL_NC :: u64 where "A64_MAIR_ATTR_NORMAL_NC = 0x44"
definition A64_MAIR_ATTR_WRITETHROUGH :: u64 where "A64_MAIR_ATTR_WRITETHROUGH = 0xbb"

definition A64_MAIR_EL1_VALUE :: u64 where
  "A64_MAIR_EL1_VALUE =
     A64_MAIR_ATTR_WRITEBACK
     OR push_bit (unat (A64_MAIR_DEVICE_INDEX * 8)) A64_MAIR_ATTR_DEVICE_NGNRNE
     OR push_bit (unat (A64_MAIR_NORMAL_NC_INDEX * 8)) A64_MAIR_ATTR_NORMAL_NC
     OR push_bit (unat (A64_MAIR_WRITETHROUGH_INDEX * 8)) A64_MAIR_ATTR_WRITETHROUGH"

lemmas a64_index_defs = A64_MAIR_WRITEBACK_INDEX_def A64_MAIR_DEVICE_INDEX_def
  A64_MAIR_NORMAL_NC_INDEX_def A64_MAIR_WRITETHROUGH_INDEX_def

lemmas a64_mair_defs = a64_index_defs A64_MAIR_ATTR_WRITEBACK_def A64_MAIR_ATTR_DEVICE_NGNRNE_def
  A64_MAIR_ATTR_NORMAL_NC_def A64_MAIR_ATTR_WRITETHROUGH_def A64_MAIR_EL1_VALUE_def

section \<open>The descriptor type\<close>

text \<open>
  The enumerations of the descriptor crate that the sources match on, and the operations of
  \<^verbatim>\<open>TTE64<G, O>\<close> that they call; a descriptor is a newtype over its 64 bits (\<^verbatim>\<open>TTE64::new\<close> and
  \<^verbatim>\<open>get\<close> are the identity). A setter returns the changed descriptor.
\<close>

datatype access_permission = PrivilegedReadOnly | PrivilegedReadWrite | ReadOnly | ReadWrite

datatype a64_shareability = A64NonShareable | A64OuterShareable | A64InnerShareable

record tte_lib =
  tte_new_table :: "u64 \<Rightarrow> u64"
  tte_new_block :: "u64 \<Rightarrow> u64"
  tte_address :: "u64 \<Rightarrow> u64"
  tte_is_valid :: "u64 \<Rightarrow> bool"
  tte_is_block :: "u64 \<Rightarrow> bool"
  tte_is_table :: "u64 \<Rightarrow> bool"
  tte_attr_index :: "u64 \<Rightarrow> u64"
  tte_set_attr_index :: "u64 \<Rightarrow> u64 \<Rightarrow> u64"
  tte_access_permission :: "u64 \<Rightarrow> access_permission"
  tte_set_access_permission :: "u64 \<Rightarrow> access_permission \<Rightarrow> u64"
  tte_shareability :: "u64 \<Rightarrow> a64_shareability"
  tte_set_shareability :: "u64 \<Rightarrow> a64_shareability \<Rightarrow> u64"
  tte_is_executable :: "u64 \<Rightarrow> bool"
  tte_set_executable :: "u64 \<Rightarrow> bool \<Rightarrow> u64"
  tte_is_privileged_executable :: "u64 \<Rightarrow> bool"
  tte_set_privileged_executable :: "u64 \<Rightarrow> bool \<Rightarrow> u64"
  tte_is_global :: "u64 \<Rightarrow> bool"
  tte_set_not_global :: "u64 \<Rightarrow> u64"
  allows_privileged_write :: "access_permission \<Rightarrow> bool"
  allows_unprivileged :: "access_permission \<Rightarrow> bool"

section \<open>Flags\<close>

record a64_flags =
  a64_access :: access_flags
  a64_attrs :: memory_attributes

definition a64_flags_default :: a64_flags where
  "a64_flags_default = \<lparr>a64_access = af_empty, a64_attrs = ma_default\<rparr>"

definition a64_flags_new :: "access_flags \<Rightarrow> a64_flags" where
  "a64_flags_new access = \<lparr>a64_access = af_union access AF_READ, a64_attrs = ma_writeback\<rparr>"

definition a64_with_cache :: "a64_flags \<Rightarrow> cache_policy \<Rightarrow> a64_flags" where
  "a64_with_cache f cache = f\<lparr>a64_attrs := ma_with_cache (a64_attrs f) cache\<rparr>"

definition a64_with_attrs :: "a64_flags \<Rightarrow> memory_attributes \<Rightarrow> a64_flags" where
  "a64_with_attrs f attrs = f\<lparr>a64_attrs := attrs\<rparr>"

definition a64_cache :: "a64_flags \<Rightarrow> cache_policy" where
  "a64_cache f = ma_cache (a64_attrs f)"

definition access_to_ap :: "access_flags \<Rightarrow> access_permission" where
  "access_to_ap access =
     (case (af_contains access AF_USER, af_contains access AF_WRITE) of
        (False, False) \<Rightarrow> PrivilegedReadOnly
      | (False, True) \<Rightarrow> PrivilegedReadWrite
      | (True, False) \<Rightarrow> ReadOnly
      | (True, True) \<Rightarrow> ReadWrite)"

fun shareability_to_a64 :: "shareability \<Rightarrow> a64_shareability" where
  "shareability_to_a64 NonShareable = A64NonShareable"
| "shareability_to_a64 Inner = A64InnerShareable"
| "shareability_to_a64 Outer = A64OuterShareable"
| "shareability_to_a64 System = A64OuterShareable"

fun shareability_from_a64 :: "a64_shareability \<Rightarrow> shareability" where
  "shareability_from_a64 A64NonShareable = NonShareable"
| "shareability_from_a64 A64OuterShareable = Outer"
| "shareability_from_a64 A64InnerShareable = Inner"

fun cache_to_attr_index :: "cache_policy \<Rightarrow> u64" where
  "cache_to_attr_index Writeback = A64_MAIR_WRITEBACK_INDEX"
| "cache_to_attr_index Uncached = A64_MAIR_DEVICE_INDEX"
| "cache_to_attr_index WriteCombine = A64_MAIR_NORMAL_NC_INDEX"
| "cache_to_attr_index WriteThrough = A64_MAIR_WRITETHROUGH_INDEX"

definition cache_from_attr_index :: "u64 \<Rightarrow> cache_policy" where
  "cache_from_attr_index index =
     (if index = A64_MAIR_WRITEBACK_INDEX then Writeback
      else if index = A64_MAIR_DEVICE_INDEX then Uncached
      else if index = A64_MAIR_NORMAL_NC_INDEX then WriteCombine
      else if index = A64_MAIR_WRITETHROUGH_INDEX then WriteThrough
      else Writeback)"

definition apply_to_tte :: "tte_lib \<Rightarrow> a64_flags \<Rightarrow> u64 \<Rightarrow> u64" where
  "apply_to_tte T f tte =
     (let access = a64_access f; attrs = a64_attrs f;
          tte = tte_set_attr_index T tte (cache_to_attr_index (ma_cache attrs));
          tte = tte_set_access_permission T tte (access_to_ap access);
          tte = tte_set_shareability T tte (shareability_to_a64 (ma_shareability attrs));
          tte = tte_set_executable T tte (af_contains access AF_EXECUTE);
          tte = tte_set_privileged_executable T tte (af_contains access AF_EXECUTE)
      in if \<not> af_contains access AF_GLOBAL then tte_set_not_global T tte else tte)"

definition from_tte :: "tte_lib \<Rightarrow> u64 \<Rightarrow> a64_flags" where
  "from_tte T tte =
     (let ap = tte_access_permission T tte;
          access = AF_READ;
          access = (if allows_privileged_write T ap then af_union access AF_WRITE else access);
          access = (if allows_unprivileged T ap then af_union access AF_USER else access);
          access = (if tte_is_executable T tte \<or> tte_is_privileged_executable T tte
                    then af_union access AF_EXECUTE else access);
          access = (if tte_is_global T tte then af_union access AF_GLOBAL else access);
          share = shareability_from_a64 (tte_shareability T tte);
          coher = (if share = NonShareable then NonCoherent else Coherent)
      in \<lparr>a64_access = access,
          a64_attrs = ma_new (cache_from_attr_index (tte_attr_index T tte)) share coher\<rparr>)"

section \<open>Entries\<close>

definition a64_new_leaf :: "tte_lib \<Rightarrow> paddr \<Rightarrow> a64_flags \<Rightarrow> page_size \<Rightarrow> u64" where
  "a64_new_leaf T p f sz =
     (let tte = (if sz = Size4K \<or> sz = Size16K \<or> sz = Size64K then tte_new_table T p
                 else tte_new_block T p)
      in apply_to_tte T f tte)"

definition a64_new_table :: "tte_lib \<Rightarrow> paddr \<Rightarrow> nat \<Rightarrow> u64" where
  "a64_new_table T p level = tte_new_table T p"

definition a64_entry_kind :: "tte_lib \<Rightarrow> u64 \<Rightarrow> nat \<Rightarrow> pte_kind" where
  "a64_entry_kind T e level =
     (if \<not> tte_is_valid T e then Invalid
      else if level = 1 \<or> tte_is_block T e then Leaf
      else if tte_is_table T e then Table
      else Invalid)"

definition a64_pte_clear :: "u64 \<Rightarrow> u64" where
  "a64_pte_clear e = 0"

definition a64_pte_from_bits :: "u64 \<Rightarrow> u64" where
  "a64_pte_from_bits b = b"

definition A64PteFor :: "tte_lib \<Rightarrow> a64_flags pte_impl" where
  "A64PteFor T =
     \<lparr>new_leaf = a64_new_leaf T, new_table = a64_new_table T, pte_paddr = tte_address T,
      pte_flags = from_tte T, is_present = tte_is_valid T, entry_kind = a64_entry_kind T,
      pte_clear = a64_pte_clear, pte_from_bits = a64_pte_from_bits\<rparr>"

text \<open>
  The generic parameters of \<^verbatim>\<open>TTE64\<close>, and the six entry types of the macro \<^verbatim>\<open>define_a64_pte!\<close>; the
  descriptor crate is a family of operations, one per granule and output width.
\<close>

datatype granule = Granule4KB | Granule16KB | Granule64KB

datatype oa = OA48 | OA52

type_synonym tte_family = "granule \<Rightarrow> oa \<Rightarrow> tte_lib"

definition A64Pte4K48 :: "tte_family \<Rightarrow> a64_flags pte_impl" where
  "A64Pte4K48 F = A64PteFor (F Granule4KB OA48)"
definition A64Pte4K52 :: "tte_family \<Rightarrow> a64_flags pte_impl" where
  "A64Pte4K52 F = A64PteFor (F Granule4KB OA52)"
definition A64Pte16K48 :: "tte_family \<Rightarrow> a64_flags pte_impl" where
  "A64Pte16K48 F = A64PteFor (F Granule16KB OA48)"
definition A64Pte16K52 :: "tte_family \<Rightarrow> a64_flags pte_impl" where
  "A64Pte16K52 F = A64PteFor (F Granule16KB OA52)"
definition A64Pte64K48 :: "tte_family \<Rightarrow> a64_flags pte_impl" where
  "A64Pte64K48 F = A64PteFor (F Granule64KB OA48)"
definition A64Pte64K52 :: "tte_family \<Rightarrow> a64_flags pte_impl" where
  "A64Pte64K52 F = A64PteFor (F Granule64KB OA52)"

section \<open>Metadata\<close>

definition a64_canonical_vaddr_is_valid :: "vaddr \<Rightarrow> nat \<Rightarrow> bool" where
  "a64_canonical_vaddr_is_valid v bits =
     (if 64 \<le> bits then True
      else let upper = drop_bit bits v;
               sign_set = (v AND push_bit (bits - 1) 1 \<noteq> 0)
           in if sign_set then upper = push_bit (64 - bits) 1 - 1 else upper = 0)"

definition a64_4k_shift :: "nat \<Rightarrow> nat" where
  "a64_4k_shift level = 12 + (level - 1) * 9"

definition a64_4k_supports_leaf :: "nat \<Rightarrow> page_size \<Rightarrow> bool" where
  "a64_4k_supports_leaf level sz \<longleftrightarrow>
     level = 1 \<and> sz = Size4K \<or> level = 2 \<and> sz = Size2M \<or> level = 3 \<and> sz = Size1G"

definition a64_16k_shift :: "nat \<Rightarrow> nat" where
  "a64_16k_shift level = 14 + (level - 1) * 11"

definition a64_16k_supports_leaf :: "nat \<Rightarrow> page_size \<Rightarrow> bool" where
  "a64_16k_supports_leaf level sz \<longleftrightarrow>
     level = 1 \<and> sz = Size16K \<or> level = 2 \<and> sz = Size32M \<or> level = 3 \<and> sz = Size64G"

definition a64_64k_shift :: "nat \<Rightarrow> nat" where
  "a64_64k_shift level = 16 + (level - 1) * 13"

definition a64_64k_supports_leaf :: "nat \<Rightarrow> page_size \<Rightarrow> bool" where
  "a64_64k_supports_leaf level sz \<longleftrightarrow>
     level = 1 \<and> sz = Size64K \<or> level = 2 \<and> sz = Size512M \<or> level = 3 \<and> sz = Size4T"

definition A64Meta4K48 :: meta_impl where
  "A64Meta4K48 =
     \<lparr>LEVELS = 4, PA_MAX_BITS = 48, VA_MAX_BITS = 48, INDEX_BITS = 9,
      BASE_PAGE_SIZE = Size4K, TABLE_FRAME_SIZE = Size4K, ENTRIES_PER_TABLE = 2 ^ 9,
      level_shift = a64_4k_shift, level_index_bits = (\<lambda>_. 9),
      level_supports_leaf = a64_4k_supports_leaf,
      leaf_size_at_level = default_leaf_size_at_level a64_4k_shift,
      size_to_level = default_size_to_level 4 a64_4k_supports_leaf,
      vaddr_is_valid = (\<lambda>v. a64_canonical_vaddr_is_valid v 48),
      paddr_is_valid = default_paddr_is_valid 48\<rparr>"

definition A64Meta4K52 :: meta_impl where
  "A64Meta4K52 =
     \<lparr>LEVELS = 5, PA_MAX_BITS = 52, VA_MAX_BITS = 52, INDEX_BITS = 9,
      BASE_PAGE_SIZE = Size4K, TABLE_FRAME_SIZE = Size4K, ENTRIES_PER_TABLE = 2 ^ 9,
      level_shift = a64_4k_shift, level_index_bits = (\<lambda>level. if level = 5 then 4 else 9),
      level_supports_leaf = a64_4k_supports_leaf,
      leaf_size_at_level = default_leaf_size_at_level a64_4k_shift,
      size_to_level = default_size_to_level 5 a64_4k_supports_leaf,
      vaddr_is_valid = (\<lambda>v. a64_canonical_vaddr_is_valid v 52),
      paddr_is_valid = default_paddr_is_valid 52\<rparr>"

definition A64Meta16K48 :: meta_impl where
  "A64Meta16K48 =
     \<lparr>LEVELS = 4, PA_MAX_BITS = 48, VA_MAX_BITS = 48, INDEX_BITS = 11,
      BASE_PAGE_SIZE = Size16K, TABLE_FRAME_SIZE = Size16K, ENTRIES_PER_TABLE = 2 ^ 11,
      level_shift = a64_16k_shift, level_index_bits = (\<lambda>level. if level = 4 then 1 else 11),
      level_supports_leaf = a64_16k_supports_leaf,
      leaf_size_at_level = default_leaf_size_at_level a64_16k_shift,
      size_to_level = default_size_to_level 4 a64_16k_supports_leaf,
      vaddr_is_valid = (\<lambda>v. a64_canonical_vaddr_is_valid v 48),
      paddr_is_valid = default_paddr_is_valid 48\<rparr>"

definition A64Meta16K52 :: meta_impl where
  "A64Meta16K52 =
     \<lparr>LEVELS = 4, PA_MAX_BITS = 52, VA_MAX_BITS = 52, INDEX_BITS = 11,
      BASE_PAGE_SIZE = Size16K, TABLE_FRAME_SIZE = Size16K, ENTRIES_PER_TABLE = 2 ^ 11,
      level_shift = a64_16k_shift, level_index_bits = (\<lambda>level. if level = 4 then 5 else 11),
      level_supports_leaf = a64_16k_supports_leaf,
      leaf_size_at_level = default_leaf_size_at_level a64_16k_shift,
      size_to_level = default_size_to_level 4 a64_16k_supports_leaf,
      vaddr_is_valid = (\<lambda>v. a64_canonical_vaddr_is_valid v 52),
      paddr_is_valid = default_paddr_is_valid 52\<rparr>"

definition A64Meta64K48 :: meta_impl where
  "A64Meta64K48 =
     \<lparr>LEVELS = 3, PA_MAX_BITS = 48, VA_MAX_BITS = 48, INDEX_BITS = 13,
      BASE_PAGE_SIZE = Size64K, TABLE_FRAME_SIZE = Size64K, ENTRIES_PER_TABLE = 2 ^ 13,
      level_shift = a64_64k_shift, level_index_bits = (\<lambda>level. if level = 3 then 6 else 13),
      level_supports_leaf = a64_64k_supports_leaf,
      leaf_size_at_level = default_leaf_size_at_level a64_64k_shift,
      size_to_level = default_size_to_level 3 a64_64k_supports_leaf,
      vaddr_is_valid = (\<lambda>v. a64_canonical_vaddr_is_valid v 48),
      paddr_is_valid = default_paddr_is_valid 48\<rparr>"

definition A64Meta64K52 :: meta_impl where
  "A64Meta64K52 =
     \<lparr>LEVELS = 3, PA_MAX_BITS = 52, VA_MAX_BITS = 52, INDEX_BITS = 13,
      BASE_PAGE_SIZE = Size64K, TABLE_FRAME_SIZE = Size64K, ENTRIES_PER_TABLE = 2 ^ 13,
      level_shift = a64_64k_shift, level_index_bits = (\<lambda>level. if level = 3 then 10 else 13),
      level_supports_leaf = a64_64k_supports_leaf,
      leaf_size_at_level = default_leaf_size_at_level a64_64k_shift,
      size_to_level = default_size_to_level 3 a64_64k_supports_leaf,
      vaddr_is_valid = (\<lambda>v. a64_canonical_vaddr_is_valid v 52),
      paddr_is_valid = default_paddr_is_valid 52\<rparr>"

lemmas a64_meta_defs = A64Meta4K48_def A64Meta4K52_def A64Meta16K48_def A64Meta16K52_def
  A64Meta64K48_def A64Meta64K52_def

section \<open>What the code relies on in the descriptor type\<close>

text \<open>
  A descriptor is abstracted to its fields (\<open>tte_view\<close>): validity, kind, output address and the six attribute
  fields. A constructor yields a valid, global descriptor with the given page-aligned address; a
  setter changes its own field (to the values the code writes) and no other; a descriptor of zeros
  is invalid; an output address is page aligned and fits the output width.
\<close>

record tte_fields =
  f_valid :: bool
  f_block :: bool
  f_table :: bool
  f_address :: u64
  f_attr :: u64
  f_ap :: access_permission
  f_share :: a64_shareability
  f_exec :: bool
  f_pexec :: bool
  f_global :: bool

definition tte_view :: "tte_lib \<Rightarrow> u64 \<Rightarrow> tte_fields" where
  "tte_view T t =
     \<lparr>f_valid = tte_is_valid T t, f_block = tte_is_block T t, f_table = tte_is_table T t,
      f_address = tte_address T t, f_attr = tte_attr_index T t, f_ap = tte_access_permission T t,
      f_share = tte_shareability T t, f_exec = tte_is_executable T t,
      f_pexec = tte_is_privileged_executable T t, f_global = tte_is_global T t\<rparr>"

definition tte_setters_ok :: "tte_lib \<Rightarrow> bool" where
  "tte_setters_ok T \<longleftrightarrow>
     (\<forall>t i. i < 8 \<longrightarrow> tte_view T (tte_set_attr_index T t i) = (tte_view T t)\<lparr>f_attr := i\<rparr>) \<and>
     (\<forall>t ap. tte_view T (tte_set_access_permission T t ap) = (tte_view T t)\<lparr>f_ap := ap\<rparr>) \<and>
     (\<forall>t s. tte_view T (tte_set_shareability T t s) = (tte_view T t)\<lparr>f_share := s\<rparr>) \<and>
     (\<forall>t b. tte_view T (tte_set_executable T t b) = (tte_view T t)\<lparr>f_exec := b\<rparr>) \<and>
     (\<forall>t b. tte_view T (tte_set_privileged_executable T t b) = (tte_view T t)\<lparr>f_pexec := b\<rparr>) \<and>
     (\<forall>t. tte_view T (tte_set_not_global T t) = (tte_view T t)\<lparr>f_global := False\<rparr>)"

definition tte_ok :: "tte_lib \<Rightarrow> nat \<Rightarrow> nat \<Rightarrow> bool" where
  "tte_ok T page_bits oa_bits \<longleftrightarrow>
     (\<forall>p. tte_is_valid T (tte_new_table T p) \<and> tte_is_table T (tte_new_table T p) \<and>
          \<not> tte_is_block T (tte_new_table T p) \<and> tte_is_global T (tte_new_table T p)) \<and>
     (\<forall>p. tte_is_valid T (tte_new_block T p) \<and> tte_is_block T (tte_new_block T p) \<and>
          tte_is_global T (tte_new_block T p)) \<and>
     (\<forall>p. p AND mask page_bits = 0 \<and> (\<forall>n\<ge>oa_bits. \<not> bit p n) \<longrightarrow>
          tte_address T (tte_new_table T p) = p \<and> tte_address T (tte_new_block T p) = p) \<and>
     (\<forall>t n. oa_bits \<le> n \<longrightarrow> \<not> bit (tte_address T t) n) \<and>
     \<not> tte_is_valid T 0 \<and>
     (\<forall>ap. allows_privileged_write T ap \<longleftrightarrow> ap = PrivilegedReadWrite \<or> ap = ReadWrite) \<and>
     (\<forall>ap. allows_unprivileged T ap \<longleftrightarrow> ap = ReadOnly \<or> ap = ReadWrite) \<and>
     tte_setters_ok T"

end
