(* ===== verification/A64Vas.thy ===== *)
theory A64Vas
  imports A64Entry
begin

text \<open>
  \<^verbatim>\<open>src/src/arch/aarch64/vas.rs\<close>, \<^verbatim>\<open>tlb.rs\<close> and the MAIR installation of \<^verbatim>\<open>entry.rs\<close>: activation of
  an address space through the EL1 translation registers. The state of the CPU is the trace of the
  register writes, barriers and invalidations executed so far; what a register reads and how the
  fields of a TTBR are packed belongs to the crate \<^verbatim>\<open>aarch64-cpu\<close> and is an argument.
\<close>

section \<open>Privileged operations\<close>

datatype a64_reg = DAIF | MAIR_EL1 | TCR_EL1 | TTBR0_EL1 | TTBR1_EL1 | SCTLR_EL1

datatype a64_op =
    SetReg a64_reg u64
  | IsbSy
  | DsbSy
  | DsbIsh
  | TlbiVaae1is usize
  | TlbiVmalle1is

type_synonym a64_trace = "a64_op list"

datatype a64_ttbr = Ttbr0El1 | Ttbr1El1

record a64_cpu =
  reg_get :: "a64_trace \<Rightarrow> a64_reg \<Rightarrow> u64"
  asid_val :: "a64_ttbr \<Rightarrow> u64 \<Rightarrow> u64"
  baddr_val :: "a64_ttbr \<Rightarrow> u64 \<Rightarrow> u64"
  cnp_val :: "a64_ttbr \<Rightarrow> u64 \<Rightarrow> u64"
  field_add :: "u64 \<Rightarrow> u64 \<Rightarrow> u64"
  asid_read :: "a64_ttbr \<Rightarrow> u64 \<Rightarrow> u64"
  baddr_read :: "u64 \<Rightarrow> u64"
  cnp_read :: "a64_ttbr \<Rightarrow> u64 \<Rightarrow> u64"

section \<open>TLB and MAIR\<close>

definition a64_flush_tlb_local :: "vaddr \<Rightarrow> a64_op list" where
  "a64_flush_tlb_local v = [DsbIsh, TlbiVaae1is v, DsbIsh, IsbSy]"

definition a64_flush_tlb_all_local :: "a64_op list" where
  "a64_flush_tlb_all_local = [DsbIsh, TlbiVmalle1is, DsbIsh, IsbSy]"

definition A64Tlb :: "a64_op tlb_impl" where
  "A64Tlb =
     \<lparr>flush_tlb_local = a64_flush_tlb_local,
      flush_tlb_all_local = a64_flush_tlb_all_local,
      flush_tlb_range_local = default_flush_tlb_range_local a64_flush_tlb_local,
      prefer_full_flush = default_prefer_full_flush\<rparr>"

definition install_a64_mair_el1 :: "a64_trace \<Rightarrow> a64_trace" where
  "install_a64_mair_el1 t = t @ [SetReg MAIR_EL1 A64_MAIR_EL1_VALUE, DsbSy, IsbSy]"

section \<open>Configuration, controls and tokens\<close>

record ttbr_config =
  tc_register :: a64_ttbr
  tc_asid :: u16
  tc_common_not_private :: bool

definition ttbr_config_new :: "a64_ttbr \<Rightarrow> ttbr_config" where
  "ttbr_config_new register = \<lparr>tc_register = register, tc_asid = 0, tc_common_not_private = False\<rparr>"

definition ttbr_with_asid :: "ttbr_config \<Rightarrow> u16 \<Rightarrow> ttbr_config" where
  "ttbr_with_asid c asid = c\<lparr>tc_asid := asid\<rparr>"

definition ttbr_with_common_not_private :: "ttbr_config \<Rightarrow> bool \<Rightarrow> ttbr_config" where
  "ttbr_with_common_not_private c cnp = c\<lparr>tc_common_not_private := cnp\<rparr>"

record a64_controls =
  ac_mair_el1 :: "u64 option"
  ac_tcr_el1 :: "u64 option"
  ac_ttbr :: ttbr_config
  ac_sctlr_el1 :: "u64 option"

definition a64_controls_new :: "ttbr_config \<Rightarrow> a64_controls" where
  "a64_controls_new ttbr =
     \<lparr>ac_mair_el1 = None, ac_tcr_el1 = None, ac_ttbr = ttbr, ac_sctlr_el1 = None\<rparr>"

definition with_mair_el1 :: "a64_controls \<Rightarrow> u64 \<Rightarrow> a64_controls" where
  "with_mair_el1 c value = c\<lparr>ac_mair_el1 := Some value\<rparr>"

definition with_tcr_el1 :: "a64_controls \<Rightarrow> u64 \<Rightarrow> a64_controls" where
  "with_tcr_el1 c value = c\<lparr>ac_tcr_el1 := Some value\<rparr>"

definition with_sctlr_el1 :: "a64_controls \<Rightarrow> u64 \<Rightarrow> a64_controls" where
  "with_sctlr_el1 c value = c\<lparr>ac_sctlr_el1 := Some value\<rparr>"

record a64_token =
  at_root :: paddr
  at_controls :: a64_controls
  at_ttbr_value :: u64

section \<open>Encoding a root\<close>

definition encode_ttbr :: "addr_lib \<Rightarrow> a64_cpu \<Rightarrow> paddr \<Rightarrow> ttbr_config \<Rightarrow> u64 res" where
  "encode_ttbr L A root ttbr =
     (if \<not> addr_is_aligned L root (bytes Size4K) then Err NotAligned
      else if root AND NOT 0x0000fffffffffffe \<noteq> 0 then Err AddressOutOfRange
      else
        let cnp = of_bool (tc_common_not_private ttbr);
            r = tc_register ttbr
        in Ok (field_add A (field_add A (asid_val A r (ucast (tc_asid ttbr))) (baddr_val A r (drop_bit 1 root)))
                 (cnp_val A r cnp)))"

definition ttbr_root :: "a64_cpu \<Rightarrow> u64 \<Rightarrow> u64" where
  "ttbr_root A value = push_bit 1 (baddr_read A value)"

section \<open>Writing registers with interrupts masked\<close>

definition a64_with_irq_disabled :: "a64_cpu \<Rightarrow> (a64_trace \<Rightarrow> 'a \<times> a64_trace) \<Rightarrow> a64_trace \<Rightarrow>
    'a \<times> a64_trace" where
  "a64_with_irq_disabled A f t =
     (let saved = reg_get A t DAIF;
          (result, t) = f (t @ [SetReg DAIF (saved OR push_bit 7 1)])
      in (result, t @ [SetReg DAIF saved]))"

definition write_mair_el1 :: "a64_cpu \<Rightarrow> u64 \<Rightarrow> a64_trace \<Rightarrow> unit \<times> a64_trace" where
  "write_mair_el1 A value t =
     a64_with_irq_disabled A (\<lambda>t. ((), t @ [SetReg MAIR_EL1 value])) t"

definition write_tcr_el1 :: "a64_cpu \<Rightarrow> u64 \<Rightarrow> a64_trace \<Rightarrow> unit \<times> a64_trace" where
  "write_tcr_el1 A value t =
     a64_with_irq_disabled A (\<lambda>t. ((), t @ [SetReg TCR_EL1 value, IsbSy])) t"

definition write_ttbr0_el1 :: "a64_cpu \<Rightarrow> u64 \<Rightarrow> a64_trace \<Rightarrow> unit \<times> a64_trace" where
  "write_ttbr0_el1 A value t =
     a64_with_irq_disabled A (\<lambda>t. ((), t @ [SetReg TTBR0_EL1 value, IsbSy])) t"

definition write_ttbr1_el1 :: "a64_cpu \<Rightarrow> u64 \<Rightarrow> a64_trace \<Rightarrow> unit \<times> a64_trace" where
  "write_ttbr1_el1 A value t =
     a64_with_irq_disabled A (\<lambda>t. ((), t @ [SetReg TTBR1_EL1 value, IsbSy])) t"

definition write_sctlr_el1 :: "a64_cpu \<Rightarrow> u64 \<Rightarrow> a64_trace \<Rightarrow> unit \<times> a64_trace" where
  "write_sctlr_el1 A value t =
     a64_with_irq_disabled A (\<lambda>t. ((), t @ [SetReg SCTLR_EL1 value, IsbSy])) t"

section \<open>Activation\<close>

definition a64_install :: "addr_lib \<Rightarrow> a64_cpu \<Rightarrow> paddr \<Rightarrow> a64_controls \<Rightarrow> a64_token res" where
  "a64_install L A root controls =
     bind_res (encode_ttbr L A root (ac_ttbr controls)) (\<lambda>ttbr_value.
     Ok \<lparr>at_root = root, at_controls = controls, at_ttbr_value = ttbr_value\<rparr>)"

definition ttbr_reg :: "a64_ttbr \<Rightarrow> a64_reg" where
  "ttbr_reg r = (case r of Ttbr0El1 \<Rightarrow> TTBR0_EL1 | Ttbr1El1 \<Rightarrow> TTBR1_EL1)"

definition a64_activate :: "a64_cpu \<Rightarrow> a64_token \<Rightarrow> a64_trace \<Rightarrow> unit res \<times> a64_trace" where
  "a64_activate A token t =
     a64_with_irq_disabled A (\<lambda>t.
       let c = at_controls token;
           t = (case ac_mair_el1 c of None \<Rightarrow> t | Some v \<Rightarrow> t @ [SetReg MAIR_EL1 v]);
           t = (case ac_tcr_el1 c of None \<Rightarrow> t | Some v \<Rightarrow> t @ [SetReg TCR_EL1 v, IsbSy]);
           t = t @ [SetReg (ttbr_reg (tc_register (ac_ttbr c))) (at_ttbr_value token), IsbSy];
           t = (case ac_sctlr_el1 c of None \<Rightarrow> t | Some v \<Rightarrow> t @ [SetReg SCTLR_EL1 v, IsbSy])
       in (Ok (), t)) t"

definition a64_current :: "a64_cpu \<Rightarrow> a64_ttbr \<Rightarrow> a64_trace \<Rightarrow> a64_token option res \<times> a64_trace" where
  "a64_current A current_ttbr t =
     a64_with_irq_disabled A (\<lambda>t.
       let register = current_ttbr;
           ttbr_value = reg_get A t (ttbr_reg register);
           ttbr = ttbr_with_common_not_private
                    (ttbr_with_asid (ttbr_config_new register)
                       (ucast (asid_read A register (reg_get A t (ttbr_reg register)))))
                    (cnp_read A register (reg_get A t (ttbr_reg register)) \<noteq> 0)
       in (Ok (Some
             \<lparr>at_root = ttbr_root A ttbr_value,
              at_controls =
                \<lparr>ac_mair_el1 = Some (reg_get A t MAIR_EL1), ac_tcr_el1 = Some (reg_get A t TCR_EL1),
                 ac_ttbr = ttbr, ac_sctlr_el1 = Some (reg_get A t SCTLR_EL1)\<rparr>,
              at_ttbr_value = ttbr_value\<rparr>), t)) t"

definition A64PagingActivation ::
  "addr_lib \<Rightarrow> a64_cpu \<Rightarrow> a64_ttbr \<Rightarrow> (a64_token, a64_controls, a64_trace) activation_impl" where
  "A64PagingActivation L A current_ttbr =
     \<lparr>token_root = at_root, install = a64_install L A, activate = a64_activate A,
      current = a64_current A current_ttbr, uninstall = default_uninstall\<rparr>"

section \<open>What the code relies on in the register crate\<close>

text \<open>
  A register holds the value of the last write to it and nothing else changes it. In a TTBR the
  ASID is in bits 48 to 63, BADDR in bits 1 to 47, CnP is bit 0; the fields of a sum are united.
\<close>

definition a64_regs_ok :: "a64_cpu \<Rightarrow> bool" where
  "a64_regs_ok A \<longleftrightarrow>
     (\<forall>t op r. reg_get A (t @ [op]) r =
        (case op of SetReg r' v \<Rightarrow> if r' = r then v else reg_get A t r | _ \<Rightarrow> reg_get A t r))"

definition a64_fields_ok :: "a64_cpu \<Rightarrow> bool" where
  "a64_fields_ok A \<longleftrightarrow>
     (\<forall>r x. asid_val A r x = push_bit 48 (take_bit 16 x)) \<and>
     (\<forall>r x. baddr_val A r x = push_bit 1 (take_bit 47 x)) \<and>
     (\<forall>r x. cnp_val A r x = take_bit 1 x) \<and>
     (\<forall>a b. field_add A a b = a OR b) \<and>
     (\<forall>r v. asid_read A r v = drop_bit 48 v) \<and>
     (\<forall>v. baddr_read A v = take_bit 47 (drop_bit 1 v)) \<and>
     (\<forall>r v. cnp_read A r v = take_bit 1 v)"

text \<open>An instance: registers start at zero and remember.\<close>

definition ref_a64_cpu :: a64_cpu where
  "ref_a64_cpu =
     \<lparr>reg_get = (\<lambda>t r. fold (\<lambda>op acc. case op of SetReg r' v \<Rightarrow> if r' = r then v else acc | _ \<Rightarrow> acc) t 0),
      asid_val = (\<lambda>_ x. push_bit 48 (take_bit 16 x)), baddr_val = (\<lambda>_ x. push_bit 1 (take_bit 47 x)),
      cnp_val = (\<lambda>_ x. take_bit 1 x), field_add = (\<lambda>a b. a OR b),
      asid_read = (\<lambda>_ v. drop_bit 48 v), baddr_read = (\<lambda>v. take_bit 47 (drop_bit 1 v)),
      cnp_read = (\<lambda>_ v. take_bit 1 v)\<rparr>"

lemma ref_a64_cpu_ok: "a64_regs_ok ref_a64_cpu" "a64_fields_ok ref_a64_cpu"
  by (simp_all add: a64_regs_ok_def a64_fields_ok_def ref_a64_cpu_def split: a64_op.split)

section \<open>Activation is observable\<close>

lemma reg_get_append:
  assumes "a64_regs_ok A"
  shows "reg_get A (t @ [SetReg r v]) r' = (if r = r' then v else reg_get A t r')"
    and "reg_get A (t @ [IsbSy]) r' = reg_get A t r'"
    and "reg_get A (t @ op # u) r' = reg_get A ((t @ [op]) @ u) r'"
  using assms by (simp_all add: a64_regs_ok_def)

definition ttbr_bits :: "paddr \<Rightarrow> ttbr_config \<Rightarrow> u64" where
  "ttbr_bits root c =
     push_bit 48 (ucast (tc_asid c)) OR root OR of_bool (tc_common_not_private c)"

lemma bit_ttbr_root_mask: "bit (0x0000fffffffffffe :: u64) n \<longleftrightarrow> 1 \<le> n \<and> n < 48"
proof -
  have m: "(0x0000fffffffffffe :: u64) = push_bit 1 (mask 47)" by (simp add: mask_numeral)
  show ?thesis unfolding m bit_push_bit_iff bit_mask_word by auto
qed

lemma bit_baddr: "bit (push_bit 1 (take_bit 47 (drop_bit 1 x)) :: u64) n \<longleftrightarrow> 1 \<le> n \<and> n < 48 \<and> bit x n"
  unfolding bit_push_bit_iff bit_take_bit_iff bit_drop_bit_eq by auto

lemma bit_asid: "bit (push_bit 48 (ucast (a :: u16)) :: u64) n \<longleftrightarrow> 48 \<le> n \<and> n < 64 \<and> bit a (n - 48)"
  by (auto simp: bit_push_bit_iff bit_unsigned_iff)

lemma ttbr_root_fits:
  "root AND NOT 0x0000fffffffffffe = (0 :: u64) \<longleftrightarrow> \<not> bit root 0 \<and> (\<forall>n\<ge>48. \<not> bit root n)"
proof -
  have "root AND NOT 0x0000fffffffffffe \<noteq> 0 \<longleftrightarrow> (\<exists>n. bit root n \<and> n < 64 \<and> \<not> (1 \<le> n \<and> n < 48))"
    unfolding word_nonzero bit_and_iff bit_not_iff bit_ttbr_root_mask by (auto dest: bit_u64_less)
  then show ?thesis by (metis bit_u64_less less_one not_less)
qed

lemma encode_ttbr_Ok_iff:
  assumes "addr_lib_ok L" "a64_fields_ok A"
  shows "encode_ttbr L A root c = Ok v \<longleftrightarrow>
    root AND mask 12 = 0 \<and> (\<forall>n\<ge>48. \<not> bit root n) \<and> v = ttbr_bits root c"
proof -
  have p: "bytes Size4K = push_bit 12 1" by (simp add: bytes_push_bit)
  have al: "addr_is_aligned L root (bytes Size4K) \<longleftrightarrow> root AND mask 12 = 0"
    unfolding p by (rule addr_is_aligned [OF assms(1)]) simp
  have val: "(push_bit 48 (take_bit 16 (ucast (tc_asid c))) OR push_bit 1 (take_bit 47 (drop_bit 1 root))) OR
      take_bit 1 (of_bool (tc_common_not_private c)) = ttbr_bits root c"
    if "root AND mask 12 = 0" "\<forall>n\<ge>48. \<not> bit root n"
  proof -
    have "\<not> bit root 0" using that(1) by (simp add: aligned_iff_bits)
    then have "push_bit 1 (take_bit 47 (drop_bit 1 root)) = root"
      by (intro bit_word_eqI, unfold bit_baddr) (metis less_one not_less that(2))
    moreover have "take_bit 16 (ucast (tc_asid c) :: u64) = ucast (tc_asid c)"
      by (rule bit_word_eqI) (auto simp: bit_take_bit_iff bit_unsigned_iff dest: bit_imp_le_length)
    moreover have "take_bit 1 (of_bool b :: u64) = of_bool b" for b by (cases b) simp_all
    ultimately show ?thesis by (simp only: ttbr_bits_def or.assoc)
  qed
  have sum: "field_add A (field_add A (asid_val A r (ucast (tc_asid c))) (baddr_val A r (drop_bit 1 root)))
      (cnp_val A r (of_bool (tc_common_not_private c))) = ttbr_bits root c"
    if "root AND mask 12 = 0" "\<forall>n\<ge>48. \<not> bit root n" for r
    using assms(2) val [OF that] by (simp only: a64_fields_ok_def)
  have odd: "root AND mask 12 = 0 \<Longrightarrow> \<not> bit root 0" by (simp add: aligned_iff_bits)
  show ?thesis
    unfolding encode_ttbr_def al Let_def ttbr_root_fits
    using sum odd by (cases "root AND mask 12 = 0 \<and> (\<forall>n\<ge>48. \<not> bit root n)") (auto split: if_splits)
qed

text \<open>The fields of an encoded TTBR read back.\<close>

lemma ttbr_fields:
  assumes "a64_fields_ok A" "root AND mask 12 = 0" "\<forall>n\<ge>48. \<not> bit root n"
  shows "ttbr_root A (ttbr_bits root c) = root"
    and "ucast (asid_read A r (ttbr_bits root c)) = tc_asid c"
    and "cnp_read A r (ttbr_bits root c) \<noteq> 0 \<longleftrightarrow> tc_common_not_private c"
proof -
  have z: "\<not> bit root n" if "n < 12" for n using assms(2) that by (simp add: aligned_iff_bits)
  have b: "bit (ttbr_bits root c) n \<longleftrightarrow>
      (if n = 0 then tc_common_not_private c else if n < 48 then bit root n else bit (tc_asid c) (n - 48) \<and> n < 64)"
    for n
    using z [of 0] assms(3) unfolding ttbr_bits_def bit_or_iff bit_asid
    by (cases "n = 0") (auto simp: bit_1_iff not_less)
  show "ttbr_root A (ttbr_bits root c) = root"
  proof (rule bit_word_eqI)
    fix n
    have r: "ttbr_root A x = push_bit 1 (take_bit 47 (drop_bit 1 x))" for x
      using assms(1) by (simp only: ttbr_root_def a64_fields_ok_def)
    show "bit (ttbr_root A (ttbr_bits root c)) n = bit root n"
      using assms(3) z [of n] unfolding r bit_baddr b by (auto simp: not_less)
  qed
  show "ucast (asid_read A r (ttbr_bits root c)) = tc_asid c"
    using assms(1) unfolding a64_fields_ok_def
    by (intro bit_word_eqI) (auto simp: bit_unsigned_iff bit_drop_bit_eq b dest: bit_imp_le_length)
  have "cnp_read A r (ttbr_bits root c) = take_bit 1 (ttbr_bits root c)"
    using assms(1) by (simp only: a64_fields_ok_def)
  moreover have "take_bit 1 x \<noteq> 0 \<longleftrightarrow> bit x 0" for x :: u64
    unfolding word_nonzero bit_take_bit_iff by simp
  ultimately have "cnp_read A r (ttbr_bits root c) \<noteq> 0 \<longleftrightarrow> bit (ttbr_bits root c) 0" by metis
  then show "cnp_read A r (ttbr_bits root c) \<noteq> 0 \<longleftrightarrow> tc_common_not_private c" by (simp add: b)
qed

text \<open>The operations of an activation, in order, with interrupts masked around them.\<close>

definition a64_switch :: "a64_token \<Rightarrow> a64_trace" where
  "a64_switch token =
     (let c = at_controls token in
      (case ac_mair_el1 c of None \<Rightarrow> [] | Some v \<Rightarrow> [SetReg MAIR_EL1 v]) @
      (case ac_tcr_el1 c of None \<Rightarrow> [] | Some v \<Rightarrow> [SetReg TCR_EL1 v, IsbSy]) @
      [SetReg (ttbr_reg (tc_register (ac_ttbr c))) (at_ttbr_value token), IsbSy] @
      (case ac_sctlr_el1 c of None \<Rightarrow> [] | Some v \<Rightarrow> [SetReg SCTLR_EL1 v, IsbSy]))"

lemma a64_activate_trace:
  "a64_activate A token t =
     (Ok (), t @ [SetReg DAIF (reg_get A t DAIF OR push_bit 7 1)] @ a64_switch token @
             [SetReg DAIF (reg_get A t DAIF)])"
  by (simp add: a64_activate_def a64_with_irq_disabled_def a64_switch_def Let_def split: option.split)

text \<open>The value a register holds after a list of operations.\<close>

fun written :: "a64_trace \<Rightarrow> a64_reg \<Rightarrow> u64 option" where
  "written [] r = None"
| "written (op # t) r =
     (case written t r of
        Some v \<Rightarrow> Some v
      | None \<Rightarrow> (case op of SetReg r' v \<Rightarrow> if r' = r then Some v else None | _ \<Rightarrow> None))"

lemma reg_get_written:
  assumes "a64_regs_ok A"
  shows "reg_get A (t @ u) r = (case written u r of Some v \<Rightarrow> v | None \<Rightarrow> reg_get A t r)"
proof (induction u arbitrary: t)
  case Nil
  then show ?case by simp
next
  case (Cons op u)
  have "reg_get A (t @ op # u) r = reg_get A ((t @ [op]) @ u) r" by simp
  also have "\<dots> = (case written u r of Some v \<Rightarrow> v | None \<Rightarrow> reg_get A (t @ [op]) r)" by (rule Cons)
  also have "reg_get A (t @ [op]) r =
      (case op of SetReg r' v \<Rightarrow> if r' = r then v else reg_get A t r | _ \<Rightarrow> reg_get A t r)"
    using assms by (simp add: a64_regs_ok_def)
  finally show ?case by (cases "written u r") (auto split: a64_op.splits)
qed

lemma written_append:
  "written (t @ u) r = (case written u r of Some v \<Rightarrow> Some v | None \<Rightarrow> written t r)"
  by (induction t) (auto split: option.splits)

lemma written_switch:
  "written (a64_switch token) DAIF = None"
  "written (a64_switch token) MAIR_EL1 = ac_mair_el1 (at_controls token)"
  "written (a64_switch token) TCR_EL1 = ac_tcr_el1 (at_controls token)"
  "written (a64_switch token) SCTLR_EL1 = ac_sctlr_el1 (at_controls token)"
  "written (a64_switch token) (ttbr_reg r) =
     (if tc_register (ac_ttbr (at_controls token)) = r then Some (at_ttbr_value token) else None)"
  by (auto simp: a64_switch_def Let_def written_append ttbr_reg_def split: option.splits a64_ttbr.splits)

lemma a64_activate_regs:
  assumes "a64_regs_ok A" "a64_activate A token t = (res, t')"
  shows "reg_get A t' r =
    (case written (a64_switch token) r of Some v \<Rightarrow> v | None \<Rightarrow> reg_get A t r)"
  using assms written_switch(1) [of token]
  by (auto simp: a64_activate_trace reg_get_written written_append split: option.splits a64_reg.splits)

text \<open>A token that was installed and activated is the one the CPU reports.\<close>

lemma a64_activate_current:
  assumes A: "a64_regs_ok A" "a64_fields_ok A" and L: "addr_lib_ok L"
    and inst: "a64_install L A root c = Ok token" and act: "a64_activate A token t = (res, t')"
  shows "fst (a64_current A (tc_register (ac_ttbr c)) t') =
    Ok (Some \<lparr>at_root = root,
              at_controls =
                \<lparr>ac_mair_el1 = Some (case ac_mair_el1 c of Some v \<Rightarrow> v | None \<Rightarrow> reg_get A t MAIR_EL1),
                 ac_tcr_el1 = Some (case ac_tcr_el1 c of Some v \<Rightarrow> v | None \<Rightarrow> reg_get A t TCR_EL1),
                 ac_ttbr = ac_ttbr c,
                 ac_sctlr_el1 = Some (case ac_sctlr_el1 c of Some v \<Rightarrow> v | None \<Rightarrow> reg_get A t SCTLR_EL1)\<rparr>,
              at_ttbr_value = at_ttbr_value token\<rparr>)"
proof -
  obtain v where enc: "encode_ttbr L A root (ac_ttbr c) = Ok v"
    and tok: "token = \<lparr>at_root = root, at_controls = c, at_ttbr_value = v\<rparr>"
    using inst by (auto simp: a64_install_def bind_res_eq_Ok)
  from encode_ttbr_Ok_iff [OF L A(2)] enc
  have root: "root AND mask 12 = 0" "\<forall>n\<ge>48. \<not> bit root n" and v: "v = ttbr_bits root (ac_ttbr c)"
    by blast+
  have keep: "reg_get A (t' @ [SetReg DAIF x]) r = reg_get A t' r" if "r \<noteq> DAIF" for r x
    using that by (simp add: reg_get_append(1) [OF A(1)])
  have regs: "ttbr_reg r \<noteq> DAIF" for r by (cases r) (simp_all add: ttbr_reg_def)
  show ?thesis
    using ttbr_fields [OF A(2) root] a64_activate_regs [OF A(1) act] written_switch [of token]
    by (simp add: a64_current_def a64_with_irq_disabled_def Let_def keep regs tok v
        ttbr_with_common_not_private_def ttbr_with_asid_def ttbr_config_new_def)
qed

end
