(* ===== verification/X86Entry.thy ===== *)
theory X86Entry
  imports Canonical
begin

text \<open>
  \<^verbatim>\<open>src/src/arch/x86_64/entry.rs\<close>: the x86_64 page-table entry, its flag bundle, the PAT
  layout behind the cache-policy bits, and the metadata of 4- and 5-level paging.
\<close>

section \<open>Bit layout\<close>

definition X86_ADDR_MASK :: u64 where "X86_ADDR_MASK = 0x000ffffffffff000"
definition X86_PRESENT :: u64 where "X86_PRESENT = push_bit 0 1"
definition X86_WRITABLE :: u64 where "X86_WRITABLE = push_bit 1 1"
definition X86_USER_ACCESSIBLE :: u64 where "X86_USER_ACCESSIBLE = push_bit 2 1"
definition X86_WRITE_THROUGH :: u64 where "X86_WRITE_THROUGH = push_bit 3 1"
definition X86_NO_CACHE :: u64 where "X86_NO_CACHE = push_bit 4 1"
definition X86_HUGE_PAGE :: u64 where "X86_HUGE_PAGE = push_bit 7 1"
definition X86_GLOBAL :: u64 where "X86_GLOBAL = push_bit 8 1"
definition X86_NO_EXECUTE :: u64 where "X86_NO_EXECUTE = push_bit 63 1"

definition X86_TABLE_FLAGS :: u64 where
  "X86_TABLE_FLAGS = X86_PRESENT OR X86_WRITABLE OR X86_USER_ACCESSIBLE"

definition X86_PAT_WRITEBACK_INDEX :: u8 where "X86_PAT_WRITEBACK_INDEX = 0"
definition X86_PAT_WRITE_THROUGH_INDEX :: u8 where "X86_PAT_WRITE_THROUGH_INDEX = 1"
definition X86_PAT_WRITE_COMBINING_INDEX :: u8 where "X86_PAT_WRITE_COMBINING_INDEX = 2"
definition X86_PAT_UNCACHED_INDEX :: u8 where "X86_PAT_UNCACHED_INDEX = 3"

definition CACHE_PAT_INDEX :: "u64 list" where
  "CACHE_PAT_INDEX =
     [ucast X86_PAT_WRITEBACK_INDEX,
      ucast X86_PAT_UNCACHED_INDEX,
      ucast X86_PAT_WRITE_COMBINING_INDEX,
      ucast X86_PAT_WRITE_THROUGH_INDEX]"

definition X86_PAT_TYPE_UC :: u64 where "X86_PAT_TYPE_UC = 0x00"
definition X86_PAT_TYPE_WC :: u64 where "X86_PAT_TYPE_WC = 0x01"
definition X86_PAT_TYPE_WT :: u64 where "X86_PAT_TYPE_WT = 0x04"
definition X86_PAT_TYPE_WP :: u64 where "X86_PAT_TYPE_WP = 0x05"
definition X86_PAT_TYPE_WB :: u64 where "X86_PAT_TYPE_WB = 0x06"
definition X86_PAT_TYPE_UC_MINUS :: u64 where "X86_PAT_TYPE_UC_MINUS = 0x07"

definition pat_entry :: "u8 \<Rightarrow> u64 \<Rightarrow> u64" where
  "pat_entry index ty = push_bit (unat index * 8) ty"

definition X86_PAT_MSR_VALUE :: u64 where
  "X86_PAT_MSR_VALUE =
     pat_entry 0 X86_PAT_TYPE_WB OR pat_entry 1 X86_PAT_TYPE_WT OR
     pat_entry 2 X86_PAT_TYPE_WC OR pat_entry 3 X86_PAT_TYPE_UC OR
     pat_entry 4 X86_PAT_TYPE_WB OR pat_entry 5 X86_PAT_TYPE_WT OR
     pat_entry 6 X86_PAT_TYPE_UC_MINUS OR pat_entry 7 X86_PAT_TYPE_UC"

lemmas x86_pat_defs = pat_entry_def X86_PAT_MSR_VALUE_def X86_PAT_TYPE_UC_def
  X86_PAT_TYPE_WC_def X86_PAT_TYPE_WT_def X86_PAT_TYPE_WP_def X86_PAT_TYPE_WB_def
  X86_PAT_TYPE_UC_MINUS_def X86_PAT_WRITEBACK_INDEX_def X86_PAT_WRITE_THROUGH_INDEX_def
  X86_PAT_WRITE_COMBINING_INDEX_def X86_PAT_UNCACHED_INDEX_def

lemmas x86_bit_defs = X86_PRESENT_def X86_WRITABLE_def X86_USER_ACCESSIBLE_def
  X86_WRITE_THROUGH_def X86_NO_CACHE_def X86_HUGE_PAGE_def X86_GLOBAL_def X86_NO_EXECUTE_def

lemma bit_X86_ADDR_MASK: "bit X86_ADDR_MASK n \<longleftrightarrow> 12 \<le> n \<and> n < 52"
proof -
  have "X86_ADDR_MASK = push_bit 12 (mask 40)"
    by (simp add: X86_ADDR_MASK_def mask_numeral)
  show ?thesis
    unfolding \<open>X86_ADDR_MASK = _\<close> by (auto simp: bit_push_bit_iff bit_mask_word)
qed

lemma bit_x86_consts:
  "bit X86_PRESENT n \<longleftrightarrow> n = 0"
  "bit X86_WRITABLE n \<longleftrightarrow> n = 1"
  "bit X86_USER_ACCESSIBLE n \<longleftrightarrow> n = 2"
  "bit X86_WRITE_THROUGH n \<longleftrightarrow> n = 3"
  "bit X86_NO_CACHE n \<longleftrightarrow> n = 4"
  "bit X86_HUGE_PAGE n \<longleftrightarrow> n = 7"
  "bit X86_GLOBAL n \<longleftrightarrow> n = 8"
  "bit X86_NO_EXECUTE n \<longleftrightarrow> n = 63"
  unfolding x86_bit_defs bit_push_bit_one by auto

section \<open>Flags\<close>

record x86_flags =
  x86_access :: access_flags
  x86_attrs :: memory_attributes

definition x86_flags_default :: x86_flags where
  "x86_flags_default = \<lparr>x86_access = af_empty, x86_attrs = ma_default\<rparr>"

definition x86_flags_new :: "access_flags \<Rightarrow> x86_flags" where
  "x86_flags_new access = \<lparr>x86_access = af_union access AF_READ, x86_attrs = ma_writeback\<rparr>"

definition x86_with_cache :: "x86_flags \<Rightarrow> cache_policy \<Rightarrow> x86_flags" where
  "x86_with_cache f cache = f\<lparr>x86_attrs := ma_with_cache (x86_attrs f) cache\<rparr>"

definition x86_with_attrs :: "x86_flags \<Rightarrow> memory_attributes \<Rightarrow> x86_flags" where
  "x86_with_attrs f attrs = f\<lparr>x86_attrs := attrs\<rparr>"

definition x86_cache :: "x86_flags \<Rightarrow> cache_policy" where
  "x86_cache f = ma_cache (x86_attrs f)"

definition x86_cache_bits :: "cache_policy \<Rightarrow> u64" where
  "x86_cache_bits cache =
     (let index = CACHE_PAT_INDEX ! cache_as_usize cache in
      push_bit 3 (index AND 0b001) OR push_bit 3 (index AND 0b010))"

definition x86_to_leaf_bits :: "x86_flags \<Rightarrow> page_size \<Rightarrow> u64" where
  "x86_to_leaf_bits f sz =
     (let access = (ucast (af_bits (x86_access f)) :: u64) in
      X86_PRESENT
      OR (access AND ucast (af_bits AF_WRITE))
      OR drop_bit 1 (access AND ucast (af_bits AF_USER))
      OR push_bit 4 (access AND ucast (af_bits AF_GLOBAL))
      OR push_bit 63 (of_bool (access AND ucast (af_bits AF_EXECUTE) = 0))
      OR push_bit 7 (of_bool (sz = Size2M \<or> sz = Size1G))
      OR x86_cache_bits (ma_cache (x86_attrs f)))"

definition x86_flags_from_bits :: "u64 \<Rightarrow> x86_flags" where
  "x86_flags_from_bits b =
     (let access = (ucast (b AND X86_PRESENT) :: u8)
            OR ucast (b AND X86_WRITABLE)
            OR push_bit 1 (ucast (b AND X86_USER_ACCESSIBLE))
            OR ucast (drop_bit 4 (b AND X86_GLOBAL))
            OR push_bit 2 (of_bool (b AND X86_NO_EXECUTE = 0));
          cache = (case (b AND X86_NO_CACHE \<noteq> 0, b AND X86_WRITE_THROUGH \<noteq> 0) of
              (False, False) \<Rightarrow> Writeback
            | (False, True) \<Rightarrow> WriteThrough
            | (True, False) \<Rightarrow> WriteCombine
            | (True, True) \<Rightarrow> Uncached)
      in \<lparr>x86_access = from_bits_truncate access,
          x86_attrs = ma_with_cache ma_writeback cache\<rparr>)"

section \<open>Entries\<close>

definition x86_new_leaf :: "paddr \<Rightarrow> x86_flags \<Rightarrow> page_size \<Rightarrow> u64" where
  "x86_new_leaf p f sz = (p AND X86_ADDR_MASK) OR x86_to_leaf_bits f sz"

definition x86_new_table :: "paddr \<Rightarrow> nat \<Rightarrow> u64" where
  "x86_new_table p level = (p AND X86_ADDR_MASK) OR X86_TABLE_FLAGS"

definition x86_pte_paddr :: "u64 \<Rightarrow> paddr" where
  "x86_pte_paddr e = e AND X86_ADDR_MASK"

definition x86_is_present :: "u64 \<Rightarrow> bool" where
  "x86_is_present e \<longleftrightarrow> e AND X86_PRESENT \<noteq> 0"

definition x86_entry_kind :: "u64 \<Rightarrow> nat \<Rightarrow> pte_kind" where
  "x86_entry_kind e level =
     (if level = 1 \<or> e AND X86_HUGE_PAGE \<noteq> 0 then Leaf else Table)"

definition x86_pte_clear :: "u64 \<Rightarrow> u64" where
  "x86_pte_clear e = 0"

definition x86_pte_from_bits :: "u64 \<Rightarrow> u64" where
  "x86_pte_from_bits b = b"

definition X86Pte :: "x86_flags pte_impl" where
  "X86Pte =
     \<lparr>new_leaf = x86_new_leaf, new_table = x86_new_table, pte_paddr = x86_pte_paddr,
      pte_flags = x86_flags_from_bits, is_present = x86_is_present,
      entry_kind = x86_entry_kind, pte_clear = x86_pte_clear,
      pte_from_bits = x86_pte_from_bits\<rparr>"

section \<open>Metadata\<close>

definition x86_canonical_vaddr_is_valid :: "vaddr \<Rightarrow> nat \<Rightarrow> bool" where
  "x86_canonical_vaddr_is_valid v bits =
     (if 64 \<le> bits then True
      else let upper = drop_bit bits v;
               sign_set = (v AND push_bit (bits - 1) 1 \<noteq> 0)
           in if sign_set then upper = push_bit (64 - bits) 1 - 1 else upper = 0)"

definition x86_level_shift :: "nat \<Rightarrow> nat" where
  "x86_level_shift level = 12 + (level - 1) * 9"

definition x86_level_supports_leaf :: "nat \<Rightarrow> page_size \<Rightarrow> bool" where
  "x86_level_supports_leaf level sz =
     (if level = 1 \<and> sz = Size4K then True
      else if level = 2 \<and> sz = Size2M then True
      else if level = 3 \<and> sz = Size1G then True
      else False)"

definition X86Meta48 :: meta_impl where
  "X86Meta48 =
     \<lparr>LEVELS = 4, PA_MAX_BITS = 52, VA_MAX_BITS = 48, INDEX_BITS = 9,
      BASE_PAGE_SIZE = Size4K, TABLE_FRAME_SIZE = Size4K, ENTRIES_PER_TABLE = 2 ^ 9,
      level_shift = x86_level_shift, level_index_bits = (\<lambda>_. 9),
      level_supports_leaf = x86_level_supports_leaf,
      leaf_size_at_level = default_leaf_size_at_level x86_level_shift,
      size_to_level = default_size_to_level 4 x86_level_supports_leaf,
      vaddr_is_valid = (\<lambda>v. x86_canonical_vaddr_is_valid v 48),
      paddr_is_valid = default_paddr_is_valid 52\<rparr>"

definition X86Meta57 :: meta_impl where
  "X86Meta57 =
     \<lparr>LEVELS = 5, PA_MAX_BITS = 52, VA_MAX_BITS = 57, INDEX_BITS = 9,
      BASE_PAGE_SIZE = Size4K, TABLE_FRAME_SIZE = Size4K, ENTRIES_PER_TABLE = 2 ^ 9,
      level_shift = x86_level_shift, level_index_bits = (\<lambda>_. 9),
      level_supports_leaf = x86_level_supports_leaf,
      leaf_size_at_level = default_leaf_size_at_level x86_level_shift,
      size_to_level = default_size_to_level 5 x86_level_supports_leaf,
      vaddr_is_valid = (\<lambda>v. x86_canonical_vaddr_is_valid v 57),
      paddr_is_valid = default_paddr_is_valid 52\<rparr>"

section \<open>The encoding, bit by bit\<close>

lemma x86_cache_bits_cases:
  "x86_cache_bits Writeback = 0"
  "x86_cache_bits WriteThrough = X86_WRITE_THROUGH"
  "x86_cache_bits WriteCombine = X86_NO_CACHE"
  "x86_cache_bits Uncached = X86_NO_CACHE OR X86_WRITE_THROUGH"
  by (simp_all add: x86_cache_bits_def CACHE_PAT_INDEX_def x86_pat_defs x86_bit_defs)

lemma bit_x86_cache_bits:
  "bit (x86_cache_bits c) n \<longleftrightarrow>
     n = 3 \<and> (c = WriteThrough \<or> c = Uncached) \<or> n = 4 \<and> (c = WriteCombine \<or> c = Uncached)"
  by (cases c) (auto simp: x86_cache_bits_cases bit_x86_consts bit_or_iff)

lemma bit_x86_to_leaf_bits:
  "bit (x86_to_leaf_bits f sz) n \<longleftrightarrow>
     (let a = af_bits (x86_access f); c = ma_cache (x86_attrs f) in
      n = 0 \<or> n = 1 \<and> bit a 1 \<or> n = 2 \<and> bit a 3 \<or> n = 8 \<and> bit a 4 \<or>
      n = 63 \<and> \<not> bit a 2 \<or> n = 7 \<and> (sz = Size2M \<or> sz = Size1G) \<or>
      n = 3 \<and> (c = WriteThrough \<or> c = Uncached) \<or> n = 4 \<and> (c = WriteCombine \<or> c = Uncached))"
proof -
  have ex: "(ucast (af_bits (x86_access f)) :: u64) AND ucast (af_bits AF_EXECUTE) = 0 \<longleftrightarrow>
      \<not> bit (af_bits (x86_access f)) 2"
  proof -
    have "(ucast (af_bits AF_EXECUTE) :: u64) = push_bit 2 1"
      by (simp add: AF_EXECUTE_def)
    show ?thesis
      unfolding \<open>ucast (af_bits AF_EXECUTE) = _\<close> and_bit_one_zero by (simp add: bit_unsigned_iff)
  qed
  let ?a = "af_bits (x86_access f)"
  have w: "bit ((ucast ?a :: u64) AND ucast (af_bits AF_WRITE)) n \<longleftrightarrow> n = 1 \<and> bit ?a 1"
    by (auto simp: bit_and_iff bit_unsigned_iff bit_af_consts)
  have u: "bit (drop_bit 1 ((ucast ?a :: u64) AND ucast (af_bits AF_USER))) n \<longleftrightarrow>
      n = 2 \<and> bit ?a 3"
    by (auto simp: bit_drop_bit_eq bit_and_iff bit_unsigned_iff bit_af_consts)
  have g: "bit (push_bit 4 ((ucast ?a :: u64) AND ucast (af_bits AF_GLOBAL))) n \<longleftrightarrow>
      n = 8 \<and> bit ?a 4"
    by (auto simp: bit_push_bit_iff bit_and_iff bit_unsigned_iff bit_af_consts)
  show ?thesis
    unfolding x86_to_leaf_bits_def Let_def ex bit_or_iff w u g bit_push_bit_of_bool
      bit_x86_cache_bits bit_x86_consts
    by auto
qed

section \<open>What an entry decodes to\<close>

text \<open>The address field survives next to the flag bits.\<close>

lemma x86_flag_bits_disjoint: "x86_to_leaf_bits f sz AND X86_ADDR_MASK = 0"
  by (rule bit_word_eqI)
    (auto simp: bit_and_iff bit_x86_to_leaf_bits bit_X86_ADDR_MASK Let_def)

lemma x86_new_leaf_paddr: "x86_pte_paddr (x86_new_leaf p f sz) = p AND X86_ADDR_MASK"
  by (rule bit_word_eqI)
    (auto simp: x86_pte_paddr_def x86_new_leaf_def bit_and_iff bit_or_iff bit_X86_ADDR_MASK
      bit_x86_to_leaf_bits Let_def)

lemma bit_X86_TABLE_FLAGS: "bit X86_TABLE_FLAGS n \<longleftrightarrow> n = 0 \<or> n = 1 \<or> n = 2"
  by (auto simp: X86_TABLE_FLAGS_def bit_or_iff bit_x86_consts)

lemma x86_new_table_paddr: "x86_pte_paddr (x86_new_table p l) = p AND X86_ADDR_MASK"
  by (rule bit_word_eqI)
    (auto simp: x86_pte_paddr_def x86_new_table_def bit_and_iff bit_or_iff bit_X86_ADDR_MASK
      bit_X86_TABLE_FLAGS)

text \<open>A page-aligned address below \<open>2 ^ 52\<close> fits the field exactly.\<close>

lemma x86_paddr_fits:
  assumes "p AND mask 12 = 0" "default_paddr_is_valid 52 p"
  shows "p AND X86_ADDR_MASK = p"
proof (rule bit_word_eqI)
  fix n
  have "\<forall>n<12. \<not> bit p n" using assms(1) by (simp add: aligned_iff_bits)
  moreover have "\<forall>n\<ge>52. \<not> bit p n"
    using assms(2) by (simp add: default_paddr_is_valid_def word_less_push_bit del: push_bit_of_1)
  ultimately show "bit (p AND X86_ADDR_MASK) n = bit p n"
    by (auto simp: bit_and_iff bit_X86_ADDR_MASK) (meson not_le)+
qed

lemma x86_is_present_bit: "x86_is_present e \<longleftrightarrow> bit e 0"
  unfolding x86_is_present_def X86_PRESENT_def by (rule and_bit_one)

lemma x86_entry_kind_bit: "x86_entry_kind e l = (if l = 1 \<or> bit e 7 then Leaf else Table)"
  unfolding x86_entry_kind_def X86_HUGE_PAGE_def and_bit_one by (rule refl)

lemma bit_x86_new_leaf_low:
  "n < 12 \<Longrightarrow> bit (x86_new_leaf p f sz) n = bit (x86_to_leaf_bits f sz) n"
  by (simp add: x86_new_leaf_def bit_or_iff bit_and_iff bit_X86_ADDR_MASK)

lemma x86_new_leaf_present: "x86_is_present (x86_new_leaf p f sz)"
  by (simp add: x86_is_present_bit bit_x86_new_leaf_low bit_x86_to_leaf_bits Let_def)

lemma x86_new_table_present: "x86_is_present (x86_new_table p l)"
  by (simp add: x86_is_present_bit x86_new_table_def bit_or_iff bit_X86_TABLE_FLAGS)

lemma x86_new_leaf_kind:
  "x86_entry_kind (x86_new_leaf p f sz) l =
     (if l = 1 \<or> sz = Size2M \<or> sz = Size1G then Leaf else Table)"
  by (simp add: x86_entry_kind_bit bit_x86_new_leaf_low bit_x86_to_leaf_bits Let_def)

lemma x86_new_table_kind:
  "x86_entry_kind (x86_new_table p l) l' = (if l' = 1 then Leaf else Table)"
  by (simp add: x86_entry_kind_bit x86_new_table_def bit_or_iff bit_and_iff bit_X86_ADDR_MASK
      bit_X86_TABLE_FLAGS)

lemma bit_x86_new_leaf_63:
  "bit (x86_new_leaf p f sz) 63 \<longleftrightarrow> \<not> bit (af_bits (x86_access f)) 2"
  by (simp add: x86_new_leaf_def bit_or_iff bit_and_iff bit_X86_ADDR_MASK bit_x86_to_leaf_bits
      Let_def)

text \<open>The access bits that decoding reads, one by one.\<close>

lemma bit_x86_decoded_access:
  "bit (af_bits (x86_access (x86_flags_from_bits e))) n \<longleftrightarrow>
     n = 0 \<and> bit e 0 \<or> n = 1 \<and> bit e 1 \<or> n = 3 \<and> bit e 2 \<or> n = 4 \<and> bit e 8 \<or>
     n = 2 \<and> \<not> bit e 63"
proof -
  have p: "bit (ucast (e AND X86_PRESENT) :: u8) n \<longleftrightarrow> n = 0 \<and> bit e 0"
    by (auto simp: bit_and_iff bit_unsigned_iff bit_x86_consts)
  have w: "bit (ucast (e AND X86_WRITABLE) :: u8) n \<longleftrightarrow> n = 1 \<and> bit e 1"
    by (auto simp: bit_and_iff bit_unsigned_iff bit_x86_consts)
  have u: "bit (push_bit 1 (ucast (e AND X86_USER_ACCESSIBLE) :: u8)) n \<longleftrightarrow> n = 3 \<and> bit e 2"
    unfolding bit_push_bit_iff by (auto simp: bit_and_iff bit_unsigned_iff bit_x86_consts)
  have g: "bit (ucast (drop_bit 4 (e AND X86_GLOBAL)) :: u8) n \<longleftrightarrow> n = 4 \<and> bit e 8"
    by (auto simp: bit_drop_bit_eq bit_and_iff bit_unsigned_iff bit_x86_consts)
  have x: "e AND X86_NO_EXECUTE = 0 \<longleftrightarrow> \<not> bit e 63"
    unfolding X86_NO_EXECUTE_def by (rule and_bit_one_zero)
  show ?thesis
    unfolding x86_flags_from_bits_def Let_def x from_bits_truncate_def access_flags.sel
      x86_flags.select_convs bit_and_iff bit_or_iff p w u g bit_push_bit_of_bool bit_0x1f
    by auto
qed

lemma x86_decoded_cache:
  "ma_cache (x86_attrs (x86_flags_from_bits (x86_new_leaf p f sz))) = ma_cache (x86_attrs f)"
proof -
  have "\<And>n. n = 3 \<or> n = 4 \<Longrightarrow> bit (x86_new_leaf p f sz) n = bit (x86_cache_bits (ma_cache (x86_attrs f))) n"
    by (auto simp: bit_x86_new_leaf_low bit_x86_to_leaf_bits bit_x86_cache_bits Let_def)
  then show ?thesis
    unfolding x86_flags_from_bits_def Let_def X86_NO_CACHE_def X86_WRITE_THROUGH_def and_bit_one
    by (cases "ma_cache (x86_attrs f)")
      (simp_all add: bit_x86_cache_bits ma_defs split: bool.split)
qed

lemma x86_decoded_attrs:
  "x86_attrs (x86_flags_from_bits e) =
     ma_with_cache ma_writeback (ma_cache (x86_attrs (x86_flags_from_bits e)))"
  by (simp add: x86_flags_from_bits_def Let_def ma_defs)

text \<open>
  What decoding a leaf returns: readable access, the other four access bits and the cache
  policy as requested; shareability and coherency are the neutral write-back ones, since the
  descriptor has no bits for them.
\<close>

definition x86_normal_flags :: "x86_flags \<Rightarrow> x86_flags" where
  "x86_normal_flags f =
     \<lparr>x86_access = from_bits_truncate (af_bits (af_union (x86_access f) AF_READ)),
      x86_attrs = ma_with_cache ma_writeback (ma_cache (x86_attrs f))\<rparr>"

lemma x86_new_leaf_flags: "x86_flags_from_bits (x86_new_leaf p f sz) = x86_normal_flags f"
proof -
  have "af_bits (x86_access (x86_flags_from_bits (x86_new_leaf p f sz))) =
      af_bits (x86_access (x86_normal_flags f))"
    unfolding u8_eq_iff bit_x86_decoded_access x86_normal_flags_def from_bits_truncate_def
      access_flags.sel x86_flags.select_convs bit_and_iff bit_or_iff bit_0x1f af_union_def
      bit_af_consts
    by (simp add: bit_x86_new_leaf_low bit_x86_new_leaf_63 bit_x86_to_leaf_bits Let_def)
  moreover have "x86_attrs (x86_flags_from_bits (x86_new_leaf p f sz)) =
      x86_attrs (x86_normal_flags f)"
    by (subst x86_decoded_attrs) (simp add: x86_decoded_cache x86_normal_flags_def)
  ultimately show ?thesis
    by (simp add: x86_flags.equality access_flags.expand)
qed

end
