(* ===== verification/X86Vas.thy ===== *)
theory X86Vas
  imports X86Entry
begin

text \<open>
  \<^verbatim>\<open>src/src/arch/x86_64/vas.rs\<close>, \<^verbatim>\<open>tlb.rs\<close> and the PAT installation of \<^verbatim>\<open>entry.rs\<close>: activation of an
  address space through CR0, CR3 and CR4, and the three TLB back ends. The state of the CPU is the
  trace of the privileged operations executed so far; what the control registers read, which
  addresses the address types accept and whether INVLPGB exists belongs to the crate \<^verbatim>\<open>x86_64\<close> and
  is an argument. The flag types of the crate are newtypes over \<^verbatim>\<open>u64\<close>, a \<^verbatim>\<open>Pcid\<close> is its \<^verbatim>\<open>u16\<close>, a
  frame or a page is its start address.
\<close>

section \<open>Privileged operations\<close>

type_synonym pcid = u16

text \<open>
  \<open>X86Abort\<close> marks a panic inside an invalidation: the operations of a TLB back end have no result,
  so the abort is the last operation of the run that ends there.
\<close>

datatype x86_op =
    Cli
  | Sti
  | Cr0Write u64
  | Cr4Write u64
  | Cr3Write paddr u64
  | Cr3WritePcid paddr pcid
  | Cr3WritePcidNoFlush paddr pcid
  | MsrWrite u32 u64
  | Invlpg vaddr
  | FlushAll
  | InvPcidAddress vaddr pcid
  | InvPcidSingle pcid
  | InvlpgbFlush "pcid option" bool vaddr vaddr
  | TlbSync
  | X86Abort

type_synonym x86_trace = "x86_op list"

record x86_lib =
  interrupts_enabled :: "x86_trace \<Rightarrow> bool"
  cr0_read :: "x86_trace \<Rightarrow> u64"
  cr4_read :: "x86_trace \<Rightarrow> u64"
  cr3_read :: "x86_trace \<Rightarrow> paddr \<times> u64"
  cr3_read_pcid :: "x86_trace \<Rightarrow> paddr \<times> pcid"
  CR4_PCID :: u64
  phys_addr_try_new :: "u64 \<Rightarrow> u64 option"
  frame_from_start_address :: "u64 \<Rightarrow> u64 option"
  virt_addr_new :: "u64 \<Rightarrow> u64 res"
  page_from_start_address :: "u64 \<Rightarrow> u64 option"
  page_add :: "u64 \<Rightarrow> u64 \<Rightarrow> u64 res"
  invlpgb_new :: "bool res"

section \<open>The page attribute table\<close>

definition X86_PAT_MSR :: u32 where
  "X86_PAT_MSR = 0x277"

definition install_x86_pat :: "x86_trace \<Rightarrow> x86_trace" where
  "install_x86_pat t = t @ [MsrWrite X86_PAT_MSR X86_PAT_MSR_VALUE]"

section \<open>TLB back ends\<close>

definition ops_of :: "x86_op list res \<Rightarrow> x86_op list" where
  "ops_of r = (case r of Ok ops \<Rightarrow> ops | _ \<Rightarrow> [X86Abort])"

definition x86_flush_tlb_local :: "x86_lib \<Rightarrow> vaddr \<Rightarrow> x86_op list res" where
  "x86_flush_tlb_local X v = bind_res (virt_addr_new X v) (\<lambda>a. Ok [Invlpg a])"

definition x86_flush_tlb_all_local :: "x86_op list" where
  "x86_flush_tlb_all_local = [FlushAll]"

definition X86Tlb :: "x86_lib \<Rightarrow> x86_op tlb_impl" where
  "X86Tlb X =
     \<lparr>flush_tlb_local = (\<lambda>v. ops_of (x86_flush_tlb_local X v)),
      flush_tlb_all_local = x86_flush_tlb_all_local,
      flush_tlb_range_local = default_flush_tlb_range_local (\<lambda>v. ops_of (x86_flush_tlb_local X v)),
      prefer_full_flush = default_prefer_full_flush\<rparr>"

definition pcid_flush_tlb_local :: "x86_lib \<Rightarrow> pcid \<Rightarrow> vaddr \<Rightarrow> x86_op list res" where
  "pcid_flush_tlb_local X p v = bind_res (virt_addr_new X v) (\<lambda>a. Ok [InvPcidAddress a p])"

definition pcid_flush_tlb_all_local :: "pcid \<Rightarrow> x86_op list" where
  "pcid_flush_tlb_all_local p = [InvPcidSingle p]"

definition X86PcidTlb :: "x86_lib \<Rightarrow> pcid \<Rightarrow> x86_op tlb_impl" where
  "X86PcidTlb X p =
     \<lparr>flush_tlb_local = (\<lambda>v. ops_of (pcid_flush_tlb_local X p v)),
      flush_tlb_all_local = pcid_flush_tlb_all_local p,
      flush_tlb_range_local = default_flush_tlb_range_local (\<lambda>v. ops_of (pcid_flush_tlb_local X p v)),
      prefer_full_flush = default_prefer_full_flush\<rparr>"

record invlpgb_tlb =
  it_pcid :: "pcid option"
  it_include_global :: bool

definition invlpgb_try_new :: "x86_lib \<Rightarrow> invlpgb_tlb option res" where
  "invlpgb_try_new X =
     bind_res (invlpgb_new X) (\<lambda>supported.
     Ok (if supported then Some \<lparr>it_pcid = None, it_include_global = False\<rparr> else None))"

definition invlpgb_with_pcid :: "invlpgb_tlb \<Rightarrow> pcid \<Rightarrow> invlpgb_tlb" where
  "invlpgb_with_pcid i p = i\<lparr>it_pcid := Some p\<rparr>"

definition invlpgb_with_global :: "invlpgb_tlb \<Rightarrow> invlpgb_tlb" where
  "invlpgb_with_global i = i\<lparr>it_include_global := True\<rparr>"

definition invlpgb_flush_tlb_local :: "x86_lib \<Rightarrow> invlpgb_tlb \<Rightarrow> vaddr \<Rightarrow> x86_op list res" where
  "invlpgb_flush_tlb_local X i v =
     (case it_pcid i of
        Some p \<Rightarrow> bind_res (virt_addr_new X v) (\<lambda>a. Ok [InvPcidAddress a p])
      | None \<Rightarrow> x86_flush_tlb_local X v)"

definition invlpgb_flush_tlb_all_local :: "invlpgb_tlb \<Rightarrow> x86_op list" where
  "invlpgb_flush_tlb_all_local i =
     (case it_pcid i of Some p \<Rightarrow> [InvPcidSingle p] | None \<Rightarrow> x86_flush_tlb_all_local)"

definition invlpgb_flush_tlb_range_local :: "x86_lib \<Rightarrow> invlpgb_tlb \<Rightarrow> vaddr \<Rightarrow> page_size \<Rightarrow> usize \<Rightarrow>
    x86_op list res" where
  "invlpgb_flush_tlb_range_local X i start page_size count_pages =
     (if page_size \<noteq> Size4K then Ok (invlpgb_flush_tlb_all_local i)
      else
        bind_res (virt_addr_new X start) (\<lambda>start_va.
        case page_from_start_address X start_va of
          None \<Rightarrow> Ok []
        | Some start_page \<Rightarrow>
            bind_res (page_add X start_page count_pages) (\<lambda>end_page.
            Ok [InvlpgbFlush (it_pcid i) (it_include_global i) start_page end_page, TlbSync])))"

definition X86InvlpgbTlb :: "x86_lib \<Rightarrow> invlpgb_tlb \<Rightarrow> x86_op tlb_impl" where
  "X86InvlpgbTlb X i =
     \<lparr>flush_tlb_local = (\<lambda>v. ops_of (invlpgb_flush_tlb_local X i v)),
      flush_tlb_all_local = invlpgb_flush_tlb_all_local i,
      flush_tlb_range_local = (\<lambda>start sz n. ops_of (invlpgb_flush_tlb_range_local X i start sz n)),
      prefer_full_flush = (\<lambda>_. False)\<rparr>"

section \<open>Controls and tokens\<close>

datatype x86_cr3_mode = Cr3ModeFlags u64 | Cr3ModePcid pcid bool

record x86_controls =
  xc_cr0 :: "u64 option"
  xc_cr3 :: x86_cr3_mode
  xc_cr4 :: "u64 option"

definition x86_controls_new :: "x86_cr3_mode \<Rightarrow> x86_controls" where
  "x86_controls_new cr3 = \<lparr>xc_cr0 = None, xc_cr3 = cr3, xc_cr4 = None\<rparr>"

definition x86_controls_legacy :: "u64 \<Rightarrow> x86_controls" where
  "x86_controls_legacy flags = x86_controls_new (Cr3ModeFlags flags)"

definition x86_controls_pcid :: "pcid \<Rightarrow> bool \<Rightarrow> x86_controls" where
  "x86_controls_pcid p preserve_tlb_entries = x86_controls_new (Cr3ModePcid p preserve_tlb_entries)"

definition x86_with_cr0 :: "x86_controls \<Rightarrow> u64 \<Rightarrow> x86_controls" where
  "x86_with_cr0 c flags = c\<lparr>xc_cr0 := Some flags\<rparr>"

definition x86_without_cr0 :: "x86_controls \<Rightarrow> x86_controls" where
  "x86_without_cr0 c = c\<lparr>xc_cr0 := None\<rparr>"

definition x86_with_cr4 :: "x86_controls \<Rightarrow> u64 \<Rightarrow> x86_controls" where
  "x86_with_cr4 c flags = c\<lparr>xc_cr4 := Some flags\<rparr>"

definition x86_without_cr4 :: "x86_controls \<Rightarrow> x86_controls" where
  "x86_without_cr4 c = c\<lparr>xc_cr4 := None\<rparr>"

record x86_token =
  xt_root :: paddr
  xt_controls :: x86_controls

section \<open>Writing registers with interrupts disabled\<close>

text \<open>
  \<^verbatim>\<open>without_interrupts\<close> of the crate: interrupts are disabled around the closure when they were
  enabled before it.
\<close>

definition without_interrupts :: "x86_lib \<Rightarrow> (x86_trace \<Rightarrow> 'a \<times> x86_trace) \<Rightarrow> x86_trace \<Rightarrow>
    'a \<times> x86_trace" where
  "without_interrupts X f t =
     (let saved = interrupts_enabled X t;
          (result, t) = f (if saved then t @ [Cli] else t)
      in (result, if saved then t @ [Sti] else t))"

definition frame_from_root :: "addr_lib \<Rightarrow> x86_lib \<Rightarrow> paddr \<Rightarrow> u64 res" where
  "frame_from_root L X root =
     (if \<not> addr_is_aligned L root (bytes Size4K) then Err NotAligned
      else
        bind_res (ok_or (phys_addr_try_new X root) AddressOutOfRange) (\<lambda>addr.
        ok_or (frame_from_start_address X addr) NotAligned))"

definition root_from_frame :: "u64 \<Rightarrow> paddr" where
  "root_from_frame frame = frame"

definition write_cr3_frame :: "u64 \<Rightarrow> x86_cr3_mode \<Rightarrow> x86_trace \<Rightarrow> x86_trace" where
  "write_cr3_frame frame mode t =
     (case mode of
        Cr3ModeFlags flags \<Rightarrow> t @ [Cr3Write frame flags]
      | Cr3ModePcid p False \<Rightarrow> t @ [Cr3WritePcid frame p]
      | Cr3ModePcid p True \<Rightarrow> t @ [Cr3WritePcidNoFlush frame p])"

definition write_cr0 :: "x86_lib \<Rightarrow> u64 \<Rightarrow> x86_trace \<Rightarrow> unit \<times> x86_trace" where
  "write_cr0 X flags t = without_interrupts X (\<lambda>t. ((), t @ [Cr0Write flags])) t"

definition write_cr3 :: "addr_lib \<Rightarrow> x86_lib \<Rightarrow> paddr \<Rightarrow> x86_cr3_mode \<Rightarrow> x86_trace \<Rightarrow>
    unit res \<times> x86_trace" where
  "write_cr3 L X root mode t =
     bind_st (frame_from_root L X root, t) (\<lambda>frame t.
     (Ok (), snd (without_interrupts X (\<lambda>t. ((), write_cr3_frame frame mode t)) t)))"

definition write_cr4 :: "x86_lib \<Rightarrow> u64 \<Rightarrow> x86_trace \<Rightarrow> unit \<times> x86_trace" where
  "write_cr4 X flags t = without_interrupts X (\<lambda>t. ((), t @ [Cr4Write flags])) t"

section \<open>Activation\<close>

definition x86_install :: "addr_lib \<Rightarrow> x86_lib \<Rightarrow> paddr \<Rightarrow> x86_controls \<Rightarrow> x86_token res" where
  "x86_install L X root controls =
     bind_res (frame_from_root L X root) (\<lambda>_. Ok \<lparr>xt_root = root, xt_controls = controls\<rparr>)"

definition x86_activate :: "addr_lib \<Rightarrow> x86_lib \<Rightarrow> x86_token \<Rightarrow> x86_trace \<Rightarrow> unit res \<times> x86_trace" where
  "x86_activate L X token t =
     bind_st (frame_from_root L X (xt_root token), t) (\<lambda>frame t.
     let c = xt_controls token;
         (_, t) = without_interrupts X (\<lambda>t.
           let t = (case xc_cr4 c of None \<Rightarrow> t | Some flags \<Rightarrow> t @ [Cr4Write flags]);
               t = write_cr3_frame frame (xc_cr3 c) t;
               t = (case xc_cr0 c of None \<Rightarrow> t | Some flags \<Rightarrow> t @ [Cr0Write flags])
           in ((), t)) t
     in (Ok (), t))"

definition x86_current :: "x86_lib \<Rightarrow> x86_trace \<Rightarrow> x86_token option res \<times> x86_trace" where
  "x86_current X t =
     without_interrupts X (\<lambda>t.
       let cr0 = Some (cr0_read X t);
           cr4_value = cr4_read X t;
           cr4 = Some cr4_value;
           token =
             (if cr4_value AND CR4_PCID X = CR4_PCID X
              then (case cr3_read_pcid X t of (frame, p) \<Rightarrow>
                      \<lparr>xt_root = root_from_frame frame,
                       xt_controls = \<lparr>xc_cr0 = cr0, xc_cr3 = Cr3ModePcid p False, xc_cr4 = cr4\<rparr>\<rparr>)
              else (case cr3_read X t of (frame, flags) \<Rightarrow>
                      \<lparr>xt_root = root_from_frame frame,
                       xt_controls = \<lparr>xc_cr0 = cr0, xc_cr3 = Cr3ModeFlags flags, xc_cr4 = cr4\<rparr>\<rparr>))
       in (Ok (Some token), t)) t"

definition X86PagingActivation ::
  "addr_lib \<Rightarrow> x86_lib \<Rightarrow> (x86_token, x86_controls, x86_trace) activation_impl" where
  "X86PagingActivation L X =
     \<lparr>token_root = xt_root, install = x86_install L X, activate = x86_activate L X,
      current = x86_current X, uninstall = default_uninstall\<rparr>"

section \<open>What the code relies on in the register crate\<close>

text \<open>
  A physical address has at most 52 bits, a virtual address is 48-bit canonical (the constructor
  panics otherwise, as does the addition of pages), frames and pages start at multiples of 4 KiB.
  A control register reads what the last write put there; CR3 reads through the accessor that
  matches the way it was written.
\<close>

definition x86_addrs_ok :: "x86_lib \<Rightarrow> bool" where
  "x86_addrs_ok X \<longleftrightarrow>
     (\<forall>a. phys_addr_try_new X a = (if \<forall>n\<ge>52. \<not> bit a n then Some a else None)) \<and>
     (\<forall>a. frame_from_start_address X a = (if a AND mask 12 = 0 then Some a else None)) \<and>
     (\<forall>a. virt_addr_new X a = (if canonical 48 a then Ok a else Panic)) \<and>
     (\<forall>a. page_from_start_address X a = (if a AND mask 12 = 0 then Some a else None)) \<and>
     (\<forall>a n. unat a + unat n * 4096 < 2 ^ 64 \<longrightarrow>
        page_add X a n = (if canonical 48 (a + n * 4096) then Ok (a + n * 4096) else Panic))"

fun is_cr3_write :: "x86_op \<Rightarrow> bool" where
  "is_cr3_write (Cr3Write f fl) = True"
| "is_cr3_write (Cr3WritePcid f p) = True"
| "is_cr3_write (Cr3WritePcidNoFlush f p) = True"
| "is_cr3_write op = False"

definition x86_regs_ok :: "x86_lib \<Rightarrow> bool" where
  "x86_regs_ok X \<longleftrightarrow>
     (\<forall>t op. cr0_read X (t @ [op]) = (case op of Cr0Write f \<Rightarrow> f | _ \<Rightarrow> cr0_read X t)) \<and>
     (\<forall>t op. cr4_read X (t @ [op]) = (case op of Cr4Write f \<Rightarrow> f | _ \<Rightarrow> cr4_read X t)) \<and>
     (\<forall>t f fl. cr3_read X (t @ [Cr3Write f fl]) = (f, fl)) \<and>
     (\<forall>t f p. cr3_read_pcid X (t @ [Cr3WritePcid f p]) = (f, p)) \<and>
     (\<forall>t f p. cr3_read_pcid X (t @ [Cr3WritePcidNoFlush f p]) = (f, p)) \<and>
     (\<forall>t op. \<not> is_cr3_write op \<longrightarrow>
        cr3_read X (t @ [op]) = cr3_read X t \<and> cr3_read_pcid X (t @ [op]) = cr3_read_pcid X t) \<and>
     (\<forall>t op. interrupts_enabled X (t @ [op]) =
        (case op of Cli \<Rightarrow> False | Sti \<Rightarrow> True | _ \<Rightarrow> interrupts_enabled X t))"

text \<open>An instance: a CPU that remembers.\<close>

definition ref_x86 :: x86_lib where
  "ref_x86 =
     \<lparr>interrupts_enabled = (\<lambda>t. fold (\<lambda>op b. case op of Cli \<Rightarrow> False | Sti \<Rightarrow> True | _ \<Rightarrow> b) t True),
      cr0_read = (\<lambda>t. fold (\<lambda>op v. case op of Cr0Write f \<Rightarrow> f | _ \<Rightarrow> v) t 0),
      cr4_read = (\<lambda>t. fold (\<lambda>op v. case op of Cr4Write f \<Rightarrow> f | _ \<Rightarrow> v) t 0),
      cr3_read = (\<lambda>t. fold (\<lambda>op v. case op of Cr3Write f fl \<Rightarrow> (f, fl) | _ \<Rightarrow> v) t (0, 0)),
      cr3_read_pcid = (\<lambda>t. fold (\<lambda>op v. case op of Cr3WritePcid f p \<Rightarrow> (f, p)
        | Cr3WritePcidNoFlush f p \<Rightarrow> (f, p) | _ \<Rightarrow> v) t (0, 0)),
      CR4_PCID = push_bit 17 1,
      phys_addr_try_new = (\<lambda>a. if a < push_bit 52 1 then Some a else None),
      frame_from_start_address = (\<lambda>a. if a AND mask 12 = 0 then Some a else None),
      virt_addr_new = (\<lambda>a. if x86_canonical_vaddr_is_valid a 48 then Ok a else Panic),
      page_from_start_address = (\<lambda>a. if a AND mask 12 = 0 then Some a else None),
      page_add = (\<lambda>a n. if x86_canonical_vaddr_is_valid (a + n * 4096) 48 then Ok (a + n * 4096) else Panic),
      invlpgb_new = Ok True\<rparr>"

lemma x86_canonical_48: "x86_canonical_vaddr_is_valid v 48 \<longleftrightarrow> canonical 48 v"
  using canonical_test [of 48 v] by (simp add: x86_canonical_vaddr_is_valid_def Let_def)

lemma ref_x86_ok: "x86_addrs_ok ref_x86" "x86_regs_ok ref_x86"
  by (simp_all add: x86_addrs_ok_def x86_regs_ok_def ref_x86_def x86_canonical_48 word_less_push_bit
      split: x86_op.split del: push_bit_of_1)

section \<open>Activation is observable\<close>

lemma frame_from_root_iff:
  assumes "addr_lib_ok L" "x86_addrs_ok X"
  shows "frame_from_root L X root =
    (if root AND mask 12 \<noteq> 0 then Err NotAligned
     else if \<forall>n\<ge>52. \<not> bit root n then Ok root else Err AddressOutOfRange)"
proof -
  have p: "bytes Size4K = push_bit 12 1" by (simp add: bytes_push_bit)
  have al: "addr_is_aligned L root (bytes Size4K) \<longleftrightarrow> root AND mask 12 = 0"
    unfolding p by (rule addr_is_aligned [OF assms(1)]) simp
  show ?thesis
    using assms(2) unfolding frame_from_root_def al x86_addrs_ok_def
    by (cases "\<forall>n\<ge>52. \<not> bit root n"; cases "root AND mask 12 = 0") simp_all
qed

text \<open>The operations of a switch, in order.\<close>

definition cr3_op :: "paddr \<Rightarrow> x86_cr3_mode \<Rightarrow> x86_op" where
  "cr3_op frame mode =
     (case mode of
        Cr3ModeFlags flags \<Rightarrow> Cr3Write frame flags
      | Cr3ModePcid p preserve \<Rightarrow>
          if preserve then Cr3WritePcidNoFlush frame p else Cr3WritePcid frame p)"

definition x86_switch :: "x86_token \<Rightarrow> x86_trace" where
  "x86_switch token =
     (let c = xt_controls token in
      (case xc_cr4 c of None \<Rightarrow> [] | Some flags \<Rightarrow> [Cr4Write flags]) @
      [cr3_op (xt_root token) (xc_cr3 c)] @
      (case xc_cr0 c of None \<Rightarrow> [] | Some flags \<Rightarrow> [Cr0Write flags]))"

lemma write_cr3_frame_op: "write_cr3_frame frame mode t = t @ [cr3_op frame mode]"
  by (simp add: write_cr3_frame_def cr3_op_def split: x86_cr3_mode.split bool.split)

lemma x86_activate_trace:
  assumes "addr_lib_ok L" "x86_addrs_ok X" "x86_install L X root c = Ok token"
  shows "xt_root token = root \<and> xt_controls token = c \<and> x86_activate L X token t =
     (Ok (), t @ (if interrupts_enabled X t then [Cli] @ x86_switch token @ [Sti] else x86_switch token))"
proof -
  have tok: "token = \<lparr>xt_root = root, xt_controls = c\<rparr>" "frame_from_root L X root = Ok root"
    using assms(3) by (auto simp: x86_install_def frame_from_root_iff [OF assms(1,2)] split: if_splits)
  then show ?thesis
    by (simp add: x86_activate_def without_interrupts_def x86_switch_def Let_def write_cr3_frame_op
        split: option.split)
qed

text \<open>What the CPU reports after a switch, when the CR3 mode agrees with CR4.PCIDE.\<close>

definition after_switch :: "u64 option \<Rightarrow> u64 \<Rightarrow> u64" where
  "after_switch written old = (case written of Some v \<Rightarrow> v | None \<Rightarrow> old)"

definition observed_mode :: "x86_cr3_mode \<Rightarrow> x86_cr3_mode" where
  "observed_mode mode =
     (case mode of Cr3ModeFlags flags \<Rightarrow> Cr3ModeFlags flags | Cr3ModePcid p _ \<Rightarrow> Cr3ModePcid p False)"

definition is_pcid_mode :: "x86_cr3_mode \<Rightarrow> bool" where
  "is_pcid_mode mode = (case mode of Cr3ModeFlags _ \<Rightarrow> False | Cr3ModePcid _ _ \<Rightarrow> True)"

text \<open>One operation at a time.\<close>

lemma x86_reads:
  assumes "x86_regs_ok X"
  shows "cr0_read X (t @ [Cr0Write f]) = f" "cr0_read X (t @ [Cr4Write f]) = cr0_read X t"
    "cr0_read X (t @ [cr3_op r m]) = cr0_read X t"
    "cr0_read X (t @ [Cli]) = cr0_read X t" "cr0_read X (t @ [Sti]) = cr0_read X t"
    "cr4_read X (t @ [Cr4Write f]) = f" "cr4_read X (t @ [Cr0Write f]) = cr4_read X t"
    "cr4_read X (t @ [cr3_op r m]) = cr4_read X t"
    "cr4_read X (t @ [Cli]) = cr4_read X t" "cr4_read X (t @ [Sti]) = cr4_read X t"
    "cr3_read X (t @ [cr3_op r (Cr3ModeFlags f)]) = (r, f)" "cr3_read X (t @ [Cr0Write f]) = cr3_read X t"
    "cr3_read X (t @ [Cli]) = cr3_read X t" "cr3_read X (t @ [Sti]) = cr3_read X t"
    "cr3_read_pcid X (t @ [cr3_op r (Cr3ModePcid p b)]) = (r, p)"
    "cr3_read_pcid X (t @ [Cr0Write f]) = cr3_read_pcid X t"
    "cr3_read_pcid X (t @ [Cli]) = cr3_read_pcid X t" "cr3_read_pcid X (t @ [Sti]) = cr3_read_pcid X t"
  using assms unfolding x86_regs_ok_def cr3_op_def
  by (simp_all split: x86_cr3_mode.split)

lemma x86_switch_reads:
  assumes "x86_regs_ok X" "c = xt_controls token"
  shows "cr0_read X (t @ x86_switch token) = after_switch (xc_cr0 c) (cr0_read X t)"
    and "cr4_read X (t @ x86_switch token) = after_switch (xc_cr4 c) (cr4_read X t)"
    and "xc_cr3 c = Cr3ModeFlags flags \<Longrightarrow> cr3_read X (t @ x86_switch token) = (xt_root token, flags)"
    and "xc_cr3 c = Cr3ModePcid p preserve \<Longrightarrow>
      cr3_read_pcid X (t @ x86_switch token) = (xt_root token, p)"
  by (cases "xc_cr0 c"; cases "xc_cr4 c"; simp only: assms(2) x86_switch_def Let_def option.case
      append_Nil append_Nil2 append_assoc [symmetric] x86_reads [OF assms(1)] after_switch_def)+

text \<open>A token that was installed and activated is the one the CPU reports.\<close>

lemma x86_activate_current:
  assumes X: "x86_regs_ok X" "x86_addrs_ok X" and L: "addr_lib_ok L"
    and inst: "x86_install L X root c = Ok token" and act: "x86_activate L X token t = (res, t')"
    and mode: "is_pcid_mode (xc_cr3 c) \<longleftrightarrow>
      after_switch (xc_cr4 c) (cr4_read X t) AND CR4_PCID X = CR4_PCID X"
  shows "fst (x86_current X t') =
    Ok (Some \<lparr>xt_root = root,
              xt_controls = \<lparr>xc_cr0 = Some (after_switch (xc_cr0 c) (cr0_read X t)),
                             xc_cr3 = observed_mode (xc_cr3 c),
                             xc_cr4 = Some (after_switch (xc_cr4 c) (cr4_read X t))\<rparr>\<rparr>)"
proof -
  note tr = x86_activate_trace [OF L X(2) inst, of t]
  define u where "u = (if interrupts_enabled X t then t @ [Cli] else t)"
  define w where "w = (if interrupts_enabled X t' then t' @ [Cli] else t')"
  have t': "t' = u @ x86_switch token @ (if interrupts_enabled X t then [Sti] else [])"
    using act tr by (auto simp: u_def)
  have irq: "cr0_read X w = cr0_read X (u @ x86_switch token)" "cr4_read X w = cr4_read X (u @ x86_switch token)"
    "cr3_read X w = cr3_read X (u @ x86_switch token)"
    "cr3_read_pcid X w = cr3_read_pcid X (u @ x86_switch token)"
    unfolding w_def t' by (simp_all only: if_split append_assoc [symmetric] append_Nil2 x86_reads [OF X(1)] simp_thms split: if_split)
  have old: "cr0_read X u = cr0_read X t" "cr4_read X u = cr4_read X t"
    by (simp_all add: u_def x86_reads [OF X(1)])
  note reads = x86_switch_reads [OF X(1) refl, where token = token and t = u]
  show ?thesis
    using tr mode reads
    by (cases "xc_cr3 c")
      (simp_all add: x86_current_def without_interrupts_def Let_def w_def [symmetric] irq old
        is_pcid_mode_def observed_mode_def root_from_frame_def)
qed

end
