(* ===== verification/TlbSpec.thy ===== *)
theory TlbSpec
  imports FlushSpec Rv64Vas A64Vas X86Vas
begin

text \<open>
  The TLB back ends meet the contract that the flush queue relies on. What an instruction
  invalidates is the hardware's business: it is an argument, with the statements of the
  architecture manuals that the code relies on as hypotheses, and a reference instance of each
  is given.
\<close>

section \<open>Sweeping a range page by page\<close>

definition page_of :: "page_size \<Rightarrow> vaddr \<Rightarrow> nat set" where
  "page_of ps v = {unat v..<unat v + 2 ^ size_shift ps}"

lemma sweep_contract:
  assumes all: "invalidated iv (flush_tlb_all_local tlb) = UNIV"
    and range: "flush_tlb_range_local tlb = default_flush_tlb_range_local flush"
    and one: "\<And>v. is_aligned ps v \<Longrightarrow> accepts v \<Longrightarrow> page_of ps v \<subseteq> invalidated iv (flush v)"
  shows "tlb_contract tlb ps iv accepts"
proof
  show "invalidated iv (flush_tlb_all_local tlb) = UNIV" by (rule all)
next
  fix a n :: usize
  let ?d = "2 ^ size_shift ps :: nat"
  assume a: "is_aligned ps a" and less: "unat a + unat n * ?d < 2 ^ 64"
    and acc: "\<forall>x\<in>{unat a..<unat a + unat n * ?d}. accepts (of_nat x)"
  have "unat a + (unat n - 1) * unat (bytes ps) < 2 ^ 64"
  proof -
    have "unat a + (unat n - 1) * ?d \<le> unat a + unat n * ?d" by (intro add_left_mono mult_le_mono1) simp
    then show ?thesis using less unfolding unat_bytes by (rule le_less_trans)
  qed
  then have flush: "flush_tlb_range_local tlb a ps n =
      concat (map (\<lambda>i. flush (a + of_nat i * bytes ps)) [0..<unat n])"
    unfolding range default_flush_tlb_range_local_def by (rule default_flush_range_loop_pages)
  show "{unat a..<unat a + unat n * ?d} \<subseteq> invalidated iv (flush_tlb_range_local tlb a ps n)"
  proof
    fix x assume x: "x \<in> {unat a..<unat a + unat n * ?d}"
    define i where "i = (x - unat a) div ?d"
    have "x - unat a < unat n * ?d" using x unfolding atLeastLessThan_iff by linarith
    then have i: "i < unat n" by (simp add: i_def div_less_iff_less_mult)
    have lo: "i * ?d \<le> x - unat a" and hi: "x - unat a < i * ?d + ?d"
      unfolding i_def using div_times_less_eq_dividend [of "x - unat a" ?d]
        dividend_less_div_times [of ?d "x - unat a"] by (simp_all add: algebra_simps)
    let ?p = "a + of_nat i * bytes ps"
    have step: "unat a + i * ?d < unat a + unat n * ?d" using i by simp
    have "i < 2 ^ 64" using i unat_u64_less [of n] by simp
    moreover have sum: "unat a + i * ?d < 2 ^ 64" using step less by linarith
    moreover have "i * ?d < 2 ^ 64" using sum by linarith
    ultimately have o: "unat (of_nat i * bytes ps) = i * ?d"
      by (simp add: unat_word_ariths unat_bytes unat_of_nat)
    have p: "unat ?p = unat a + i * ?d"
      using sum by (simp add: unat_word_ariths(1) o)
    have "is_aligned ps ?p" using a by (simp add: is_aligned_dvd p)
    moreover have "accepts ?p"
    proof -
      have "unat ?p \<in> {unat a..<unat a + unat n * ?d}" using step by (simp add: p)
      then have "accepts (of_nat (unat ?p))" using acc by blast
      then show ?thesis by simp
    qed
    ultimately have "page_of ps ?p \<subseteq> invalidated iv (flush ?p)" by (rule one)
    moreover have "x \<in> page_of ps ?p" using x lo hi by (auto simp: page_of_def p)
    ultimately obtain h where h: "h \<in> set (flush ?p)" "x \<in> iv h" by (auto simp: invalidated_def)
    have "h \<in> set (flush_tlb_range_local tlb a ps n)"
      unfolding flush set_concat set_map image_image using h(1) i by (intro UN_I [of i]) simp_all
    then show "x \<in> invalidated iv (flush_tlb_range_local tlb a ps n)"
      using h(2) by (auto simp: invalidated_def)
  qed
qed

section \<open>RISC-V\<close>

definition sfence_ok :: "page_size \<Rightarrow> ('m rv_op \<Rightarrow> nat set) \<Rightarrow> bool" where
  "sfence_ok ps iv \<longleftrightarrow>
     iv SfenceVmaAll = UNIV \<and> (\<forall>v. is_aligned ps v \<longrightarrow> page_of ps v \<subseteq> iv (SfenceVma v))"

lemma rv64_tlb_contract:
  assumes "sfence_ok ps iv"
  shows "tlb_contract Rv64Tlb ps iv (\<lambda>_. True)"
  by (rule sweep_contract [where flush = "\<lambda>v. [SfenceVma v]"])
    (use assms in \<open>simp_all add: Rv64Tlb_def sfence_ok_def invalidated_def\<close>)

fun ref_sfence :: "'m rv_op \<Rightarrow> nat set" where
  "ref_sfence SfenceVmaAll = UNIV"
| "ref_sfence (SfenceVma v) = page_of Size4K v"
| "ref_sfence _ = {}"

lemma ref_sfence_ok: "sfence_ok Size4K ref_sfence"
  by (simp add: sfence_ok_def)

interpretation rv64_tlb: tlb_contract Rv64Tlb Size4K ref_sfence "\<lambda>_. True"
  by (rule rv64_tlb_contract [OF ref_sfence_ok])

section \<open>AArch64\<close>

definition tlbi_ok :: "page_size \<Rightarrow> (a64_op \<Rightarrow> nat set) \<Rightarrow> bool" where
  "tlbi_ok ps iv \<longleftrightarrow>
     iv TlbiVmalle1is = UNIV \<and> (\<forall>v. is_aligned ps v \<longrightarrow> page_of ps v \<subseteq> iv (TlbiVaae1is v))"

lemma a64_tlb_contract:
  assumes "tlbi_ok ps iv"
  shows "tlb_contract A64Tlb ps iv (\<lambda>_. True)"
  by (rule sweep_contract [where flush = a64_flush_tlb_local])
    (use assms in \<open>auto simp: A64Tlb_def a64_flush_tlb_all_local_def a64_flush_tlb_local_def
      tlbi_ok_def invalidated_def\<close>)

text \<open>The instance for a granule: an invalidation by address covers the page of the granule.\<close>

fun ref_tlbi :: "page_size \<Rightarrow> a64_op \<Rightarrow> nat set" where
  "ref_tlbi ps TlbiVmalle1is = UNIV"
| "ref_tlbi ps (TlbiVaae1is v) = page_of ps v"
| "ref_tlbi ps _ = {}"

lemma ref_tlbi_ok: "tlbi_ok ps (ref_tlbi ps)"
  by (simp add: tlbi_ok_def)

interpretation a64_tlb_4k: tlb_contract A64Tlb Size4K "ref_tlbi Size4K" "\<lambda>_. True"
  by (rule a64_tlb_contract [OF ref_tlbi_ok])

interpretation a64_tlb_16k: tlb_contract A64Tlb Size16K "ref_tlbi Size16K" "\<lambda>_. True"
  by (rule a64_tlb_contract [OF ref_tlbi_ok])

interpretation a64_tlb_64k: tlb_contract A64Tlb Size64K "ref_tlbi Size64K" "\<lambda>_. True"
  by (rule a64_tlb_contract [OF ref_tlbi_ok])

section \<open>x86_64\<close>

text \<open>
  On x86_64 a translation is global or not; the first argument says which kind is meant, \<open>p\<close> is the
  context. What the manual guarantees: \<^verbatim>\<open>INVLPG\<close> invalidates both kinds, a reload of CR3 and the
  single-context and individual-address forms of \<^verbatim>\<open>INVPCID\<close> those that are not global.
\<close>

definition x86_hw_ok :: "pcid \<Rightarrow> (bool \<Rightarrow> x86_op \<Rightarrow> nat set) \<Rightarrow> bool" where
  "x86_hw_ok p iv \<longleftrightarrow>
     (\<forall>g v. is_aligned Size4K v \<longrightarrow> page_of Size4K v \<subseteq> iv g (Invlpg v)) \<and>
     (\<forall>v. is_aligned Size4K v \<longrightarrow> page_of Size4K v \<subseteq> iv False (InvPcidAddress v p)) \<and>
     iv False FlushAll = UNIV \<and> iv False (InvPcidSingle p) = UNIV"

text \<open>And what it excepts: the latter three do not invalidate global translations.\<close>

definition x86_spares_globals :: "pcid \<Rightarrow> (bool \<Rightarrow> x86_op \<Rightarrow> nat set) \<Rightarrow> bool" where
  "x86_spares_globals p iv \<longleftrightarrow>
     iv True FlushAll = {} \<and> iv True (InvPcidSingle p) = {} \<and> (\<forall>v. iv True (InvPcidAddress v p) = {})"

lemma x86_tlb_contract:
  assumes "x86_hw_ok p iv" "x86_addrs_ok X"
  shows "tlb_contract (X86Tlb X) Size4K (iv False) (canonical 48)"
    and "tlb_contract (X86PcidTlb X p) Size4K (iv False) (canonical 48)"
proof -
  show "tlb_contract (X86Tlb X) Size4K (iv False) (canonical 48)"
    by (rule sweep_contract [where flush = "\<lambda>v. ops_of (x86_flush_tlb_local X v)"])
      (use assms in \<open>simp_all add: X86Tlb_def x86_flush_tlb_all_local_def x86_flush_tlb_local_def
        ops_of_def x86_addrs_ok_def x86_hw_ok_def invalidated_def\<close>)
  show "tlb_contract (X86PcidTlb X p) Size4K (iv False) (canonical 48)"
    by (rule sweep_contract [where flush = "\<lambda>v. ops_of (pcid_flush_tlb_local X p v)"])
      (use assms in \<open>simp_all add: X86PcidTlb_def pcid_flush_tlb_all_local_def pcid_flush_tlb_local_def
        ops_of_def x86_addrs_ok_def x86_hw_ok_def invalidated_def\<close>)
qed

fun ref_x86_inv :: "bool \<Rightarrow> x86_op \<Rightarrow> nat set" where
  "ref_x86_inv g (Invlpg v) = page_of Size4K v"
| "ref_x86_inv g (InvPcidAddress v p) = (if g then {} else page_of Size4K v)"
| "ref_x86_inv g FlushAll = (if g then {} else UNIV)"
| "ref_x86_inv g (InvPcidSingle p) = (if g then {} else UNIV)"
| "ref_x86_inv g _ = {}"

lemma ref_x86_hw_ok: "x86_hw_ok p ref_x86_inv" "x86_spares_globals p ref_x86_inv"
  by (simp_all add: x86_hw_ok_def x86_spares_globals_def)

interpretation x86_tlb: tlb_contract "X86Tlb ref_x86" Size4K "ref_x86_inv False" "canonical 48"
  by (rule x86_tlb_contract(1) [OF ref_x86_hw_ok(1) ref_x86_ok(1)])

interpretation x86_pcid_tlb: tlb_contract "X86PcidTlb ref_x86 1" Size4K "ref_x86_inv False" "canonical 48"
  by (rule x86_tlb_contract(2) [OF ref_x86_hw_ok(1) ref_x86_ok(1)])

end
