(* ===== verification/Lifecycle.thy ===== *)
theory Lifecycle
  imports Issued TlbSpec
begin

text \<open>
  A batch of operations as a step relation: a cursor is created, runs any sequence of mapping,
  unmapping, protection and remapping requests, each of which may fail, and is drained at the
  end. The invariants of the cursor hold in every reachable state, and the drain leaves no stale
  translation in the TLB.
\<close>

section \<open>Requests\<close>

datatype 'f cursor_op =
    MapOp addr_range backing_source "'f mapping_flags"
  | UnmapOp addr_range
  | ProtectOp addr_range 'f
  | RemapOp addr_range paddr 'f

definition forget :: "'a res \<times> 'w \<Rightarrow> unit res \<times> 'w" where
  "forget x = (bind_res (fst x) (\<lambda>_. Ok ()), snd x)"

fun cursor_exec :: "('f, 's, 'h) env \<Rightarrow> paddr \<Rightarrow> 'f cursor_op \<Rightarrow> ('s, 'h) cstate \<Rightarrow>
    unit res \<times> ('s, 'h) cstate" where
  "cursor_exec E root (MapOp rg src flags) cw = cursor_map E root rg src flags cw"
| "cursor_exec E root (UnmapOp rg) cw = forget (cursor_unmap E root rg cw)"
| "cursor_exec E root (ProtectOp rg flags) cw = forget (cursor_protect E root rg flags cw)"
| "cursor_exec E root (RemapOp rg p flags) cw = forget (cursor_remap E root rg p flags cw)"

text \<open>The arguments of a request: ranges of the crate's range type and encodable flags.\<close>

fun op_ok :: "('f, 's, 'h) env \<Rightarrow> ('f \<Rightarrow> bool) \<Rightarrow> 'f cursor_op \<Rightarrow> bool" where
  "op_ok E flags_ok (MapOp rg src flags) =
     (flags_ok (mf_leaf flags) \<and> range_ok rg \<and>
      (case into_map_backing (e_addr E) src (range_size (e_addr E) rg) of
         Ok b \<Rightarrow> backing_ok b | _ \<Rightarrow> False))"
| "op_ok E flags_ok (UnmapOp rg) = True"
| "op_ok E flags_ok (ProtectOp rg flags) = flags_ok flags"
| "op_ok E flags_ok (RemapOp rg p flags) = flags_ok flags"

text \<open>The same request made to \<^verbatim>\<open>PageTableWalker\<close> itself, which flushes before it returns.\<close>

fun walker_exec :: "('f, 's, 'h) env \<Rightarrow> paddr \<Rightarrow> 'f cursor_op \<Rightarrow> ('s, 'h) world \<Rightarrow>
    unit res \<times> ('s, 'h) world" where
  "walker_exec E root (MapOp rg src flags) w = walker_map E root rg src flags w"
| "walker_exec E root (UnmapOp rg) w = forget (unmap E root rg w)"
| "walker_exec E root (ProtectOp rg flags) w = forget (protect E root rg flags w)"
| "walker_exec E root (RemapOp rg p flags) w = forget (remap E root rg p flags w)"

text \<open>One request, whatever its result; the states a batch that starts in \<open>w0\<close> can be in.\<close>

inductive cursor_step :: "('f, 's, 'h) env \<Rightarrow> ('f \<Rightarrow> bool) \<Rightarrow> paddr \<Rightarrow> ('s, 'h) cstate \<Rightarrow>
    ('s, 'h) cstate \<Rightarrow> bool" for E flags_ok root where
  request: "\<lbrakk>op_ok E flags_ok p; cursor_exec E root p cw = (res, cw')\<rbrakk> \<Longrightarrow>
     cursor_step E flags_ok root cw cw'"

inductive cursor_reach :: "('f, 's, 'h) env \<Rightarrow> ('f \<Rightarrow> bool) \<Rightarrow> paddr \<Rightarrow> ('s, 'h) world \<Rightarrow>
    ('s, 'h) cstate \<Rightarrow> bool" for E flags_ok root w0 where
  fresh: "cursor_reach E flags_ok root w0 (cursor_new, w0)"
| more: "\<lbrakk>cursor_reach E flags_ok root w0 cw; cursor_step E flags_ok root cw cw'\<rbrakk> \<Longrightarrow>
     cursor_reach E flags_ok root w0 cw'"

inductive_cases cursor_stepE: "cursor_step E flags_ok root cw cw'"

text \<open>
  An operation that flushes ends, after its last write, with instructions that invalidate every address
  whose lookup it changed; they are among those that it issues.
\<close>

definition flushed :: "('f, 's, 'h) env \<Rightarrow> paddr \<Rightarrow> ('h \<Rightarrow> nat set) \<Rightarrow> ('s, 'h) world \<Rightarrow>
    ('s, 'h) world \<Rightarrow> bool" where
  "flushed E root iv w w' \<longleftrightarrow> (\<exists>w1 hs. logged w w1 \<and> w' = emit hs w1 \<and>
     (\<forall>v. query E root v (mem w') \<noteq> query E root v (mem w) \<longrightarrow> unat v \<in> invalidated iv hs))"

lemma flushed_emit:
  assumes "logged w w1"
    and "\<And>v. query E root v (mem w1) \<noteq> query E root v (mem w) \<Longrightarrow> unat v \<in> invalidated iv hs"
  shows "flushed E root iv w (emit hs w1)"
  using assms by (auto simp: flushed_def emit_def)

lemma flushed_same:
  assumes "logged w w'" "\<And>v. query E root v (mem w') = query E root v (mem w)"
  shows "flushed E root iv w w'"
  using flushed_emit [OF assms(1), of E root iv "[]"] assms(2) by (simp add: emit_def)

lemma flushed_issued:
  assumes "flushed E root iv w w'" "query E root v (mem w') \<noteq> query E root v (mem w)"
  shows "unat v \<in> invalidated iv (issued w w')"
  using assms issued_emit by (fastforce simp: flushed_def invalidated_def)

context walker
begin

section \<open>One request\<close>

lemma exec_effect:
  assumes inv: "cursor_inv E live root cw" and clean: "no_invalid E root (snd cw)"
    and total: "dealloc_total E live" and p: "op_ok E flags_ok p"
    and run: "cursor_exec E root p cw = (res, cw')"
  shows "res \<noteq> Panic \<and> cursor_inv E live root cw' \<and> covers E root cw cw' \<and> no_invalid E root (snd cw')"
proof (cases p)
  case (MapOp rg src flags)
  then obtain b where b: "flags_ok (mf_leaf flags)" "range_ok rg" "backing_ok b"
    "into_map_backing (e_addr E) src (range_size (e_addr E) rg) = Ok b"
    using p by (auto split: res.splits)
  have "cursor_map E root rg src flags cw = (res, cw')" using run MapOp by simp
  from cursor_map_outcome [OF inv b this] show ?thesis
    by (rule map_outcomeE) (use clean maps_range_no_invalid in \<open>auto simp: cursor_inv_def\<close>)
next
  case (UnmapOp rg)
  obtain r cw1 where r: "cursor_unmap E root rg cw = (r, cw1)" by (meson surj_pair)
  then have "cw' = cw1" "res = Panic \<longrightarrow> r = Panic"
    using run UnmapOp by (auto simp: forget_def bind_res_def split: res.splits)
  then show ?thesis using cursor_unmap_effect [OF inv total r] clean by auto
next
  case (ProtectOp rg flags)
  obtain r cw1 where r: "cursor_protect E root rg flags cw = (r, cw1)" by (meson surj_pair)
  then have "cw' = cw1" "res = Panic \<longrightarrow> r = Panic"
    using run ProtectOp by (auto simp: forget_def bind_res_def split: res.splits)
  then show ?thesis using cursor_protect_effect [OF inv _ r] p ProtectOp clean by auto
next
  case (RemapOp rg q flags)
  obtain r cw1 where r: "cursor_remap E root rg q flags cw = (r, cw1)" by (meson surj_pair)
  then have "cw' = cw1" "res = Panic \<longrightarrow> r = Panic"
    using run RemapOp by (auto simp: forget_def bind_res_def split: res.splits)
  then show ?thesis using cursor_remap_effect [OF inv _ r] p RemapOp clean by auto
qed

section \<open>Every reachable state\<close>

lemma try_new_no_invalid: "try_new E w = (Ok root, w') \<Longrightarrow> no_invalid E root w'"
  using try_new_spec(3) [OF _ refl] by (fastforce simp: no_invalid_def query_view check_vaddr_def)

lemma reach_inv:
  assumes "tree_ok E live root w0" "no_invalid E root w0" "dealloc_total E live"
    and "cursor_reach E flags_ok root w0 cw"
  shows "cursor_inv E live root cw \<and> covers E root (cursor_new, w0) cw \<and> no_invalid E root (snd cw)"
  using assms(4)
proof induction
  case fresh
  then show ?case
    using cursor_inv_new [OF assms(1)] covers_same [of cursor_new cursor_new E root w0 w0] assms(2) by simp
next
  case (more cw cw')
  from more.hyps(2) obtain p res where "op_ok E flags_ok p" "cursor_exec E root p cw = (res, cw')"
    by (rule cursor_stepE)
  with exec_effect [of root cw p res cw'] more.IH assms(3) show ?case
    using covers_trans by blast
qed

section \<open>Draining\<close>

lemma accepted_pending:
  assumes "covers E root (cursor_new, w0) (c, w)" "\<And>v. vaddr_is_valid (e_meta E) v \<Longrightarrow> accepts v"
  shows "needs_full_flush c \<or> (\<forall>x\<in>to_flush base c. accepts (of_nat x))"
  using assms by (auto simp: covers_def Let_def to_flush_new)

lemma finish_flushes:
  assumes "tlb_contract (e_tlb E) base iv accepts" "\<And>v. vaddr_is_valid (e_meta E) v \<Longrightarrow> accepts v"
    and inv: "flush_inv base c" and cov: "covers E root (cursor_new, w0) (c, w)"
  shows "\<exists>hs. cursor_finish E (c, w) = emit hs w \<and>
    (\<forall>v. query E root v (mem (cursor_finish E (c, w))) \<noteq> query E root v (mem w0) \<longrightarrow>
       unat v \<in> invalidated iv hs)"
proof -
  obtain c' w' where f: "flush_pending E c w = (c', w')" by fastforce
  from tlb_contract.flush_pending_spec [OF assms(1) refl refl inv accepted_pending [OF cov assms(2)] f]
  obtain hs where hs: "w' = emit hs w" "to_flush base c \<subseteq> invalidated iv hs" by blast
  have "unat v \<in> to_flush base c" if "query E root v (mem w) \<noteq> query E root v (mem w0)" for v
    using that cov by (simp add: covers_def Let_def)
  then show ?thesis
    using hs f by (intro exI [of _ hs]) (auto simp: cursor_drain emit_def)
qed

text \<open>A single operation with its own flush.\<close>

lemma leaf_flush:
  assumes tlb: "tlb_contract (e_tlb E) base iv accepts"
    and acc: "\<And>v. vaddr_is_valid (e_meta E) v \<Longrightarrow> accepts v"
    and rg: "page_range base rg" "\<And>v. in_range rg v \<Longrightarrow> vaddr_is_valid (e_meta E) v"
  shows "\<exists>hs. flush_leaf_range E rg w = emit hs w \<and> addrs rg \<subseteq> invalidated iv hs"
proof -
  let ?n = "(rng_end rg - rng_start rg) div bytes base"
  have p: "rng_start rg < rng_end rg" "2 ^ size_shift base dvd unat (rng_start rg)"
    "2 ^ size_shift base dvd unat (rng_end rg)"
    using rg(1) by (simp_all add: page_range_def)
  have size: "range_size (e_addr E) rg = rng_end rg - rng_start rg"
    using p(1) by (intro addr_size [OF addr_ok]) simp
  have e: "unat (rng_start rg) + unat ?n * 2 ^ size_shift base = unat (rng_end rg)"
    using pages_between(1) [OF p] p(1) by (simp add: word_less_nat_alt)
  show ?thesis
  proof (cases "prefer_full_flush (e_tlb E) ?n")
    case True
    then show ?thesis
      using tlb_contract.all_flushed [OF tlb] by (auto simp: flush_leaf_range_def size Let_def)
  next
    case False
    have "accepts (of_nat x)" if "x \<in> addrs rg" for x
    proof -
      have x: "unat (rng_start rg) \<le> x" "x < unat (rng_end rg)" using that by (simp_all add: addrs_def)
      then have "unat (of_nat x :: u64) = x"
        using unat_u64_less [of "rng_end rg"] by (simp add: unat_of_nat)
      then show ?thesis using x rg(2) acc by (simp add: in_range_nat)
    qed
    then have "addrs rg \<subseteq> invalidated iv (flush_tlb_range_local (e_tlb E) (rng_start rg) base ?n)"
      using tlb_contract.range_flushed [OF tlb, of "rng_start rg" ?n] p(2) unat_u64_less [of "rng_end rg"]
      by (simp add: e is_aligned_dvd addrs_def)
    then show ?thesis using False by (auto simp: flush_leaf_range_def size Let_def)
  qed
qed

lemma leaf_flushed:
  assumes "tlb_contract (e_tlb E) base iv accepts" "\<And>v. vaddr_is_valid (e_meta E) v \<Longrightarrow> accepts v"
    and "page_range base rg" "\<And>v. in_range rg v \<Longrightarrow> vaddr_is_valid (e_meta E) v"
    and q: "\<And>v. \<not> in_range rg v \<Longrightarrow> query E root v (mem w1) = query E root v (mem w)"
    and l: "logged w w1"
  shows "flushed E root iv w (flush_leaf_range E rg w1)"
proof -
  obtain hs where hs: "flush_leaf_range E rg w1 = emit hs w1" "addrs rg \<subseteq> invalidated iv hs"
    using leaf_flush [OF assms(1-4)] by blast
  have "unat v \<in> invalidated iv hs" if "query E root v (mem w1) \<noteq> query E root v (mem w)" for v
  proof -
    have "in_range rg v" using that q by blast
    then have "unat v \<in> addrs rg" by (simp add: addrs_def in_range_nat)
    then show ?thesis using hs(2) by blast
  qed
  then show ?thesis unfolding hs(1) by (rule flushed_emit [OF l])
qed

lemma map_flushed:
  assumes tlb: "tlb_contract (e_tlb E) base iv accepts"
    and acc: "\<And>v. vaddr_is_valid (e_meta E) v \<Longrightarrow> accepts v"
    and ok: "tree_ok E live root w" and p: "flags_ok (mf_leaf flags)" "range_ok rg" "backing_ok backing"
    and src: "into_map_backing (e_addr E) src (range_size (e_addr E) rg) = Ok backing"
    and run: "walker_map E root rg src flags w = (res, w')"
  shows "flushed E root iv w w'"
proof (rule walker_map_cases [OF ok p(1,2) src run], goal_cases)
  case (1 x)
  then show ?case by (simp add: flushed_same)
next
  case 2
  show ?case
  proof (rule map_via_cursor_run [OF ok p 2])
    fix c1 w1
    assume out: "map_outcome E live root (rng_start rg) (unat (range_size (e_addr E) rg))
        (backing_paddr (e_addr E) backing) (norm (mf_leaf flags)) (cursor_new, w) res (c1, w1)"
      and w': "w' = cursor_finish E (c1, w1)"
      and m: "cursor_map E root rg (FromBacking backing) flags (cursor_new, w) = (res, (c1, w1))"
    have "flush_inv base c1" "covers E root (cursor_new, w) (c1, w1)"
      using out by (simp_all add: map_outcome_def)
    from finish_flushes [OF tlb acc this] obtain hs where hs: "w' = emit hs w1"
      "\<And>v. query E root v (mem w') \<noteq> query E root v (mem w) \<Longrightarrow> unat v \<in> invalidated iv hs"
      unfolding w' by blast
    have "logged w w1" using cursor_map_logged [of "(cursor_new, w)" E root rg "FromBacking backing" flags] by (simp add: m)
    then show ?thesis using hs(2) unfolding hs(1) by (intro flushed_emit) (simp_all add: emit_def)
  qed
next
  case (3 phys sz t w1)
  note q = map_leaf_direct_query [OF ok 3(7,5,6) p(1,2) 3(2-4,8)]
  have l: "logged w w1" using map_leaf_direct_logged [of w] 3(8) by (metis snd_conv)
  from 3(9) show ?case
  proof
    assume r: "res = Ok () \<and> w' = flush_leaf_range E rg w1"
    have "flushed E root iv w (flush_leaf_range E rg w1)"
      by (rule leaf_flushed [OF tlb acc leaf_page_range [OF 3(7) p(2) 3(2,3)]
            leaf_valid [OF 3(7) p(2) 3(2-4)]]) (use q r l in simp_all)
    then show ?thesis using r by simp
  next
    assume "(\<exists>x. res = Err x) \<and> w' = w1"
    then show ?thesis using q l by (auto intro: flushed_same)
  qed
qed

lemma changed_flushed:
  assumes tlb: "tlb_contract (e_tlb E) base iv accepts"
    and acc: "\<And>v. vaddr_is_valid (e_meta E) v \<Longrightarrow> accepts v"
    and "query E root (rng_start rg) (mem w) = Ok mp" "m_range mp = rg"
    and "\<And>v. \<not> in_range rg v \<Longrightarrow> query E root v (mem w1) = query E root v (mem w)" "logged w w1"
  shows "flushed E root iv w (flush_leaf_range E rg w1)"
  by (rule leaf_flushed [OF tlb acc mapped_range [OF assms(3,4)] assms(5,6)])

lemma unmap_flushed:
  assumes tlb: "tlb_contract (e_tlb E) base iv accepts"
    and acc: "\<And>v. vaddr_is_valid (e_meta E) v \<Longrightarrow> accepts v"
    and ok: "tree_ok E live root w" and total: "dealloc_total E live"
    and run: "unmap E root rg w = (res, w')"
  shows "res \<noteq> Panic \<and> tree_ok E live root w' \<and> flushed E root iv w w'"
proof -
  obtain r w1 where r: "unmap_no_flush E root rg w = (r, w1)" by fastforce
  have l: "logged w w1" using unmap_logged [of w] r by (metis snd_conv)
  from unmap_no_flush_spec [OF ok r] consider
    (changed) mp where "query E root (rng_start rg) (mem w) = Ok mp" "m_range mp = rg" "r = Ok mp"
      "tree_ok E live root w1" "\<forall>v'. query E root v' (mem w1) =
         (if in_range rg v' then Err NotMapped else query E root v' (mem w))"
    | (failed) x where "r = Err x" "w1 = w"
    using total by blast
  then show ?thesis
  proof cases
    case changed
    then have "res = Ok mp" "w' = flush_leaf_range E rg w1" using run r by (simp_all add: unmap_def)
    then show ?thesis using changed changed_flushed [OF tlb acc changed(1,2), of w1] l by simp
  next
    case failed
    then have "res = Err x" "w' = w" using run r by (simp_all add: unmap_def)
    then show ?thesis using ok by (simp add: flushed_same)
  qed
qed

lemma protect_flushed:
  assumes tlb: "tlb_contract (e_tlb E) base iv accepts"
    and acc: "\<And>v. vaddr_is_valid (e_meta E) v \<Longrightarrow> accepts v"
    and ok: "tree_ok E live root w" and f: "flags_ok flags"
    and run: "protect E root rg flags w = (res, w')"
  shows "res \<noteq> Panic \<and> tree_ok E live root w' \<and> flushed E root iv w w'"
proof -
  obtain r w1 where r: "protect_no_flush E root rg flags w = (r, w1)" by fastforce
  have l: "logged w w1" using protect_logged [of w] r by (metis snd_conv)
  from protect_no_flush_spec [OF ok f r] consider
    (changed) mp where "query E root (rng_start rg) (mem w) = Ok mp" "m_range mp = rg"
      "r = Ok (mapping_new rg (m_paddr mp) flags)" "tree_ok E live root w1"
      "\<forall>v'. query E root v' (mem w1) =
          (if in_range rg v' then Ok (mapping_new rg (m_paddr mp) (norm flags))
           else query E root v' (mem w))"
    | (failed) x where "r = Err x" "w1 = w" by blast
  then show ?thesis
  proof cases
    case changed
    then have "res = r" "w' = flush_leaf_range E rg w1"
      using run r by (simp_all add: protect_def mapping_new_def)
    then show ?thesis using changed changed_flushed [OF tlb acc changed(1,2), of w1] l by simp
  next
    case failed
    then have "res = Err x" "w' = w" using run r by (simp_all add: protect_def)
    then show ?thesis using ok by (simp add: flushed_same)
  qed
qed

lemma remap_flushed:
  assumes tlb: "tlb_contract (e_tlb E) base iv accepts"
    and acc: "\<And>v. vaddr_is_valid (e_meta E) v \<Longrightarrow> accepts v"
    and ok: "tree_ok E live root w" and f: "flags_ok flags"
    and run: "remap E root rg p flags w = (res, w')"
  shows "res \<noteq> Panic \<and> tree_ok E live root w' \<and> flushed E root iv w w'"
proof -
  obtain r w1 where r: "remap_no_flush E root rg p flags w = (r, w1)" by fastforce
  have l: "logged w w1" using remap_logged [of w] r by (metis snd_conv)
  from remap_no_flush_spec [OF ok f r] consider
    (changed) mp where "query E root (rng_start rg) (mem w) = Ok mp" "m_range mp = rg"
      "r = Ok (mapping_new rg p flags)" "tree_ok E live root w1"
      "\<forall>v'. query E root v' (mem w1) =
          (if in_range rg v' then Ok (mapping_new rg p (norm flags)) else query E root v' (mem w))"
    | (failed) x where "r = Err x" "w1 = w" unfolding exact_mapped_def by blast
  then show ?thesis
  proof cases
    case changed
    then have "res = r" "w' = flush_leaf_range E rg w1"
      using run r by (simp_all add: remap_def mapping_new_def)
    then show ?thesis using changed changed_flushed [OF tlb acc changed(1,2), of w1] l by simp
  next
    case failed
    then have "res = Err x" "w' = w" using run r by (simp_all add: remap_def)
    then show ?thesis using ok by (simp add: flushed_same)
  qed
qed

lemma exec_flushed:
  assumes tlb: "tlb_contract (e_tlb E) base iv accepts"
    and acc: "\<And>v. vaddr_is_valid (e_meta E) v \<Longrightarrow> accepts v"
    and ok: "tree_ok E live root w" and total: "dealloc_total E live" and p: "op_ok E flags_ok p"
    and run: "walker_exec E root p w = (res, w')"
  shows "res \<noteq> Panic \<and> tree_ok E live root w' \<and> flushed E root iv w w'"
proof (cases p)
  case (MapOp rg src flags)
  then obtain b where b: "flags_ok (mf_leaf flags)" "range_ok rg" "backing_ok b"
    "into_map_backing (e_addr E) src (range_size (e_addr E) rg) = Ok b"
    using p by (auto split: res.splits)
  have r: "walker_map E root rg src flags w = (res, w')" using run MapOp by simp
  show ?thesis
    using walker_map_spec [OF ok b r] map_flushed [OF tlb acc ok b r] by blast
next
  case (UnmapOp rg)
  obtain r w1 where r: "unmap E root rg w = (r, w1)" by (meson surj_pair)
  then have "w' = w1" "res = Panic \<longrightarrow> r = Panic"
    using run UnmapOp by (auto simp: forget_def bind_res_def split: res.splits)
  then show ?thesis using unmap_flushed [OF tlb acc ok total r] by blast
next
  case (ProtectOp rg flags)
  obtain r w1 where r: "protect E root rg flags w = (r, w1)" by (meson surj_pair)
  then have "w' = w1" "res = Panic \<longrightarrow> r = Panic"
    using run ProtectOp by (auto simp: forget_def bind_res_def split: res.splits)
  then show ?thesis using protect_flushed [OF tlb acc ok _ r] p ProtectOp by simp
next
  case (RemapOp rg q flags)
  obtain r w1 where r: "remap E root rg q flags w = (r, w1)" by (meson surj_pair)
  then have "w' = w1" "res = Panic \<longrightarrow> r = Panic"
    using run RemapOp by (auto simp: forget_def bind_res_def split: res.splits)
  then show ?thesis using remap_flushed [OF tlb acc ok _ r] p RemapOp by simp
qed

end

end
