(* ===== verification/Progress.thy ===== *)
theory Progress
  imports DropSpec
begin

text \<open>
  What a caller may count on: the shape of every mapping a lookup returns, the choice of the
  largest legal leaf, and that mapping an unmapped page can only fail in the allocator.
\<close>

section \<open>The choice of a leaf size\<close>

definition leaf_fits :: "meta_impl \<Rightarrow> vaddr \<Rightarrow> paddr \<Rightarrow> usize \<Rightarrow> page_size \<Rightarrow> bool" where
  "leaf_fits M v p remaining sz \<longleftrightarrow>
     bytes sz \<le> remaining \<and> is_aligned sz v \<and> is_aligned sz p \<and> size_to_level M sz \<noteq> None"

lemma best_leaf_size_from_spec:
  "best_leaf_size_from M szs v p remaining =
     (case List.find (leaf_fits M v p remaining) szs of
        None \<Rightarrow> Err UnsupportedSize | Some sz \<Rightarrow> Ok sz)"
proof (induction szs)
  case (Cons a szs)
  have "best_leaf_size_from M (a # szs) v p remaining =
      (if leaf_fits M v p remaining a then Ok a else best_leaf_size_from M szs v p remaining)"
    by (simp only: best_leaf_size_from.simps leaf_fits_def)
  with Cons show ?case by simp
qed simp

lemma all_sizes_listed: "sz \<in> set LEAF_SIZES_DESC"
  by (cases sz) (simp_all add: LEAF_SIZES_DESC_def)

lemma sizes_descend: "sorted_wrt (\<lambda>a b. b \<le> a) (LEAF_SIZES_DESC :: page_size list)"
  by (simp add: LEAF_SIZES_DESC_def less_eq_page_size_def)

lemma find_first_largest:
  assumes "List.find P xs = Some x" "sorted_wrt (\<lambda>a b. b \<le> a) (xs :: page_size list)"
    and "y \<in> set xs" "P y"
  shows "y \<le> x"
  using assms
proof (induction xs)
  case (Cons a xs)
  then show ?case by (auto split: if_splits)
qed simp

lemma best_leaf_size_spec:
  "best_leaf_size M v p remaining = Ok sz \<longleftrightarrow>
     leaf_fits M v p remaining sz \<and> (\<forall>sz'. leaf_fits M v p remaining sz' \<longrightarrow> sz' \<le> sz)"
  "best_leaf_size M v p remaining = Err UnsupportedSize \<longleftrightarrow> (\<forall>sz'. \<not> leaf_fits M v p remaining sz')"
proof -
  let ?P = "leaf_fits M v p remaining" and ?f = "List.find (leaf_fits M v p remaining) LEAF_SIZES_DESC"
  have best: "best_leaf_size M v p remaining =
      (case ?f of None \<Rightarrow> Err UnsupportedSize | Some sz \<Rightarrow> Ok sz)"
    by (simp add: best_leaf_size_def best_leaf_size_from_spec)
  have some: "?P x \<and> (\<forall>y. ?P y \<longrightarrow> y \<le> x)" if "?f = Some x" for x
    using that find_first_largest [OF that sizes_descend all_sizes_listed] by (auto simp: find_Some_iff)
  have none: "?f = None \<longleftrightarrow> (\<forall>y. \<not> ?P y)"
    using all_sizes_listed by (auto simp: find_None_iff)
  show "best_leaf_size M v p remaining = Err UnsupportedSize \<longleftrightarrow> (\<forall>sz'. \<not> ?P sz')"
    unfolding best using none by (auto split: option.split)
  show "best_leaf_size M v p remaining = Ok sz \<longleftrightarrow> ?P sz \<and> (\<forall>sz'. ?P sz' \<longrightarrow> sz' \<le> sz)"
  proof (cases ?f)
    case None
    then show ?thesis unfolding best using none by simp
  next
    case (Some x)
    then show ?thesis unfolding best using some [OF Some] by (auto intro: antisym)
  qed
qed

context walker
begin

section \<open>The shape of a mapping\<close>

lemma query_shape:
  fixes w :: "('s, 'h) world"
  assumes ok: "tree_ok E live root w" and q: "query E root v (mem w) = Ok mp"
  obtains sz where "in_range (m_range mp) v" "is_aligned sz (rng_start (m_range mp))"
    "mapping_size (e_addr E) mp = Some sz" "is_aligned sz (m_paddr mp)"
    "paddr_is_valid (e_meta E) (m_paddr mp)" "flags_ok (m_flags mp)"
    "\<And>v'. in_range (m_range mp) v' \<Longrightarrow> query E root v' (mem w) = Ok mp"
proof -
  from q obtain t e sz where val: "vaddr_is_valid (e_meta E) v"
    and vw: "root_view E w root v = Ok (t, e)" and sz: "leaf_size_at_level (e_meta E) t = Some sz"
    and lr: "leaf_range (e_addr E) v sz = Ok (m_range mp)"
    and mp: "mp = mapping_new (m_range mp) (pte_paddr (e_pte E) e) (pte_flags (e_pte E) e)"
    by (rule query_OkD)
  from vw obtain f where fl: "find_leaf E (mem w) (LEVELS (e_meta E)) root v = Ok (t, f, e)"
    by (auto simp: view_def bind_res_eq_Ok)
  from find_leaf_table_at [OF fl] have ta: "root_table_at E w root v t = Some f"
    and e: "e = read_entry E (mem w) f (index_at (e_meta E) t v)" "is_present (e_pte E) e"
      "entry_kind (e_pte E) e t = Leaf" by blast+
  have t: "1 \<le> t" "t \<le> LEVELS (e_meta E)" using table_at_level [OF ta] by simp_all
  have sh: "level_shift (e_meta E) t = size_shift sz" using leaf_size [OF t] sz by blast
  let ?b = "v AND NOT (mask (size_shift sz))"
  from lr obtain x where x: "checked_add ?b (bytes sz) = Some x"
    "m_range mp = \<lparr>rng_start = ?b, rng_end = x\<rparr>"
    using addr_ok by (auto simp: leaf_range_Ok)
  have le: "?b \<le> x"
    using conjunct2 [OF checked_add_Some [OF x(1)]] unfolding word_le_nat_alt by linarith
  have size: "range_size (e_addr E) (m_range mp) = bytes sz"
    using addr_size [OF addr_ok, of "m_range mp"] le checked_add_Some [OF x(1)] by (simp add: x(2))
  have sel: "m_paddr mp = pte_paddr (e_pte E) e" "m_flags mp = pte_flags (e_pte E) e"
    by (subst mp; simp add: mapping_new_def)+
  have 1: "in_range (m_range mp) v"
    using leaf_range_mem [OF addr_ok lr, of v] by (simp add: in_range_def)
  have 2: "is_aligned sz (rng_start (m_range mp))"
    by (auto simp: is_aligned_mask x(2) bit_simps intro!: bit_word_eqI)
  have 3: "mapping_size (e_addr E) mp = Some sz" by (simp add: mapping_size_def size)
  have 4: "is_aligned sz (m_paddr mp)" using tree_okD(4) [OF ok vw] sz by (simp add: leaf_ok_def sel)
  have 5: "paddr_is_valid (e_meta E) (m_paddr mp)" using decoded_paddr e by (simp add: sel)
  have 6: "flags_ok (m_flags mp)" using decoded_flags e by (simp add: sel)
  have 7: "query E root v' (mem w) = Ok mp" if "in_range (m_range mp) v'" for v'
  proof -
    have d: "drop_bit (size_shift sz) v' = drop_bit (size_shift sz) v"
      using leaf_range_mem [OF addr_ok lr, of v'] that by (simp add: in_range_def)
    then have val': "vaddr_is_valid (e_meta E) v'" using valid_block [OF val t, of v'] by (simp add: sh)
    have "same_path (e_meta E) t v v'" using same_path_block [OF val val' t] d by (simp add: sh)
    then have "root_view E w root v' = entry_view E (mem w) t e v'"
      using view_at [OF ta order.refl, of v'] e(1) by (simp add: same_path_def)
    also have "\<dots> = Ok (t, e)" using e by (simp add: entry_view_def entry_is_leaf_def)
    finally show ?thesis
      using query_leaf [OF _ sz lr that val'] mp by simp
  qed
  show ?thesis by (rule that [OF 1 2 3 4 5 6 7])
qed

section \<open>An unmapped page can be mapped\<close>

lemma map_descend_progress:
  assumes "tree_ok E live root w" "root_table_at E w root v l = Some cur" "1 \<le> target" "target \<le> l"
    and "root_view E w root v = Err NotMapped"
    and "map_descend E target v l cur w = (Err x, w')"
  shows "(\<exists>w1 w2. alloc_table_frame E w1 = (Err x, w2))"
  using assms
proof (induction l arbitrary: cur w)
  case 0
  then show ?case by simp
next
  case (Suc l)
  let ?M = "e_meta E" and ?P = "e_pte E"
  let ?i = "index_at ?M (Suc l) v"
  let ?e = "read_entry E (mem w) cur ?i"
  have tl: "target < Suc l" using Suc.prems(3,4,6) by (cases "target = Suc l") simp_all
  then have tl': "target \<le> l" by simp
  obtain l' where l': "l = Suc l'" using tl Suc.prems(3) by (cases l) auto
  show ?case
  proof (cases "is_present ?P ?e")
    case pres: True
    have vw: "entry_view E (mem w) (Suc l) ?e v = Err NotMapped"
      using view_at [OF Suc.prems(2) order.refl, of v] Suc.prems(5) by simp
    show ?thesis
    proof (cases "entry_kind ?P ?e (Suc l)")
      case Table
      have d: "map_descend E target v l (pte_paddr ?P ?e) w = (Err x, w')"
        using Suc.prems(6) tl pres Table by (simp add: Let_def entry_is_leaf_def)
      have "root_table_at E w root v l = Some (pte_paddr ?P ?e)"
        using table_step Suc.prems(2) pres Table unfolding l' by blast
      from Suc.IH [OF Suc.prems(1) this Suc.prems(3) tl' Suc.prems(5) d] show ?thesis .
    qed (use vw pres in \<open>simp_all add: entry_view_def entry_is_leaf_def\<close>)
  next
    case absent: False
    obtain ra w1 where a: "alloc_table_frame E w = (ra, w1)" by fastforce
    note al = alloc_table_frame_spec [OF a]
    show ?thesis
    proof (cases ra)
      case (Ok g)
      let ?w2 = "store E cur ?i (new_table ?P g (Suc l)) w1"
      have d: "map_descend E target v l g ?w2 = (Err x, w')"
        using Suc.prems(6) tl absent a Ok by (simp add: Let_def)
      have ta: "root_table_at E w root v (Suc (Suc l')) = Some cur" using Suc.prems(2) l' by simp
      have ab: "\<not> is_present ?P (read_entry E (mem w) cur (index_at ?M (Suc (Suc l')) v))"
        using absent l' by simp
      note new = al(3) [OF Ok, THEN conjunct1] al(3) [OF Ok, THEN conjunct2, THEN conjunct1]
        al(3) [OF Ok, THEN conjunct2, THEN conjunct2, THEN conjunct1]
        al(3) [OF Ok, THEN conjunct2, THEN conjunct2, THEN conjunct2, THEN conjunct1]
      note grow = grow_step [OF Suc.prems(1) ta ab al(2) new refl, folded l']
      have gr: "tree_ok E live root ?w2" "root_table_at E ?w2 root v l = Some g"
        and vw: "root_view E ?w2 root v = root_view E w root v" by (rule grow)+
      from Suc.IH [OF gr Suc.prems(3) tl' _ d] Suc.prems(5) vw show ?thesis by simp
    next
      case (Err y)
      then have "x = y" using Suc.prems(6) tl absent a by (simp add: Let_def)
      then show ?thesis using a Err by blast
    next
      case Panic
      then show ?thesis using al(1) by simp
    qed
  qed
qed

lemma map_page_progress:
  assumes ok: "tree_ok E live root w" and nm: "query E root (rng_start rg) (mem w) = Err NotMapped"
    and v: "vaddr_is_valid (e_meta E) (rng_start rg)" and one: "size_to_level (e_meta E) sz = Some 1"
    and run: "map_leaf_direct_sized_no_flush E root rg p flags sz 1 w = (res, w')"
  shows "res = Ok () \<or> (\<exists>x w1 w2. res = Err x \<and> alloc_table_frame E w1 = (Err x, w2))"
proof -
  let ?v = "rng_start rg"
  have vw: "root_view E w root ?v = Err NotMapped"
  proof (cases "root_view E w root ?v")
    case (Ok te)
    obtain t e where te: "te = (t, e)" by fastforce
    have "query E root ?v (mem w) = decode E ?v (t, e)"
      by (simp add: query_view check_vaddr_def v Ok te)
    moreover have "decode E ?v (t, e) \<noteq> Err NotMapped"
      by (auto simp: decode_def bind_res_def ok_or_def leaf_range_def Let_def split: res.splits option.splits)
    ultimately show ?thesis using nm by simp
  next
    case (Err x)
    then show ?thesis using nm query_not_mapped [OF Err v] by simp
  next
    case Panic
    then show ?thesis using nm by (simp add: query_view check_vaddr_def v)
  qed
  obtain rd w1 where d: "map_descend E 1 ?v (LEVELS (e_meta E)) root w = (rd, w1)" by fastforce
  note ds = map_descend_spec [OF ok root_table order.refl levels_pos d]
  show ?thesis
  proof (cases rd)
    case (Ok ck)
    then obtain c where rd: "rd = Ok (c, 1)" and ta: "root_table_at E w1 root ?v 1 = Some c"
      using ds by (cases ck) auto
    have "root_view E w1 root ?v = Err NotMapped" using ds vw by simp
    then have "entry_view E (mem w1) 1 (read_entry E (mem w1) c (index_at (e_meta E) 1 ?v)) ?v = Err NotMapped"
      using view_at [OF ta order.refl, of ?v] by simp
    then have "\<not> is_present (e_pte E) (read_entry E (mem w1) c (index_at (e_meta E) 1 ?v))"
      using kind_one by (cases "entry_kind (e_pte E) (read_entry E (mem w1) c (index_at (e_meta E) 1 ?v)) 1")
        (auto simp: entry_view_def entry_is_leaf_def)
    then show ?thesis
      using run d rd by (simp add: map_leaf_direct_sized_no_flush_def install_leaf_def)
  next
    case (Err x)
    then have "res = Err x" using run d by (simp add: map_leaf_direct_sized_no_flush_def)
    then show ?thesis
      using map_descend_progress [OF ok root_table order.refl levels_pos vw] d Err by blast
  next
    case Panic
    then show ?thesis using ds by simp
  qed
qed

end

end
