(* ===== verification/OutcomeSpec.thy ===== *)
theory OutcomeSpec
  imports CursorOps Progress
begin

text \<open>
  Which outcome an operation has: the result of remap, protect, unmap, split and merge as a
  function of the lookup at the start of the range, of the arguments and, where frames are
  exchanged, of the allocator. Errors included, nothing else of the tree matters.
\<close>

section \<open>The leaf of exactly a range\<close>

definition exact_query :: "('f, 's, 'h) env \<Rightarrow> paddr \<Rightarrow> addr_range \<Rightarrow> memory \<Rightarrow> 'f mapping res" where
  "exact_query E root rg m =
     bind_res (query E root (rng_start rg) m) (\<lambda>mp.
       if m_range mp \<noteq> rg then Err NotMapped else Ok mp)"

lemma exact_query_Ok:
  "exact_query E root rg m = Ok mp \<longleftrightarrow> query E root (rng_start rg) m = Ok mp \<and> m_range mp = rg"
  by (auto simp: exact_query_def bind_res_eq_Ok)

lemma exact_mapped_query: "exact_mapped E root rg w \<longleftrightarrow> (\<exists>mp. exact_query E root rg (mem w) = Ok mp)"
  by (simp add: exact_mapped_def exact_query_Ok)

text \<open>The mapping of a slot.\<close>

definition slot_mapping :: "('f, 's, 'h) env \<Rightarrow> addr_range \<Rightarrow> paddr \<times> nat \<times> u64 \<times> page_size \<Rightarrow> 'f mapping" where
  "slot_mapping E rg slot = (case slot of (c, i, e, sz) \<Rightarrow>
     mapping_new rg (pte_paddr (e_pte E) e) (pte_flags (e_pte E) e))"

lemma exact_query_slot:
  "exact_query E root rg m = bind_res (exact_leaf_slot E root rg m) (\<lambda>s. Ok (slot_mapping E rg s))"
proof (cases "check_vaddr (e_meta E) (rng_start rg) = Ok () \<and>
    (\<exists>t c e. find_leaf E m (LEVELS (e_meta E)) root (rng_start rg) = Ok (t, c, e))")
  case True
  then obtain t c e where v: "check_vaddr (e_meta E) (rng_start rg) = Ok ()"
    and fl: "find_leaf E m (LEVELS (e_meta E)) root (rng_start rg) = Ok (t, c, e)" by blast
  note defs = exact_query_def query_view exact_leaf_slot_def exact_leaf_walk_find view_def decode_def
  show ?thesis
  proof (cases "leaf_size_at_level (e_meta E) t")
    case (Some sz)
    then show ?thesis
      by (cases "leaf_range (e_addr E) (rng_start rg) sz")
        (auto simp: defs v fl slot_mapping_def mapping_new_def)
  qed (simp add: defs v fl)
next
  case False
  then show ?thesis
    by (cases "check_vaddr (e_meta E) (rng_start rg)";
        cases "find_leaf E m (LEVELS (e_meta E)) root (rng_start rg)")
      (auto simp: exact_query_def query_view exact_leaf_slot_def exact_leaf_walk_find view_def)
qed

context walker
begin

lemma leaf_range_size:
  assumes "leaf_range (e_addr E) v sz = Ok rg"
  shows "range_size (e_addr E) rg = bytes sz"
proof -
  obtain x where x: "checked_add (v AND NOT (mask (size_shift sz))) (bytes sz) = Some x"
    and rg: "rg = \<lparr>rng_start = v AND NOT (mask (size_shift sz)), rng_end = x\<rparr>"
    using assms leaf_range_Ok [OF addr_ok] by auto
  note x' = checked_add_Some [OF x]
  then have "v AND NOT (mask (size_shift sz)) \<le> x" unfolding word_le_nat_alt by linarith
  then show ?thesis using addr_size [OF addr_ok, of rg] x' by (simp add: rg)
qed

lemma slot_size:
  fixes w :: "('s, 'h) world"
  assumes "exact_leaf_slot E root rg (mem w) = Ok (c, i, e, sz)"
  shows "range_size (e_addr E) rg = bytes sz"
  by (rule exact_leaf_slot_Ok [OF assms]) (rule leaf_range_size)

section \<open>Remap and protect\<close>

lemma remap_outcome:
  "fst (remap_no_flush E root rg p flags w) =
     bind_res (check_paddr (e_meta E) p) (\<lambda>_.
     bind_res (exact_query E root rg (mem w)) (\<lambda>mp.
     if unat (range_size (e_addr E) rg) dvd unat p then Ok (mapping_new rg p flags) else Err NotAligned))"
proof (cases "exact_leaf_slot E root rg (mem w)")
  case (Ok slot)
  obtain c i e sz where s: "slot = (c, i, e, sz)" by (cases slot)
  have "is_aligned sz p \<longleftrightarrow> unat (range_size (e_addr E) rg) dvd unat p"
    using slot_size [OF Ok [unfolded s]] by (simp add: is_aligned_dvd unat_bytes)
  then show ?thesis
    by (cases "check_paddr (e_meta E) p") (simp_all add: remap_no_flush_def exact_query_slot Ok s)
qed (cases "check_paddr (e_meta E) p"; simp add: remap_no_flush_def exact_query_slot)+

lemma protect_outcome:
  "fst (protect_no_flush E root rg flags w) =
     bind_res (exact_query E root rg (mem w)) (\<lambda>mp. Ok (mapping_new rg (m_paddr mp) flags))"
proof (cases "exact_leaf_slot E root rg (mem w)")
  case (Ok slot)
  obtain c i e sz where s: "slot = (c, i, e, sz)" by (cases slot)
  show ?thesis
    by (simp add: protect_no_flush_def exact_query_slot Ok s slot_mapping_def mapping_new_def Let_def)
qed (simp_all add: protect_no_flush_def exact_query_slot)


section \<open>Unmap\<close>

lemma unmap_outcome:
  assumes ok: "tree_ok E live root w" and total: "dealloc_total E live"
  shows "fst (unmap_no_flush E root rg w) = exact_query E root rg (mem w)"
    "\<lbrakk>unmap_no_flush E root rg w = (Err x, w')\<rbrakk> \<Longrightarrow> w' = w"
proof -
  let ?M = "e_meta E"
  obtain res u where r: "unmap_no_flush E root rg w = (res, u)" by fastforce
  from unmap_no_flush_spec [OF ok r] consider
      (unmapped) mp where "query E root (rng_start rg) (mem w) = Ok mp" "m_range mp = rg" "res = Ok mp"
    | (failed) x where "res = Err x" "u = w" "\<not> exact_mapped E root rg w" using total by blast
  then show "fst (unmap_no_flush E root rg w) = exact_query E root rg (mem w)"
  proof cases
    case unmapped
    then show ?thesis by (simp add: r exact_query_def)
  next
    case failed
    obtain ps where d: "unmap_descend E rg (LEVELS ?M) root [] w =
      bind_st (find_leaf E (mem w) (LEVELS ?M) root (rng_start rg), w) (\<lambda>(t, c, e) w.
        bind_st (ok_or (leaf_size_at_level ?M t) UnsupportedSize, w) (\<lambda>sz w.
        bind_st (leaf_range (e_addr E) (rng_start rg) sz, w) (\<lambda>lr w.
        if lr \<noteq> rg then (Err NotMapped, w)
        else (Ok (mapping_new lr (pte_paddr (e_pte E) e) (pte_flags (e_pte E) e), c, ps),
              store E c (index_at ?M t (rng_start rg)) (pte_clear (e_pte E) e) w))))"
      using unmap_descend_find [of "[]" "LEVELS ?M" E rg root w] levels_max by auto
    note defs = exact_mapped_def query_view view_def decode_def unmap_no_flush_def d
    have "unmap_no_flush E root rg w = (exact_query E root rg (mem w), w)"
    proof (cases "check_vaddr ?M (rng_start rg)")
      case chk: (Ok u)
      show ?thesis
      proof (cases "find_leaf E (mem w) (LEVELS ?M) root (rng_start rg)")
        case (Ok tce)
        obtain t c e where tce: "tce = (t, c, e)" by (cases tce)
        show ?thesis
        proof (cases "leaf_size_at_level ?M t")
          case (Some sz)
          then show ?thesis
            using failed(3) chk Ok tce
            by (cases "leaf_range (e_addr E) (rng_start rg) sz")
              (auto simp: defs exact_query_def mapping_new_def)
        qed (simp add: defs exact_query_def chk Ok tce)
      qed (simp_all add: defs exact_query_def chk)
    qed (simp_all add: unmap_no_flush_def exact_query_def query_view)
    then show ?thesis by simp
  qed
  show "unmap_no_flush E root rg w = (Err x, w') \<Longrightarrow> w' = w"
    using unmap_no_flush_spec [OF ok, of rg "Err x" w'] total by auto
qed

end

end
