(* ===== verification/RestructureSpec.thy ===== *)
theory RestructureSpec
  imports OutcomeSpec
begin

text \<open>
  The outcomes of split and merge: split succeeds on every leaf that has a finer size unless
  the allocator fails, merge succeeds exactly when the range is mapped by finer leaves that are
  physically contiguous with equal flags, and merging undoes splitting.
\<close>

section \<open>Split\<close>

text \<open>The size of the parts of a leaf that covers exactly a range.\<close>

definition finer_size :: "('f, 's, 'h) env \<Rightarrow> addr_range \<Rightarrow> page_size res" where
  "finer_size E rg =
     (case from_bytes (range_size (e_addr E) rg) of
        None \<Rightarrow> Err NotMapped
      | Some sz \<Rightarrow>
          (case size_to_level (e_meta E) sz of
             Some (Suc (Suc l)) \<Rightarrow> ok_or (leaf_size_at_level (e_meta E) (Suc l)) UnsupportedSize
           | _ \<Rightarrow> Err NotMapped))"

definition split_leaf_at :: "('f, 's, 'h) env \<Rightarrow> addr_range \<Rightarrow> nat \<times> paddr \<times> u64 \<Rightarrow> ('s, 'h) world \<Rightarrow>
    page_size res \<times> ('s, 'h) world" where
  "split_leaf_at E rg tce w =
     (case tce of (t, c, e) \<Rightarrow>
      if t = 1 then (Err NotMapped, w)
      else
        bind_st (ok_or (leaf_size_at_level (e_meta E) t) UnsupportedSize, w) (\<lambda>sz w.
        bind_st (leaf_range (e_addr E) (rng_start rg) sz, w) (\<lambda>lr w.
        if lr \<noteq> rg then (Err NotMapped, w)
        else
          bind_st (ok_or (leaf_size_at_level (e_meta E) (t - 1)) UnsupportedSize, w) (\<lambda>fsz w.
          bind_st (alloc_table_frame E w) (\<lambda>child w.
          bind_st (split_fill E child (pte_paddr (e_pte E) e) (pte_flags (e_pte E) e) fsz
                     [0..<ENTRIES_PER_TABLE (e_meta E)] w) (\<lambda>_ w.
          (Ok fsz,
           flush_leaf_range E rg (store E c (index_at (e_meta E) t (rng_start rg))
             (new_table (e_pte E) child t) w))))))))"

context walker
begin

lemma split_walk_find:
  "split_walk E rg l cur w =
     bind_st (find_leaf E (mem w) l cur (rng_start rg), w) (\<lambda>tce w. split_leaf_at E rg tce w)"
proof (induction l arbitrary: cur)
  case (Suc l)
  let ?e = "read_entry E (mem w) cur (index_at (e_meta E) (Suc l) (rng_start rg))"
  show ?case
  proof (cases "is_present (e_pte E) ?e")
    case True
    show ?thesis
    proof (cases "entry_kind (e_pte E) ?e (Suc l)")
      case Table
      then have "l \<noteq> 0" using kind_one by (cases l) auto
      then show ?thesis using Suc.IH True Table by (simp add: Let_def entry_is_leaf_def)
    next
      case Leaf
      then show ?thesis using True by (simp add: Let_def entry_is_leaf_def split_leaf_at_def)
    next
      case Invalid
      then show ?thesis using True by (simp add: Let_def entry_is_leaf_def)
    qed
  next
    case False
    then show ?thesis by (simp add: Let_def)
  qed
qed simp

text \<open>The level and the size of the leaf that a lookup finds.\<close>

lemma exact_query_leaf:
  fixes w :: "('s, 'h) world"
  assumes ok: "tree_ok E live root w" and q: "exact_query E root rg (mem w) = Ok mp"
  obtains t c e sz where "find_leaf E (mem w) (LEVELS (e_meta E)) root (rng_start rg) = Ok (t, c, e)"
    "size_to_level (e_meta E) sz = Some t" "leaf_range (e_addr E) (rng_start rg) sz = Ok rg"
    "range_size (e_addr E) rg = bytes sz" "vaddr_is_valid (e_meta E) (rng_start rg)"
    "root_table_at E w root (rng_start rg) t = Some c"
    "e = read_entry E (mem w) c (index_at (e_meta E) t (rng_start rg))"
    "is_present (e_pte E) e" "entry_kind (e_pte E) e t = Leaf"
    "leaf_size_at_level (e_meta E) t = Some sz"
    "mp = mapping_new rg (pte_paddr (e_pte E) e) (pte_flags (e_pte E) e)"
proof -
  from q have q': "query E root (rng_start rg) (mem w) = Ok mp" and r: "m_range mp = rg"
    by (simp_all add: exact_query_Ok)
  from q' obtain t e sz where v: "vaddr_is_valid (e_meta E) (rng_start rg)"
    "root_view E w root (rng_start rg) = Ok (t, e)" "leaf_size_at_level (e_meta E) t = Some sz"
    "leaf_range (e_addr E) (rng_start rg) sz = Ok rg"
    "mp = mapping_new rg (pte_paddr (e_pte E) e) (pte_flags (e_pte E) e)"
    unfolding r [symmetric] by (rule query_OkD)
  from v(2) obtain c where fl: "find_leaf E (mem w) (LEVELS (e_meta E)) root (rng_start rg) = Ok (t, c, e)"
    by (auto simp: view_def bind_res_eq_Ok)
  from find_leaf_table_at [OF fl] have ta: "root_table_at E w root (rng_start rg) t = Some c"
    "e = read_entry E (mem w) c (index_at (e_meta E) t (rng_start rg))"
    "is_present (e_pte E) e" "entry_kind (e_pte E) e t = Leaf" by blast+
  have "level_supports_leaf (e_meta E) t sz" using tree_okD(4) [OF ok v(2)] v(3) by (simp add: leaf_ok_def)
  then have "size_to_level (e_meta E) sz = Some t"
    using supports_level table_at_level [OF ta(1)] by blast
  from that [OF fl this v(4) leaf_range_size [OF v(4)] v(1) ta v(3,5)] show thesis .
qed

lemma split_outcome:
  fixes w :: "('s, 'h) world"
  assumes ok: "tree_ok E live root w"
  shows "case exact_query E root rg (mem w) of
      Ok mp \<Rightarrow> fst (split_at E root rg w) =
        bind_res (finer_size E rg) (\<lambda>fsz. bind_res (fst (alloc_table_frame E w)) (\<lambda>_. Ok fsz))
    | Err x \<Rightarrow> \<exists>y\<in>{x, NotMapped}. split_at E root rg w = (Err y, w)
    | Panic \<Rightarrow> False"
proof (cases "exact_query E root rg (mem w)")
  case (Ok mp)
  then obtain t c e sz where fl: "find_leaf E (mem w) (LEVELS (e_meta E)) root (rng_start rg) = Ok (t, c, e)"
    "size_to_level (e_meta E) sz = Some t" "leaf_range (e_addr E) (rng_start rg) sz = Ok rg"
    "range_size (e_addr E) rg = bytes sz" "vaddr_is_valid (e_meta E) (rng_start rg)"
    and ta: "root_table_at E w root (rng_start rg) t = Some c"
    "e = read_entry E (mem w) c (index_at (e_meta E) t (rng_start rg))"
    "is_present (e_pte E) e" "entry_kind (e_pte E) e t = Leaf"
    and sz: "leaf_size_at_level (e_meta E) t = Some sz"
    by (rule exact_query_leaf [OF ok]) blast
  have run: "split_at E root rg w = split_leaf_at E rg (t, c, e) w"
    by (simp add: split_at_def split_walk_find check_vaddr_def fl)
  show ?thesis
  proof (cases "\<exists>l. t = Suc (Suc l)")
    case False
    then have "t = 1" using table_at_level [OF ta(1)] by (metis One_nat_def not0_implies_Suc not_one_le_zero)
    then show ?thesis using fl by (simp add: run split_leaf_at_def finer_size_def Ok)
  next
    case True
    then obtain l where t: "t = Suc (Suc l)" by blast
    have fs: "finer_size E rg = ok_or (leaf_size_at_level (e_meta E) (Suc l)) UnsupportedSize"
      using fl(2) by (simp add: finer_size_def fl(4) t)
    show ?thesis
    proof (cases "leaf_size_at_level (e_meta E) (Suc l)")
      case None
      then show ?thesis using sz fl(3) by (simp add: run split_leaf_at_def fs t Ok)
    next
      case (Some fsz)
      obtain ra w1 where a: "alloc_table_frame E w = (ra, w1)" by fastforce
      show ?thesis
      proof (cases ra)
        case ra: (Ok g)
        obtain rf w2 where f: "split_fill E g (pte_paddr (e_pte E) e) (pte_flags (e_pte E) e) fsz
            [0..<ENTRIES_PER_TABLE (e_meta E)] w1 = (rf, w2)" by fastforce
        have "rf = Ok ()"
          using split_leaf [OF ok ta(1) [unfolded t] ta(2) [unfolded t] ta(3) ta(4) [unfolded t]
              sz [unfolded t] Some fl(3) a [unfolded ra] f refl] by blast
        then show ?thesis using sz fl(3) Some a ra f by (simp add: run split_leaf_at_def fs t Ok)
      qed (use sz fl(3) Some a in \<open>simp_all add: run split_leaf_at_def fs t Ok\<close>)
    qed
  qed
next
  case (Err x)
  show ?thesis
  proof (cases "\<exists>t c e. check_vaddr (e_meta E) (rng_start rg) = Ok () \<and>
      find_leaf E (mem w) (LEVELS (e_meta E)) root (rng_start rg) = Ok (t, c, e)")
    case False
    then show ?thesis
      using Err
      by (cases "check_vaddr (e_meta E) (rng_start rg)";
          cases "find_leaf E (mem w) (LEVELS (e_meta E)) root (rng_start rg)")
        (auto simp: split_at_def split_walk_find exact_query_def query_view view_def)
  next
    case True
    then obtain t c e where chk: "check_vaddr (e_meta E) (rng_start rg) = Ok ()"
      and fl: "find_leaf E (mem w) (LEVELS (e_meta E)) root (rng_start rg) = Ok (t, c, e)" by blast
    have vw: "root_view E w root (rng_start rg) = Ok (t, e)" by (simp add: view_def fl)
    then obtain sz where sz: "leaf_size_at_level (e_meta E) t = Some sz"
      using tree_okD(4) [OF ok vw] by (auto simp: leaf_ok_def split: option.splits)
    have "split_at E root rg w = split_leaf_at E rg (t, c, e) w"
      by (simp add: split_at_def split_walk_find chk fl)
    moreover have "exact_query E root rg (mem w) =
        bind_res (leaf_range (e_addr E) (rng_start rg) sz) (\<lambda>lr.
          if lr \<noteq> rg then Err NotMapped else Ok (mapping_new lr (pte_paddr (e_pte E) e) (pte_flags (e_pte E) e)))"
      by (cases "leaf_range (e_addr E) (rng_start rg) sz")
        (simp_all add: exact_query_def query_view view_def fl chk decode_def sz mapping_new_def)
    ultimately show ?thesis
      using Err sz by (cases "leaf_range (e_addr E) (rng_start rg) sz")
        (auto simp: split_leaf_at_def split: if_splits)
  qed
next
  case Panic
  then show ?thesis using query_not_Panic by (auto simp: exact_query_def bind_res_def split: res.splits if_splits)
qed


section \<open>The addresses of the parts of a block\<close>

lemma part_address:
  assumes sh: "level_shift (e_meta E) (Suc (Suc l)) = size_shift sz" "level_shift (e_meta E) (Suc l) = size_shift fsz"
    and lv: "Suc (Suc l) \<le> LEVELS (e_meta E)"
    and lr: "leaf_range (e_addr E) v sz = Ok rg" "rng_start rg = v"
    and i: "i < ENTRIES_PER_TABLE (e_meta E)"
  defines "u \<equiv> v + of_nat i * bytes fsz"
  shows "in_range rg u" "index_at (e_meta E) (Suc l) u = i" "u AND NOT (mask (size_shift fsz)) = u"
proof -
  let ?f = "size_shift fsz" and ?s = "size_shift sz" and ?b = "INDEX_BITS (e_meta E)"
  have s: "?s = ?f + ?b" using shift_step [of "Suc l"] full_index [of "Suc l"] lv sh by simp
  obtain x where x: "checked_add (v AND NOT (mask ?s)) (bytes sz) = Some x" and base: "v = v AND NOT (mask ?s)"
    using lr leaf_range_Ok [OF addr_ok] by (metis addr_range.select_convs(1))
  have al: "unat v = unat v div 2 ^ ?s * 2 ^ ?s"
    using unat_block_base [of v ?s] base by simp
  have small: "i * 2 ^ ?f < 2 ^ ?s" using i by (simp add: entries s power_add mult.commute)
  have top: "unat v + 2 ^ ?s < 2 ^ 64"
    using conjunct2 [OF checked_add_Some [OF x]] unat_u64_less [of x]
    unfolding unat_bytes base [symmetric] by linarith
  have m64: "i * 2 ^ ?f < 2 ^ 64" using small top by linarith
  have "i \<le> i * 2 ^ ?f" by simp
  then have i64: "i < 2 ^ 64" using m64 by linarith
  have um: "unat (of_nat i * bytes fsz) = i * 2 ^ ?f"
    using m64 i64 by (simp add: unat_word_ariths unat_bytes unat_of_nat)
  have "unat v + i * 2 ^ ?f < 2 ^ 64" using small top by linarith
  then have uu: "unat u = unat v + i * 2 ^ ?f" unfolding u_def unat_word_ariths(1) um by simp
  have ud: "unat u div 2 ^ ?f = unat v div 2 ^ ?s * 2 ^ ?b + i"
  proof -
    have "unat u = (unat v div 2 ^ ?s * 2 ^ ?b + i) * 2 ^ ?f"
      unfolding uu by (subst al) (simp add: s power_add algebra_simps)
    then show ?thesis by simp
  qed
  have "drop_bit ?s u = drop_bit ?s v"
  proof -
    have "unat u div 2 ^ ?s = (unat v div 2 ^ ?s * 2 ^ ?b + i) div 2 ^ ?b"
      using ud by (simp only: s power_add div_mult2_eq)
    also have "\<dots> = unat v div 2 ^ ?s" using i by (simp add: entries)
    finally have "unat (drop_bit ?s u) = unat (drop_bit ?s v)" by (simp only: unat_drop_bit)
    then show ?thesis by (simp only: word_unat_eq_iff)
  qed
  then show "in_range rg u" using leaf_range_mem [OF addr_ok lr(1), of u] by (simp add: in_range_def)
  have "index_at (e_meta E) (Suc l) u = unat (take_bit ?b (drop_bit ?f u))"
    using lv sh(2) full_index [of "Suc l"] by (simp add: index_at_take_bit)
  also have "\<dots> = unat u div 2 ^ ?f mod 2 ^ ?b"
    unfolding unsigned_take_bit_eq unat_drop_bit by (simp only: take_bit_eq_mod)
  also have "\<dots> = i" using i by (simp add: ud entries)
  finally show "index_at (e_meta E) (Suc l) u = i" .
  have "unat u div 2 ^ ?f * 2 ^ ?f = unat u"
    unfolding ud unfolding uu by (subst (2) al) (simp add: s power_add algebra_simps)
  then have "unat (u AND NOT (mask ?f)) = unat u" by (simp only: unat_block_base)
  then show "u AND NOT (mask ?f) = u" by (simp only: word_unat_eq_iff)
qed

section \<open>The checks of merge on a full table of leaves\<close>

lemma merge_check_decides:
  assumes "is_aligned sz pb" "paddr_is_valid (e_meta E) pb"
    and "size_shift sz = size_shift fsz + INDEX_BITS (e_meta E)"
    and "\<forall>i\<in>set is. i < ENTRIES_PER_TABLE (e_meta E) \<and> is_present (e_pte E) (read_entry E m g i) \<and>
      entry_kind (e_pte E) (read_entry E m g i) level = Leaf"
  shows "merge_check E m g level fsz pb flags is =
    (if uniform_table E m g level fsz pb flags (set is) then Ok () else Err NotCoalescable)"
  using assms(4)
proof (induction "is")
  case Nil
  then show ?case by (simp add: uniform_table_def)
next
  case (Cons i "is")
  have "usize_mul_add pb i (bytes fsz) = Ok (pb + of_nat i * bytes fsz)"
    using usize_mul_add_sub [OF assms(1-3)] Cons.prems by simp
  then show ?case
    using Cons by (simp add: Let_def entry_is_leaf_def uniform_table_def)
qed

lemma merge_children_decides:
  fixes m :: memory
  assumes s: "size_shift sz = size_shift fsz + INDEX_BITS (e_meta E)"
    and leaves: "\<And>i. i < ENTRIES_PER_TABLE (e_meta E) \<Longrightarrow> is_present (e_pte E) (read_entry E m g i) \<and>
      entry_kind (e_pte E) (read_entry E m g i) level = Leaf"
  defines "b \<equiv> pte_paddr (e_pte E) (read_entry E m g 0)" and "f \<equiv> pte_flags (e_pte E) (read_entry E m g 0)"
  shows "merge_children E m g level fsz sz =
    (if is_aligned sz b \<and> uniform_table E m g level fsz b f {..<ENTRIES_PER_TABLE (e_meta E)}
     then Ok (b, f) else Err NotCoalescable)"
proof -
  let ?N = "ENTRIES_PER_TABLE (e_meta E)"
  have first: "is_present (e_pte E) (read_entry E m g 0)" "entry_kind (e_pte E) (read_entry E m g 0) level = Leaf"
    using leaves [of 0] by (simp_all add: entries)
  have N: "{..<?N} = insert 0 (set [1..<?N])" by (auto simp: entries)
  have u: "uniform_table E m g level fsz b f {..<?N} = uniform_table E m g level fsz b f (set [1..<?N])"
    unfolding N using first by (simp add: uniform_table_def b_def f_def)
  show ?thesis
  proof (cases "is_aligned sz b")
    case True
    have v: "paddr_is_valid (e_meta E) b" unfolding b_def by (rule decoded_paddr [OF first])
    have "merge_check E m g level fsz b f [1..<?N] =
        (if uniform_table E m g level fsz b f {..<?N} then Ok () else Err NotCoalescable)"
      unfolding u by (rule merge_check_decides [OF True v s]) (use leaves in simp)
    then show ?thesis
      using first True by (simp add: merge_children_def Let_def entry_is_leaf_def b_def f_def)
  next
    case False
    then show ?thesis using first by (simp add: merge_children_def Let_def entry_is_leaf_def b_def)
  qed
qed

lemma merge_descend_reaches:
  assumes "table_at E m l cur v target = Some c"
  shows "merge_descend E m target v l cur = Ok (c, target)"
  using assms
proof (induction l arbitrary: cur)
  case (Suc l)
  show ?case
  proof (cases "target = Suc l")
    case False
    then have lt: "target < Suc l" using table_at_level [OF Suc.prems] by simp
    obtain h where h: "child E (Suc l) (read_entry E m cur (index_at (e_meta E) (Suc l) v)) = Some h"
      and ta: "table_at E m l h v target = Some c"
      using False Suc.prems table_at_child by blast
    from h show ?thesis
      using lt Suc.IH [OF ta] by (auto simp: Let_def child_def entry_is_leaf_def split: if_splits)
  qed (use Suc.prems in simp)
qed simp

end

section \<open>Merge\<close>

text \<open>A range covered by leaves of one size, and a range that translates linearly.\<close>

definition finer_mapped :: "('f, 's, 'h) env \<Rightarrow> paddr \<Rightarrow> addr_range \<Rightarrow> page_size \<Rightarrow> ('s, 'h) world \<Rightarrow> bool" where
  "finer_mapped E root rg fsz w \<longleftrightarrow>
     (\<forall>v. in_range rg v \<longrightarrow> (\<exists>mp. query E root v (mem w) = Ok mp \<and> mapping_size (e_addr E) mp = Some fsz))"

definition linear_range :: "('f, 's, 'h) env \<Rightarrow> paddr \<Rightarrow> addr_range \<Rightarrow> paddr \<Rightarrow> 'f \<Rightarrow> ('s, 'h) world \<Rightarrow> bool" where
  "linear_range E root rg p flags w \<longleftrightarrow>
     (\<forall>v. in_range rg v \<longrightarrow> resolve E root v (mem w) = Ok (p + (v - rng_start rg), flags))"

context walker
begin

lemma finer_table:
  fixes w :: "('s, 'h) world"
  assumes sh: "level_shift (e_meta E) (Suc (Suc l)) = size_shift sz"
    and lv: "Suc (Suc l) \<le> LEVELS (e_meta E)"
    and lr: "leaf_range (e_addr E) (rng_start rg) sz = Ok rg" "vaddr_is_valid (e_meta E) (rng_start rg)"
    and fsz: "leaf_size_at_level (e_meta E) (Suc l) = Some fsz"
    and fine: "finer_mapped E root rg fsz w"
  obtains c g where "root_table_at E w root (rng_start rg) (Suc (Suc l)) = Some c"
    "child E (Suc (Suc l)) (read_entry E (mem w) c (index_at (e_meta E) (Suc (Suc l)) (rng_start rg))) = Some g"
    "\<And>v. in_range rg v \<Longrightarrow> root_view E w root v = Ok (Suc l, read_entry E (mem w) g (index_at (e_meta E) (Suc l) v))"
    "\<And>i. i < ENTRIES_PER_TABLE (e_meta E) \<Longrightarrow> is_present (e_pte E) (read_entry E (mem w) g i) \<and>
       entry_kind (e_pte E) (read_entry E (mem w) g i) (Suc l) = Leaf"
proof -
  let ?M = "e_meta E" and ?v = "rng_start rg"
  have fsh: "level_shift ?M (Suc l) = size_shift fsz" using leaf_size [of "Suc l" fsz] fsz lv by simp
  have lvl: "\<exists>e. root_view E w root v = Ok (Suc l, e)" if v: "in_range rg v" for v
  proof -
    obtain mp where q: "query E root v (mem w) = Ok mp" and s: "mapping_size (e_addr E) mp = Some fsz"
      using fine v by (auto simp: finer_mapped_def)
    from q obtain t e z where t: "root_view E w root v = Ok (t, e)" "leaf_size_at_level ?M t = Some z"
      "leaf_range (e_addr E) v z = Ok (m_range mp)" by (rule query_OkD)
    have z: "z = fsz" using leaf_range_size [OF t(3)] s by (simp add: mapping_size_def)
    from t(1) obtain f where "find_leaf E (mem w) (LEVELS ?M) root v = Ok (t, f, e)"
      by (auto simp: view_def bind_res_eq_Ok)
    then have k: "1 \<le> t" "t \<le> LEVELS ?M"
      using table_at_level [OF conjunct1 [OF find_leaf_table_at]] by blast+
    have "level_shift ?M t = level_shift ?M (Suc l)" using leaf_size [OF k, of fsz] t(2) z fsh by simp
    then have "t = Suc l" using lv by (intro shift_inj [OF k]) simp_all
    then show ?thesis using t(1) by blast
  qed
  have here: "in_range rg ?v" using leaf_range_mem [OF addr_ok lr(1), of ?v] by (simp add: in_range_def)
  then obtain e0 where e0: "root_view E w root ?v = Ok (Suc l, e0)" using lvl by blast
  then obtain g where "find_leaf E (mem w) (LEVELS ?M) root ?v = Ok (Suc l, g, e0)"
    by (auto simp: view_def bind_res_eq_Ok)
  then have tg: "root_table_at E w root ?v (Suc l) = Some g" using find_leaf_table_at by blast
  then obtain c h where c: "root_table_at E w root ?v (Suc (Suc l)) = Some c"
    and ch: "child E (Suc (Suc l)) (read_entry E (mem w) c (index_at ?M (Suc (Suc l)) ?v)) = Some h"
    using lv by (rule table_at_up [OF _ lessI])
  have hg: "h = g" using table_at_step [OF c _ ch] tg by simp
  have ev: "root_view E w root v = entry_view E (mem w) (Suc l) (read_entry E (mem w) g (index_at ?M (Suc l) v)) v"
    if v: "in_range rg v" for v
  proof -
    have "vaddr_is_valid ?M v" by (rule in_range_valid [OF lr v sh]) (use lv in simp_all)
    then have "same_path ?M (Suc (Suc l)) ?v v"
      using in_range_path [OF lr(1) sh _ lv lr(2)] v by simp
    then have "root_view E w root v = view E (mem w) (Suc l) g v"
      using view_at [OF c order.refl] child_view [OF ch] by (simp add: same_path_def hg)
    then show ?thesis by (simp add: view_Suc)
  qed
  have leaf: "is_present (e_pte E) (read_entry E (mem w) g (index_at ?M (Suc l) v)) \<and>
      entry_kind (e_pte E) (read_entry E (mem w) g (index_at ?M (Suc l) v)) (Suc l) = Leaf"
    if v: "in_range rg v" for v
  proof -
    let ?e = "read_entry E (mem w) g (index_at ?M (Suc l) v)"
    obtain e where e: "entry_view E (mem w) (Suc l) ?e v = Ok (Suc l, e)" using lvl [OF v] ev [OF v] by auto
    have "entry_kind (e_pte E) ?e (Suc l) \<noteq> Table"
    proof
      assume k: "entry_kind (e_pte E) ?e (Suc l) = Table"
      then have "view E (mem w) l (pte_paddr (e_pte E) ?e) v = Ok (Suc l, e)"
        using e by (simp add: entry_view_def entry_is_leaf_def split: if_splits)
      then obtain f where "find_leaf E (mem w) l (pte_paddr (e_pte E) ?e) v = Ok (Suc l, f, e)"
        by (auto simp: view_def bind_res_eq_Ok)
      then show False using table_at_level [OF conjunct1 [OF find_leaf_table_at]] by fastforce
    qed
    then show ?thesis
      using e by (cases "entry_kind (e_pte E) ?e (Suc l)") (simp_all add: entry_view_def entry_is_leaf_def split: if_splits)
  qed
  have ent: "is_present (e_pte E) (read_entry E (mem w) g i) \<and>
      entry_kind (e_pte E) (read_entry E (mem w) g i) (Suc l) = Leaf" if i: "i < ENTRIES_PER_TABLE ?M" for i
    using leaf [OF part_address(1) [OF sh fsh lv lr(1) refl i]] part_address(2) [OF sh fsh lv lr(1) refl i] by simp
  show thesis
  proof (rule that [OF c ch [unfolded hg] _ ent])
    show "root_view E w root v = Ok (Suc l, read_entry E (mem w) g (index_at ?M (Suc l) v))" if v: "in_range rg v" for v
      using ev [OF v] leaf [OF v] by (simp add: entry_view_def entry_is_leaf_def)
  qed
qed

lemma uniform_linear:
  fixes w :: "('s, 'h) world"
  assumes sh: "level_shift (e_meta E) (Suc (Suc l)) = size_shift sz"
    and lv: "Suc (Suc l) \<le> LEVELS (e_meta E)"
    and lr: "leaf_range (e_addr E) (rng_start rg) sz = Ok rg" "vaddr_is_valid (e_meta E) (rng_start rg)"
    and fsz: "leaf_size_at_level (e_meta E) (Suc l) = Some fsz"
    and vw: "\<And>v. in_range rg v \<Longrightarrow> root_view E w root v = Ok (Suc l, read_entry E (mem w) g (index_at (e_meta E) (Suc l) v))"
    and ent: "\<And>i. i < ENTRIES_PER_TABLE (e_meta E) \<Longrightarrow> is_present (e_pte E) (read_entry E (mem w) g i) \<and>
       entry_kind (e_pte E) (read_entry E (mem w) g i) (Suc l) = Leaf"
  shows "uniform_table E (mem w) g (Suc l) fsz p flags {..<ENTRIES_PER_TABLE (e_meta E)} \<longleftrightarrow>
    linear_range E root rg p flags w"
proof -
  let ?M = "e_meta E" and ?v = "rng_start rg"
  let ?e = "\<lambda>i. read_entry E (mem w) g i"
  have fsh: "level_shift ?M (Suc l) = size_shift fsz" using leaf_size [of "Suc l" fsz] fsz lv by simp
  have le: "size_shift fsz \<le> size_shift sz" using shift_mono [of "Suc l" "Suc (Suc l)"] lv sh fsh by simp
  have rs: "resolve E root v (mem w) =
      Ok (pte_paddr (e_pte E) (?e (index_at ?M (Suc l) v)) + (v - (v AND NOT (mask (size_shift fsz)))),
          pte_flags (e_pte E) (?e (index_at ?M (Suc l) v)))" if v: "in_range rg v" for v
    by (rule resolve_leaf(2) [OF vw [OF v] fsz lr(1) v _ le], rule in_range_valid [OF lr v sh])
      (use lv in simp_all)
  show ?thesis
  proof
    assume u: "uniform_table E (mem w) g (Suc l) fsz p flags {..<ENTRIES_PER_TABLE ?M}"
    show "linear_range E root rg p flags w"
      unfolding linear_range_def
    proof (intro allI impI)
      fix v assume v: "in_range rg v"
      let ?i = "index_at ?M (Suc l) v"
      have i: "?i < ENTRIES_PER_TABLE ?M" using lv by (intro index_at_less) simp_all
      have b: "v AND NOT (mask (size_shift fsz)) = ?v + of_nat ?i * bytes fsz"
        using finer_base [of "Suc l", OF _ lv fsh sh, of v] leaf_range_base [OF lr(1) v] by simp
      show "resolve E root v (mem w) = Ok (p + (v - ?v), flags)"
        using u i unfolding rs [OF v] b uniform_table_def Let_def by (auto simp: algebra_simps)
    qed
  next
    assume lin: "linear_range E root rg p flags w"
    show "uniform_table E (mem w) g (Suc l) fsz p flags {..<ENTRIES_PER_TABLE ?M}"
      unfolding uniform_table_def Let_def
    proof
      fix i assume "i \<in> {..<ENTRIES_PER_TABLE ?M}"
      then have i: "i < ENTRIES_PER_TABLE ?M" by simp
      let ?u = "?v + of_nat i * bytes fsz"
      note pa = part_address [OF sh fsh lv lr(1) refl i]
      have "resolve E root ?u (mem w) = Ok (p + (?u - ?v), flags)"
        using lin pa(1) unfolding linear_range_def by blast
      then have "pte_paddr (e_pte E) (?e i) = p + of_nat i * bytes fsz" "pte_flags (e_pte E) (?e i) = flags"
        unfolding rs [OF pa(1)] pa(2,3) by simp_all
      then show "is_present (e_pte E) (?e i) \<and> entry_kind (e_pte E) (?e i) (Suc l) = Leaf \<and>
          pte_flags (e_pte E) (?e i) = flags \<and> pte_paddr (e_pte E) (?e i) = p + of_nat i * bytes fsz"
        using ent [OF i] by simp
    qed
  qed
qed

text \<open>The decision of \<^verbatim>\<open>merge_at\<close> on a range of finer leaves.\<close>

lemma merge_outcome:
  fixes w :: "('s, 'h) world"
  assumes ok: "tree_ok E live root w" and total: "dealloc_total E live"
    and chk: "check_leaf_range (e_addr E) (e_meta E) rg = Ok sz"
    and t: "size_to_level (e_meta E) sz = Some (Suc (Suc l))"
    and fsz: "leaf_size_at_level (e_meta E) (Suc l) = Some fsz"
    and fine: "finer_mapped E root rg fsz w"
  shows "if \<exists>p flags. is_aligned sz p \<and> linear_range E root rg p flags w
    then fst (merge_at E root rg w) = Ok sz
    else merge_at E root rg w = (Err NotCoalescable, w)"
proof -
  let ?M = "e_meta E" and ?v = "rng_start rg"
  note rg = check_leaf_range_Ok [OF chk]
  note lr = leaf_range_exact [OF addr_ok rg(1-3)]
  note tl = size_to_level_size [OF t]
  obtain c g where c: "root_table_at E w root ?v (Suc (Suc l)) = Some c"
    and ch: "child E (Suc (Suc l)) (read_entry E (mem w) c (index_at ?M (Suc (Suc l)) ?v)) = Some g"
    and vw: "\<And>v. in_range rg v \<Longrightarrow> root_view E w root v = Ok (Suc l, read_entry E (mem w) g (index_at ?M (Suc l) v))"
    and ent: "\<And>i. i < ENTRIES_PER_TABLE ?M \<Longrightarrow> is_present (e_pte E) (read_entry E (mem w) g i) \<and>
       entry_kind (e_pte E) (read_entry E (mem w) g i) (Suc l) = Leaf"
    by (rule finer_table [OF tl(3,2) lr rg(4) fsz fine]) blast
  have fsh: "level_shift ?M (Suc l) = size_shift fsz" using leaf_size [of "Suc l" fsz] fsz tl(2) by simp
  have s: "size_shift sz = size_shift fsz + INDEX_BITS ?M"
    using shift_step [of "Suc l"] full_index [of "Suc l"] tl(2,3) fsh by simp
  let ?p = "pte_paddr (e_pte E) (read_entry E (mem w) g 0)" and ?f = "pte_flags (e_pte E) (read_entry E (mem w) g 0)"
  note lin = uniform_linear [OF tl(3,2) lr rg(4) fsz vw ent]
  have mc: "merge_children E (mem w) g (Suc l) fsz sz =
      (if is_aligned sz ?p \<and> linear_range E root rg ?p ?f w then Ok (?p, ?f) else Err NotCoalescable)"
    using merge_children_decides [OF s ent] lin by simp
  have ex: "(\<exists>p flags. is_aligned sz p \<and> linear_range E root rg p flags w) \<longleftrightarrow>
      is_aligned sz ?p \<and> linear_range E root rg ?p ?f w"
  proof
    assume "\<exists>p flags. is_aligned sz p \<and> linear_range E root rg p flags w"
    then obtain p flags where a: "is_aligned sz p" and l: "linear_range E root rg p flags w" by blast
    have "uniform_table E (mem w) g (Suc l) fsz p flags {..<ENTRIES_PER_TABLE ?M}" using l lin by blast
    from this [unfolded uniform_table_def, THEN bspec, of 0]
    have "?p = p \<and> ?f = flags" by (simp add: Let_def entries)
    then show "is_aligned sz ?p \<and> linear_range E root rg ?p ?f w" using a l by simp
  qed blast
  let ?w1 = "store E c (index_at ?M (Suc (Suc l)) ?v) (new_leaf (e_pte E) ?p ?f sz) w"
  have run: "merge_at E root rg w =
      bind_st (merge_children E (mem w) g (Suc l) fsz sz, w) (\<lambda>(p, flags) w.
      bind_st (dealloc_table_frame E g
        (store E c (index_at ?M (Suc (Suc l)) ?v) (new_leaf (e_pte E) p flags sz) w)) (\<lambda>_ w.
      (Ok sz, flush_leaf_range E rg w)))"
    using ch merge_descend_reaches [OF c]
    by (simp add: merge_at_def chk t fsz child_def entry_is_leaf_def Let_def split: if_splits)
  obtain rd w2 where d: "dealloc_table_frame E g ?w1 = (rd, w2)" by fastforce
  have tg: "root_table_at E w root ?v (Suc l) = Some g" using table_at_step [OF c _ ch] by simp
  have "g \<in> live (astate ?w1)" using table_frame_ok(2) [OF ok tg] by (simp add: store_def)
  then have "rd = Ok ()"
    using dealloc_table_frame_spec(5) [OF d table_frame_ok(1) [OF ok tg] total] by simp
  then show ?thesis unfolding ex run using d by (simp add: mc)
qed

section \<open>Merging undoes splitting\<close>

lemma exact_query_check:
  fixes w :: "('s, 'h) world"
  assumes ok: "tree_ok E live root w" and q: "exact_query E root rg (mem w) = Ok mp"
  obtains sz t where "check_leaf_range (e_addr E) (e_meta E) rg = Ok sz"
    "size_to_level (e_meta E) sz = Some t" "is_aligned sz (m_paddr mp)"
    "\<And>v. in_range rg v \<Longrightarrow> query E root v (mem w) = Ok mp"
proof -
  let ?M = "e_meta E" and ?v = "rng_start rg"
  from q have q': "query E root ?v (mem w) = Ok mp" and r: "m_range mp = rg"
    by (simp_all add: exact_query_Ok)
  from exact_query_leaf [OF ok q] obtain sz t where t: "size_to_level ?M sz = Some t"
    and lr: "leaf_range (e_addr E) ?v sz = Ok rg" "range_size (e_addr E) rg = bytes sz"
    and v: "vaddr_is_valid ?M ?v" by metis
  note tl = size_to_level_size [OF t]
  from query_shape [OF ok q'] obtain z where z: "is_aligned z (rng_start (m_range mp))"
    "mapping_size (e_addr E) mp = Some z" "is_aligned z (m_paddr mp)"
    and all: "\<And>v'. in_range (m_range mp) v' \<Longrightarrow> query E root v' (mem w) = Ok mp" by metis
  have zs: "z = sz" using z(2) lr(2) by (simp add: mapping_size_def r)
  obtain x where x: "checked_add (?v AND NOT (mask (size_shift sz))) (bytes sz) = Some x"
    and e: "rng_end rg = x" and b: "?v AND NOT (mask (size_shift sz)) = ?v"
    using lr(1) leaf_range_Ok [OF addr_ok] by (metis addr_range.select_convs)
  note x' = checked_add_Some [OF x, unfolded b unat_bytes]
  have pos: "(0 :: nat) < 2 ^ size_shift sz" by simp
  have lt: "?v < rng_end rg" using conjunct2 [OF x'] pos unfolding word_less_nat_alt e by linarith
  then have ne: "rng_end rg \<noteq> 0" "\<not> range_is_empty (e_addr E) rg"
    using addr_is_empty [OF addr_ok, of rg] by auto
  then have "in_range rg (rng_end rg - 1)"
    using lt by (simp add: in_range_def word_le_nat_alt word_less_nat_alt unat_minus_one)
  then have last: "vaddr_is_valid ?M (rng_end rg - 1)"
    by (rule in_range_valid [OF lr(1) v _ tl(3,1,2)])
  have sub: "addr_checked_sub (e_addr E) (rng_end rg) 1 = Some (rng_end rg - 1)"
    using ne(1) by (simp add: addr_checked_sub [OF addr_ok] word_le_nat_alt Suc_le_eq unat_gt_0)
  have "check_leaf_range (e_addr E) ?M rg = Ok sz"
    using z(1) ne v last by (simp add: check_leaf_range_def lr(2) check_vaddr_def sub zs r)
  from that [OF this t] z(3) all show thesis by (simp add: zs r)
qed

lemma split_merge_roundtrip:
  fixes w :: "('s, 'h) world"
  assumes ok: "tree_ok E live root w" and total: "dealloc_total E live"
    and split: "split_at E root rg w = (Ok fsz, w1)" and merge: "merge_at E root rg w1 = (res, w2)"
  shows "(\<exists>sz. res = Ok sz \<and> range_size (e_addr E) rg = bytes sz) \<and> tree_ok E live root w2 \<and>
    (\<forall>v. query E root v (mem w2) = query E root v (mem w))"
proof -
  let ?M = "e_meta E"
  note sp = split_at_spec [OF ok split]
  have "exact_mapped E root rg w" using sp by blast
  then obtain mp where q: "exact_query E root rg (mem w) = Ok mp" by (auto simp: exact_mapped_query)
  then have r: "m_range mp = rg" by (simp add: exact_query_Ok)
  from q obtain sz t where chk: "check_leaf_range (e_addr E) ?M rg = Ok sz"
    and t: "size_to_level ?M sz = Some t" and al: "is_aligned sz (m_paddr mp)"
    and all: "\<And>v. in_range rg v \<Longrightarrow> query E root v (mem w) = Ok mp"
    by (rule exact_query_check [OF ok]) blast
  note rg = check_leaf_range_Ok [OF chk]
  have fs: "finer_size E rg = Ok fsz"
    using split_outcome [OF ok, of rg] split q by (auto simp: bind_res_def split: res.splits)
  then obtain l where l: "t = Suc (Suc l)" and fsz: "leaf_size_at_level ?M (Suc l) = Some fsz"
    using t by (auto simp: finer_size_def rg(2) split: nat.splits)
  have ok1: "tree_ok E live root w1" using sp by blast
  have fine: "finer_mapped E root rg fsz w1"
    unfolding finer_mapped_def
  proof (intro allI impI)
    fix v assume "in_range rg v"
    then obtain m1 where m1: "query E root v (mem w1) = Ok m1"
      "rng_end (m_range m1) = rng_start (m_range m1) + bytes fsz" using sp by blast
    from query_shape [OF ok1 m1(1)] obtain z where z: "mapping_size (e_addr E) m1 = Some z"
      and i: "in_range (m_range m1) v" by metis
    from i have "rng_start (m_range m1) \<le> rng_end (m_range m1)" by (auto simp: in_range_def)
    then have "range_size (e_addr E) (m_range m1) = bytes fsz"
      using addr_size [OF addr_ok] m1(2) by simp
    then show "\<exists>mp. query E root v (mem w1) = Ok mp \<and> mapping_size (e_addr E) mp = Some fsz"
      using m1(1) by (simp add: mapping_size_def)
  qed
  have lin: "linear_range E root rg (m_paddr mp) (m_flags mp) w1"
    unfolding linear_range_def using sp all by (simp add: resolve_def r)
  have "\<exists>p flags. is_aligned sz p \<and> linear_range E root rg p flags w1" using al lin by blast
  from merge_outcome [OF ok1 total chk t [unfolded l] fsz fine, unfolded if_P [OF this]]
  have res: "res = Ok sz" using merge by simp
  note mg = merge_at_spec [OF ok1 merge, unfolded merge_ok_def]
  have q2: "query E root v (mem w2) = query E root v (mem w)" for v
  proof (cases "in_range rg v")
    case True
    from mg res obtain m2 where m2: "m_range m2 = rg" "query E root v (mem w2) = Ok m2" using True by blast
    have "resolve E root v (mem w2) = resolve E root v (mem w)" using mg sp by simp
    then have "m2 = mp"
      using all [OF True] by (simp add: resolve_def m2 r)
    then show ?thesis using all [OF True] m2 by simp
  next
    case False
    then show ?thesis using mg sp by simp
  qed
  then show ?thesis using res rg(2) mg by blast
qed

end

end
