(* ===== verification/SupplySpec.thy ===== *)
theory SupplySpec
  imports RestructureSpec MapApiSpec
begin

text \<open>
  Frame accounting and supply. The live frames of the allocator are those of the tree and a set
  that no operation of the walker touches, so nothing leaks; and an allocator that still has a
  frame for every missing level is enough for a mapping to succeed.
\<close>

section \<open>Accounts\<close>

definition accounts :: "('s \<Rightarrow> paddr set) \<Rightarrow> paddr set \<Rightarrow> ('f, 's, 'h) env \<Rightarrow> paddr \<Rightarrow> ('s, 'h) world \<Rightarrow> bool" where
  "accounts live out E root w \<longleftrightarrow>
     live (astate w) = out \<union> set (root_tables E w root) \<and> out \<inter> set (root_tables E w root) = {}"

text \<open>An allocator that hands out well-formed frames while it has room, one unit at a time.\<close>

definition frame_supply :: "('f, 's, 'h) env \<Rightarrow> ('s \<Rightarrow> nat) \<Rightarrow> bool" where
  "frame_supply E room \<longleftrightarrow>
     (\<forall>s m. 0 < room s \<longrightarrow> (\<exists>r s' m'.
        allocate (e_alloc E) (bytes (TABLE_FRAME_SIZE (e_meta E))) (TABLE_FRAME_SIZE (e_meta E)) (s, m) =
          (Ok r, s', m') \<and>
        range_size (e_addr E) r = bytes (TABLE_FRAME_SIZE (e_meta E)) \<and>
        is_aligned (TABLE_FRAME_SIZE (e_meta E)) (rng_start r) \<and> room s \<le> Suc (room s')))"

text \<open>The slot of a leaf is free: nothing is mapped there and no table hangs in it.\<close>

definition slot_free :: "('f, 's, 'h) env \<Rightarrow> paddr \<Rightarrow> vaddr \<Rightarrow> nat \<Rightarrow> ('s, 'h) world \<Rightarrow> bool" where
  "slot_free E root v t w \<longleftrightarrow> root_view E w root v = Err NotMapped \<and>
     (\<forall>c. root_table_at E w root v t = Some c \<longrightarrow>
        \<not> is_present (e_pte E) (read_entry E (mem w) c (index_at (e_meta E) t v)))"

text \<open>
  The tables that the path of an address lacks between a table at level \<open>l\<close> and the level \<open>t\<close>: as many
  as there are levels below the first entry that points at no table.
\<close>

primrec missing_tables :: "('f, 's, 'h) env \<Rightarrow> memory \<Rightarrow> nat \<Rightarrow> nat \<Rightarrow> paddr \<Rightarrow> vaddr \<Rightarrow> nat" where
  "missing_tables E m t 0 cur v = 0"
| "missing_tables E m t (Suc l) cur v =
     (if Suc l \<le> t then 0
      else case child E (Suc l) (read_entry E m cur (index_at (e_meta E) (Suc l) v)) of
             None \<Rightarrow> Suc l - t | Some g \<Rightarrow> missing_tables E m t l g v)"

lemma missing_tables_le: "missing_tables E m t l cur v \<le> l - t"
proof (induction l arbitrary: cur)
  case 0
  then show ?case by simp
next
  case (Suc l)
  have "missing_tables E m t l g v \<le> Suc l - t" for g
    using Suc.IH [of g] by linarith
  then show ?case by (simp split: option.split)
qed

text \<open>Where the path has its table at the level, nothing is missing.\<close>

lemma missing_tables_none:
  "table_at E m l cur v t = Some c \<Longrightarrow> missing_tables E m t l cur v = 0"
  by (induction l arbitrary: cur) (auto split: option.splits if_splits)

abbreviation missing_below :: "('f, 's, 'h) env \<Rightarrow> ('s, 'h) world \<Rightarrow> paddr \<Rightarrow> vaddr \<Rightarrow> nat \<Rightarrow> nat" where
  "missing_below E w root v t \<equiv> missing_tables E (mem w) t (LEVELS (e_meta E)) root v"

lemma supply_alloc:
  assumes "frame_supply E room" "0 < room (astate w)"
  obtains g w' where "alloc_table_frame E w = (Ok g, w')" "room (astate w) \<le> Suc (room (astate w'))"
proof -
  let ?k = "TABLE_FRAME_SIZE (e_meta E)"
  obtain r s' m' where a: "allocate (e_alloc E) (bytes ?k) ?k (astate w, mem w) = (Ok r, s', m')"
    and r: "range_size (e_addr E) r = bytes ?k" "is_aligned ?k (rng_start r)" "room (astate w) \<le> Suc (room s')"
    using assms unfolding frame_supply_def by blast
  have "alloc_table_frame E w = (Ok (rng_start r), w\<lparr>astate := s', mem := m'\<rparr>)"
    by (simp add: alloc_table_frame_def Let_def a r)
  then show thesis using that r(3) by simp
qed

context walker
begin

lemma alloc_live:
  assumes "alloc_table_frame E w = (Ok g, w')"
  shows "live (astate w') = insert g (live (astate w))"
proof -
  let ?k = "TABLE_FRAME_SIZE (e_meta E)"
  obtain ra s m where a: "allocate (e_alloc E) (bytes ?k) ?k (astate w, mem w) = (ra, s, m)"
    by (metis prod_cases3)
  show ?thesis
  proof (cases ra)
    case (Ok r)
    have "g = rng_start r \<and> astate w' = s"
      using assms unfolding alloc_table_frame_def Let_def a Ok
      by (auto split: if_splits prod.splits res.splits)
    then show ?thesis using alloc_ok [OF a [unfolded Ok]] by simp
  qed (use assms a in \<open>simp_all add: alloc_table_frame_def Let_def\<close>)
qed

lemma try_new_accounts:
  assumes "try_new E w = (Ok root, w')"
  shows "accounts live (live (astate w)) E root w'"
proof -
  have a: "alloc_table_frame E w = (Ok root, w')"
    using assms by (simp add: try_new_def assert_layout)
  show ?thesis
    using try_new_spec(3) [OF assms refl] alloc_live [OF a] alloc_table_frame_spec(3) [OF a refl]
    by (auto simp: accounts_def)
qed

text \<open>In a fresh tree every slot is free.\<close>

lemma try_new_slot_free:
  assumes "try_new E w = (Ok root, w')"
  shows "slot_free E root v t w'"
proof -
  have a: "alloc_table_frame E w = (Ok root, w')"
    using assms by (simp add: try_new_def assert_layout)
  note new = try_new_spec(3) [OF assms refl] and al = alloc_table_frame_spec(3) [OF a refl]
  have "\<not> is_present (e_pte E) (read_entry E (mem w') c (index_at (e_meta E) t v))"
    if ta: "root_table_at E w' root v t = Some c" for c
  proof -
    have c: "c = root" "index_at (e_meta E) t v < ENTRIES_PER_TABLE (e_meta E)"
      using table_frame_ok(3,6) [OF conjunct1 [OF new] ta] new by simp_all
    then have "read_entry E (mem w') c (index_at (e_meta E) t v) = 0" using al by blast
    then show ?thesis using zero_absent by simp
  qed
  then show ?thesis using new by (simp add: slot_free_def)
qed

section \<open>Mapping\<close>

lemma map_descend_supply:
  assumes "tree_ok E live root w" "root_table_at E w root v l = Some cur" "1 \<le> target" "target \<le> l"
    and "root_view E w root v = Err NotMapped"
    and "\<forall>c. table_at E (mem w) l cur v target = Some c \<longrightarrow>
        \<not> is_present (e_pte E) (read_entry E (mem w) c (index_at (e_meta E) target v))"
    and "accounts live out E root w" "frame_supply E room"
    and "missing_tables E (mem w) target l cur v \<le> room (astate w)"
  shows "\<exists>c w'. map_descend E target v l cur w = (Ok (c, target), w') \<and> accounts live out E root w' \<and>
    room (astate w) \<le> room (astate w') + missing_tables E (mem w) target l cur v \<and>
    \<not> is_present (e_pte E) (read_entry E (mem w') c (index_at (e_meta E) target v))"
  using assms
proof (induction l arbitrary: cur w)
  case 0
  then show ?case by simp
next
  case (Suc l)
  let ?M = "e_meta E" and ?P = "e_pte E"
  let ?i = "index_at ?M (Suc l) v"
  let ?e = "read_entry E (mem w) cur ?i"
  show ?case
  proof (cases "target = Suc l")
    case True
    then show ?thesis using Suc.prems(6,7) by simp
  next
    case False
    then have tl: "target < Suc l" "target \<le> l" using Suc.prems(4) by simp_all
    then obtain l' where l': "l = Suc l'" using Suc.prems(3) by (cases l) auto
    show ?thesis
    proof (cases "is_present ?P ?e")
      case pres: True
      have vw: "entry_view E (mem w) (Suc l) ?e v = Err NotMapped"
        using view_at [OF Suc.prems(2) order.refl, of v] Suc.prems(5) by simp
      show ?thesis
      proof (cases "entry_kind ?P ?e (Suc l)")
        case Table
        let ?g = "pte_paddr ?P ?e"
        have ta: "root_table_at E w root v l = Some ?g"
          using table_step Suc.prems(2) pres Table unfolding l' by blast
        have "table_at E (mem w) (Suc l) cur v target = table_at E (mem w) l ?g v target"
          using False pres Table by (simp add: child_def)
        then have free: "\<forall>c. table_at E (mem w) l ?g v target = Some c \<longrightarrow>
            \<not> is_present ?P (read_entry E (mem w) c (index_at ?M target v))"
          using Suc.prems(6) by simp
        have m: "missing_tables E (mem w) target (Suc l) cur v = missing_tables E (mem w) target l ?g v"
          using tl pres Table by (simp add: child_def)
        have "missing_tables E (mem w) target l ?g v \<le> room (astate w)" using Suc.prems(9) unfolding m .
        from Suc.IH [OF Suc.prems(1) ta Suc.prems(3) tl(2) Suc.prems(5) free Suc.prems(7,8) this]
        show ?thesis unfolding m using tl pres Table by (force simp: Let_def entry_is_leaf_def)
      qed (use vw pres in \<open>simp_all add: entry_view_def entry_is_leaf_def\<close>)
    next
      case absent: False
      have m: "missing_tables E (mem w) target (Suc l) cur v = Suc l - target"
        using absent tl by (simp add: child_def)
      have "0 < room (astate w)" using Suc.prems(9) tl unfolding m by simp
      from supply_alloc [OF Suc.prems(8) this] obtain g w1 where a: "alloc_table_frame E w = (Ok g, w1)"
        and room: "room (astate w) \<le> Suc (room (astate w1))" .
      note al = alloc_table_frame_spec [OF a]
      let ?w2 = "store E cur ?i (new_table ?P g (Suc l)) w1"
      have ta: "root_table_at E w root v (Suc (Suc l')) = Some cur" using Suc.prems(2) l' by simp
      have ab: "\<not> is_present ?P (read_entry E (mem w) cur (index_at ?M (Suc (Suc l')) v))"
        using absent l' by simp
      note new = al(3) [OF refl, THEN conjunct1] al(3) [OF refl, THEN conjunct2, THEN conjunct1]
        al(3) [OF refl, THEN conjunct2, THEN conjunct2, THEN conjunct1]
        al(3) [OF refl, THEN conjunct2, THEN conjunct2, THEN conjunct2, THEN conjunct1]
      note grow = grow_step [OF Suc.prems(1) ta ab al(2) new refl, folded l']
      have gr: "tree_ok E live root ?w2" "root_table_at E ?w2 root v l = Some g"
        "root_view E ?w2 root v = Err NotMapped"
        "set (root_tables E ?w2 root) = insert g (set (root_tables E w root))"
        using grow Suc.prems(5) by simp_all
      have st: "astate ?w2 = astate w1" by (simp add: store_def)
      have acc: "accounts live out E root ?w2"
        using Suc.prems(7) alloc_live [OF a] new(1) unfolding accounts_def st gr(4) by auto
      have gc: "cur \<noteq> g" using table_frame_ok(2) [OF Suc.prems(1,2)] new(1) by blast
      have z: "read_entry E (mem ?w2) g j = 0" if "j < ENTRIES_PER_TABLE ?M" for j
        using store_updates [where F = "{g}" and f = cur and i = ?i and m = "mem w1" and
            e = "new_table ?P g (Suc l)"] new(3,4) that gc table_frame_ok(1,6) [OF Suc.prems(1,2)]
        by (simp add: store_def updates_def)
      have i: "index_at ?M l v < ENTRIES_PER_TABLE ?M" by (rule table_frame_ok(6) [OF gr(1,2)])
      have free: "\<forall>c. table_at E (mem ?w2) l g v target = Some c \<longrightarrow>
          \<not> is_present ?P (read_entry E (mem ?w2) c (index_at ?M target v))"
        using z [OF i] zero_absent unfolding l' by (auto simp: zero_child)
      have le: "missing_tables E (mem ?w2) target l g v \<le> l - target" by (rule missing_tables_le)
      also have "\<dots> \<le> room (astate ?w2)" using Suc.prems(9) room tl unfolding m by (simp add: st)
      finally have "missing_tables E (mem ?w2) target l g v \<le> room (astate ?w2)" .
      from Suc.IH [OF gr(1,2) Suc.prems(3) tl(2) gr(3) free acc Suc.prems(8) this] obtain c w' where
        d: "map_descend E target v l g ?w2 = (Ok (c, target), w')" "accounts live out E root w'"
          "room (astate ?w2) \<le> room (astate w') + missing_tables E (mem ?w2) target l g v"
          "\<not> is_present ?P (read_entry E (mem w') c (index_at ?M target v))" by blast
      have "map_descend E target v (Suc l) cur w = (Ok (c, target), w')"
        using tl absent a d(1) by (simp add: Let_def)
      moreover have "room (astate w) \<le> room (astate w') + (Suc l - target)"
        using d(3) le room tl by (simp add: st)
      ultimately show ?thesis using d(2,4) unfolding m by blast
    qed
  qed
qed

lemma map_leaf_missing:
  assumes ok: "tree_ok E live root w" and acc: "accounts live out E root w"
    and sup: "frame_supply E room" "missing_below E w root (rng_start rg) target \<le> room (astate w)"
    and free: "slot_free E root (rng_start rg) target w"
    and sz: "size_to_level (e_meta E) sz = Some target"
    and p: "is_aligned sz p" "paddr_is_valid (e_meta E) p" "flags_ok flags"
  shows "\<exists>w'. map_leaf_direct_sized_no_flush E root rg p flags sz target w = (Ok (), w') \<and>
    accounts live out E root w' \<and> room (astate w) \<le> room (astate w') + missing_below E w root (rng_start rg) target"
proof -
  let ?v = "rng_start rg"
  note t = size_to_level_size [OF sz]
  from map_descend_supply [OF ok root_table t(1,2) _ _ acc sup] free obtain c w1 where
    d: "map_descend E target ?v (LEVELS (e_meta E)) root w = (Ok (c, target), w1)" "accounts live out E root w1"
      "room (astate w) \<le> room (astate w1) + missing_below E w root ?v target"
      "\<not> is_present (e_pte E) (read_entry E (mem w1) c (index_at (e_meta E) target ?v))"
    unfolding slot_free_def by blast
  note ds = map_descend_spec [OF ok root_table t(1,2) d(1)]
  let ?w2 = "store E c (index_at (e_meta E) target ?v) (new_leaf (e_pte E) p flags sz) w1"
  have ta: "root_table_at E w1 root ?v target = Some c" and ok1: "tree_ok E live root w1" using ds by blast+
  have "child E target (read_entry E (mem w1) c (index_at (e_meta E) target ?v)) = None"
    using d(4) by (simp add: child_def)
  note st = leaf_store [OF ok1 ta this t(5) p refl]
  have "accounts live out E root ?w2" using d(2) st(3,4) by (simp add: accounts_def)
  moreover have "map_leaf_direct_sized_no_flush E root rg p flags sz target w = (Ok (), ?w2)"
    using d(1,4) by (simp add: map_leaf_direct_sized_no_flush_def install_leaf_def)
  ultimately show ?thesis using d(3) st(3) by auto
qed

lemma map_leaf_supply:
  assumes ok: "tree_ok E live root w" and acc: "accounts live out E root w"
    and sup: "frame_supply E room" "LEVELS (e_meta E) - target \<le> room (astate w)"
    and free: "slot_free E root (rng_start rg) target w"
    and sz: "size_to_level (e_meta E) sz = Some target"
    and p: "is_aligned sz p" "paddr_is_valid (e_meta E) p" "flags_ok flags"
  shows "\<exists>w'. map_leaf_direct_sized_no_flush E root rg p flags sz target w = (Ok (), w') \<and>
    accounts live out E root w' \<and> room (astate w) \<le> room (astate w') + (LEVELS (e_meta E) - target)"
proof -
  note m = missing_tables_le [of E "mem w" target "LEVELS (e_meta E)" root "rng_start rg"]
  show ?thesis
    using map_leaf_missing [OF ok acc sup(1) order.trans [OF m sup(2)] free sz p] m
    by (meson add_left_mono order.trans)
qed

text \<open>A base page is free exactly when it is not mapped.\<close>

lemma page_slot_free:
  fixes w :: "('s, 'h) world"
  assumes ok: "tree_ok E live root w" and v: "vaddr_is_valid (e_meta E) v"
    and nm: "query E root v (mem w) = Err NotMapped"
  shows "slot_free E root v 1 w"
proof -
  have vw: "root_view E w root v = Err NotMapped"
  proof (cases "root_view E w root v")
    case (Ok te)
    obtain t e where te: "te = (t, e)" by fastforce
    have "query E root v (mem w) = decode E v (t, e)"
      by (simp add: query_view check_vaddr_def v Ok te)
    moreover have "decode E v (t, e) \<noteq> Err NotMapped"
      by (auto simp: decode_def bind_res_def ok_or_def leaf_range_def Let_def split: res.splits option.splits)
    ultimately show ?thesis using nm by simp
  next
    case (Err x)
    then show ?thesis using nm query_not_mapped [OF Err v] by simp
  next
    case Panic
    then show ?thesis using nm by (simp add: query_view check_vaddr_def v)
  qed
  have "\<not> is_present (e_pte E) (read_entry E (mem w) c (index_at (e_meta E) 1 v))"
    if ta: "root_table_at E w root v 1 = Some c" for c
    using view_at [OF ta order.refl, of v] vw kind_one
    by (cases "entry_kind (e_pte E) (read_entry E (mem w) c (index_at (e_meta E) 1 v)) 1")
      (auto simp: entry_view_def entry_is_leaf_def)
  then show ?thesis using vw by (simp add: slot_free_def)
qed

lemma accounts_flush [simp]: "accounts live out E root (flush_leaf_range E rg w) = accounts live out E root w"
  by (simp add: accounts_def flush_leaf_range_state)

text \<open>The public operation on the range of one leaf.\<close>

lemma walker_map_missing:
  fixes w :: "('s, 'h) world"
  assumes ok: "tree_ok E live root w" and acc: "accounts live out E root w"
    and sup: "frame_supply E room" "missing_below E w root (rng_start rg) target \<le> room (astate w)"
    and free: "slot_free E root (rng_start rg) target w"
    and sz: "size_to_level (e_meta E) sz = Some target"
    and p: "is_aligned sz p" "paddr_is_valid (e_meta E) p" "flags_ok flags"
    and chk: "check_leaf_range (e_addr E) (e_meta E) rg = Ok sz"
  shows "\<exists>w'. walker_map E root rg (FromPhysAddr p) (mapping_flags_new flags) w = (Ok (), w') \<and>
    tree_ok E live root w' \<and> accounts live out E root w' \<and>
    room (astate w) \<le> room (astate w') + missing_below E w root (rng_start rg) target \<and>
    (\<forall>v. query E root v (mem w') =
       (if in_range rg v then Ok (mapping_new rg p (norm flags)) else query E root v (mem w))) \<and>
    (\<forall>v. in_range rg v \<longrightarrow> query E root v (mem w) = Err NotMapped) \<and>
    (\<exists>w1. map_leaf_direct_sized_no_flush E root rg p flags sz target w = (Ok (), w1) \<and>
       w' = flush_leaf_range E rg w1)"
proof -
  from map_leaf_missing [OF ok acc sup free sz p] obtain w1 where
    d: "map_leaf_direct_sized_no_flush E root rg p flags sz target w = (Ok (), w1)" "accounts live out E root w1"
      "room (astate w) \<le> room (astate w1) + missing_below E w root (rng_start rg) target" by blast
  note rg = check_leaf_range_Ok [OF chk]
  note q = map_leaf_direct_query [OF ok sz p rg d(1)]
  let ?phys = "\<lparr>rng_start = p, rng_end = p + bytes sz\<rparr>"
  have ex: "exact_leaf_size (e_addr E) (e_meta E) rg p None = Ok (Some (sz, target))"
    using chk p sz rg(2)
    by (auto simp: check_leaf_range_def exact_leaf_size_def check_paddr_def bind_res_eq_Ok split: if_splits)
  have le: "p \<le> p + bytes sz"
    using conjunct2 [OF checked_add_Some [OF paddr_checked_add [OF p(2), of sz]]]
    unfolding word_le_nat_alt by linarith
  have src: "into_map_backing (e_addr E) (FromPhysAddr p) (range_size (e_addr E) rg) = Ok (ContiguousBacking ?phys)"
    using paddr_checked_add [OF p(2)] le
    by (simp add: rg(2) contiguous_from_start_size_def addr_from_start_size [OF addr_ok])
  have ps: "range_size (e_addr E) ?phys = bytes sz" "\<not> range_is_empty (e_addr E) ?phys"
    using le addr_size [OF addr_ok, of ?phys] addr_is_empty [OF addr_ok, of ?phys] by auto
  have "walker_map E root rg (FromPhysAddr p) (mapping_flags_new flags) w = (Ok (), flush_leaf_range E rg w1)"
    using src ps ex d(1) by (simp add: walker_map_def rg(2) mapping_flags_new_def)
  then show ?thesis using d q by (simp add: flush_leaf_range_state)
qed

text \<open>A supply for every level is enough in any case.\<close>

lemma walker_map_leaf:
  fixes w :: "('s, 'h) world"
  assumes ok: "tree_ok E live root w" and acc: "accounts live out E root w"
    and sup: "frame_supply E room" "LEVELS (e_meta E) - target \<le> room (astate w)"
    and free: "slot_free E root (rng_start rg) target w"
    and sz: "size_to_level (e_meta E) sz = Some target"
    and p: "is_aligned sz p" "paddr_is_valid (e_meta E) p" "flags_ok flags"
    and chk: "check_leaf_range (e_addr E) (e_meta E) rg = Ok sz"
  shows "\<exists>w'. walker_map E root rg (FromPhysAddr p) (mapping_flags_new flags) w = (Ok (), w') \<and>
    tree_ok E live root w' \<and> accounts live out E root w' \<and>
    room (astate w) \<le> room (astate w') + (LEVELS (e_meta E) - target) \<and>
    (\<forall>v. query E root v (mem w') =
       (if in_range rg v then Ok (mapping_new rg p (norm flags)) else query E root v (mem w))) \<and>
    (\<forall>v. in_range rg v \<longrightarrow> query E root v (mem w) = Err NotMapped) \<and>
    (\<exists>w1. map_leaf_direct_sized_no_flush E root rg p flags sz target w = (Ok (), w1) \<and>
       w' = flush_leaf_range E rg w1)"
proof -
  note m = missing_tables_le [of E "mem w" target "LEVELS (e_meta E)" root "rng_start rg"]
  from walker_map_missing [OF ok acc sup(1) order.trans [OF m sup(2)] free sz p chk] obtain w' where
    w': "walker_map E root rg (FromPhysAddr p) (mapping_flags_new flags) w = (Ok (), w')"
      "room (astate w) \<le> room (astate w') + missing_below E w root (rng_start rg) target"
    and rest: "tree_ok E live root w'" "accounts live out E root w'"
      "\<forall>v. query E root v (mem w') =
        (if in_range rg v then Ok (mapping_new rg p (norm flags)) else query E root v (mem w))"
      "\<forall>v. in_range rg v \<longrightarrow> query E root v (mem w) = Err NotMapped"
      "\<exists>w1. map_leaf_direct_sized_no_flush E root rg p flags sz target w = (Ok (), w1) \<and>
        w' = flush_leaf_range E rg w1" by blast
  have "room (astate w) \<le> room (astate w') + (LEVELS (e_meta E) - target)"
    using w'(2) m by linarith
  then show ?thesis using w'(1) rest by blast
qed

section \<open>The other operations\<close>

lemma unmap_accounts:
  assumes ok: "tree_ok E live root w" and acc: "accounts live out E root w" and total: "dealloc_total E live"
    and run: "unmap_no_flush E root rg w = (res, w')"
  shows "accounts live out E root w'"
proof -
  from unmap_no_flush_spec [OF ok run] consider
      (unmapped) fs where "mset (root_tables E w root) = mset (root_tables E w' root) + mset fs"
        "live (astate w') = live (astate w) - set fs"
    | (failed) "w' = w" using total by blast
  then show ?thesis
  proof cases
    case unmapped
    have "distinct (root_tables E w' root @ fs)"
      using tree_okD(1) [OF ok] mset_eq_imp_distinct_iff [of "root_tables E w root" "root_tables E w' root @ fs"]
        unmapped(1) by simp
    moreover have "set (root_tables E w root) = set (root_tables E w' root) \<union> set fs"
      using unmapped(1) by (metis set_mset_mset set_mset_union)
    ultimately show ?thesis using acc unmapped(2) by (auto simp: accounts_def)
  qed (use acc in simp)
qed

end

end
