(* ===== verification/ReclaimSpec.thy ===== *)
theory ReclaimSpec
  imports SupplySpec
begin

text \<open>
  Unmap undoes the allocations of map: every table that mapping a leaf added to the tree is
  handed back when the leaf is unmapped, so the two together leave the tree with no table it
  did not have before.
\<close>

section \<open>Growth along a path\<close>

text \<open>
  From \<open>w\<close> to \<open>w'\<close> the tree only gained tables on the path of \<open>v\<close>, whose entries off the path
  are absent; the tables it had keep their places and their entries off the path.
\<close>

definition grows :: "('f, 's, 'h) env \<Rightarrow> paddr \<Rightarrow> vaddr \<Rightarrow> ('s, 'h) world \<Rightarrow> ('s, 'h) world \<Rightarrow> bool" where
  "grows E root v w w' \<longleftrightarrow>
     (\<forall>k d. root_table_at E w root v k = Some d \<longrightarrow> root_table_at E w' root v k = Some d) \<and>
     (\<forall>k d i. root_table_at E w root v k = None \<longrightarrow> root_table_at E w' root v k = Some d \<longrightarrow>
        d \<notin> set (root_tables E w root) \<and>
        (i < ENTRIES_PER_TABLE (e_meta E) \<longrightarrow> i \<noteq> index_at (e_meta E) k v \<longrightarrow>
         \<not> is_present (e_pte E) (read_entry E (mem w') d i))) \<and>
     (\<forall>d\<in>set (root_tables E w' root). d \<notin> set (root_tables E w root) \<longrightarrow>
        (\<exists>k. root_table_at E w root v k = None \<and> root_table_at E w' root v k = Some d)) \<and>
     (\<forall>d\<in>set (root_tables E w root). d \<in> set (root_tables E w' root) \<and>
        (\<forall>i<ENTRIES_PER_TABLE (e_meta E). (\<forall>k. root_table_at E w root v k = Some d \<longrightarrow> i \<noteq> index_at (e_meta E) k v) \<longrightarrow>
           read_entry E (mem w') d i = read_entry E (mem w) d i))"

lemma growsD:
  assumes "grows E root v w w'"
  shows "root_table_at E w root v k = Some d \<Longrightarrow> root_table_at E w' root v k = Some d"
    and "\<lbrakk>root_table_at E w root v k = None; root_table_at E w' root v k = Some d;
        i < ENTRIES_PER_TABLE (e_meta E); i \<noteq> index_at (e_meta E) k v\<rbrakk> \<Longrightarrow>
        \<not> is_present (e_pte E) (read_entry E (mem w') d i)"
    and "\<lbrakk>d \<in> set (root_tables E w' root); d \<notin> set (root_tables E w root)\<rbrakk> \<Longrightarrow>
        \<exists>k. root_table_at E w root v k = None \<and> root_table_at E w' root v k = Some d"
    and "d \<in> set (root_tables E w root) \<Longrightarrow> d \<in> set (root_tables E w' root)"
    and "\<lbrakk>d \<in> set (root_tables E w root); i < ENTRIES_PER_TABLE (e_meta E);
        \<And>k. root_table_at E w root v k = Some d \<Longrightarrow> i \<noteq> index_at (e_meta E) k v\<rbrakk> \<Longrightarrow>
        read_entry E (mem w') d i = read_entry E (mem w) d i"
    and "\<lbrakk>root_table_at E w root v k = None; root_table_at E w' root v k = Some d\<rbrakk> \<Longrightarrow>
        d \<notin> set (root_tables E w root)"
  using assms unfolding grows_def by blast+

lemma grows_refl: "grows E root v w w"
  by (simp add: grows_def)

lemma grows_flush: "grows E root v w (flush_leaf_range E rg w') = grows E root v w w'"
  by (simp add: grows_def flush_leaf_range_state)

context walker
begin

lemma table_at_unique:
  assumes "distinct (tables E m l f)" "l \<le> LEVELS (e_meta E)"
    and "table_at E m l f v k = Some d" "table_at E m l f v k' = Some d"
  shows "k = k'"
  using assms
proof (induction l arbitrary: f)
  case 0
  then show ?case by simp
next
  case (Suc l)
  let ?x = "read_entry E m f (index_at (e_meta E) (Suc l) v)"
  have low: False if c: "table_at E m (Suc l) f v k = Some f" "k \<noteq> Suc l" for k
  proof -
    obtain h where h: "child E (Suc l) ?x = Some h" "table_at E m l h v k = Some f"
      using c table_at_child by blast
    then have "f \<in> set (below E m (Suc l) ?x)"
      using table_at_in_tables [OF h(2)] Suc.prems(2) child_below [OF h(1)] by simp
    then show False using root_not_below [OF Suc.prems(1,2), of v] by simp
  qed
  show ?case
  proof (cases "k = Suc l \<or> k' = Suc l")
    case True
    then have "d = f" using Suc.prems(3,4) by auto
    then show ?thesis using True low Suc.prems(3,4) by metis
  next
    case False
    then obtain h where h: "child E (Suc l) ?x = Some h" and a: "table_at E m l h v k = Some d"
      using Suc.prems(3) table_at_child by blast
    then have b: "table_at E m l h v k' = Some d" using Suc.prems(4) False by simp
    have "distinct (tables E m l h)"
      using distinct_tables_Suc(1) [OF Suc.prems(1) index_less_entries [OF Suc.prems(2), of v]]
        child_below [OF h] by simp
    then show ?thesis using Suc.IH a b Suc.prems(2) by simp
  qed
qed

lemma grows_trans:
  assumes ok: "tree_ok E live root w2" and a: "grows E root v w1 w2" and b: "grows E root v w2 w3"
  shows "grows E root v w1 w3"
  unfolding grows_def
proof (intro conjI allI ballI impI)
  fix k d assume "root_table_at E w1 root v k = Some d"
  then show "root_table_at E w3 root v k = Some d" using growsD(1) [OF a] growsD(1) [OF b] by blast
next
  fix k d i
  assume k: "root_table_at E w1 root v k = None" "root_table_at E w3 root v k = Some d"
  show "d \<notin> set (root_tables E w1 root)"
  proof (cases "root_table_at E w2 root v k")
    case None
    then show ?thesis using growsD(6) [OF b None k(2)] growsD(4) [OF a] by blast
  next
    case (Some d')
    then have "root_table_at E w2 root v k = Some d" using growsD(1) [OF b] k(2) by fastforce
    then show ?thesis by (rule growsD(6) [OF a k(1)])
  qed
  assume i: "i < ENTRIES_PER_TABLE (e_meta E)" "i \<noteq> index_at (e_meta E) k v"
  show "\<not> is_present (e_pte E) (read_entry E (mem w3) d i)"
  proof (cases "root_table_at E w2 root v k")
    case None
    then show ?thesis using growsD(2) [OF b _ k(2) i] by simp
  next
    case (Some d')
    then have d: "root_table_at E w2 root v k = Some d" using growsD(1) [OF b] k(2) by fastforce
    have "read_entry E (mem w3) d i = read_entry E (mem w2) d i"
      by (rule growsD(5) [OF b table_frame_ok(3) [OF ok d] i(1)])
        (use table_at_unique [OF tree_okD(1) [OF ok] order.refl d] i(2) in blast)
    then show ?thesis using growsD(2) [OF a k(1) d i] by simp
  qed
next
  fix d assume d: "d \<in> set (root_tables E w3 root)" "d \<notin> set (root_tables E w1 root)"
  show "\<exists>k. root_table_at E w1 root v k = None \<and> root_table_at E w3 root v k = Some d"
  proof (cases "d \<in> set (root_tables E w2 root)")
    case True
    then show ?thesis using growsD(3) [OF a _ d(2)] growsD(1) [OF b] by blast
  next
    case False
    then obtain k where "root_table_at E w2 root v k = None" "root_table_at E w3 root v k = Some d"
      using growsD(3) [OF b d(1)] by blast
    moreover from this have "root_table_at E w1 root v k = None" using growsD(1) [OF a, of k]
      by (cases "root_table_at E w1 root v k") auto
    ultimately show ?thesis by blast
  qed
next
  fix d assume "d \<in> set (root_tables E w1 root)"
  then show "d \<in> set (root_tables E w3 root)" using growsD(4) [OF a] growsD(4) [OF b] by blast
next
  fix d i
  assume d: "d \<in> set (root_tables E w1 root)" and i: "i < ENTRIES_PER_TABLE (e_meta E)"
    and off: "\<forall>k. root_table_at E w1 root v k = Some d \<longrightarrow> i \<noteq> index_at (e_meta E) k v"
  have old: "root_table_at E w1 root v k = Some d" if k: "root_table_at E w2 root v k = Some d" for k
  proof (cases "root_table_at E w1 root v k")
    case None
    then show ?thesis using growsD(6) [OF a None k] d by simp
  next
    case (Some d')
    then show ?thesis using growsD(1) [OF a Some] k by simp
  qed
  have "read_entry E (mem w3) d i = read_entry E (mem w2) d i"
    by (rule growsD(5) [OF b growsD(4) [OF a d] i]) (use old off in blast)
  also have "\<dots> = read_entry E (mem w1) d i"
    by (rule growsD(5) [OF a d i]) (use off in blast)
  finally show "read_entry E (mem w3) d i = read_entry E (mem w1) d i" .
qed

text \<open>One step: a fresh table hung in an absent entry of the path.\<close>

lemma step_grows:
  assumes ok: "tree_ok E live root w"
    and ta: "root_table_at E w root v (Suc (Suc l)) = Some cur"
    and absent: "\<not> is_present (e_pte E) (read_entry E (mem w) cur (index_at (e_meta E) (Suc (Suc l)) v))"
    and hs: "host_step E live w w1"
    and g: "g \<notin> live (astate w)" "g \<in> live (astate w1)" "frame_ok (e_meta E) g"
      "\<forall>i<ENTRIES_PER_TABLE (e_meta E). read_entry E (mem w1) g i = 0"
    and w2: "w2 = store E cur (index_at (e_meta E) (Suc (Suc l)) v)
                    (new_table (e_pte E) g (Suc (Suc l))) w1"
  shows "grows E root v w w2"
proof -
  let ?M = "e_meta E" and ?P = "e_pte E" and ?t = "Suc (Suc l)"
  let ?i = "index_at ?M ?t v" and ?e = "new_table ?P g ?t"
  note gr = grow_step [OF ok ta absent hs g w2]
  have ok1: "tree_ok E live root w1" by (rule host_step_tree_ok [OF ok hs])
  have T1: "root_tables E w1 root = root_tables E w root" by (rule host_step_tables [OF ok hs])
  have at1: "root_table_at E w1 root v k = root_table_at E w root v k" for k
    by (rule host_step_table_at [OF ok hs])
  have ta1: "root_table_at E w1 root v ?t = Some cur" using ta by (simp add: at1)
  note cf = table_frame_ok [OF ok1 ta1]
  have gT: "g \<notin> set (root_tables E w root)" using g(1) tree_okD(3) [OF ok] by blast
  have all: "updates E (insert g (set (root_tables E w1 root))) cur ?i ?e (mem w1) (mem w2)"
    unfolding w2 store_def
    using store_updates [OF _ cf(1,6)] tree_okD(2) [OF ok1] g(3) by simp
  then have upd: "updates E (set (root_tables E w1 root)) cur ?i ?e (mem w1) (mem w2)"
    by (rule updates_mono) blast
  have up: "root_table_at E w2 root v k = root_table_at E w root v k" if "?t \<le> k" "k \<le> LEVELS ?M" for k
    using table_at_update_up [OF tree_okD(1) [OF ok1] ta1 order.refl upd that] at1 by simp
  have lv: "?t \<le> LEVELS ?M" by (rule cf(5))
  have none: "root_table_at E w root v k = None" if k: "k < ?t" for k
  proof (rule ccontr)
    assume "root_table_at E w root v k \<noteq> None"
    then obtain d where "root_table_at E w root v k = Some d" by blast
    from table_at_up [OF this k lv] obtain h j where "root_table_at E w root v ?t = Some h"
      "child E ?t (read_entry E (mem w) h (index_at ?M ?t v)) = Some j" by blast
    then show False using ta absent by (simp add: child_def)
  qed
  have gz: "read_entry E (mem w2) g j = 0" if "j < ENTRIES_PER_TABLE ?M" for j
    using all that g(4) gT cf(3) by (auto simp: updates_def T1)
  have at2: "k = Suc l \<and> d = g" if k: "k < ?t" and d: "root_table_at E w2 root v k = Some d" for k d
  proof (cases "k = Suc l")
    case True
    then show ?thesis using gr(3) d by simp
  next
    case False
    then have "k < Suc l" "Suc l \<le> LEVELS ?M" using k lv by simp_all
    from table_at_up [OF d this] obtain h j where "root_table_at E w2 root v (Suc l) = Some h"
      "child E (Suc l) (read_entry E (mem w2) h (index_at ?M (Suc l) v)) = Some j" by blast
    moreover have "index_at ?M (Suc l) v < ENTRIES_PER_TABLE ?M"
      using lv by (intro index_at_less) simp_all
    ultimately show ?thesis using gr(3) gz by (simp add: zero_child)
  qed
  have new: "k = Suc l \<and> d = g"
    if "root_table_at E w root v k = None" "root_table_at E w2 root v k = Some d" for k d
    using at2 [of k d] that up [of k] table_at_level [OF that(2)] by (cases "k < ?t") simp_all
  have keep: "root_table_at E w2 root v k = Some d" if d: "root_table_at E w root v k = Some d" for k d
    using up [of k] none [of k] d table_at_level [OF d] by (cases "k < ?t") simp_all
  show ?thesis
    unfolding grows_def
  proof (intro conjI allI ballI impI)
    fix k d assume "root_table_at E w root v k = Some d"
    then show "root_table_at E w2 root v k = Some d" by (rule keep)
  next
    fix k d assume a: "root_table_at E w root v k = None" "root_table_at E w2 root v k = Some d"
    then have d: "k = Suc l" "d = g" using new [OF a] by simp_all
    show "d \<notin> set (root_tables E w root)" using gT d by simp
    fix i assume "i < ENTRIES_PER_TABLE ?M"
    then show "\<not> is_present ?P (read_entry E (mem w2) d i)" using gz zero_absent by (simp add: d)
  next
    fix d assume "d \<in> set (root_tables E w2 root)" "d \<notin> set (root_tables E w root)"
    then have "d = g" using gr(5) by blast
    moreover have "root_table_at E w root v (Suc l) = None" by (rule none) simp
    ultimately show "\<exists>k. root_table_at E w root v k = None \<and> root_table_at E w2 root v k = Some d"
      using gr(3) by blast
  next
    fix d assume "d \<in> set (root_tables E w root)"
    then show "d \<in> set (root_tables E w2 root)" using gr(5) by blast
  next
    fix d i
    assume d: "d \<in> set (root_tables E w root)" and i: "i < ENTRIES_PER_TABLE ?M"
      and off: "\<forall>k. root_table_at E w root v k = Some d \<longrightarrow> i \<noteq> index_at ?M k v"
    have "\<not> (d = cur \<and> i = ?i)" using off ta by blast
    then have "read_entry E (mem w2) d i = read_entry E (mem w1) d i"
      using upd d i by (auto simp: updates_def T1)
    then show "read_entry E (mem w2) d i = read_entry E (mem w) d i"
      using host_step_same [OF ok hs] d i by (simp add: same_entries_def)
  qed
qed

lemma map_descend_grows:
  assumes "tree_ok E live root w" "root_table_at E w root v l = Some cur" "1 \<le> target" "target \<le> l"
    and "map_descend E target v l cur w = (Ok (c, k), w')"
  shows "grows E root v w w'"
  using assms
proof (induction l arbitrary: cur w)
  case 0
  then show ?case by simp
next
  case (Suc l)
  let ?M = "e_meta E" and ?P = "e_pte E"
  let ?i = "index_at ?M (Suc l) v"
  let ?e = "read_entry E (mem w) cur ?i"
  show ?case
  proof (cases "target = Suc l")
    case True
    then show ?thesis using Suc.prems(5) by (simp add: grows_refl)
  next
    case False
    then have tl: "target < Suc l" "target \<le> l" using Suc.prems(4) by simp_all
    then obtain l' where l': "l = Suc l'" using Suc.prems(3) by (cases l) auto
    show ?thesis
    proof (cases "is_present ?P ?e")
      case pres: True
      show ?thesis
      proof (cases "entry_kind ?P ?e (Suc l)")
        case Table
        have d: "map_descend E target v l (pte_paddr ?P ?e) w = (Ok (c, k), w')"
          using Suc.prems(5) tl pres Table by (simp add: Let_def entry_is_leaf_def)
        have "root_table_at E w root v l = Some (pte_paddr ?P ?e)"
          using table_step Suc.prems(2) pres Table unfolding l' by blast
        from Suc.IH [OF Suc.prems(1) this Suc.prems(3) tl(2) d] show ?thesis .
      qed (use Suc.prems tl pres in \<open>auto simp: Let_def entry_is_leaf_def\<close>)
    next
      case absent: False
      obtain ra w1 where a: "alloc_table_frame E w = (ra, w1)" by fastforce
      then obtain g where ra: "ra = Ok g"
        using Suc.prems(5) tl absent by (cases ra) (simp_all add: Let_def)
      let ?w2 = "store E cur ?i (new_table ?P g (Suc l)) w1"
      note al = alloc_table_frame_spec [OF a]
      have ta: "root_table_at E w root v (Suc (Suc l')) = Some cur" using Suc.prems(2) l' by simp
      have ab: "\<not> is_present ?P (read_entry E (mem w) cur (index_at ?M (Suc (Suc l')) v))"
        using absent l' by simp
      note new = al(3) [OF ra, THEN conjunct1] al(3) [OF ra, THEN conjunct2, THEN conjunct1]
        al(3) [OF ra, THEN conjunct2, THEN conjunct2, THEN conjunct1]
        al(3) [OF ra, THEN conjunct2, THEN conjunct2, THEN conjunct2, THEN conjunct1]
      note gs = grow_step [OF Suc.prems(1) ta ab al(2) new refl, folded l']
      have d: "map_descend E target v l g ?w2 = (Ok (c, k), w')"
        using Suc.prems(5) tl absent a ra by (simp add: Let_def)
      show ?thesis
        by (rule grows_trans [OF gs(1) step_grows [OF Suc.prems(1) ta ab al(2) new refl, folded l']
            Suc.IH [OF gs(1,3) Suc.prems(3) tl(2) d]])
    qed
  qed
qed

section \<open>Rewriting the entry of the path\<close>

text \<open>An entry without a child put in place of one without a child keeps every table.\<close>

lemma plain_store_tables:
  assumes ok: "tree_ok E live root w"
    and ta: "root_table_at E w root v t = Some f"
    and old: "child E t (read_entry E (mem w) f (index_at (e_meta E) t v)) = None"
    and new: "child E t e = None"
    and w': "w' = store E f (index_at (e_meta E) t v) e w"
  shows "root_table_at E w' root v k = root_table_at E w root v k"
    "\<lbrakk>d \<in> set (root_tables E w root); i < ENTRIES_PER_TABLE (e_meta E)\<rbrakk> \<Longrightarrow>
       read_entry E (mem w') d i = (if d = f \<and> i = index_at (e_meta E) t v then e else read_entry E (mem w) d i)"
proof -
  let ?M = "e_meta E"
  note cf = table_frame_ok [OF ok ta]
  have upd: "updates E (set (root_tables E w root)) f (index_at ?M t v) e (mem w) (mem w')"
    using store_updates [OF _ cf(1,6)] tree_okD(2) [OF ok] by (simp add: w' store_def)
  show "\<lbrakk>d \<in> set (root_tables E w root); i < ENTRIES_PER_TABLE ?M\<rbrakk> \<Longrightarrow>
       read_entry E (mem w') d i = (if d = f \<and> i = index_at ?M t v then e else read_entry E (mem w) d i)"
    using upd by (simp add: updates_def)
  have ta': "root_table_at E w' root v t = Some f"
    by (rule table_at_update [OF tree_okD(1) [OF ok] ta order.refl upd])
  have f': "read_entry E (mem w') f (index_at ?M t v) = e" using updates_read [OF upd cf(3,6)] by simp
  have low: "table_at E m (LEVELS ?M) root v k = None"
    if k: "k < t" and a: "table_at E m (LEVELS ?M) root v t = Some f"
      and n: "child E t (read_entry E m f (index_at ?M t v)) = None" for m k
  proof (rule ccontr)
    assume "table_at E m (LEVELS ?M) root v k \<noteq> None"
    then obtain d where "table_at E m (LEVELS ?M) root v k = Some d" by blast
    from table_at_up [OF this k cf(5)] a n show False by fastforce
  qed
  show "root_table_at E w' root v k = root_table_at E w root v k"
  proof (cases "t \<le> k \<and> k \<le> LEVELS ?M")
    case True
    then show ?thesis
      by (intro table_at_update_up [OF tree_okD(1) [OF ok] ta order.refl upd]) simp_all
  next
    case False
    then consider "k < t" | "LEVELS ?M < k" by linarith
    then show ?thesis
    proof cases
      case 1
      then show ?thesis using low [OF 1 ta old] low [OF 1 ta'] new f' by simp
    next
      case 2
      then have "table_at E m (LEVELS ?M) root v k = None" for m
        using table_at_level by (metis leD not_Some_eq)
      then show ?thesis by simp
    qed
  qed
qed

text \<open>The tables that a successful map added, and the entry it wrote.\<close>

lemma map_leaf_grows:
  assumes ok: "tree_ok E live root w"
    and t: "level_supports_leaf (e_meta E) target sz" "1 \<le> target" "target \<le> LEVELS (e_meta E)"
    and p: "is_aligned sz p" "paddr_is_valid (e_meta E) p" "flags_ok flags"
    and run: "map_leaf_direct_sized_no_flush E root rg p flags sz target w = (Ok (), w')"
  shows "grows E root (rng_start rg) w w'"
proof -
  let ?M = "e_meta E" and ?v = "rng_start rg"
  obtain c w1 where d: "map_descend E target ?v (LEVELS ?M) root w = (Ok (c, target), w1)"
    and i: "install_leaf E ?v p flags sz c target w1 = (Ok (), w')"
  proof -
    obtain rd w1 where d: "map_descend E target ?v (LEVELS ?M) root w = (rd, w1)" by fastforce
    note ds = map_descend_spec [OF ok root_table t(2,3) d]
    then obtain c where "rd = Ok (c, target)"
      using run d by (cases rd) (auto simp: map_leaf_direct_sized_no_flush_def)
    then show thesis using that run d by (simp add: map_leaf_direct_sized_no_flush_def)
  qed
  note ds = map_descend_spec [OF ok root_table t(2,3) d]
  have ok1: "tree_ok E live root w1" and ta: "root_table_at E w1 root ?v target = Some c" using ds by blast+
  note g = map_descend_grows [OF ok root_table t(2,3) d]
  let ?e = "new_leaf (e_pte E) p flags sz"
  have ab: "\<not> is_present (e_pte E) (read_entry E (mem w1) c (index_at ?M target ?v))"
    and w': "w' = store E c (index_at ?M target ?v) ?e w1"
    using i by (auto simp: install_leaf_def Let_def split: if_splits)
  have old: "child E target (read_entry E (mem w1) c (index_at ?M target ?v)) = None"
    using ab by (simp add: child_def)
  have new: "child E target ?e = None" using leaf_encoding(1) [OF t(1) _ _ p] t by simp
  note st = plain_store_tables [OF ok1 ta old new w']
  note ls = leaf_store(4) [OF ok1 ta old t(1) p w']
  have s: "grows E root ?v w1 w'"
    unfolding grows_def st(1) ls
  proof (intro conjI ballI allI impI)
    fix d i assume d: "d \<in> set (root_tables E w1 root)" and i: "i < ENTRIES_PER_TABLE ?M"
      and off: "\<forall>k. root_table_at E w1 root ?v k = Some d \<longrightarrow> i \<noteq> index_at ?M k ?v"
    have "\<not> (d = c \<and> i = index_at ?M target ?v)" using off ta by blast
    then show "read_entry E (mem w') d i = read_entry E (mem w1) d i"
      unfolding st(2) [OF d i] by (rule if_not_P)
  qed simp_all
  show ?thesis by (rule grows_trans [OF ok1 g s])
qed

section \<open>Reclaiming the tables of a path\<close>

lemma reclaim_frees:
  assumes "tree_ok E live root w" "root_table_at E w root v t = Some c" "on_path E w root v t ps"
    and "dealloc_total E live" "reclaim E ps c w = (res, w')"
    and "\<And>k d i. \<lbrakk>t \<le> k; k < K; root_table_at E w root v k = Some d; i < ENTRIES_PER_TABLE (e_meta E);
        i \<noteq> index_at (e_meta E) k v\<rbrakk> \<Longrightarrow> \<not> is_present (e_pte E) (read_entry E (mem w) d i)"
    and "\<not> is_present (e_pte E) (read_entry E (mem w) c (index_at (e_meta E) t v))"
    and "K \<le> LEVELS (e_meta E)" "t \<le> k" "k < K" "root_table_at E w root v k = Some d"
  shows "d \<notin> set (root_tables E w' root)"
  using assms
proof (induction ps arbitrary: t c w)
  case Nil
  then show ?case by simp
next
  case (Cons a ps)
  let ?M = "e_meta E" and ?P = "e_pte E"
  obtain p i where a: "a = (p, i)" by (cases a)
  have p: "root_table_at E w root v (Suc t) = Some p" "i = index_at ?M (Suc t) v"
    and path: "on_path E w root v (Suc t) ps"
    using Cons.prems(3) by (simp_all add: a)
  have empty: "is_table_empty E (mem w) c"
    unfolding is_table_empty_iff
  proof (intro allI impI)
    fix j assume j: "j < ENTRIES_PER_TABLE ?M"
    show "\<not> is_present ?P (read_entry E (mem w) c j)"
      using Cons.prems(6) [OF order.refl _ Cons.prems(2) j] Cons.prems(7,9,10)
      by (cases "j = index_at ?M t v") simp_all
  qed
  let ?z = "pte_clear ?P (pte_from_bits ?P 0)"
  let ?w1 = "store E p i ?z w"
  note un = unlink_step [OF Cons.prems(1) p(1) Cons.prems(2) empty refl, folded p(2)]
  obtain rd w2 where dl: "dealloc_table_frame E c ?w1 = (rd, w2)" by fastforce
  note de = dealloc_table_frame_spec [OF dl table_frame_ok(1) [OF Cons.prems(1,2)]]
  have rd: "rd = Ok ()" using de(5) [OF Cons.prems(4)] table_frame_ok(2) [OF Cons.prems(1,2)] un(5) by simp
  have fresh: "c \<notin> set (root_tables E ?w1 root)"
    using un(3) tree_okD(1) [OF Cons.prems(1)] by (rule distinct_add_mset)
  note out = gives_back_outside [OF un(1) de(2) fresh]
  have ok2: "tree_ok E live root w2" by (rule out(1))
  have T: "set (root_tables E w root) = insert c (set (root_tables E w2 root))"
    using un(3) out(3) by (metis set_mset_add_mset_insert set_mset_mset)
  have cT: "c \<notin> set (root_tables E w2 root)" using fresh out(3) by simp
  have up: "root_table_at E w2 root v j = root_table_at E w root v j" if "Suc t \<le> j" for j
  proof (cases "j \<le> LEVELS ?M")
    case True
    then show ?thesis using un(4) [of j] out(4) that by simp
  next
    case False
    then have "table_at E m (LEVELS ?M) root v j = None" for m
      using table_at_level by (metis not_Some_eq)
    then show ?thesis by simp
  qed
  have r: "reclaim E ps p w2 = (res, w')" using Cons.prems(5) empty dl rd by (simp add: a Let_def)
  have tp: "root_table_at E w2 root v (Suc t) = Some p" using up [of "Suc t"] p(1) by simp
  have path2: "on_path E w2 root v (Suc t) ps"
    by (rule on_path_cong [OF _ path]) (use up in simp)
  have rd2: "read_entry E (mem w2) d' j = (if d' = p \<and> j = i then ?z else read_entry E (mem w) d' j)"
    if d': "d' \<in> set (root_tables E w2 root)" and j: "j < ENTRIES_PER_TABLE ?M" for d' j
  proof -
    note pf = table_frame_ok [OF Cons.prems(1) p(1)]
    have u: "updates E (set (root_tables E w root)) p i ?z (mem w) (mem ?w1)"
      using store_updates [OF _ pf(1)] pf(6) p(2) tree_okD(2) [OF Cons.prems(1)] by (simp add: store_def)
    have "set (root_tables E ?w1 root) \<subseteq> live (astate ?w1) - {c}"
      using tree_okD(3) [OF un(1)] fresh by blast
    then have "read_entry E (mem w2) d' j = read_entry E (mem ?w1) d' j"
      using de(2) d' j out(3) by (auto simp: gives_back_def same_entries_def)
    then show ?thesis using u d' j T by (simp add: updates_def)
  qed
  show ?case
  proof (cases "k = t")
    case True
    have "mset (root_tables E w2 root) = mset (root_tables E w' root) + X \<Longrightarrow>
        set (root_tables E w' root) \<subseteq> set (root_tables E w2 root)" for X
      by (metis set_mset_mset set_mset_union sup_ge1)
    then have "set (root_tables E w' root) \<subseteq> set (root_tables E w2 root)"
      using reclaim_spec [OF ok2 tp path2 r] by blast
    then show ?thesis using True Cons.prems(2,11) cT by auto
  next
    case False
    then have k: "Suc t \<le> k" using Cons.prems(9) by simp
    show ?thesis
    proof (rule Cons.IH [OF ok2 tp path2 Cons.prems(4) r _ _ Cons.prems(8) k Cons.prems(10)])
      show "root_table_at E w2 root v k = Some d" using up [OF k] Cons.prems(11) by simp
    next
      fix k' d' j
      assume k': "Suc t \<le> k'" "k' < K" "root_table_at E w2 root v k' = Some d'"
        and j: "j < ENTRIES_PER_TABLE ?M" "j \<noteq> index_at ?M k' v"
      have old: "root_table_at E w root v k' = Some d'" using up [OF k'(1)] k'(3) by simp
      have "\<not> (d' = p \<and> j = i)"
        using table_at_unique [OF tree_okD(1) [OF Cons.prems(1)] order.refl old] p j(2) by blast
      then have "read_entry E (mem w2) d' j = read_entry E (mem w) d' j"
        unfolding rd2 [OF table_frame_ok(3) [OF ok2 k'(3)] j(1)] by (rule if_not_P)
      then show "\<not> is_present ?P (read_entry E (mem w2) d' j)"
        using Cons.prems(6) [OF _ k'(2) old j] k'(1) by simp
    next
      show "\<not> is_present ?P (read_entry E (mem w2) p (index_at ?M (Suc t) v))"
        using rd2 [OF table_frame_ok(3,6) [OF ok2 tp]] clear_absent by (simp add: p(2))
    qed
  qed
qed

section \<open>Unmapping what was mapped\<close>

lemma unmap_reclaims:
  assumes ok: "tree_ok E live root w1" and g: "grows E root (rng_start rg) w0 w1"
    and total: "dealloc_total E live" and run: "unmap_no_flush E root rg w1 = (Ok mp, w2)"
  shows "set (root_tables E w2 root) \<subseteq> set (root_tables E w0 root)"
proof
  let ?M = "e_meta E" and ?P = "e_pte E" and ?v = "rng_start rg"
  fix d assume d: "d \<in> set (root_tables E w2 root)"
  show "d \<in> set (root_tables E w0 root)"
  proof (rule ccontr)
    assume new: "d \<notin> set (root_tables E w0 root)"
    obtain rd wd where ud: "unmap_descend E rg (LEVELS ?M) root [] w1 = (rd, wd)" by fastforce
    from unmap_descend_spec [OF root_table _ _ ud] run ud obtain t c e ps where
      "rd = Ok (mapping_new rg (pte_paddr ?P e) (pte_flags ?P e), c, ps)"
      and c: "root_table_at E w1 root ?v t = Some c"
      and e: "e = read_entry E (mem w1) c (index_at ?M t ?v)" "entry_kind ?P e t = Leaf"
      and path: "on_path E w1 root ?v t ps"
      and wd: "wd = store E c (index_at ?M t ?v) (pte_clear ?P e) w1"
      by (auto simp: unmap_no_flush_def check_vaddr_def split: if_splits)
    then obtain rr where r: "reclaim E ps c wd = (rr, w2)"
      using run ud by (auto simp: unmap_no_flush_def check_vaddr_def bind_st_eq split: if_splits)
    have old: "child E t (read_entry E (mem w1) c (index_at ?M t ?v)) = None"
      using e by (simp add: child_def)
    have clr: "child E t (pte_clear ?P e) = None" by (simp add: child_def clear_absent)
    note st = plain_store_tables [OF ok c old clr wd]
    have okd: "tree_ok E live root wd" "set (root_tables E wd root) = set (root_tables E w1 root)"
      by (rule plain_store [OF ok c old clr _ wd], simp add: entry_view_def clear_absent)+
    have cd: "root_table_at E wd root ?v t = Some c" using c by (simp add: st(1))
    have pathd: "on_path E wd root ?v t ps" by (rule on_path_cong [OF _ path]) (simp add: st(1))
    have "mset (root_tables E wd root) = mset (root_tables E w2 root) + X \<Longrightarrow>
        set (root_tables E w2 root) \<subseteq> set (root_tables E wd root)" for X
      by (metis set_mset_mset set_mset_union sup_ge1)
    then have "d \<in> set (root_tables E w1 root)"
      using reclaim_spec [OF okd(1) cd pathd r] okd(2) d by blast
    then obtain k where k: "root_table_at E w0 root ?v k = None" "root_table_at E w1 root ?v k = Some d"
      using growsD(3) [OF g _ new] by blast
    define K where "K = (LEAST j. root_table_at E w0 root ?v j \<noteq> None)"
    have KL: "K \<le> LEVELS ?M" unfolding K_def by (rule Least_le) (simp add: root_table)
    have K: "root_table_at E w0 root ?v K \<noteq> None"
      unfolding K_def by (rule LeastI [of _ "LEVELS ?M"]) (simp add: root_table)
    have below: "root_table_at E w0 root ?v j = None" if "j < K" for j
      using not_less_Least [of j "\<lambda>j. root_table_at E w0 root ?v j \<noteq> None"] that by (simp add: K_def)
    have kK: "k < K"
    proof (rule ccontr)
      assume "\<not> k < K"
      then have "K < k" "k \<le> LEVELS ?M" using K k(1) table_at_level [OF k(2)] by (cases "K = k"; force)+
      then show False using K k(1) by (metis not_Some_eq table_at_up)
    qed
    have tk: "t \<le> k"
    proof (rule ccontr)
      assume "\<not> t \<le> k"
      then have "k < t" "t \<le> LEVELS ?M" using table_at_level [OF c] by simp_all
      from table_at_up [OF k(2) this] c old show False by fastforce
    qed
    have "d \<notin> set (root_tables E w2 root)"
    proof (rule reclaim_frees [OF okd(1) cd pathd total r _ _ KL tk kK])
      show "root_table_at E wd root ?v k = Some d" using k(2) by (simp add: st(1))
    next
      fix k' d' i
      assume k': "k' < K" "root_table_at E wd root ?v k' = Some d'"
        and i: "i < ENTRIES_PER_TABLE ?M" "i \<noteq> index_at ?M k' ?v"
      have at1: "root_table_at E w1 root ?v k' = Some d'" using k'(2) by (simp add: st(1))
      have "\<not> (d' = c \<and> i = index_at ?M t ?v)"
        using table_at_unique [OF tree_okD(1) [OF ok] order.refl at1] c i(2) by blast
      then have "read_entry E (mem wd) d' i = read_entry E (mem w1) d' i"
        unfolding st(2) [OF table_frame_ok(3) [OF ok at1] i(1)] by (rule if_not_P)
      then show "\<not> is_present ?P (read_entry E (mem wd) d' i)"
        using growsD(2) [OF g below [OF k'(1)] at1 i] by simp
    next
      show "\<not> is_present ?P (read_entry E (mem wd) c (index_at ?M t ?v))"
        using st(2) [OF table_frame_ok(3,6) [OF ok c]] clear_absent by simp
    qed
    then show False using d by simp
  qed
qed

lemma map_unmap_roundtrip:
  fixes w :: "('s, 'h) world"
  assumes ok: "tree_ok E live root w" and acc: "accounts live out E root w" and total: "dealloc_total E live"
    and sup: "frame_supply E room" "LEVELS (e_meta E) - target \<le> room (astate w)"
    and free: "slot_free E root (rng_start rg) target w"
    and sz: "size_to_level (e_meta E) sz = Some target"
    and p: "is_aligned sz p" "paddr_is_valid (e_meta E) p" "flags_ok flags"
    and chk: "check_leaf_range (e_addr E) (e_meta E) rg = Ok sz"
  shows "\<exists>w1 w2. walker_map E root rg (FromPhysAddr p) (mapping_flags_new flags) w = (Ok (), w1) \<and>
    (\<forall>v. in_range rg v \<longrightarrow> query E root v (mem w1) = Ok (mapping_new rg p (norm flags))) \<and>
    unmap E root rg w1 = (Ok (mapping_new rg p (norm flags)), w2) \<and>
    tree_ok E live root w2 \<and> accounts live out E root w2 \<and> live (astate w2) \<subseteq> live (astate w) \<and>
    (\<forall>v. query E root v (mem w2) = query E root v (mem w))"
proof -
  from walker_map_leaf [OF assms(1,2,4-)] obtain w1 where
    m: "walker_map E root rg (FromPhysAddr p) (mapping_flags_new flags) w = (Ok (), w1)"
      "tree_ok E live root w1" "accounts live out E root w1"
      "grows E root (rng_start rg) w w1"
    and q1: "\<And>v. query E root v (mem w1) =
       (if in_range rg v then Ok (mapping_new rg p (norm flags)) else query E root v (mem w))"
    and q0: "\<And>v. in_range rg v \<Longrightarrow> query E root v (mem w) = Err NotMapped"
    using map_leaf_grows [OF ok size_to_level_size(5,1,2) [OF sz] p] grows_flush by blast
  note rg = check_leaf_range_Ok [OF chk]
  note lr = leaf_range_exact [OF addr_ok rg(1-3)]
  have here: "in_range rg (rng_start rg)"
    using leaf_range_mem [OF addr_ok lr, of "rng_start rg"] by (simp add: in_range_def)
  obtain r w2 where u: "unmap_no_flush E root rg w1 = (r, w2)" by fastforce
  have r: "r = Ok (mapping_new rg p (norm flags))"
    using unmap_outcome(1) [OF m(2) total, of rg] u here
    by (simp add: exact_query_def q1 mapping_new_def)
  have q2: "query E root v (mem w2) = (if in_range rg v then Err NotMapped else query E root v (mem w1))" for v
    using unmap_no_flush_spec [OF m(2) u] r by auto
  have "query E root v (mem w2) = query E root v (mem w)" for v
    using q0 [of v] by (simp add: q1 q2)
  moreover have "live (astate w2) \<subseteq> live (astate w)"
    using unmap_reclaims [OF m(2,4) total u [unfolded r]] unmap_accounts [OF m(2,3) total u] acc
    by (auto simp: accounts_def)
  moreover have "unmap E root rg w1 = (r, flush_leaf_range E rg w2)"
    using u r by (simp add: unmap_def mapping_new_def)
  ultimately show ?thesis
    using m(1) q1 r unmap_no_flush_spec [OF m(2) u] unmap_accounts [OF m(2,3) total u]
    by (auto simp: flush_leaf_range_state)
qed

end

end
