(* ===== verification/PageTableApi.thy ===== *)
theory PageTableApi
  imports Lifecycle ReclaimSpec
begin

text \<open>
  The trait \<^verbatim>\<open>PageTable\<close> of \<^verbatim>\<open>walker.rs\<close>, what it promises, and its implementation by the walker. The
  promise is an abstract address space: a partial function from virtual addresses to a physical
  address and flags. Every operation of the trait acts on it as a function of its arguments, or
  reports an error.
\<close>

section \<open>The trait\<close>

record ('f, 'p) page_table_impl =
  pt_input_addr_bits :: nat
  pt_output_addr_bits :: nat
  pt_root :: "'p \<Rightarrow> paddr"
  pt_query :: "'p \<Rightarrow> vaddr \<Rightarrow> 'f mapping res"
  pt_map :: "addr_range \<Rightarrow> backing_source \<Rightarrow> 'f mapping_flags \<Rightarrow> 'p \<Rightarrow> unit res \<times> 'p"
  pt_remap :: "addr_range \<Rightarrow> paddr \<Rightarrow> 'f \<Rightarrow> 'p \<Rightarrow> 'f mapping res \<times> 'p"
  pt_protect :: "addr_range \<Rightarrow> 'f \<Rightarrow> 'p \<Rightarrow> 'f mapping res \<times> 'p"
  pt_unmap :: "addr_range \<Rightarrow> 'p \<Rightarrow> 'f mapping res \<times> 'p"
  pt_split_at :: "addr_range \<Rightarrow> 'p \<Rightarrow> page_size res \<times> 'p"
  pt_merge_at :: "addr_range \<Rightarrow> 'p \<Rightarrow> page_size res \<times> 'p"

text \<open>The provided method.\<close>

definition install_with :: "('f, 'p) page_table_impl \<Rightarrow> ('t, 'k, 'c) activation_impl \<Rightarrow> 'k \<Rightarrow> 'p \<Rightarrow> 't res" where
  "install_with PT activation controls p = install activation (pt_root PT p) controls"

text \<open>The implementation by \<^verbatim>\<open>PageTableWalker\<close>: a root next to the machine. The casts to \<^verbatim>\<open>u8\<close> truncate.\<close>

definition walker_page_table :: "('f, 's, 'h) env \<Rightarrow> ('f, paddr \<times> ('s, 'h) world) page_table_impl" where
  "walker_page_table E =
     \<lparr>pt_input_addr_bits = VA_MAX_BITS (e_meta E) mod 2 ^ 8,
      pt_output_addr_bits = PA_MAX_BITS (e_meta E) mod 2 ^ 8,
      pt_root = fst,
      pt_query = (\<lambda>(root, w) v. query E root v (mem w)),
      pt_map = (\<lambda>rg backing flags (root, w). map_prod id (Pair root) (walker_map E root rg backing flags w)),
      pt_remap = (\<lambda>rg p flags (root, w). map_prod id (Pair root) (remap E root rg p flags w)),
      pt_protect = (\<lambda>rg flags (root, w). map_prod id (Pair root) (protect E root rg flags w)),
      pt_unmap = (\<lambda>rg (root, w). map_prod id (Pair root) (unmap E root rg w)),
      pt_split_at = (\<lambda>rg (root, w). map_prod id (Pair root) (split_at E root rg w)),
      pt_merge_at = (\<lambda>rg (root, w). map_prod id (Pair root) (merge_at E root rg w))\<rparr>"

section \<open>Programs over the trait\<close>

datatype 'f table_op =
    TMap addr_range backing_source "'f mapping_flags"
  | TRemap addr_range paddr 'f
  | TProtect addr_range 'f
  | TUnmap addr_range
  | TSplit addr_range
  | TMerge addr_range

fun table_exec :: "('f, 'p) page_table_impl \<Rightarrow> 'f table_op \<Rightarrow> 'p \<Rightarrow> unit res \<times> 'p" where
  "table_exec PT (TMap rg src flags) p = pt_map PT rg src flags p"
| "table_exec PT (TRemap rg pa flags) p = forget (pt_remap PT rg pa flags p)"
| "table_exec PT (TProtect rg flags) p = forget (pt_protect PT rg flags p)"
| "table_exec PT (TUnmap rg) p = forget (pt_unmap PT rg p)"
| "table_exec PT (TSplit rg) p = forget (pt_split_at PT rg p)"
| "table_exec PT (TMerge rg) p = forget (pt_merge_at PT rg p)"

text \<open>A sequence of requests; the client goes on after an error.\<close>

fun table_run :: "('f, 'p) page_table_impl \<Rightarrow> 'f table_op list \<Rightarrow> 'p \<Rightarrow> unit res list \<times> 'p" where
  "table_run PT [] p = ([], p)"
| "table_run PT (op # ops) p =
     (let (r, p) = table_exec PT op p; (rs, p) = table_run PT ops p in (r # rs, p))"

section \<open>The abstract address space\<close>

type_synonym 'f space = "vaddr \<Rightarrow> (paddr \<times> 'f) option"

text \<open>What a query translates an address to.\<close>

definition space_of :: "('f, 'p) page_table_impl \<Rightarrow> 'p \<Rightarrow> 'f space" where
  "space_of PT p v =
     (case pt_query PT p v of
        Ok mp \<Rightarrow> Some (m_paddr mp + (v - rng_start (m_range mp)), m_flags mp)
      | _ \<Rightarrow> None)"

definition space_map :: "addr_range \<Rightarrow> nat \<Rightarrow> (nat \<Rightarrow> paddr) \<Rightarrow> 'f \<Rightarrow> 'f space \<Rightarrow> 'f space" where
  "space_map rg n g f s =
     (\<lambda>v. if unat (rng_start rg) \<le> unat v \<and> unat v < unat (rng_start rg) + n
          then Some (g (unat v - unat (rng_start rg)), f) else s v)"

text \<open>A successful request, as a function on address spaces.\<close>

fun space_exec :: "addr_lib \<Rightarrow> ('f \<Rightarrow> 'f) \<Rightarrow> 'f table_op \<Rightarrow> 'f space \<Rightarrow> 'f space" where
  "space_exec L norm (TMap rg src flags) s =
     (case into_map_backing L src (range_size L rg) of
        Ok b \<Rightarrow> space_map rg (unat (range_size L rg)) (backing_paddr L b) (norm (mf_leaf flags)) s
      | _ \<Rightarrow> s)"
| "space_exec L norm (TRemap rg pa flags) s =
     (\<lambda>v. if in_range rg v then Some (pa + (v - rng_start rg), norm flags) else s v)"
| "space_exec L norm (TProtect rg flags) s =
     (\<lambda>v. if in_range rg v then map_option (\<lambda>(a, _). (a, norm flags)) (s v) else s v)"
| "space_exec L norm (TUnmap rg) s = (\<lambda>v. if in_range rg v then None else s v)"
| "space_exec L norm (TSplit rg) s = s"
| "space_exec L norm (TMerge rg) s = s"

text \<open>What a successful request found; what a failed one did: a map may have mapped a prefix.\<close>

fun space_pre :: "'f table_op \<Rightarrow> 'f space \<Rightarrow> bool" where
  "space_pre (TMap rg src flags) s = (\<forall>v. in_range rg v \<longrightarrow> s v = None)"
| "space_pre (TRemap rg pa flags) s = (\<forall>v. in_range rg v \<longrightarrow> s v \<noteq> None)"
| "space_pre (TProtect rg flags) s = (\<forall>v. in_range rg v \<longrightarrow> s v \<noteq> None)"
| "space_pre (TUnmap rg) s = (\<forall>v. in_range rg v \<longrightarrow> s v \<noteq> None)"
| "space_pre (TSplit rg) s = (\<forall>v. in_range rg v \<longrightarrow> s v \<noteq> None)"
| "space_pre (TMerge rg) s = (\<forall>v. in_range rg v \<longrightarrow> s v \<noteq> None)"

fun space_fail :: "addr_lib \<Rightarrow> ('f \<Rightarrow> 'f) \<Rightarrow> 'f table_op \<Rightarrow> 'f space \<Rightarrow> 'f space \<Rightarrow> bool" where
  "space_fail L norm (TMap rg src flags) s s' =
     (\<exists>b n. into_map_backing L src (range_size L rg) = Ok b \<and> n \<le> unat (range_size L rg) \<and>
        s' = space_map rg n (backing_paddr L b) (norm (mf_leaf flags)) s \<and>
        (\<forall>v. unat (rng_start rg) \<le> unat v \<and> unat v < unat (rng_start rg) + n \<longrightarrow> s v = None))"
| "space_fail L norm _ s s' = (s' = s)"

definition space_step :: "addr_lib \<Rightarrow> ('f \<Rightarrow> 'f) \<Rightarrow> 'f table_op \<Rightarrow> unit res \<Rightarrow> 'f space \<Rightarrow> 'f space \<Rightarrow> bool" where
  "space_step L norm op r s s' =
     (case r of
        Ok _ \<Rightarrow> space_pre op s \<and> s' = space_exec L norm op s
      | Err _ \<Rightarrow> space_fail L norm op s s'
      | Panic \<Rightarrow> False)"

inductive space_run :: "addr_lib \<Rightarrow> ('f \<Rightarrow> 'f) \<Rightarrow> 'f table_op list \<Rightarrow> unit res list \<Rightarrow>
    'f space \<Rightarrow> 'f space \<Rightarrow> bool" for L norm where
  space_done: "space_run L norm [] [] s s"
| space_more: "\<lbrakk>space_step L norm op r s s1; space_run L norm ops rs s1 s'\<rbrakk> \<Longrightarrow>
    space_run L norm (op # ops) (r # rs) s s'"

inductive_cases space_run_consE: "space_run L norm (op # ops) rs s s'"

text \<open>Without errors the space is computed from the requests alone.\<close>

lemma space_run_ok:
  "\<lbrakk>space_run L norm ops rs s s'; \<forall>r\<in>set rs. r = Ok ()\<rbrakk> \<Longrightarrow> s' = fold (space_exec L norm) ops s"
  by (induction rule: space_run.induct) (auto simp: space_step_def)

fun op_legal :: "addr_lib \<Rightarrow> ('f \<Rightarrow> bool) \<Rightarrow> 'f table_op \<Rightarrow> bool" where
  "op_legal L flags_ok (TMap rg src flags) \<longleftrightarrow> flags_ok (mf_leaf flags) \<and> range_ok rg \<and>
     (case into_map_backing L src (range_size L rg) of Ok b \<Rightarrow> backing_ok b | _ \<Rightarrow> False)"
| "op_legal L flags_ok (TRemap rg pa flags) \<longleftrightarrow> flags_ok flags"
| "op_legal L flags_ok (TProtect rg flags) \<longleftrightarrow> flags_ok flags"
| "op_legal L flags_ok (TUnmap rg) \<longleftrightarrow> True"
| "op_legal L flags_ok (TSplit rg) \<longleftrightarrow> True"
| "op_legal L flags_ok (TMerge rg) \<longleftrightarrow> True"

section \<open>The contract and its clients\<close>

locale page_table =
  fixes PT :: "('f, 'p) page_table_impl" and L :: addr_lib and flags_ok :: "'f \<Rightarrow> bool"
    and norm :: "'f \<Rightarrow> 'f" and inv :: "'p \<Rightarrow> bool"
  assumes exec_spec: "\<lbrakk>inv p; op_legal L flags_ok op; table_exec PT op p = (r, p')\<rbrakk> \<Longrightarrow>
      inv p' \<and> pt_root PT p' = pt_root PT p \<and> space_step L norm op r (space_of PT p) (space_of PT p')"
begin

lemma run_spec:
  assumes "inv p" "\<forall>op\<in>set ops. op_legal L flags_ok op" "table_run PT ops p = (rs, p')"
  shows "inv p' \<and> pt_root PT p' = pt_root PT p \<and> space_run L norm ops rs (space_of PT p) (space_of PT p')"
  using assms
proof (induction ops arbitrary: p rs)
  case Nil
  then show ?case by (simp add: space_done)
next
  case (Cons op ops)
  obtain r p1 where e: "table_exec PT op p = (r, p1)" by (meson surj_pair)
  obtain rs' where run: "table_run PT ops p1 = (rs', p')" and rs: "rs = r # rs'"
    using Cons.prems(3) by (auto simp: e Let_def split: prod.splits)
  note step = exec_spec [OF Cons.prems(1) _ e]
  have "inv p1" using step Cons.prems(2) by simp
  from Cons.IH [OF this _ run] show ?case
    using step Cons.prems(2) by (auto simp: rs intro: space_more)
qed

text \<open>A token made before a program still names the table after it.\<close>

lemma install_stable:
  assumes "inv p" "\<forall>op\<in>set ops. op_legal L flags_ok op" "table_run PT ops p = (rs, p')"
  shows "install_with PT activation controls p' = install_with PT activation controls p"
  using run_spec [OF assms] by (simp add: install_with_def)

end

section \<open>The walker keeps the contract\<close>

definition table_valid :: "('f, 's, 'h) env \<Rightarrow> ('s \<Rightarrow> paddr set) \<Rightarrow> paddr \<times> ('s, 'h) world \<Rightarrow> bool" where
  "table_valid E live p \<longleftrightarrow> tree_ok E live (fst p) (snd p)"

locale reliable_walker = walker E flags_ok norm live
  for E :: "('f, 's, 'h) env" and flags_ok :: "'f \<Rightarrow> bool" and norm :: "'f \<Rightarrow> 'f" and live :: "'s \<Rightarrow> paddr set" +
  assumes total: "dealloc_total E live"
begin

abbreviation PT :: "('f, paddr \<times> ('s, 'h) world) page_table_impl" where
  "PT \<equiv> walker_page_table E"

abbreviation space :: "paddr \<Rightarrow> ('s, 'h) world \<Rightarrow> 'f space" where
  "space root w \<equiv> space_of PT (root, w)"

lemma space_resolve: "space root w v = (case resolve E root v (mem w) of Ok x \<Rightarrow> Some x | _ \<Rightarrow> None)"
  by (simp add: space_of_def walker_page_table_def resolve_def split: res.splits)

lemma space_query: "query E root v (mem w') = query E root v (mem w) \<Longrightarrow> space root w' v = space root w v"
  by (simp add: space_of_def walker_page_table_def)

lemma space_Ok: "query E root v (mem w) = Ok mp \<Longrightarrow>
    space root w v = Some (m_paddr mp + (v - rng_start (m_range mp)), m_flags mp)"
  by (simp add: space_of_def walker_page_table_def)

lemma space_Err: "query E root v (mem w) = Err x \<Longrightarrow> space root w v = None"
  by (simp add: space_of_def walker_page_table_def)

lemma space_exact:
  assumes "tree_ok E live root w" "exact_mapped E root rg w"
  shows "in_range rg v \<Longrightarrow> space root w v \<noteq> None"
    "\<exists>mp. exact_query E root rg (mem w) = Ok mp \<and>
       (\<forall>v. in_range rg v \<longrightarrow> space root w v = Some (m_paddr mp + (v - rng_start rg), m_flags mp))"
proof -
  from assms(2) obtain mp where q: "exact_query E root rg (mem w) = Ok mp"
    by (auto simp: exact_mapped_query)
  then have r: "m_range mp = rg" by (simp add: exact_query_Ok)
  from exact_query_check [OF assms(1) q] have all: "\<And>v. in_range rg v \<Longrightarrow> query E root v (mem w) = Ok mp"
    by blast
  then show "in_range rg v \<Longrightarrow> space root w v \<noteq> None" by (simp add: space_Ok)
  show "\<exists>mp. exact_query E root rg (mem w) = Ok mp \<and>
       (\<forall>v. in_range rg v \<longrightarrow> space root w v = Some (m_paddr mp + (v - rng_start rg), m_flags mp))"
    using q all r by (auto simp: space_Ok)
qed

lemma space_map_range:
  assumes "maps_range E root (rng_start rg) n g f w w'"
  shows "space root w' = space_map rg n g f (space root w)"
    "unat (rng_start rg) \<le> unat v \<and> unat v < unat (rng_start rg) + n \<Longrightarrow> space root w v = None"
proof -
  show "space root w' = space_map rg n g f (space root w)"
  proof
    fix v
    show "space root w' v = space_map rg n g f (space root w) v"
    proof (cases "unat (rng_start rg) \<le> unat v \<and> unat v < unat (rng_start rg) + n")
      case True
      then have "resolve E root v (mem w') = Ok (g (unat v - unat (rng_start rg)), f)"
        using assms unfolding maps_range_def by meson
      then show ?thesis using True by (simp add: space_resolve space_map_def)
    next
      case False
      then have "query E root v (mem w') = query E root v (mem w)"
        using assms unfolding maps_range_def by meson
      then show ?thesis unfolding space_map_def if_not_P [OF False] by (rule space_query)
    qed
  qed
  show "unat (rng_start rg) \<le> unat v \<and> unat v < unat (rng_start rg) + n \<Longrightarrow> space root w v = None"
    using assms unfolding maps_range_def by (metis space_Err)
qed

lemma step_map:
  assumes ok: "tree_ok E live root w" and legal: "op_legal (e_addr E) flags_ok (TMap rg src flags)"
    and run: "walker_map E root rg src flags w = (r, w')"
  shows "tree_ok E live root w' \<and> space_step (e_addr E) norm (TMap rg src flags) r (space root w) (space root w')"
proof -
  obtain b where b: "flags_ok (mf_leaf flags)" "range_ok rg" "backing_ok b"
    "into_map_backing (e_addr E) src (range_size (e_addr E) rg) = Ok b"
    using legal by (auto split: res.splits)
  from walker_map_spec [OF ok b run] obtain n where n: "n \<le> unat (range_size (e_addr E) rg)"
    "maps_range E root (rng_start rg) n (backing_paddr (e_addr E) b) (norm (mf_leaf flags)) w w'"
    "r = Ok () \<Longrightarrow> n = unat (range_size (e_addr E) rg)" "r \<noteq> Panic" "tree_ok E live root w'" by blast
  have e: "unat (rng_end rg) = unat (rng_start rg) + unat (range_size (e_addr E) rg)"
    by (rule range_end_nat [OF addr_ok b(2)])
  note m = space_map_range [OF n(2)]
  show ?thesis
  proof (cases r)
    case (Ok u)
    then have "n = unat (range_size (e_addr E) rg)" using n(3) by simp
    then show ?thesis using n(5) m b(4) e Ok
      by (auto simp: space_step_def in_range_def word_le_nat_alt word_less_nat_alt)
  next
    case (Err x)
    then show ?thesis using n(1,5) m b(4) by (auto simp: space_step_def)
  qed (use n(4) in simp)
qed

lemma step_remap:
  assumes ok: "tree_ok E live root w" and f: "flags_ok flags"
    and run: "remap E root rg p flags w = (r, w')"
  shows "tree_ok E live root w' \<and>
    space_step (e_addr E) norm (TRemap rg p flags) (bind_res r (\<lambda>_. Ok ())) (space root w) (space root w')"
proof -
  obtain r1 w1 where n: "remap_no_flush E root rg p flags w = (r1, w1)" by fastforce
  from remap_no_flush_spec [OF ok f n] show ?thesis
  proof (elim conjE disjE, goal_cases)
    case 1
    then have "r = Ok (mapping_new rg p flags)" "mem w' = mem w1" "tree_ok E live root w'"
      using run n by (auto simp: remap_def flush_leaf_range_state)
    moreover from this have "space root w' v = space_exec (e_addr E) norm (TRemap rg p flags) (space root w) v" for v
      using 1 by (auto simp: space_Ok mapping_new_def intro: space_query)
    ultimately show ?case using space_exact(1) [OF ok 1(4)] by (auto simp: space_step_def)
  next
    case 2
    then show ?case using run n ok by (auto simp: remap_def space_step_def)
  qed
qed

lemma step_protect:
  assumes ok: "tree_ok E live root w" and f: "flags_ok flags"
    and run: "protect E root rg flags w = (r, w')"
  shows "tree_ok E live root w' \<and>
    space_step (e_addr E) norm (TProtect rg flags) (bind_res r (\<lambda>_. Ok ())) (space root w) (space root w')"
proof -
  obtain r1 w1 where n: "protect_no_flush E root rg flags w = (r1, w1)" by fastforce
  from protect_no_flush_spec [OF ok f n] consider
      (edited) mp where "tree_ok E live root w1" "query E root (rng_start rg) (mem w) = Ok mp" "m_range mp = rg"
        "r1 = Ok (mapping_new rg (m_paddr mp) flags)"
        "\<And>v. query E root v (mem w1) =
          (if in_range rg v then Ok (mapping_new rg (m_paddr mp) (norm flags)) else query E root v (mem w))"
    | (failed) x where "r1 = Err x" "w1 = w" by blast
  then show ?thesis
  proof cases
    case edited
    then have r: "r = r1" "mem w' = mem w1" "tree_ok E live root w'"
      using run n by (auto simp: protect_def flush_leaf_range_state)
    have "exact_mapped E root rg w" using edited by (auto simp: exact_mapped_def)
    note ex = space_exact [OF ok this]
    from ex(2) edited(2) have sp: "\<And>v. in_range rg v \<Longrightarrow>
        space root w v = Some (m_paddr mp + (v - rng_start rg), m_flags mp)"
      by (auto simp: exact_query_Ok)
    have "space root w' v = space_exec (e_addr E) norm (TProtect rg flags) (space root w) v" for v
      using r edited(5) sp by (auto simp: space_Ok mapping_new_def intro: space_query)
    then show ?thesis using r edited(4) ex(1) by (auto simp: space_step_def)
  next
    case failed
    then show ?thesis using run n ok by (auto simp: protect_def space_step_def)
  qed
qed

lemma step_unmap:
  assumes ok: "tree_ok E live root w" and run: "unmap E root rg w = (r, w')"
  shows "tree_ok E live root w' \<and>
    space_step (e_addr E) norm (TUnmap rg) (bind_res r (\<lambda>_. Ok ())) (space root w) (space root w')"
proof -
  obtain r1 w1 where n: "unmap_no_flush E root rg w = (r1, w1)" by fastforce
  from unmap_no_flush_spec [OF ok n] total consider
      (edited) mp where "tree_ok E live root w1" "query E root (rng_start rg) (mem w) = Ok mp" "m_range mp = rg"
        "r1 = Ok mp" "\<And>v. query E root v (mem w1) = (if in_range rg v then Err NotMapped else query E root v (mem w))"
    | (failed) x where "r1 = Err x" "w1 = w" by blast
  then show ?thesis
  proof cases
    case edited
    then have r: "r = r1" "mem w' = mem w1" "tree_ok E live root w'"
      using run n by (auto simp: unmap_def flush_leaf_range_state)
    have "exact_mapped E root rg w" using edited by (auto simp: exact_mapped_def)
    note ex = space_exact(1) [OF ok this]
    have "space root w' v = space_exec (e_addr E) norm (TUnmap rg) (space root w) v" for v
      using r edited(5) by (auto simp: space_Err intro: space_query)
    then show ?thesis using r edited(4) ex by (auto simp: space_step_def)
  next
    case failed
    then show ?thesis using run n ok by (auto simp: unmap_def space_step_def)
  qed
qed

lemma step_split:
  assumes ok: "tree_ok E live root w" and run: "split_at E root rg w = (r, w')"
  shows "tree_ok E live root w' \<and>
    space_step (e_addr E) norm (TSplit rg) (bind_res r (\<lambda>_. Ok ())) (space root w) (space root w')"
proof -
  note sp = split_at_spec [OF ok run]
  have "space root w' = space root w" using sp by (auto simp: space_resolve)
  then show ?thesis using sp space_exact(1) [OF ok, of rg]
    by (cases r) (auto simp: space_step_def)
qed

lemma step_merge:
  assumes ok: "tree_ok E live root w" and run: "merge_at E root rg w = (r, w')"
  shows "tree_ok E live root w' \<and>
    space_step (e_addr E) norm (TMerge rg) (bind_res r (\<lambda>_. Ok ())) (space root w) (space root w')"
proof -
  note sp = merge_at_spec [OF ok run, unfolded merge_ok_def]
  have eq: "space root w' = space root w" using sp by (auto simp: space_resolve)
  have "space root w v \<noteq> None" if "r = Ok sz" "in_range rg v" for sz v
    using sp that space_Ok [of root v w'] unfolding eq [symmetric] by auto
  then show ?thesis using sp eq by (cases r) (auto simp: space_step_def)
qed

end

sublocale reliable_walker < walker_api: page_table "walker_page_table E" "e_addr E" flags_ok norm "table_valid E live"
proof (unfold_locales, goal_cases)
  case (1 p op r p')
  obtain root w where p: "p = (root, w)" by (cases p)
  have ok: "tree_ok E live root w" using 1(1) by (simp add: p table_valid_def)
  show ?case
  proof (cases op)
    case (TMap rg src flags)
    then show ?thesis using 1(2,3) step_map [OF ok, of rg src flags]
      by (auto simp: p table_valid_def walker_page_table_def map_prod_def split: prod.splits)
  next
    case (TRemap rg pa flags)
    then show ?thesis using 1(2,3) step_remap [OF ok, of flags rg pa]
      by (auto simp: p table_valid_def walker_page_table_def forget_def map_prod_def split: prod.splits)
  next
    case (TProtect rg flags)
    then show ?thesis using 1(2,3) step_protect [OF ok, of flags rg]
      by (auto simp: p table_valid_def walker_page_table_def forget_def map_prod_def split: prod.splits)
  next
    case (TUnmap rg)
    then show ?thesis using 1(3) step_unmap [OF ok, of rg]
      by (auto simp: p table_valid_def walker_page_table_def forget_def map_prod_def split: prod.splits)
  next
    case (TSplit rg)
    then show ?thesis using 1(3) step_split [OF ok, of rg]
      by (auto simp: p table_valid_def walker_page_table_def forget_def map_prod_def split: prod.splits)
  next
    case (TMerge rg)
    then show ?thesis using 1(3) step_merge [OF ok, of rg]
      by (auto simp: p table_valid_def walker_page_table_def forget_def map_prod_def split: prod.splits)
  qed
qed

context reliable_walker
begin

text \<open>A program over the trait, run by the walker.\<close>

lemma table_run_refines:
  assumes "tree_ok E live root w" "\<forall>op\<in>set ops. op_legal (e_addr E) flags_ok op"
    and "table_run PT ops (root, w) = (rs, (root', w'))"
  shows "root' = root \<and> tree_ok E live root w' \<and>
    space_run (e_addr E) norm ops rs (space root w) (space root w')"
proof -
  have "table_valid E live (root, w)" using assms(1) by (simp add: table_valid_def)
  moreover have "pt_root PT p = fst p" for p by (simp add: walker_page_table_def)
  ultimately show ?thesis
    using walker_api.run_spec [OF _ assms(2,3)] by (auto simp: table_valid_def)
qed

end

end
