(* ===== verification/EntryForms.thy ===== *)
theory EntryForms
  imports Lifecycle PageTableApi
begin

text \<open>
  The bits of the table entries. Every entry that the walker leaves in a table is absent, or the leaf
  that the entry type builds for a supported size, or the pointer it builds for a table of the next
  level; and no table is pointed at twice. The operations keep this, and it is what a page walk of the
  hardware, which looks at more bits than the walker does, needs to know.
\<close>

section \<open>Frames with their levels\<close>

type_synonym frame_levels = "paddr \<rightharpoonup> nat"

definition formed :: "('f, 's, 'h) env \<Rightarrow> ('f \<Rightarrow> bool) \<Rightarrow> frame_levels \<Rightarrow> nat \<Rightarrow> u64 \<Rightarrow> bool" where
  "formed E flags_ok S l e \<longleftrightarrow>
     \<not> is_present (e_pte E) e \<or>
     (\<exists>p f sz. level_supports_leaf (e_meta E) l sz \<and> is_aligned sz p \<and> paddr_is_valid (e_meta E) p \<and>
        flags_ok f \<and> e = new_leaf (e_pte E) p f sz) \<or>
     (\<exists>p. 1 < l \<and> S p = Some (l - 1) \<and> e = new_table (e_pte E) p l)"

text \<open>Entry \<open>i\<close> of the table \<open>f\<close> points at the table \<open>g\<close>.\<close>

definition refers :: "('f, 's, 'h) env \<Rightarrow> memory \<Rightarrow> frame_levels \<Rightarrow> paddr \<Rightarrow> nat \<Rightarrow> paddr \<Rightarrow> bool" where
  "refers E m S f i g \<longleftrightarrow> i < ENTRIES_PER_TABLE (e_meta E) \<and>
     (\<exists>l. S f = Some l \<and> child E l (read_entry E m f i) = Some g)"

definition forms_ok :: "('f, 's, 'h) env \<Rightarrow> ('f \<Rightarrow> bool) \<Rightarrow> ('s \<Rightarrow> paddr set) \<Rightarrow> frame_levels \<Rightarrow>
    ('s, 'h) world \<Rightarrow> bool" where
  "forms_ok E flags_ok live S w \<longleftrightarrow>
     dom S \<subseteq> live (astate w) \<and>
     (\<forall>f l. S f = Some l \<longrightarrow> frame_ok (e_meta E) f \<and> 1 \<le> l \<and> l \<le> LEVELS (e_meta E) \<and>
        (\<forall>i<ENTRIES_PER_TABLE (e_meta E). formed E flags_ok S l (read_entry E (mem w) f i))) \<and>
     (\<forall>f i f' i' g. refers E (mem w) S f i g \<longrightarrow> refers E (mem w) S f' i' g \<longrightarrow> f = f' \<and> i = i')"

lemma forms_okD:
  assumes "forms_ok E flags_ok live S w"
  shows "dom S \<subseteq> live (astate w)"
    and "S f = Some l \<Longrightarrow> frame_ok (e_meta E) f \<and> 1 \<le> l \<and> l \<le> LEVELS (e_meta E)"
    and "\<lbrakk>S f = Some l; i < ENTRIES_PER_TABLE (e_meta E)\<rbrakk> \<Longrightarrow> formed E flags_ok S l (read_entry E (mem w) f i)"
    and "\<lbrakk>refers E (mem w) S f i g; refers E (mem w) S f' i' g\<rbrakk> \<Longrightarrow> f = f' \<and> i = i'"
  using assms unfolding forms_ok_def by blast+

lemma formed_mono: "\<lbrakk>formed E flags_ok S l e; S \<subseteq>\<^sub>m S'\<rbrakk> \<Longrightarrow> formed E flags_ok S' l e"
  unfolding formed_def by (metis map_le_def domI)

lemma formed_absent: "\<not> is_present (e_pte E) e \<Longrightarrow> formed E flags_ok S l e"
  by (simp add: formed_def)

lemma forms_ok_cong:
  "\<lbrakk>mem w' = mem w; astate w' = astate w\<rbrakk> \<Longrightarrow> forms_ok E flags_ok live S w' = forms_ok E flags_ok live S w"
  by (simp add: forms_ok_def)

lemma forms_ok_flush [simp]: "forms_ok E flags_ok live S (flush_leaf_range E rg w) = forms_ok E flags_ok live S w"
  by (rule forms_ok_cong) (simp_all add: flush_leaf_range_state)

context walker
begin

abbreviation good :: "frame_levels \<Rightarrow> ('s, 'h) world \<Rightarrow> bool" where
  "good S w \<equiv> forms_ok E flags_ok live S w"

lemma table_child:
  assumes "1 < l" "l \<le> LEVELS (e_meta E)" "frame_ok (e_meta E) g"
  shows "child E l (new_table (e_pte E) g l) = Some g"
  using assms by (simp add: child_def table_present table_kind table_paddr frame_ok_def)

lemma formed_cases:
  assumes "good S w" "formed E flags_ok S l e" "1 \<le> l" "l \<le> LEVELS (e_meta E)"
  obtains (absent) "\<not> is_present (e_pte E) e" "child E l e = None"
  | (leaf) p f sz where "level_supports_leaf (e_meta E) l sz" "is_aligned sz p"
      "paddr_is_valid (e_meta E) p" "flags_ok f" "e = new_leaf (e_pte E) p f sz"
      "is_present (e_pte E) e" "entry_kind (e_pte E) e l = Leaf" "child E l e = None"
  | (table) g where "1 < l" "S g = Some (l - 1)" "e = new_table (e_pte E) g l"
      "is_present (e_pte E) e" "entry_kind (e_pte E) e l = Table" "pte_paddr (e_pte E) e = g" "child E l e = Some g"
proof -
  consider "\<not> is_present (e_pte E) e"
    | p f sz where "level_supports_leaf (e_meta E) l sz" "is_aligned sz p"
        "paddr_is_valid (e_meta E) p" "flags_ok f" "e = new_leaf (e_pte E) p f sz"
    | g where "1 < l" "S g = Some (l - 1)" "e = new_table (e_pte E) g l"
    using assms(2) unfolding formed_def by blast
  then show ?thesis
  proof cases
    case 1
    then show ?thesis by (intro absent) (simp_all add: child_def)
  next
    case (2 p f sz)
    then have k: "is_present (e_pte E) e" "entry_kind (e_pte E) e l = Leaf"
      using assms(3,4) by (simp_all add: leaf_present leaf_kind)
    show ?thesis by (rule leaf [OF 2 k]) (simp add: child_def k)
  next
    case (3 g)
    have fg: "frame_ok (e_meta E) g" using forms_okD(2) [OF assms(1) 3(2)] by simp
    show ?thesis
      using 3 assms(4) fg
      by (intro table [of g]) (simp_all add: table_child table_present table_kind table_paddr frame_ok_def)
  qed
qed

lemma good_child:
  assumes "good S w" "S f = Some l" "i < ENTRIES_PER_TABLE (e_meta E)" "child E l (read_entry E (mem w) f i) = Some g"
  shows "S g = Some (l - 1)" "1 < l" "refers E (mem w) S f i g"
proof -
  have fl: "formed E flags_ok S l (read_entry E (mem w) f i)" "1 \<le> l" "l \<le> LEVELS (e_meta E)"
    using forms_okD(2,3) [OF assms(1,2)] assms(3) by simp_all
  show "S g = Some (l - 1)" "1 < l"
    using assms(4) by (auto intro: formed_cases [OF assms(1) fl])
  show "refers E (mem w) S f i g" using assms(2-4) by (simp add: refers_def)
qed

lemma good_entry:
  assumes "good S w" "S f = Some l"
  shows "entry_kind (e_pte E) (read_entry E (mem w) f (index_at (e_meta E) l v)) l = Table \<Longrightarrow>
      is_present (e_pte E) (read_entry E (mem w) f (index_at (e_meta E) l v)) \<Longrightarrow>
      S (pte_paddr (e_pte E) (read_entry E (mem w) f (index_at (e_meta E) l v))) = Some (l - 1) \<and> 1 < l \<and>
      refers E (mem w) S f (index_at (e_meta E) l v) (pte_paddr (e_pte E) (read_entry E (mem w) f (index_at (e_meta E) l v)))"
    and "index_at (e_meta E) l v < ENTRIES_PER_TABLE (e_meta E)"
    and "frame_ok (e_meta E) f" "1 \<le> l" "l \<le> LEVELS (e_meta E)"
proof -
  show l: "frame_ok (e_meta E) f" "1 \<le> l" "l \<le> LEVELS (e_meta E)" using forms_okD(2) [OF assms] by simp_all
  then show i: "index_at (e_meta E) l v < ENTRIES_PER_TABLE (e_meta E)" by (simp add: index_at_less)
  assume k: "entry_kind (e_pte E) (read_entry E (mem w) f (index_at (e_meta E) l v)) l = Table"
    "is_present (e_pte E) (read_entry E (mem w) f (index_at (e_meta E) l v))"
  show "S (pte_paddr (e_pte E) (read_entry E (mem w) f (index_at (e_meta E) l v))) = Some (l - 1) \<and> 1 < l \<and>
      refers E (mem w) S f (index_at (e_meta E) l v) (pte_paddr (e_pte E) (read_entry E (mem w) f (index_at (e_meta E) l v)))"
    using good_child [OF assms i] k by (simp add: child_def)
qed

section \<open>The steps of the operations\<close>

lemma good_read_store:
  assumes "good S w" "S f = Some l" "i < ENTRIES_PER_TABLE (e_meta E)" "S h = Some k" "j < ENTRIES_PER_TABLE (e_meta E)"
  shows "read_entry E (mem (store E f i e w)) h j = (if h = f \<and> j = i then e else read_entry E (mem w) h j)"
proof -
  have "frame_ok (e_meta E) f" "frame_ok (e_meta E) h"
    using forms_okD(2) [OF assms(1)] assms(2,4) by blast+
  then have "updates E {f, h} f i e (mem w) (write_entry E (mem w) f i e)"
    using assms(3) by (intro store_updates) auto
  then show ?thesis using assms(5) by (simp add: updates_def store_def)
qed

lemma good_store:
  assumes ok: "good S w" and f: "S f = Some l" and i: "i < ENTRIES_PER_TABLE (e_meta E)"
    and e: "formed E flags_ok S l e"
    and sole: "\<And>g f' i'. \<lbrakk>child E l e = Some g; refers E (mem w) S f' i' g\<rbrakk> \<Longrightarrow> f' = f \<and> i' = i"
  shows "good S (store E f i e w)"
    and "refers E (mem (store E f i e w)) S f' i' g \<longleftrightarrow>
      (if f' = f \<and> i' = i then child E l e = Some g else refers E (mem w) S f' i' g)"
proof -
  note rd = good_read_store [OF ok f i]
  show r: "refers E (mem (store E f i e w)) S f' i' g \<longleftrightarrow>
      (if f' = f \<and> i' = i then child E l e = Some g else refers E (mem w) S f' i' g)" for f' i' g
    using f i rd [of f' _ i' e] by (auto simp: refers_def)
  have "formed E flags_ok S k (read_entry E (mem (store E f i e w)) h j)"
    if "S h = Some k" "j < ENTRIES_PER_TABLE (e_meta E)" for h k j
    using rd [OF that, of e] forms_okD(3) [OF ok that] e f that(1) by auto
  moreover have "f1 = f2 \<and> i1 = i2"
    if "refers E (mem (store E f i e w)) S f1 i1 g" "refers E (mem (store E f i e w)) S f2 i2 g" for f1 i1 f2 i2 g
  proof -
    note ref = that [unfolded r]
    consider "f1 = f \<and> i1 = i" "f2 = f \<and> i2 = i" | "f1 = f \<and> i1 = i" "\<not> (f2 = f \<and> i2 = i)"
      | "\<not> (f1 = f \<and> i1 = i)" "f2 = f \<and> i2 = i" | "\<not> (f1 = f \<and> i1 = i)" "\<not> (f2 = f \<and> i2 = i)"
      by blast
    then show ?thesis
    proof cases
      case 1
      then show ?thesis by simp
    next
      case c: 2
      have "child E l e = Some g" "refers E (mem w) S f2 i2 g" using ref by (simp_all only: c if_True if_False simp_thms)
      with sole show ?thesis using c by blast
    next
      case c: 3
      have "child E l e = Some g" "refers E (mem w) S f1 i1 g" using ref by (simp_all only: c if_True if_False simp_thms)
      with sole show ?thesis using c by blast
    next
      case 4
      then have "refers E (mem w) S f1 i1 g" "refers E (mem w) S f2 i2 g" using ref by (simp_all only: if_False)
      then show ?thesis by (rule forms_okD(4) [OF ok])
    qed
  qed
  ultimately show "good S (store E f i e w)"
    using forms_okD(1,2) [OF ok] unfolding forms_ok_def by (auto simp: store_def)
qed

lemma good_plain:
  assumes "good S w" "S f = Some l" "i < ENTRIES_PER_TABLE (e_meta E)"
    and "formed E flags_ok S l e" "child E l e = None"
  shows "good S (store E f i e w)"
    and "refers E (mem (store E f i e w)) S f' i' g \<longleftrightarrow> \<not> (f' = f \<and> i' = i) \<and> refers E (mem w) S f' i' g"
  using good_store [OF assms(1-4)] assms(5) by auto

lemma good_leaf:
  assumes "good S w" "S f = Some l" "level_supports_leaf (e_meta E) l sz"
    and "is_aligned sz p" "paddr_is_valid (e_meta E) p" "flags_ok flags"
  shows "formed E flags_ok S l (new_leaf (e_pte E) p flags sz)"
    "child E l (new_leaf (e_pte E) p flags sz) = None"
  using assms leaf_encoding(1) [OF assms(3) _ _ assms(4-6)] forms_okD(2) [OF assms(1,2)]
  unfolding formed_def by blast+

lemma good_host:
  assumes "good S w" "host_step E live w w'"
  shows "good S w'" "refers E (mem w') S f i g = refers E (mem w) S f i g"
proof -
  have rd: "read_entry E (mem w') f i = read_entry E (mem w) f i"
    if "S f = Some l" "i < ENTRIES_PER_TABLE (e_meta E)" for f l i
    using assms(2) that forms_okD(1) [OF assms(1)] unfolding host_step_def same_entries_def by blast
  show r: "refers E (mem w') S f i g = refers E (mem w) S f i g" for f i g
    using rd by (auto simp: refers_def)
  show "good S w'"
    using assms unfolding forms_ok_def host_step_def by (auto simp: rd r)
qed

lemma good_alloc:
  assumes "good S w" "alloc_table_frame E w = (Ok g, w')" "1 \<le> l" "l \<le> LEVELS (e_meta E)"
  shows "S g = None" "good (S(g \<mapsto> l)) w'" "\<not> refers E (mem w') (S(g \<mapsto> l)) f i g"
    "S \<subseteq>\<^sub>m S(g \<mapsto> l)"
proof -
  note a = alloc_table_frame_spec [OF assms(2)]
  have g: "g \<notin> live (astate w)" "g \<in> live (astate w')" "frame_ok (e_meta E) g"
    and z: "\<And>i. i < ENTRIES_PER_TABLE (e_meta E) \<Longrightarrow> read_entry E (mem w') g i = 0"
    using a(3) [OF refl] by auto
  note h = good_host [OF assms(1) a(2)]
  show n: "S g = None" using g(1) forms_okD(1) [OF assms(1)] by blast
  then show le: "S \<subseteq>\<^sub>m S(g \<mapsto> l)" by (auto simp: map_le_def)
  have r: "refers E (mem w') (S(g \<mapsto> l)) f i d \<Longrightarrow> f \<noteq> g \<and> refers E (mem w') S f i d" for f i d
    using z by (auto simp: refers_def zero_child split: if_splits)
  show "\<not> refers E (mem w') (S(g \<mapsto> l)) f i g"
  proof
    assume "refers E (mem w') (S(g \<mapsto> l)) f i g"
    then obtain k where "i < ENTRIES_PER_TABLE (e_meta E)" "S f = Some k" "child E k (read_entry E (mem w') f i) = Some g"
      using r unfolding refers_def by blast
    then have "S g = Some (k - 1)" using good_child [OF h(1)] by blast
    then show False using n by simp
  qed
  have "formed E flags_ok (S(g \<mapsto> l)) k (read_entry E (mem w') f i)"
    if "(S(g \<mapsto> l)) f = Some k" "i < ENTRIES_PER_TABLE (e_meta E)" for f k i
  proof (cases "f = g")
    case True
    then show ?thesis using z [OF that(2)] by (simp add: formed_absent zero_absent)
  next
    case False
    then have "S f = Some k" using that(1) by simp
    from formed_mono [OF forms_okD(3) [OF h(1) this that(2)] le] show ?thesis .
  qed
  moreover have "f = f' \<and> i = i'"
    if "refers E (mem w') (S(g \<mapsto> l)) f i d" "refers E (mem w') (S(g \<mapsto> l)) f' i' d" for f i f' i' d
    using forms_okD(4) [OF h(1)] r [OF that(1)] r [OF that(2)] by blast
  ultimately show "good (S(g \<mapsto> l)) w'"
    using forms_okD(1,2) [OF h(1)] g(2,3) assms(3,4) unfolding forms_ok_def by (auto split: if_splits)
qed

lemma good_dealloc:
  assumes "good S w" "S g = Some k" "\<And>f i. \<not> refers E (mem w) S f i g"
    and "dealloc_table_frame E g w = (res, w')"
  shows "good (S(g := None)) w'"
    and "refers E (mem w') (S(g := None)) f i d \<longleftrightarrow> f \<noteq> g \<and> refers E (mem w) S f i d"
proof -
  have "frame_ok (e_meta E) g" using forms_okD(2) [OF assms(1,2)] by simp
  note d = dealloc_table_frame_spec(2) [OF assms(4) this, unfolded gives_back_def]
  have rd: "read_entry E (mem w') f i = read_entry E (mem w) f i"
    if "S f = Some l" "f \<noteq> g" "i < ENTRIES_PER_TABLE (e_meta E)" for f l i
    using d that forms_okD(1) [OF assms(1)] unfolding same_entries_def by blast
  show r: "refers E (mem w') (S(g := None)) f i d \<longleftrightarrow> f \<noteq> g \<and> refers E (mem w) S f i d" for f i d
    using rd by (auto simp: refers_def)
  have "formed E flags_ok (S(g := None)) l (read_entry E (mem w) f i)"
    if f: "S f = Some l" "i < ENTRIES_PER_TABLE (e_meta E)" for f l i
  proof -
    have l: "1 \<le> l" "l \<le> LEVELS (e_meta E)" using forms_okD(2) [OF assms(1) f(1)] by simp_all
    show ?thesis
    proof (rule formed_cases [OF assms(1) forms_okD(3) [OF assms(1) f] l])
      fix h assume h: "1 < l" "S h = Some (l - 1)" "read_entry E (mem w) f i = new_table (e_pte E) h l"
        "child E l (read_entry E (mem w) f i) = Some h"
      then have "h \<noteq> g" using assms(3) [of f i] f by (auto simp: refers_def)
      then show ?thesis using h unfolding formed_def by auto
    qed (auto simp: formed_def)
  qed
  then have "formed E flags_ok (S(g := None)) l (read_entry E (mem w') f i)"
    if "(S(g := None)) f = Some l" "i < ENTRIES_PER_TABLE (e_meta E)" for f l i
    using that rd by (auto split: if_splits)
  moreover have "dom (S(g := None)) \<subseteq> live (astate w')" using d forms_okD(1) [OF assms(1)] by auto
  ultimately show "good (S(g := None)) w'"
    using forms_okD(2,4) [OF assms(1)] unfolding forms_ok_def r by (auto split: if_splits)
qed

end

end
