(* ===== verification/FormOps.thy ===== *)
theory FormOps
  imports EntryForms
begin

text \<open>
  Every operation of the walker, of a cursor and of the trait keeps the entries of the tables formed, on
  every result, errors included.
\<close>

text \<open>Some set of frames, with the root on top, is formed.\<close>

definition well_formed :: "('f, 's, 'h) env \<Rightarrow> ('f \<Rightarrow> bool) \<Rightarrow> ('s \<Rightarrow> paddr set) \<Rightarrow> paddr \<Rightarrow>
    ('s, 'h) world \<Rightarrow> bool" where
  "well_formed E flags_ok live root w \<longleftrightarrow>
     (\<exists>S. S root = Some (LEVELS (e_meta E)) \<and> forms_ok E flags_ok live S w)"

lemma well_formed_flush [simp]:
  "well_formed E flags_ok live root (flush_leaf_range E rg w) = well_formed E flags_ok live root w"
  by (simp add: well_formed_def)

context walker
begin

lemma good_empty: "good Map.empty w"
  by (simp add: forms_ok_def refers_def)

lemma try_new_good:
  assumes "try_new E w = (Ok root, w')"
  shows "well_formed E flags_ok live root w'"
proof -
  have "alloc_table_frame E w = (Ok root, w')" using assms by (simp add: try_new_def assert_layout)
  from good_alloc(2) [OF good_empty this levels_pos order.refl] show ?thesis
    unfolding well_formed_def by (intro exI [of _ "[root \<mapsto> LEVELS (e_meta E)]"]) simp
qed

section \<open>Mapping one leaf\<close>

text \<open>A new table, filled or not, is hung into an absent entry or in place of a leaf.\<close>

lemma good_hang:
  assumes ok: "good S w" and f: "S f = Some (Suc l)" "i < ENTRIES_PER_TABLE (e_meta E)"
    and g: "S g = Some l" "\<And>f i. \<not> refers E (mem w) S f i g" "f \<noteq> g"
  shows "good S (store E f i (new_table (e_pte E) g (Suc l)) w)"
proof (rule good_store(1) [OF ok f])
  have l: "1 \<le> l" "Suc l \<le> LEVELS (e_meta E)" using forms_okD(2) [OF ok] f(1) g(1) by blast+
  then show "formed E flags_ok S (Suc l) (new_table (e_pte E) g (Suc l))"
    using g(1) unfolding formed_def by auto
  have "frame_ok (e_meta E) g" using forms_okD(2) [OF ok g(1)] by simp
  then have c: "child E (Suc l) (new_table (e_pte E) g (Suc l)) = Some g"
    using l by (intro table_child) simp_all
  show "f' = f \<and> i' = i" if "child E (Suc l) (new_table (e_pte E) g (Suc l)) = Some h" "refers E (mem w) S f' i' h" for h f' i'
    using that g(2) [of f' i'] by (simp add: c)
qed

lemma good_grow:
  assumes ok: "good S w" and f: "S cur = Some (Suc l)" and l: "1 \<le> l"
    and a: "alloc_table_frame E w = (Ok g, w1)" and i: "i < ENTRIES_PER_TABLE (e_meta E)"
  shows "good (S(g \<mapsto> l)) (store E cur i (new_table (e_pte E) g (Suc l)) w1)" "S \<subseteq>\<^sub>m S(g \<mapsto> l)"
proof -
  have "l \<le> LEVELS (e_meta E)" using forms_okD(2) [OF ok f] by simp
  note n = good_alloc [OF ok a l this]
  have "cur \<noteq> g" using f n(1) by auto
  then show "good (S(g \<mapsto> l)) (store E cur i (new_table (e_pte E) g (Suc l)) w1)"
    using n(2,3) f i by (intro good_hang) simp_all
  show "S \<subseteq>\<^sub>m S(g \<mapsto> l)" by (rule n(4))
qed

lemma alloc_error_good:
  "\<lbrakk>good S w; alloc_table_frame E w = (r, w'); \<forall>g. r \<noteq> Ok g\<rbrakk> \<Longrightarrow> good S w'"
  using good_host(1) alloc_table_frame_spec(2) by blast

lemma map_descend_good:
  assumes "good S w" "S cur = Some l" "1 \<le> target" "target \<le> l" "map_descend E target v l cur w = (res, w')"
  shows "\<exists>S'. S \<subseteq>\<^sub>m S' \<and> good S' w' \<and> (\<forall>c k. res = Ok (c, k) \<longrightarrow> k = target \<and> S' c = Some target)"
  using assms
proof (induction l arbitrary: S cur w)
  case 0
  then show ?case by simp
next
  case (Suc l)
  let ?i = "index_at (e_meta E) (Suc l) v"
  let ?e = "read_entry E (mem w) cur ?i"
  note ge = good_entry(1,2) [OF Suc.prems(1,2), where v = v]
  show ?case
  proof (cases "target < Suc l")
    case False
    then have "target = Suc l" using Suc.prems(4) by simp
    then show ?thesis using Suc.prems by (intro exI [of _ S]) auto
  next
    case lt: True
    then have l: "1 \<le> l" "target \<le> l" using Suc.prems(3) by simp_all
    show ?thesis
    proof (cases "is_present (e_pte E) ?e")
      case p: True
      show ?thesis
      proof (cases "entry_kind (e_pte E) ?e (Suc l)")
        case Table
        then have "S (pte_paddr (e_pte E) ?e) = Some l" using ge(1) p by simp
        moreover have "map_descend E target v l (pte_paddr (e_pte E) ?e) w = (res, w')"
          using Suc.prems(5) lt p Table by (simp add: Let_def entry_is_leaf_def)
        ultimately show ?thesis using Suc.IH [OF Suc.prems(1) _ Suc.prems(3) l(2)] by blast
      qed (use Suc.prems lt p in \<open>auto simp: Let_def entry_is_leaf_def intro!: exI [of _ S]\<close>)
    next
      case p: False
      obtain ra w1 where a: "alloc_table_frame E w = (ra, w1)" by fastforce
      show ?thesis
      proof (cases ra)
        case (Ok g)
        note gr = good_grow [OF Suc.prems(1,2) l(1) a [unfolded Ok] ge(2)]
        have "map_descend E target v l g (store E cur ?i (new_table (e_pte E) g (Suc l)) w1) = (res, w')"
          using Suc.prems(5) lt p a Ok by (simp add: Let_def)
        from Suc.IH [OF gr(1) fun_upd_same Suc.prems(3) l(2) this] obtain S' where
          "S(g \<mapsto> l) \<subseteq>\<^sub>m S'" "good S' w'" "\<forall>c k. res = Ok (c, k) \<longrightarrow> k = target \<and> S' c = Some target"
          by blast
        with gr(2) show ?thesis using map_le_trans by blast
      next
        case (Err x)
        then have "w' = w1" "res = Err x" using Suc.prems(5) lt p a by (simp_all add: Let_def)
        then show ?thesis using alloc_error_good [OF Suc.prems(1) a] Err by (intro exI [of _ S]) simp
      next
        case Panic
        then show ?thesis using alloc_table_frame_spec(1) [OF a] by simp
      qed
    qed
  qed
qed

lemma good_install:
  assumes "good S w" "S cur = Some t" "level_supports_leaf (e_meta E) t sz"
    and "is_aligned sz p" "paddr_is_valid (e_meta E) p" "flags_ok flags"
  shows "good S (store E cur (index_at (e_meta E) t v) (new_leaf (e_pte E) p flags sz) w)"
  using good_plain(1) [OF assms(1,2) good_entry(2) [OF assms(1,2)] good_leaf [OF assms]] .

lemma map_leaf_direct_good:
  assumes "good S w" "S root = Some (LEVELS (e_meta E))"
    and "level_supports_leaf (e_meta E) target sz" "1 \<le> target" "target \<le> LEVELS (e_meta E)"
    and p: "is_aligned sz p" "paddr_is_valid (e_meta E) p" "flags_ok flags"
    and run: "map_leaf_direct_sized_no_flush E root rg p flags sz target w = (res, w')"
  shows "\<exists>S'. S \<subseteq>\<^sub>m S' \<and> good S' w'"
proof -
  obtain rd w1 where d: "map_descend E target (rng_start rg) (LEVELS (e_meta E)) root w = (rd, w1)" by fastforce
  from map_descend_good [OF assms(1,2,4,5) d] obtain S' where
    S': "S \<subseteq>\<^sub>m S'" "good S' w1" "\<And>c k. rd = Ok (c, k) \<Longrightarrow> k = target \<and> S' c = Some target" by blast
  have "good S' w'"
  proof (cases rd)
    case (Ok ck)
    then obtain c where "rd = Ok (c, target)" "S' c = Some target" using S'(3) by (cases ck) auto
    then show ?thesis
      using run d good_install [OF S'(2) _ assms(3) p] S'(2)
      by (auto simp: map_leaf_direct_sized_no_flush_def install_leaf_def Let_def split: if_splits)
  qed (use run d S'(2) in \<open>simp_all add: map_leaf_direct_sized_no_flush_def\<close>)
  with S'(1) show ?thesis by blast
qed

section \<open>One existing leaf\<close>

lemma find_leaf_good:
  "\<lbrakk>good S w; S cur = Some l; find_leaf E (mem w) l cur v = Ok (t, c, e)\<rbrakk> \<Longrightarrow>
     S c = Some t \<and> e = read_entry E (mem w) c (index_at (e_meta E) t v) \<and>
     is_present (e_pte E) e \<and> entry_kind (e_pte E) e t = Leaf"
proof (induction l arbitrary: cur)
  case 0
  then show ?case by simp
next
  case (Suc l)
  let ?e = "read_entry E (mem w) cur (index_at (e_meta E) (Suc l) v)"
  show ?case
  proof (cases "is_present (e_pte E) ?e \<and> entry_kind (e_pte E) ?e (Suc l) = Table")
    case True
    then have "S (pte_paddr (e_pte E) ?e) = Some l" "find_leaf E (mem w) l (pte_paddr (e_pte E) ?e) v = Ok (t, c, e)"
      using good_entry(1) [OF Suc.prems(1,2), where v = v] Suc.prems(3)
      by (simp_all add: Let_def entry_is_leaf_def)
    then show ?thesis by (rule Suc.IH [OF Suc.prems(1)])
  next
    case False
    then show ?thesis using Suc.prems
      by (cases "entry_kind (e_pte E) ?e (Suc l)") (auto simp: Let_def entry_is_leaf_def split: if_splits)
  qed
qed

lemma formed_leaf:
  assumes "good S w" "S c = Some t" "e = read_entry E (mem w) c (index_at (e_meta E) t v)"
    and "is_present (e_pte E) e" "entry_kind (e_pte E) e t = Leaf"
  obtains p f sz where "level_supports_leaf (e_meta E) t sz" "leaf_size_at_level (e_meta E) t = Some sz"
    "is_aligned sz p" "paddr_is_valid (e_meta E) p" "flags_ok f" "e = new_leaf (e_pte E) p f sz"
    "pte_paddr (e_pte E) e = p" "pte_flags (e_pte E) e = norm f" "child E t e = None"
proof -
  note ge = good_entry(4,5) [OF assms(1,2)]
  have fe: "formed E flags_ok S t e"
    using forms_okD(3) [OF assms(1,2) good_entry(2) [OF assms(1,2)]] by (simp add: assms(3))
  show ?thesis
  proof (rule formed_cases [OF assms(1) fe ge])
    fix p f sz
    assume l: "level_supports_leaf (e_meta E) t sz" "is_aligned sz p" "paddr_is_valid (e_meta E) p" "flags_ok f"
      "e = new_leaf (e_pte E) p f sz" "child E t e = None"
    show ?thesis
      using leaf_encoding(4) [OF l(1) ge l(2-4)] leaf_paddr [OF l(1-3)] leaf_flags l by (intro that) simp_all
  qed (use assms(4,5) in simp_all)
qed

lemma formed_leaf_paddr:
  assumes "good S w" "S c = Some t" "e = read_entry E (mem w) c (index_at (e_meta E) t v)"
    and "is_present (e_pte E) e" "entry_kind (e_pte E) e t = Leaf" "leaf_size_at_level (e_meta E) t = Some sz"
  shows "is_aligned sz (pte_paddr (e_pte E) e)" "paddr_is_valid (e_meta E) (pte_paddr (e_pte E) e)"
  by (rule formed_leaf [OF assms(1-5)]; use assms(6) in simp)+

lemma exact_leaf_slot_good:
  assumes "good S w" "S root = Some (LEVELS (e_meta E))" "exact_leaf_slot E root rg (mem w) = Ok (c, i, e, sz)"
  obtains t where "S c = Some t" "i = index_at (e_meta E) t (rng_start rg)" "level_supports_leaf (e_meta E) t sz"
    "is_aligned sz (pte_paddr (e_pte E) e)" "paddr_is_valid (e_meta E) (pte_paddr (e_pte E) e)"
proof -
  obtain t where fl: "find_leaf E (mem w) (LEVELS (e_meta E)) root (rng_start rg) = Ok (t, c, e)"
    and r: "leaf_size_at_level (e_meta E) t = Some sz" "i = index_at (e_meta E) t (rng_start rg)"
    using assms(3)
    by (auto simp: exact_leaf_slot_def exact_leaf_walk_find check_vaddr_def bind_res_eq_Ok
        split: if_splits prod.splits)
  note f = find_leaf_good [OF assms(1,2) fl]
  show ?thesis
    by (rule formed_leaf [OF assms(1), of c t e "rng_start rg"]) (use f r that in auto)
qed

lemma remap_good:
  assumes "good S w" "S root = Some (LEVELS (e_meta E))" "flags_ok flags"
    and "remap_no_flush E root rg p flags w = (res, w')"
  shows "good S w'"
proof (cases "exact_leaf_slot E root rg (mem w)")
  case (Ok slot)
  obtain c i e sz where s: "slot = (c, i, e, sz)" by (cases slot) auto
  obtain t where t: "S c = Some t" "i = index_at (e_meta E) t (rng_start rg)" "level_supports_leaf (e_meta E) t sz"
    using exact_leaf_slot_good [OF assms(1,2) Ok [unfolded s]] by blast
  show ?thesis
    using assms(1,4) Ok good_install [OF assms(1) t(1,3)] assms(3)
    by (auto simp: remap_no_flush_def check_paddr_def s t(2) split: if_splits)
qed (use assms in \<open>auto simp: remap_no_flush_def check_paddr_def split: if_splits\<close>)

lemma protect_good:
  assumes "good S w" "S root = Some (LEVELS (e_meta E))" "flags_ok flags"
    and "protect_no_flush E root rg flags w = (res, w')"
  shows "good S w'"
proof (cases "exact_leaf_slot E root rg (mem w)")
  case (Ok slot)
  obtain c i e sz where s: "slot = (c, i, e, sz)" by (cases slot) auto
  obtain t where t: "S c = Some t" "i = index_at (e_meta E) t (rng_start rg)" "level_supports_leaf (e_meta E) t sz"
    "is_aligned sz (pte_paddr (e_pte E) e)" "paddr_is_valid (e_meta E) (pte_paddr (e_pte E) e)"
    using exact_leaf_slot_good [OF assms(1,2) Ok [unfolded s]] by blast
  show ?thesis
    using assms(1,4) Ok good_install [OF assms(1) t(1,3-5) assms(3), of "rng_start rg"]
    by (auto simp: protect_no_flush_def s t(2) Let_def)
qed (use assms in \<open>auto simp: protect_no_flush_def\<close>)

end

end
