(* ===== verification/FormTables.thy ===== *)
theory FormTables
  imports FormOps
begin

text \<open>
  The operations that remove tables keep the entries formed: what they hand back is a table that no
  entry points at any more.
\<close>

section \<open>Unmap\<close>

text \<open>The stack of parents: each points at the table below it.\<close>

fun path_ok :: "('f, 's, 'h) env \<Rightarrow> memory \<Rightarrow> frame_levels \<Rightarrow> paddr \<Rightarrow> (paddr \<times> nat) list \<Rightarrow> bool" where
  "path_ok E m S c [] = True"
| "path_ok E m S c ((p, i) # ps) \<longleftrightarrow> refers E m S p i c \<and> path_ok E m S p ps"

lemma path_ok_cong:
  "\<lbrakk>path_ok E m S c ps; \<And>p i d. \<lbrakk>(p, i) \<in> set ps; refers E m S p i d\<rbrakk> \<Longrightarrow> refers E m' S' p i d\<rbrakk> \<Longrightarrow>
     path_ok E m' S' c ps"
  by (induction E m S c ps rule: path_ok.induct) auto

context walker
begin

lemma refers_level:
  assumes "good S w" "refers E (mem w) S p i c"
  obtains l where "S p = Some (Suc l)" "S c = Some l" "1 \<le> l" "Suc l \<le> LEVELS (e_meta E)"
    "i < ENTRIES_PER_TABLE (e_meta E)" "p \<noteq> c"
proof -
  obtain k where k: "S p = Some k" "i < ENTRIES_PER_TABLE (e_meta E)" "child E k (read_entry E (mem w) p i) = Some c"
    using assms(2) by (auto simp: refers_def)
  note g = good_child(1,2) [OF assms(1) k]
  show ?thesis
    by (rule that [of "k - 1"]) (use k g forms_okD(2) [OF assms(1) k(1)] in auto)
qed

lemma path_levels:
  "\<lbrakk>good S w; path_ok E (mem w) S c ps; S c = Some k; (p, i) \<in> set ps\<rbrakk> \<Longrightarrow> \<exists>l. S p = Some l \<and> k < l"
proof (induction ps arbitrary: c k)
  case (Cons a ps)
  obtain q j where a: "a = (q, j)" by (cases a)
  obtain l where l: "S q = Some (Suc l)" "S c = Some l"
    using refers_level [OF Cons.prems(1)] Cons.prems(2) unfolding a by force
  then show ?case
    using Cons.IH [OF Cons.prems(1) _ l(1)] Cons.prems(2-4) unfolding a by auto
qed simp

lemma cleared_formed: "formed E flags_ok S l (pte_clear (e_pte E) e)" "child E l (pte_clear (e_pte E) e) = None"
  by (simp_all add: formed_absent child_def clear_absent)

lemma unmap_descend_good:
  assumes "good S w" "S cur = Some l" "path_ok E (mem w) S cur parents"
    and "unmap_descend E rg l cur parents w = (res, w')"
  shows "good S w' \<and> (\<forall>mp c ps. res = Ok (mp, c, ps) \<longrightarrow> (\<exists>k. S c = Some k) \<and> path_ok E (mem w') S c ps)"
  using assms
proof (induction l arbitrary: cur parents)
  case 0
  then show ?case by simp
next
  case (Suc l)
  let ?i = "index_at (e_meta E) (Suc l) (rng_start rg)"
  let ?e = "read_entry E (mem w) cur ?i"
  note i = good_entry(2) [OF Suc.prems(1,2)]
  show ?case
  proof (cases "is_present (e_pte E) ?e")
    case False
    then show ?thesis using Suc.prems by auto
  next
    case p: True
    show ?thesis
    proof (cases "entry_kind (e_pte E) ?e (Suc l)")
      case Table
      then have t: "S (pte_paddr (e_pte E) ?e) = Some l" "refers E (mem w) S cur ?i (pte_paddr (e_pte E) ?e)"
        using good_entry(1) [OF Suc.prems(1,2), where v = "rng_start rg"] p by simp_all
      show ?thesis
      proof (cases "MAX_LEVELS \<le> length parents")
        case True
        then show ?thesis using Suc.prems p Table by (auto simp: Let_def entry_is_leaf_def)
      next
        case False
        then have "unmap_descend E rg l (pte_paddr (e_pte E) ?e) ((cur, ?i) # parents) w = (res, w')"
          using Suc.prems(4) p Table by (simp add: Let_def entry_is_leaf_def)
        from Suc.IH [OF Suc.prems(1) t(1) _ this] t(2) Suc.prems(3) show ?thesis by simp
      qed
    next
      case Leaf
      let ?w = "store E cur ?i (pte_clear (e_pte E) ?e) w"
      note st = good_plain [OF Suc.prems(1,2) i cleared_formed]
      have "path_ok E (mem ?w) S cur parents"
        by (rule path_ok_cong [OF Suc.prems(3)])
          (use st(2) path_levels [OF Suc.prems(1,3,2)] Suc.prems(2) in fastforce)
      then show ?thesis
        using Suc.prems st(1) p Leaf
        by (auto simp: Let_def entry_is_leaf_def bind_st_eq ok_or_def split: if_splits option.splits)
    next
      case Invalid
      then show ?thesis using Suc.prems p by (auto simp: Let_def entry_is_leaf_def)
    qed
  qed
qed

text \<open>Clearing the only entry that points at a table, and handing the table back.\<close>

lemma good_unhang:
  assumes ok: "good S w" and r: "refers E (mem w) S p i c" and l: "S p = Some l"
    and e: "formed E flags_ok S l e" "child E l e = None"
    and d: "dealloc_table_frame E c (store E p i e w) = (res, w')"
  shows "good (S(c := None)) w'"
    and "refers E (mem w') (S(c := None)) f j h \<longleftrightarrow> f \<noteq> c \<and> \<not> (f = p \<and> j = i) \<and> refers E (mem w) S f j h"
proof -
  obtain k where k: "S c = Some k" "i < ENTRIES_PER_TABLE (e_meta E)" using refers_level [OF ok r] by metis
  note st = good_plain [OF ok l k(2) e]
  have u: "\<not> refers E (mem (store E p i e w)) S f j c" for f j
    using st(2) forms_okD(4) [OF ok r] by blast
  note de = good_dealloc [OF st(1) k(1) u d]
  show "good (S(c := None)) w'" by (rule de(1))
  show "refers E (mem w') (S(c := None)) f j h \<longleftrightarrow> f \<noteq> c \<and> \<not> (f = p \<and> j = i) \<and> refers E (mem w) S f j h"
    unfolding de(2) st(2) by blast
qed

lemma reclaim_good:
  assumes "good S w" "S d = Some k" "path_ok E (mem w) S d parents"
    and "reclaim E parents d w = (res, w')"
  shows "\<exists>S'. good S' w' \<and> (\<forall>f. S f = Some (LEVELS (e_meta E)) \<longrightarrow> S' f = Some (LEVELS (e_meta E)))"
  using assms
proof (induction parents arbitrary: S d k w)
  case Nil
  then show ?case by auto
next
  case (Cons a ps)
  obtain p i where a: "a = (p, i)" by (cases a)
  have r: "refers E (mem w) S p i d" and path: "path_ok E (mem w) S p ps" using Cons.prems(3) a by simp_all
  obtain l where l: "S p = Some (Suc l)" "S d = Some l" "Suc l \<le> LEVELS (e_meta E)" "p \<noteq> d"
    using refers_level [OF Cons.prems(1) r] by metis
  show ?case
  proof (cases "is_table_empty E (mem w) d")
    case False
    then show ?thesis using Cons.prems a by auto
  next
    case True
    let ?z = "pte_clear (e_pte E) (pte_from_bits (e_pte E) 0)"
    obtain rd w1 where dl: "dealloc_table_frame E d (store E p i ?z w) = (rd, w1)" by fastforce
    note u = good_unhang [OF Cons.prems(1) r l(1) cleared_formed dl]
    have top: "S f = Some (LEVELS (e_meta E)) \<longrightarrow> (S(d := None)) f = Some (LEVELS (e_meta E))" for f
      using l(2,3) by auto
    show ?thesis
    proof (cases rd)
      case (Ok x)
      then have run: "reclaim E ps p w1 = (res, w')"
        using Cons.prems(4) True dl by (simp add: a Let_def)
      have p: "(S(d := None)) p = Some (Suc l)" using l(1,4) by simp
      have "path_ok E (mem w1) (S(d := None)) p ps"
      proof (rule path_ok_cong [OF path])
        fix q j h assume q: "(q, j) \<in> set ps" "refers E (mem w) S q j h"
        then obtain m where "S q = Some m" "Suc l < m" using path_levels [OF Cons.prems(1) path l(1)] by blast
        then have "q \<noteq> d" "q \<noteq> p" using l(1,2) by auto
        then show "refers E (mem w1) (S(d := None)) q j h" using q(2) by (simp add: u(2))
      qed
      from Cons.IH [OF u(1) p this run] top show ?thesis by blast
    next
      case (Err x)
      then have "w' = w1" using Cons.prems(4) True dl by (simp add: a Let_def)
      then show ?thesis using u(1) top by blast
    next
      case Panic
      then have "w' = w1" using Cons.prems(4) True dl by (simp add: a Let_def)
      then show ?thesis using u(1) top by blast
    qed
  qed
qed

lemma unmap_good:
  assumes "good S w" "S root = Some (LEVELS (e_meta E))" "unmap_no_flush E root rg w = (res, w')"
  shows "\<exists>S'. good S' w' \<and> (\<forall>f. S f = Some (LEVELS (e_meta E)) \<longrightarrow> S' f = Some (LEVELS (e_meta E)))"
proof -
  obtain rd w1 where d: "unmap_descend E rg (LEVELS (e_meta E)) root [] w = (rd, w1)" by fastforce
  note u = unmap_descend_good [OF assms(1,2) _ d]
  show ?thesis
  proof (cases "vaddr_is_valid (e_meta E) (rng_start rg) \<and> (\<exists>x. rd = Ok x)")
    case True
    then obtain mp c ps where rd: "rd = Ok (mp, c, ps)" by (metis prod_cases3)
    then obtain k where k: "S c = Some k" "path_ok E (mem w1) S c ps" "good S w1" using u by auto
    obtain rr w2 where r: "reclaim E ps c w1 = (rr, w2)" by fastforce
    have "w' = w2"
      using assms(3) True d rd r by (cases rr) (simp_all add: unmap_no_flush_def check_vaddr_def)
    with reclaim_good [OF k(3,1,2) r] show ?thesis by simp
  next
    case False
    then have "w' = w \<or> w' = w1"
      using assms(3) d by (cases rd) (auto simp: unmap_no_flush_def check_vaddr_def split: if_splits)
    then show ?thesis using u assms(1) by auto
  qed
qed

section \<open>Split\<close>

lemma split_fill_good:
  assumes p: "is_aligned sz lp" "paddr_is_valid (e_meta E) lp" "flags_ok flags"
    and s: "size_shift sz = size_shift fsz + INDEX_BITS (e_meta E)"
    and g: "S g = Some l" "level_supports_leaf (e_meta E) l fsz"
    and "good S w" "\<forall>i\<in>set is. i < ENTRIES_PER_TABLE (e_meta E)"
    and "split_fill E g lp flags fsz is w = (res, w')"
  shows "res = Ok () \<and> good S w' \<and> (\<forall>f i h. refers E (mem w') S f i h \<longrightarrow> refers E (mem w) S f i h)"
  using assms(7-)
proof (induction "is" arbitrary: w)
  case Nil
  then show ?case by simp
next
  case (Cons i "is")
  have i: "i < ENTRIES_PER_TABLE (e_meta E)" using Cons.prems(2) by simp
  note sub = sub_paddr [OF p(1,2) s i]
  let ?e = "new_leaf (e_pte E) (lp + of_nat i * bytes fsz) flags fsz"
  note st = good_plain [OF Cons.prems(1) g(1) i good_leaf [OF Cons.prems(1) g sub(3,4) p(3)]]
  have run: "split_fill E g lp flags fsz is (store E g i ?e w) = (res, w')"
    using Cons.prems(3) by (simp add: sub addr_add [OF addr_ok])
  from Cons.IH [OF st(1) _ run] Cons.prems(2) st(2) show ?case by auto
qed

lemma split_walk_good:
  assumes "good S w" "S cur = Some l" "split_walk E rg l cur w = (res, w')"
  shows "\<exists>S'. S \<subseteq>\<^sub>m S' \<and> good S' w'"
  using assms
proof (induction l arbitrary: cur)
  case 0
  then have "w' = w" by simp
  with 0 show ?case by (intro exI [of _ S]) simp
next
  case (Suc l)
  let ?i = "index_at (e_meta E) (Suc l) (rng_start rg)"
  let ?e = "read_entry E (mem w) cur ?i"
  let ?lp = "pte_paddr (e_pte E) ?e" and ?fl = "pte_flags (e_pte E) ?e"
  note i = good_entry(2) [OF Suc.prems(1,2)] and L = good_entry(5) [OF Suc.prems(1,2)]
  have stay: ?case if "w' = w" using that Suc.prems(1) by (intro exI [of _ S]) simp
  show ?case
  proof (cases "is_present (e_pte E) ?e")
    case False
    then show ?thesis using Suc.prems(3) by (intro stay) simp
  next
    case p: True
    show ?thesis
    proof (cases "entry_kind (e_pte E) ?e (Suc l)")
      case Table
      then have t: "S ?lp = Some l"
        using good_entry(1) [OF Suc.prems(1,2), where v = "rng_start rg"] p by simp
      show ?thesis
      proof (cases "l = 0")
        case True
        then show ?thesis using Suc.prems(3) p Table by (intro stay) (simp add: Let_def entry_is_leaf_def)
      next
        case False
        then show ?thesis using Suc.IH [OF Suc.prems(1) t] Suc.prems(3) p Table by (simp add: Let_def entry_is_leaf_def)
      qed
    next
      case Invalid
      then show ?thesis using Suc.prems(3) p by (intro stay) (simp add: Let_def entry_is_leaf_def)
    next
      case Leaf
      show ?thesis
      proof (cases "\<exists>sz fsz. l \<noteq> 0 \<and> leaf_size_at_level (e_meta E) (Suc l) = Some sz \<and>
          leaf_range (e_addr E) (rng_start rg) sz = Ok rg \<and> leaf_size_at_level (e_meta E) l = Some fsz")
        case False
        have "w' = w"
        proof (cases "l = 0")
          case True
          then show ?thesis using Suc.prems(3) p Leaf by (simp add: Let_def entry_is_leaf_def)
        next
          case l: False
          show ?thesis
          proof (cases "leaf_size_at_level (e_meta E) (Suc l)")
            case None
            then show ?thesis using Suc.prems(3) p Leaf l by (simp add: Let_def entry_is_leaf_def)
          next
            case (Some sz)
            show ?thesis
            proof (cases "leaf_range (e_addr E) (rng_start rg) sz = Ok rg")
              case True
              then have "leaf_size_at_level (e_meta E) l = None" using False l Some by auto
              then show ?thesis using Suc.prems(3) p Leaf l Some True by (simp add: Let_def entry_is_leaf_def)
            next
              case False
              then show ?thesis using Suc.prems(3) p Leaf l Some
                by (cases "leaf_range (e_addr E) (rng_start rg) sz") (simp_all add: Let_def entry_is_leaf_def)
            qed
          qed
        qed
        then show ?thesis by (rule stay)
      next
        case True
        then obtain sz fsz where z: "l \<noteq> 0" "leaf_size_at_level (e_meta E) (Suc l) = Some sz"
          "leaf_range (e_addr E) (rng_start rg) sz = Ok rg" "leaf_size_at_level (e_meta E) l = Some fsz" by blast
        obtain ra w1 where a: "alloc_table_frame E w = (ra, w1)" by fastforce
        show ?thesis
        proof (cases ra)
          case (Ok g)
          obtain rf w2 where f: "split_fill E g ?lp ?fl fsz [0..<ENTRIES_PER_TABLE (e_meta E)] w1 = (rf, w2)"
            by fastforce
          have l: "1 \<le> l" "l \<le> LEVELS (e_meta E)" "l < LEVELS (e_meta E)" using z(1) L by simp_all
          note al = good_alloc [OF Suc.prems(1) a [unfolded Ok] l(1,2)]
          note lf = formed_leaf_paddr [OF Suc.prems(1,2) refl p Leaf z(2)]
          have fo: "flags_ok ?fl" using decoded_flags [OF p Leaf] by blast
          have s: "size_shift sz = size_shift fsz + INDEX_BITS (e_meta E)"
            using shift_step [of l] full_index [of l] l z leaf_size [of l] leaf_size [of "Suc l"] L by simp
          have sup: "level_supports_leaf (e_meta E) l fsz" using finer_supported [of l] l z(2,4) by simp
          have fill: "rf = Ok () \<and> good (S(g \<mapsto> l)) w2 \<and>
              (\<forall>f i h. refers E (mem w2) (S(g \<mapsto> l)) f i h \<longrightarrow> refers E (mem w1) (S(g \<mapsto> l)) f i h)"
            by (rule split_fill_good [OF lf fo s fun_upd_same sup al(2) _ f]) simp
          have w': "w' = flush_leaf_range E rg (store E cur ?i (new_table (e_pte E) g (Suc l)) w2)"
            using Suc.prems(3) p Leaf z a Ok f fill by (simp add: Let_def entry_is_leaf_def)
          have nr: "\<not> refers E (mem w2) (S(g \<mapsto> l)) f i g" for f i using fill al(3) by blast
          have "cur \<noteq> g" using Suc.prems(2) al(1) by auto
          then have "good (S(g \<mapsto> l)) (store E cur ?i (new_table (e_pte E) g (Suc l)) w2)"
            using fill nr i Suc.prems(2) by (intro good_hang) simp_all
          then show ?thesis using al(4) w' by auto
        next
          case (Err x)
          then have "w' = w1" using Suc.prems(3) p Leaf z a by (simp add: Let_def entry_is_leaf_def)
          then show ?thesis using alloc_error_good [OF Suc.prems(1) a] Err by (intro exI [of _ S]) simp
        next
          case Panic
          then show ?thesis using alloc_table_frame_spec(1) [OF a] by simp
        qed
      qed
    qed
  qed
qed

lemma split_good:
  assumes "good S w" "S root = Some (LEVELS (e_meta E))" "split_at E root rg w = (res, w')"
  shows "\<exists>S'. S \<subseteq>\<^sub>m S' \<and> good S' w'"
proof (cases "vaddr_is_valid (e_meta E) (rng_start rg)")
  case True
  then have "split_walk E rg (LEVELS (e_meta E)) root w = (res, w')"
    using assms(3) by (simp add: split_at_def check_vaddr_def)
  then show ?thesis by (rule split_walk_good [OF assms(1,2)])
next
  case False
  then have "w' = w" using assms(3) by (simp add: split_at_def check_vaddr_def)
  then show ?thesis using assms(1) by (intro exI [of _ S]) simp
qed

section \<open>Merge\<close>

lemma merge_descend_good:
  "\<lbrakk>good S w; S cur = Some l; 1 \<le> target; target \<le> l; merge_descend E (mem w) target v l cur = Ok (c, k)\<rbrakk> \<Longrightarrow>
     k = target \<and> S c = Some target"
proof (induction l arbitrary: cur)
  case 0
  then show ?case by simp
next
  case (Suc l)
  let ?e = "read_entry E (mem w) cur (index_at (e_meta E) (Suc l) v)"
  show ?case
  proof (cases "target < Suc l")
    case False
    then show ?thesis using Suc.prems by auto
  next
    case True
    then have t: "is_present (e_pte E) ?e" "entry_kind (e_pte E) ?e (Suc l) = Table"
      "merge_descend E (mem w) target v l (pte_paddr (e_pte E) ?e) = Ok (c, k)"
      using Suc.prems(5) by (auto simp: Let_def entry_is_leaf_def split: if_splits pte_kind.splits)
    then have "S (pte_paddr (e_pte E) ?e) = Some l"
      using good_entry(1) [OF Suc.prems(1,2), where v = v] by simp
    from Suc.IH [OF Suc.prems(1) this Suc.prems(3) _ t(3)] True show ?thesis by simp
  qed
qed

lemma merge_children_Ok:
  assumes "merge_children E m d l fsz tsize = Ok (pb, flags)"
  shows "is_aligned tsize pb" "paddr_is_valid (e_meta E) pb" "flags_ok flags"
proof -
  let ?e = "read_entry E m d 0"
  have e: "is_present (e_pte E) ?e" "entry_kind (e_pte E) ?e l = Leaf" "is_aligned tsize pb"
    "pb = pte_paddr (e_pte E) ?e" "flags = pte_flags (e_pte E) ?e"
    using assms by (auto simp: merge_children_def Let_def entry_is_leaf_def bind_res_eq_Ok split: if_splits pte_kind.splits)
  show "is_aligned tsize pb" by (rule e(3))
  show "paddr_is_valid (e_meta E) pb" "flags_ok flags"
    using decoded_paddr [OF e(1,2)] decoded_flags [OF e(1,2)] by (simp_all add: e(4,5))
qed

lemma merge_good:
  assumes ok: "good S w" and top: "S root = Some (LEVELS (e_meta E))" and run: "merge_at E root rg w = (res, w')"
  shows "\<exists>S'. good S' w' \<and> (\<forall>f. S f = Some (LEVELS (e_meta E)) \<longrightarrow> S' f = Some (LEVELS (e_meta E)))"
proof (cases "w' = w")
  case True
  then show ?thesis using ok by blast
next
  case changed: False
  let ?v = "rng_start rg" and ?M = "e_meta E" and ?P = "e_pte E"
  note run = run [unfolded merge_at_def Let_def]
  obtain tsize where cr: "check_leaf_range (e_addr E) ?M rg = Ok tsize"
    using run changed by (cases "check_leaf_range (e_addr E) ?M rg") simp_all
  note run = run [unfolded cr bind_st_simps]
  obtain target where t: "size_to_level ?M tsize = Some target"
    using run changed by (cases "size_to_level ?M tsize") (simp_all add: ok_or_def)
  note run = run [unfolded t ok_or_simps bind_st_simps]
  have t1: "\<not> target \<le> 1" using run changed by (auto split: if_splits)
  note run = run [unfolded if_not_P [OF t1]] and sz = size_to_level_size [OF t]
  obtain cur level where d: "merge_descend E (mem w) target ?v (LEVELS ?M) root = Ok (cur, level)"
    using run changed by (cases "merge_descend E (mem w) target ?v (LEVELS ?M) root") auto
  note run = run [unfolded d bind_st_simps prod.case]
  have lc: "level = target" "S cur = Some target" using merge_descend_good [OF ok top sz(1,2) d] by simp_all
  let ?i = "index_at ?M target ?v"
  let ?e = "read_entry E (mem w) cur ?i"
  let ?c = "pte_paddr ?P ?e"
  have pres: "is_present ?P ?e" using run changed by (auto split: if_splits)
  have tab: "entry_kind ?P ?e target = Table"
    using run changed by (cases "entry_kind ?P ?e target") (simp_all add: lc(1) pres entry_is_leaf_def)
  have np: "\<not> \<not> is_present ?P ?e" using pres by simp
  note run = run [unfolded if_not_P [OF np] lc(1) entry_is_leaf_def tab pte_kind.case bind_st_simps if_False]
  obtain fsz where fsz: "leaf_size_at_level ?M (target - 1) = Some fsz"
    using run changed by (cases "leaf_size_at_level ?M (target - 1)") (simp_all add: ok_or_def)
  note run = run [unfolded fsz ok_or_simps bind_st_simps]
  obtain pb flags where mc: "merge_children E (mem w) ?c (target - 1) fsz tsize = Ok (pb, flags)"
    using run changed by (cases "merge_children E (mem w) ?c (target - 1) fsz tsize") auto
  note run = run [unfolded mc bind_st_simps prod.case]
  have r: "refers E (mem w) S cur ?i ?c" "S ?c = Some (target - 1)" "1 < target"
    using good_entry(1) [OF ok lc(2), where v = ?v] pres tab by simp_all
  obtain rd w1 where dl: "dealloc_table_frame E ?c (store E cur ?i (new_leaf ?P pb flags tsize) w) = (rd, w1)"
    by fastforce
  have "good (S(?c := None)) w1"
    by (rule good_unhang(1) [OF ok r(1) lc(2) good_leaf [OF ok lc(2) sz(5) merge_children_Ok [OF mc]] dl])
  moreover have "w' = w1 \<or> w' = flush_leaf_range E rg w1" using run by (cases rd) (auto simp: dl)
  moreover have "S f = Some (LEVELS ?M) \<longrightarrow> (S(?c := None)) f = Some (LEVELS ?M)" for f
    using r(2,3) sz(2) by auto
  ultimately show ?thesis by auto
qed

end

end
