(* ===== verification/FormCursor.thy ===== *)
theory FormCursor
  imports FormTables
begin

text \<open>
  Batches and whole programs keep the entries formed: mapping through the descent cache, mapping of
  ranges and scatter lists, the other cursor operations, and the life of a walker from its creation.
\<close>

section \<open>The descent cache\<close>

text \<open>Every frame in the cache is a table of the level of its slot.\<close>

definition cache_levels :: "('f, 's, 'h) env \<Rightarrow> frame_levels \<Rightarrow> paddr option list \<Rightarrow> bool" where
  "cache_levels E S d \<longleftrightarrow> length d = MAX_LEVELS \<and>
     (\<forall>k f. 1 \<le> k \<and> k < LEVELS (e_meta E) \<and> d ! (k - 1) = Some f \<longrightarrow> S f = Some k)"

lemma cache_levels_mono: "\<lbrakk>cache_levels E S d; S \<subseteq>\<^sub>m S'\<rbrakk> \<Longrightarrow> cache_levels E S' d"
  unfolding cache_levels_def by (metis map_le_def domI)

lemma cache_levels_update:
  "\<lbrakk>cache_levels E S d; 1 \<le> l; S f = Some l; l \<le> MAX_LEVELS\<rbrakk> \<Longrightarrow> cache_levels E S (d[l - 1 := Some f])"
  by (auto simp: cache_levels_def nth_list_update split: if_splits)

lemma cached_descend_levels:
  "\<lbrakk>cache_levels E S d; S cur = Some l; 1 \<le> stop; stop \<le> l; l \<le> LEVELS (e_meta E);
     cached_descend d stop l cur = Ok (k, c)\<rbrakk> \<Longrightarrow> stop \<le> k \<and> S c = Some k"
proof (induction l arbitrary: cur)
  case 0
  then show ?case by simp
next
  case (Suc l)
  show ?case
  proof (cases "stop < Suc l")
    case False
    then show ?thesis using Suc.prems by auto
  next
    case True
    show ?thesis
    proof (cases "\<not> length d \<le> l - 1 \<and> d ! (l - 1) \<noteq> None")
      case hit: True
      then obtain f where f: "d ! (l - 1) = Some f" by auto
      have "S f = Some l" using Suc.prems(1,3,5) f True unfolding cache_levels_def by auto
      then show ?thesis
        using Suc.IH [OF Suc.prems(1)] Suc.prems(3-6) True hit f by simp
    next
      case False
      then show ?thesis using Suc.prems True by (auto split: if_splits)
    qed
  qed
qed

lemma reusable_from_le: "reusable_from M prev v n \<le> max 1 n"
  by (induction n) (simp_all add: Let_def, linarith)

lemma invalidate_below_levels:
  assumes "cache_levels E S (descent c)" "LEVELS (e_meta E) \<le> MAX_LEVELS"
  shows "cache_levels E S (descent (invalidate_below r c))"
    "r = LEVELS (e_meta E) \<Longrightarrow> cache_levels E S' (descent (invalidate_below r c))"
  using assms nth_invalidate_below(1) [of c _ r] nth_invalidate_below(2) [of c 1 r]
  by (auto simp: cache_levels_def MAX_LEVELS_def split: if_splits)

context walker
begin

text \<open>The state of a batch.\<close>

definition batch_good :: "frame_levels \<Rightarrow> ('s, 'h) cstate \<Rightarrow> bool" where
  "batch_good S cw \<longleftrightarrow> good S (snd cw) \<and> cache_levels E S (descent (fst cw))"

lemma cursor_descend_good:
  assumes "good S w" "cache_levels E S (descent c)" "S cur = Some l" "1 \<le> target" "target \<le> l"
    and "cursor_descend E target v l cur (c, w) = (res, cw')"
  shows "\<exists>S'. S \<subseteq>\<^sub>m S' \<and> batch_good S' cw' \<and> (\<forall>f k. res = Ok (f, k) \<longrightarrow> k = target \<and> S' f = Some target)"
  using assms
proof (induction l arbitrary: S cur c w)
  case 0
  then show ?case by simp
next
  case (Suc l)
  let ?i = "index_at (e_meta E) (Suc l) v"
  let ?e = "read_entry E (mem w) cur ?i"
  note ge = good_entry(1,2) [OF Suc.prems(1,3), where v = v]
  have lm: "l \<le> MAX_LEVELS" using good_entry(5) [OF Suc.prems(1,3)] levels_max by simp
  have len: "length (descent c) = MAX_LEVELS" using Suc.prems(2) by (simp add: cache_levels_def)
  have stay: ?case if "cw' = (c, w) \<or> cw' = (c\<lparr>last_vaddr := None\<rparr>, w)" "\<forall>f k. res \<noteq> Ok (f, k)"
    using that Suc.prems(1,2) by (intro exI [of _ S]) (auto simp: batch_good_def)
  show ?case
  proof (cases "target < Suc l")
    case False
    then have "target = Suc l" using Suc.prems(5) by simp
    then show ?thesis using Suc.prems by (intro exI [of _ S]) (auto simp: batch_good_def)
  next
    case lt: True
    then have l: "1 \<le> l" "target \<le> l" "\<not> MAX_LEVELS \<le> l - 1" using Suc.prems(4) lm by simp_all
    show ?thesis
    proof (cases "is_present (e_pte E) ?e")
      case p: True
      show ?thesis
      proof (cases "entry_kind (e_pte E) ?e (Suc l)")
        case Table
        then have t: "S (pte_paddr (e_pte E) ?e) = Some l" using ge(1) p by simp
        have run: "cursor_descend E target v l (pte_paddr (e_pte E) ?e)
            (c\<lparr>descent := (descent c)[l - 1 := Some (pte_paddr (e_pte E) ?e)]\<rparr>, w) = (res, cw')"
          using Suc.prems(6) lt p Table l(3) len by (simp add: Let_def entry_is_leaf_def)
        have "cache_levels E S (descent (c\<lparr>descent := (descent c)[l - 1 := Some (pte_paddr (e_pte E) ?e)]\<rparr>))"
          using cache_levels_update [OF Suc.prems(2) l(1) t lm] by simp
        then show ?thesis by (rule Suc.IH [OF Suc.prems(1) _ t Suc.prems(4) l(2) run])
      next
        case Leaf
        then show ?thesis using Suc.prems(6) lt p by (intro stay) (auto simp: Let_def entry_is_leaf_def)
      next
        case Invalid
        then show ?thesis using Suc.prems(6) lt p by (intro stay) (auto simp: Let_def entry_is_leaf_def)
      qed
    next
      case p: False
      obtain ra w1 where a: "alloc_table_frame E w = (ra, w1)" by fastforce
      show ?thesis
      proof (cases ra)
        case (Ok g)
        let ?S = "S(g \<mapsto> l)"
        note gr = good_grow [OF Suc.prems(1,3) l(1) a [unfolded Ok] ge(2)]
        have run: "cursor_descend E target v l g (c\<lparr>descent := (descent c)[l - 1 := Some g]\<rparr>,
            store E cur ?i (new_table (e_pte E) g (Suc l)) w1) = (res, cw')"
          using Suc.prems(6) lt p a Ok l(3) len by (simp add: Let_def)
        have "cache_levels E ?S (descent (c\<lparr>descent := (descent c)[l - 1 := Some g]\<rparr>))"
          using cache_levels_update [OF cache_levels_mono [OF Suc.prems(2) gr(2)] l(1) fun_upd_same lm]
          by (simp del: fun_upd_apply)
        from Suc.IH [OF gr(1) this fun_upd_same Suc.prems(4) l(2) run] gr(2) show ?thesis
          using map_le_trans by blast
      next
        case (Err x)
        then have "cw' = (c\<lparr>last_vaddr := None\<rparr>, w1)" "res = Err x"
          using Suc.prems(6) lt p a by (simp_all add: Let_def)
        then show ?thesis
          using alloc_error_good [OF Suc.prems(1) a] Err Suc.prems(2)
          by (intro exI [of _ S]) (simp add: batch_good_def)
      next
        case Panic
        then show ?thesis using alloc_table_frame_spec(1) [OF a] by simp
      qed
    qed
  qed
qed

lemma reusable_level_le: "1 \<le> reusable_level (e_meta E) c v" "reusable_level (e_meta E) c v \<le> LEVELS (e_meta E)"
proof -
  show "reusable_level (e_meta E) c v \<le> LEVELS (e_meta E)"
    using reusable_from_le [of "e_meta E" _ v "LEVELS (e_meta E)"] levels_pos
    by (auto simp: reusable_level_def max_absorb2 split: option.split)
  show "1 \<le> reusable_level (e_meta E) c v"
    using reusable_from_same levels_pos by (auto simp: reusable_level_def split: option.split)
qed

lemma map_leaf_at_level_good:
  assumes "batch_good S (c, w)" "S root = Some (LEVELS (e_meta E))"
    and sz: "level_supports_leaf (e_meta E) target sz" "1 \<le> target" "target \<le> LEVELS (e_meta E)"
    and p: "is_aligned sz p" "paddr_is_valid (e_meta E) p" "flags_ok flags"
    and run: "map_leaf_sized_at_level E root rg p flags sz target (c, w) = (res, cw')"
  shows "\<exists>S'. S \<subseteq>\<^sub>m S' \<and> batch_good S' cw'"
proof -
  let ?v = "rng_start rg" and ?r = "reusable_level (e_meta E) c (rng_start rg)"
  let ?c = "invalidate_below ?r c"
  have ok: "good S w" "cache_levels E S (descent ?c)"
    using assms(1) invalidate_below_levels(1) [OF _ levels_max] by (simp_all add: batch_good_def)
  note run = run [unfolded map_leaf_sized_at_level_def prod.case Let_def]
  show ?thesis
  proof (cases "cached_descend (descent ?c) (max ?r target) (LEVELS (e_meta E)) root")
    case (Ok lk)
    obtain k f where lk: "lk = (k, f)" by fastforce
    have k: "max ?r target \<le> k \<and> S f = Some k"
      by (rule cached_descend_levels [OF ok(2) assms(2) _ _ order.refl Ok [unfolded lk]])
        (use reusable_level_le sz in auto)
    then have tk: "target \<le> k" "S f = Some k" by simp_all
    obtain rd cw1 where d: "cursor_descend E target ?v k f (?c, w) = (rd, cw1)" by (meson surj_pair)
    obtain c1 w1 where cw1: "cw1 = (c1, w1)" by fastforce
    from cursor_descend_good [OF ok tk(2) sz(2) tk(1) d] obtain S' where S': "S \<subseteq>\<^sub>m S'" "batch_good S' cw1"
      "\<And>f k. rd = Ok (f, k) \<Longrightarrow> k = target \<and> S' f = Some target" by blast
    note run = run [unfolded Ok lk bind_st_simps prod.case d]
    have "batch_good S' cw'"
    proof (cases rd)
      case rd: (Ok fk)
      then obtain cur where cur: "rd = Ok (cur, target)" "S' cur = Some target" using S'(3) by (cases fk) auto
      have g: "good S' w1" "cache_levels E S' (descent c1)" using S'(2) by (simp_all add: batch_good_def cw1)
      show ?thesis
        using run good_install [OF g(1) cur(2) sz(1) p, of ?v] g
        by (auto simp: cur(1) cursor_install_def cw1 Let_def batch_good_def queue_flush_range_cursor split: if_splits)
    qed (use run S'(2) in simp_all)
    with S'(1) show ?thesis by blast
  qed (use run ok in \<open>auto simp: batch_good_def intro!: exI [of _ S]\<close>)
qed

section \<open>Ranges and scatter lists\<close>

text \<open>Formed, whatever the set of frames.\<close>

definition batch_formed :: "paddr \<Rightarrow> ('s, 'h) cstate \<Rightarrow> bool" where
  "batch_formed root cw \<longleftrightarrow> (\<exists>S. S root = Some (LEVELS (e_meta E)) \<and> batch_good S cw)"

lemma map_leaf_at_level_formed:
  assumes "batch_formed root cw" "size_to_level (e_meta E) sz = Some target"
    and "is_aligned sz p" "paddr_is_valid (e_meta E) p" "flags_ok flags"
    and "map_leaf_sized_at_level E root rg p flags sz target cw = (res, cw')"
  shows "batch_formed root cw'"
proof -
  obtain c w where cw: "cw = (c, w)" by fastforce
  obtain S where S: "S root = Some (LEVELS (e_meta E))" "batch_good S (c, w)"
    using assms(1) by (auto simp: batch_formed_def cw)
  note t = size_to_level_size [OF assms(2)]
  from map_leaf_at_level_good [OF S(2,1) t(5,1,2) assms(3-5) assms(6) [unfolded cw]] S(1) show ?thesis
    unfolding batch_formed_def by (metis map_le_def domI)
qed

lemma map_leaf_formed:
  assumes "batch_formed root cw" "flags_ok flags" "map_leaf E root rg p flags cw = (res, cw')"
  shows "batch_formed root cw'"
proof (cases "check_leaf_range (e_addr E) (e_meta E) rg")
  case (Ok sz)
  note run = assms(3) [unfolded map_leaf_def Ok bind_st_simps]
  show ?thesis
  proof (cases "paddr_is_valid (e_meta E) p \<and> is_aligned sz p \<and> (\<exists>t. size_to_level (e_meta E) sz = Some t)")
    case True
    then obtain t where t: "size_to_level (e_meta E) sz = Some t" by blast
    show ?thesis
    proof (cases "is_aligned sz (rng_start rg)")
      case al: True
      have "map_leaf_sized_at_level E root rg p flags sz t cw = (res, cw')"
        using run True al t by (simp add: check_paddr_def map_leaf_sized_def)
      then show ?thesis using map_leaf_at_level_formed [OF assms(1) t _ _ assms(2)] True by blast
    next
      case False
      then show ?thesis using run assms(1) True by (simp add: check_paddr_def)
    qed
  next
    case False
    then have "cw' = cw" using run
      by (auto simp: check_paddr_def map_leaf_sized_def ok_or_def split: if_splits option.splits)
    then show ?thesis using assms(1) by simp
  qed
qed (use assms in \<open>simp_all add: map_leaf_def\<close>)

lemma map_contiguous_loop_formed:
  assumes "flags_ok flags"
  shows "batch_formed root cw \<Longrightarrow> map_contiguous_loop E root rg phys flags fixed tot offset cw = (res, cw') \<Longrightarrow>
    batch_formed root cw'"
proof (induction "unat tot - unat offset" arbitrary: offset cw rule: less_induct)
  case less
  note run = less.prems(2) [unfolded map_contiguous_loop.simps [of E root rg phys flags fixed tot offset cw]]
  show ?case
  proof (cases "cw' = cw")
    case True
    then show ?thesis using less.prems(1) by simp
  next
    case changed: False
    then have lt: "offset < tot" using run by (auto split: if_splits)
    note run = run [unfolded if_P [OF lt]]
    obtain v where v: "offset_vaddr (rng_start rg) offset = Ok v" using run changed by (auto split: res.splits)
    note run = run [unfolded v res.case]
    obtain p where p: "offset_paddr (rng_start phys) offset = Ok p" using run changed by (auto split: res.splits)
    note run = run [unfolded p res.case]
    obtain sz where sz: "next_leaf_size (e_meta E) fixed v p (tot - offset) = Ok sz"
      using run changed by (auto split: res.splits)
    note run = run [unfolded sz res.case]
    obtain leaf where leaf: "range_try_from_start_size (e_addr E) v (bytes sz) = Some leaf"
      using run changed by (auto split: option.splits)
    obtain r cw1 where l: "map_leaf E root leaf p flags cw = (r, cw1)" by (meson surj_pair)
    have b: "batch_formed root cw1" by (rule map_leaf_formed [OF less.prems(1) assms l])
    note run = run [unfolded leaf option.case l prod.case]
    show ?thesis
    proof (cases r)
      case (Ok u)
      then have "map_contiguous_loop E root rg phys flags fixed tot (offset + bytes sz) cw1 = (res, cw')"
        using run by simp
      then show ?thesis
        by (rule less.hyps [OF offset_step_decreases(1) [OF lt next_leaf_size_fits [OF sz]] b])
    qed (use run b in simp_all)
  qed
qed

lemma map_contiguous_formed:
  assumes "batch_formed root cw" "flags_ok flags" "map_contiguous E root rg phys flags fixed cw = (res, cw')"
  shows "batch_formed root cw'"
proof (cases "range_is_empty (e_addr E) rg \<or> range_is_empty (e_addr E) phys \<or>
    range_size (e_addr E) rg \<noteq> range_size (e_addr E) phys")
  case True
  then show ?thesis using assms(1,3) by (simp add: map_contiguous_def)
next
  case False
  note run = assms(3) [unfolded map_contiguous_def Let_def if_not_P [OF False]]
  show ?thesis
  proof (cases "exact_leaf_size (e_addr E) (e_meta E) rg (rng_start phys) fixed")
    case (Ok exact)
    show ?thesis
    proof (cases exact)
      case None
      then show ?thesis using map_contiguous_loop_formed [OF assms(2,1)] run Ok by simp
    next
      case (Some st)
      obtain sz t where st: "st = (sz, t)" by fastforce
      note ex = exact_leaf_size_Some [OF Ok [unfolded Some st]]
      show ?thesis
        by (rule map_leaf_at_level_formed [OF assms(1) ex(6,4,5) assms(2)]) (use run in \<open>simp add: Ok Some st\<close>)
    qed
  qed (use run assms(1) in simp_all)
qed

lemma map_segments_formed:
  "\<lbrakk>batch_formed root cw; flags_ok flags; map_segments E root rg flags granule segs offset cw = (res, cw')\<rbrakk> \<Longrightarrow>
     batch_formed root cw'"
proof (induction segs arbitrary: offset cw)
  case Nil
  then show ?case by simp
next
  case (Cons phys rest)
  show ?case
  proof (cases "cw' = cw")
    case True
    then show ?thesis using Cons.prems(1) by simp
  next
    case changed: False
    note run = Cons.prems(3) [unfolded map_segments.simps]
    obtain v where v: "offset_vaddr (rng_start rg) offset = Ok v"
      using run changed by (cases "offset_vaddr (rng_start rg) offset") simp_all
    note run = run [unfolded v bind_st_simps]
    obtain vr where vr: "range_try_from_start_size (e_addr E) v (range_size (e_addr E) phys) = Some vr"
      using run changed by (cases "range_try_from_start_size (e_addr E) v (range_size (e_addr E) phys)") simp_all
    note run = run [unfolded vr ok_or_simps bind_st_simps]
    obtain r cw1 where m: "map_contiguous E root vr phys flags (Some granule) cw = (r, cw1)" by (meson surj_pair)
    have b: "batch_formed root cw1" by (rule map_contiguous_formed [OF Cons.prems(1,2) m])
    show ?thesis
    proof (cases "r = Ok () \<and> (\<exists>o'. checked_add offset (range_size (e_addr E) phys) = Some o')")
      case True
      then obtain o' where "map_segments E root rg flags granule rest o' cw1 = (res, cw')"
        using run m by auto
      then show ?thesis by (rule Cons.IH [OF b Cons.prems(2)])
    next
      case False
      then have "cw' = cw1" using run m by (cases r) (auto split: option.splits)
      then show ?thesis using b by simp
    qed
  qed
qed

lemma map_scattered_formed:
  assumes "batch_formed root cw" "flags_ok flags" "map_scattered E root rg backing flags granule cw = (res, cw')"
  shows "batch_formed root cw'"
proof (cases "cw' = cw")
  case True
  then show ?thesis using assms(1) by simp
next
  case changed: False
  note run = assms(3) [unfolded map_scattered_def Let_def]
  show ?thesis
  proof (cases backing)
    case (ContiguousBacking phys)
    then have "map_contiguous E root rg phys flags (Some granule) cw = (res, cw')"
      using run changed by (cases "check_scatter_segment (e_addr E) phys granule") (auto split: if_splits)
    then show ?thesis by (rule map_contiguous_formed [OF assms(1,2)])
  next
    case (ScatteredBacking ranges)
    then have "map_segments E root rg flags granule ranges 0 cw = (res, cw')"
      using run changed by (cases "scatter_total (e_addr E) rg granule ranges 0") (auto split: if_splits)
    then show ?thesis by (rule map_segments_formed [OF assms(1,2)])
  qed
qed

lemma cursor_map_formed:
  assumes "batch_formed root cw" "flags_ok (mf_leaf flags)" "cursor_map E root rg src flags cw = (res, cw')"
  shows "batch_formed root cw'"
proof (cases "into_map_backing (e_addr E) src (range_size (e_addr E) rg)")
  case (Ok b)
  note run = assms(3) [unfolded cursor_map_def Ok bind_st_simps]
  show ?thesis
  proof (cases "mf_contiguity flags")
    case Contiguous
    then show ?thesis
      using run assms(1) map_contiguous_formed [OF assms(1,2)] by (cases b) simp_all
  next
    case (Scattered granule)
    then show ?thesis using run map_scattered_formed [OF assms(1,2)] by simp
  qed
qed (use assms(1,3) in \<open>simp_all add: cursor_map_def\<close>)

section \<open>The other operations of a cursor\<close>

lemma batch_formed_world:
  "batch_formed root (c, w) \<Longrightarrow> well_formed E flags_ok live root w"
  by (auto simp: batch_formed_def batch_good_def well_formed_def)

lemma cursor_new_formed:
  assumes "well_formed E flags_ok live root w"
  shows "batch_formed root (cursor_new, w)"
proof -
  have "cache_levels E S (descent cursor_new)" for S
    using levels_max by (auto simp: cache_levels_def cursor_new_def)
  then show ?thesis using assms unfolding batch_formed_def batch_good_def well_formed_def by auto
qed

lemma cursor_remap_formed:
  assumes "batch_formed root cw" "flags_ok flags" "cursor_remap E root rg p flags cw = (res, cw')"
  shows "batch_formed root cw'"
proof -
  obtain c w where cw: "cw = (c, w)" by fastforce
  obtain r w1 where n: "remap_no_flush E root rg p flags w = (r, w1)" by fastforce
  obtain S where S: "S root = Some (LEVELS (e_meta E))" "good S w" "cache_levels E S (descent c)"
    using assms(1) by (auto simp: batch_formed_def batch_good_def cw)
  have "good S w1" by (rule remap_good [OF S(2,1) assms(2) n])
  with S show ?thesis
    using assms(3) unfolding batch_formed_def batch_good_def
    by (intro exI [of _ S]) (auto simp: cw n cursor_remap_def queue_flush_range_cursor split: res.splits)
qed

lemma cursor_protect_formed:
  assumes "batch_formed root cw" "flags_ok flags" "cursor_protect E root rg flags cw = (res, cw')"
  shows "batch_formed root cw'"
proof -
  obtain c w where cw: "cw = (c, w)" by fastforce
  obtain r w1 where n: "protect_no_flush E root rg flags w = (r, w1)" by fastforce
  obtain S where S: "S root = Some (LEVELS (e_meta E))" "good S w" "cache_levels E S (descent c)"
    using assms(1) by (auto simp: batch_formed_def batch_good_def cw)
  have "good S w1" by (rule protect_good [OF S(2,1) assms(2) n])
  with S show ?thesis
    using assms(3) unfolding batch_formed_def batch_good_def
    by (intro exI [of _ S]) (auto simp: cw n cursor_protect_def queue_flush_range_cursor split: res.splits)
qed

lemma cursor_unmap_formed:
  assumes "batch_formed root cw" "cursor_unmap E root rg cw = (res, cw')"
  shows "batch_formed root cw'"
proof -
  obtain c w where cw: "cw = (c, w)" by fastforce
  obtain r w1 where n: "unmap_no_flush E root rg w = (r, w1)" by fastforce
  obtain S where S: "S root = Some (LEVELS (e_meta E))" "good S w" "cache_levels E S (descent c)"
    using assms(1) by (auto simp: batch_formed_def batch_good_def cw)
  from unmap_good [OF S(2,1) n] S(1) obtain S' where S': "S' root = Some (LEVELS (e_meta E))" "good S' w1" by blast
  have "cache_levels E S' (descent (invalidate_below (LEVELS (e_meta E)) c))"
    by (rule invalidate_below_levels(2) [OF S(3) levels_max refl])
  with S' show ?thesis
    using assms(2) unfolding batch_formed_def batch_good_def
    by (intro exI [of _ S']) (auto simp: cw n cursor_unmap_def queue_flush_range_cursor Let_def split: res.splits)
qed

lemma cursor_exec_formed:
  assumes "batch_formed root cw" "op_ok E flags_ok p" "cursor_exec E root p cw = (res, cw')"
  shows "batch_formed root cw'"
proof (cases p)
  case (MapOp rg src flags)
  then show ?thesis using assms by (intro cursor_map_formed [OF assms(1)]) simp_all
next
  case (UnmapOp rg)
  then show ?thesis using assms cursor_unmap_formed [OF assms(1)] by (cases "cursor_unmap E root rg cw") (simp add: forget_def)
next
  case (ProtectOp rg flags)
  then show ?thesis
    using assms cursor_protect_formed [OF assms(1)] by (cases "cursor_protect E root rg flags cw") (simp add: forget_def)
next
  case (RemapOp rg q flags)
  then show ?thesis
    using assms cursor_remap_formed [OF assms(1)] by (cases "cursor_remap E root rg q flags cw") (simp add: forget_def)
qed

lemma cursor_reach_formed:
  assumes "well_formed E flags_ok live root w" "cursor_reach E flags_ok root w cw"
  shows "batch_formed root cw"
  using assms(2)
proof induction
  case fresh
  show ?case by (rule cursor_new_formed [OF assms(1)])
next
  case (more cw cw')
  from more.hyps(2) obtain p res where "op_ok E flags_ok p" "cursor_exec E root p cw = (res, cw')"
    by (rule cursor_stepE)
  then show ?case by (rule cursor_exec_formed [OF more.IH])
qed

lemma cursor_finish_formed:
  assumes "batch_formed root (c, w)"
  shows "well_formed E flags_ok live root (cursor_finish E (c, w))"
proof -
  have "mem (snd (flush_pending E c w)) = mem w \<and> astate (snd (flush_pending E c w)) = astate w"
    by (auto simp: flush_pending_def Let_def emit_def split: prod.splits)
  then have "good S (cursor_finish E (c, w)) = good S w" for S
    unfolding cursor_drain by (intro forms_ok_cong) simp_all
  then show ?thesis using batch_formed_world [OF assms] by (simp add: well_formed_def)
qed

section \<open>Requests to the walker\<close>

lemma walker_map_formed:
  assumes "well_formed E flags_ok live root w" "flags_ok (mf_leaf flags)" "walker_map E root rg src flags w = (res, w')"
  shows "well_formed E flags_ok live root w'"
proof (cases "w' = w")
  case True
  then show ?thesis using assms(1) by simp
next
  case changed: False
  obtain b where b: "into_map_backing (e_addr E) src (range_size (e_addr E) rg) = Ok b"
    using assms(3) changed
    by (cases "into_map_backing (e_addr E) src (range_size (e_addr E) rg)") (simp_all add: walker_map_def)
  note run = assms(3) [unfolded walker_map_def b bind_st_simps]
  have via: ?thesis if "map_via_cursor E root rg b flags w = (res, w')"
  proof -
    obtain r c1 w1 where c: "cursor_map E root rg (FromBacking b) flags (cursor_new, w) = (r, (c1, w1))"
      by (metis prod_cases3)
    have f: "batch_formed root (c1, w1)"
      by (rule cursor_map_formed [OF cursor_new_formed [OF assms(1)] assms(2) c])
    have "w' = w1 \<or> w' = cursor_finish E (c1, w1)"
      using that by (cases r) (auto simp: map_via_cursor_def c cursor_finish_drop)
    then show ?thesis using batch_formed_world [OF f] cursor_finish_formed [OF f] by auto
  qed
  show ?thesis
  proof (cases "mf_contiguity flags")
    case (Scattered g)
    then show ?thesis using run via by (cases b) simp_all
  next
    case Contiguous
    show ?thesis
    proof (cases b)
      case (ScatteredBacking rs)
      then show ?thesis using run via Contiguous by simp
    next
      case (ContiguousBacking phys)
      show ?thesis
      proof (cases "exact_leaf_size (e_addr E) (e_meta E) rg (rng_start phys) None")
        case (Ok exact)
        show ?thesis
        proof (cases exact)
          case None
          then show ?thesis using run via Contiguous ContiguousBacking Ok changed by (auto split: if_splits)
        next
          case (Some st)
          obtain sz t where st: "st = (sz, t)" by fastforce
          note ex = exact_leaf_size_Some [OF Ok [unfolded Some st]]
          note t = size_to_level_size [OF ex(6)]
          obtain rd w1 where d: "map_leaf_direct_sized_no_flush E root rg (rng_start phys) (mf_leaf flags) sz t w = (rd, w1)"
            by fastforce
          obtain S where S: "S root = Some (LEVELS (e_meta E))" "good S w"
            using assms(1) by (auto simp: well_formed_def)
          from map_leaf_direct_good [OF S(2,1) t(5,1,2) ex(4,5) assms(2) d] S(1) have "well_formed E flags_ok live root w1"
            unfolding well_formed_def by (metis map_le_def domI)
          moreover have "w' = w1 \<or> w' = flush_leaf_range E rg w1"
            using run Contiguous ContiguousBacking Ok Some st d changed by (cases rd) (auto split: if_splits)
          ultimately show ?thesis by auto
        qed
      qed (use run Contiguous ContiguousBacking changed in \<open>auto split: if_splits\<close>)
    qed
  qed
qed

lemma table_exec_formed:
  assumes "well_formed E flags_ok live root w" "op_legal (e_addr E) flags_ok op"
    and "table_exec (walker_page_table E) op (root, w) = (r, (root', w'))"
  shows "root' = root \<and> well_formed E flags_ok live root w'"
proof -
  obtain S where S: "S root = Some (LEVELS (e_meta E))" "good S w" using assms(1) by (auto simp: well_formed_def)
  have keep: "well_formed E flags_ok live root u" if "good S u" for u
    using that S(1) by (auto simp: well_formed_def)
  show ?thesis
  proof (cases op)
    case (TMap rg src flags)
    obtain r1 w1 where n: "walker_map E root rg src flags w = (r1, w1)" by fastforce
    have "well_formed E flags_ok live root w1" using assms(2) by (intro walker_map_formed [OF assms(1) _ n]) (simp add: TMap)
    then show ?thesis using assms(3) by (simp add: TMap n walker_page_table_def)
  next
    case (TRemap rg p flags)
    obtain r1 w1 where n: "remap_no_flush E root rg p flags w = (r1, w1)" by fastforce
    have "well_formed E flags_ok live root w1" using keep remap_good [OF S(2,1) _ n] assms(2) TRemap by simp
    then show ?thesis
      using assms(3) by (cases r1) (auto simp: TRemap n walker_page_table_def remap_def forget_def)
  next
    case (TProtect rg flags)
    obtain r1 w1 where n: "protect_no_flush E root rg flags w = (r1, w1)" by fastforce
    have "well_formed E flags_ok live root w1" using keep protect_good [OF S(2,1) _ n] assms(2) TProtect by simp
    then show ?thesis
      using assms(3) by (cases r1) (auto simp: TProtect n walker_page_table_def protect_def forget_def)
  next
    case (TUnmap rg)
    obtain r1 w1 where n: "unmap_no_flush E root rg w = (r1, w1)" by fastforce
    have "well_formed E flags_ok live root w1"
      using unmap_good [OF S(2,1) n] S(1) unfolding well_formed_def by blast
    then show ?thesis
      using assms(3) by (cases r1) (auto simp: TUnmap n walker_page_table_def unmap_def forget_def)
  next
    case (TSplit rg)
    obtain r1 w1 where n: "split_at E root rg w = (r1, w1)" by fastforce
    have "well_formed E flags_ok live root w1"
      using split_good [OF S(2,1) n] S(1) unfolding well_formed_def by (metis map_le_def domI)
    then show ?thesis using assms(3) by (auto simp: TSplit n walker_page_table_def forget_def)
  next
    case (TMerge rg)
    obtain r1 w1 where n: "merge_at E root rg w = (r1, w1)" by fastforce
    have "well_formed E flags_ok live root w1"
      using merge_good [OF S(2,1) n] S(1) unfolding well_formed_def by blast
    then show ?thesis using assms(3) by (auto simp: TMerge n walker_page_table_def forget_def)
  qed
qed

end

section \<open>The life of a walker\<close>

text \<open>
  A walker is created by \<^verbatim>\<open>try_new\<close> and then used: by requests through the trait, each with any result,
  and by batches through a cursor, which end with \<^verbatim>\<open>finish\<close> or the drop of the cursor.
\<close>

inductive walker_life :: "('f, 's, 'h) env \<Rightarrow> ('f \<Rightarrow> bool) \<Rightarrow> paddr \<Rightarrow> ('s, 'h) world \<Rightarrow> bool"
  for E flags_ok root where
  created: "try_new E w0 = (Ok root, w) \<Longrightarrow> walker_life E flags_ok root w"
| requested: "\<lbrakk>walker_life E flags_ok root w; op_legal (e_addr E) flags_ok op;
    table_exec (walker_page_table E) op (root, w) = (r, (root', w'))\<rbrakk> \<Longrightarrow> walker_life E flags_ok root w'"
| batched: "\<lbrakk>walker_life E flags_ok root w; cursor_reach E flags_ok root w cw\<rbrakk> \<Longrightarrow>
    walker_life E flags_ok root (cursor_finish E cw)"

context walker
begin

lemma life_formed: "walker_life E flags_ok root w \<Longrightarrow> well_formed E flags_ok live root w"
proof (induction rule: walker_life.induct)
  case (created w0 w)
  then show ?case by (rule try_new_good)
next
  case (requested w op r root' w')
  then show ?case using table_exec_formed by blast
next
  case (batched w cw)
  then show ?case
    using cursor_reach_formed cursor_finish_formed by (cases cw) blast
qed

text \<open>Also in the middle of a batch.\<close>

lemma batch_life_formed:
  "\<lbrakk>walker_life E flags_ok root w; cursor_reach E flags_ok root w (c, w1)\<rbrakk> \<Longrightarrow>
     well_formed E flags_ok live root w1"
  by (rule batch_formed_world [OF cursor_reach_formed [OF life_formed]])

end

end
