(* ===== verification/Hardware.thy ===== *)
theory Hardware
  imports FormCursor Progress
begin

text \<open>
  What a page walk of the CPU needs to know of the state that the walker leaves behind: the entries are
  formed, the last address of the address space is not mapped (no range of the crate can hold it), and
  the frames are read through the kernel window. The theories of the two hardware walkers start here.
\<close>

section \<open>The last address\<close>

text \<open>The end of a range is exclusive and fits 64 bits, so no range contains the last address.\<close>

definition last_free :: "('f, 's, 'h) env \<Rightarrow> paddr \<Rightarrow> ('s, 'h) world \<Rightarrow> bool" where
  "last_free E root w \<longleftrightarrow> (vaddr_is_valid (e_meta E) (-1) \<longrightarrow> query E root (-1) (mem w) = Err NotMapped)"

lemma last_not_in_range: "\<not> in_range rg (-1)"
  by (simp add: in_range_def not_less)

lemma last_free_outside:
  assumes "last_free E root w" "\<And>v. \<not> in_range rg v \<Longrightarrow> query E root v (mem w') = query E root v (mem w)"
  shows "last_free E root w'"
  using assms(1) assms(2) [OF last_not_in_range] by (simp add: last_free_def)

lemma last_free_map:
  assumes "last_free E root w" "maps_range E root (rng_start rg) n g f w w'"
    and "addr_lib_ok (e_addr E)" "range_ok rg" "n \<le> unat (range_size (e_addr E) rg)"
  shows "last_free E root w'"
proof -
  have "unat (rng_start rg) + n \<le> unat (rng_end rg)" using range_end_nat [OF assms(3,4)] assms(5) by simp
  also have "\<dots> \<le> unat (-1 :: u64)" by (simp add: word_le_nat_alt [symmetric])
  finally have "\<not> (unat (rng_start rg) \<le> unat (-1 :: u64) \<and> unat (-1 :: u64) < unat (rng_start rg) + n)" by simp
  then have "query E root (-1) (mem w') = query E root (-1) (mem w)"
    using assms(2) unfolding maps_range_def by meson
  then show ?thesis using assms(1) by (simp add: last_free_def)
qed

context walker
begin

lemma walker_map_last:
  assumes "tree_ok E live root w" "last_free E root w" "op_legal (e_addr E) flags_ok (TMap rg src flags)"
    and "walker_map E root rg src flags w = (r, w')"
  shows "tree_ok E live root w' \<and> last_free E root w'"
proof -
  obtain b where b: "flags_ok (mf_leaf flags)" "range_ok rg" "backing_ok b"
    "into_map_backing (e_addr E) src (range_size (e_addr E) rg) = Ok b"
    using assms(3) by (auto split: res.splits)
  from walker_map_spec [OF assms(1) b assms(4)] show ?thesis
    using last_free_map [OF assms(2) _ addr_ok b(2)] by blast
qed

lemma remap_last:
  assumes "tree_ok E live root w" "last_free E root w" "flags_ok flags"
    and "remap_no_flush E root rg p flags w = (r, w')"
  shows "tree_ok E live root w' \<and> last_free E root w'"
  using remap_no_flush_spec [OF assms(1,3,4)] last_free_outside [OF assms(2), of rg w'] assms(2) by auto

lemma protect_last:
  assumes "tree_ok E live root w" "last_free E root w" "flags_ok flags"
    and "protect_no_flush E root rg flags w = (r, w')"
  shows "tree_ok E live root w' \<and> last_free E root w'"
  using protect_no_flush_spec [OF assms(1,3,4)] last_free_outside [OF assms(2), of rg w'] assms(2) by auto

lemma unmap_last:
  assumes "tree_ok E live root w" "last_free E root w" "unmap_no_flush E root rg w = (r, w')"
  shows "tree_ok E live root w' \<and> last_free E root w'"
  using unmap_no_flush_spec [OF assms(1,3)] last_free_outside [OF assms(2), of rg w'] assms(2) by auto

lemma split_last:
  assumes "tree_ok E live root w" "last_free E root w" "split_at E root rg w = (r, w')"
  shows "tree_ok E live root w' \<and> last_free E root w'"
  using split_at_spec [OF assms(1,3)] last_free_outside [OF assms(2), of rg w'] by blast

lemma merge_last:
  assumes "tree_ok E live root w" "last_free E root w" "merge_at E root rg w = (r, w')"
  shows "tree_ok E live root w' \<and> last_free E root w'"
  using merge_at_spec [OF assms(1,3)] last_free_outside [OF assms(2), of rg w'] unfolding merge_ok_def by blast

lemma flush_last [simp]:
  "tree_ok E live root (flush_leaf_range E rg w) = tree_ok E live root w"
  "last_free E root (flush_leaf_range E rg w) = last_free E root w"
  by (simp_all add: tree_ok_def last_free_def flush_leaf_range_state)

lemma table_exec_last:
  assumes "tree_ok E live root w" "last_free E root w" "op_legal (e_addr E) flags_ok op"
    and "table_exec (walker_page_table E) op (root, w) = (r, (root', w'))"
  shows "tree_ok E live root w' \<and> last_free E root w'"
proof (cases op)
  case (TMap rg src flags)
  obtain r1 w1 where n: "walker_map E root rg src flags w = (r1, w1)" by fastforce
  show ?thesis
    using assms(4) walker_map_last [OF assms(1,2) assms(3) [unfolded TMap] n] by (simp add: TMap n walker_page_table_def)
next
  case (TRemap rg p flags)
  obtain r1 w1 where n: "remap_no_flush E root rg p flags w = (r1, w1)" by fastforce
  have "flags_ok flags" using assms(3) by (simp add: TRemap)
  from remap_last [OF assms(1,2) this n] show ?thesis
    using assms(4) by (cases r1) (auto simp: TRemap n walker_page_table_def remap_def forget_def)
next
  case (TProtect rg flags)
  obtain r1 w1 where n: "protect_no_flush E root rg flags w = (r1, w1)" by fastforce
  have "flags_ok flags" using assms(3) by (simp add: TProtect)
  from protect_last [OF assms(1,2) this n] show ?thesis
    using assms(4) by (cases r1) (auto simp: TProtect n walker_page_table_def protect_def forget_def)
next
  case (TUnmap rg)
  obtain r1 w1 where n: "unmap_no_flush E root rg w = (r1, w1)" by fastforce
  from unmap_last [OF assms(1,2) n] show ?thesis
    using assms(4) by (cases r1) (auto simp: TUnmap n walker_page_table_def unmap_def forget_def)
next
  case (TSplit rg)
  obtain r1 w1 where n: "split_at E root rg w = (r1, w1)" by fastforce
  from split_last [OF assms(1,2) n] show ?thesis
    using assms(4) by (auto simp: TSplit n walker_page_table_def forget_def)
next
  case (TMerge rg)
  obtain r1 w1 where n: "merge_at E root rg w = (r1, w1)" by fastforce
  from merge_last [OF assms(1,2) n] show ?thesis
    using assms(4) by (auto simp: TMerge n walker_page_table_def forget_def)
qed

lemma cursor_exec_last:
  assumes "cursor_inv E live root cw" "last_free E root (snd cw)" "op_ok E flags_ok p"
    and "cursor_exec E root p cw = (res, cw')"
  shows "last_free E root (snd cw')"
proof -
  obtain c w where cw: "cw = (c, w)" by fastforce
  have ok: "tree_ok E live root w" "last_free E root w" using assms(1,2) by (simp_all add: cursor_inv_def cw)
  show ?thesis
  proof (cases p)
    case (MapOp rg src flags)
    then obtain b where b: "flags_ok (mf_leaf flags)" "range_ok rg" "backing_ok b"
      "into_map_backing (e_addr E) src (range_size (e_addr E) rg) = Ok b"
      using assms(3) by (auto split: res.splits)
    have "cursor_map E root rg src flags cw = (res, cw')" using assms(4) MapOp by simp
    from cursor_map_outcome [OF assms(1) b this] show ?thesis
      by (rule map_outcomeE) (use last_free_map [OF assms(2) _ addr_ok b(2)] in blast)
  next
    case (UnmapOp rg)
    obtain r w1 where n: "unmap_no_flush E root rg w = (r, w1)" by fastforce
    then show ?thesis
      using unmap_last [OF ok n] assms(4)
      by (cases r) (auto simp: UnmapOp cw cursor_unmap_def forget_def Let_def split: res.splits)
  next
    case (ProtectOp rg flags)
    obtain r w1 where n: "protect_no_flush E root rg flags w = (r, w1)" by fastforce
    have "flags_ok flags" using assms(3) ProtectOp by simp
    from protect_last [OF ok this n] show ?thesis
      using assms(4) n by (cases r) (auto simp: ProtectOp cw cursor_protect_def forget_def split: res.splits)
  next
    case (RemapOp rg q flags)
    obtain r w1 where n: "remap_no_flush E root rg q flags w = (r, w1)" by fastforce
    have "flags_ok flags" using assms(3) RemapOp by simp
    from remap_last [OF ok this n] show ?thesis
      using assms(4) n by (cases r) (auto simp: RemapOp cw cursor_remap_def forget_def split: res.splits)
  qed
qed

end

lemma page_offset_or: "(v :: u64) - (v AND NOT (mask k)) = v AND mask k"
proof -
  have "(v AND NOT (mask k)) + (v AND mask k) = (v AND NOT (mask k)) OR (v AND mask k)"
    by (rule disjunctive_add) (auto simp: bit_simps)
  also have "\<dots> = v" by (rule bit_word_eqI) (auto simp: bit_simps)
  finally show ?thesis by (metis add_diff_cancel_left')
qed

lemma last_block:
  assumes "k < 64" "checked_add (v AND NOT (mask k)) (bytes sz) = None" "k = size_shift sz"
  shows "drop_bit k (-1) = drop_bit k (v :: u64)"
proof -
  let ?n = "2 ^ (64 - k) :: nat"
  have top: "(2 :: nat) ^ 64 = ?n * 2 ^ k" using assms(1) by (simp add: power_add [symmetric])
  have less: "unat u div 2 ^ k < ?n" for u :: u64
    using unat_u64_less [of u] unfolding top by (rule less_mult_imp_div_less)
  have "2 ^ 64 \<le> unat v div 2 ^ k * 2 ^ k + 2 ^ k"
    using assms(2) unfolding checked_add_def unat_bytes unat_block_base assms(3) [symmetric] by (simp split: if_splits)
  then have "?n * 2 ^ k \<le> (unat v div 2 ^ k + 1) * 2 ^ k" unfolding top by (simp add: algebra_simps)
  then have "?n \<le> unat v div 2 ^ k + 1" by (rule mult_right_le_imp_le) simp
  moreover have "unat v div 2 ^ k \<le> unat (-1 :: u64) div 2 ^ k"
    by (intro div_le_mono) (simp add: word_le_nat_alt [symmetric])
  ultimately have "unat (-1 :: u64) div 2 ^ k = unat v div 2 ^ k" using less [of v] less [of "-1"] by linarith
  then show ?thesis by (metis unat_drop_bit word_unat_eq_iff)
qed

section \<open>What holds in every state of a walker\<close>

definition settled :: "('f, 's, 'h) env \<Rightarrow> ('f \<Rightarrow> bool) \<Rightarrow> ('s \<Rightarrow> paddr set) \<Rightarrow> paddr \<Rightarrow>
    ('s, 'h) world \<Rightarrow> bool" where
  "settled E flags_ok live root w \<longleftrightarrow>
     tree_ok E live root w \<and> well_formed E flags_ok live root w \<and> last_free E root w"

text \<open>The translation of a mapped address: the frame of the leaf, and the offset in its page.\<close>

definition mapping_pa :: "'f mapping \<Rightarrow> vaddr \<Rightarrow> paddr" where
  "mapping_pa mp v = m_paddr mp + (v - rng_start (m_range mp))"

context walker
begin

text \<open>In a formed table a walk ends at a leaf or at an absent entry.\<close>

lemma find_leaf_formed:
  "\<lbrakk>good S w; S cur = Some l\<rbrakk> \<Longrightarrow>
     find_leaf E (mem w) l cur v = Err NotMapped \<or> (\<exists>x. find_leaf E (mem w) l cur v = Ok x)"
proof (induction l arbitrary: cur)
  case 0
  then show ?case using good_entry(4) by fastforce
next
  case (Suc l)
  let ?e = "read_entry E (mem w) cur (index_at (e_meta E) (Suc l) v)"
  note ge = good_entry(4,5) [OF Suc.prems]
  have f: "formed E flags_ok S (Suc l) ?e"
    by (rule forms_okD(3) [OF Suc.prems good_entry(2) [OF Suc.prems]])
  show ?case
  proof (rule formed_cases [OF Suc.prems(1) f ge])
    fix g assume "S g = Some (Suc l - 1)" "is_present (e_pte E) ?e" "entry_kind (e_pte E) ?e (Suc l) = Table"
      "pte_paddr (e_pte E) ?e = g"
    then show ?thesis using Suc.IH [OF Suc.prems(1), of g] by (simp add: Let_def entry_is_leaf_def)
  qed (simp_all add: Let_def entry_is_leaf_def)
qed

lemma formed_no_invalid:
  assumes "well_formed E flags_ok live root w"
  shows "no_invalid E root w"
  unfolding no_invalid_def
proof
  fix v
  obtain S where S: "good S w" "S root = Some (LEVELS (e_meta E))" using assms by (auto simp: well_formed_def)
  from find_leaf_formed [OF S, of v] show "query E root v (mem w) \<noteq> Err InvalidEntryKind"
    by (auto simp: query_view view_def check_vaddr_def decode_def leaf_range_def ok_or_def
        split: option.splits prod.splits)
qed

lemma settled_formed: "settled E flags_ok live root w \<Longrightarrow> no_invalid E root w"
  using formed_no_invalid by (simp add: settled_def)

lemma batch_settled:
  assumes s: "settled E flags_ok live root w" and total: "dealloc_total E live"
    and reach: "cursor_reach E flags_ok root w (c, w1)"
  shows "settled E flags_ok live root w1"
proof -
  have ok: "tree_ok E live root w" "no_invalid E root w" using s settled_formed by (simp_all add: settled_def)
  have "last_free E root (snd cw)" if "cursor_reach E flags_ok root w cw" for cw
    using that
  proof induction
    case fresh
    show ?case using s by (simp add: settled_def)
  next
    case (more cw cw')
    from more.hyps(2) obtain p res where p: "op_ok E flags_ok p" "cursor_exec E root p cw = (res, cw')"
      by (rule cursor_stepE)
    have "cursor_inv E live root cw" using reach_inv [OF ok total more.hyps(1)] by simp
    then show ?case by (rule cursor_exec_last [OF _ more.IH p])
  qed
  from this [OF reach] reach_inv [OF ok total reach] show ?thesis
    using batch_formed_world [OF cursor_reach_formed [OF _ reach]] s by (simp add: settled_def cursor_inv_def)
qed

lemma finish_settled:
  assumes "settled E flags_ok live root w" "dealloc_total E live" "cursor_reach E flags_ok root w cw"
  shows "settled E flags_ok live root (cursor_finish E cw)"
proof -
  obtain c w1 where cw: "cw = (c, w1)" by fastforce
  have s: "settled E flags_ok live root w1" by (rule batch_settled [OF assms(1,2) assms(3) [unfolded cw]])
  have "mem (snd (flush_pending E c w1)) = mem w1 \<and> astate (snd (flush_pending E c w1)) = astate w1"
    by (auto simp: flush_pending_def Let_def emit_def split: prod.splits)
  then have "mem (cursor_finish E cw) = mem w1" "astate (cursor_finish E cw) = astate w1"
    by (simp_all add: cw cursor_drain)
  then show ?thesis
    using s by (simp add: settled_def tree_ok_def last_free_def well_formed_def forms_ok_def)
qed

text \<open>From the creation of the walker on, and in the middle of a batch.\<close>

lemma life_settled: "\<lbrakk>walker_life E flags_ok root w; dealloc_total E live\<rbrakk> \<Longrightarrow> settled E flags_ok live root w"
proof (induction rule: walker_life.induct)
  case (created w0 w)
  note n = try_new_spec(3) [OF created.hyps refl]
  then have "last_free E root w" by (simp add: last_free_def query_view check_vaddr_def)
  then show ?case using n try_new_good [OF created.hyps] by (simp add: settled_def)
next
  case (requested w op r root' w')
  then show ?case
    using table_exec_last [OF _ _ requested.hyps(2,3)] table_exec_formed [OF _ requested.hyps(2,3)]
    by (simp add: settled_def)
next
  case (batched w cw)
  then show ?case using finish_settled by blast
qed

lemma batch_life_settled:
  "\<lbrakk>walker_life E flags_ok root w; dealloc_total E live; cursor_reach E flags_ok root w (c, w1)\<rbrakk> \<Longrightarrow>
     settled E flags_ok live root w1"
  by (rule batch_settled [OF life_settled])

section \<open>A lookup and the entry it reads\<close>

text \<open>A leaf never covers the last address, so its range is representable and the lookup succeeds.\<close>

lemma settled_leaf_range:
  assumes s: "settled E flags_ok live root w" and v: "vaddr_is_valid (e_meta E) v"
    and vw: "root_view E w root v = Ok (t, e)" and sz: "leaf_size_at_level (e_meta E) t = Some sz"
  shows "leaf_range (e_addr E) v sz =
    Ok \<lparr>rng_start = v AND NOT (mask (size_shift sz)), rng_end = (v AND NOT (mask (size_shift sz))) + bytes sz\<rparr>"
proof (rule ccontr)
  let ?k = "size_shift sz" and ?M = "e_meta E"
  assume n: "\<not> ?thesis"
  have "checked_add (v AND NOT (mask ?k)) (bytes sz) = None"
  proof (rule ccontr)
    assume "\<not> ?thesis"
    then obtain x where x: "checked_add (v AND NOT (mask ?k)) (bytes sz) = Some x" by blast
    from checked_add_Some [OF x] x n show False
      using leaf_range_Ok [OF addr_ok, of v sz] by auto
  qed
  then have same: "drop_bit ?k (-1) = drop_bit ?k v" by (rule last_block [OF size_shift_less(1) _ refl])
  obtain f where fl: "find_leaf E (mem w) (LEVELS ?M) root v = Ok (t, f, e)"
    using vw by (auto simp: view_def bind_res_eq_Ok)
  note ta = find_leaf_table_at [OF fl]
  have t: "1 \<le> t" "t \<le> LEVELS ?M" using table_at_level ta by blast+
  have sh: "level_shift ?M t = ?k" using leaf_size [OF t, of sz] sz by blast
  have l: "vaddr_is_valid ?M (-1)" by (rule valid_block [OF v t]) (simp only: sh same)
  have "same_path ?M t v (-1)" using same_path_block [OF v l t] same by (simp add: sh)
  then have "root_view E w root (-1) = entry_view E (mem w) t e (-1)"
    using view_at [OF ta [THEN conjunct1] order.refl, of "-1"] ta by (simp only: same_path_def)
  moreover have "is_present (e_pte E) e" "entry_kind (e_pte E) e t = Leaf" using ta by blast+
  then have "entry_view E (mem w) t e (-1) = Ok (t, e)" by (simp add: entry_view_def entry_is_leaf_def)
  ultimately have "root_view E w root (-1) = Ok (t, e)" by simp
  then have "query E root (-1) (mem w) \<noteq> Err NotMapped"
    using sz by (auto simp: query_view check_vaddr_def l decode_def leaf_range_def ok_or_def split: option.splits)
  then show False using s l by (simp add: settled_def last_free_def)
qed

lemma settled_query:
  assumes s: "settled E flags_ok live root w" and v: "vaddr_is_valid (e_meta E) v"
  shows "root_view E w root v = Err NotMapped \<and> query E root v (mem w) = Err NotMapped \<or>
    (\<exists>t e mp p f sz. root_view E w root v = Ok (t, e) \<and> query E root v (mem w) = Ok mp \<and>
       level_supports_leaf (e_meta E) t sz \<and> is_aligned sz p \<and> paddr_is_valid (e_meta E) p \<and> flags_ok f \<and>
       e = new_leaf (e_pte E) p f sz \<and> m_flags mp = pte_flags (e_pte E) e \<and>
       mapping_pa mp v = p + (v AND mask (size_shift sz)))"
proof -
  obtain S where S: "good S w" "S root = Some (LEVELS (e_meta E))" using s by (auto simp: settled_def well_formed_def)
  from find_leaf_formed [OF S, of v] show ?thesis
  proof (elim disjE exE)
    assume "find_leaf E (mem w) (LEVELS (e_meta E)) root v = Err NotMapped"
    then show ?thesis using v by (simp add: query_view view_def check_vaddr_def)
  next
    fix x assume "find_leaf E (mem w) (LEVELS (e_meta E)) root v = Ok x"
    then obtain t c e where fl: "find_leaf E (mem w) (LEVELS (e_meta E)) root v = Ok (t, c, e)"
      by (cases x) auto
    then have vw: "root_view E w root v = Ok (t, e)" by (simp add: view_def)
    note g = find_leaf_good [OF S fl]
    from g show ?thesis
    proof (elim conjE, goal_cases)
      case 1
      from formed_leaf [OF S(1) 1] obtain p f sz where l: "level_supports_leaf (e_meta E) t sz"
        "leaf_size_at_level (e_meta E) t = Some sz" "is_aligned sz p" "paddr_is_valid (e_meta E) p"
        "flags_ok f" "e = new_leaf (e_pte E) p f sz" "pte_paddr (e_pte E) e = p" by metis
      note lr = settled_leaf_range [OF s v vw l(2)]
      let ?b = "v AND NOT (mask (size_shift sz))"
      have "v - ?b = v AND mask (size_shift sz)"
        by (rule page_offset_or)
      then show ?thesis using v vw l lr
        by (intro disjI2 exI [of _ t] exI [of _ e] exI [of _ p] exI [of _ f] exI [of _ sz]
              exI [of _ "mapping_new \<lparr>rng_start = ?b, rng_end = ?b + bytes sz\<rparr> p (pte_flags (e_pte E) e)"])
          (simp add: query_view check_vaddr_def decode_def mapping_new_def mapping_pa_def)
    qed
  qed
qed

end

section \<open>Physical memory\<close>

text \<open>
  The cell at a physical address, as the kernel sees it through its window; the window is linear over
  every table frame.
\<close>

definition phys_read :: "('f, 's, 'h) env \<Rightarrow> memory \<Rightarrow> paddr \<Rightarrow> u64" where
  "phys_read E m p = m (phys_to_virt (e_alloc E) p)"

definition linear_window :: "('f, 's, 'h) env \<Rightarrow> bool" where
  "linear_window E \<longleftrightarrow> (\<forall>f i. frame_ok (e_meta E) f \<and> i < ENTRIES_PER_TABLE (e_meta E) \<longrightarrow>
     phys_to_virt (e_alloc E) (f + of_nat i * 8) = phys_to_virt (e_alloc E) f + of_nat i * 8)"

lemma phys_read_entry:
  "\<lbrakk>linear_window E; frame_ok (e_meta E) f; i < ENTRIES_PER_TABLE (e_meta E)\<rbrakk> \<Longrightarrow>
     phys_read E m (f + of_nat i * 8) = read_entry E m f i"
  by (simp add: phys_read_def linear_window_def read_entry_def entry_cell_def)

end
