(* ===== verification/Coherence.thy ===== *)
theory Coherence
  imports Hardware
begin

text \<open>
  The walker next to a CPU that caches translations: at any time the CPU may walk the tables and keep the
  result in its TLB, or drop an entry; while a request runs it may see the table before or after the
  change; the invalidations that an operation issues remove entries. Between requests no cached translation differs
  from the tables, and during a batch only those that the batch is going to invalidate.
\<close>

section \<open>The system\<close>

type_synonym 'x tlb = "(vaddr \<times> 'x) set"

definition tlb_after :: "('h \<Rightarrow> nat set) \<Rightarrow> 'h list \<Rightarrow> 'x tlb \<Rightarrow> 'x tlb" where
  "tlb_after iv hs T = {e \<in> T. unat (fst e) \<notin> invalidated iv hs}"

text \<open>
  The state is the TLB, the open cursor if there is one, and the world. The walk of the CPU is a
  parameter: memory and an address to the result of the walk, if there is no fault.
\<close>

inductive cpu_run :: "('f, 's, 'h) env \<Rightarrow> ('f \<Rightarrow> bool) \<Rightarrow> ('h \<Rightarrow> nat set) \<Rightarrow>
    (memory \<Rightarrow> vaddr \<Rightarrow> 'x option) \<Rightarrow> paddr \<Rightarrow> 'x tlb \<Rightarrow> cursor option \<Rightarrow> ('s, 'h) world \<Rightarrow> bool"
  for E flags_ok iv xl root where
  boot: "try_new E w0 = (Ok root, w) \<Longrightarrow> cpu_run E flags_ok iv xl root {} None w"
| fill: "\<lbrakk>cpu_run E flags_ok iv xl root T c w; xl (mem w) v = Some x\<rbrakk> \<Longrightarrow>
    cpu_run E flags_ok iv xl root (insert (v, x) T) c w"
| evict: "\<lbrakk>cpu_run E flags_ok iv xl root T c w; T' \<subseteq> T\<rbrakk> \<Longrightarrow> cpu_run E flags_ok iv xl root T' c w"
| request: "\<lbrakk>cpu_run E flags_ok iv xl root T None w; op_legal (e_addr E) flags_ok op;
    table_exec (walker_page_table E) op (root, w) = (r, (root', w'));
    \<And>v x. (v, x) \<in> F \<Longrightarrow> xl (mem w) v = Some x \<or> xl (mem w') v = Some x\<rbrakk> \<Longrightarrow>
    cpu_run E flags_ok iv xl root (tlb_after iv (issued w w') (T \<union> F)) None w'"
| batch: "cpu_run E flags_ok iv xl root T None w \<Longrightarrow> cpu_run E flags_ok iv xl root T (Some cursor_new) w"
| step: "\<lbrakk>cpu_run E flags_ok iv xl root T (Some c) w; op_ok E flags_ok p;
    cursor_exec E root p (c, w) = (r, (c', w'));
    \<And>v x. (v, x) \<in> F \<Longrightarrow> xl (mem w) v = Some x \<or> xl (mem w') v = Some x\<rbrakk> \<Longrightarrow>
    cpu_run E flags_ok iv xl root (tlb_after iv (issued w w') (T \<union> F)) (Some c') w'"
| finish: "\<lbrakk>cpu_run E flags_ok iv xl root T (Some c) w; w' = cursor_finish E (c, w)\<rbrakk> \<Longrightarrow>
    cpu_run E flags_ok iv xl root (tlb_after iv (issued w w') T) None w'"

section \<open>The invariant\<close>

text \<open>
  A CPU whose walk depends on the translation only, next to a TLB back end that meets its contract.
\<close>

locale coherent_cpu = walker E flags_ok norm live
  for E :: "('f, 's, 'h) env" and flags_ok :: "'f \<Rightarrow> bool" and norm :: "'f \<Rightarrow> 'f" and live :: "'s \<Rightarrow> paddr set" +
  fixes iv :: "'h \<Rightarrow> nat set" and accepts :: "vaddr \<Rightarrow> bool" and root :: paddr
    and xl :: "memory \<Rightarrow> vaddr \<Rightarrow> 'x option"
  assumes total: "dealloc_total E live"
    and tlb: "tlb_contract (e_tlb E) (BASE_PAGE_SIZE (e_meta E)) iv accepts"
    and accepts_valid: "vaddr_is_valid (e_meta E) v \<Longrightarrow> accepts v"
    and walk: "\<lbrakk>settled E flags_ok live root w; settled E flags_ok live root w';
        resolve E root v (mem w') = resolve E root v (mem w)\<rbrakk> \<Longrightarrow> xl (mem w') v = xl (mem w) v"
begin

fun cpu_inv :: "'x tlb \<Rightarrow> cursor option \<Rightarrow> ('s, 'h) world \<Rightarrow> bool" where
  "cpu_inv T None w \<longleftrightarrow> settled E flags_ok live root w \<and> (\<forall>(v, x)\<in>T. xl (mem w) v = Some x)"
| "cpu_inv T (Some c) w \<longleftrightarrow> cursor_inv E live root (c, w) \<and> batch_formed root (c, w) \<and> last_free E root w \<and>
     (needs_full_flush c \<or> to_flush base c \<subseteq> unat ` {v. vaddr_is_valid (e_meta E) v}) \<and>
     (\<forall>(v, x)\<in>T. xl (mem w) v = Some x \<or> unat v \<in> to_flush base c)"

lemma batch_inv_settled: "cpu_inv T (Some c) w \<Longrightarrow> settled E flags_ok live root w"
  using batch_formed_world by (auto simp: settled_def cursor_inv_def)

lemma table_exec_settled:
  assumes "settled E flags_ok live root w" "op_legal (e_addr E) flags_ok op"
    and "table_exec (walker_page_table E) op (root, w) = (r, (root', w'))"
  shows "settled E flags_ok live root w'"
  using assms table_exec_last [OF _ _ assms(2,3)] table_exec_formed [OF _ assms(2,3)] by (simp add: settled_def)

text \<open>A request of the trait invalidates every address whose translation it changed.\<close>

lemma table_exec_flushed:
  assumes s: "settled E flags_ok live root w" and legal: "op_legal (e_addr E) flags_ok op"
    and run: "table_exec (walker_page_table E) op (root, w) = (r, (root', w'))"
    and changed: "resolve E root v (mem w') \<noteq> resolve E root v (mem w)"
  shows "unat v \<in> invalidated iv (issued w w')"
proof -
  have ok: "tree_ok E live root w" using s by (simp add: settled_def)
  have q: "query E root v (mem w') \<noteq> query E root v (mem w)" using changed resolve_cong by metis
  have ex: ?thesis if "op_ok E flags_ok p" "walker_exec E root p w = (r', w')" for p r'
    using exec_flushed [OF tlb accepts_valid ok total that] q flushed_issued by blast
  show ?thesis
  proof (cases op)
    case (TMap rg src flags)
    show ?thesis
      by (rule ex [of "MapOp rg src flags"]) (use legal run TMap in \<open>auto simp: walker_page_table_def map_prod_def split: prod.splits\<close>)
  next
    case (TRemap rg p flags)
    show ?thesis
      by (rule ex [of "RemapOp rg p flags"])
        (use legal run TRemap in \<open>auto simp: walker_page_table_def forget_def map_prod_def split: prod.splits\<close>)
  next
    case (TProtect rg flags)
    show ?thesis
      by (rule ex [of "ProtectOp rg flags"])
        (use legal run TProtect in \<open>auto simp: walker_page_table_def forget_def map_prod_def split: prod.splits\<close>)
  next
    case (TUnmap rg)
    show ?thesis
      by (rule ex [of "UnmapOp rg"])
        (use legal run TUnmap in \<open>auto simp: walker_page_table_def forget_def map_prod_def split: prod.splits\<close>)
  next
    case (TSplit rg)
    obtain r1 where "split_at E root rg w = (r1, w')"
      using run TSplit by (auto simp: walker_page_table_def forget_def map_prod_def split: prod.splits)
    from split_at_spec [OF ok this] show ?thesis using changed by blast
  next
    case (TMerge rg)
    obtain r1 where "merge_at E root rg w = (r1, w')"
      using run TMerge by (auto simp: walker_page_table_def forget_def map_prod_def split: prod.splits)
    from merge_at_spec [OF ok this] show ?thesis using changed by (auto simp: merge_ok_def)
  qed
qed

lemma tlb_after_keep: "(v, x) \<in> tlb_after iv hs T \<longleftrightarrow> (v, x) \<in> T \<and> unat v \<notin> invalidated iv hs"
  by (simp add: tlb_after_def)

lemma step_inv:
  assumes inv: "cpu_inv T (Some c) w" and p: "op_ok E flags_ok p" "cursor_exec E root p (c, w) = (r, (c', w'))"
    and F: "\<And>v x. (v, x) \<in> F \<Longrightarrow> xl (mem w) v = Some x \<or> xl (mem w') v = Some x"
  shows "cpu_inv (tlb_after iv (issued w w') (T \<union> F)) (Some c') w'"
proof -
  have s: "settled E flags_ok live root w" by (rule batch_inv_settled [OF inv])
  have ci: "cursor_inv E live root (c, w)" and bf: "batch_formed root (c, w)" and lf: "last_free E root w"
    and qs: "needs_full_flush c \<or> to_flush base c \<subseteq> unat ` {v. vaddr_is_valid (e_meta E) v}"
    using inv by simp_all
  have ef: "cursor_inv E live root (c', w')" "covers E root (c, w) (c', w')"
    using exec_effect [OF ci _ total p] settled_formed [OF s] by simp_all
  note cv = ef(2) [unfolded covers_def prod.case Let_def]
  have bf': "batch_formed root (c', w')" by (rule cursor_exec_formed [OF bf p])
  have lf': "last_free E root w'" using cursor_exec_last [OF ci _ p] lf by simp
  have s': "settled E flags_ok live root w'"
    using ef(1) batch_formed_world [OF bf'] lf' by (simp add: settled_def cursor_inv_def)
  have same: "xl (mem w') v = xl (mem w) v \<or> unat v \<in> to_flush base c'" for v
    using walk [OF s s', of v] cv resolve_cong [of E root v "mem w'" "mem w"] by blast
  have entry: "xl (mem w') v = Some x \<or> unat v \<in> to_flush base c'" if "(v, x) \<in> T \<union> F" for v x
  proof -
    have "xl (mem w) v = Some x \<or> xl (mem w') v = Some x \<or> unat v \<in> to_flush base c"
      using that inv F by fastforce
    then show ?thesis using same [of v] cv by auto
  qed
  have "needs_full_flush c' \<or> to_flush base c' \<subseteq> unat ` {v. vaddr_is_valid (e_meta E) v}"
  proof (cases "needs_full_flush c")
    case True
    then have "to_flush base c' = UNIV" using cv by (auto simp: to_flush_def)
    moreover have "finite (covered base (pending_flushes c'))" by (simp add: covered_def)
    ultimately show ?thesis using infinite_UNIV_nat by (auto simp: to_flush_def split: if_splits)
  next
    case False
    then show ?thesis using qs cv by blast
  qed
  moreover have "\<forall>(v, x)\<in>tlb_after iv (issued w w') (T \<union> F). xl (mem w') v = Some x \<or> unat v \<in> to_flush base c'"
  proof safe
    fix v x assume "(v, x) \<in> tlb_after iv (issued w w') (T \<union> F)" and n: "unat v \<notin> to_flush base c'"
    then have "(v, x) \<in> T \<union> F" by (simp only: tlb_after_keep)
    then show "xl (mem w') v = Some x" using entry [of v x] n by blast
  qed
  ultimately show ?thesis using ef(1) bf' lf' by simp
qed

lemma finish_inv:
  assumes inv: "cpu_inv T (Some c) w" and w': "w' = cursor_finish E (c, w)"
  shows "cpu_inv (tlb_after iv (issued w w') T) None w'"
proof -
  have s: "settled E flags_ok live root w" by (rule batch_inv_settled [OF inv])
  obtain c' u where f: "flush_pending E c w = (c', u)" by fastforce
  have acc: "needs_full_flush c \<or> (\<forall>x\<in>to_flush base c. accepts (of_nat x))"
    using inv accepts_valid by auto
  have "flush_inv base c" using inv by (simp add: cursor_inv_def)
  from tlb_contract.flush_pending_spec [OF tlb refl refl this acc f]
  obtain hs where hs: "w' = emit hs w" "to_flush base c \<subseteq> invalidated iv hs"
    by (auto simp: w' cursor_drain f)
  have m: "mem w' = mem w" "astate w' = astate w" by (simp_all add: hs(1) emit_def)
  have "settled E flags_ok live root w'"
    using s by (simp add: settled_def tree_ok_def last_free_def well_formed_def forms_ok_def m)
  moreover have "issued w w' = hs" by (simp add: hs(1) issued_only)
  moreover have "xl (mem w) v = Some x" if "(v, x) \<in> T" "unat v \<notin> invalidated iv hs" for v x
    using that inv hs(2) by fastforce
  ultimately show ?thesis by (auto simp: tlb_after_keep m)
qed

lemma request_inv:
  assumes inv: "cpu_inv T None w" and op: "op_legal (e_addr E) flags_ok op"
    "table_exec (walker_page_table E) op (root, w) = (r, (root', w'))"
    and F: "\<And>v x. (v, x) \<in> F \<Longrightarrow> xl (mem w) v = Some x \<or> xl (mem w') v = Some x"
  shows "cpu_inv (tlb_after iv (issued w w') (T \<union> F)) None w'"
proof -
  have s: "settled E flags_ok live root w" using inv by simp
  note s' = table_exec_settled [OF s op]
  have "xl (mem w') v = Some x" if "(v, x) \<in> tlb_after iv (issued w w') (T \<union> F)" for v x
  proof -
    have vx: "(v, x) \<in> T \<union> F" "unat v \<notin> invalidated iv (issued w w')" using that by (simp_all add: tlb_after_keep)
    have "xl (mem w') v = xl (mem w) v" using walk [OF s s'] table_exec_flushed [OF s op] vx(2) by blast
    then show ?thesis using vx(1) inv F by fastforce
  qed
  then show ?thesis using s' by auto
qed

lemma cpu_run_inv: "cpu_run E flags_ok iv xl root T c w \<Longrightarrow> cpu_inv T c w"
proof (induction rule: cpu_run.induct)
  case (boot w0 w)
  then show ?case using life_settled [OF walker_life.created total] by simp
next
  case (fill T c w v x)
  then show ?case by (cases c) auto
next
  case (evict T c w T')
  then show ?case by (cases c) (auto dest: subsetD)
next
  case (request T w op r root' w' F)
  then show ?case by (intro request_inv)
next
  case (batch T w)
  then have s: "settled E flags_ok live root w" by simp
  then show ?case
    using batch cursor_inv_new cursor_new_formed [of root w] by (simp add: settled_def to_flush_new)
next
  case (step T c w p r c' w' F)
  then show ?case by (intro step_inv)
next
  case (finish T c w w')
  then show ?case by (intro finish_inv)
qed

text \<open>Between requests nothing stale is cached; the CPU may use what it has cached.\<close>

lemma tlb_coherent: "\<lbrakk>cpu_run E flags_ok iv xl root T None w; (v, x) \<in> T\<rbrakk> \<Longrightarrow> xl (mem w) v = Some x"
  using cpu_run_inv by fastforce

lemma cpu_run_settled: "cpu_run E flags_ok iv xl root T c w \<Longrightarrow> settled E flags_ok live root w"
  using cpu_run_inv batch_inv_settled by (cases c) fastforce+

end

end
