(* ===== verification/RefHost.thy ===== *)
theory RefHost
  imports Contracts
begin

text \<open>
  A reference host: a bump allocator over identity-mapped physical memory, for any paging
  format. It meets the host contract, so the contracts of the walker have instances on the
  concrete formats; the example runs of the properties use it.
\<close>

record ref_heap =
  next_frame :: paddr
  owned :: "paddr list"

definition ref_alloc :: "meta_impl \<Rightarrow> ref_heap alloc_impl" where
  "ref_alloc M =
     \<lparr>allocate = (\<lambda>sz ps (s, m).
        let c = next_frame s; k = TABLE_FRAME_SIZE M in
        if is_aligned k c \<and> paddr_is_valid M c \<and> c \<notin> set (owned s)
        then (Ok \<lparr>rng_start = c, rng_end = c + sz\<rparr>,
              \<lparr>next_frame = c + bytes k, owned = c # owned s\<rparr>,
              (\<lambda>a. if a AND NOT (bytes k - 1) = c then 0 else m a))
        else (Err OutOfMemory, s, m)),
      deallocate = (\<lambda>r (s, m). (Ok (), s\<lparr>owned := removeAll (rng_start r) (owned s)\<rparr>, m)),
      phys_to_virt = (\<lambda>p. p)\<rparr>"

definition ref_live :: "meta_impl \<Rightarrow> ref_heap \<Rightarrow> paddr set" where
  "ref_live M s = {f \<in> set (owned s). frame_ok M f}"

definition ref_env :: "meta_impl \<Rightarrow> 'f pte_impl \<Rightarrow> 'h tlb_impl \<Rightarrow> ('f, ref_heap, 'h) env" where
  "ref_env M P T =
     \<lparr>e_meta = M, e_pte = P, e_alloc = ref_alloc M, e_tlb = T, e_addr = ref_addr_lib\<rparr>"

definition ref_world :: "paddr \<Rightarrow> (ref_heap, 'h) world" where
  "ref_world base =
     \<lparr>mem = (\<lambda>_. 0), astate = \<lparr>next_frame = base, owned = []\<rparr>, log = []\<rparr>"

section \<open>Cells of aligned frames\<close>

lemma frame_cell:
  assumes "f AND mask k = (0 :: u64)" "unat off < 2 ^ k" "k < 64"
  shows "(f + off) AND NOT (mask k) = f" "(f + off) AND mask k = off"
proof -
  have fb: "\<not> bit f n" if "n < k" for n using assms(1) that by (simp add: aligned_iff_bits)
  have ob: "\<not> bit off n" if "k \<le> n" for n
  proof -
    have "off < push_bit k 1"
      using assms(2) by (simp only: word_less_nat_alt unat_push_bit_one [OF assms(3)])
    then show ?thesis using that word_less_push_bit [OF assms(3)] by blast
  qed
  have sum: "f + off = f OR off"
    using fb ob by (intro disjunctive_add) (meson not_le)
  show "(f + off) AND NOT (mask k) = f" "(f + off) AND mask k = off"
    unfolding sum by (rule bit_word_eqI; use fb ob in \<open>auto simp: bit_simps bit_mask_word\<close>; meson not_le)+
qed

lemma entry_offset:
  assumes "i < n" "n * 8 \<le> 2 ^ k" "k < 64"
  shows "unat (of_nat i * 8 :: u64) = i * 8" "unat (of_nat i * 8 :: u64) < 2 ^ k"
proof -
  have "i * 8 < 2 ^ k" using assms(1,2) by linarith
  moreover have "(2 :: nat) ^ k < 2 ^ 64" using assms(3) by (rule power_strict_increasing) simp
  ultimately have l: "i * 8 < 2 ^ 64" by (rule less_trans)
  then have "unat (of_nat (i * 8) :: u64) = i * 8"
    unfolding unat_of_nat by simp
  then show "unat (of_nat i * 8 :: u64) = i * 8" by simp
  with \<open>i * 8 < 2 ^ k\<close> show "unat (of_nat i * 8 :: u64) < 2 ^ k" by simp
qed

section \<open>The host contract\<close>

context paging_geometry
begin

lemma ref_cell:
  assumes "frame_ok M f" "i < ENTRIES_PER_TABLE M"
  shows "entry_cell (ref_env M P T) f i AND NOT (mask (size_shift (TABLE_FRAME_SIZE M))) = f"
    "unat (entry_cell (ref_env M P T) f i AND mask (size_shift (TABLE_FRAME_SIZE M))) = i * 8"
proof -
  let ?k = "size_shift (TABLE_FRAME_SIZE M)"
  have al: "f AND mask ?k = 0" using assms(1) by (simp add: frame_ok_def is_aligned_mask)
  note off = entry_offset [OF assms(2) table_layout [unfolded unat_bytes] size_shift_less(1)]
  have c: "entry_cell (ref_env M P T) f i = f + of_nat i * 8"
    by (simp add: entry_cell_def ref_env_def ref_alloc_def)
  show "entry_cell (ref_env M P T) f i AND NOT (mask ?k) = f"
    "unat (entry_cell (ref_env M P T) f i AND mask ?k) = i * 8"
    unfolding c frame_cell [OF al off(2) size_shift_less(1)] using off(1) by simp_all
qed

lemma ref_host: "frame_host (ref_env M P T) (ref_live M)"
proof (unfold_locales, goal_cases)
  case 1
  then show ?case by (simp add: ref_env_def ref_addr_lib_ok)
next
  case (2 f g i j)
  have M: "e_meta (ref_env M P T) = M" by (simp add: ref_env_def)
  note a = 2 [unfolded M]
  have "f = g" using ref_cell(1) [OF a(1,3), of P T] ref_cell(1) [OF a(2,4), of P T] a(5) by metis
  moreover have "i * 8 = j * 8"
    using ref_cell(2) [OF a(1,3), of P T] ref_cell(2) [OF a(2,4), of P T] a(5) by metis
  ultimately show ?case by simp
next
  case (3 s m r s' m')
  let ?k = "TABLE_FRAME_SIZE M" and ?c = "next_frame s"
  have M: "e_meta (ref_env M P T) = M" by (simp add: ref_env_def)
  have c: "is_aligned ?k ?c" "paddr_is_valid M ?c" "?c \<notin> set (owned s)"
    and r: "rng_start r = ?c" "s' = \<lparr>next_frame = ?c + bytes ?k, owned = ?c # owned s\<rparr>"
      "m' = (\<lambda>a. if a AND NOT (mask (size_shift ?k)) = ?c then 0 else m a)"
    using 3 by (auto simp: ref_env_def ref_alloc_def Let_def bytes_minus_one split: if_splits)
  have fr: "frame_ok M ?c" using c by (simp add: frame_ok_def)
  have z: "read_entry (ref_env M P T) m' ?c i = 0" if "i < ENTRIES_PER_TABLE M" for i
    using ref_cell(1) [OF fr that, of P T] by (simp add: read_entry_def r)
  have k: "read_entry (ref_env M P T) m' f i = read_entry (ref_env M P T) m f i"
    if "f \<in> ref_live M s" "i < ENTRIES_PER_TABLE M" for f i
  proof -
    have "frame_ok M f" "f \<noteq> ?c" using that(1) c(3) by (auto simp: ref_live_def)
    then show ?thesis using ref_cell(1) [OF _ that(2), of f P T] by (simp add: read_entry_def r)
  qed
  show ?case
    using c fr z k unfolding M same_entries_def by (auto simp: r ref_live_def)
next
  case (4 s m e s' m')
  then show ?case
    by (auto simp: ref_env_def ref_alloc_def Let_def same_entries_def split: if_splits)
next
  case (5 s m)
  then show ?case by (simp add: ref_env_def ref_alloc_def Let_def)
next
  case (6 r s m res s' m')
  then show ?case
    by (auto simp: ref_env_def ref_alloc_def ref_live_def same_entries_def)
qed

lemma ref_walker:
  assumes "pte_codec P M flags_ok norm"
  shows "walker (ref_env M P T) flags_ok norm (ref_live M)"
proof -
  have M: "e_meta (ref_env M P T) = M" "e_pte (ref_env M P T) = P"
    by (simp_all add: ref_env_def)
  have "paging_geometry (e_meta (ref_env M P T))" unfolding M by unfold_locales
  moreover have "pte_codec (e_pte (ref_env M P T)) (e_meta (ref_env M P T)) flags_ok norm"
    unfolding M by (rule assms)
  ultimately show ?thesis
    using ref_host by (intro walker.intro)
qed

end

end
