(* ===== verification/X86Walker.thy ===== *)
theory X86Walker
  imports RefHost X86Entry
begin

text \<open>
  The x86_64 entry and metadata satisfy the contracts of the walker: 4- and 5-level paging
  are paging geometries, the x86 entry is a codec for both.
\<close>

section \<open>Geometry\<close>

lemma x86_canonical:
  assumes "0 < bits" "bits < 64"
  shows "x86_canonical_vaddr_is_valid v bits \<longleftrightarrow> canonical bits v"
  using canonical_test [OF assms, of v] assms by (simp add: x86_canonical_vaddr_is_valid_def Let_def)

lemma x86_supports_shift: "1 \<le> l \<Longrightarrow> x86_level_supports_leaf l sz \<Longrightarrow> x86_level_shift l = size_shift sz"
  by (auto simp: x86_level_supports_leaf_def x86_level_shift_def split: if_splits)

lemma x86_finer:
  assumes "1 \<le> l" "l < 5" "\<exists>s. x86_level_shift (Suc l) = size_shift s" "x86_level_shift l = size_shift sz"
  shows "x86_level_supports_leaf l sz"
proof -
  have "l = 1 \<or> l = 2 \<or> l = 3 \<or> l = 4" using assms(1,2) by auto
  then show ?thesis
  proof (elim disjE)
    assume "l = 4"
    then obtain s where "48 = size_shift s" using assms(3) by (auto simp: x86_level_shift_def)
    then show ?thesis using size_shift_less(2) [of s] by simp
  qed (use assms(4) in \<open>cases sz; simp add: x86_level_shift_def x86_level_supports_leaf_def\<close>)+
qed

lemma x86_supports_levels: "x86_level_supports_leaf l sz \<Longrightarrow> 1 \<le> l \<and> l \<le> 3"
  by (auto simp: x86_level_supports_leaf_def split: if_splits)

lemma x86_shift_simps [simp]: "x86_level_shift (Suc l) = 12 + l * 9"
  by (simp add: x86_level_shift_def)

lemma x86_shift_pos: "1 \<le> l \<Longrightarrow> x86_level_shift l = 3 + l * 9"
  by (cases l) simp_all

lemma x86_size_to_level:
  "default_size_to_level n x86_level_supports_leaf sz = Some t \<Longrightarrow>
     1 \<le> t \<and> t \<le> n \<and> x86_level_supports_leaf t sz"
  by (simp add: default_size_to_level_Some)

lemmas x86_meta_simps = MAX_LEVELS_def default_leaf_size_iff default_paddr_valid_bits
  x86_canonical x86_shift_pos

interpretation x86_48: paging_geometry X86Meta48
proof (unfold_locales, goal_cases)
  case (12 l sz)
  then show ?case by (simp add: X86Meta48_def x86_supports_shift)
next
  case (13 sz t)
  then show ?case using x86_size_to_level by (simp add: X86Meta48_def)
next
  case (15 l sz)
  then show ?case
    using x86_finer [of l sz] by (auto simp: X86Meta48_def default_leaf_size_iff)
next
  case (19 v v' n)
  then show ?case
    using canonical_agree [of 48 v v' n] by (simp add: X86Meta48_def x86_canonical)
next
  case (20 v v')
  then show ?case
    using canonical_cong [of 48 v v'] by (simp add: X86Meta48_def x86_canonical)
next
  case (21 l sz)
  then show ?case by (simp add: X86Meta48_def default_size_to_level_exists)
qed (simp_all add: X86Meta48_def x86_meta_simps)

interpretation x86_57: paging_geometry X86Meta57
proof (unfold_locales, goal_cases)
  case (12 l sz)
  then show ?case by (simp add: X86Meta57_def x86_supports_shift)
next
  case (13 sz t)
  then show ?case using x86_size_to_level by (simp add: X86Meta57_def)
next
  case (15 l sz)
  then show ?case
    using x86_finer [of l sz] by (auto simp: X86Meta57_def default_leaf_size_iff)
next
  case (19 v v' n)
  then show ?case
    using canonical_agree [of 57 v v' n] by (simp add: X86Meta57_def x86_canonical)
next
  case (20 v v')
  then show ?case
    using canonical_cong [of 57 v v'] by (simp add: X86Meta57_def x86_canonical)
next
  case (21 l sz)
  then show ?case by (simp add: X86Meta57_def default_size_to_level_exists)
qed (simp_all add: X86Meta57_def x86_meta_simps)

section \<open>The entry\<close>

lemma x86_leaf_paddr:
  assumes "is_aligned sz p" "default_paddr_is_valid 52 p"
  shows "x86_pte_paddr (x86_new_leaf p f sz') = p" "x86_pte_paddr (x86_new_table p l) = p"
  using x86_paddr_fits [OF aligned_4k [OF assms(1)] assms(2)]
  by (simp_all add: x86_new_leaf_paddr x86_new_table_paddr)

lemma x86_decoded_valid: "default_paddr_is_valid 52 (x86_pte_paddr e)"
  by (simp add: default_paddr_valid_bits x86_pte_paddr_def bit_and_iff bit_X86_ADDR_MASK)

lemma x86_decoded_normal:
  assumes "x86_is_present e"
  shows "x86_normal_flags (x86_flags_from_bits e) = x86_flags_from_bits e"
proof -
  have "af_bits (x86_access (x86_normal_flags (x86_flags_from_bits e))) =
      af_bits (x86_access (x86_flags_from_bits e))"
    using assms
    unfolding u8_eq_iff x86_normal_flags_def from_bits_truncate_def access_flags.sel
      x86_flags.select_convs bit_and_iff bit_or_iff bit_0x1f af_union_def bit_af_consts
      bit_x86_decoded_access x86_is_present_bit
    by simp
  moreover have "x86_attrs (x86_normal_flags (x86_flags_from_bits e)) = x86_attrs (x86_flags_from_bits e)"
    unfolding x86_normal_flags_def x86_flags.select_convs by (rule x86_decoded_attrs [symmetric])
  ultimately show ?thesis by (simp add: x86_flags.equality access_flags.expand)
qed

lemma x86_zero_absent: "\<not> x86_is_present 0"
  by (simp add: x86_is_present_def)

lemma x86_codec:
  assumes "M = X86Meta48 \<or> M = X86Meta57"
  shows "pte_codec X86Pte M (\<lambda>_. True) x86_normal_flags"
proof -
  have M: "level_supports_leaf M = x86_level_supports_leaf" "paddr_is_valid M = default_paddr_is_valid 52"
    "TABLE_FRAME_SIZE M = Size4K"
    using assms by (auto simp: X86Meta48_def X86Meta57_def)
  show ?thesis
  proof (unfold_locales, goal_cases)
    case (3 l sz f p)
    then show ?case
      by (auto simp: X86Pte_def M x86_new_leaf_kind x86_level_supports_leaf_def split: if_splits)
  next
    case (5 e)
    then show ?case by (simp add: X86Pte_def x86_entry_kind_def)
  next
    case (12 e l)
    then show ?case by (simp add: X86Pte_def x86_decoded_normal)
  qed (auto simp: X86Pte_def M x86_new_leaf_present x86_new_table_present x86_new_table_kind
      x86_leaf_paddr x86_decoded_valid x86_new_leaf_flags x86_pte_clear_def x86_zero_absent)
qed

interpretation x86_codec_48: pte_codec X86Pte X86Meta48 "\<lambda>_. True" x86_normal_flags
  by (rule x86_codec) simp

interpretation x86_codec_57: pte_codec X86Pte X86Meta57 "\<lambda>_. True" x86_normal_flags
  by (rule x86_codec) simp

end
