(* ===== verification/Rv64Entry.thy ===== *)
theory Rv64Entry
  imports Canonical
begin

text \<open>
  \<^verbatim>\<open>src/src/arch/riscv64/entry.rs\<close>: the RISC-V page-table entry, with and without the Svpbmt
  memory-type bits (the const parameter \<^verbatim>\<open>SVPBMT\<close> of the source is a boolean argument), its flag
  bundle, and the metadata of Sv39, Sv48 and Sv57.
\<close>

section \<open>Bit layout\<close>

definition RV_VALID :: u64 where "RV_VALID = push_bit 0 1"
definition RV_READ :: u64 where "RV_READ = push_bit 1 1"
definition RV_WRITE :: u64 where "RV_WRITE = push_bit 2 1"
definition RV_EXECUTE :: u64 where "RV_EXECUTE = push_bit 3 1"
definition RV_ACCESSED :: u64 where "RV_ACCESSED = push_bit 6 1"

definition PPN_SHIFT :: nat where "PPN_SHIFT = 10"
definition PPN_BITS :: nat where "PPN_BITS = 44"
definition PPN_MASK :: u64 where "PPN_MASK = push_bit PPN_SHIFT (push_bit PPN_BITS 1 - 1)"
definition PADDR_SHIFT :: nat where "PADDR_SHIFT = 12"
definition PADDR_MAX_BITS :: nat where "PADDR_MAX_BITS = 56"

definition RV64_PBMT_PMA :: u64 where "RV64_PBMT_PMA = 0"
definition RV64_PBMT_NC :: u64 where "RV64_PBMT_NC = 1"
definition RV64_PBMT_IO :: u64 where "RV64_PBMT_IO = 2"
definition RV64_PBMT_RESERVED :: u64 where "RV64_PBMT_RESERVED = 3"
definition RV64_PBMT_MASK :: u64 where "RV64_PBMT_MASK = push_bit 61 0b11"

definition HIGH_RESERVED_MASK :: u64 where "HIGH_RESERVED_MASK = push_bit 54 0x3ff"

definition HIGH_RESERVED_WITH_SVPBMT_MASK :: u64 where
  "HIGH_RESERVED_WITH_SVPBMT_MASK = HIGH_RESERVED_MASK AND NOT RV64_PBMT_MASK"

lemmas rv_bit_defs = RV_VALID_def RV_READ_def RV_WRITE_def RV_EXECUTE_def RV_ACCESSED_def

lemmas rv_pbmt_defs = RV64_PBMT_PMA_def RV64_PBMT_NC_def RV64_PBMT_IO_def RV64_PBMT_RESERVED_def

lemma bit_rv_consts:
  "bit RV_VALID n \<longleftrightarrow> n = 0"
  "bit RV_READ n \<longleftrightarrow> n = 1"
  "bit RV_WRITE n \<longleftrightarrow> n = 2"
  "bit RV_EXECUTE n \<longleftrightarrow> n = 3"
  "bit RV_ACCESSED n \<longleftrightarrow> n = 6"
  unfolding rv_bit_defs bit_push_bit_one by auto

lemma bit_PPN_MASK: "bit PPN_MASK n \<longleftrightarrow> 10 \<le> n \<and> n < 54"
proof -
  have "PPN_MASK = push_bit 10 (mask 44)"
    by (simp add: PPN_MASK_def PPN_SHIFT_def PPN_BITS_def mask_eq_exp_minus_1)
  show ?thesis
    unfolding \<open>PPN_MASK = _\<close> by (auto simp: bit_push_bit_iff bit_mask_word)
qed

lemma bit_RV64_PBMT_MASK: "bit RV64_PBMT_MASK n \<longleftrightarrow> n = 61 \<or> n = 62"
proof -
  have "RV64_PBMT_MASK = push_bit 61 (mask 2)"
    by (simp add: RV64_PBMT_MASK_def mask_numeral)
  show ?thesis
    unfolding \<open>RV64_PBMT_MASK = _\<close> by (auto simp: bit_push_bit_iff bit_mask_word)
qed

lemma bit_HIGH_RESERVED_MASK: "bit HIGH_RESERVED_MASK n \<longleftrightarrow> 54 \<le> n \<and> n < 64"
proof -
  have "HIGH_RESERVED_MASK = push_bit 54 (mask 10)"
    by (simp add: HIGH_RESERVED_MASK_def mask_numeral)
  show ?thesis
    unfolding \<open>HIGH_RESERVED_MASK = _\<close> by (auto simp: bit_push_bit_iff bit_mask_word)
qed

section \<open>Flags\<close>

record rv64_flags =
  rv_access :: access_flags
  rv_attrs :: memory_attributes

definition rv64_flags_default :: rv64_flags where
  "rv64_flags_default = \<lparr>rv_access = af_empty, rv_attrs = ma_default\<rparr>"

definition rv64_flags_new :: "access_flags \<Rightarrow> rv64_flags" where
  "rv64_flags_new access = \<lparr>rv_access = af_union access AF_READ, rv_attrs = ma_writeback\<rparr>"

definition rv64_with_cache :: "rv64_flags \<Rightarrow> cache_policy \<Rightarrow> rv64_flags" where
  "rv64_with_cache f cache = f\<lparr>rv_attrs := ma_with_cache (rv_attrs f) cache\<rparr>"

definition rv64_with_attrs :: "rv64_flags \<Rightarrow> memory_attributes \<Rightarrow> rv64_flags" where
  "rv64_with_attrs f attrs = f\<lparr>rv_attrs := attrs\<rparr>"

definition rv64_cache :: "rv64_flags \<Rightarrow> cache_policy" where
  "rv64_cache f = ma_cache (rv_attrs f)"

definition pbmt_bits :: "bool \<Rightarrow> cache_policy \<Rightarrow> u64" where
  "pbmt_bits svpbmt cache =
     (if \<not> svpbmt then 0
      else push_bit 61 (case cache of
              Writeback \<Rightarrow> RV64_PBMT_PMA
            | WriteThrough \<Rightarrow> RV64_PBMT_PMA
            | WriteCombine \<Rightarrow> RV64_PBMT_NC
            | Uncached \<Rightarrow> RV64_PBMT_IO))"

definition cache_from_bits :: "bool \<Rightarrow> u64 \<Rightarrow> cache_policy" where
  "cache_from_bits svpbmt b =
     (if \<not> svpbmt then Writeback
      else let t = drop_bit 61 (b AND RV64_PBMT_MASK) in
           if t = RV64_PBMT_PMA then Writeback
           else if t = RV64_PBMT_NC then WriteCombine
           else if t = RV64_PBMT_IO then Uncached
           else Writeback)"

definition rv64_to_leaf_bits :: "bool \<Rightarrow> rv64_flags \<Rightarrow> u64" where
  "rv64_to_leaf_bits svpbmt f =
     (let access0 = (ucast (af_bits (rv_access f)) :: u64);
          access = access0 OR drop_bit 1 (access0 AND ucast (af_bits AF_WRITE)) in
      RV_VALID
      OR push_bit 1 (access AND 0x1f)
      OR RV_ACCESSED
      OR push_bit 7 (of_bool (access AND ucast (af_bits AF_WRITE) \<noteq> 0))
      OR pbmt_bits svpbmt (ma_cache (rv_attrs f)))"

definition rv64_flags_from_bits :: "bool \<Rightarrow> u64 \<Rightarrow> rv64_flags" where
  "rv64_flags_from_bits svpbmt b =
     \<lparr>rv_access = from_bits_truncate (ucast (drop_bit 1 b AND 0x1f)),
      rv_attrs = ma_with_cache ma_writeback (cache_from_bits svpbmt b)\<rparr>"

section \<open>Entries\<close>

definition paddr_to_ppn_bits :: "paddr \<Rightarrow> u64" where
  "paddr_to_ppn_bits p = push_bit PPN_SHIFT (drop_bit PADDR_SHIFT p) AND PPN_MASK"

definition ppn_bits_to_paddr :: "u64 \<Rightarrow> paddr" where
  "ppn_bits_to_paddr b = push_bit PADDR_SHIFT (drop_bit PPN_SHIFT (b AND PPN_MASK))"

definition high_reserved_bits :: "bool \<Rightarrow> u64 \<Rightarrow> u64" where
  "high_reserved_bits svpbmt b =
     (if svpbmt then b AND HIGH_RESERVED_WITH_SVPBMT_MASK else b AND HIGH_RESERVED_MASK)"

definition valid_encoding :: "bool \<Rightarrow> u64 \<Rightarrow> bool" where
  "valid_encoding svpbmt b =
     (if b AND RV_VALID = 0 then False
      else if high_reserved_bits svpbmt b \<noteq> 0 then False
      else if b AND RV_WRITE \<noteq> 0 \<and> b AND RV_READ = 0 then False
      else if svpbmt \<and> drop_bit 61 (b AND RV64_PBMT_MASK) = RV64_PBMT_RESERVED then False
      else True)"

definition rv64_new_leaf :: "bool \<Rightarrow> paddr \<Rightarrow> rv64_flags \<Rightarrow> page_size \<Rightarrow> u64" where
  "rv64_new_leaf svpbmt p f sz = paddr_to_ppn_bits p OR rv64_to_leaf_bits svpbmt f"

definition rv64_new_table :: "paddr \<Rightarrow> nat \<Rightarrow> u64" where
  "rv64_new_table p level = paddr_to_ppn_bits p OR RV_VALID"

definition rv64_is_present :: "u64 \<Rightarrow> bool" where
  "rv64_is_present e \<longleftrightarrow> e AND RV_VALID \<noteq> 0"

definition rv64_entry_kind :: "bool \<Rightarrow> u64 \<Rightarrow> nat \<Rightarrow> pte_kind" where
  "rv64_entry_kind svpbmt e level =
     (if \<not> valid_encoding svpbmt e then Invalid
      else if e AND (RV_READ OR RV_WRITE OR RV_EXECUTE) \<noteq> 0 then Leaf
      else if 1 < level then Table
      else Invalid)"

definition rv64_pte_clear :: "u64 \<Rightarrow> u64" where
  "rv64_pte_clear e = 0"

definition rv64_pte_from_bits :: "u64 \<Rightarrow> u64" where
  "rv64_pte_from_bits b = b"

definition Rv64PteFor :: "bool \<Rightarrow> rv64_flags pte_impl" where
  "Rv64PteFor svpbmt =
     \<lparr>new_leaf = rv64_new_leaf svpbmt, new_table = rv64_new_table, pte_paddr = ppn_bits_to_paddr,
      pte_flags = rv64_flags_from_bits svpbmt, is_present = rv64_is_present,
      entry_kind = rv64_entry_kind svpbmt, pte_clear = rv64_pte_clear,
      pte_from_bits = rv64_pte_from_bits\<rparr>"

definition Rv64Pte :: "rv64_flags pte_impl" where
  "Rv64Pte = Rv64PteFor False"

definition Rv64SvpbmtPte :: "rv64_flags pte_impl" where
  "Rv64SvpbmtPte = Rv64PteFor True"

section \<open>Metadata\<close>

definition rv64_canonical_vaddr_is_valid :: "vaddr \<Rightarrow> nat \<Rightarrow> bool" where
  "rv64_canonical_vaddr_is_valid v bits =
     (if 64 \<le> bits then True
      else let upper = drop_bit bits v;
               sign_set = (v AND push_bit (bits - 1) 1 \<noteq> 0)
           in if sign_set then upper = push_bit (64 - bits) 1 - 1 else upper = 0)"

definition rv64_level_shift :: "nat \<Rightarrow> nat" where
  "rv64_level_shift level = 12 + (level - 1) * 9"

definition rv64_level_supports_leaf :: "nat \<Rightarrow> nat \<Rightarrow> page_size \<Rightarrow> bool" where
  "rv64_level_supports_leaf levels level sz \<longleftrightarrow>
     (level = 1 \<and> sz = Size4K \<or> level = 2 \<and> sz = Size2M \<or> level = 3 \<and> sz = Size1G \<or>
      level = 4 \<and> sz = Size512G) \<and> level \<le> levels"

text \<open>The body of the macro \<^verbatim>\<open>define_rv64_meta!\<close>, and its three expansions.\<close>

definition rv64_meta :: "nat \<Rightarrow> nat \<Rightarrow> meta_impl" where
  "rv64_meta levels va_bits =
     \<lparr>LEVELS = levels, PA_MAX_BITS = PADDR_MAX_BITS, VA_MAX_BITS = va_bits, INDEX_BITS = 9,
      BASE_PAGE_SIZE = Size4K, TABLE_FRAME_SIZE = Size4K, ENTRIES_PER_TABLE = 2 ^ 9,
      level_shift = rv64_level_shift, level_index_bits = (\<lambda>_. 9),
      level_supports_leaf = rv64_level_supports_leaf levels,
      leaf_size_at_level = default_leaf_size_at_level rv64_level_shift,
      size_to_level = default_size_to_level levels (rv64_level_supports_leaf levels),
      vaddr_is_valid = (\<lambda>v. rv64_canonical_vaddr_is_valid v va_bits),
      paddr_is_valid = default_paddr_is_valid PADDR_MAX_BITS\<rparr>"

definition Rv64Meta39 :: meta_impl where "Rv64Meta39 = rv64_meta 3 39"
definition Rv64Meta48 :: meta_impl where "Rv64Meta48 = rv64_meta 4 48"
definition Rv64Meta57 :: meta_impl where "Rv64Meta57 = rv64_meta 5 57"

section \<open>The encoding, bit by bit\<close>

lemma rv_pbmt_cases:
  "pbmt_bits s c = (if \<not> s then 0 else if c = WriteCombine then push_bit 61 1
                    else if c = Uncached then push_bit 62 1 else 0)"
  by (cases c) (simp_all add: pbmt_bits_def rv_pbmt_defs)

lemma bit_pbmt_bits:
  "bit (pbmt_bits s c) n \<longleftrightarrow> s \<and> (n = 61 \<and> c = WriteCombine \<or> n = 62 \<and> c = Uncached)"
  unfolding rv_pbmt_cases
  by (simp only: bit_push_bit_one bit_0_eq if_split if_split_asm split: if_split) auto

text \<open>The access bits after the normalisation "writable implies readable".\<close>

definition rv_leaf_access :: "access_flags \<Rightarrow> nat \<Rightarrow> bool" where
  "rv_leaf_access a n \<longleftrightarrow> n < 5 \<and> (bit (af_bits a) n \<or> n = 0 \<and> bit (af_bits a) 1)"

lemma bit_rv64_to_leaf_bits:
  "bit (rv64_to_leaf_bits s f) n \<longleftrightarrow>
     n = 0 \<or> 1 \<le> n \<and> rv_leaf_access (rv_access f) (n - 1) \<or> n = 6 \<or>
     n = 7 \<and> bit (af_bits (rv_access f)) 1 \<or> bit (pbmt_bits s (ma_cache (rv_attrs f))) n"
proof -
  let ?a = "af_bits (rv_access f)"
  let ?x = "(ucast ?a :: u64) OR drop_bit 1 (ucast ?a AND ucast (af_bits AF_WRITE))"
  have x: "bit ?x k \<longleftrightarrow> bit ?a k \<or> k = 0 \<and> bit ?a 1" for k
    by (auto simp: bit_or_iff bit_drop_bit_eq bit_and_iff bit_unsigned_iff bit_af_consts
        dest: bit_imp_le_length)
  have m: "(0x1f :: u64) = mask 5" by (simp add: mask_numeral)
  have w: "(ucast (af_bits AF_WRITE) :: u64) = push_bit 1 1" by (simp add: AF_WRITE_def)
  have low: "bit (push_bit 1 (?x AND 0x1f)) n \<longleftrightarrow> 1 \<le> n \<and> rv_leaf_access (rv_access f) (n - 1)"
    unfolding m bit_push_bit_iff bit_and_iff x bit_mask_word rv_leaf_access_def by auto
  have d: "?x AND ucast (af_bits AF_WRITE) \<noteq> 0 \<longleftrightarrow> bit ?a 1"
    unfolding w and_bit_one x [unfolded w] by simp
  show ?thesis
    unfolding rv64_to_leaf_bits_def Let_def d bit_or_iff low bit_push_bit_of_bool bit_rv_consts
    by auto
qed

lemma bit_rv64_to_leaf_low: "10 \<le> n \<Longrightarrow> n < 54 \<Longrightarrow> \<not> bit (rv64_to_leaf_bits s f) n"
  by (auto simp: bit_rv64_to_leaf_bits rv_leaf_access_def bit_pbmt_bits)

section \<open>The address field\<close>

lemma bit_paddr_to_ppn_bits: "bit (paddr_to_ppn_bits p) n \<longleftrightarrow> 10 \<le> n \<and> n < 54 \<and> bit p (n + 2)"
  by (auto simp: paddr_to_ppn_bits_def PPN_SHIFT_def PADDR_SHIFT_def bit_and_iff bit_PPN_MASK
      bit_push_bit_iff bit_drop_bit_eq)

lemma bit_ppn_bits_to_paddr: "bit (ppn_bits_to_paddr b) n \<longleftrightarrow> 12 \<le> n \<and> n < 56 \<and> bit b (n - 2)"
proof -
  have "12 \<le> n \<Longrightarrow> 10 + (n - 12) = n - 2" by simp
  then show ?thesis
    by (auto simp: ppn_bits_to_paddr_def PPN_SHIFT_def PADDR_SHIFT_def bit_and_iff bit_PPN_MASK
        bit_push_bit_iff bit_drop_bit_eq)
qed

lemma rv64_paddr_field:
  assumes "p AND mask 12 = 0" "default_paddr_is_valid 56 p" "\<forall>n. 10 \<le> n \<and> n < 54 \<longrightarrow> \<not> bit b n"
  shows "ppn_bits_to_paddr (paddr_to_ppn_bits p OR b) = p"
proof (rule bit_word_eqI)
  fix n
  have lo: "\<forall>n<12. \<not> bit p n" using assms(1) by (simp add: aligned_iff_bits)
  have hi: "\<forall>n\<ge>56. \<not> bit p n"
    using assms(2) by (simp add: default_paddr_is_valid_def word_less_push_bit del: push_bit_of_1)
  show "bit (ppn_bits_to_paddr (paddr_to_ppn_bits p OR b)) n = bit p n"
  proof (cases "12 \<le> n \<and> n < 56")
    case True
    then have "10 \<le> n - 2" "n - 2 < 54" "n - 2 + 2 = n" by auto
    with True assms(3) show ?thesis
      by (simp add: bit_ppn_bits_to_paddr bit_or_iff bit_paddr_to_ppn_bits)
  next
    case False
    then show ?thesis using lo hi by (auto simp: bit_ppn_bits_to_paddr not_le not_less)
  qed
qed

section \<open>What an entry decodes to\<close>

lemma rv64_is_present_bit: "rv64_is_present e \<longleftrightarrow> bit e 0"
  unfolding rv64_is_present_def RV_VALID_def by (rule and_bit_one)

lemma rv_pbmt_field:
  "drop_bit 61 (b AND RV64_PBMT_MASK) = of_bool (bit b 61) + 2 * of_bool (bit b 62)"
proof -
  have "drop_bit 61 (b AND RV64_PBMT_MASK) = push_bit 0 (of_bool (bit b 61)) OR push_bit 1 (of_bool (bit b 62))"
    by (rule bit_word_eqI, unfold bit_drop_bit_eq bit_and_iff bit_or_iff bit_RV64_PBMT_MASK
        bit_push_bit_of_bool) auto
  then show ?thesis by (cases "bit b 61"; cases "bit b 62") simp_all
qed

lemma rv_pbmt_reserved: "drop_bit 61 (b AND RV64_PBMT_MASK) = RV64_PBMT_RESERVED \<longleftrightarrow> bit b 61 \<and> bit b 62"
  unfolding rv_pbmt_field RV64_PBMT_RESERVED_def by (cases "bit b 61"; cases "bit b 62") simp_all

lemma cache_from_bits_cases:
  "cache_from_bits s b =
     (if s \<and> bit b 61 \<and> \<not> bit b 62 then WriteCombine
      else if s \<and> bit b 62 \<and> \<not> bit b 61 then Uncached else Writeback)"
  unfolding cache_from_bits_def Let_def rv_pbmt_field rv_pbmt_defs
  by (cases "bit b 61"; cases "bit b 62") simp_all

lemma high_reserved_zero:
  "high_reserved_bits s b = 0 \<longleftrightarrow>
     (\<forall>n. 54 \<le> n \<and> n < 64 \<and> \<not> (s \<and> (n = 61 \<or> n = 62)) \<longrightarrow> \<not> bit b n)"
proof -
  have "bit (high_reserved_bits s b) n \<longleftrightarrow>
      bit b n \<and> 54 \<le> n \<and> n < 64 \<and> \<not> (s \<and> (n = 61 \<or> n = 62))" for n
    by (auto simp: high_reserved_bits_def HIGH_RESERVED_WITH_SVPBMT_MASK_def bit_and_iff bit_not_iff
        bit_HIGH_RESERVED_MASK bit_RV64_PBMT_MASK)
  then show ?thesis by (auto simp: bit_eq_iff)
qed

lemma valid_encoding_bits:
  "valid_encoding s b \<longleftrightarrow> bit b 0 \<and>
     (\<forall>n. 54 \<le> n \<and> n < 64 \<and> \<not> (s \<and> (n = 61 \<or> n = 62)) \<longrightarrow> \<not> bit b n) \<and>
     (bit b 2 \<longrightarrow> bit b 1) \<and> \<not> (s \<and> bit b 61 \<and> bit b 62)"
  unfolding valid_encoding_def RV_VALID_def RV_WRITE_def RV_READ_def and_bit_one and_bit_one_zero
    rv_pbmt_reserved
  by (auto simp: high_reserved_zero)

lemma rv_rwx: "e AND (RV_READ OR RV_WRITE OR RV_EXECUTE) \<noteq> 0 \<longleftrightarrow> bit e 1 \<or> bit e 2 \<or> bit e 3"
  unfolding word_nonzero bit_and_iff bit_or_iff bit_rv_consts by auto

lemma rv64_entry_kind_bits:
  "rv64_entry_kind s e l =
     (if \<not> valid_encoding s e then Invalid else if bit e 1 \<or> bit e 2 \<or> bit e 3 then Leaf
      else if 1 < l then Table else Invalid)"
  unfolding rv64_entry_kind_def rv_rwx by (rule refl)

lemma bit_rv64_new_leaf:
  "bit (rv64_new_leaf s p f sz) n \<longleftrightarrow>
     (if 10 \<le> n \<and> n < 54 then bit p (n + 2) else bit (rv64_to_leaf_bits s f) n)"
  by (auto simp: rv64_new_leaf_def bit_or_iff bit_paddr_to_ppn_bits bit_rv64_to_leaf_low)

lemma bit_rv64_new_table:
  "bit (rv64_new_table p l) n \<longleftrightarrow> (if 10 \<le> n \<and> n < 54 then bit p (n + 2) else n = 0)"
  by (auto simp: rv64_new_table_def bit_or_iff bit_paddr_to_ppn_bits bit_rv_consts)

lemma rv64_new_leaf_valid: "valid_encoding s (rv64_new_leaf s p f sz)"
  unfolding valid_encoding_bits bit_rv64_new_leaf bit_rv64_to_leaf_bits rv_leaf_access_def
    bit_pbmt_bits
  by auto

lemma rv64_new_table_valid: "valid_encoding s (rv64_new_table p l)"
  unfolding valid_encoding_bits bit_rv64_new_table by auto

lemma rv64_leaf_rwx:
  "bit (rv64_new_leaf s p f sz) 1 \<or> bit (rv64_new_leaf s p f sz) 2 \<or> bit (rv64_new_leaf s p f sz) 3 \<longleftrightarrow>
     bit (af_bits (rv_access f)) 0 \<or> bit (af_bits (rv_access f)) 1 \<or> bit (af_bits (rv_access f)) 2"
  unfolding bit_rv64_new_leaf bit_rv64_to_leaf_bits rv_leaf_access_def bit_pbmt_bits by auto

text \<open>An entry that can be told from a table pointer: some of R, W, X is requested.\<close>

definition rv64_flags_ok :: "rv64_flags \<Rightarrow> bool" where
  "rv64_flags_ok f \<longleftrightarrow>
     af_intersects (rv_access f) (af_union AF_READ (af_union AF_WRITE AF_EXECUTE))"

lemma rv64_flags_ok_bits:
  "rv64_flags_ok f \<longleftrightarrow> bit (af_bits (rv_access f)) 0 \<or> bit (af_bits (rv_access f)) 1 \<or>
     bit (af_bits (rv_access f)) 2"
  unfolding rv64_flags_ok_def af_intersects_def af_union_def word_nonzero access_flags.sel bit_and_iff
    bit_or_iff bit_af_consts
  by auto

lemma rv64_new_leaf_kind:
  "rv64_entry_kind s (rv64_new_leaf s p f sz) l =
     (if rv64_flags_ok f then Leaf else if 1 < l then Table else Invalid)"
  unfolding rv64_entry_kind_bits rv64_leaf_rwx rv64_flags_ok_bits by (simp add: rv64_new_leaf_valid)

lemma rv64_new_table_kind:
  "rv64_entry_kind s (rv64_new_table p l') l = (if 1 < l then Table else Invalid)"
  unfolding rv64_entry_kind_bits by (simp add: rv64_new_table_valid bit_rv64_new_table)

lemma rv64_new_leaf_paddr:
  "p AND mask 12 = 0 \<Longrightarrow> default_paddr_is_valid 56 p \<Longrightarrow> ppn_bits_to_paddr (rv64_new_leaf s p f sz) = p"
  unfolding rv64_new_leaf_def by (rule rv64_paddr_field) (auto simp: bit_rv64_to_leaf_low)

lemma rv64_new_table_paddr:
  "p AND mask 12 = 0 \<Longrightarrow> default_paddr_is_valid 56 p \<Longrightarrow> ppn_bits_to_paddr (rv64_new_table p l) = p"
  unfolding rv64_new_table_def by (rule rv64_paddr_field) (auto simp: bit_rv_consts)

text \<open>
  What decoding a leaf returns: the five access bits with read added to write, the cache policy as
  far as the format has it (nothing without Svpbmt; write-through is stored as write-back), neutral
  shareability and coherency.
\<close>

definition rv64_norm_cache :: "bool \<Rightarrow> cache_policy \<Rightarrow> cache_policy" where
  "rv64_norm_cache svpbmt c =
     (if \<not> svpbmt then Writeback else if c = WriteThrough then Writeback else c)"

definition rv64_norm_access :: "access_flags \<Rightarrow> access_flags" where
  "rv64_norm_access a =
     from_bits_truncate (af_bits (if af_contains a AF_WRITE then af_union a AF_READ else a))"

definition rv64_normal_flags :: "bool \<Rightarrow> rv64_flags \<Rightarrow> rv64_flags" where
  "rv64_normal_flags svpbmt f =
     \<lparr>rv_access = rv64_norm_access (rv_access f),
      rv_attrs = ma_with_cache ma_writeback (rv64_norm_cache svpbmt (ma_cache (rv_attrs f)))\<rparr>"

lemma bit_rv64_norm_access: "bit (af_bits (rv64_norm_access a)) n \<longleftrightarrow> rv_leaf_access a n"
  unfolding rv64_norm_access_def rv_leaf_access_def from_bits_truncate_def af_contains_consts
    access_flags.sel bit_and_iff bit_0x1f
  by (auto simp: af_union_def bit_or_iff bit_af_consts)

lemma bit_rv64_decoded_access:
  "bit (af_bits (rv_access (rv64_flags_from_bits s e))) n \<longleftrightarrow> n < 5 \<and> bit e (n + 1)"
proof -
  have m: "(0x1f :: u64) = mask 5" by (simp add: mask_numeral)
  show ?thesis
    unfolding m rv64_flags_from_bits_def rv64_flags.select_convs from_bits_truncate_def access_flags.sel
      bit_and_iff bit_0x1f bit_unsigned_iff bit_mask_word bit_drop_bit_eq
    by (auto simp: add.commute)
qed

lemma rv64_new_leaf_flags: "rv64_flags_from_bits s (rv64_new_leaf s p f sz) = rv64_normal_flags s f"
proof -
  have "rv_access (rv64_flags_from_bits s (rv64_new_leaf s p f sz)) = rv_access (rv64_normal_flags s f)"
    by (rule access_eqI)
      (auto simp: bit_rv64_decoded_access rv64_normal_flags_def bit_rv64_norm_access bit_rv64_new_leaf
        bit_rv64_to_leaf_bits bit_pbmt_bits rv_leaf_access_def)
  moreover have "cache_from_bits s (rv64_new_leaf s p f sz) = rv64_norm_cache s (ma_cache (rv_attrs f))"
    by (cases "ma_cache (rv_attrs f)")
      (auto simp: cache_from_bits_cases bit_rv64_new_leaf bit_rv64_to_leaf_bits bit_pbmt_bits
        rv_leaf_access_def rv64_norm_cache_def)
  ultimately show ?thesis
    by (simp add: rv64_flags_from_bits_def rv64_normal_flags_def)
qed

text \<open>Decoded leaves are encodable and already normal.\<close>

lemma rv64_decoded_flags:
  assumes "rv64_entry_kind s e l = Leaf"
  shows "rv64_flags_ok (rv64_flags_from_bits s e)"
    and "rv64_normal_flags s (rv64_flags_from_bits s e) = rv64_flags_from_bits s e"
proof -
  have v: "valid_encoding s e" and r: "bit e 1 \<or> bit e 2 \<or> bit e 3"
    using assms by (auto simp: rv64_entry_kind_bits split: if_splits)
  show "rv64_flags_ok (rv64_flags_from_bits s e)"
    using r by (simp add: rv64_flags_ok_bits bit_rv64_decoded_access numeral_eq_Suc)
  have "rv64_norm_access (rv_access (rv64_flags_from_bits s e)) = rv_access (rv64_flags_from_bits s e)"
    using v by (intro access_eqI)
      (auto simp: bit_rv64_norm_access rv_leaf_access_def bit_rv64_decoded_access valid_encoding_bits
        numeral_eq_Suc)
  moreover have "rv64_norm_cache s (cache_from_bits s e) = cache_from_bits s e"
    by (simp add: rv64_norm_cache_def cache_from_bits_cases)
  ultimately show "rv64_normal_flags s (rv64_flags_from_bits s e) = rv64_flags_from_bits s e"
    by (simp add: rv64_normal_flags_def rv64_flags_from_bits_def ma_defs)
qed

end
