(* ===== verification/Rv64Walker.thy ===== *)
theory Rv64Walker
  imports RefHost Rv64Entry
begin

text \<open>
  The RISC-V entries and metadata satisfy the contracts of the walker: Sv39, Sv48 and Sv57 are
  paging geometries, and the entry with and without Svpbmt is a codec for each of them.
\<close>

section \<open>Geometry\<close>

lemma rv64_canonical:
  assumes "0 < bits" "bits < 64"
  shows "rv64_canonical_vaddr_is_valid v bits \<longleftrightarrow> canonical bits v"
  using canonical_test [OF assms, of v] assms by (simp add: rv64_canonical_vaddr_is_valid_def Let_def)

lemma rv64_shift_pos: "1 \<le> l \<Longrightarrow> rv64_level_shift l = 3 + l * 9"
  by (cases l) (simp_all add: rv64_level_shift_def)

lemma rv64_supports_shift: "rv64_level_supports_leaf n l sz \<Longrightarrow> 3 + l * 9 = size_shift sz"
  by (auto simp: rv64_level_supports_leaf_def)

lemma rv64_finer:
  assumes "1 \<le> l" "l < n" "n \<le> 5" "3 + l * 9 = size_shift sz"
  shows "rv64_level_supports_leaf n l sz"
proof -
  have "l = 1 \<or> l = 2 \<or> l = 3 \<or> l = 4" using assms(1-3) by auto
  then show ?thesis
    using assms(2,4) by (elim disjE; cases sz; simp add: rv64_level_supports_leaf_def)
qed

lemma rv64_geometry:
  assumes "3 \<le> n" "n \<le> 5" "va = 12 + 9 * n"
  shows "paging_geometry (rv64_meta n va)"
proof (unfold_locales, goal_cases)
  case (12 l sz)
  then show ?case by (simp add: rv64_meta_def rv64_shift_pos rv64_supports_shift)
next
  case (13 sz t)
  then show ?case by (simp add: rv64_meta_def default_size_to_level_Some)
next
  case (15 l sz)
  then show ?case
    using rv64_finer [of l n sz] assms(2)
    by (simp add: rv64_meta_def default_leaf_size_iff rv64_shift_pos)
next
  case (19 v v' k)
  then show ?case
    using canonical_agree [of va v v' k] assms by (simp add: rv64_meta_def rv64_canonical)
next
  case (20 v v')
  then show ?case
    using canonical_cong [of va v v'] assms by (simp add: rv64_meta_def rv64_canonical)
next
  case (21 l sz)
  then show ?case by (simp add: rv64_meta_def default_size_to_level_exists)
qed (use assms in \<open>simp_all add: rv64_meta_def MAX_LEVELS_def default_leaf_size_iff PADDR_MAX_BITS_def
       default_paddr_valid_bits rv64_shift_pos\<close>)

interpretation rv64_39: paging_geometry Rv64Meta39
  unfolding Rv64Meta39_def by (rule rv64_geometry) simp_all

interpretation rv64_48: paging_geometry Rv64Meta48
  unfolding Rv64Meta48_def by (rule rv64_geometry) simp_all

interpretation rv64_57: paging_geometry Rv64Meta57
  unfolding Rv64Meta57_def by (rule rv64_geometry) simp_all

section \<open>The entry\<close>

lemma rv64_decoded_valid: "default_paddr_is_valid 56 (ppn_bits_to_paddr e)"
  by (simp add: default_paddr_valid_bits bit_ppn_bits_to_paddr)

lemma rv64_codec: "pte_codec (Rv64PteFor svpbmt) (rv64_meta n va) rv64_flags_ok (rv64_normal_flags svpbmt)"
proof (unfold_locales, goal_cases)
  case (1 p f sz)
  then show ?case
    by (simp add: Rv64PteFor_def rv64_is_present_bit bit_rv64_new_leaf bit_rv64_to_leaf_bits)
next
  case (2 p l)
  then show ?case by (simp add: Rv64PteFor_def rv64_is_present_bit bit_rv64_new_table)
next
  case (5 e)
  then show ?case by (simp add: Rv64PteFor_def rv64_entry_kind_def)
qed (simp_all add: Rv64PteFor_def rv64_meta_def PADDR_MAX_BITS_def rv64_new_leaf_kind
    rv64_new_table_kind aligned_4k rv64_new_leaf_paddr rv64_new_table_paddr rv64_decoded_valid
    rv64_new_leaf_flags rv64_pte_clear_def rv64_is_present_bit rv64_decoded_flags)

interpretation rv64_codec_39: pte_codec Rv64Pte Rv64Meta39 rv64_flags_ok "rv64_normal_flags False"
  unfolding Rv64Pte_def Rv64Meta39_def by (rule rv64_codec)

interpretation rv64_codec_48: pte_codec Rv64Pte Rv64Meta48 rv64_flags_ok "rv64_normal_flags False"
  unfolding Rv64Pte_def Rv64Meta48_def by (rule rv64_codec)

interpretation rv64_codec_57: pte_codec Rv64Pte Rv64Meta57 rv64_flags_ok "rv64_normal_flags False"
  unfolding Rv64Pte_def Rv64Meta57_def by (rule rv64_codec)

interpretation rv64_svpbmt_39: pte_codec Rv64SvpbmtPte Rv64Meta39 rv64_flags_ok "rv64_normal_flags True"
  unfolding Rv64SvpbmtPte_def Rv64Meta39_def by (rule rv64_codec)

interpretation rv64_svpbmt_48: pte_codec Rv64SvpbmtPte Rv64Meta48 rv64_flags_ok "rv64_normal_flags True"
  unfolding Rv64SvpbmtPte_def Rv64Meta48_def by (rule rv64_codec)

interpretation rv64_svpbmt_57: pte_codec Rv64SvpbmtPte Rv64Meta57 rv64_flags_ok "rv64_normal_flags True"
  unfolding Rv64SvpbmtPte_def Rv64Meta57_def by (rule rv64_codec)

end
