(* ===== verification/A64Walker.thy ===== *)
theory A64Walker
  imports RefHost A64Entry
begin

text \<open>
  The AArch64 formats satisfy the contracts of the walker: the six metadata types are paging
  geometries, and the entry is a codec for each of them over any descriptor type that meets
  \<open>tte_ok\<close>. A reference descriptor with the layout of the architecture shows that \<open>tte_ok\<close> can
  be met.
\<close>

section \<open>Geometry\<close>

lemma a64_canonical:
  assumes "0 < bits" "bits < 64"
  shows "a64_canonical_vaddr_is_valid v bits \<longleftrightarrow> canonical bits v"
  using canonical_test [OF assms, of v] assms by (simp add: a64_canonical_vaddr_is_valid_def Let_def)

lemma a64_shift_Suc [simp]:
  "a64_4k_shift (Suc l) = 12 + l * 9"
  "a64_16k_shift (Suc l) = 14 + l * 11"
  "a64_64k_shift (Suc l) = 16 + l * 13"
  by (simp_all add: a64_4k_shift_def a64_16k_shift_def a64_64k_shift_def)

lemmas a64_supports_defs = a64_4k_supports_leaf_def a64_16k_supports_leaf_def
  a64_64k_supports_leaf_def

lemmas a64_shift_defs = a64_4k_shift_def a64_16k_shift_def a64_64k_shift_def

lemma no_size_shift: "size_shift s \<noteq> 47" "size_shift s \<noteq> 48"
  using size_shift_less(2) [of s] by auto

lemma below_cases:
  "\<lbrakk>Suc 0 \<le> l; l < 3\<rbrakk> \<Longrightarrow> l = 1 \<or> l = 2"
  "\<lbrakk>Suc 0 \<le> l; l < 4\<rbrakk> \<Longrightarrow> l = 1 \<or> l = 2 \<or> l = 3"
  "\<lbrakk>Suc 0 \<le> l; l < 5\<rbrakk> \<Longrightarrow> l = 1 \<or> l = 2 \<or> l = 3 \<or> l = 4"
  by auto

lemma a64_4k_finer:
  assumes "Suc 0 \<le> l" "l < 5" "12 + l * 9 = size_shift s" "12 + (l - Suc 0) * 9 = size_shift sz"
  shows "a64_4k_supports_leaf l sz"
  using below_cases(3) [OF assms(1,2)] assms
  by (elim disjE; cases sz; auto simp: a64_4k_supports_leaf_def no_size_shift
      eq_commute [of _ "size_shift s"])

lemma a64_16k_finer:
  assumes "Suc 0 \<le> l" "l < 4" "14 + (l - Suc 0) * 11 = size_shift sz"
  shows "a64_16k_supports_leaf l sz"
  using below_cases(2) [OF assms(1,2)] assms by (elim disjE; cases sz; simp add: a64_16k_supports_leaf_def)

lemma a64_64k_finer:
  assumes "Suc 0 \<le> l" "l < 3" "16 + (l - Suc 0) * 13 = size_shift sz"
  shows "a64_64k_supports_leaf l sz"
  using below_cases(1) [OF assms(1,2)] assms by (elim disjE; cases sz; simp add: a64_64k_supports_leaf_def)

lemma a64_supports_shift:
  "a64_4k_supports_leaf l sz \<Longrightarrow> 12 + (l - Suc 0) * 9 = size_shift sz"
  "a64_16k_supports_leaf l sz \<Longrightarrow> 14 + (l - Suc 0) * 11 = size_shift sz"
  "a64_64k_supports_leaf l sz \<Longrightarrow> 16 + (l - Suc 0) * 13 = size_shift sz"
  by (auto simp: a64_supports_defs)

text \<open>
  One lemma for the six formats: \<open>n\<close> levels of \<open>ib\<close> index bits over pages of size \<open>base\<close>, with
  \<open>ti\<close> index bits at the root.
\<close>

lemma a64_geometry:
  assumes n: "2 \<le> n" "n \<le> 5" and va: "va = 48 \<or> va = 52"
    and base: "size_shift base = ib + 3" and ti: "0 < ti" "ti \<le> ib" "ib + 3 + (n - 1) * ib + ti = va"
    and shift: "\<And>l. shift l = ib + 3 + (l - 1) * ib"
    and supp: "\<And>l sz. supp l sz \<Longrightarrow> shift l = size_shift sz"
    and finer: "\<And>l sz s. \<lbrakk>1 \<le> l; l < n; shift (Suc l) = size_shift s; shift l = size_shift sz\<rbrakk> \<Longrightarrow> supp l sz"
  shows "paging_geometry
     \<lparr>LEVELS = n, PA_MAX_BITS = va, VA_MAX_BITS = va, INDEX_BITS = ib,
      BASE_PAGE_SIZE = base, TABLE_FRAME_SIZE = base, ENTRIES_PER_TABLE = 2 ^ ib,
      level_shift = shift, level_index_bits = (\<lambda>level. if level = n then ti else ib),
      level_supports_leaf = supp, leaf_size_at_level = default_leaf_size_at_level shift,
      size_to_level = default_size_to_level n supp,
      vaddr_is_valid = (\<lambda>v. a64_canonical_vaddr_is_valid v va),
      paddr_is_valid = default_paddr_is_valid va\<rparr>" (is "paging_geometry ?M")
proof (unfold_locales, goal_cases)
  case (8 l)
  then show ?case by (cases l) (simp_all add: shift)
next
  case (12 l sz)
  then show ?case using supp by simp
next
  case (13 sz t)
  then show ?case by (simp add: default_size_to_level_Some)
next
  case (15 l sz)
  then show ?case using finer by (auto simp: default_leaf_size_iff)
next
  case (19 v v' k)
  then show ?case using va canonical_agree [of va v v' k] by (auto simp: a64_canonical)
next
  case (20 v v')
  then show ?case using va canonical_cong [of va v v'] by (auto simp: a64_canonical)
next
  case (21 l sz)
  then show ?case by (simp add: default_size_to_level_exists)
next
  case 3
  then show ?case by (simp add: unat_bytes base power_add)
qed (use n va base ti in \<open>auto simp: MAX_LEVELS_def default_leaf_size_iff default_paddr_valid_bits shift\<close>)

interpretation a64_4k48: paging_geometry A64Meta4K48
  unfolding A64Meta4K48_def
  by (rule a64_geometry [of 4 48 Size4K 9 9 a64_4k_shift a64_4k_supports_leaf, unfolded if_cancel])
    (auto simp: a64_4k_shift_def intro: a64_supports_shift elim: a64_4k_finer)

interpretation a64_4k52: paging_geometry A64Meta4K52
  unfolding A64Meta4K52_def
  by (rule a64_geometry [of 5 52 Size4K 9 4 a64_4k_shift a64_4k_supports_leaf])
    (auto simp: a64_4k_shift_def intro: a64_supports_shift elim: a64_4k_finer)

interpretation a64_16k48: paging_geometry A64Meta16K48
  unfolding A64Meta16K48_def
  by (rule a64_geometry [of 4 48 Size16K 11 1 a64_16k_shift a64_16k_supports_leaf])
    (auto simp: a64_16k_shift_def intro: a64_supports_shift elim: a64_16k_finer)

interpretation a64_16k52: paging_geometry A64Meta16K52
  unfolding A64Meta16K52_def
  by (rule a64_geometry [of 4 52 Size16K 11 5 a64_16k_shift a64_16k_supports_leaf])
    (auto simp: a64_16k_shift_def intro: a64_supports_shift elim: a64_16k_finer)

interpretation a64_64k48: paging_geometry A64Meta64K48
  unfolding A64Meta64K48_def
  by (rule a64_geometry [of 3 48 Size64K 13 6 a64_64k_shift a64_64k_supports_leaf])
    (auto simp: a64_64k_shift_def intro: a64_supports_shift elim: a64_64k_finer)

interpretation a64_64k52: paging_geometry A64Meta64K52
  unfolding A64Meta64K52_def
  by (rule a64_geometry [of 3 52 Size64K 13 10 a64_64k_shift a64_64k_supports_leaf])
    (auto simp: a64_64k_shift_def intro: a64_supports_shift elim: a64_64k_finer)

section \<open>The entry\<close>

text \<open>What decoding a leaf returns: readable access, and what the fields can tell apart.\<close>

definition a64_norm_share :: "shareability \<Rightarrow> shareability" where
  "a64_norm_share s = shareability_from_a64 (shareability_to_a64 s)"

definition a64_normal_flags :: "a64_flags \<Rightarrow> a64_flags" where
  "a64_normal_flags f =
     (let share = a64_norm_share (ma_shareability (a64_attrs f)) in
      \<lparr>a64_access = from_bits_truncate (af_bits (af_union (a64_access f) AF_READ)),
       a64_attrs = ma_new (ma_cache (a64_attrs f)) share
         (if share = NonShareable then NonCoherent else Coherent)\<rparr>)"

lemma tte_view_simps:
  "tte_is_valid T t = f_valid (tte_view T t)" "tte_is_block T t = f_block (tte_view T t)"
  "tte_is_table T t = f_table (tte_view T t)" "tte_address T t = f_address (tte_view T t)"
  "tte_attr_index T t = f_attr (tte_view T t)" "tte_access_permission T t = f_ap (tte_view T t)"
  "tte_shareability T t = f_share (tte_view T t)" "tte_is_executable T t = f_exec (tte_view T t)"
  "tte_is_privileged_executable T t = f_pexec (tte_view T t)" "tte_is_global T t = f_global (tte_view T t)"
  by (simp_all add: tte_view_def)

lemma cache_index: "cache_to_attr_index c < 8" "cache_from_attr_index (cache_to_attr_index c) = c"
  by (cases c; simp add: a64_index_defs cache_from_attr_index_def)+

text \<open>The fields of an encoded leaf.\<close>

lemma apply_to_tte_fields:
  assumes "tte_setters_ok T"
  shows "tte_view T (apply_to_tte T f t) = (tte_view T t)
    \<lparr>f_attr := cache_to_attr_index (ma_cache (a64_attrs f)),
     f_ap := access_to_ap (a64_access f),
     f_share := shareability_to_a64 (ma_shareability (a64_attrs f)),
     f_exec := af_contains (a64_access f) AF_EXECUTE,
     f_pexec := af_contains (a64_access f) AF_EXECUTE,
     f_global := f_global (tte_view T t) \<and> af_contains (a64_access f) AF_GLOBAL\<rparr>"
proof -
  have "r\<lparr>f_global := f_global r\<rparr> = r" for r :: tte_fields by simp
  with assms show ?thesis
    by (simp add: apply_to_tte_def Let_def tte_setters_ok_def cache_index)
qed

lemma access_to_ap_allows:
  assumes "tte_ok T g n"
  shows "allows_privileged_write T (access_to_ap a) \<longleftrightarrow> af_contains a AF_WRITE"
    and "allows_unprivileged T (access_to_ap a) \<longleftrightarrow> af_contains a AF_USER"
  using assms by (auto simp: tte_ok_def access_to_ap_def split: bool.splits)

text \<open>The access bits that decoding reads, one by one.\<close>

lemma bit_a64_decoded_access:
  "bit (af_bits (a64_access (from_tte T t))) n \<longleftrightarrow>
     n = 0 \<or> n = 1 \<and> allows_privileged_write T (tte_access_permission T t) \<or>
     n = 3 \<and> allows_unprivileged T (tte_access_permission T t) \<or>
     n = 2 \<and> (tte_is_executable T t \<or> tte_is_privileged_executable T t) \<or>
     n = 4 \<and> tte_is_global T t"
  by (auto simp: from_tte_def Let_def af_union_def bit_or_iff bit_af_consts)

lemma bit_a64_normal_access:
  "bit (af_bits (a64_access (a64_normal_flags f))) n \<longleftrightarrow>
     n = 0 \<or> n = 1 \<and> bit (af_bits (a64_access f)) 1 \<or> n = 3 \<and> bit (af_bits (a64_access f)) 3 \<or>
     n = 2 \<and> bit (af_bits (a64_access f)) 2 \<or> n = 4 \<and> bit (af_bits (a64_access f)) 4"
proof -
  have "n < 5 \<longleftrightarrow> n = 0 \<or> n = 1 \<or> n = 2 \<or> n = 3 \<or> n = 4" by auto
  then show ?thesis
    unfolding a64_normal_flags_def Let_def a64_flags.select_convs from_bits_truncate_def access_flags.sel
    bit_and_iff bit_0x1f af_union_def bit_or_iff bit_af_consts by auto
qed

lemma a64_new_leaf_fields:
  assumes "tte_ok T g n"
  shows "f_valid (tte_view T (a64_new_leaf T p f sz))"
    and "f_attr (tte_view T (a64_new_leaf T p f sz)) = cache_to_attr_index (ma_cache (a64_attrs f))"
    and "f_ap (tte_view T (a64_new_leaf T p f sz)) = access_to_ap (a64_access f)"
    and "f_share (tte_view T (a64_new_leaf T p f sz)) = shareability_to_a64 (ma_shareability (a64_attrs f))"
    and "f_exec (tte_view T (a64_new_leaf T p f sz)) = af_contains (a64_access f) AF_EXECUTE"
    and "f_pexec (tte_view T (a64_new_leaf T p f sz)) = af_contains (a64_access f) AF_EXECUTE"
    and "f_global (tte_view T (a64_new_leaf T p f sz)) = af_contains (a64_access f) AF_GLOBAL"
    and "sz \<noteq> Size4K \<Longrightarrow> sz \<noteq> Size16K \<Longrightarrow> sz \<noteq> Size64K \<Longrightarrow> f_block (tte_view T (a64_new_leaf T p f sz))"
    and "p AND mask g = 0 \<Longrightarrow> \<forall>k\<ge>n. \<not> bit p k \<Longrightarrow> f_address (tte_view T (a64_new_leaf T p f sz)) = p"
  using assms
  by (auto simp: tte_ok_def a64_new_leaf_def Let_def apply_to_tte_fields) (auto simp: tte_view_simps)

lemma a64_new_leaf_flags:
  assumes "tte_ok T g n"
  shows "from_tte T (a64_new_leaf T p f sz) = a64_normal_flags f"
proof -
  note leaf = a64_new_leaf_fields [OF assms]
  have "a64_access (from_tte T (a64_new_leaf T p f sz)) = a64_access (a64_normal_flags f)"
    by (rule access_eqI, unfold bit_a64_decoded_access bit_a64_normal_access)
      (auto simp: tte_view_simps leaf access_to_ap_allows [OF assms] af_contains_consts)
  moreover have "a64_attrs (from_tte T (a64_new_leaf T p f sz)) = a64_attrs (a64_normal_flags f)"
    by (simp add: from_tte_def a64_normal_flags_def Let_def tte_view_simps leaf cache_index a64_norm_share_def)
  ultimately show ?thesis by simp
qed

text \<open>Decoded flags are normal.\<close>

lemma a64_decoded_normal: "a64_normal_flags (from_tte T t) = from_tte T t"
proof -
  have "a64_access (a64_normal_flags (from_tte T t)) = a64_access (from_tte T t)"
    by (rule access_eqI, unfold bit_a64_normal_access bit_a64_decoded_access) auto
  moreover have "a64_norm_share (shareability_from_a64 s) = shareability_from_a64 s" for s
    by (cases s) (simp_all add: a64_norm_share_def)
  ultimately show ?thesis
    by (simp add: from_tte_def a64_normal_flags_def Let_def ma_defs)
qed

lemma a64_codec:
  assumes T: "tte_ok T g n"
    and M: "size_shift (TABLE_FRAME_SIZE M) = g" "paddr_is_valid M = default_paddr_is_valid n" "n < 64"
    and sup: "\<And>l sz. level_supports_leaf M l sz \<Longrightarrow> g \<le> size_shift sz"
      "\<And>l sz. level_supports_leaf M l sz \<Longrightarrow> l \<noteq> 1 \<Longrightarrow> sz \<noteq> Size4K \<and> sz \<noteq> Size16K \<and> sz \<noteq> Size64K"
  shows "pte_codec (A64PteFor T) M (\<lambda>_. True) a64_normal_flags"
proof (unfold_locales, goal_cases)
  case (3 l sz f p)
  show ?case
    using a64_new_leaf_fields(1) [OF T, of p f sz] a64_new_leaf_fields(8) [OF T, of sz p f] sup(2) [OF 3(3)]
    by (auto simp: A64PteFor_def a64_entry_kind_def tte_view_simps)
next
  case (5 e)
  show ?case by (simp add: A64PteFor_def a64_entry_kind_def)
next
  case (6 l sz p f)
  have "p AND mask g = 0"
    using 6(2) sup(1) [OF 6(1)] by (simp add: is_aligned_mask aligned_iff_bits)
  with 6(3) show ?case
    using a64_new_leaf_fields(9) [OF T, of p f sz] M by (simp add: A64PteFor_def tte_view_simps default_paddr_valid_bits)
qed (use T M a64_new_leaf_fields(1) [OF T] in \<open>auto simp: A64PteFor_def a64_new_table_def a64_entry_kind_def
      a64_pte_clear_def tte_ok_def is_aligned_mask default_paddr_valid_bits tte_view_simps
      a64_new_leaf_flags [OF T] a64_decoded_normal\<close>)

section \<open>The descriptor layout of the architecture\<close>

text \<open>
  The VMSAv8-64 stage-1 descriptor: valid and kind in bits 0 and 1, AttrIndx in bits 2 to 4, AP in bits 6
  and 7, SH in bits 8 and 9, the access flag in bit 10, nG in bit 11, the output address between bits 12 and
  47, PXN and UXN in bits 53 and 54. How the address field holds an address is the argument.
\<close>

definition put_bit :: "nat \<Rightarrow> bool \<Rightarrow> u64 \<Rightarrow> u64" where
  "put_bit n b t = (if b then set_bit n t else unset_bit n t)"

lemma bit_put_bit: "n < 64 \<Longrightarrow> bit (put_bit n b t) k = (if k = n then b else bit t k)"
  by (auto simp: put_bit_def bit_simps)

definition arm_addr_mask :: "nat \<Rightarrow> u64" where
  "arm_addr_mask g = push_bit g (mask (48 - g))"

lemma bit_arm_addr_mask: "bit (arm_addr_mask g) n \<longleftrightarrow> g \<le> n \<and> n < 48"
  by (auto simp: arm_addr_mask_def bit_push_bit_iff bit_mask_word)

definition arm_desc :: "(paddr \<Rightarrow> u64) \<Rightarrow> (u64 \<Rightarrow> paddr) \<Rightarrow> tte_lib" where
  "arm_desc enc dec =
     \<lparr>tte_new_table = (\<lambda>p. put_bit 10 True (put_bit 1 True (put_bit 0 True (enc p)))),
      tte_new_block = (\<lambda>p. put_bit 10 True (put_bit 0 True (enc p))),
      tte_address = dec,
      tte_is_valid = (\<lambda>t. bit t 0),
      tte_is_block = (\<lambda>t. bit t 0 \<and> \<not> bit t 1),
      tte_is_table = (\<lambda>t. bit t 0 \<and> bit t 1),
      tte_attr_index = (\<lambda>t. take_bit 3 (drop_bit 2 t)),
      tte_set_attr_index = (\<lambda>t i. put_bit 4 (bit i 2) (put_bit 3 (bit i 1) (put_bit 2 (bit i 0) t))),
      tte_access_permission = (\<lambda>t.
        if bit t 7 then (if bit t 6 then ReadOnly else PrivilegedReadOnly)
        else (if bit t 6 then ReadWrite else PrivilegedReadWrite)),
      tte_set_access_permission = (\<lambda>t ap.
        put_bit 7 (ap = ReadOnly \<or> ap = PrivilegedReadOnly) (put_bit 6 (ap = ReadOnly \<or> ap = ReadWrite) t)),
      tte_shareability = (\<lambda>t.
        if bit t 9 then (if bit t 8 then A64InnerShareable else A64OuterShareable) else A64NonShareable),
      tte_set_shareability = (\<lambda>t s.
        put_bit 9 (s \<noteq> A64NonShareable) (put_bit 8 (s = A64InnerShareable) t)),
      tte_is_executable = (\<lambda>t. \<not> bit t 54),
      tte_set_executable = (\<lambda>t b. put_bit 54 (\<not> b) t),
      tte_is_privileged_executable = (\<lambda>t. \<not> bit t 53),
      tte_set_privileged_executable = (\<lambda>t b. put_bit 53 (\<not> b) t),
      tte_is_global = (\<lambda>t. \<not> bit t 11),
      tte_set_not_global = (\<lambda>t. put_bit 11 True t),
      allows_privileged_write = (\<lambda>ap. ap = PrivilegedReadWrite \<or> ap = ReadWrite),
      allows_unprivileged = (\<lambda>ap. ap = ReadOnly \<or> ap = ReadWrite)\<rparr>"

definition address_field :: "(paddr \<Rightarrow> u64) \<Rightarrow> (u64 \<Rightarrow> paddr) \<Rightarrow> nat \<Rightarrow> nat \<Rightarrow> bool" where
  "address_field enc dec g w \<longleftrightarrow>
     (\<forall>p n. n < 12 \<longrightarrow> \<not> bit (enc p) n) \<and>
     (\<forall>t n b. n < 12 \<or> 48 \<le> n \<and> n < 64 \<longrightarrow> dec (put_bit n b t) = dec t) \<and>
     (\<forall>p. p AND mask g = 0 \<and> (\<forall>n\<ge>w. \<not> bit p n) \<longrightarrow> dec (enc p) = p) \<and>
     (\<forall>t n. w \<le> n \<longrightarrow> \<not> bit (dec t) n)"

lemma put_bit_address:
  "address_field enc dec g w \<Longrightarrow> n < 12 \<or> 48 \<le> n \<Longrightarrow> n < 64 \<Longrightarrow> dec (put_bit n b t) = dec t"
  by (auto simp: address_field_def)

lemma put_bit_attr:
  "n < 2 \<or> 5 \<le> n \<Longrightarrow> n < 64 \<Longrightarrow> take_bit 3 (drop_bit 2 (put_bit n b t)) = take_bit 3 (drop_bit 2 t)"
  by (rule bit_word_eqI) (auto simp: bit_take_bit_iff bit_drop_bit_eq bit_put_bit)

lemma less_8_bits: "(i :: u64) < 8 \<Longrightarrow> bit i n \<Longrightarrow> n < 3"
proof -
  assume "i < 8"
  then have "i < push_bit 3 1" by simp
  then have "\<forall>n\<ge>3. \<not> bit i n" by (subst (asm) word_less_push_bit) simp_all
  then show "bit i n \<Longrightarrow> n < 3" by (meson not_le)
qed

lemma set_attr_attr:
  assumes "i < 8"
  shows "take_bit 3 (drop_bit 2 (put_bit 4 (bit i 2) (put_bit 3 (bit i 1) (put_bit 2 (bit i 0) t)))) = i"
proof (rule bit_word_eqI)
  fix n :: nat
  have "n = 0 \<or> n = 1 \<or> n = 2 \<or> 3 \<le> n" by auto
  then show "bit (take_bit 3 (drop_bit 2 (put_bit 4 (bit i 2) (put_bit 3 (bit i 1) (put_bit 2 (bit i 0) t))))) n = bit i n"
    using less_8_bits [OF assms, of n] by (auto simp: bit_take_bit_iff bit_drop_bit_eq bit_put_bit)
qed

lemma arm_desc_setters:
  assumes "address_field enc dec g w"
  shows "tte_setters_ok (arm_desc enc dec)"
  unfolding tte_setters_ok_def
proof (intro conjI allI impI, goal_cases)
  case (1 t i)
  then show ?case
    using set_attr_attr [of i t] by (simp add: tte_view_def arm_desc_def bit_put_bit put_bit_address [OF assms])
next
  case (2 t ap)
  then show ?case
    by (cases ap) (simp_all add: tte_view_def arm_desc_def bit_put_bit put_bit_address [OF assms] put_bit_attr)
next
  case (3 t s)
  then show ?case
    by (cases s) (simp_all add: tte_view_def arm_desc_def bit_put_bit put_bit_address [OF assms] put_bit_attr)
qed (simp_all add: tte_view_def arm_desc_def bit_put_bit put_bit_address [OF assms] put_bit_attr)

lemma arm_desc_ok:
  assumes f: "address_field enc dec g w"
  shows "tte_ok (arm_desc enc dec) g w"
proof -
  have low: "\<not> bit (enc p) n" if "n < 12" for p n using f that by (simp add: address_field_def)
  have id: "dec (enc p) = p" if "p AND mask g = 0" "\<forall>n\<ge>w. \<not> bit p n" for p
    using f that by (simp add: address_field_def)
  have up: "\<not> bit (dec t) n" if "w \<le> n" for t n using f that by (simp add: address_field_def)
  show ?thesis
    unfolding tte_ok_def
  proof (intro conjI allI impI, goal_cases)
    case (8 p)
    then show ?case by (simp add: arm_desc_def put_bit_address [OF f] id)
  next
    case (9 p)
    then show ?case by (simp add: arm_desc_def put_bit_address [OF f] id)
  next
    case (10 t n)
    then show ?case by (simp add: arm_desc_def up)
  qed (use arm_desc_setters [OF f] in \<open>auto simp: arm_desc_def bit_put_bit low\<close>)
qed

text \<open>With 48 output bits the field is the address itself.\<close>

definition arm_tte :: "nat \<Rightarrow> tte_lib" where
  "arm_tte g = arm_desc (\<lambda>p. p AND arm_addr_mask g) (\<lambda>t. t AND arm_addr_mask g)"

lemma arm_tte_ok:
  assumes "12 \<le> g"
  shows "tte_ok (arm_tte g) g 48"
  unfolding arm_tte_def
proof (rule arm_desc_ok, unfold address_field_def, intro conjI allI impI)
  fix p :: u64 assume p: "p AND mask g = 0 \<and> (\<forall>n\<ge>48. \<not> bit p n)"
  then show "(p AND arm_addr_mask g) AND arm_addr_mask g = p"
    by (intro bit_word_eqI) (auto simp: bit_and_iff bit_arm_addr_mask aligned_iff_bits not_less not_le)
next
  fix t :: u64 and n :: nat and b assume "n < 12 \<or> 48 \<le> n \<and> n < 64"
  then show "put_bit n b t AND arm_addr_mask g = t AND arm_addr_mask g"
    using assms by (intro bit_word_eqI) (auto simp: bit_and_iff bit_put_bit bit_arm_addr_mask)
qed (use assms in \<open>auto simp: bit_and_iff bit_arm_addr_mask\<close>)

text \<open>
  With 52 output bits and the 64 KiB granule the bits 48 to 51 of the address are the bits 12 to 15 of the
  descriptor, which a page-aligned address leaves unused.
\<close>

definition arm_lpa_tte :: tte_lib where
  "arm_lpa_tte =
     arm_desc (\<lambda>p. (p AND arm_addr_mask 16) OR push_bit 12 (take_bit 4 (drop_bit 48 p)))
       (\<lambda>t. (t AND arm_addr_mask 16) OR push_bit 48 (take_bit 4 (drop_bit 12 t)))"

lemma arm_lpa_ok: "tte_ok arm_lpa_tte 16 52"
  unfolding arm_lpa_tte_def
proof (rule arm_desc_ok, unfold address_field_def, intro conjI allI impI)
  fix p :: u64 assume p: "p AND mask 16 = 0 \<and> (\<forall>n\<ge>52. \<not> bit p n)"
  then have lo: "\<not> bit p n" if "n < 16" for n using that by (simp add: aligned_iff_bits)
  let ?e = "(p AND arm_addr_mask 16) OR push_bit 12 (take_bit 4 (drop_bit 48 p))"
  show "(?e AND arm_addr_mask 16) OR push_bit 48 (take_bit 4 (drop_bit 12 ?e)) = p"
  proof (rule bit_word_eqI)
    fix n :: nat assume n: "n < LENGTH(64)"
    consider "n < 16" | "16 \<le> n" "n < 48" | "48 \<le> n" "n < 52" | "52 \<le> n" by linarith
    then show "bit ((?e AND arm_addr_mask 16) OR push_bit 48 (take_bit 4 (drop_bit 12 ?e))) n = bit p n"
      by cases (use n lo p in \<open>auto simp: bit_simps bit_arm_addr_mask\<close>)
  qed
next
  fix t :: u64 and n :: nat and b assume "n < 12 \<or> 48 \<le> n \<and> n < 64"
  then show "(put_bit n b t AND arm_addr_mask 16) OR push_bit 48 (take_bit 4 (drop_bit 12 (put_bit n b t))) =
      (t AND arm_addr_mask 16) OR push_bit 48 (take_bit 4 (drop_bit 12 t))"
    by (intro bit_word_eqI) (auto simp: bit_simps bit_put_bit bit_arm_addr_mask split: if_splits)
qed (auto simp: bit_simps bit_arm_addr_mask)

text \<open>
  The page sizes of the three granules, and the codec on each 48-bit format and on the 52-bit format of the
  64 KiB granule. The other two 52-bit formats keep bits 50 and 51 of the address where the first
  formats keep the shareability; whether and how the descriptor crate supports that cannot be read off
  the sources, and they are not given an instance.
\<close>

fun granule_bits :: "granule \<Rightarrow> nat" where
  "granule_bits Granule4KB = 12"
| "granule_bits Granule16KB = 14"
| "granule_bits Granule64KB = 16"

definition arm_family :: tte_family where
  "arm_family g w = (if g = Granule64KB \<and> w = OA52 then arm_lpa_tte else arm_tte (granule_bits g))"

lemma arm_family_simps:
  "arm_family g OA48 = arm_tte (granule_bits g)" "arm_family Granule64KB OA52 = arm_lpa_tte"
  by (simp_all add: arm_family_def)

lemmas a64_codec_simps = a64_meta_defs a64_supports_defs

interpretation a64_codec_4k48: pte_codec "A64Pte4K48 arm_family" A64Meta4K48 "\<lambda>_. True" a64_normal_flags
  unfolding A64Pte4K48_def arm_family_simps granule_bits.simps
  by (rule a64_codec [OF arm_tte_ok]) (auto simp: a64_codec_simps)

interpretation a64_codec_16k48: pte_codec "A64Pte16K48 arm_family" A64Meta16K48 "\<lambda>_. True" a64_normal_flags
  unfolding A64Pte16K48_def arm_family_simps granule_bits.simps
  by (rule a64_codec [OF arm_tte_ok]) (auto simp: a64_codec_simps)

interpretation a64_codec_64k48: pte_codec "A64Pte64K48 arm_family" A64Meta64K48 "\<lambda>_. True" a64_normal_flags
  unfolding A64Pte64K48_def arm_family_simps granule_bits.simps
  by (rule a64_codec [OF arm_tte_ok]) (auto simp: a64_codec_simps)

interpretation a64_codec_64k52: pte_codec "A64Pte64K52 arm_family" A64Meta64K52 "\<lambda>_. True" a64_normal_flags
  unfolding A64Pte64K52_def arm_family_simps
  by (rule a64_codec [OF arm_lpa_ok]) (auto simp: a64_codec_simps)

end
