(* ===== verification/PageTables.thy ===== *)
theory PageTables
  imports X86Walker Rv64Walker A64Walker
begin

text \<open>
  The page-table types that the architecture modules export: each fixes the metadata and the entry of
  the generic walker and leaves the allocator open. The TLB back end and the address library, which
  the code takes from elsewhere, are further arguments, and so is the descriptor family on AArch64. On
  each of them the contract of the walker comes down to that of the allocator.
\<close>

section \<open>x86_64\<close>

definition X86PageTable48 :: "'s alloc_impl \<Rightarrow> 'h tlb_impl \<Rightarrow> addr_lib \<Rightarrow> (x86_flags, 's, 'h) env" where
  "X86PageTable48 A T L = \<lparr>e_meta = X86Meta48, e_pte = X86Pte, e_alloc = A, e_tlb = T, e_addr = L\<rparr>"
definition X86PageTable57 :: "'s alloc_impl \<Rightarrow> 'h tlb_impl \<Rightarrow> addr_lib \<Rightarrow> (x86_flags, 's, 'h) env" where
  "X86PageTable57 A T L = \<lparr>e_meta = X86Meta57, e_pte = X86Pte, e_alloc = A, e_tlb = T, e_addr = L\<rparr>"

lemma x86_page_tables:
  assumes "E \<in> {X86PageTable48 A T L, X86PageTable57 A T L}"
  shows "e_pte E = X86Pte" "e_meta E \<in> {X86Meta48, X86Meta57}" "e_tlb E = T" "e_addr E = L"
  using assms by (auto simp: X86PageTable48_def X86PageTable57_def)

lemma x86_env_walker:
  assumes "frame_host E live" "e_pte E = X86Pte" "e_meta E \<in> {X86Meta48, X86Meta57}"
  shows "walker E (\<lambda>_. True) x86_normal_flags live"
proof (rule walker.intro)
  show "paging_geometry (e_meta E)"
    using assms(3) x86_48.paging_geometry_axioms x86_57.paging_geometry_axioms by auto
  show "pte_codec (e_pte E) (e_meta E) (\<lambda>_. True) x86_normal_flags"
    unfolding assms(2) by (rule x86_codec) (use assms(3) in blast)
qed (rule assms(1))

section \<open>RISC-V\<close>

definition Rv64PageTable39 :: "'s alloc_impl \<Rightarrow> 'h tlb_impl \<Rightarrow> addr_lib \<Rightarrow> (rv64_flags, 's, 'h) env" where
  "Rv64PageTable39 A T L = \<lparr>e_meta = Rv64Meta39, e_pte = Rv64Pte, e_alloc = A, e_tlb = T, e_addr = L\<rparr>"
definition Rv64PageTable48 :: "'s alloc_impl \<Rightarrow> 'h tlb_impl \<Rightarrow> addr_lib \<Rightarrow> (rv64_flags, 's, 'h) env" where
  "Rv64PageTable48 A T L = \<lparr>e_meta = Rv64Meta48, e_pte = Rv64Pte, e_alloc = A, e_tlb = T, e_addr = L\<rparr>"
definition Rv64PageTable57 :: "'s alloc_impl \<Rightarrow> 'h tlb_impl \<Rightarrow> addr_lib \<Rightarrow> (rv64_flags, 's, 'h) env" where
  "Rv64PageTable57 A T L = \<lparr>e_meta = Rv64Meta57, e_pte = Rv64Pte, e_alloc = A, e_tlb = T, e_addr = L\<rparr>"
definition Rv64SvpbmtPageTable39 :: "'s alloc_impl \<Rightarrow> 'h tlb_impl \<Rightarrow> addr_lib \<Rightarrow> (rv64_flags, 's, 'h) env" where
  "Rv64SvpbmtPageTable39 A T L = \<lparr>e_meta = Rv64Meta39, e_pte = Rv64SvpbmtPte, e_alloc = A, e_tlb = T, e_addr = L\<rparr>"
definition Rv64SvpbmtPageTable48 :: "'s alloc_impl \<Rightarrow> 'h tlb_impl \<Rightarrow> addr_lib \<Rightarrow> (rv64_flags, 's, 'h) env" where
  "Rv64SvpbmtPageTable48 A T L = \<lparr>e_meta = Rv64Meta48, e_pte = Rv64SvpbmtPte, e_alloc = A, e_tlb = T, e_addr = L\<rparr>"
definition Rv64SvpbmtPageTable57 :: "'s alloc_impl \<Rightarrow> 'h tlb_impl \<Rightarrow> addr_lib \<Rightarrow> (rv64_flags, 's, 'h) env" where
  "Rv64SvpbmtPageTable57 A T L = \<lparr>e_meta = Rv64Meta57, e_pte = Rv64SvpbmtPte, e_alloc = A, e_tlb = T, e_addr = L\<rparr>"

lemma rv64_page_tables:
  assumes "E \<in> (if s then {Rv64SvpbmtPageTable39 A T L, Rv64SvpbmtPageTable48 A T L, Rv64SvpbmtPageTable57 A T L}
    else {Rv64PageTable39 A T L, Rv64PageTable48 A T L, Rv64PageTable57 A T L})"
  shows "e_pte E = Rv64PteFor s" "e_meta E \<in> {Rv64Meta39, Rv64Meta48, Rv64Meta57}" "e_tlb E = T" "e_addr E = L"
  using assms
  by (auto simp: Rv64PageTable39_def Rv64PageTable48_def Rv64PageTable57_def Rv64SvpbmtPageTable39_def
      Rv64SvpbmtPageTable48_def Rv64SvpbmtPageTable57_def Rv64Pte_def Rv64SvpbmtPte_def split: if_splits)

lemma rv64_env_walker:
  assumes "frame_host E live" "e_pte E = Rv64PteFor s"
    and "e_meta E \<in> {Rv64Meta39, Rv64Meta48, Rv64Meta57}"
  shows "walker E rv64_flags_ok (rv64_normal_flags s) live"
proof (rule walker.intro)
  show "paging_geometry (e_meta E)"
    using assms(3) rv64_39.paging_geometry_axioms rv64_48.paging_geometry_axioms
      rv64_57.paging_geometry_axioms by auto
  show "pte_codec (e_pte E) (e_meta E) rv64_flags_ok (rv64_normal_flags s)"
    using assms(3) rv64_codec unfolding assms(2) Rv64Meta39_def Rv64Meta48_def Rv64Meta57_def by auto
qed (rule assms(1))

section \<open>AArch64\<close>

definition A64PageTable4K48 :: "tte_family \<Rightarrow> 's alloc_impl \<Rightarrow> 'h tlb_impl \<Rightarrow> addr_lib \<Rightarrow> (a64_flags, 's, 'h) env" where
  "A64PageTable4K48 F A T L = \<lparr>e_meta = A64Meta4K48, e_pte = A64Pte4K48 F, e_alloc = A, e_tlb = T, e_addr = L\<rparr>"
definition A64PageTable4K52 :: "tte_family \<Rightarrow> 's alloc_impl \<Rightarrow> 'h tlb_impl \<Rightarrow> addr_lib \<Rightarrow> (a64_flags, 's, 'h) env" where
  "A64PageTable4K52 F A T L = \<lparr>e_meta = A64Meta4K52, e_pte = A64Pte4K52 F, e_alloc = A, e_tlb = T, e_addr = L\<rparr>"
definition A64PageTable16K48 :: "tte_family \<Rightarrow> 's alloc_impl \<Rightarrow> 'h tlb_impl \<Rightarrow> addr_lib \<Rightarrow> (a64_flags, 's, 'h) env" where
  "A64PageTable16K48 F A T L = \<lparr>e_meta = A64Meta16K48, e_pte = A64Pte16K48 F, e_alloc = A, e_tlb = T, e_addr = L\<rparr>"
definition A64PageTable16K52 :: "tte_family \<Rightarrow> 's alloc_impl \<Rightarrow> 'h tlb_impl \<Rightarrow> addr_lib \<Rightarrow> (a64_flags, 's, 'h) env" where
  "A64PageTable16K52 F A T L = \<lparr>e_meta = A64Meta16K52, e_pte = A64Pte16K52 F, e_alloc = A, e_tlb = T, e_addr = L\<rparr>"
definition A64PageTable64K48 :: "tte_family \<Rightarrow> 's alloc_impl \<Rightarrow> 'h tlb_impl \<Rightarrow> addr_lib \<Rightarrow> (a64_flags, 's, 'h) env" where
  "A64PageTable64K48 F A T L = \<lparr>e_meta = A64Meta64K48, e_pte = A64Pte64K48 F, e_alloc = A, e_tlb = T, e_addr = L\<rparr>"
definition A64PageTable64K52 :: "tte_family \<Rightarrow> 's alloc_impl \<Rightarrow> 'h tlb_impl \<Rightarrow> addr_lib \<Rightarrow> (a64_flags, 's, 'h) env" where
  "A64PageTable64K52 F A T L = \<lparr>e_meta = A64Meta64K52, e_pte = A64Pte64K52 F, e_alloc = A, e_tlb = T, e_addr = L\<rparr>"

lemma a64_codec_of:
  assumes "tte_ok T (size_shift (TABLE_FRAME_SIZE M)) (PA_MAX_BITS M)"
    and "M \<in> {A64Meta4K48, A64Meta4K52, A64Meta16K48, A64Meta16K52, A64Meta64K48, A64Meta64K52}"
  shows "pte_codec (A64PteFor T) M (\<lambda>_. True) a64_normal_flags"
  using assms(2) by (elim insertE emptyE; intro a64_codec [OF assms(1)]) (auto simp: a64_codec_simps)

lemma a64_env_walker:
  assumes "frame_host E live" "e_pte E = A64PteFor T"
    and "e_meta E \<in> {A64Meta4K48, A64Meta4K52, A64Meta16K48, A64Meta16K52, A64Meta64K48, A64Meta64K52}"
    and "tte_ok T (size_shift (TABLE_FRAME_SIZE (e_meta E))) (PA_MAX_BITS (e_meta E))"
  shows "walker E (\<lambda>_. True) a64_normal_flags live"
proof (rule walker.intro)
  show "paging_geometry (e_meta E)"
    using assms(3) a64_4k48.paging_geometry_axioms a64_4k52.paging_geometry_axioms
      a64_16k48.paging_geometry_axioms a64_16k52.paging_geometry_axioms
      a64_64k48.paging_geometry_axioms a64_64k52.paging_geometry_axioms by auto
  show "pte_codec (e_pte E) (e_meta E) (\<lambda>_. True) a64_normal_flags"
    unfolding assms(2) by (rule a64_codec_of [OF assms(4,3)])
qed (rule assms(1))

text \<open>
  A descriptor family that meets its documentation on the formats that store the shareability next to the
  address: those with 48 output bits, and with 52 the one of the 64 KiB granule.
\<close>

definition family_ok :: "tte_family \<Rightarrow> bool" where
  "family_ok F \<longleftrightarrow> (\<forall>g. tte_ok (F g OA48) (granule_bits g) 48) \<and> tte_ok (F Granule64KB OA52) 16 52"

lemma arm_family_ok: "family_ok arm_family"
proof -
  have "12 \<le> granule_bits g" for g by (cases g) (simp_all add: granule_bits.simps)
  then show ?thesis by (simp add: family_ok_def arm_family_simps arm_tte_ok arm_lpa_ok)
qed

abbreviation a64_page_tables :: "tte_family \<Rightarrow> 's alloc_impl \<Rightarrow> 'h tlb_impl \<Rightarrow> addr_lib \<Rightarrow>
    (a64_flags, 's, 'h) env set" where
  "a64_page_tables F A T L \<equiv>
     {A64PageTable4K48 F A T L, A64PageTable16K48 F A T L, A64PageTable64K48 F A T L, A64PageTable64K52 F A T L}"

lemma a64_page_tables_env:
  assumes "family_ok F" "E \<in> a64_page_tables F A T L"
  obtains D where "e_pte E = A64PteFor D" "tte_ok D (size_shift (TABLE_FRAME_SIZE (e_meta E))) (PA_MAX_BITS (e_meta E))"
    "e_meta E \<in> {A64Meta4K48, A64Meta4K52, A64Meta16K48, A64Meta16K52, A64Meta64K48, A64Meta64K52}"
    "e_tlb E = T" "e_addr E = L"
proof -
  have F: "tte_ok (F g OA48) (granule_bits g) 48" "tte_ok (F Granule64KB OA52) 16 52" for g
    using assms(1) by (simp_all add: family_ok_def)
  from assms(2) F(1) [of Granule4KB] F(1) [of Granule16KB] F(1) [of Granule64KB] F(2) show thesis
    by (elim insertE emptyE; intro that)
      (auto simp: A64PageTable4K48_def A64PageTable16K48_def A64PageTable64K48_def A64PageTable64K52_def
        A64Pte4K48_def A64Pte16K48_def A64Pte64K48_def A64Pte64K52_def granule_bits.simps,
       auto simp: A64Meta4K48_def A64Meta16K48_def A64Meta64K48_def A64Meta64K52_def)
qed

lemma a64_page_tables_walker:
  assumes "family_ok F" "frame_host E live" "E \<in> a64_page_tables F A T L"
  shows "walker E (\<lambda>_. True) a64_normal_flags live"
  by (rule a64_page_tables_env [OF assms(1,3)]) (rule a64_env_walker [OF assms(2)])

end
