(* ===== verification/Architectures.thy ===== *)
theory Architectures
  imports PageTables TlbSpec
begin

text \<open>
  The properties of the architecture modules: the entry formats round trip, every format meets the
  contract of the walker over any host, table indices stay inside a table and determine the
  address, the cache encodings select the documented memory types, and the activation and
  invalidation code drives the registers as documented.
\<close>

section \<open>Entries\<close>

text \<open>
  C27: an x86_64 leaf built for a supported level and size from a valid aligned address is
  present, is decoded as a leaf at that level, and decodes to the address and, up to the
  normalisation of the format (readable, neutral shareability), to the flags it was built from.
\<close>

theorem x86_leaf_roundtrip:
  assumes "x86_level_supports_leaf l sz" "is_aligned sz p" "default_paddr_is_valid 52 p"
  shows "x86_is_present (x86_new_leaf p f sz) \<and> x86_entry_kind (x86_new_leaf p f sz) l = Leaf \<and>
    x86_pte_paddr (x86_new_leaf p f sz) = p \<and>
    x86_flags_from_bits (x86_new_leaf p f sz) = x86_normal_flags f"
  using assms x86_leaf_paddr(1) [OF assms(2,3)]
  by (auto simp: x86_new_leaf_present x86_new_leaf_kind x86_new_leaf_flags x86_level_supports_leaf_def
      split: if_splits)

theorem x86_leaf_roundtrip_witness:
  "x86_pte_paddr (x86_new_leaf 0x40000000 (x86_flags_new AF_WRITE) Size2M) = 0x40000000"
  using x86_leaf_roundtrip [of 2 Size2M "0x40000000" "x86_flags_new AF_WRITE"]
  by (simp add: x86_level_supports_leaf_def is_aligned_def default_paddr_is_valid_def)

text \<open>
  C28: a RISC-V leaf, with or without Svpbmt, decodes to its address and normalised flags and is
  never an invalid encoding; it is decoded as a leaf at every level exactly when some of read,
  write and execute was requested. Without any of the three the result is a table pointer (an
  invalid entry at level 1), whatever the caller meant.
\<close>

theorem rv64_leaf_roundtrip:
  assumes "is_aligned sz p" "default_paddr_is_valid PADDR_MAX_BITS p"
  shows "rv64_is_present (rv64_new_leaf s p f sz) \<and> valid_encoding s (rv64_new_leaf s p f sz) \<and>
    ppn_bits_to_paddr (rv64_new_leaf s p f sz) = p \<and>
    rv64_flags_from_bits s (rv64_new_leaf s p f sz) = rv64_normal_flags s f \<and>
    rv64_entry_kind s (rv64_new_leaf s p f sz) l =
      (if rv64_flags_ok f then Leaf else if 1 < l then Table else Invalid)"
  using assms
  by (simp add: rv64_is_present_bit bit_rv64_new_leaf bit_rv64_to_leaf_bits rv64_new_leaf_valid
      aligned_4k rv64_new_leaf_paddr PADDR_MAX_BITS_def rv64_new_leaf_flags rv64_new_leaf_kind)

theorem rv64_leaf_roundtrip_witness:
  "rv64_entry_kind True (rv64_new_leaf True 0x8000 rv64_flags_default Size4K) 2 = Table"
proof -
  have "\<not> rv64_flags_ok rv64_flags_default"
    by (simp add: rv64_flags_ok_bits rv64_flags_default_def af_empty_def)
  then show ?thesis
    using rv64_leaf_roundtrip [of Size4K "0x8000" True rv64_flags_default 2]
    by (simp add: is_aligned_def default_paddr_is_valid_def PADDR_MAX_BITS_def)
qed

text \<open>
  C29: an AArch64 leaf over any descriptor type that meets its documentation decodes to its address
  and normalised flags; at level 1 every page size, at the block levels every block size is decoded
  as a leaf. System shareability comes back as outer, coherency follows shareability.
\<close>

theorem a64_leaf_roundtrip:
  assumes "tte_ok T g n" "p AND mask g = 0" "\<forall>k\<ge>n. \<not> bit p k"
    and "l = 1 \<or> sz \<notin> {Size4K, Size16K, Size64K}"
  shows "tte_is_valid T (a64_new_leaf T p f sz) \<and> a64_entry_kind T (a64_new_leaf T p f sz) l = Leaf \<and>
    tte_address T (a64_new_leaf T p f sz) = p \<and> from_tte T (a64_new_leaf T p f sz) = a64_normal_flags f"
  using a64_new_leaf_fields(1,9) [OF assms(1), of p f sz] a64_new_leaf_fields(8) [OF assms(1), of sz p f] assms(2-4)
  by (auto simp: tte_view_simps a64_entry_kind_def a64_new_leaf_flags [OF assms(1)])

theorem a64_leaf_roundtrip_witness:
  "tte_address (arm_tte 12) (a64_new_leaf (arm_tte 12) 0x200000 (a64_flags_new AF_WRITE) Size2M) = 0x200000"
proof -
  have "(0x200000 :: u64) < push_bit 48 1" by simp
  then have "\<forall>k\<ge>48. \<not> bit (0x200000 :: u64) k" by (subst (asm) word_less_push_bit) simp_all
  then show ?thesis
    using a64_leaf_roundtrip [OF arm_tte_ok, of 12 "0x200000" 2 Size2M "a64_flags_new AF_WRITE"]
    by (simp add: mask_numeral)
qed

section \<open>The formats meet the contract of the walker\<close>

text \<open>
  C24: over every host that supplies frames as documented, 4- and 5-level x86_64 paging meets the
  contract of the walker, so each theorem about the walker holds of \<^verbatim>\<open>X86PageTable48\<close> and
  \<^verbatim>\<open>X86PageTable57\<close>, for all flags.
\<close>

theorem x86_walker:
  assumes "frame_host E live" "e_pte E = X86Pte" "e_meta E \<in> {X86Meta48, X86Meta57}"
  shows "walker E (\<lambda>_. True) x86_normal_flags live"
  by (rule x86_env_walker [OF assms])

theorem x86_walker_witness: "walker (ref_env X86Meta57 X86Pte NoFlush) (\<lambda>_. True) x86_normal_flags (ref_live X86Meta57)"
  by (rule x86_walker [OF x86_57.ref_host]) (simp_all add: ref_env_def)

text \<open>
  C25: the same for Sv39, Sv48 and Sv57, with and without Svpbmt, for all flags with some of read,
  write and execute.
\<close>

theorem rv64_walker:
  assumes "frame_host E live" "e_pte E = Rv64PteFor s"
    and "e_meta E \<in> {Rv64Meta39, Rv64Meta48, Rv64Meta57}"
  shows "walker E rv64_flags_ok (rv64_normal_flags s) live"
  by (rule rv64_env_walker [OF assms])

theorem rv64_walker_witness:
  "walker (ref_env Rv64Meta39 Rv64SvpbmtPte NoFlush) rv64_flags_ok (rv64_normal_flags True) (ref_live Rv64Meta39)"
  by (rule rv64_walker [OF rv64_39.ref_host]) (simp_all add: ref_env_def Rv64SvpbmtPte_def)

text \<open>
  C26: the same for the AArch64 formats with 48 output bits, and with 52 for the 64 KiB granule, over any
  descriptor family that meets its documentation there, for all flags. The 52-bit formats of the 4 KiB and
  16 KiB granules are not covered: their descriptors keep address bits where the code writes the
  shareability.
\<close>

theorem a64_walker:
  assumes "family_ok F" "frame_host E live"
    and "E \<in> {A64PageTable4K48 F A T L, A64PageTable16K48 F A T L, A64PageTable64K48 F A T L,
      A64PageTable64K52 F A T L}"
  shows "walker E (\<lambda>_. True) a64_normal_flags live"
  by (rule a64_page_tables_walker [OF assms])

theorem a64_walker_witness:
  "walker (ref_env A64Meta64K52 (A64Pte64K52 arm_family) NoFlush) (\<lambda>_. True) a64_normal_flags
     (ref_live A64Meta64K52)"
  by (rule a64_walker [OF arm_family_ok a64_64k52.ref_host, where A = "ref_alloc A64Meta64K52" and T = NoFlush
      and L = ref_addr_lib]) (simp add: ref_env_def A64PageTable64K52_def)

section \<open>Table indices\<close>

text \<open>
  On every format (the contract is met by all eleven metadata types), the index of
  any address at any level is inside the table, so an entry access stays inside its frame.
\<close>

theorem index_in_table:
  assumes "paging_geometry M" "1 \<le> l" "l \<le> LEVELS M"
  shows "index_at M l v < ENTRIES_PER_TABLE M \<and>
    index_at M l v * 8 + 8 \<le> unat (bytes (TABLE_FRAME_SIZE M))"
  using paging_geometry.index_at_less [OF assms] paging_geometry.table_layout [OF assms(1)]
  by (metis (no_types, lifting) Suc_leI add.commute le_trans mult_Suc mult_le_mono1)

theorem index_in_table_witness: "index_at A64Meta64K48 3 0xffffffffffffffff < ENTRIES_PER_TABLE A64Meta64K48"
  using index_in_table [OF a64_64k48.paging_geometry_axioms, of 3] by (simp add: A64Meta64K48_def)

text \<open>
  The radix walk is injective: two valid addresses whose indices agree at every level lie in
  the same base page. Together with sign extension nothing above the address width is lost.
\<close>

theorem indices_determine_page:
  assumes "paging_geometry M" "vaddr_is_valid M v" "vaddr_is_valid M v'"
    and "\<forall>l. 1 \<le> l \<and> l \<le> LEVELS M \<longrightarrow> index_at M l v = index_at M l v'"
  shows "drop_bit (size_shift (BASE_PAGE_SIZE M)) v = drop_bit (size_shift (BASE_PAGE_SIZE M)) v'"
  using paging_geometry.same_path_iff [OF assms(1-3), of 1] assms(4)
    paging_geometry.levels_pos [OF assms(1)] paging_geometry.shift_base [OF assms(1)] by simp

theorem indices_determine_page_witness:
  "drop_bit (size_shift (BASE_PAGE_SIZE Rv64Meta39)) (0x1000 :: u64) =
   drop_bit (size_shift (BASE_PAGE_SIZE Rv64Meta39)) 0x1fff"
proof (rule indices_determine_page [OF rv64_39.paging_geometry_axioms], goal_cases)
  case 3
  have "index_at Rv64Meta39 l 0x1000 = index_at Rv64Meta39 l 0x1fff" if "l = 1 \<or> l = 2 \<or> l = 3" for l
    using that by (elim disjE) (simp_all add: index_at_def index_mask_def Let_def Rv64Meta39_def
        rv64_meta_def rv64_level_shift_def)
  moreover have "1 \<le> l \<and> l \<le> LEVELS Rv64Meta39 \<Longrightarrow> l = 1 \<or> l = 2 \<or> l = 3" for l
    by (auto simp: Rv64Meta39_def rv64_meta_def)
  ultimately show ?case by blast
qed (simp_all add: Rv64Meta39_def rv64_meta_def rv64_canonical_vaddr_is_valid_def)

section \<open>Cache policies\<close>

fun x86_memory_type :: "cache_policy \<Rightarrow> u64" where
  "x86_memory_type Writeback = X86_PAT_TYPE_WB"
| "x86_memory_type WriteThrough = X86_PAT_TYPE_WT"
| "x86_memory_type WriteCombine = X86_PAT_TYPE_WC"
| "x86_memory_type Uncached = X86_PAT_TYPE_UC"

text \<open>
  A CPU selects one of the eight entries of the PAT by three bits of a leaf: PWT, PCD, and the PAT bit,
  which is bit 7 in a leaf of level 1 and bit 12 in a larger one.
\<close>

definition x86_pat_index :: "nat \<Rightarrow> u64 \<Rightarrow> nat" where
  "x86_pat_index l e =
     4 * of_bool (if l = 1 then bit e 7 else bit e 12) + 2 * of_bool (bit e 4) + of_bool (bit e 3)"

definition pat_select :: "u64 \<Rightarrow> nat \<Rightarrow> u64 \<Rightarrow> u64" where
  "pat_select pat l e = drop_bit (8 * x86_pat_index l e) pat AND 0xff"

lemma x86_leaf_pat_bit:
  assumes "x86_level_supports_leaf l sz" "is_aligned sz p"
  shows "\<not> (if l = 1 then bit (x86_new_leaf p f sz) 7 else bit (x86_new_leaf p f sz) 12)"
proof -
  have p: "\<not> bit p n" if "n < size_shift sz" for n
    using assms(2) that by (simp add: is_aligned_mask aligned_iff_bits)
  consider "l = 1" "sz = Size4K" | "l = 2" "sz = Size2M" | "l = 3" "sz = Size1G"
    using assms(1) by (auto simp: x86_level_supports_leaf_def split: if_splits)
  then show ?thesis
    by cases (use p in \<open>simp_all add: x86_new_leaf_def bit_or_iff bit_and_iff bit_X86_ADDR_MASK
        bit_x86_to_leaf_bits Let_def\<close>)
qed

lemma x86_pat_entry:
  assumes "x86_level_supports_leaf l sz" "is_aligned sz p"
  shows "pat_select X86_PAT_MSR_VALUE l (x86_new_leaf p f sz) = x86_memory_type (x86_cache f)"
proof -
  have "bit (x86_new_leaf p f sz) 3 \<longleftrightarrow> bit (x86_cache_bits (x86_cache f)) 3"
    "bit (x86_new_leaf p f sz) 4 \<longleftrightarrow> bit (x86_cache_bits (x86_cache f)) 4"
    by (auto simp: bit_x86_new_leaf_low bit_x86_to_leaf_bits bit_x86_cache_bits x86_cache_def Let_def)
  then have "x86_pat_index l (x86_new_leaf p f sz) =
      2 * of_bool (bit (x86_cache_bits (x86_cache f)) 4) + of_bool (bit (x86_cache_bits (x86_cache f)) 3)"
    using x86_leaf_pat_bit [OF assms, of f] by (simp add: x86_pat_index_def)
  then show ?thesis
    unfolding pat_select_def by (cases "x86_cache f") (simp_all add: bit_x86_cache_bits x86_pat_defs)
qed

fun a64_memory_attr :: "cache_policy \<Rightarrow> u64" where
  "a64_memory_attr Writeback = A64_MAIR_ATTR_WRITEBACK"
| "a64_memory_attr Uncached = A64_MAIR_ATTR_DEVICE_NGNRNE"
| "a64_memory_attr WriteCombine = A64_MAIR_ATTR_NORMAL_NC"
| "a64_memory_attr WriteThrough = A64_MAIR_ATTR_WRITETHROUGH"

lemma a64_mair_byte:
  assumes "tte_ok T g n"
  shows "drop_bit (8 * unat (tte_attr_index T (a64_new_leaf T p f sz))) A64_MAIR_EL1_VALUE AND 0xff =
    a64_memory_attr (a64_cache f)"
  unfolding tte_view_simps a64_new_leaf_fields(2) [OF assms] a64_cache_def
  by (cases "ma_cache (a64_attrs f)") (simp_all add: a64_mair_defs)

text \<open>
  C36: the cache policy of a leaf and the memory types that the crate installs agree. For a leaf of a
  supported level and size at an aligned address, the entry that an x86_64 CPU selects by the PAT, PCD and
  PWT bits, in the value that \<^verbatim>\<open>install_x86_pat\<close> writes, is the memory type of the policy; the byte that an
  AArch64 CPU selects by the attribute index of a leaf, in the value that \<^verbatim>\<open>install_a64_mair_el1\<close> writes, is
  its attribute.
\<close>

theorem cache_encoding_consistent:
  assumes "x86_level_supports_leaf l sz" "is_aligned sz p" "tte_ok T g n"
  shows "pat_select X86_PAT_MSR_VALUE l (x86_new_leaf p xf sz) = x86_memory_type (x86_cache xf) \<and>
    drop_bit (8 * unat (tte_attr_index T (a64_new_leaf T q af sz'))) A64_MAIR_EL1_VALUE AND 0xff =
      a64_memory_attr (a64_cache af)"
  using x86_pat_entry [OF assms(1,2)] a64_mair_byte [OF assms(3)] by blast

theorem cache_encoding_consistent_witness:
  "pat_select X86_PAT_MSR_VALUE 2 (x86_new_leaf 0x40000000 (x86_flags_new AF_WRITE) Size2M) = X86_PAT_TYPE_WB \<and>
   drop_bit (8 * unat (tte_attr_index (arm_tte 12) (a64_new_leaf (arm_tte 12) 0 (a64_flags_new AF_WRITE) Size4K)))
     A64_MAIR_EL1_VALUE AND 0xff = 0xff"
proof -
  have "x86_level_supports_leaf 2 Size2M" "is_aligned Size2M 0x40000000" "12 \<le> (12 :: nat)"
    by (simp_all add: x86_level_supports_leaf_def is_aligned_def)
  from cache_encoding_consistent [OF this(1,2) arm_tte_ok [OF this(3)], of "x86_flags_new AF_WRITE" 0
      "a64_flags_new AF_WRITE" Size4K]
  show ?thesis
    by (simp add: a64_cache_def a64_flags_new_def x86_cache_def x86_flags_new_def ma_writeback_def ma_new_def
        A64_MAIR_ATTR_WRITEBACK_def)
qed

section \<open>Activation\<close>

lemma x86_switch_irq:
  assumes "x86_regs_ok X"
  shows "interrupts_enabled X (t @ x86_switch token) = interrupts_enabled X t"
proof -
  have step: "interrupts_enabled X (t @ [Cr4Write f]) = interrupts_enabled X t"
    "interrupts_enabled X (t @ [Cr0Write f]) = interrupts_enabled X t"
    "interrupts_enabled X (t @ [cr3_op r m]) = interrupts_enabled X t" for t f r m
    using assms by (simp_all add: x86_regs_ok_def cr3_op_def split: x86_cr3_mode.split)
  show ?thesis
    by (cases "xc_cr0 (xt_controls token)"; cases "xc_cr4 (xt_controls token)";
        simp only: x86_switch_def Let_def option.case append_Nil append_Nil2 append_assoc [symmetric] step)
qed

text \<open>
  C30: activating an installed x86_64 token writes CR4, then CR3, then CR0 (each only if requested),
  with interrupts off in between, and leaves the interrupt flag as it was. If the CR3 mode agrees
  with CR4.PCIDE, the CPU then reports the token: its root, its CR3 mode (without the one-time
  preserve hint) and the control registers.
\<close>

theorem x86_activation:
  assumes "x86_regs_ok X" "x86_addrs_ok X" "addr_lib_ok L" "x86_install L X root c = Ok token"
    and "is_pcid_mode (xc_cr3 c) \<longleftrightarrow>
      after_switch (xc_cr4 c) (cr4_read X t) AND CR4_PCID X = CR4_PCID X"
  shows "\<exists>t'. x86_activate L X token t = (Ok (), t') \<and>
    t' = t @ (if interrupts_enabled X t then [Cli] @ x86_switch token @ [Sti] else x86_switch token) \<and>
    interrupts_enabled X t' = interrupts_enabled X t \<and>
    fst (x86_current X t') =
      Ok (Some \<lparr>xt_root = root,
                xt_controls = \<lparr>xc_cr0 = Some (after_switch (xc_cr0 c) (cr0_read X t)),
                               xc_cr3 = observed_mode (xc_cr3 c),
                               xc_cr4 = Some (after_switch (xc_cr4 c) (cr4_read X t))\<rparr>\<rparr>)"
proof -
  let ?t = "t @ (if interrupts_enabled X t then [Cli] @ x86_switch token @ [Sti] else x86_switch token)"
  have act: "x86_activate L X token t = (Ok (), ?t)"
    using x86_activate_trace [OF assms(3,2,4)] by blast
  have on: "interrupts_enabled X (u @ [Sti])" for u using assms(1) by (simp add: x86_regs_ok_def)
  have "interrupts_enabled X ?t = interrupts_enabled X t"
    using x86_switch_irq [OF assms(1)] on [of "t @ [Cli] @ x86_switch token"] by auto
  then show ?thesis
    using act x86_activate_current [OF assms(1-4) act assms(5)] by blast
qed

theorem x86_activation_witness:
  "\<exists>t'. x86_activate ref_addr_lib ref_x86 \<lparr>xt_root = 0x4000, xt_controls = x86_controls_legacy 0\<rparr> [] = (Ok (), t') \<and>
     t' = [Cli, Cr3Write 0x4000 0, Sti]"
proof -
  have i: "x86_install ref_addr_lib ref_x86 0x4000 (x86_controls_legacy 0) =
      Ok \<lparr>xt_root = 0x4000, xt_controls = x86_controls_legacy 0\<rparr>"
    by (simp add: x86_install_def frame_from_root_def ref_addr_lib_def ref_x86_def mask_numeral)
  have "x86_controls_legacy 0 = \<lparr>xc_cr0 = None, xc_cr3 = Cr3ModeFlags 0, xc_cr4 = None\<rparr>"
    by (simp add: x86_controls_legacy_def x86_controls_new_def)
  then show ?thesis
    using x86_activation [OF ref_x86_ok(2,1) ref_addr_lib_ok i, of "[]"]
    by (simp add: is_pcid_mode_def after_switch_def ref_x86_def x86_switch_def cr3_op_def)
qed

text \<open>
  C31: activating an installed AArch64 token writes MAIR, then TCR, then the selected TTBR, then
  SCTLR, a barrier after each but MAIR, with IRQs masked in between, and restores DAIF. The CPU then
  reports the token: root, ASID and CnP come back from the TTBR encoding unchanged.
\<close>

theorem a64_activation:
  assumes "a64_regs_ok A" "a64_fields_ok A" "addr_lib_ok L" "a64_install L A root c = Ok token"
  shows "\<exists>t'. a64_activate A token t = (Ok (), t') \<and>
    t' = t @ [SetReg DAIF (reg_get A t DAIF OR push_bit 7 1)] @ a64_switch token @
           [SetReg DAIF (reg_get A t DAIF)] \<and>
    reg_get A t' DAIF = reg_get A t DAIF \<and>
    fst (a64_current A (tc_register (ac_ttbr c)) t') =
      Ok (Some \<lparr>at_root = root,
              at_controls =
                \<lparr>ac_mair_el1 = Some (case ac_mair_el1 c of Some v \<Rightarrow> v | None \<Rightarrow> reg_get A t MAIR_EL1),
                 ac_tcr_el1 = Some (case ac_tcr_el1 c of Some v \<Rightarrow> v | None \<Rightarrow> reg_get A t TCR_EL1),
                 ac_ttbr = ac_ttbr c,
                 ac_sctlr_el1 = Some (case ac_sctlr_el1 c of Some v \<Rightarrow> v | None \<Rightarrow> reg_get A t SCTLR_EL1)\<rparr>,
              at_ttbr_value = at_ttbr_value token\<rparr>)"
  using a64_activate_trace [of A token t]
    a64_activate_regs [OF assms(1) a64_activate_trace [of A token t], of DAIF] written_switch(1) [of token]
    a64_activate_current [OF assms a64_activate_trace [of A token t]]
  by simp

theorem a64_activation_witness:
  "\<exists>token t'. a64_install ref_addr_lib ref_a64_cpu 0x4000 (a64_controls_new (ttbr_config_new Ttbr0El1)) = Ok token \<and>
     a64_activate ref_a64_cpu token [] = (Ok (), t') \<and> reg_get ref_a64_cpu t' DAIF = 0"
proof -
  obtain token where
    i: "a64_install ref_addr_lib ref_a64_cpu 0x4000 (a64_controls_new (ttbr_config_new Ttbr0El1)) = Ok token"
    by (simp add: a64_install_def encode_ttbr_def ref_addr_lib_def Let_def)
  have "reg_get ref_a64_cpu [] DAIF = 0" by (simp add: ref_a64_cpu_def)
  then show ?thesis
    using a64_activation [OF ref_a64_cpu_ok ref_addr_lib_ok i, of "[]"] i by auto
qed

text \<open>
  C32: activating an installed RISC-V token that \<^verbatim>\<open>satp\<close> accepts writes \<^verbatim>\<open>satp\<close> once and then fences,
  if requested, with interrupts off; the interrupt-enable bit is restored and the CPU reports the
  root, mode and ASID of the token.
\<close>

theorem rv64_activation:
  assumes "riscv_ok R" "addr_lib_ok L" "rv64_install L root c = Ok token"
    and "satp_try_set_ok R (sc_mode c) (ucast (sc_asid c)) (drop_bit 12 root)"
  shows "\<exists>t'. rv64_activate R token t = (Ok (), t') \<and>
    t' = t @ [ClearSie, SatpSet (sc_mode c) (ucast (sc_asid c)) (drop_bit 12 root)] @
           (if sc_fence_after c then [SfenceVmaAll] else []) @ (if sstatus_sie R t then [SetSie] else []) \<and>
    sstatus_sie R t' = sstatus_sie R t \<and>
    fst (rv64_current R t') =
      Ok (Some \<lparr>st_root = root, st_controls = satp_with_fence_after c True, st_ppn = drop_bit 12 root\<rparr>)"
proof -
  obtain ppn where "rv64_ppn_from_root L root = Ok ppn"
    and tok: "token = \<lparr>st_root = root, st_controls = c, st_ppn = ppn\<rparr>"
    using assms(3) by (auto simp: rv64_install_def bind_res_eq_Ok)
  then have "ppn = drop_bit 12 root" using rv64_ppn_from_root_Ok(2) [OF assms(2)] by blast
  with tok assms(4) have act: "rv64_activate R token t = (Ok (), t @ [ClearSie,
      SatpSet (sc_mode c) (ucast (sc_asid c)) (drop_bit 12 root)] @
      (if sc_fence_after c then [SfenceVmaAll] else []) @ (if sstatus_sie R t then [SetSie] else []))"
    by (simp add: rv64_activate_cases)
  show ?thesis
    using act rv64_activate_current [OF assms(1-3) act]
      rv64_irq_restored [OF assms(1) act [unfolded rv64_activate_def] satp_switch_sie [OF assms(1)]]
    by blast
qed

theorem rv64_activation_witness:
  "\<exists>t'. rv64_activate ref_riscv \<lparr>st_root = 0x4000, st_controls = satp_controls_new (), st_ppn = 4\<rparr> [] = (Ok (), t') \<and>
     t' = [ClearSie, SatpSet () 0 4, SfenceVmaAll, SetSie]"
proof -
  have i: "rv64_install ref_addr_lib 0x4000 (satp_controls_new ()) =
      Ok \<lparr>st_root = 0x4000, st_controls = satp_controls_new (), st_ppn = 4\<rparr>"
    by (simp add: rv64_install_def rv64_ppn_from_root_def ref_addr_lib_def Let_def)
  show ?thesis
    using rv64_activation [OF ref_riscv_ok ref_addr_lib_ok i, of "[]"]
    by (simp add: satp_controls_new_def ref_riscv_def)
qed

definition install_verdict :: "nat \<Rightarrow> paddr \<Rightarrow> unit res" where
  "install_verdict k root =
     (if root AND mask 12 \<noteq> 0 then Err NotAligned
      else if root < push_bit k 1 then Ok () else Err AddressOutOfRange)"

definition verdict :: "'a res \<Rightarrow> unit res" where
  "verdict r = bind_res r (\<lambda>_. Ok ())"

lemma aligned_ref: "addr_lib_ok L \<Longrightarrow> addr_is_aligned L root (bytes Size4K) \<longleftrightarrow> root AND mask 12 = 0"
  using addr_is_aligned [of L 12 root] unfolding bytes_push_bit size_shift.simps by simp

lemma ppn_bound: "0x0fffffffffff < drop_bit 12 root \<longleftrightarrow> \<not> root < push_bit 56 (1 :: u64)"
proof -
  have "0x0fffffffffff < drop_bit 12 root \<longleftrightarrow> \<not> unat (drop_bit 12 root) < 2 ^ 44"
    by (auto simp: word_less_nat_alt not_less less_eq_Suc_le)
  also have "unat (drop_bit 12 root) < 2 ^ 44 \<longleftrightarrow> unat root < 2 ^ 44 * 2 ^ 12"
  proof -
    have "unat (drop_bit 12 root) = unat root div 2 ^ 12"
      using unat_drop_bit_eq [of 12 root] by (simp only: drop_bit_eq_div)
    then show ?thesis by (simp only: div_less_iff_less_mult zero_less_numeral zero_less_power)
  qed
  also have "\<dots> \<longleftrightarrow> root < push_bit 56 1"
    using unat_push_bit_one [of 56] by (simp add: word_less_nat_alt del: push_bit_of_1)
  finally show ?thesis .
qed

text \<open>
  C33: what installation accepts, on each architecture: a root that is not 4 KiB aligned is refused
  with \<^verbatim>\<open>NotAligned\<close>; an aligned root is accepted when it is below \<open>2 ^ 52\<close> (x86_64), \<open>2 ^ 48\<close>
  (AArch64), \<open>2 ^ 56\<close> (RISC-V), and refused with \<^verbatim>\<open>AddressOutOfRange\<close> otherwise.
\<close>

theorem install_validates:
  assumes "addr_lib_ok L" "x86_addrs_ok X" "a64_fields_ok A"
  shows "verdict (x86_install L X root xc) = install_verdict 52 root \<and>
    verdict (a64_install L A root ac) = install_verdict 48 root \<and>
    verdict (rv64_install L root rc) = install_verdict 56 root"
proof (intro conjI)
  show "verdict (x86_install L X root xc) = install_verdict 52 root"
    unfolding x86_install_def frame_from_root_iff [OF assms(1,2)] verdict_def install_verdict_def
    by (cases "root AND mask 12 = 0"; cases "\<forall>n\<ge>52. \<not> bit root n")
      (simp_all add: word_less_push_bit del: push_bit_of_1)
  show "verdict (a64_install L A root ac) = install_verdict 48 root"
    unfolding a64_install_def encode_ttbr_def aligned_ref [OF assms(1)] ttbr_root_fits verdict_def
      install_verdict_def Let_def
    by (auto simp: aligned_iff_bits word_less_push_bit simp del: push_bit_of_1)
  show "verdict (rv64_install L root rc) = install_verdict 56 root"
    unfolding rv64_install_def rv64_ppn_from_root_def aligned_ref [OF assms(1)] verdict_def
      install_verdict_def Let_def ppn_bound
    by simp
qed

theorem install_validates_witness:
  "verdict (a64_install ref_addr_lib ref_a64_cpu 0x4000000000000 (a64_controls_new (ttbr_config_new Ttbr0El1))) =
     Err AddressOutOfRange"
  using install_validates [OF ref_addr_lib_ok ref_x86_ok(1) ref_a64_cpu_ok(2), of "0x4000000000000" "x86_controls_legacy 0"
      "a64_controls_new (ttbr_config_new Ttbr0El1)" "satp_controls_new ()"]
  by (simp add: install_verdict_def mask_numeral)

section \<open>TLB invalidation\<close>

text \<open>
  The default range invalidation, a loop over a saturating address, is one invalidation per page
  of the range and no other, on every back end that inherits it, as long as the last page of the
  range starts below \<open>2 ^ 64\<close>. The loop ends on every input.
\<close>

theorem default_range_flush:
  assumes "unat start + (unat n - 1) * unat (bytes sz) < 2 ^ 64"
  shows "flush_tlb_range_local A64Tlb start sz n =
      concat (map (\<lambda>i. flush_tlb_local A64Tlb (start + of_nat i * bytes sz)) [0..<unat n]) \<and>
    flush_tlb_range_local (Rv64Tlb :: 'm rv_op tlb_impl) start sz n =
      map (\<lambda>i. SfenceVma (start + of_nat i * bytes sz)) [0..<unat n] \<and>
    flush_tlb_range_local (X86Tlb X) start sz n =
      concat (map (\<lambda>i. flush_tlb_local (X86Tlb X) (start + of_nat i * bytes sz)) [0..<unat n]) \<and>
    flush_tlb_range_local (X86PcidTlb X p) start sz n =
      concat (map (\<lambda>i. flush_tlb_local (X86PcidTlb X p) (start + of_nat i * bytes sz)) [0..<unat n])"
  by (simp_all add: A64Tlb_def Rv64Tlb_def X86Tlb_def X86PcidTlb_def default_flush_tlb_range_local_def
      default_flush_range_loop_pages [OF assms])

theorem default_range_flush_witness:
  "flush_tlb_range_local Rv64Tlb 0xffffffffffffe000 Size4K 2 =
     [SfenceVma 0xffffffffffffe000, SfenceVma 0xfffffffffffff000 :: unit rv_op]"
  using default_range_flush [where 'm = unit, of "0xffffffffffffe000" 2 Size4K ref_x86 0] by (simp add: upt_rec)

text \<open>
  The INVLPGB back end flushes a 4 KiB range with one broadcast carrying its PCID tag and global
  flag, and synchronises before it returns; any other page size becomes a full flush; a range whose
  start is not 4 KiB aligned is silently not flushed at all.
\<close>

theorem invlpgb_range_flush:
  assumes "x86_addrs_ok X" "canonical 48 start" "canonical 48 (start + n * 4096)"
    and "unat start + unat n * 4096 < 2 ^ 64"
  shows "flush_tlb_range_local (X86InvlpgbTlb X i) start sz n =
    (if sz \<noteq> Size4K then flush_tlb_all_local (X86InvlpgbTlb X i)
     else if start AND mask 12 \<noteq> 0 then []
     else [InvlpgbFlush (it_pcid i) (it_include_global i) start (start + n * 4096), TlbSync])"
  using assms by (simp add: X86InvlpgbTlb_def invlpgb_flush_tlb_range_local_def x86_addrs_ok_def ops_of_def)

theorem invlpgb_range_flush_witness:
  "flush_tlb_range_local (X86InvlpgbTlb ref_x86 \<lparr>it_pcid = Some 3, it_include_global = False\<rparr>) 0x1000 Size4K 2 =
     [InvlpgbFlush (Some 3) False 0x1000 0x3000, TlbSync]"
proof -
  have "canonical 48 0x1000" "canonical 48 (0x1000 + 2 * 4096)"
    using x86_canonical_48 [of "0x1000"] x86_canonical_48 [of "0x3000"]
    by (simp_all add: x86_canonical_vaddr_is_valid_def)
  from invlpgb_range_flush [OF ref_x86_ok(1) this] show ?thesis by (simp add: mask_numeral)
qed

text \<open>Where the x86_64 back ends panic.\<close>

lemma x86_valid_canonical:
  "vaddr_is_valid X86Meta48 v = canonical 48 v" "vaddr_is_valid X86Meta57 v = canonical 57 v"
  using canonical_test [of 48 v] canonical_test [of 57 v]
  by (simp_all add: X86Meta48_def X86Meta57_def x86_canonical_vaddr_is_valid_def Let_def)

lemma x86_flush_local_panics:
  assumes "x86_addrs_ok X"
  shows "(x86_flush_tlb_local X v = Panic) = (\<not> vaddr_is_valid X86Meta48 v)"
    "(pcid_flush_tlb_local X p v = Panic) = (\<not> vaddr_is_valid X86Meta48 v)"
    "(invlpgb_flush_tlb_local X i v = Panic) = (\<not> vaddr_is_valid X86Meta48 v)"
  using assms
  by (auto simp: x86_valid_canonical x86_addrs_ok_def x86_flush_tlb_local_def pcid_flush_tlb_local_def
      invlpgb_flush_tlb_local_def split: option.splits)

lemma invlpgb_range_panics:
  assumes X: "x86_addrs_ok X"
    and r: "is_aligned Size4K start \<and> 0 < n \<and> unat start + unat n * 4096 < 2 ^ 64 \<and>
      (\<forall>k<unat n. vaddr_is_valid X86Meta48 (start + of_nat k * 4096))"
  shows "(invlpgb_flush_tlb_range_local X i start Size4K n = Panic) = (unat start + unat n * 4096 = 2 ^ 47)"
proof -
  let ?a = "unat start" and ?n = "unat n"
  have n: "0 < ?n" using r by (metis unat_gt_0 word_gt_0)
  have at: "unat (start + of_nat k * 4096) = ?a + k * 4096" if "k \<le> ?n" for k
  proof -
    have "?a + k * 4096 < 2 ^ 64" using that r mult_le_mono1 [of k ?n 4096] by linarith
    then show ?thesis by (simp add: unat_word_ariths unat_of_nat)
  qed
  have last: "?a + (?n - 1) * 4096 < 2 ^ 47 \<or> 2 ^ 64 - 2 ^ 47 \<le> ?a + (?n - 1) * 4096"
  proof -
    have "?n - 1 < ?n" using n by simp
    then have "vaddr_is_valid X86Meta48 (start + of_nat (?n - 1) * 4096)" using r by blast
    then show ?thesis unfolding x86_valid_canonical canonical_nat [of 48, simplified] using at [of "?n - 1"] by simp
  qed
  have start: "canonical 48 start" "start AND mask 12 = 0"
    using r n by (force simp: x86_valid_canonical, simp add: is_aligned_mask)
  have e: "unat (start + n * 4096) = ?a + ?n * 4096" using at [OF order.refl] by simp
  have step: "?a + ?n * 4096 = ?a + (?n - 1) * 4096 + 4096" using n by (cases ?n) simp_all
  have "4096 dvd ?a" using r is_aligned_dvd [of Size4K start] by simp
  then have "4096 dvd ?a + (?n - 1) * 4096" by simp
  then obtain q where "?a + (?n - 1) * 4096 = 4096 * q" ..
  then have "?a + (?n - 1) * 4096 < 2 ^ 47 \<longrightarrow> ?a + (?n - 1) * 4096 + 4096 \<le> 2 ^ 47" by auto
  then have "canonical 48 (start + n * 4096) \<longleftrightarrow> ?a + ?n * 4096 \<noteq> 2 ^ 47"
    unfolding canonical_nat [of 48, simplified] e using last step by auto
  then show ?thesis
    using X start r by (auto simp: invlpgb_flush_tlb_range_local_def x86_addrs_ok_def)
qed

lemma page_sweep_no_abort:
  assumes X: "x86_addrs_ok X"
    and r: "is_aligned Size4K start \<and> 0 < n \<and> unat start + unat n * 4096 < 2 ^ 64 \<and>
      (\<forall>k<unat n. vaddr_is_valid X86Meta48 (start + of_nat k * 4096))"
  shows "X86Abort \<notin> set (flush_tlb_range_local (X86Tlb X) start Size4K n)"
    "X86Abort \<notin> set (flush_tlb_range_local (X86PcidTlb X p) start Size4K n)"
proof -
  have "(unat n - 1) * 4096 \<le> unat n * 4096" by (rule mult_le_mono1) simp
  moreover have "unat start + unat n * 4096 < 2 ^ 64" using r by blast
  ultimately have "unat start + (unat n - 1) * 4096 < 2 ^ 64" by linarith
  then have fits: "unat start + (unat n - 1) * unat (bytes Size4K) < 2 ^ 64" by simp
  have "bytes Size4K = 4096" by simp
  note loop = default_flush_range_loop_pages [OF fits, unfolded this]
  have "virt_addr_new X (start + of_nat k * 4096) = Ok (start + of_nat k * 4096)" if "k < unat n" for k
    using that r X by (simp add: x86_valid_canonical x86_addrs_ok_def)
  then show "X86Abort \<notin> set (flush_tlb_range_local (X86Tlb X) start Size4K n)"
    "X86Abort \<notin> set (flush_tlb_range_local (X86PcidTlb X p) start Size4K n)"
    by (auto simp: X86Tlb_def X86PcidTlb_def default_flush_tlb_range_local_def loop x86_flush_tlb_local_def
        pcid_flush_tlb_local_def ops_of_def)
qed



end
