(* ===== verification/HwX86.thy ===== *)
theory HwX86
  imports Hardware Architectures
begin

text \<open>
  The page walk of an x86_64 CPU, written from the architecture manual (4-level and 5-level paging with
  execute-disable enabled and 52 physical address bits) and not from the crate: it reads physical
  memory, knows nothing of the types of the crate, and faults on reserved bits. On the memory that the
  walker leaves behind it translates every address exactly as \<^verbatim>\<open>query\<close> says.
\<close>

section \<open>The CPU\<close>

text \<open>The result of a walk: the physical address, the rights, and the memory type of the page.\<close>

record x86_page =
  hx_pa :: paddr
  hx_write :: bool
  hx_user :: bool
  hx_exec :: bool
  hx_global :: bool
  hx_type :: u64

text \<open>Bit 7 is reserved in the upper two levels; the unused low bits of a large frame are reserved.\<close>

definition x86_reserved :: "nat \<Rightarrow> u64 \<Rightarrow> bool" where
  "x86_reserved l e \<longleftrightarrow> bit e 7 \<and>
     (4 \<le> l \<or> l = 3 \<and> (\<exists>n\<in>{13..<30}. bit e n) \<or> l = 2 \<and> (\<exists>n\<in>{13..<21}. bit e n))"

text \<open>The memory type of the page is the entry of the PAT that the leaf selects.\<close>

definition x86_leaf_page :: "u64 \<Rightarrow> nat \<Rightarrow> u64 \<Rightarrow> vaddr \<Rightarrow> bool \<Rightarrow> bool \<Rightarrow> bool \<Rightarrow> x86_page" where
  "x86_leaf_page pat l e v w u x =
     (let s = 3 + 9 * l in
      \<lparr>hx_pa = (e AND push_bit s (mask (52 - s))) OR (v AND mask s),
       hx_write = w, hx_user = u, hx_exec = x, hx_global = bit e 8,
       hx_type = pat_select pat l e\<rparr>)"

text \<open>
  A walk from the table at \<open>t\<close> on level \<open>l\<close>. Writing and user access need their bit in every entry of
  the walk, execution needs the absence of the execute-disable bit in every entry.
\<close>

fun x86_walk :: "(paddr \<Rightarrow> u64) \<Rightarrow> u64 \<Rightarrow> nat \<Rightarrow> paddr \<Rightarrow> vaddr \<Rightarrow> bool \<Rightarrow> bool \<Rightarrow> bool \<Rightarrow> x86_page option" where
  "x86_walk rd pat 0 t v w u x = None"
| "x86_walk rd pat (Suc l) t v w u x =
     (let e = rd (t + (drop_bit (12 + 9 * l) v AND 0x1ff) * 8);
          w = (w \<and> bit e 1); u = (u \<and> bit e 2); x = (x \<and> \<not> bit e 63)
      in if \<not> bit e 0 \<or> x86_reserved (Suc l) e then None
         else if l = 0 \<or> bit e 7 then Some (x86_leaf_page pat (Suc l) e v w u x)
         else x86_walk rd pat l (e AND 0x000ffffffffff000) v w u x)"

text \<open>A non-canonical address faults before the walk; the root is the frame of CR3.\<close>

definition x86_translate :: "(paddr \<Rightarrow> u64) \<Rightarrow> u64 \<Rightarrow> nat \<Rightarrow> u64 \<Rightarrow> vaddr \<Rightarrow> x86_page option" where
  "x86_translate rd pat levels cr3 v =
     (if canonical (12 + 9 * levels) v
      then x86_walk rd pat levels (cr3 AND 0x000ffffffffff000) v True True True else None)"

section \<open>The entries of the crate under the walk\<close>

lemma bit_0x1ff_index: "drop_bit k v AND 0x1ff = take_bit 9 (drop_bit k (v :: u64))"
proof -
  have "(0x1ff :: u64) = mask 9" by (simp add: mask_numeral)
  then show ?thesis by (simp add: take_bit_eq_mask)
qed

lemma x86_index:
  assumes "M = X86Meta48 \<or> M = X86Meta57"
  shows "of_nat (index_at M (Suc l) v) = drop_bit (12 + 9 * l) v AND 0x1ff"
proof -
  have "level_shift M (Suc l) = 12 + 9 * l" "index_mask M (Suc l) = 0x1ff"
    using assms by (auto simp: X86Meta48_def X86Meta57_def index_mask_def)
  then show ?thesis by (simp add: index_at_def)
qed

lemma x86_table_bits:
  "bit (x86_new_table g l) n \<longleftrightarrow> (if 12 \<le> n \<and> n < 52 then bit g n else n \<le> 2)"
  by (auto simp: x86_new_table_def bit_or_iff bit_and_iff bit_X86_ADDR_MASK bit_X86_TABLE_FLAGS)

lemma x86_leaf_bits:
  "bit (x86_new_leaf p f sz) n \<longleftrightarrow> (if 12 \<le> n \<and> n < 52 then bit p n else bit (x86_to_leaf_bits f sz) n)"
  by (auto simp: x86_new_leaf_def bit_or_iff bit_and_iff bit_X86_ADDR_MASK bit_x86_to_leaf_bits Let_def)

lemma x86_table_walks:
  assumes "is_aligned Size4K g" "default_paddr_is_valid 52 g"
  shows "x86_new_table g l AND 0x000ffffffffff000 = g"
  using x86_leaf_paddr(2) [OF assms, of l] by (simp add: x86_pte_paddr_def X86_ADDR_MASK_def)

lemma x86_leaf_not_reserved:
  assumes "x86_level_supports_leaf l sz" "is_aligned sz p"
  shows "\<not> x86_reserved l (x86_new_leaf p f sz)" "l = 1 \<or> bit (x86_new_leaf p f sz) 7"
proof -
  have p: "\<not> bit p n" if "n < size_shift sz" for n
    using assms(2) that by (simp add: is_aligned_mask aligned_iff_bits)
  consider "l = 1" "sz = Size4K" | "l = 2" "sz = Size2M" | "l = 3" "sz = Size1G"
    using assms(1) by (auto simp: x86_level_supports_leaf_def split: if_splits)
  then show "\<not> x86_reserved l (x86_new_leaf p f sz)" "l = 1 \<or> bit (x86_new_leaf p f sz) 7"
    by (cases; use p in \<open>simp add: x86_reserved_def x86_leaf_bits bit_x86_to_leaf_bits Let_def\<close>)+
qed

lemma x86_leaf_pa:
  assumes "x86_level_supports_leaf l sz" "is_aligned sz p" "default_paddr_is_valid 52 p"
  shows "(x86_new_leaf p f sz AND push_bit (3 + 9 * l) (mask (52 - (3 + 9 * l)))) OR (v AND mask (3 + 9 * l)) =
    p + (v AND mask (size_shift sz))"
proof -
  have s: "3 + 9 * l = size_shift sz"
    using assms(1) by (auto simp: x86_level_supports_leaf_def split: if_splits)
  have k: "12 \<le> size_shift sz" "size_shift sz \<le> 52" by (cases sz; simp)+
  have lo: "\<not> bit p n" if "n < size_shift sz" for n
    using assms(2) that by (simp add: is_aligned_mask aligned_iff_bits)
  have hi: "\<not> bit p n" if "52 \<le> n" for n
    using assms(3) that by (simp add: default_paddr_valid_bits)
  have "x86_new_leaf p f sz AND push_bit (size_shift sz) (mask (52 - size_shift sz)) = p"
  proof (rule bit_word_eqI)
    fix n :: nat assume "n < LENGTH(64)"
    show "bit (x86_new_leaf p f sz AND push_bit (size_shift sz) (mask (52 - size_shift sz))) n = bit p n"
      using lo [of n] hi [of n] k
      by (cases "n < size_shift sz"; cases "52 \<le> n")
        (auto simp: bit_and_iff bit_push_bit_iff bit_mask_word x86_leaf_bits)
  qed
  moreover have "p OR (v AND mask (size_shift sz)) = p + (v AND mask (size_shift sz))"
    using lo by (intro disjunctive_add [symmetric]) (auto simp: bit_and_iff bit_mask_word)
  ultimately show ?thesis unfolding s by simp
qed

text \<open>What the mapping that \<^verbatim>\<open>query\<close> returns promises of an access.\<close>

definition x86_page_of :: "x86_flags mapping \<Rightarrow> vaddr \<Rightarrow> x86_page" where
  "x86_page_of mp v =
     (let a = x86_access (m_flags mp) in
      \<lparr>hx_pa = mapping_pa mp v, hx_write = af_contains a AF_WRITE, hx_user = af_contains a AF_USER,
       hx_exec = af_contains a AF_EXECUTE, hx_global = af_contains a AF_GLOBAL,
       hx_type = x86_memory_type (x86_cache (m_flags mp))\<rparr>)"

lemma x86_walk_formed:
  assumes W: "walker E (\<lambda>_. True) norm live" and P: "e_pte E = X86Pte"
    and M: "e_meta E = X86Meta48 \<or> e_meta E = X86Meta57" and lin: "linear_window E"
  shows "\<lbrakk>forms_ok E (\<lambda>_. True) live S w; S cur = Some l\<rbrakk> \<Longrightarrow>
    x86_walk (phys_read E (mem w)) pat l cur v True True True =
      (case view E (mem w) l cur v of
         Ok (t, e) \<Rightarrow> Some (x86_leaf_page pat t e v (bit e 1) (bit e 2) (\<not> bit e 63))
       | _ \<Rightarrow> None)"
proof (induction l arbitrary: cur)
  case 0
  then show ?case by (simp add: view_0)
next
  case (Suc l)
  let ?i = "index_at (e_meta E) (Suc l) v"
  let ?e = "read_entry E (mem w) cur ?i"
  note ge = walker.good_entry(2-5) [OF W Suc.prems]
  have rd: "phys_read E (mem w) (cur + (drop_bit (12 + 9 * l) v AND 0x1ff) * 8) = ?e"
    using phys_read_entry [OF lin ge(2) ge(1)] x86_index [OF M] by simp
  have kinds: "is_present (e_pte E) e = bit e 0" "entry_kind (e_pte E) e k = (if k = 1 \<or> bit e 7 then Leaf else Table)" for e k
    by (simp_all add: P X86Pte_def x86_is_present_bit x86_entry_kind_bit)
  show ?case
  proof (rule walker.formed_cases [OF W Suc.prems(1) forms_okD(3) [OF Suc.prems ge(1)] ge(3,4)])
    assume "\<not> is_present (e_pte E) ?e"
    then show ?thesis using kinds by (simp add: rd view_Suc entry_view_def)
  next
    fix p f sz
    assume l: "level_supports_leaf (e_meta E) (Suc l) sz" "is_aligned sz p"
      "?e = new_leaf (e_pte E) p f sz" "is_present (e_pte E) ?e" "entry_kind (e_pte E) ?e (Suc l) = Leaf"
    then have "x86_level_supports_leaf (Suc l) sz" "?e = x86_new_leaf p f sz"
      using M by (auto simp: P X86Pte_def X86Meta48_def X86Meta57_def)
    from x86_leaf_not_reserved [OF this(1) l(2), of f] this(2) l(4,5) show ?thesis
      by (auto simp: rd view_Suc entry_view_def entry_is_leaf_def kinds Let_def)
  next
    fix g
    assume t: "1 < Suc l" "S g = Some (Suc l - 1)" "?e = new_table (e_pte E) g (Suc l)"
      "is_present (e_pte E) ?e" "entry_kind (e_pte E) ?e (Suc l) = Table" "pte_paddr (e_pte E) ?e = g"
    have "frame_ok (e_meta E) g" using forms_okD(2) [OF Suc.prems(1) t(2)] by simp
    then have "?e AND 0x000ffffffffff000 = g"
      using x86_table_walks M unfolding t(3) by (auto simp: P X86Pte_def frame_ok_def X86Meta48_def X86Meta57_def)
    moreover have "bit ?e 0" "bit ?e 1" "bit ?e 2" "\<not> bit ?e 7" "\<not> bit ?e 63" "\<not> x86_reserved (Suc l) ?e"
      unfolding t(3) by (simp_all add: P X86Pte_def x86_table_bits x86_reserved_def)
    ultimately show ?thesis
      using t Suc.IH [OF Suc.prems(1), of g]
      by (simp add: rd view_Suc entry_view_def entry_is_leaf_def Let_def)
  qed
qed

lemma x86_hardware:
  assumes W: "walker E (\<lambda>_. True) x86_normal_flags live" and P: "e_pte E = X86Pte"
    and M: "e_meta E = X86Meta48 \<or> e_meta E = X86Meta57" and lin: "linear_window E"
    and s: "settled E (\<lambda>_. True) live root w"
  shows "x86_translate (phys_read E (mem w)) X86_PAT_MSR_VALUE (LEVELS (e_meta E)) root v =
    (case query E root v (mem w) of Ok mp \<Rightarrow> Some (x86_page_of mp v) | _ \<Rightarrow> None)"
proof -
  have can: "vaddr_is_valid (e_meta E) v \<longleftrightarrow> canonical (12 + 9 * LEVELS (e_meta E)) v"
    using M by (auto simp: X86Meta48_def X86Meta57_def x86_canonical)
  obtain S where S: "forms_ok E (\<lambda>_. True) live S w" "S root = Some (LEVELS (e_meta E))"
    using s by (auto simp: settled_def well_formed_def)
  have "frame_ok (e_meta E) root" using forms_okD(2) [OF S] by simp
  then have f: "is_aligned Size4K root" "default_paddr_is_valid 52 root"
    using M by (auto simp: frame_ok_def X86Meta48_def X86Meta57_def)
  have r: "root AND 0x000ffffffffff000 = root"
    using x86_paddr_fits [OF aligned_4k [OF f(1)] f(2)] by (simp add: X86_ADDR_MASK_def)
  note walk = x86_walk_formed [OF W P M lin S]
  show ?thesis
  proof (cases "vaddr_is_valid (e_meta E) v")
    case False
    then show ?thesis using can by (simp add: x86_translate_def query_view check_vaddr_def)
  next
    case val: True
    from walker.settled_query [OF W s val] show ?thesis
    proof (elim disjE exE conjE)
      assume "root_view E w root v = Err NotMapped" "query E root v (mem w) = Err NotMapped"
      then show ?thesis using walk can val r by (simp add: x86_translate_def)
    next
      fix t e mp p f sz
      assume q: "root_view E w root v = Ok (t, e)" "query E root v (mem w) = Ok mp"
        "level_supports_leaf (e_meta E) t sz" "is_aligned sz p" "paddr_is_valid (e_meta E) p"
        "e = new_leaf (e_pte E) p f sz" "m_flags mp = pte_flags (e_pte E) e"
        "mapping_pa mp v = p + (v AND mask (size_shift sz))"
      have l: "x86_level_supports_leaf t sz" "default_paddr_is_valid 52 p" "e = x86_new_leaf p f sz"
        and fl: "m_flags mp = x86_flags_from_bits e"
        using q M by (auto simp: P X86Pte_def X86Meta48_def X86Meta57_def)
      have ty: "pat_select X86_PAT_MSR_VALUE t e = x86_memory_type (x86_cache (m_flags mp))"
        using x86_pat_entry [OF l(1) q(4), of f] x86_decoded_cache [of p f sz] by (simp add: l(3) fl x86_cache_def)
      have "x86_leaf_page X86_PAT_MSR_VALUE t e v (bit e 1) (bit e 2) (\<not> bit e 63) = x86_page_of mp v"
        unfolding x86_leaf_page_def x86_page_of_def Let_def ty q(8) x86_leaf_pa [OF l(1) q(4) l(2), of f v, folded l(3)]
        by (simp add: af_contains_consts fl bit_x86_decoded_access)
      then show ?thesis using walk can val r q(1,2) by (simp add: x86_translate_def)
    qed
  qed
qed

end
