(* ===== verification/HwRv64.thy ===== *)
theory HwRv64
  imports Hardware Architectures
begin

text \<open>
  The page walk of a RISC-V CPU (Sv39, Sv48, Sv57, with and without Svpbmt), written from the
  privileged architecture manual and not from the crate: a page fault on every reserved bit or
  encoding, on a misaligned superpage, and on a leaf whose accessed bit is clear; a store needs the dirty
  bit. On the memory that the walker leaves behind it translates every address exactly as \<^verbatim>\<open>query\<close> says.
\<close>

section \<open>The CPU\<close>

record rv64_page =
  hr_pa :: paddr
  hr_read :: bool
  hr_write :: bool
  hr_exec :: bool
  hr_user :: bool
  hr_global :: bool
  hr_pbmt :: u64

text \<open>An invalid entry, or one that uses a reserved bit or encoding.\<close>

definition rv64_faults :: "bool \<Rightarrow> u64 \<Rightarrow> bool" where
  "rv64_faults svpbmt e \<longleftrightarrow> \<not> bit e 0 \<or> bit e 2 \<and> \<not> bit e 1 \<or> (\<exists>n\<in>{54..<61}. bit e n) \<or> bit e 63 \<or>
     (if svpbmt then bit e 61 \<and> bit e 62 else bit e 61 \<or> bit e 62)"

text \<open>In a pointer the accessed, dirty, user and memory-type bits are reserved.\<close>

definition rv64_pointer_faults :: "u64 \<Rightarrow> bool" where
  "rv64_pointer_faults e \<longleftrightarrow> bit e 4 \<or> bit e 6 \<or> bit e 7 \<or> bit e 61 \<or> bit e 62"

definition rv64_frame :: "u64 \<Rightarrow> paddr" where
  "rv64_frame e = push_bit 12 (take_bit 44 (drop_bit 10 e))"

definition rv64_leaf_page :: "nat \<Rightarrow> u64 \<Rightarrow> vaddr \<Rightarrow> bool \<Rightarrow> rv64_page option" where
  "rv64_leaf_page l e v g =
     (let s = 3 + 9 * l in
      if \<not> bit e 6 \<or> rv64_frame e AND mask s \<noteq> 0 then None
      else Some \<lparr>hr_pa = rv64_frame e OR (v AND mask s),
                 hr_read = bit e 1, hr_write = (bit e 2 \<and> bit e 7), hr_exec = bit e 3, hr_user = bit e 4,
                 hr_global = (g \<or> bit e 5), hr_pbmt = take_bit 2 (drop_bit 61 e)\<rparr>)"

text \<open>A global pointer makes everything below it global.\<close>

fun rv64_walk :: "(paddr \<Rightarrow> u64) \<Rightarrow> bool \<Rightarrow> nat \<Rightarrow> paddr \<Rightarrow> vaddr \<Rightarrow> bool \<Rightarrow> rv64_page option" where
  "rv64_walk rd svpbmt 0 t v g = None"
| "rv64_walk rd svpbmt (Suc l) t v g =
     (let e = rd (t + (drop_bit (12 + 9 * l) v AND 0x1ff) * 8) in
      if rv64_faults svpbmt e then None
      else if bit e 1 \<or> bit e 3 then rv64_leaf_page (Suc l) e v g
      else if rv64_pointer_faults e then None
      else rv64_walk rd svpbmt l (rv64_frame e) v (g \<or> bit e 5))"

text \<open>The root is the page number of \<open>satp\<close>.\<close>

definition rv64_translate :: "(paddr \<Rightarrow> u64) \<Rightarrow> bool \<Rightarrow> nat \<Rightarrow> u64 \<Rightarrow> vaddr \<Rightarrow> rv64_page option" where
  "rv64_translate rd svpbmt levels ppn v =
     (if canonical (12 + 9 * levels) v then rv64_walk rd svpbmt levels (push_bit 12 ppn) v False else None)"

section \<open>The entries of the crate under the walk\<close>

lemma bit_rv64_frame: "bit (rv64_frame e) n \<longleftrightarrow> 12 \<le> n \<and> n < 56 \<and> bit e (n - 2)"
proof -
  have "12 \<le> n \<Longrightarrow> 10 + (n - 12) = n - 2" by simp
  then show ?thesis by (auto simp: rv64_frame_def bit_push_bit_iff bit_take_bit_iff bit_drop_bit_eq)
qed

lemma rv64_frame_paddr: "rv64_frame e = ppn_bits_to_paddr e"
  by (rule bit_word_eqI) (simp add: bit_rv64_frame bit_ppn_bits_to_paddr)

lemma rv64_index: "of_nat (index_at (rv64_meta n va) (Suc l) v) = drop_bit (12 + 9 * l) v AND 0x1ff"
proof -
  have "level_shift (rv64_meta n va) (Suc l) = 12 + 9 * l" "index_mask (rv64_meta n va) (Suc l) = 0x1ff"
    by (auto simp: rv64_meta_def rv64_level_shift_def index_mask_def)
  then show ?thesis by (simp add: index_at_def)
qed

lemma rv64_leaf_walks:
  assumes "rv64_flags_ok f"
  shows "\<not> rv64_faults s (rv64_new_leaf s p f sz)"
    "bit (rv64_new_leaf s p f sz) 1 \<or> bit (rv64_new_leaf s p f sz) 3"
    "bit (rv64_new_leaf s p f sz) 6" "bit (rv64_new_leaf s p f sz) 2 \<Longrightarrow> bit (rv64_new_leaf s p f sz) 7"
  using assms
  by (auto simp: rv64_faults_def bit_rv64_new_leaf bit_rv64_to_leaf_bits rv_leaf_access_def bit_pbmt_bits
      rv64_flags_ok_bits)

lemma rv64_table_walks:
  "\<not> rv64_faults s (rv64_new_table g l)" "\<not> rv64_pointer_faults (rv64_new_table g l)"
  "\<not> bit (rv64_new_table g l) 1" "\<not> bit (rv64_new_table g l) 3" "\<not> bit (rv64_new_table g l) 5"
  by (auto simp: rv64_faults_def rv64_pointer_faults_def bit_rv64_new_table)

text \<open>What the mapping that \<^verbatim>\<open>query\<close> returns promises of an access.\<close>

fun rv64_memory_type :: "cache_policy \<Rightarrow> u64" where
  "rv64_memory_type Writeback = 0"
| "rv64_memory_type WriteThrough = 0"
| "rv64_memory_type WriteCombine = 1"
| "rv64_memory_type Uncached = 2"

definition rv64_page_of :: "rv64_flags mapping \<Rightarrow> vaddr \<Rightarrow> rv64_page" where
  "rv64_page_of mp v =
     (let a = rv_access (m_flags mp) in
      \<lparr>hr_pa = mapping_pa mp v, hr_read = af_contains a AF_READ, hr_write = af_contains a AF_WRITE,
       hr_exec = af_contains a AF_EXECUTE, hr_user = af_contains a AF_USER, hr_global = af_contains a AF_GLOBAL,
       hr_pbmt = rv64_memory_type (rv64_cache (m_flags mp))\<rparr>)"

lemma rv64_pbmt_field: "take_bit 2 (drop_bit 61 e) = of_bool (bit e 61) + 2 * of_bool (bit (e :: u64) 62)"
proof -
  have "take_bit 2 (drop_bit 61 e) = drop_bit 61 (e AND RV64_PBMT_MASK)"
    by (rule bit_word_eqI) (auto simp: bit_take_bit_iff bit_drop_bit_eq bit_and_iff bit_RV64_PBMT_MASK)
  then show ?thesis by (simp only: rv_pbmt_field)
qed

lemma rv64_leaf_page_of:
  assumes "rv64_level_supports_leaf n l sz" "is_aligned sz p" "default_paddr_is_valid 56 p" "rv64_flags_ok f"
    and "e = rv64_new_leaf s p f sz" "m_flags mp = rv64_flags_from_bits s e"
    and "mapping_pa mp v = p + (v AND mask (size_shift sz))"
  shows "rv64_leaf_page l e v False = Some (rv64_page_of mp v)"
proof -
  have k: "3 + 9 * l = size_shift sz" using rv64_supports_shift [OF assms(1)] by simp
  have fr: "rv64_frame e = p"
    unfolding rv64_frame_paddr assms(5) by (rule rv64_new_leaf_paddr [OF aligned_4k [OF assms(2)] assms(3)])
  have al: "p AND mask (size_shift sz) = 0" using assms(2) by (simp add: is_aligned_mask)
  have "p OR (v AND mask (size_shift sz)) = p + (v AND mask (size_shift sz))"
    using al by (intro disjunctive_add [symmetric]) (auto simp: aligned_iff_bits bit_and_iff bit_mask_word)
  note w = rv64_leaf_walks [OF assms(4), of s p sz, folded assms(5)]
  have ty: "take_bit 2 (drop_bit 61 e) = rv64_memory_type (rv64_cache (m_flags mp))"
    using w(1) unfolding rv64_pbmt_field rv64_faults_def
    by (cases s; cases "bit e 61"; cases "bit e 62")
      (simp_all add: assms(6) rv64_cache_def rv64_flags_from_bits_def ma_defs cache_from_bits_cases)
  show ?thesis
    unfolding rv64_leaf_page_def rv64_page_of_def Let_def k fr ty assms(7)
    using w al \<open>p OR _ = _\<close> by (auto simp: af_contains_consts assms(6) bit_rv64_decoded_access numeral_eq_Suc)
qed

lemma rv64_walk_formed:
  assumes W: "walker E rv64_flags_ok (rv64_normal_flags s) live" and P: "e_pte E = Rv64PteFor s"
    and M: "e_meta E = rv64_meta n va" and lin: "linear_window E"
  shows "\<lbrakk>forms_ok E rv64_flags_ok live S w; S cur = Some l\<rbrakk> \<Longrightarrow>
    rv64_walk (phys_read E (mem w)) s l cur v False =
      (case view E (mem w) l cur v of Ok (t, e) \<Rightarrow> rv64_leaf_page t e v False | _ \<Rightarrow> None)"
proof (induction l arbitrary: cur)
  case 0
  then show ?case by (simp add: view_0)
next
  case (Suc l)
  let ?i = "index_at (e_meta E) (Suc l) v"
  let ?e = "read_entry E (mem w) cur ?i"
  note ge = walker.good_entry(2-5) [OF W Suc.prems]
  have rd: "phys_read E (mem w) (cur + (drop_bit (12 + 9 * l) v AND 0x1ff) * 8) = ?e"
    using phys_read_entry [OF lin ge(2) ge(1)] rv64_index by (simp add: M)
  show ?case
  proof (rule walker.formed_cases [OF W Suc.prems(1) forms_okD(3) [OF Suc.prems ge(1)] ge(3,4)])
    assume a: "\<not> is_present (e_pte E) ?e"
    then have "rv64_faults s ?e" by (simp add: P Rv64PteFor_def rv64_is_present_bit rv64_faults_def)
    then show ?thesis using a by (simp add: rd view_Suc entry_view_def)
  next
    fix p f sz
    assume l: "rv64_flags_ok f" "?e = new_leaf (e_pte E) p f sz" "is_present (e_pte E) ?e"
      "entry_kind (e_pte E) ?e (Suc l) = Leaf"
    have e: "?e = rv64_new_leaf s p f sz" using l(2) by (simp add: P Rv64PteFor_def)
    show ?thesis
      using rv64_leaf_walks(1,2) [OF l(1), of s p sz] l(3,4)
      by (simp add: rd view_Suc entry_view_def entry_is_leaf_def Let_def e)
  next
    fix g
    assume t: "1 < Suc l" "S g = Some (Suc l - 1)" "?e = new_table (e_pte E) g (Suc l)"
      "is_present (e_pte E) ?e" "entry_kind (e_pte E) ?e (Suc l) = Table" "pte_paddr (e_pte E) ?e = g"
    have e: "?e = rv64_new_table g (Suc l)" "rv64_frame ?e = g"
      using t(3,6) by (simp_all add: P Rv64PteFor_def rv64_frame_paddr)
    show ?thesis
      using t(2,4-6) Suc.IH [OF Suc.prems(1), of g] rv64_table_walks [where g = g and l = "Suc l", folded e(1)] e(2)
      by (simp add: rd view_Suc entry_view_def entry_is_leaf_def Let_def)
  qed
qed

lemma rv64_hardware:
  assumes W: "walker E rv64_flags_ok (rv64_normal_flags s) live" and P: "e_pte E = Rv64PteFor s"
    and M: "e_meta E \<in> {Rv64Meta39, Rv64Meta48, Rv64Meta57}" and lin: "linear_window E"
    and st: "settled E rv64_flags_ok live root w"
  shows "rv64_translate (phys_read E (mem w)) s (LEVELS (e_meta E)) (drop_bit 12 root) v =
    (case query E root v (mem w) of Ok mp \<Rightarrow> Some (rv64_page_of mp v) | _ \<Rightarrow> None)"
proof -
  obtain n where M: "e_meta E = rv64_meta n (12 + 9 * n)" "3 \<le> n" "n \<le> 5"
    using M that [of 3] that [of 4] that [of 5] by (auto simp: Rv64Meta39_def Rv64Meta48_def Rv64Meta57_def)
  then have can: "vaddr_is_valid (e_meta E) v \<longleftrightarrow> canonical (12 + 9 * LEVELS (e_meta E)) v"
    by (simp add: rv64_meta_def rv64_canonical)
  obtain S where S: "forms_ok E rv64_flags_ok live S w" "S root = Some (LEVELS (e_meta E))"
    using st by (auto simp: settled_def well_formed_def)
  have "frame_ok (e_meta E) root" using forms_okD(2) [OF S] by simp
  then have "root AND mask 12 = 0" using aligned_4k [of Size4K root] by (simp add: M frame_ok_def rv64_meta_def)
  then have r: "push_bit 12 (drop_bit 12 root) = root" by (simp add: aligned_push_drop)
  note walk = rv64_walk_formed [OF W P M(1) lin S]
  show ?thesis
  proof (cases "vaddr_is_valid (e_meta E) v")
    case False
    then show ?thesis using can by (simp add: rv64_translate_def query_view check_vaddr_def)
  next
    case val: True
    from walker.settled_query [OF W st val] show ?thesis
    proof (elim disjE exE conjE)
      assume "root_view E w root v = Err NotMapped" "query E root v (mem w) = Err NotMapped"
      then show ?thesis using walk can val r by (simp add: rv64_translate_def)
    next
      fix t e mp p f sz
      assume q: "root_view E w root v = Ok (t, e)" "query E root v (mem w) = Ok mp"
        "level_supports_leaf (e_meta E) t sz" "is_aligned sz p" "paddr_is_valid (e_meta E) p" "rv64_flags_ok f"
        "e = new_leaf (e_pte E) p f sz" "m_flags mp = pte_flags (e_pte E) e"
        "mapping_pa mp v = p + (v AND mask (size_shift sz))"
      have "rv64_leaf_page t e v False = Some (rv64_page_of mp v)"
        by (rule rv64_leaf_page_of [OF _ q(4) _ q(6) _ _ q(9)])
          (use q(3,5,7,8) in \<open>simp_all add: M P rv64_meta_def Rv64PteFor_def PADDR_MAX_BITS_def\<close>)
      then show ?thesis using walk can val r q(1,2) by (simp add: rv64_translate_def)
    qed
  qed
qed

end
