(* ===== verification/X86Example.thy ===== *)
theory X86Example
  imports Lifecycle Progress X86Walker ReclaimSpec
begin

text \<open>
  A concrete run on 4-level x86_64 paging over the reference host: a fresh walker, and the
  same walker after one page was mapped. The applications of the general theorems to
  concrete inputs start from these worlds.
\<close>

section \<open>The contract on the concrete format\<close>

text \<open>The walker on 4-level x86_64 paging over the reference host.\<close>

definition x86_ref :: "(x86_flags, ref_heap, unit) env" where
  "x86_ref = ref_env X86Meta48 X86Pte NoFlush"

interpretation x86_ref: walker x86_ref "\<lambda>_. True" x86_normal_flags "ref_live X86Meta48"
  unfolding x86_ref_def by (rule x86_48.ref_walker) (rule x86_codec, simp)

section \<open>Evaluating the model on ground terms\<close>

lemma x86_ref_fields:
  "e_meta x86_ref = X86Meta48" "e_pte x86_ref = X86Pte" "e_alloc x86_ref = ref_alloc X86Meta48"
  "e_addr x86_ref = ref_addr_lib" "e_tlb x86_ref = NoFlush"
  by (simp_all add: x86_ref_def ref_env_def)

lemma x86_meta_fields:
  "LEVELS X86Meta48 = Suc (Suc (Suc (Suc 0)))" "TABLE_FRAME_SIZE X86Meta48 = Size4K"
  "ENTRIES_PER_TABLE X86Meta48 = 512" "level_shift X86Meta48 = x86_level_shift"
  "level_index_bits X86Meta48 = (\<lambda>_. 9)" "paddr_is_valid X86Meta48 = default_paddr_is_valid 52"
  "vaddr_is_valid X86Meta48 = (\<lambda>v. x86_canonical_vaddr_is_valid v 48)"
  "BASE_PAGE_SIZE X86Meta48 = Size4K"
  by (simp_all add: X86Meta48_def)

lemma x86_pte_fields:
  "new_leaf X86Pte = x86_new_leaf" "new_table X86Pte = x86_new_table"
  "pte_paddr X86Pte = x86_pte_paddr" "is_present X86Pte = x86_is_present"
  "entry_kind X86Pte = x86_entry_kind" "pte_flags X86Pte = x86_flags_from_bits"
  by (simp_all add: X86Pte_def)

lemma x86_absent_0: "x86_is_present 0 = False"
  by (simp add: x86_is_present_def)

lemmas x86_eval = x86_ref_fields x86_meta_fields x86_pte_fields x86_absent_0
  alloc_table_frame_def ref_alloc_def ref_addr_lib_def default_paddr_is_valid_def
  is_aligned_def ref_world_def MAX_LEVELS_def assert_walker_layout_def
  store_def read_entry_def write_entry_def index_at_def index_mask_def entry_cell_def

section \<open>A fresh walker\<close>

definition ex_root :: paddr where "ex_root = 0x1000"

definition ex_new :: "(ref_heap, unit) world" where
  "ex_new = snd (try_new x86_ref (ref_world ex_root))"

lemma ex_try_new: "try_new x86_ref (ref_world ex_root) = (Ok ex_root, ex_new)"
proof -
  have "fst (try_new x86_ref (ref_world ex_root)) = Ok ex_root"
    by (simp add: x86_eval try_new_def ex_root_def)
  then show ?thesis by (simp add: ex_new_def prod_eq_iff)
qed

lemma ex_new_ok: "tree_ok x86_ref (ref_live X86Meta48) ex_root ex_new"
  and ex_new_empty: "root_view x86_ref ex_new ex_root v = Err NotMapped"
  using x86_ref.try_new_spec(3) [OF ex_try_new refl] by simp_all

section \<open>One page mapped\<close>

definition ex_page :: addr_range where "ex_page = \<lparr>rng_start = 0x200000, rng_end = 0x201000\<rparr>"

definition ex_flags :: x86_flags where "ex_flags = x86_flags_new AF_WRITE"

definition ex_mapped :: "(ref_heap, unit) world" where
  "ex_mapped = snd (map_leaf_direct_sized_no_flush x86_ref ex_root ex_page 0x5000 ex_flags Size4K 1 ex_new)"

lemma ex_map: "map_leaf_direct_sized_no_flush x86_ref ex_root ex_page 0x5000 ex_flags Size4K 1 ex_new =
  (Ok (), ex_mapped)"
proof -
  have "fst (map_leaf_direct_sized_no_flush x86_ref ex_root ex_page 0x5000 ex_flags Size4K 1 ex_new) = Ok ()"
    by (simp add: x86_eval try_new_def ex_root_def ex_new_def ex_page_def
        map_leaf_direct_sized_no_flush_def install_leaf_def)
  then show ?thesis by (simp add: ex_mapped_def prod_eq_iff)
qed

lemma ex_size_level: "size_to_level (e_meta x86_ref) Size4K = Some 1"
  by (simp add: x86_ref_fields X86Meta48_def default_size_to_level_Some x86_level_supports_leaf_def)

lemma ex_page_facts:
  "range_ok ex_page" "range_size (e_addr x86_ref) ex_page = bytes Size4K"
  "is_aligned Size4K (rng_start ex_page)" "vaddr_is_valid (e_meta x86_ref) (rng_start ex_page)"
  "is_aligned Size4K 0x5000" "paddr_is_valid (e_meta x86_ref) 0x5000"
  by (simp_all add: range_ok_def ex_page_def x86_ref_fields x86_meta_fields ref_addr_lib_def
      is_aligned_def x86_canonical_vaddr_is_valid_def default_paddr_is_valid_def)

lemma ex_mapped_facts:
  "tree_ok x86_ref (ref_live X86Meta48) ex_root ex_mapped"
  "query x86_ref ex_root v (mem ex_mapped) =
     (if in_range ex_page v then Ok (mapping_new ex_page 0x5000 (x86_normal_flags ex_flags))
      else query x86_ref ex_root v (mem ex_new))"
  using x86_ref.map_leaf_direct_query [OF ex_new_ok ex_size_level ex_page_facts(5,6) TrueI
      ex_page_facts(1-4) ex_map] by simp_all

lemma ex_exact: "exact_mapped x86_ref ex_root ex_page ex_mapped"
  by (simp add: exact_mapped_def ex_mapped_facts in_range_def ex_page_def mapping_new_def)

text \<open>The same page mapped through the public operation.\<close>

definition ex_backing :: map_backing where
  "ex_backing = ContiguousBacking \<lparr>rng_start = 0x5000, rng_end = 0x6000\<rparr>"

lemma ex_backing_facts:
  "into_map_backing (e_addr x86_ref) (FromPhysAddr 0x5000) (range_size (e_addr x86_ref) ex_page) = Ok ex_backing"
  "backing_ok ex_backing"
  by (simp_all add: ex_page_facts ex_backing_def x86_ref_fields ref_addr_lib_def contiguous_from_start_size_def
      checked_add_def range_ok_def ex_page_def)

lemma ex_exact_size:
  "exact_leaf_size (e_addr x86_ref) (e_meta x86_ref) ex_page 0x5000 None = Ok (Some (Size4K, 1))"
proof -
  have "addr_checked_sub (e_addr x86_ref) (rng_end ex_page) 1 = Some 0x200fff"
    "vaddr_is_valid (e_meta x86_ref) 0x200fff"
    by (simp_all add: ex_page_def x86_ref_fields x86_meta_fields ref_addr_lib_def x86_canonical_vaddr_is_valid_def)
  then show ?thesis
    using ex_page_facts ex_size_level from_bytes_bytes [of Size4K]
    by (simp add: exact_leaf_size_def check_vaddr_def check_paddr_def)
qed

lemma ex_walker_map:
  "walker_map x86_ref ex_root ex_page (FromPhysAddr 0x5000) (mapping_flags_new ex_flags) ex_new =
     (Ok (), flush_leaf_range x86_ref ex_page ex_mapped)"
proof -
  have "range_is_empty (e_addr x86_ref) \<lparr>rng_start = 0x5000, rng_end = 0x6000\<rparr> = False"
    "range_size (e_addr x86_ref) ex_page = range_size (e_addr x86_ref) \<lparr>rng_start = 0x5000, rng_end = 0x6000\<rparr>"
    by (simp_all add: x86_ref_fields ref_addr_lib_def ex_page_def)
  then show ?thesis
    using ex_exact_size ex_map ex_backing_facts(1)
    by (simp add: walker_map_def mapping_flags_new_def ex_backing_def)
qed

end
