(* ===== verification/Rv64Example.thy ===== *)
theory Rv64Example
  imports Lifecycle ReclaimSpec Rv64Walker
begin

text \<open>
  A concrete batch on Sv39 paging over the reference host, with the \<^verbatim>\<open>sfence.vma\<close> back end: the
  starting point for applications of the theorems about invalidation.
\<close>

definition rv_ref :: "(rv64_flags, ref_heap, unit rv_op) env" where
  "rv_ref = ref_env Rv64Meta39 Rv64Pte Rv64Tlb"

interpretation rv_ref: walker rv_ref rv64_flags_ok "rv64_normal_flags False" "ref_live Rv64Meta39"
  unfolding rv_ref_def by (rule rv64_39.ref_walker) (rule rv64_codec_39.pte_codec_axioms)

lemma rv_ref_fields:
  "e_meta rv_ref = Rv64Meta39" "e_pte rv_ref = Rv64Pte" "e_alloc rv_ref = ref_alloc Rv64Meta39"
  "e_addr rv_ref = ref_addr_lib" "e_tlb rv_ref = Rv64Tlb"
  by (simp_all add: rv_ref_def ref_env_def)

definition rv_root :: paddr where "rv_root = 0x1000"

definition rv_new :: "(ref_heap, unit rv_op) world" where
  "rv_new = snd (try_new rv_ref (ref_world rv_root))"

lemma rv_try_new: "try_new rv_ref (ref_world rv_root) = (Ok rv_root, rv_new)"
proof -
  have "fst (try_new rv_ref (ref_world rv_root)) = Ok rv_root"
    by (simp add: rv_ref_fields Rv64Meta39_def rv64_meta_def try_new_def rv_root_def
        alloc_table_frame_def ref_alloc_def ref_addr_lib_def default_paddr_is_valid_def
        is_aligned_def ref_world_def MAX_LEVELS_def assert_walker_layout_def PADDR_MAX_BITS_def)
  then show ?thesis by (simp add: rv_new_def prod_eq_iff)
qed

lemma rv_new_ok: "tree_ok rv_ref (ref_live Rv64Meta39) rv_root rv_new"
  using rv_ref.try_new_spec(3) [OF rv_try_new refl] by simp

lemma rv_new_no_invalid: "no_invalid rv_ref rv_root rv_new"
  by (rule rv_ref.try_new_no_invalid [OF rv_try_new])

lemma rv_dealloc_total: "dealloc_total rv_ref (ref_live Rv64Meta39)"
  by (simp add: dealloc_total_def rv_ref_fields ref_alloc_def)

lemma rv_tlb_ok: "tlb_contract (e_tlb rv_ref) (BASE_PAGE_SIZE (e_meta rv_ref)) ref_sfence (\<lambda>_. True)"
  using rv64_tlb.tlb_contract_axioms by (simp add: rv_ref_fields Rv64Meta39_def rv64_meta_def)

text \<open>Three pages, backed by two separate pieces of memory, to be mapped readable.\<close>

definition rv_range :: addr_range where
  "rv_range = \<lparr>rng_start = 0x400000, rng_end = 0x403000\<rparr>"

definition rv_backing :: map_backing where
  "rv_backing = ScatteredBacking
     [\<lparr>rng_start = 0x80001000, rng_end = 0x80003000\<rparr>, \<lparr>rng_start = 0x90000000, rng_end = 0x90001000\<rparr>]"

definition rv_flags :: "rv64_flags mapping_flags" where
  "rv_flags = mapping_flags_scattered (rv64_flags_new AF_READ) Size4K"

definition rv_request :: "rv64_flags cursor_op" where
  "rv_request = MapOp rv_range (FromBacking rv_backing) rv_flags"

lemma rv_range_ok: "range_ok rv_range" "backing_ok rv_backing"
  by (simp_all add: rv_range_def rv_backing_def range_ok_def)

lemma rv_flags_ok: "rv64_flags_ok (mf_leaf rv_flags)"
  unfolding rv_flags_def mapping_flags_scattered_def mapping_flags.select_convs rv64_flags_ok_bits
    rv64_flags_new_def rv64_flags.select_convs af_union_def access_flags.sel bit_or_iff bit_af_consts by simp

lemma rv_request_ok: "op_ok rv_ref rv64_flags_ok rv_request"
  using rv_flags_ok rv_range_ok by (simp add: rv_request_def)

end
