(* ===== verification/RefSupply.thy ===== *)
theory RefSupply
  imports X86Example Rv64Example PageTableApi
begin

text \<open>
  The reference host has a supply of frames: a bump allocator below \<open>2 ^ 40\<close> hands out a frame for
  every unit of room it has left. With it the theorems that need a supply and a total deallocator
  apply to the concrete walkers; a two-megabyte mapping is the starting point for splits and merges.
\<close>

section \<open>Room\<close>

definition ref_room :: "meta_impl \<Rightarrow> ref_heap \<Rightarrow> nat" where
  "ref_room M s =
     (if is_aligned (TABLE_FRAME_SIZE M) (next_frame s) \<and> (\<forall>f\<in>set (owned s). f < next_frame s)
      then (2 ^ 40 - unat (next_frame s)) div unat (bytes (TABLE_FRAME_SIZE M)) else 0)"

lemma ref_room_eq:
  assumes "is_aligned (TABLE_FRAME_SIZE M) (next_frame s)" "\<And>f. f \<in> set (owned s) \<Longrightarrow> f < next_frame s"
  shows "ref_room M s = (2 ^ 40 - unat (next_frame s)) div unat (bytes (TABLE_FRAME_SIZE M))"
  using assms by (simp add: ref_room_def)

lemma room_step:
  assumes "0 < b" "c + b \<le> (n :: nat)"
  shows "(n - c) div b = Suc ((n - (c + b)) div b)"
proof -
  have "n - c = (n - (c + b)) + b" using assms by linarith
  then show ?thesis using assms(1) by (metis add.commute div_add_self2 not_less_zero plus_1_eq_Suc)
qed

lemma ref_supply:
  assumes "\<And>p. unat p < 2 ^ 40 \<Longrightarrow> paddr_is_valid M p"
  shows "frame_supply (ref_env M P T) (ref_room M)"
  unfolding frame_supply_def
proof (intro allI impI)
  fix s :: ref_heap and m
  let ?k = "TABLE_FRAME_SIZE M" and ?c = "next_frame s"
  let ?b = "unat (bytes ?k)"
  assume "0 < ref_room M s"
  then have al: "is_aligned ?k ?c" and below: "\<forall>f\<in>set (owned s). f < ?c"
    and room: "ref_room M s = (2 ^ 40 - unat ?c) div ?b" "?b \<le> 2 ^ 40 - unat ?c"
    by (auto simp: ref_room_def div_greater_zero_iff split: if_splits)
  have b: "0 < ?b" by (simp add: unat_bytes)
  then have c: "unat ?c < 2 ^ 40" "unat ?c + ?b \<le> 2 ^ 40" using room(2) by linarith+
  then have valid: "paddr_is_valid M ?c" by (intro assms)
  have sum: "unat (?c + bytes ?k) = unat ?c + ?b"
    using c(2) by (intro unat_plus_simple [THEN iffD1]) (simp add: no_olen_add_nat)
  let ?s' = "\<lparr>next_frame = ?c + bytes ?k, owned = ?c # owned s\<rparr>"
  have "is_aligned ?k (?c + bytes ?k)"
    using al by (simp add: is_aligned_dvd sum unat_bytes)
  moreover have "f < ?c + bytes ?k" if "f \<in> set (owned ?s')" for f
    using that below b by (auto simp: word_less_nat_alt sum)
  ultimately have room': "ref_room M ?s' = (2 ^ 40 - (unat ?c + ?b)) div ?b"
    using ref_room_eq [of M ?s'] by (simp only: ref_heap.select_convs sum)
  have "ref_room M s = Suc (ref_room M ?s')"
    unfolding room(1) room' by (rule room_step [OF b c(2)])
  moreover have "?c \<notin> set (owned s)" using below by auto
  moreover have "range_size (ref_addr_lib) \<lparr>rng_start = ?c, rng_end = ?c + bytes ?k\<rparr> = bytes ?k"
    by (simp add: ref_addr_lib_def)
  ultimately show "\<exists>r s' m'.
      allocate (e_alloc (ref_env M P T)) (bytes (TABLE_FRAME_SIZE (e_meta (ref_env M P T))))
        (TABLE_FRAME_SIZE (e_meta (ref_env M P T))) (s, m) = (Ok r, s', m') \<and>
      range_size (e_addr (ref_env M P T)) r = bytes (TABLE_FRAME_SIZE (e_meta (ref_env M P T))) \<and>
      is_aligned (TABLE_FRAME_SIZE (e_meta (ref_env M P T))) (rng_start r) \<and>
      ref_room M s \<le> Suc (ref_room M s')"
    using al valid by (simp add: ref_env_def ref_alloc_def Let_def)
qed

lemma ref_dealloc_total: "dealloc_total (ref_env M P T) live"
  by (simp add: dealloc_total_def ref_env_def ref_alloc_def)

section \<open>x86_64\<close>

lemma ex_supply: "frame_supply x86_ref (ref_room X86Meta48)"
  unfolding x86_ref_def
  by (rule ref_supply) (simp add: x86_meta_fields default_paddr_is_valid_def word_less_nat_alt)

lemma ex_total: "dealloc_total x86_ref (ref_live X86Meta48)"
  unfolding x86_ref_def by (rule ref_dealloc_total)

lemma ex_new_accounts: "accounts (ref_live X86Meta48) {} x86_ref ex_root ex_new"
  using x86_ref.try_new_accounts [OF ex_try_new] by (simp add: ref_live_def ref_world_def)

lemma ex_new_room: "4 \<le> ref_room X86Meta48 (astate ex_new)"
proof -
  have "astate ex_new = \<lparr>next_frame = 0x2000, owned = [0x1000]\<rparr>"
    by (simp add: x86_eval try_new_def ex_root_def ex_new_def)
  then show ?thesis by (simp add: ref_room_def x86_meta_fields is_aligned_def)
qed

lemmas ex_new_free = x86_ref.try_new_slot_free [OF ex_try_new]

section \<open>A huge page\<close>

definition ex_huge_range :: addr_range where
  "ex_huge_range = \<lparr>rng_start = 0x40000000, rng_end = 0x40200000\<rparr>"

definition ex_huge :: "(ref_heap, unit) world" where
  "ex_huge = snd (walker_map x86_ref ex_root ex_huge_range (FromPhysAddr 0x80000000) (mapping_flags_new ex_flags) ex_new)"

lemma ex_huge_check:
  "check_leaf_range (e_addr x86_ref) (e_meta x86_ref) ex_huge_range = Ok Size2M"
  "size_to_level (e_meta x86_ref) Size2M = Some 2"
  "is_aligned Size2M 0x80000000" "paddr_is_valid (e_meta x86_ref) 0x80000000"
proof -
  have "addr_checked_sub (e_addr x86_ref) (rng_end ex_huge_range) 1 = Some 0x401fffff"
    "vaddr_is_valid (e_meta x86_ref) 0x401fffff" "vaddr_is_valid (e_meta x86_ref) 0x40000000"
    by (simp_all add: ex_huge_range_def x86_ref_fields x86_meta_fields ref_addr_lib_def x86_canonical_vaddr_is_valid_def)
  then show "check_leaf_range (e_addr x86_ref) (e_meta x86_ref) ex_huge_range = Ok Size2M"
    using from_bytes_bytes [of Size2M]
    by (simp add: check_leaf_range_def check_vaddr_def ex_huge_range_def x86_ref_fields ref_addr_lib_def is_aligned_def)
qed (simp_all add: x86_ref_fields X86Meta48_def default_size_to_level_Some x86_level_supports_leaf_def
    is_aligned_def default_paddr_is_valid_def)

lemma ex_huge_room: "LEVELS (e_meta x86_ref) - 2 \<le> ref_room X86Meta48 (astate ex_new)"
  using ex_new_room by (simp add: x86_ref_fields x86_meta_fields)

lemma ex_huge_facts:
  "walker_map x86_ref ex_root ex_huge_range (FromPhysAddr 0x80000000) (mapping_flags_new ex_flags) ex_new =
     (Ok (), ex_huge)"
  "tree_ok x86_ref (ref_live X86Meta48) ex_root ex_huge"
  "query x86_ref ex_root v (mem ex_huge) =
     (if in_range ex_huge_range v then Ok (mapping_new ex_huge_range 0x80000000 (x86_normal_flags ex_flags))
      else query x86_ref ex_root v (mem ex_new))"
  "0 < ref_room X86Meta48 (astate ex_huge)"
proof -
  from x86_ref.walker_map_leaf [OF ex_new_ok ex_new_accounts ex_supply ex_huge_room ex_new_free ex_huge_check(2-4) TrueI
      ex_huge_check(1)] obtain w' where
    m: "walker_map x86_ref ex_root ex_huge_range (FromPhysAddr 0x80000000) (mapping_flags_new ex_flags) ex_new =
      (Ok (), w')"
    and f: "tree_ok x86_ref (ref_live X86Meta48) ex_root w'"
      "\<forall>v. query x86_ref ex_root v (mem w') =
        (if in_range ex_huge_range v then Ok (mapping_new ex_huge_range 0x80000000 (x86_normal_flags ex_flags))
         else query x86_ref ex_root v (mem ex_new))"
      "ref_room X86Meta48 (astate ex_new) \<le> ref_room X86Meta48 (astate w') + (LEVELS (e_meta x86_ref) - 2)"
    by blast
  have w: "w' = ex_huge" using m by (simp add: ex_huge_def)
  show "walker_map x86_ref ex_root ex_huge_range (FromPhysAddr 0x80000000) (mapping_flags_new ex_flags) ex_new =
     (Ok (), ex_huge)" using m w by simp
  show "tree_ok x86_ref (ref_live X86Meta48) ex_root ex_huge" using f(1) w by simp
  show "query x86_ref ex_root v (mem ex_huge) =
     (if in_range ex_huge_range v then Ok (mapping_new ex_huge_range 0x80000000 (x86_normal_flags ex_flags))
      else query x86_ref ex_root v (mem ex_new))" using f(2) w by simp
  show "0 < ref_room X86Meta48 (astate ex_huge)"
    using f(3) ex_new_room w by (simp add: x86_ref_fields x86_meta_fields)
qed

lemma ex_huge_exact:
  "exact_query x86_ref ex_root ex_huge_range (mem ex_huge) =
     Ok (mapping_new ex_huge_range 0x80000000 (x86_normal_flags ex_flags))"
  unfolding exact_query_Ok ex_huge_facts(3) by (simp add: ex_huge_range_def in_range_def mapping_new_def)

definition ex_split :: "(ref_heap, unit) world" where
  "ex_split = snd (split_at x86_ref ex_root ex_huge_range ex_huge)"

lemma ex_page_level: "leaf_size_at_level (e_meta x86_ref) 1 = Some Size4K"
  by (simp add: x86_ref_fields X86Meta48_def default_leaf_size_at_level_def x86_level_shift_def)

lemma ex_finer_size: "finer_size x86_ref ex_huge_range = Ok Size4K"
proof -
  have "range_size (e_addr x86_ref) ex_huge_range = bytes Size2M"
    by (simp add: ex_huge_range_def x86_ref_fields ref_addr_lib_def)
  then show ?thesis
    using ex_page_level ex_huge_check(2) from_bytes_bytes [of Size2M] by (simp add: finer_size_def numeral_2_eq_2)
qed

lemma ex_split_run: "split_at x86_ref ex_root ex_huge_range ex_huge = (Ok Size4K, ex_split)"
proof -
  obtain g w1 where a: "alloc_table_frame x86_ref ex_huge = (Ok g, w1)"
    using supply_alloc [OF ex_supply ex_huge_facts(4)] by blast
  have "fst (split_at x86_ref ex_root ex_huge_range ex_huge) = Ok Size4K"
    using x86_ref.split_outcome [OF ex_huge_facts(2), of ex_huge_range]
    unfolding ex_huge_exact by (simp add: ex_finer_size a)
  then show ?thesis by (simp add: ex_split_def prod_eq_iff)
qed

lemma ex_split_facts:
  "tree_ok x86_ref (ref_live X86Meta48) ex_root ex_split"
  "finer_mapped x86_ref ex_root ex_huge_range Size4K ex_split"
  "linear_range x86_ref ex_root ex_huge_range 0x80000000 (x86_normal_flags ex_flags) ex_split"
proof -
  note sp = x86_ref.split_at_spec [OF ex_huge_facts(2) ex_split_run]
  show "tree_ok x86_ref (ref_live X86Meta48) ex_root ex_split" using sp by blast
  have "mapping_size (e_addr x86_ref) mp = Some Size4K"
    if "rng_start (m_range mp) = v AND NOT (mask (size_shift Size4K))"
      "rng_end (m_range mp) = rng_start (m_range mp) + bytes Size4K" for mp :: "x86_flags mapping" and v
    using that from_bytes_bytes [of Size4K]
    by (simp add: mapping_size_def x86_ref_fields ref_addr_lib_def)
  then show "finer_mapped x86_ref ex_root ex_huge_range Size4K ex_split"
    using sp unfolding finer_mapped_def by blast
  show "linear_range x86_ref ex_root ex_huge_range 0x80000000 (x86_normal_flags ex_flags) ex_split"
    using sp by (simp add: linear_range_def resolve_def ex_huge_facts(3) mapping_new_def)
qed

section \<open>The page-table trait\<close>

interpretation ex_table: reliable_walker x86_ref "\<lambda>_. True" x86_normal_flags "ref_live X86Meta48"
  by unfold_locales (rule ex_total)

interpretation rv_table: reliable_walker rv_ref rv64_flags_ok "rv64_normal_flags False" "ref_live Rv64Meta39"
  by unfold_locales (rule rv_dealloc_total)

text \<open>A program that maps a page and moves it.\<close>

definition ex_program :: "x86_flags table_op list" where
  "ex_program = [TMap ex_page (FromPhysAddr 0x5000) (mapping_flags_new ex_flags), TRemap ex_page 0x9000 ex_flags]"

lemma ex_program_legal: "\<forall>op\<in>set ex_program. op_legal (e_addr x86_ref) (\<lambda>_. True) op"
  using ex_page_facts(1,2) ex_backing_facts by (simp add: ex_program_def)

lemma ex_program_run:
  obtains w' where "table_run (walker_page_table x86_ref) ex_program (ex_root, ex_new) = ([Ok (), Ok ()], (ex_root, w'))"
proof -
  let ?w = "flush_leaf_range x86_ref ex_page ex_mapped"
  have "exact_query x86_ref ex_root ex_page (mem ?w) = Ok (mapping_new ex_page 0x5000 (x86_normal_flags ex_flags))"
    unfolding exact_query_Ok flush_leaf_range_state ex_mapped_facts(2)
    by (simp add: in_range_def ex_page_def mapping_new_def)
  moreover have "check_paddr (e_meta x86_ref) 0x9000 = Ok ()"
    by (simp add: check_paddr_def x86_ref_fields x86_meta_fields default_paddr_is_valid_def)
  ultimately have "fst (remap_no_flush x86_ref ex_root ex_page 0x9000 ex_flags ?w) = Ok (mapping_new ex_page 0x9000 ex_flags)"
    using ex_page_facts(2) by (simp add: x86_ref.remap_outcome)
  then obtain w1 where "remap_no_flush x86_ref ex_root ex_page 0x9000 ex_flags ?w =
      (Ok (mapping_new ex_page 0x9000 ex_flags), w1)" by (metis prod.collapse)
  then have "table_run (walker_page_table x86_ref) ex_program (ex_root, ex_new) =
      ([Ok (), Ok ()], (ex_root, flush_leaf_range x86_ref ex_page w1))"
    using ex_walker_map
    by (simp add: ex_program_def walker_page_table_def remap_def forget_def mapping_new_def)
  then show thesis by (rule that)
qed

end
