(* ===== verification/HwSystem.thy ===== *)
theory HwSystem
  imports Coherence HwX86 HwRv64 RefSupply Rv64Example
begin

text \<open>
  The two hardware walkers on the states of the walker: they agree with \<^verbatim>\<open>query\<close> from the creation of
  the walker on, in the middle of a batch too, and a CPU that caches their results between the
  invalidations of the crate never uses a stale one.
\<close>

section \<open>The CPU as a function of memory\<close>

definition x86_cpu_walk :: "('f, 's, 'h) env \<Rightarrow> paddr \<Rightarrow> memory \<Rightarrow> vaddr \<Rightarrow> x86_page option" where
  "x86_cpu_walk E root m v = x86_translate (phys_read E m) X86_PAT_MSR_VALUE (LEVELS (e_meta E)) root v"

definition rv64_cpu_walk :: "('f, 's, 'h) env \<Rightarrow> bool \<Rightarrow> paddr \<Rightarrow> memory \<Rightarrow> vaddr \<Rightarrow> rv64_page option" where
  "rv64_cpu_walk E svpbmt root m v =
     rv64_translate (phys_read E m) svpbmt (LEVELS (e_meta E)) (drop_bit 12 root) v"

text \<open>What the crate flushes on x86_64 by a reload of CR3 are the translations that are not global.\<close>

definition x86_nonglobal_walk :: "('f, 's, 'h) env \<Rightarrow> paddr \<Rightarrow> memory \<Rightarrow> vaddr \<Rightarrow> x86_page option" where
  "x86_nonglobal_walk E root m v =
     (case x86_cpu_walk E root m v of
        Some pg \<Rightarrow> if hx_global pg then None else Some pg
      | None \<Rightarrow> None)"

section \<open>Both are determined by the translation\<close>

lemma page_of_query:
  assumes "\<And>mp mp'. mapping_pa mp v = mapping_pa mp' v \<Longrightarrow> m_flags mp = m_flags mp' \<Longrightarrow> f mp = f mp'"
    and "resolve E root v m' = resolve E root v m"
  shows "(case query E root v m' of Ok mp \<Rightarrow> Some (f mp) | _ \<Rightarrow> None) =
    (case query E root v m of Ok mp \<Rightarrow> Some (f mp) | _ \<Rightarrow> None)"
proof -
  have r: "resolve E root v n = (case query E root v n of Ok mp \<Rightarrow> Ok (mapping_pa mp v, m_flags mp)
      | Err x \<Rightarrow> Err x | Panic \<Rightarrow> Panic)" for n
    by (simp add: resolve_def mapping_pa_def split: res.split)
  show ?thesis
    using assms(2) unfolding r
    by (cases "query E root v m'"; cases "query E root v m") (auto intro: assms(1))
qed

lemma x86_walk_resolve:
  assumes "walker E (\<lambda>_. True) x86_normal_flags live" "e_pte E = X86Pte"
    and "e_meta E = X86Meta48 \<or> e_meta E = X86Meta57" "linear_window E"
    and "settled E (\<lambda>_. True) live root w" "settled E (\<lambda>_. True) live root w'"
    and "resolve E root v (mem w') = resolve E root v (mem w)"
  shows "x86_cpu_walk E root (mem w') v = x86_cpu_walk E root (mem w) v"
  unfolding x86_cpu_walk_def x86_hardware [OF assms(1-4,5)] x86_hardware [OF assms(1-4,6)]
  by (rule page_of_query [OF _ assms(7)]) (simp add: x86_page_of_def)

lemma rv64_walk_resolve:
  assumes "walker E rv64_flags_ok (rv64_normal_flags s) live" "e_pte E = Rv64PteFor s"
    and "e_meta E \<in> {Rv64Meta39, Rv64Meta48, Rv64Meta57}" "linear_window E"
    and "settled E rv64_flags_ok live root w" "settled E rv64_flags_ok live root w'"
    and "resolve E root v (mem w') = resolve E root v (mem w)"
  shows "rv64_cpu_walk E s root (mem w') v = rv64_cpu_walk E s root (mem w) v"
  unfolding rv64_cpu_walk_def rv64_hardware [OF assms(1-4,5)] rv64_hardware [OF assms(1-4,6)]
  by (rule page_of_query [OF _ assms(7)]) (simp add: rv64_page_of_def)

section \<open>Coherent CPUs\<close>

lemma x86_coherent:
  assumes "frame_host E live" "dealloc_total E live" "e_pte E = X86Pte" "e_meta E = X86Meta48" "linear_window E"
    and "x86_hw_ok p iv" "x86_addrs_ok X" "e_tlb E = X86Tlb X \<or> e_tlb E = X86PcidTlb X p"
  shows "coherent_cpu E (\<lambda>_. True) x86_normal_flags live (iv False) (canonical 48) root (x86_nonglobal_walk E root)"
proof -
  have W: "walker E (\<lambda>_. True) x86_normal_flags live"
    by (rule x86_env_walker [OF assms(1,3)]) (simp add: assms(4))
  show ?thesis
  proof (intro coherent_cpu.intro W coherent_cpu_axioms.intro assms(2), goal_cases)
    case 1
    have "BASE_PAGE_SIZE (e_meta E) = Size4K" by (simp add: assms(4) X86Meta48_def)
    then show ?case using x86_tlb_contract [OF assms(6,7)] assms(8) by auto
  next
    case (2 v)
    then show ?case by (simp add: assms(4) X86Meta48_def x86_canonical_48)
  next
    case (3 w w' v)
    then have "x86_cpu_walk E root (mem w') v = x86_cpu_walk E root (mem w) v"
      by (intro x86_walk_resolve [OF W assms(3) _ assms(5)]) (simp_all add: assms(4))
    then show ?case by (simp add: x86_nonglobal_walk_def)
  qed
qed

lemma rv64_coherent:
  assumes "frame_host E live" "dealloc_total E live" "e_pte E = Rv64PteFor s"
    and "e_meta E \<in> {Rv64Meta39, Rv64Meta48, Rv64Meta57}" "linear_window E"
    and "sfence_ok Size4K iv" "e_tlb E = Rv64Tlb"
  shows "coherent_cpu E rv64_flags_ok (rv64_normal_flags s) live iv (\<lambda>_. True) root (rv64_cpu_walk E s root)"
proof -
  have W: "walker E rv64_flags_ok (rv64_normal_flags s) live" by (rule rv64_env_walker [OF assms(1,3,4)])
  show ?thesis
  proof (intro coherent_cpu.intro W coherent_cpu_axioms.intro assms(2), goal_cases)
    case 1
    have "BASE_PAGE_SIZE (e_meta E) = Size4K"
      using assms(4) by (auto simp: Rv64Meta39_def Rv64Meta48_def Rv64Meta57_def rv64_meta_def)
    then show ?case using rv64_tlb_contract [OF assms(6)] assms(7) by simp
  next
    case (3 w w' v)
    then show ?case by (rule rv64_walk_resolve [OF W assms(3-5)])
  qed simp
qed

text \<open>
  The bits of an AArch64 descriptor belong to an external crate, so the walk of an AArch64 CPU is the
  lookup itself.
\<close>

definition resolved_walk :: "('f, 's, 'h) env \<Rightarrow> paddr \<Rightarrow> memory \<Rightarrow> vaddr \<Rightarrow> (paddr \<times> 'f) option" where
  "resolved_walk E root m v = (case resolve E root v m of Ok x \<Rightarrow> Some x | _ \<Rightarrow> None)"

lemma a64_coherent:
  assumes "family_ok F" "frame_host E live" "dealloc_total E live" "E \<in> a64_page_tables F A A64Tlb L"
    and "tlbi_ok (BASE_PAGE_SIZE (e_meta E)) iv"
  shows "coherent_cpu E (\<lambda>_. True) a64_normal_flags live iv (\<lambda>_. True) root (resolved_walk E root)"
proof (intro coherent_cpu.intro coherent_cpu_axioms.intro assms(3) a64_page_tables_walker [OF assms(1,2,4)], goal_cases)
  case 1
  then show ?case using a64_tlb_contract [OF assms(5)] a64_page_tables_env [OF assms(1,4)] by metis
qed (simp_all add: resolved_walk_def)

lemma a64_tlb_coherent:
  assumes "family_ok F" "frame_host E live" "dealloc_total E live" "E \<in> a64_page_tables F A A64Tlb L"
    and "tlbi_ok (BASE_PAGE_SIZE (e_meta E)) iv"
    and "cpu_run E (\<lambda>_. True) iv (resolved_walk E root) root T None w" "(v, x) \<in> T"
  shows "resolve E root v (mem w) = Ok x"
  using coherent_cpu.tlb_coherent [OF a64_coherent [OF assms(1-5)] assms(6,7)]
  by (simp add: resolved_walk_def split: res.splits)

section \<open>The reference machines\<close>

lemma ref_linear: "linear_window (ref_env M P T)"
  by (simp add: linear_window_def ref_env_def ref_alloc_def)

definition x86_box :: "(x86_flags, ref_heap, x86_op) env" where
  "x86_box = ref_env X86Meta48 X86Pte (X86Tlb ref_x86)"

interpretation x86_box: coherent_cpu x86_box "\<lambda>_. True" x86_normal_flags "ref_live X86Meta48" "ref_x86_inv False"
  "canonical 48" "0x1000" "x86_nonglobal_walk x86_box 0x1000"
  unfolding x86_box_def
  by (rule x86_coherent [OF x86_48.ref_host ref_dealloc_total _ _ ref_linear ref_x86_hw_ok(1) ref_x86_ok(1)])
    (simp_all add: ref_env_def)

interpretation rv_box: coherent_cpu rv_ref rv64_flags_ok "rv64_normal_flags False" "ref_live Rv64Meta39" ref_sfence
  "\<lambda>_. True" rv_root "rv64_cpu_walk rv_ref False rv_root"
  unfolding rv_ref_def
  by (rule rv64_coherent [OF rv64_39.ref_host ref_dealloc_total _ _ ref_linear ref_sfence_ok])
    (simp_all add: ref_env_def Rv64Pte_def)

definition arm_box :: "(a64_flags, ref_heap, a64_op) env" where
  "arm_box = ref_env A64Meta16K48 (A64Pte16K48 arm_family) A64Tlb"

interpretation arm_box: coherent_cpu arm_box "\<lambda>_. True" a64_normal_flags "ref_live A64Meta16K48" "ref_tlbi Size16K"
  "\<lambda>_. True" root "resolved_walk arm_box root" for root
  unfolding arm_box_def
  by (rule a64_coherent [OF arm_family_ok a64_16k48.ref_host ref_dealloc_total,
      where A = "ref_alloc A64Meta16K48" and L = ref_addr_lib])
    (simp_all add: ref_env_def A64PageTable16K48_def ref_tlbi_ok A64Meta16K48_def)

text \<open>A page mapped in the fresh address space of each machine.\<close>

definition hw_page :: addr_range where
  "hw_page = \<lparr>rng_start = 0x400000, rng_end = 0x401000\<rparr>"

definition box_new :: "(ref_heap, x86_op) world" where
  "box_new = snd (try_new x86_box (ref_world 0x1000))"

lemma x86_box_fields:
  "e_meta x86_box = X86Meta48" "e_pte x86_box = X86Pte" "e_alloc x86_box = ref_alloc X86Meta48"
  "e_addr x86_box = ref_addr_lib" "e_tlb x86_box = X86Tlb ref_x86"
  by (simp_all add: x86_box_def ref_env_def)

lemma x86_box_page_table: "x86_box = X86PageTable48 (ref_alloc X86Meta48) (X86Tlb ref_x86) ref_addr_lib"
  by (simp add: x86_box_def ref_env_def X86PageTable48_def)

lemma box_try_new: "try_new x86_box (ref_world 0x1000) = (Ok 0x1000, box_new)"
proof -
  have "fst (try_new x86_box (ref_world 0x1000)) = Ok 0x1000"
    by (simp add: x86_eval x86_box_fields try_new_def)
  then show ?thesis by (simp add: box_new_def prod_eq_iff)
qed

lemma box_check:
  "check_leaf_range (e_addr x86_box) (e_meta x86_box) hw_page = Ok Size4K" "size_to_level (e_meta x86_box) Size4K = Some 1"
  "is_aligned Size4K 0x5000" "paddr_is_valid (e_meta x86_box) 0x5000"
proof -
  have "addr_checked_sub (e_addr x86_box) (rng_end hw_page) 1 = Some 0x400fff"
    "vaddr_is_valid (e_meta x86_box) 0x400fff" "vaddr_is_valid (e_meta x86_box) 0x400000"
    by (simp_all add: hw_page_def x86_box_fields x86_meta_fields ref_addr_lib_def x86_canonical_vaddr_is_valid_def)
  then show "check_leaf_range (e_addr x86_box) (e_meta x86_box) hw_page = Ok Size4K"
    using from_bytes_bytes [of Size4K]
    by (simp add: check_leaf_range_def check_vaddr_def hw_page_def x86_box_fields ref_addr_lib_def is_aligned_def)
qed (simp_all add: x86_box_fields X86Meta48_def default_size_to_level_Some x86_level_supports_leaf_def
    is_aligned_def default_paddr_is_valid_def)

lemma box_mapped:
  obtains w where "table_exec (walker_page_table x86_box) (TMap hw_page (FromPhysAddr 0x5000) (mapping_flags_new ex_flags))
      (0x1000, box_new) = (Ok (), (0x1000, w))"
    "query x86_box 0x1000 v (mem w) = (if in_range hw_page v then Ok (mapping_new hw_page 0x5000 (x86_normal_flags ex_flags))
      else query x86_box 0x1000 v (mem box_new))"
proof -
  have sup: "frame_supply x86_box (ref_room X86Meta48)"
    unfolding x86_box_def
    by (rule ref_supply) (simp add: x86_meta_fields default_paddr_is_valid_def word_less_nat_alt)
  have "astate box_new = \<lparr>next_frame = 0x2000, owned = [0x1000]\<rparr>"
    by (simp add: x86_eval x86_box_fields try_new_def box_new_def)
  then have room: "LEVELS (e_meta x86_box) - 1 \<le> ref_room X86Meta48 (astate box_new)"
    by (simp add: ref_room_def x86_meta_fields x86_box_fields is_aligned_def)
  have "tree_ok x86_box (ref_live X86Meta48) 0x1000 box_new"
    using x86_box.try_new_spec(3) [OF box_try_new refl] by simp
  from x86_box.walker_map_leaf [OF this x86_box.try_new_accounts [OF box_try_new] sup room
      x86_box.try_new_slot_free [OF box_try_new] box_check(2-4) TrueI box_check(1)]
  obtain w where "walker_map x86_box 0x1000 hw_page (FromPhysAddr 0x5000) (mapping_flags_new ex_flags) box_new = (Ok (), w)"
    "\<forall>v. query x86_box 0x1000 v (mem w) =
      (if in_range hw_page v then Ok (mapping_new hw_page 0x5000 (x86_normal_flags ex_flags))
       else query x86_box 0x1000 v (mem box_new))" by blast
  then show thesis by (intro that [of w]) (simp_all add: walker_page_table_def)
qed

definition rv_page_flags :: rv64_flags where "rv_page_flags = rv64_flags_new AF_WRITE"

lemma rv_page_table:
  "rv_ref \<in> (if False then {Rv64SvpbmtPageTable39 (ref_alloc Rv64Meta39) Rv64Tlb ref_addr_lib,
        Rv64SvpbmtPageTable48 (ref_alloc Rv64Meta39) Rv64Tlb ref_addr_lib, Rv64SvpbmtPageTable57 (ref_alloc Rv64Meta39) Rv64Tlb ref_addr_lib}
      else {Rv64PageTable39 (ref_alloc Rv64Meta39) Rv64Tlb ref_addr_lib, Rv64PageTable48 (ref_alloc Rv64Meta39) Rv64Tlb ref_addr_lib,
        Rv64PageTable57 (ref_alloc Rv64Meta39) Rv64Tlb ref_addr_lib})"
  by (simp add: rv_ref_def ref_env_def Rv64PageTable39_def)

lemma rv_check:
  "check_leaf_range (e_addr rv_ref) (e_meta rv_ref) hw_page = Ok Size4K" "size_to_level (e_meta rv_ref) Size4K = Some 1"
  "is_aligned Size4K 0x80001000" "paddr_is_valid (e_meta rv_ref) 0x80001000" "rv64_flags_ok rv_page_flags"
proof -
  have "addr_checked_sub (e_addr rv_ref) (rng_end hw_page) 1 = Some 0x400fff"
    "vaddr_is_valid (e_meta rv_ref) 0x400fff" "vaddr_is_valid (e_meta rv_ref) 0x400000"
    by (simp_all add: hw_page_def rv_ref_fields Rv64Meta39_def rv64_meta_def ref_addr_lib_def rv64_canonical_vaddr_is_valid_def)
  then show "check_leaf_range (e_addr rv_ref) (e_meta rv_ref) hw_page = Ok Size4K"
    using from_bytes_bytes [of Size4K]
    by (simp add: check_leaf_range_def check_vaddr_def hw_page_def rv_ref_fields ref_addr_lib_def is_aligned_def)
  show "rv64_flags_ok rv_page_flags"
    by (simp add: rv64_flags_ok_bits rv_page_flags_def rv64_flags_new_def af_union_def bit_or_iff bit_af_consts)
qed (simp_all add: rv_ref_fields Rv64Meta39_def rv64_meta_def default_size_to_level_Some rv64_level_supports_leaf_def
    is_aligned_def default_paddr_is_valid_def PADDR_MAX_BITS_def)

lemma rv_mapped:
  obtains w where "table_exec (walker_page_table rv_ref) (TMap hw_page (FromPhysAddr 0x80001000) (mapping_flags_new rv_page_flags))
      (rv_root, rv_new) = (Ok (), (rv_root, w))"
    "query rv_ref rv_root v (mem w) = (if in_range hw_page v then Ok (mapping_new hw_page 0x80001000 (rv64_normal_flags False rv_page_flags))
      else query rv_ref rv_root v (mem rv_new))"
proof -
  have sup: "frame_supply rv_ref (ref_room Rv64Meta39)"
    unfolding rv_ref_def
    by (rule ref_supply) (simp add: Rv64Meta39_def rv64_meta_def PADDR_MAX_BITS_def default_paddr_is_valid_def word_less_nat_alt)
  have "astate rv_new = \<lparr>next_frame = 0x2000, owned = [0x1000]\<rparr>"
    by (simp add: rv_ref_fields Rv64Meta39_def rv64_meta_def try_new_def rv_root_def rv_new_def
        alloc_table_frame_def ref_alloc_def ref_addr_lib_def default_paddr_is_valid_def
        is_aligned_def ref_world_def MAX_LEVELS_def assert_walker_layout_def PADDR_MAX_BITS_def)
  then have room: "LEVELS (e_meta rv_ref) - 1 \<le> ref_room Rv64Meta39 (astate rv_new)"
    by (simp add: ref_room_def Rv64Meta39_def rv64_meta_def rv_ref_fields is_aligned_def)
  from rv_ref.walker_map_leaf [OF rv_new_ok rv_ref.try_new_accounts [OF rv_try_new] sup room
      rv_ref.try_new_slot_free [OF rv_try_new] rv_check(2-5) rv_check(1)]
  obtain w where "walker_map rv_ref rv_root hw_page (FromPhysAddr 0x80001000) (mapping_flags_new rv_page_flags) rv_new = (Ok (), w)"
    "\<forall>v. query rv_ref rv_root v (mem w) =
      (if in_range hw_page v then Ok (mapping_new hw_page 0x80001000 (rv64_normal_flags False rv_page_flags))
       else query rv_ref rv_root v (mem rv_new))" by blast
  then show thesis by (intro that [of w]) (simp_all add: walker_page_table_def)
qed

lemma hw_page_legal:
  "op_legal ref_addr_lib (\<lambda>_. True) (TMap hw_page (FromPhysAddr 0x5000) (mapping_flags_new f))"
  "op_legal ref_addr_lib rv64_flags_ok (TMap hw_page (FromPhysAddr 0x80001000) (mapping_flags_new rv_page_flags))"
  using rv_check(5)
  by (simp_all add: hw_page_def range_ok_def ref_addr_lib_def contiguous_from_start_size_def checked_add_def
      mapping_flags_new_def)

lemma hw_page_in: "in_range hw_page 0x400abc"
  by (simp add: in_range_def hw_page_def)

lemma hw_page_x86:
  "x86_page_of (mapping_new hw_page 0x5000 (x86_normal_flags ex_flags)) 0x400abc =
      \<lparr>hx_pa = 0x5abc, hx_write = True, hx_user = False, hx_exec = False, hx_global = False, hx_type = X86_PAT_TYPE_WB\<rparr>"
  by (simp add: x86_page_of_def mapping_pa_def mapping_new_def hw_page_def af_contains_consts x86_normal_flags_def
        from_bits_truncate_def ex_flags_def x86_flags_new_def x86_cache_def ma_defs af_union_def bit_and_iff bit_or_iff
        bit_0x1f bit_af_consts)

lemma hw_page_rv64:
  "rv64_page_of (mapping_new hw_page 0x80001000 (rv64_normal_flags False rv_page_flags)) 0x400abc =
      \<lparr>hr_pa = 0x80001abc, hr_read = True, hr_write = True, hr_exec = False, hr_user = False,
       hr_global = False, hr_pbmt = 0\<rparr>"
  by (simp add: rv64_page_of_def mapping_pa_def mapping_new_def hw_page_def af_contains_consts rv64_normal_flags_def
        bit_rv64_norm_access rv_leaf_access_def rv_page_flags_def rv64_flags_new_def rv64_cache_def rv64_norm_cache_def
        ma_defs af_union_def bit_or_iff bit_af_consts)

section \<open>The hardware agrees with query\<close>

text \<open>
  C3: what an x86_64 CPU with 4- or 5-level paging translates an address to is what \<^verbatim>\<open>query\<close> says, in
  every state of a walker from its creation on, also in the middle of a batch: the CPU faults exactly
  when \<^verbatim>\<open>query\<close> returns an error, and otherwise reaches the same byte with the same rights (write, user,
  execute, global) and the memory type of the cache policy. No entry uses a reserved bit. The host
  maps each table frame linearly and takes frames back without failing.
\<close>

theorem x86_hardware_agrees:
  assumes "frame_host E live" "dealloc_total E live" "linear_window E"
    and "E \<in> {X86PageTable48 A T L, X86PageTable57 A T L}"
    and "walker_life E (\<lambda>_. True) root w0" "cursor_reach E (\<lambda>_. True) root w0 (c, w)"
  shows "x86_translate (phys_read E (mem w)) X86_PAT_MSR_VALUE (LEVELS (e_meta E)) root v =
    (case query E root v (mem w) of Ok mp \<Rightarrow> Some (x86_page_of mp v) | _ \<Rightarrow> None)"
proof -
  note pt = x86_page_tables [OF assms(4)]
  have W: "walker E (\<lambda>_. True) x86_normal_flags live" by (rule x86_env_walker [OF assms(1) pt(1,2)])
  show ?thesis
    by (rule x86_hardware [OF W pt(1) _ assms(3) walker.batch_life_settled [OF W assms(5,2,6)]])
      (use pt(2) in blast)
qed

theorem x86_hardware_agrees_witness:
  "\<exists>w :: (ref_heap, x86_op) world. x86_translate (phys_read x86_box (mem w)) X86_PAT_MSR_VALUE 4 0x1000 0x400abc =
     Some \<lparr>hx_pa = 0x5abc, hx_write = True, hx_user = False, hx_exec = False, hx_global = False,
           hx_type = X86_PAT_TYPE_WB\<rparr>"
proof -
  obtain w where w: "table_exec (walker_page_table x86_box) (TMap hw_page (FromPhysAddr 0x5000) (mapping_flags_new ex_flags))
      (0x1000, box_new) = (Ok (), (0x1000, w))"
    and q: "query x86_box 0x1000 0x400abc (mem w) =
      (if in_range hw_page 0x400abc then Ok (mapping_new hw_page 0x5000 (x86_normal_flags ex_flags))
       else query x86_box 0x1000 0x400abc (mem box_new))" by (rule box_mapped)
  have life: "walker_life x86_box (\<lambda>_. True) 0x1000 w"
    by (rule walker_life.requested [OF walker_life.created [OF box_try_new] _ w]) (unfold x86_box_fields, rule hw_page_legal)
  have M: "x86_box \<in> {X86PageTable48 (ref_alloc X86Meta48) (X86Tlb ref_x86) ref_addr_lib,
      X86PageTable57 (ref_alloc X86Meta48) (X86Tlb ref_x86) ref_addr_lib}" "LEVELS (e_meta x86_box) = 4"
    by (simp_all add: x86_box_page_table x86_meta_fields X86PageTable48_def)
  have lin: "linear_window x86_box" unfolding x86_box_def by (rule ref_linear)
  note pg = hw_page_x86
  from x86_hardware_agrees [OF x86_box.frame_host_axioms x86_box.total lin M(1) life cursor_reach.fresh, of "0x400abc"]
  show ?thesis unfolding q if_P [OF hw_page_in] M(2) res.case pg by (rule exI)
qed

text \<open>
  C4: the same for RISC-V with Sv39, Sv48 and Sv57, with and without Svpbmt: no page fault on a reserved
  encoding, a misaligned superpage or an accessed or dirty bit ever hides a mapping, and the address, the rights and
  the memory type are those of \<^verbatim>\<open>query\<close>.
\<close>

theorem rv64_hardware_agrees:
  assumes "frame_host E live" "dealloc_total E live" "linear_window E"
    and "E \<in> (if s then {Rv64SvpbmtPageTable39 A T L, Rv64SvpbmtPageTable48 A T L, Rv64SvpbmtPageTable57 A T L}
      else {Rv64PageTable39 A T L, Rv64PageTable48 A T L, Rv64PageTable57 A T L})"
    and "walker_life E rv64_flags_ok root w0" "cursor_reach E rv64_flags_ok root w0 (c, w)"
  shows "rv64_translate (phys_read E (mem w)) s (LEVELS (e_meta E)) (drop_bit 12 root) v =
    (case query E root v (mem w) of Ok mp \<Rightarrow> Some (rv64_page_of mp v) | _ \<Rightarrow> None)"
proof -
  note pt = rv64_page_tables [OF assms(4)]
  have W: "walker E rv64_flags_ok (rv64_normal_flags s) live" by (rule rv64_env_walker [OF assms(1) pt(1,2)])
  show ?thesis
    by (rule rv64_hardware [OF W pt(1,2) assms(3) walker.batch_life_settled [OF W assms(5,2,6)]])
qed

theorem rv64_hardware_agrees_witness:
  "\<exists>w :: (ref_heap, unit rv_op) world. rv64_translate (phys_read rv_ref (mem w)) False 3 1 0x400abc =
     Some \<lparr>hr_pa = 0x80001abc, hr_read = True, hr_write = True, hr_exec = False, hr_user = False,
           hr_global = False, hr_pbmt = 0\<rparr>"
proof -
  obtain w where w: "table_exec (walker_page_table rv_ref) (TMap hw_page (FromPhysAddr 0x80001000) (mapping_flags_new rv_page_flags))
      (rv_root, rv_new) = (Ok (), (rv_root, w))"
    and q: "query rv_ref rv_root 0x400abc (mem w) =
      (if in_range hw_page 0x400abc then Ok (mapping_new hw_page 0x80001000 (rv64_normal_flags False rv_page_flags))
       else query rv_ref rv_root 0x400abc (mem rv_new))" by (rule rv_mapped)
  have life: "walker_life rv_ref rv64_flags_ok rv_root w"
    by (rule walker_life.requested [OF walker_life.created [OF rv_try_new] _ w]) (unfold rv_ref_fields, rule hw_page_legal)
  have M: "LEVELS (e_meta rv_ref) = 3" "drop_bit 12 rv_root = 1"
    by (simp_all add: rv_ref_fields Rv64Meta39_def rv64_meta_def rv_root_def)
  have lin: "linear_window rv_ref" unfolding rv_ref_def by (rule ref_linear)
  note pg = hw_page_rv64
  from rv64_hardware_agrees [OF rv_ref.frame_host_axioms rv_dealloc_total lin rv_page_table life cursor_reach.fresh, of "0x400abc"]
  show ?thesis unfolding q if_P [OF hw_page_in] M res.case pg by (rule exI)
qed

section \<open>No stale translation\<close>

text \<open>
  C5: an x86_64 CPU with 4-level paging never uses a stale translation. However the CPU fills and
  evicts its TLB around and during the requests and batches of a walker, between requests every cached translation that
  is not global is what \<^verbatim>\<open>query\<close> says now, with the CR3-reload and with the PCID back end. (Global
  translations are the subject of a property of the back ends.)
\<close>

theorem x86_tlb_coherent:
  assumes "frame_host E live" "dealloc_total E live" "linear_window E"
    and "E \<in> {X86PageTable48 A (X86Tlb X) L, X86PageTable48 A (X86PcidTlb X p) L}"
    and "x86_hw_ok p iv" "x86_addrs_ok X"
    and "cpu_run E (\<lambda>_. True) (iv False) (x86_nonglobal_walk E root) root T None w" "(v, pg) \<in> T"
  shows "\<exists>mp. query E root v (mem w) = Ok mp \<and> pg = x86_page_of mp v"
proof -
  have pt: "e_pte E = X86Pte" "e_meta E = X86Meta48" "e_tlb E = X86Tlb X \<or> e_tlb E = X86PcidTlb X p"
    using assms(4) by (auto simp: X86PageTable48_def)
  have C: "coherent_cpu E (\<lambda>_. True) x86_normal_flags live (iv False) (canonical 48) root (x86_nonglobal_walk E root)"
    by (rule x86_coherent [OF assms(1,2) pt(1,2) assms(3,5,6) pt(3)])
  have W: "walker E (\<lambda>_. True) x86_normal_flags live" by (rule coherent_cpu.axioms(1) [OF C])
  have "x86_nonglobal_walk E root (mem w) v = Some pg" by (rule coherent_cpu.tlb_coherent [OF C assms(7,8)])
  moreover have "x86_cpu_walk E root (mem w) v = (case query E root v (mem w) of Ok mp \<Rightarrow> Some (x86_page_of mp v) | _ \<Rightarrow> None)"
    unfolding x86_cpu_walk_def
    by (rule x86_hardware [OF W pt(1) _ assms(3) coherent_cpu.cpu_run_settled [OF C assms(7)]]) (simp add: pt(2))
  ultimately show ?thesis by (auto simp: x86_nonglobal_walk_def split: option.splits res.splits if_splits)
qed

theorem x86_tlb_coherent_witness:
  "\<exists>T w pg mp. cpu_run x86_box (\<lambda>_. True) (ref_x86_inv False) (x86_nonglobal_walk x86_box 0x1000) 0x1000 T None w \<and>
     (0x400abc, pg) \<in> T \<and> query x86_box 0x1000 0x400abc (mem w) = Ok mp \<and> pg = x86_page_of mp 0x400abc"
proof -
  let ?run = "cpu_run x86_box (\<lambda>_. True) (ref_x86_inv False) (x86_nonglobal_walk x86_box 0x1000) 0x1000"
  obtain w where w: "table_exec (walker_page_table x86_box) (TMap hw_page (FromPhysAddr 0x5000) (mapping_flags_new ex_flags))
      (0x1000, box_new) = (Ok (), (0x1000, w))"
    and q: "query x86_box 0x1000 0x400abc (mem w) =
      (if in_range hw_page 0x400abc then Ok (mapping_new hw_page 0x5000 (x86_normal_flags ex_flags))
       else query x86_box 0x1000 0x400abc (mem box_new))" by (rule box_mapped)
  have lin: "linear_window x86_box" unfolding x86_box_def by (rule ref_linear)
  have "?run (tlb_after (ref_x86_inv False) (issued box_new w) ({} \<union> {})) None w"
    by (rule cpu_run.request [OF cpu_run.boot [OF box_try_new] _ w]) (unfold x86_box_fields, rule hw_page_legal, simp)
  then have run: "?run {} None w" by (simp add: tlb_after_def)
  have M: "e_meta x86_box = X86Meta48 \<or> e_meta x86_box = X86Meta57" by (simp add: x86_box_fields)
  have "x86_cpu_walk x86_box 0x1000 (mem w) 0x400abc =
      Some (x86_page_of (mapping_new hw_page 0x5000 (x86_normal_flags ex_flags)) 0x400abc)"
    unfolding x86_cpu_walk_def
      x86_hardware [OF x86_box.walker_axioms x86_box_fields(2) M lin x86_box.cpu_run_settled [OF run]] q
    by (simp add: in_range_def hw_page_def)
  then obtain pg where "x86_nonglobal_walk x86_box 0x1000 (mem w) 0x400abc = Some pg"
    by (simp add: x86_nonglobal_walk_def hw_page_x86)
  note fill = cpu_run.fill [OF run this]
  have "x86_box \<in> {X86PageTable48 (ref_alloc X86Meta48) (X86Tlb ref_x86) ref_addr_lib,
      X86PageTable48 (ref_alloc X86Meta48) (X86PcidTlb ref_x86 0) ref_addr_lib}" by (simp add: x86_box_page_table)
  from x86_tlb_coherent [OF x86_box.frame_host_axioms x86_box.total lin this ref_x86_hw_ok(1) ref_x86_ok(1)
      fill insertI1] fill
  show ?thesis by blast
qed

text \<open>
  C6: the same on RISC-V with the \<^verbatim>\<open>sfence.vma\<close> back end, for every translation, global or not.
\<close>

theorem rv64_tlb_coherent:
  assumes "frame_host E live" "dealloc_total E live" "linear_window E"
    and "E \<in> (if s then {Rv64SvpbmtPageTable39 A Rv64Tlb L, Rv64SvpbmtPageTable48 A Rv64Tlb L, Rv64SvpbmtPageTable57 A Rv64Tlb L}
      else {Rv64PageTable39 A Rv64Tlb L, Rv64PageTable48 A Rv64Tlb L, Rv64PageTable57 A Rv64Tlb L})"
    and "sfence_ok Size4K iv"
    and "cpu_run E rv64_flags_ok iv (rv64_cpu_walk E s root) root T None w" "(v, pg) \<in> T"
  shows "\<exists>mp. query E root v (mem w) = Ok mp \<and> pg = rv64_page_of mp v"
proof -
  note pt = rv64_page_tables [OF assms(4)]
  have C: "coherent_cpu E rv64_flags_ok (rv64_normal_flags s) live iv (\<lambda>_. True) root (rv64_cpu_walk E s root)"
    by (rule rv64_coherent [OF assms(1,2) pt(1,2) assms(3,5) pt(3)])
  have W: "walker E rv64_flags_ok (rv64_normal_flags s) live" by (rule coherent_cpu.axioms(1) [OF C])
  have "rv64_cpu_walk E s root (mem w) v = Some pg" by (rule coherent_cpu.tlb_coherent [OF C assms(6,7)])
  then show ?thesis
    unfolding rv64_cpu_walk_def rv64_hardware [OF W pt(1,2) assms(3) coherent_cpu.cpu_run_settled [OF C assms(6)]]
    by (simp split: res.splits)
qed

theorem rv64_tlb_coherent_witness:
  "\<exists>T w pg mp. cpu_run rv_ref rv64_flags_ok ref_sfence (rv64_cpu_walk rv_ref False rv_root) rv_root T None w \<and>
     (0x400abc, pg) \<in> T \<and> query rv_ref rv_root 0x400abc (mem w) = Ok mp \<and> pg = rv64_page_of mp 0x400abc"
proof -
  let ?run = "cpu_run rv_ref rv64_flags_ok ref_sfence (rv64_cpu_walk rv_ref False rv_root) rv_root"
  obtain w where w: "table_exec (walker_page_table rv_ref) (TMap hw_page (FromPhysAddr 0x80001000) (mapping_flags_new rv_page_flags))
      (rv_root, rv_new) = (Ok (), (rv_root, w))"
    and q: "query rv_ref rv_root 0x400abc (mem w) =
      (if in_range hw_page 0x400abc then Ok (mapping_new hw_page 0x80001000 (rv64_normal_flags False rv_page_flags))
       else query rv_ref rv_root 0x400abc (mem rv_new))" by (rule rv_mapped)
  have lin: "linear_window rv_ref" unfolding rv_ref_def by (rule ref_linear)
  have "?run (tlb_after ref_sfence (issued rv_new w) ({} \<union> {})) None w"
    by (rule cpu_run.request [OF cpu_run.boot [OF rv_try_new] _ w]) (unfold rv_ref_fields, rule hw_page_legal, simp)
  then have run: "?run {} None w" by (simp add: tlb_after_def)
  have M: "e_pte rv_ref = Rv64PteFor False" "e_meta rv_ref \<in> {Rv64Meta39, Rv64Meta48, Rv64Meta57}"
    by (simp_all add: rv_ref_fields Rv64Pte_def)
  have "rv64_cpu_walk rv_ref False rv_root (mem w) 0x400abc =
      Some (rv64_page_of (mapping_new hw_page 0x80001000 (rv64_normal_flags False rv_page_flags)) 0x400abc)"
    unfolding rv64_cpu_walk_def
      rv64_hardware [OF rv_ref.walker_axioms M lin rv_box.cpu_run_settled [OF run]] q
    by (simp add: in_range_def hw_page_def)
  note fill = cpu_run.fill [OF run this]
  from rv64_tlb_coherent [OF rv_ref.frame_host_axioms rv_dealloc_total lin rv_page_table ref_sfence_ok fill insertI1] fill
  show ?thesis by blast
qed

end
