(* ===== verification/GlobalTlb.thy ===== *)
theory GlobalTlb
  imports HwSystem
begin

text \<open>
  What the operations of the walker do to global translations on x86_64. The back ends that reload CR3 or
  use \<^verbatim>\<open>INVPCID\<close> are proved coherent for the translations that are not global; this theory says what
  happens to the others.
\<close>

section \<open>What an operation issues\<close>

lemma issued_after_frees:
  assumes "log w1 = log w @ map Freed rs"
  shows "issued w (emit hs w1) = hs"
  using assms by (induction rs arbitrary: hs) (simp_all add: issued_def emit_def List.map_filter_def o_def)

context walker
begin

text \<open>An operation that changed a leaf ends with the flush of its range, the only instructions it issues.\<close>

lemma leaf_operation:
  fixes w :: "('s, 'h) world"
  assumes ok: "tree_ok E live root w" and f: "flags_ok flags"
    and run: "protect E root rg flags w = (Ok mp, w') \<or> remap E root rg p flags w = (Ok mp, w') \<or>
      unmap E root rg w = (Ok mp, w')"
  obtains w1 rs where "w' = flush_leaf_range E rg w1" "log w1 = log w @ map Freed rs" "exact_mapped E root rg w"
proof -
  from run consider
      (protect) w1 where "protect_no_flush E root rg flags w = (Ok mp, w1)" "w' = flush_leaf_range E (m_range mp) w1"
    | (remap) w1 where "remap_no_flush E root rg p flags w = (Ok mp, w1)" "w' = flush_leaf_range E (m_range mp) w1"
    | (unmap) w1 where "unmap_no_flush E root rg w = (Ok mp, w1)" "w' = flush_leaf_range E (m_range mp) w1"
    by (auto simp: protect_def remap_def unmap_def bind_st_eq split: res.splits prod.splits)
  then show thesis
  proof cases
    case protect
    have "log w1 = log w"
      using protect(1) by (auto simp: protect_no_flush_def Let_def store_def bind_st_def split: res.splits)
    then show thesis
      using protect_no_flush_spec [OF ok f protect(1)] protect(2)
      by (intro that [of w1 "[]"]) (auto simp: exact_mapped_def mapping_new_def)
  next
    case remap
    have "log w1 = log w"
      using remap(1) by (auto simp: remap_no_flush_def Let_def store_def bind_st_def split: res.splits if_splits)
    then show thesis
      using remap_no_flush_spec [OF ok f remap(1)] remap(2)
      by (intro that [of w1 "[]"]) (auto simp: mapping_new_def)
  next
    case unmap
    from unmap_no_flush_spec [OF ok unmap(1)] obtain fs where
      "query E root (rng_start rg) (mem w) = Ok mp" "m_range mp = rg"
      "log w1 = log w @ map (\<lambda>f. Freed (frame_range E f)) fs" by auto
    then show thesis
      using unmap(2) by (intro that [of w1 "map (frame_range E) fs"]) (auto simp: exact_mapped_def o_def)
  qed
qed

end

text \<open>A leaf of x86_64 is a base page or spans more base pages than the back ends flush one by one.\<close>

lemma x86_leaf_pages:
  assumes "leaf_size_at_level X86Meta48 t = Some sz"
  shows "if sz = Size4K then bytes sz div bytes Size4K = 1 else default_prefer_full_flush (bytes sz div bytes Size4K)"
proof -
  have "12 + (t - 1) * 9 = size_shift sz"
    using assms by (simp add: X86Meta48_def default_leaf_size_iff x86_level_shift_def)
  then show ?thesis
    by (cases sz; simp add: default_prefer_full_flush_def; presburger?)
qed

lemma x86_leaf_flush:
  assumes W: "walker E (\<lambda>_. True) x86_normal_flags live" and E: "E = X86PageTable48 A T L"
    and T: "T = X86Tlb X \<or> T = X86PcidTlb X p" and X: "x86_addrs_ok X"
    and m: "exact_mapped E root rg w"
  obtains hs where "flush_leaf_range E rg w1 = emit hs w1"
    "if range_size L rg = bytes Size4K
     then is_aligned Size4K (rng_start rg) \<and> unat (rng_end rg) = unat (rng_start rg) + 2 ^ 12 \<and>
       hs = flush_tlb_local T (rng_start rg) \<and> canonical 48 (rng_start rg)
     else hs = flush_tlb_all_local T"
proof -
  have E': "e_meta E = X86Meta48" "e_tlb E = T" "e_addr E = L" by (simp_all add: E X86PageTable48_def)
  obtain mp where q: "query E root (rng_start rg) (mem w) = Ok mp" "m_range mp = rg"
    using m by (auto simp: exact_mapped_def)
  obtain t e sz where v: "vaddr_is_valid X86Meta48 (rng_start rg)" "leaf_size_at_level X86Meta48 t = Some sz"
      "leaf_range L (rng_start rg) sz = Ok rg"
    using walker.query_OkD [OF W q(1)] unfolding q(2) E' by metis
  have can: "canonical 48 (rng_start rg)" using v(1) by (simp add: x86_valid_canonical)
  have aL: "addr_lib_ok L" using frame_host.addr_ok [OF walker.axioms(3) [OF W]] by (simp add: E')
  have size: "range_size L rg = bytes sz" using walker.leaf_range_size [OF W] v(3) unfolding E' .
  have base: "BASE_PAGE_SIZE X86Meta48 = Size4K" by (simp add: X86Meta48_def)
  note pages = x86_leaf_pages [OF v(2)]
  show thesis
  proof (cases "sz = Size4K")
    case True
    obtain x where x: "checked_add (rng_start rg AND NOT (mask 12)) (bytes Size4K) = Some x"
        "rng_start rg = rng_start rg AND NOT (mask 12)" "rng_end rg = x"
      using v(3) leaf_range_Ok [OF aL] True by (cases rg) auto
    have al: "is_aligned Size4K (rng_start rg)"
      by (subst x(2)) (simp add: is_aligned_mask word_bw_assocs)
    have e: "unat (rng_end rg) = unat (rng_start rg) + 2 ^ 12"
      using checked_add_Some [OF x(1)] x(2,3) by (metis size_shift.simps(1) unat_bytes)
    have one: "range_size L rg div bytes Size4K = 1" using pages True by (simp add: size)
    have "flush_leaf_range E rg w1 = emit (flush_tlb_local T (rng_start rg)) w1"
      using T one by (auto simp: flush_leaf_range_def E' base X86Tlb_def X86PcidTlb_def
          default_prefer_full_flush_def default_flush_tlb_range_local_def)
    then show thesis using that al e can True size by simp
  next
    case False
    have "range_size L rg \<noteq> bytes Size4K" using False size from_bytes_bytes by (metis option.inject)
    moreover have "flush_leaf_range E rg w1 = emit (flush_tlb_all_local T) w1"
      using T pages False by (auto simp: flush_leaf_range_def E' base size X86Tlb_def X86PcidTlb_def Let_def)
    ultimately show thesis using that by simp
  qed
qed

section \<open>Property\<close>

text \<open>
  C35: what \<^verbatim>\<open>protect\<close>, \<^verbatim>\<open>remap\<close> and \<^verbatim>\<open>unmap\<close> do to global translations on x86_64. In every reachable
  address space, a successful operation on a 4 KiB leaf through the plain back end invalidates every
  translation of the leaf, the global ones included; on a larger leaf the same back end reloads CR3, which
  invalidates no global translation at all, so that the old global translation of the changed leaf stays
  usable. The PCID back end invalidates no global translation, whatever the size of the leaf.
\<close>

theorem full_flush_spares_globals:
  fixes w :: "('s, x86_op) world"
  assumes "frame_host E live" "E = X86PageTable48 A T L" "T = X86Tlb X \<or> T = X86PcidTlb X p"
    and "x86_hw_ok p iv" "x86_spares_globals p iv" "x86_addrs_ok X" "tree_ok E live root w"
    and "protect E root rg flags w = (Ok mp, w') \<or> remap E root rg q flags w = (Ok mp, w') \<or>
      unmap E root rg w = (Ok mp, w')"
  shows "if T = X86Tlb X \<and> range_size L rg = bytes Size4K
    then \<forall>v. in_range rg v \<longrightarrow> unat v \<in> invalidated (iv True) (issued w w')
    else invalidated (iv True) (issued w w') = {}"
proof -
  have W: "walker E (\<lambda>_. True) x86_normal_flags live"
    by (rule x86_env_walker [OF assms(1)]) (simp_all add: assms(2) X86PageTable48_def)
  obtain w1 rs where r: "w' = flush_leaf_range E rg w1" "log w1 = log w @ map Freed rs" "exact_mapped E root rg w"
    by (rule walker.leaf_operation [OF W assms(7) TrueI assms(8)])
  obtain hs where hs: "flush_leaf_range E rg w1 = emit hs w1"
    "if range_size L rg = bytes Size4K
     then is_aligned Size4K (rng_start rg) \<and> unat (rng_end rg) = unat (rng_start rg) + 2 ^ 12 \<and>
       hs = flush_tlb_local T (rng_start rg) \<and> canonical 48 (rng_start rg)
     else hs = flush_tlb_all_local T"
    by (rule x86_leaf_flush [OF W assms(2,3,6) r(3)])
  have i: "issued w w' = hs" unfolding r(1) hs(1) by (rule issued_after_frees [OF r(2)])
  have ne: "X86Tlb X \<noteq> X86PcidTlb X p"
    by (simp add: X86Tlb_def X86PcidTlb_def x86_flush_tlb_all_local_def pcid_flush_tlb_all_local_def)
  show ?thesis
    unfolding i using hs(2) assms(3-6) ne
    by (auto simp: X86Tlb_def X86PcidTlb_def x86_flush_tlb_all_local_def pcid_flush_tlb_all_local_def
        x86_flush_tlb_local_def pcid_flush_tlb_local_def ops_of_def x86_addrs_ok_def x86_hw_ok_def
        x86_spares_globals_def invalidated_def page_of_def in_range_def word_le_nat_alt word_less_nat_alt
        subset_eq split: if_splits)
qed

definition global_flags :: x86_flags where
  "global_flags = x86_flags_new (af_union AF_READ AF_GLOBAL)"

lemma box_huge_check:
  "check_leaf_range (e_addr x86_box) (e_meta x86_box) ex_huge_range = Ok Size2M"
  "size_to_level (e_meta x86_box) Size2M = Some 2" "is_aligned Size2M 0x80000000"
  "paddr_is_valid (e_meta x86_box) 0x80000000"
  using ex_huge_check by (simp_all add: x86_ref_fields x86_box_fields)

lemma box_huge_mapped:
  obtains w where "tree_ok x86_box (ref_live X86Meta48) 0x1000 w"
    "query x86_box 0x1000 (rng_start ex_huge_range) (mem w) =
       Ok (mapping_new ex_huge_range 0x80000000 (x86_normal_flags global_flags))"
proof -
  have sup: "frame_supply x86_box (ref_room X86Meta48)"
    unfolding x86_box_def
    by (rule ref_supply) (simp add: x86_meta_fields default_paddr_is_valid_def word_less_nat_alt)
  have "astate box_new = \<lparr>next_frame = 0x2000, owned = [0x1000]\<rparr>"
    by (simp add: x86_eval x86_box_fields try_new_def box_new_def)
  then have room: "LEVELS (e_meta x86_box) - 2 \<le> ref_room X86Meta48 (astate box_new)"
    by (simp add: ref_room_def x86_meta_fields x86_box_fields is_aligned_def)
  have "tree_ok x86_box (ref_live X86Meta48) 0x1000 box_new"
    using x86_box.try_new_spec(3) [OF box_try_new refl] by simp
  from x86_box.walker_map_leaf [OF this x86_box.try_new_accounts [OF box_try_new] sup room
      x86_box.try_new_slot_free [OF box_try_new] box_huge_check(2-4) TrueI box_huge_check(1), of global_flags]
  obtain w where "tree_ok x86_box (ref_live X86Meta48) 0x1000 w"
    "\<forall>v. query x86_box 0x1000 v (mem w) =
      (if in_range ex_huge_range v then Ok (mapping_new ex_huge_range 0x80000000 (x86_normal_flags global_flags))
       else query x86_box 0x1000 v (mem box_new))" by blast
  then show thesis by (intro that [of w]) (simp_all add: in_range_def ex_huge_range_def)
qed

theorem full_flush_spares_globals_witness:
  "\<exists>w w'. query x86_box 0x1000 0x40000000 (mem w) =
       Ok (mapping_new ex_huge_range 0x80000000 (x86_normal_flags global_flags)) \<and>
     protect x86_box 0x1000 ex_huge_range (x86_flags_new AF_READ) w =
       (Ok (mapping_new ex_huge_range 0x80000000 (x86_flags_new AF_READ)), w') \<and>
     invalidated (ref_x86_inv True) (issued w w') = {}"
proof -
  obtain w where w: "tree_ok x86_box (ref_live X86Meta48) 0x1000 w"
    "query x86_box 0x1000 (rng_start ex_huge_range) (mem w) =
       Ok (mapping_new ex_huge_range 0x80000000 (x86_normal_flags global_flags))"
    by (rule box_huge_mapped)
  have "exact_query x86_box 0x1000 ex_huge_range (mem w) =
      Ok (mapping_new ex_huge_range 0x80000000 (x86_normal_flags global_flags))"
    unfolding exact_query_Ok using w(2) by (simp add: mapping_new_def)
  then have "fst (protect_no_flush x86_box 0x1000 ex_huge_range (x86_flags_new AF_READ) w) =
      Ok (mapping_new ex_huge_range 0x80000000 (x86_flags_new AF_READ))"
    by (simp add: x86_box.protect_outcome mapping_new_def)
  then obtain w' where r: "protect x86_box 0x1000 ex_huge_range (x86_flags_new AF_READ) w =
      (Ok (mapping_new ex_huge_range 0x80000000 (x86_flags_new AF_READ)), w')"
    by (cases "protect_no_flush x86_box 0x1000 ex_huge_range (x86_flags_new AF_READ) w")
      (simp add: protect_def bind_st_def)
  have "range_size ref_addr_lib ex_huge_range \<noteq> bytes Size4K"
    by (simp add: ex_huge_range_def ref_addr_lib_def)
  with full_flush_spares_globals [OF x86_box.frame_host_axioms x86_box_page_table disjI1 [OF refl] ref_x86_hw_ok
      ref_x86_ok(1) w(1) disjI1 [OF r]]
  have "invalidated (ref_x86_inv True) (issued w w') = {}" by simp
  then show ?thesis using w(2) r by (auto simp: ex_huge_range_def)
qed

end
