(* ===== verification/Mmio.thy ===== *)
theory Mmio
  imports Mappings
begin

text \<open>
  The accessors of \<^verbatim>\<open>Mapping\<close> in \<^verbatim>\<open>src/src/mapping.rs\<close>: bounds-checked pointers into the mapped
  range and the unaligned, slice and volatile accesses through them. Memory is byte addressed; a
  value of a \<^verbatim>\<open>Copy\<close> type \<^verbatim>\<open>T\<close> is its object representation, the list of its \<^verbatim>\<open>size_of::<T>()\<close> bytes
  (the argument \<open>n\<close>). A pointer is its address.
\<close>

type_synonym byte_mem = "usize \<Rightarrow> u8"

section \<open>Pointers into a mapping\<close>

definition mapping_start :: "'f mapping \<Rightarrow> vaddr" where
  "mapping_start mp = rng_start (m_range mp)"

definition mapping_end :: "'f mapping \<Rightarrow> vaddr" where
  "mapping_end mp = rng_end (m_range mp)"

definition mapping_contains :: "addr_lib \<Rightarrow> 'f mapping \<Rightarrow> vaddr \<Rightarrow> bool" where
  "mapping_contains L mp v = range_contains L (m_range mp) v"

definition offset_with :: "addr_lib \<Rightarrow> nat \<Rightarrow> 'f mapping \<Rightarrow> usize \<Rightarrow> vaddr res" where
  "offset_with L n mp offset =
     (let fin = (case checked_add offset (of_nat n) of Some e \<Rightarrow> e | None \<Rightarrow> - 1) in
      if fin \<le> range_size L (m_range mp) then
        (case addr_checked_add L (mapping_start mp) offset of
           Some addr \<Rightarrow> Ok addr
         | None \<Rightarrow> Err AddressOutOfRange)
      else Err UnsupportedSize)"

definition as_ptr_of :: "addr_lib \<Rightarrow> nat \<Rightarrow> 'f mapping \<Rightarrow> usize \<Rightarrow> vaddr res" where
  "as_ptr_of L n mp offset = offset_with L n mp offset"

definition as_mut_ptr_of :: "addr_lib \<Rightarrow> nat \<Rightarrow> 'f mapping \<Rightarrow> usize \<Rightarrow> vaddr res" where
  "as_mut_ptr_of L n mp offset = offset_with L n mp offset"

section \<open>Memory\<close>

definition load_bytes :: "byte_mem \<Rightarrow> usize \<Rightarrow> nat \<Rightarrow> u8 list" where
  "load_bytes m a n = map (\<lambda>i. m (a + of_nat i)) [0..<n]"

fun store_bytes :: "byte_mem \<Rightarrow> usize \<Rightarrow> u8 list \<Rightarrow> byte_mem" where
  "store_bytes m a [] = m"
| "store_bytes m a (b # bs) = store_bytes (m(a := b)) (a + 1) bs"

section \<open>Unaligned and slice access\<close>

definition read_unaligned :: "addr_lib \<Rightarrow> nat \<Rightarrow> 'f mapping \<Rightarrow> usize \<Rightarrow> byte_mem \<Rightarrow> u8 list res" where
  "read_unaligned L n mp offset m =
     bind_res (as_ptr_of L n mp offset) (\<lambda>src. Ok (load_bytes m src n))"

definition write_unaligned :: "addr_lib \<Rightarrow> nat \<Rightarrow> 'f mapping \<Rightarrow> usize \<Rightarrow> u8 list \<Rightarrow> byte_mem \<Rightarrow>
    unit res \<times> byte_mem" where
  "write_unaligned L n mp offset value m =
     bind_st (as_mut_ptr_of L n mp offset, m) (\<lambda>dst m. (Ok (), store_bytes m dst value))"

text \<open>The slices have \<open>k\<close> elements of \<open>n\<close> bytes; only the first element is checked.\<close>

definition copy_into_slice :: "addr_lib \<Rightarrow> nat \<Rightarrow> 'f mapping \<Rightarrow> usize \<Rightarrow> nat \<Rightarrow> byte_mem \<Rightarrow> u8 list res" where
  "copy_into_slice L n mp offset k m =
     bind_res (as_ptr_of L n mp offset) (\<lambda>src. Ok (load_bytes m src (n * k)))"

definition copy_from_slice :: "addr_lib \<Rightarrow> nat \<Rightarrow> 'f mapping \<Rightarrow> usize \<Rightarrow> u8 list list \<Rightarrow> byte_mem \<Rightarrow>
    unit res \<times> byte_mem" where
  "copy_from_slice L n mp offset src m =
     bind_st (as_mut_ptr_of L n mp offset, m) (\<lambda>dst m. (Ok (), store_bytes m dst (concat src)))"

section \<open>Volatile access\<close>

definition read_ux_volatile :: "addr_lib \<Rightarrow> nat \<Rightarrow> 'f mapping \<Rightarrow> usize \<Rightarrow> byte_mem \<Rightarrow> u8 list res" where
  "read_ux_volatile L n mp offset m =
     bind_res (as_ptr_of L n mp offset) (\<lambda>r. Ok (load_bytes m r n))"

definition write_ux_volatile :: "addr_lib \<Rightarrow> nat \<Rightarrow> 'f mapping \<Rightarrow> usize \<Rightarrow> u8 list \<Rightarrow> byte_mem \<Rightarrow>
    unit res \<times> byte_mem" where
  "write_ux_volatile L n mp offset value m =
     bind_st (as_mut_ptr_of L n mp offset, m) (\<lambda>r m. (Ok (), store_bytes m r value))"

definition update_ux_volatile :: "addr_lib \<Rightarrow> nat \<Rightarrow> 'f mapping \<Rightarrow> usize \<Rightarrow> (u8 list \<Rightarrow> u8 list) \<Rightarrow>
    byte_mem \<Rightarrow> u8 list res \<times> byte_mem" where
  "update_ux_volatile L n mp offset f m =
     bind_st (as_mut_ptr_of L n mp offset, m) (\<lambda>r m.
     let old = load_bytes m r n in (Ok old, store_bytes m r (f old)))"

definition read_vo8 :: "addr_lib \<Rightarrow> 'f mapping \<Rightarrow> usize \<Rightarrow> byte_mem \<Rightarrow> u8 list res" where
  "read_vo8 L mp offset m = read_ux_volatile L 1 mp offset m"

definition write_vo8 :: "addr_lib \<Rightarrow> 'f mapping \<Rightarrow> usize \<Rightarrow> u8 list \<Rightarrow> byte_mem \<Rightarrow>
    unit res \<times> byte_mem" where
  "write_vo8 L mp offset value m = write_ux_volatile L 1 mp offset value m"

definition update_vo8 :: "addr_lib \<Rightarrow> 'f mapping \<Rightarrow> usize \<Rightarrow> (u8 list \<Rightarrow> u8 list) \<Rightarrow> byte_mem \<Rightarrow>
    u8 list res \<times> byte_mem" where
  "update_vo8 L mp offset f m = update_ux_volatile L 1 mp offset f m"

definition read_vo16 :: "addr_lib \<Rightarrow> 'f mapping \<Rightarrow> usize \<Rightarrow> byte_mem \<Rightarrow> u8 list res" where
  "read_vo16 L mp offset m = read_ux_volatile L 2 mp offset m"

definition write_vo16 :: "addr_lib \<Rightarrow> 'f mapping \<Rightarrow> usize \<Rightarrow> u8 list \<Rightarrow> byte_mem \<Rightarrow>
    unit res \<times> byte_mem" where
  "write_vo16 L mp offset value m = write_ux_volatile L 2 mp offset value m"

definition update_vo16 :: "addr_lib \<Rightarrow> 'f mapping \<Rightarrow> usize \<Rightarrow> (u8 list \<Rightarrow> u8 list) \<Rightarrow> byte_mem \<Rightarrow>
    u8 list res \<times> byte_mem" where
  "update_vo16 L mp offset f m = update_ux_volatile L 2 mp offset f m"

definition read_vo32 :: "addr_lib \<Rightarrow> 'f mapping \<Rightarrow> usize \<Rightarrow> byte_mem \<Rightarrow> u8 list res" where
  "read_vo32 L mp offset m = read_ux_volatile L 4 mp offset m"

definition write_vo32 :: "addr_lib \<Rightarrow> 'f mapping \<Rightarrow> usize \<Rightarrow> u8 list \<Rightarrow> byte_mem \<Rightarrow>
    unit res \<times> byte_mem" where
  "write_vo32 L mp offset value m = write_ux_volatile L 4 mp offset value m"

definition update_vo32 :: "addr_lib \<Rightarrow> 'f mapping \<Rightarrow> usize \<Rightarrow> (u8 list \<Rightarrow> u8 list) \<Rightarrow> byte_mem \<Rightarrow>
    u8 list res \<times> byte_mem" where
  "update_vo32 L mp offset f m = update_ux_volatile L 4 mp offset f m"

definition read_vo64 :: "addr_lib \<Rightarrow> 'f mapping \<Rightarrow> usize \<Rightarrow> byte_mem \<Rightarrow> u8 list res" where
  "read_vo64 L mp offset m = read_ux_volatile L 8 mp offset m"

definition write_vo64 :: "addr_lib \<Rightarrow> 'f mapping \<Rightarrow> usize \<Rightarrow> u8 list \<Rightarrow> byte_mem \<Rightarrow>
    unit res \<times> byte_mem" where
  "write_vo64 L mp offset value m = write_ux_volatile L 8 mp offset value m"

definition update_vo64 :: "addr_lib \<Rightarrow> 'f mapping \<Rightarrow> usize \<Rightarrow> (u8 list \<Rightarrow> u8 list) \<Rightarrow> byte_mem \<Rightarrow>
    u8 list res \<times> byte_mem" where
  "update_vo64 L mp offset f m = update_ux_volatile L 8 mp offset f m"

definition read_vo128 :: "addr_lib \<Rightarrow> 'f mapping \<Rightarrow> usize \<Rightarrow> byte_mem \<Rightarrow> u8 list res" where
  "read_vo128 L mp offset m = read_ux_volatile L 16 mp offset m"

definition write_vo128 :: "addr_lib \<Rightarrow> 'f mapping \<Rightarrow> usize \<Rightarrow> u8 list \<Rightarrow> byte_mem \<Rightarrow>
    unit res \<times> byte_mem" where
  "write_vo128 L mp offset value m = write_ux_volatile L 16 mp offset value m"

definition update_vo128 :: "addr_lib \<Rightarrow> 'f mapping \<Rightarrow> usize \<Rightarrow> (u8 list \<Rightarrow> u8 list) \<Rightarrow> byte_mem \<Rightarrow>
    u8 list res \<times> byte_mem" where
  "update_vo128 L mp offset f m = update_ux_volatile L 16 mp offset f m"

section \<open>Bounds\<close>

text \<open>
  The range must be one of the crate's type and smaller than the whole address space less a byte:
  at that size the saturated end of an overflowing access passes the test.
\<close>

definition mapping_ok :: "'f mapping \<Rightarrow> bool" where
  "mapping_ok mp \<longleftrightarrow> rng_start (m_range mp) \<le> rng_end (m_range mp) \<and>
     rng_end (m_range mp) - rng_start (m_range mp) \<noteq> - 1"

lemma offset_with_Ok:
  assumes L: "addr_lib_ok L" and ok: "mapping_ok mp" and n: "n < 2 ^ 64"
    and run: "offset_with L n mp offset = Ok a"
  shows "a = mapping_start mp + offset"
    and "unat (mapping_start mp) \<le> unat a" and "unat a + n \<le> unat (mapping_end mp)"
proof -
  have le: "rng_start (m_range mp) \<le> rng_end (m_range mp)"
    and ne: "rng_end (m_range mp) - rng_start (m_range mp) \<noteq> - 1"
    using ok by (simp_all add: mapping_ok_def)
  have sz: "range_size L (m_range mp) = rng_end (m_range mp) - rng_start (m_range mp)"
    by (rule addr_size [OF L le])
  have n': "unat (of_nat n :: u64) = n" using n by (simp add: unat_of_nat)
  obtain e where e: "checked_add offset (of_nat n) = Some e"
    and fit: "e \<le> rng_end (m_range mp) - rng_start (m_range mp)"
    and a: "checked_add (mapping_start mp) offset = Some a"
    using run ne by (cases "checked_add offset (of_nat n)")
      (auto simp: offset_with_def Let_def sz addr_checked_add [OF L] word_order.extremum_unique
        split: if_splits option.splits)
  note av = checked_add_Some [OF a] and ev = checked_add_Some [OF e]
  show "a = mapping_start mp + offset" using av by simp
  show "unat (mapping_start mp) \<le> unat a" using conjunct2 [OF av] by linarith
  have "unat e \<le> unat (rng_end (m_range mp)) - unat (rng_start (m_range mp))"
    using fit unat_sub [OF le] by (simp add: word_le_nat_alt)
  then show "unat a + n \<le> unat (mapping_end mp)"
    using conjunct2 [OF av] conjunct2 [OF ev] n' le unfolding mapping_start_def mapping_end_def word_le_nat_alt
    by linarith
qed

lemma offset_with_cases:
  "addr_lib_ok L \<Longrightarrow> offset_with L n mp offset \<noteq> Panic"
  by (auto simp: offset_with_def Let_def split: option.splits)

section \<open>Reading back\<close>

lemma store_bytes_other:
  "(\<forall>i<length bs. x \<noteq> a + of_nat i) \<Longrightarrow> store_bytes m a bs x = m x"
proof (induction bs arbitrary: m a)
  case Nil
  then show ?case by simp
next
  case (Cons b bs)
  have "x \<noteq> a" using Cons.prems by (auto dest: spec [of _ 0])
  moreover have "\<forall>i<length bs. x \<noteq> a + 1 + of_nat i"
    using Cons.prems by (auto dest: spec [of _ "Suc _"] simp: algebra_simps)
  ultimately show ?case using Cons.IH by simp
qed

lemma store_bytes_nth:
  "\<lbrakk>i < length bs; length bs \<le> 2 ^ 64\<rbrakk> \<Longrightarrow> store_bytes m a bs (a + of_nat i) = bs ! i"
proof (induction bs arbitrary: m a i)
  case Nil
  then show ?case by simp
next
  case (Cons b bs)
  have inj: "a \<noteq> a + 1 + of_nat j" if "j < length bs" for j
  proof
    assume "a = a + 1 + of_nat j"
    then have "(of_nat (Suc j) :: u64) = 0" by (simp add: algebra_simps)
    then have "unat (of_nat (Suc j) :: u64) = 0" by simp
    then have "Suc j mod 2 ^ 64 = 0" by (simp only: unat_of_nat) simp
    moreover have "Suc j < 2 ^ 64" using that Cons.prems(2) by simp
    ultimately show False by simp
  qed
  show ?case
  proof (cases i)
    case 0
    then show ?thesis
      using store_bytes_other [of bs a "a + 1" "m(a := b)"] inj by simp
  next
    case (Suc j)
    have "store_bytes (m(a := b)) (a + 1) bs (a + 1 + of_nat j) = bs ! j"
      by (rule Cons.IH) (use Cons.prems Suc in simp_all)
    moreover have "a + of_nat i = a + 1 + of_nat j" using Suc by simp
    ultimately show ?thesis using Suc by (simp only: store_bytes.simps nth_Cons_Suc)
  qed
qed

lemma load_store: "length bs = n \<Longrightarrow> n \<le> 2 ^ 64 \<Longrightarrow> load_bytes (store_bytes m a bs) a n = bs"
  by (rule nth_equalityI) (simp_all add: load_bytes_def store_bytes_nth)

text \<open>A store that does not run around the end of the address space, byte by byte.\<close>

lemma store_bytes_apply:
  assumes "unat a + length bs \<le> 2 ^ 64"
  shows "store_bytes m a bs x =
    (let i = unat x - unat a in if unat a \<le> unat x \<and> i < length bs then bs ! i else m x)"
proof (cases "unat a \<le> unat x \<and> unat x - unat a < length bs")
  case True
  then have "a + of_nat (unat x - unat a) = x"
    by (intro word_unat_eq_iff [THEN iffD2]) (simp add: word_le_nat_alt flip: unat_sub)
  then show ?thesis
    using True assms store_bytes_nth [of "unat x - unat a" bs m a] by simp
next
  case False
  have "x \<noteq> a + of_nat i" if i: "i < length bs" for i
  proof
    assume "x = a + of_nat i"
    moreover have "unat a + i < 2 ^ 64" using i assms by linarith
    ultimately have "unat x = unat a + i" by (simp add: unat_word_ariths unat_of_nat)
    with False i show False by simp
  qed
  with False show ?thesis using store_bytes_other [of bs x a m] by auto
qed

lemma length_concat_blocks: "\<forall>e\<in>set src. length e = n \<Longrightarrow> length (concat src) = n * length src"
  by (induction src) simp_all

lemma in_block: "x = a + of_nat i \<Longrightarrow> unat a + n < 2 ^ 64 + 1 \<Longrightarrow> i < n \<Longrightarrow>
    unat a \<le> unat x \<and> unat x < unat a + (n :: nat)" for x a :: u64
  by (simp add: unat_word_ariths unat_of_nat)

text \<open>The whole decision of \<open>offset_with\<close>.\<close>

lemma offset_with_decides:
  assumes L: "addr_lib_ok L" and ok: "mapping_ok mp" and n: "n < 2 ^ 64"
  shows "if unat offset + n \<le> unat (mapping_end mp) - unat (mapping_start mp)
    then offset_with L n mp offset = Ok (mapping_start mp + offset) \<and>
      unat (mapping_start mp) \<le> unat (mapping_start mp + offset) \<and>
      unat (mapping_start mp + offset) + n \<le> unat (mapping_end mp)
    else offset_with L n mp offset = Err UnsupportedSize"
proof -
  have le: "rng_start (m_range mp) \<le> rng_end (m_range mp)"
    and ne: "rng_end (m_range mp) - rng_start (m_range mp) \<noteq> - 1"
    using ok by (simp_all add: mapping_ok_def)
  have sz: "range_size L (m_range mp) = rng_end (m_range mp) - rng_start (m_range mp)"
    by (rule addr_size [OF L le])
  have d: "unat (rng_end (m_range mp) - rng_start (m_range mp)) =
      unat (mapping_end mp) - unat (mapping_start mp)"
    using unat_sub [OF le] by (simp add: mapping_start_def mapping_end_def)
  have n': "unat (of_nat n :: u64) = n" using n by (simp add: unat_of_nat)
  show ?thesis
  proof (cases "unat offset + n \<le> unat (mapping_end mp) - unat (mapping_start mp)")
    case True
    have lt: "unat offset + n < 2 ^ 64" using True unat_u64_less [of "mapping_end mp"] by linarith
    have st: "unat (mapping_start mp) + unat offset < 2 ^ 64"
      using True unat_u64_less [of "mapping_end mp"] le
      by (simp add: mapping_start_def mapping_end_def word_le_nat_alt)
    have e: "checked_add offset (of_nat n) = Some (offset + of_nat n)"
      "unat (offset + of_nat n) = unat offset + n"
      using lt n' by (simp_all add: checked_add_def unat_word_ariths)
    have "offset + of_nat n \<le> range_size L (m_range mp)"
      unfolding sz word_le_nat_alt d e(2) by (rule True)
    then have "offset_with L n mp offset = Ok (mapping_start mp + offset)"
      unfolding offset_with_def Let_def e(1) addr_checked_add [OF L]
      using st by (simp add: checked_add_def)
    with offset_with_Ok [OF L ok n this] True show ?thesis by simp
  next
    case False
    have "\<not> (case checked_add offset (of_nat n) of Some e \<Rightarrow> e | None \<Rightarrow> - 1) \<le> range_size L (m_range mp)"
    proof (cases "checked_add offset (of_nat n)")
      case None
      then show ?thesis using ne by (simp add: sz word_order.extremum_unique)
    next
      case (Some e)
      have "unat e = unat offset + n" using checked_add_Some [OF Some] n' by linarith
      with Some False show ?thesis by (simp only: option.case sz word_le_nat_alt d not_False_eq_True)
    qed
    with False show ?thesis by (simp add: offset_with_def Let_def)
  qed
qed

section \<open>Properties\<close>

text \<open>
  C37: a pointer into a mapping is handed out exactly when the whole access fits in the mapped range:
  the accessor never panics, a granted access of \<open>n\<close> bytes starts and ends inside the range, and any
  access past the end is refused with \<^verbatim>\<open>UnsupportedSize\<close>.
\<close>

theorem access_in_bounds:
  assumes L: "addr_lib_ok L" and ok: "mapping_ok mp" and n: "n < 2 ^ 64"
  shows "if unat offset + n \<le> unat (mapping_end mp) - unat (mapping_start mp)
    then offset_with L n mp offset = Ok (mapping_start mp + offset) \<and>
      unat (mapping_start mp) \<le> unat (mapping_start mp + offset) \<and>
      unat (mapping_start mp + offset) + n \<le> unat (mapping_end mp)
    else offset_with L n mp offset = Err UnsupportedSize"
  by (rule offset_with_decides [OF L ok n])

definition ex_mmio :: "unit mapping" where
  "ex_mmio = mapping_new \<lparr>rng_start = 0x1000, rng_end = 0x2000\<rparr> 0 ()"

lemma ex_mmio_ok: "mapping_ok ex_mmio"
  by (simp add: mapping_ok_def ex_mmio_def mapping_new_def)

theorem access_in_bounds_witness:
  "offset_with ref_addr_lib 8 ex_mmio 0xff8 = Ok 0x1ff8 \<and>
   offset_with ref_addr_lib 8 ex_mmio 0xff9 = Err UnsupportedSize"
  using access_in_bounds [OF ref_addr_lib_ok ex_mmio_ok, of 8 "0xff8"]
    access_in_bounds [OF ref_addr_lib_ok ex_mmio_ok, of 8 "0xff9"]
  by (simp add: mapping_start_def mapping_end_def ex_mmio_def mapping_new_def)

text \<open>
  C38: a volatile or unaligned write of one value is read back, and changes no byte outside the mapped
  range; a refused write changes nothing.
\<close>

theorem write_read_back:
  assumes L: "addr_lib_ok L" and ok: "mapping_ok mp" and n: "length value = n" "n < 2 ^ 64"
    and run: "write_ux_volatile L n mp offset value m = (res, m')"
  shows "write_unaligned L n mp offset value m = (res, m') \<and>
    (if res = Ok ()
     then read_ux_volatile L n mp offset m' = Ok value \<and> read_unaligned L n mp offset m' = Ok value \<and>
       (\<forall>a. \<not> (mapping_start mp \<le> a \<and> a < mapping_end mp) \<longrightarrow> m' a = m a)
     else m' = m)"
proof (cases "offset_with L n mp offset")
  case (Ok a)
  note b = offset_with_Ok [OF L ok n(2) Ok]
  have m': "res = Ok ()" "m' = store_bytes m a value"
    using run Ok by (auto simp: write_ux_volatile_def as_mut_ptr_of_def)
  have out: "store_bytes m a value x = m x" if "\<not> (mapping_start mp \<le> x \<and> x < mapping_end mp)" for x
  proof (rule store_bytes_other, intro allI impI notI)
    fix i assume i: "i < length value" and x: "x = a + of_nat i"
    have "unat a + n < 2 ^ 64 + 1" using b(3) unat_u64_less [of "mapping_end mp"] by linarith
    from in_block [OF x this] i n(1) have "unat a \<le> unat x" "unat x < unat a + n" by simp_all
    with b that show False by (simp add: word_le_nat_alt word_less_nat_alt)
  qed
  have "n \<le> 2 ^ 64" using n(2) by simp
  then show ?thesis
    using Ok m' out load_store [OF n(1)] run
    by (simp add: write_unaligned_def write_ux_volatile_def read_ux_volatile_def read_unaligned_def
        as_ptr_of_def as_mut_ptr_of_def)
next
  case (Err e)
  then show ?thesis using run
    by (auto simp: write_unaligned_def write_ux_volatile_def as_mut_ptr_of_def)
next
  case Panic
  then show ?thesis using offset_with_cases [OF L] by blast
qed

theorem write_read_back_witness:
  "\<exists>m'. write_vo16 ref_addr_lib ex_mmio 0x10 [0xab, 0xcd] (\<lambda>_. 0) = (Ok (), m') \<and>
     read_vo16 ref_addr_lib ex_mmio 0x10 m' = Ok [0xab, 0xcd]"
proof -
  obtain m' where w: "write_ux_volatile ref_addr_lib 2 ex_mmio 0x10 [0xab, 0xcd] (\<lambda>_. 0) = (Ok (), m')"
    by (simp add: write_ux_volatile_def as_mut_ptr_of_def offset_with_def ref_addr_lib_def ex_mmio_def
        mapping_new_def mapping_start_def checked_add_def Let_def)
  have "length [0xab, 0xcd :: u8] = 2" by simp
  from write_read_back [OF ref_addr_lib_ok ex_mmio_ok this _ w] w show ?thesis
    by (simp add: write_vo16_def read_vo16_def)
qed

text \<open>
  C39: the slice accessors check the first element only, for every element size \<open>n\<close>, mapping, offset
  and slice of \<open>n\<close>-byte elements. Whenever \<open>n\<close> bytes fit at the offset, \<^verbatim>\<open>copy_from_slice\<close> succeeds and
  writes exactly the \<open>n * length src\<close> bytes from there, and \<^verbatim>\<open>copy_into_slice\<close> reads them all back; so a
  slice that is longer than the rest of the mapping overwrites, and reads, the memory from the end of
  the mapping on. Only when not even the first element fits do both refuse. (The destination is taken
  not to run around the end of the address space.)
\<close>

theorem copy_from_slice_overruns:
  assumes L: "addr_lib_ok L" and ok: "mapping_ok mp" and n: "n < 2 ^ 64"
    and src: "\<forall>e\<in>set src. length e = n"
    and room: "unat (mapping_start mp) + unat offset + n * length src \<le> 2 ^ 64"
  shows "if unat offset + n \<le> unat (mapping_end mp) - unat (mapping_start mp)
    then \<exists>m'. copy_from_slice L n mp offset src m = (Ok (), m') \<and>
      (\<forall>a. m' a = (let i = unat a - (unat (mapping_start mp) + unat offset) in
         if unat (mapping_start mp) + unat offset \<le> unat a \<and> i < n * length src
         then concat src ! i else m a)) \<and>
      copy_into_slice L n mp offset (length src) m' = Ok (concat src) \<and>
      (unat (mapping_end mp) - unat (mapping_start mp) < unat offset + n * length src \<longrightarrow>
         m' (mapping_end mp) =
           concat src ! (unat (mapping_end mp) - (unat (mapping_start mp) + unat offset)))
    else copy_from_slice L n mp offset src m = (Err UnsupportedSize, m) \<and>
      copy_into_slice L n mp offset (length src) m = Err UnsupportedSize"
proof (cases "unat offset + n \<le> unat (mapping_end mp) - unat (mapping_start mp)")
  case True
  let ?a = "mapping_start mp + offset" and ?s = "unat (mapping_start mp) + unat offset"
  have o: "offset_with L n mp offset = Ok ?a"
    using offset_with_decides [OF L ok n] True by simp
  have le: "unat (mapping_start mp) \<le> unat (mapping_end mp)"
    using ok by (simp add: mapping_ok_def mapping_start_def mapping_end_def word_le_nat_alt)
  have a: "unat ?a = ?s"
    using True le unat_u64_less [of "mapping_end mp"] by (simp add: unat_word_ariths)
  have len: "length (concat src) = n * length src" by (rule length_concat_blocks [OF src])
  then have len64: "length (concat src) \<le> 2 ^ 64" using room by linarith
  let ?m = "store_bytes m ?a (concat src)"
  have bytes: "?m x = (let i = unat x - ?s in
      if ?s \<le> unat x \<and> i < n * length src then concat src ! i else m x)" for x
    using store_bytes_apply [of ?a "concat src" m x] a room by (simp add: len)
  have "copy_from_slice L n mp offset src m = (Ok (), ?m)"
    by (simp add: copy_from_slice_def as_mut_ptr_of_def o)
  moreover have "copy_into_slice L n mp offset (length src) ?m = Ok (concat src)"
    by (simp add: copy_into_slice_def as_ptr_of_def o load_store [OF len len64 [unfolded len]])
  moreover have "?m (mapping_end mp) = concat src ! (unat (mapping_end mp) - ?s)"
    if "unat (mapping_end mp) - unat (mapping_start mp) < unat offset + n * length src"
  proof -
    have "?s \<le> unat (mapping_end mp)" "unat (mapping_end mp) - ?s < n * length src"
      using that True le by linarith+
    then show ?thesis by (simp add: bytes)
  qed
  ultimately show ?thesis using True bytes by auto
next
  case False
  then have "offset_with L n mp offset = Err UnsupportedSize"
    using offset_with_decides [OF L ok n] by simp
  with False show ?thesis
    by (simp add: copy_from_slice_def copy_into_slice_def as_mut_ptr_of_def as_ptr_of_def)
qed

text \<open>Two 16-bit elements into a mapping of three bytes: the second one writes the byte after it.\<close>

theorem copy_from_slice_overruns_witness:
  "\<exists>m'. copy_from_slice ref_addr_lib 2 (mapping_new \<lparr>rng_start = 0x1000, rng_end = 0x1003\<rparr> 0 ()) 0
      [[0xaa, 0xbb], [0xcc, 0xdd]] (\<lambda>_. 0) = (Ok (), m') \<and> m' 0x1003 = 0xdd"
proof -
  let ?mp = "mapping_new \<lparr>rng_start = 0x1000, rng_end = 0x1003\<rparr> 0 () :: unit mapping"
  have "mapping_ok ?mp" by (simp add: mapping_ok_def mapping_new_def)
  from copy_from_slice_overruns [OF ref_addr_lib_ok this, of 2 "[[0xaa, 0xbb], [0xcc, 0xdd]]" 0 "\<lambda>_. 0"]
  show ?thesis by (auto simp: mapping_start_def mapping_end_def mapping_new_def)
qed

end
