(* ===== verification/TestKit.thy ===== *)
theory TestKit
  imports Prelude
begin

text \<open>
  The unit tests of the crate are part of its sources; each is a definition of the same name, run on
  the model. A failed assertion and \<^verbatim>\<open>unwrap\<close> of an error panic, so a test passes when it is \<open>Ok ()\<close>.
\<close>

fun assert_all :: "bool list \<Rightarrow> unit res" where
  "assert_all [] = Ok ()"
| "assert_all (b # bs) = (if b then assert_all bs else Panic)"

definition unwrap :: "'a res \<Rightarrow> 'a res" where
  "unwrap r = (case r of Ok a \<Rightarrow> Ok a | _ \<Rightarrow> Panic)"

fun run_all :: "unit res list \<Rightarrow> unit res" where
  "run_all [] = Ok ()"
| "run_all (t # ts) = bind_res t (\<lambda>_. run_all ts)"

lemma assert_all_Ok [simp]: "assert_all bs = Ok () \<longleftrightarrow> (\<forall>b\<in>set bs. b)"
  by (induction bs) auto

lemma run_all_Ok [simp]: "run_all ts = Ok () \<longleftrightarrow> (\<forall>t\<in>set ts. t = Ok ())"
  by (induction ts) (auto simp: bind_res_eq_Ok)

lemma unwrap_simps [simp]: "unwrap (Ok a) = Ok a" "unwrap (Err e) = Panic" "unwrap Panic = Panic"
  by (simp_all add: unwrap_def)

lemma unwrap_eq_Ok: "unwrap r = Ok a \<longleftrightarrow> r = Ok a"
  by (cases r) simp_all

end
