(* ===== verification/X86Tests.thy ===== *)
theory X86Tests
  imports TestKit X86Vas
begin

text \<open>The unit tests of \<^verbatim>\<open>src/src/arch/x86_64/entry.rs\<close> and \<^verbatim>\<open>vas.rs\<close>.\<close>

section \<open>Entries\<close>

definition x86_test_leaf_4k_round_trip :: "unit res" where
  "x86_test_leaf_4k_round_trip =
     (let flags = x86_flags_new (af_union AF_READ AF_WRITE);
          pte = x86_new_leaf 0x1000 flags Size4K;
          decoded = x86_flags_from_bits pte in
      assert_all [x86_is_present pte, is_leaf_at X86Pte pte 1, \<not> is_leaf_at X86Pte pte 2,
        x86_pte_paddr pte = 0x1000,
        af_contains (x86_access decoded) AF_READ, af_contains (x86_access decoded) AF_WRITE,
        \<not> af_contains (x86_access decoded) AF_EXECUTE, x86_cache decoded = Writeback])"

definition x86_test_flags_new_normalizes_read :: "unit res" where
  "x86_test_flags_new_normalizes_read =
     (let flags = x86_flags_new AF_WRITE in
      assert_all [af_contains (x86_access flags) AF_READ, af_contains (x86_access flags) AF_WRITE])"

definition x86_test_leaf_2m_marks_huge :: "unit res" where
  "x86_test_leaf_2m_marks_huge =
     (let flags = x86_flags_new AF_READ;
          pte = x86_new_leaf 0x200000 flags Size2M in
      assert_all [is_leaf_at X86Pte pte 2, x86_is_present pte])"

definition x86_test_table_entry_is_not_leaf :: "unit res" where
  "x86_test_table_entry_is_not_leaf =
     (let pte = x86_new_table 0x4000 2 in
      assert_all [x86_is_present pte, \<not> is_leaf_at X86Pte pte 2, x86_pte_paddr pte = 0x4000])"

definition x86_test_uncached_sets_nocache_bit :: "unit res" where
  "x86_test_uncached_sets_nocache_bit =
     (let flags = x86_with_cache (x86_flags_new AF_READ) Uncached;
          pte = x86_new_leaf 0x1000 flags Size4K;
          decoded = x86_flags_from_bits pte in
      assert_all [pte AND (X86_NO_CACHE OR X86_WRITE_THROUGH) = X86_NO_CACHE OR X86_WRITE_THROUGH,
        x86_cache decoded = Uncached])"

definition x86_test_writecombine_uses_pat_wc_slot :: "unit res" where
  "x86_test_writecombine_uses_pat_wc_slot =
     (let flags = x86_with_cache (x86_flags_new AF_READ) WriteCombine;
          pte = x86_new_leaf 0x1000 flags Size4K;
          decoded = x86_flags_from_bits pte in
      assert_all [pte AND (X86_NO_CACHE OR X86_WRITE_THROUGH) = X86_NO_CACHE,
        x86_cache decoded = WriteCombine])"

definition x86_test_writecombine_huge_uses_same_low_pat_slot :: "unit res" where
  "x86_test_writecombine_huge_uses_same_low_pat_slot =
     (let flags = x86_with_cache (x86_flags_new AF_READ) WriteCombine;
          pte = x86_new_leaf 0x200000 flags Size2M;
          decoded = x86_flags_from_bits pte in
      assert_all [pte AND X86_HUGE_PAGE = X86_HUGE_PAGE,
        pte AND (X86_NO_CACHE OR X86_WRITE_THROUGH) = X86_NO_CACHE,
        x86_cache decoded = WriteCombine])"

definition x86_test_pat_msr_value_matches_cache_policy_indices :: "unit res" where
  "x86_test_pat_msr_value_matches_cache_policy_indices =
     (let entry = (\<lambda>index :: u8. drop_bit (unat (index * 8)) X86_PAT_MSR_VALUE AND 0xff) in
      assert_all [entry X86_PAT_WRITEBACK_INDEX = X86_PAT_TYPE_WB,
        entry X86_PAT_WRITE_THROUGH_INDEX = X86_PAT_TYPE_WT,
        entry X86_PAT_WRITE_COMBINING_INDEX = X86_PAT_TYPE_WC,
        entry X86_PAT_UNCACHED_INDEX = X86_PAT_TYPE_UC])"

definition x86_test_attrs_round_trip_cache_dimension :: "unit res" where
  "x86_test_attrs_round_trip_cache_dimension =
     (let attrs = ma_with_coherency (ma_with_shareability (ma_with_cache ma_writeback WriteThrough) System) Coherent;
          flags = x86_with_attrs (x86_flags_new AF_READ) attrs;
          pte = x86_new_leaf 0x1000 flags Size4K;
          decoded = x86_flags_from_bits pte in
      assert_all [x86_cache decoded = WriteThrough,
        ma_shareability (x86_attrs decoded) = Inner, ma_coherency (x86_attrs decoded) = Coherent])"

section \<open>Metadata\<close>

definition x86_test_meta_level_shifts :: "unit res" where
  "x86_test_meta_level_shifts =
     assert_all [level_shift X86Meta48 1 = 12, level_shift X86Meta48 2 = 21, level_shift X86Meta48 3 = 30,
       level_shift X86Meta48 4 = 39, level_shift X86Meta57 5 = 48]"

definition x86_test_meta_level_supports_leaf :: "unit res" where
  "x86_test_meta_level_supports_leaf =
     assert_all [level_supports_leaf X86Meta48 1 Size4K, level_supports_leaf X86Meta48 2 Size2M,
       level_supports_leaf X86Meta48 3 Size1G, \<not> level_supports_leaf X86Meta48 2 Size4K,
       \<not> level_supports_leaf X86Meta48 4 Size1G, \<not> level_supports_leaf X86Meta57 4 Size512G,
       \<not> level_supports_leaf X86Meta57 5 Size512G]"

definition x86_test_meta_4l_accepts_canonical_high_half :: "unit res" where
  "x86_test_meta_4l_accepts_canonical_high_half =
     assert_all [vaddr_is_valid X86Meta48 0xffff800000000000, vaddr_is_valid X86Meta48 0x00007fffffffffff,
       \<not> vaddr_is_valid X86Meta48 0x0000800000000000, \<not> vaddr_is_valid X86Meta48 0xffff7fffffffffff]"

definition x86_test_meta_5l_accepts_57_bit_canonical_halves :: "unit res" where
  "x86_test_meta_5l_accepts_57_bit_canonical_halves =
     assert_all [LEVELS X86Meta57 = 5, VA_MAX_BITS X86Meta57 = 57,
       vaddr_is_valid X86Meta57 0x00ffffffffffffff, vaddr_is_valid X86Meta57 0xff00000000000000,
       \<not> vaddr_is_valid X86Meta57 0x0100000000000000, \<not> vaddr_is_valid X86Meta57 0xfeffffffffffffff]"

definition x86_entry_tests :: "unit res list" where
  "x86_entry_tests =
     [x86_test_leaf_4k_round_trip, x86_test_flags_new_normalizes_read, x86_test_leaf_2m_marks_huge,
      x86_test_table_entry_is_not_leaf, x86_test_uncached_sets_nocache_bit,
      x86_test_writecombine_uses_pat_wc_slot, x86_test_writecombine_huge_uses_same_low_pat_slot,
      x86_test_pat_msr_value_matches_cache_policy_indices, x86_test_attrs_round_trip_cache_dimension,
      x86_test_meta_level_shifts, x86_test_meta_level_supports_leaf,
      x86_test_meta_4l_accepts_canonical_high_half, x86_test_meta_5l_accepts_57_bit_canonical_halves]"

lemma x86_entry_tests_pass: "run_all x86_entry_tests = Ok ()"
  by code_simp

section \<open>Address spaces\<close>

text \<open>
  The values of the crate \<^verbatim>\<open>x86_64\<close> that the tests name (\<^verbatim>\<open>Pcid::new(7)\<close>, the flag constants) are arguments.
\<close>

definition x86_test_install_validates_cr3_root_alignment :: "addr_lib \<Rightarrow> x86_lib \<Rightarrow> unit res" where
  "x86_test_install_validates_cr3_root_alignment L X =
     (let activation = X86PagingActivation L X; controls = x86_controls_legacy 0 in
      bind_res (assert_all [install activation 0x1234 controls = Err NotAligned]) (\<lambda>_.
      bind_res (unwrap (install activation 0x4000 controls)) (\<lambda>token.
      assert_all [xt_root token = 0x4000, xc_cr3 (xt_controls token) = Cr3ModeFlags 0])))"

definition x86_test_pcid_mode_is_carried_into_installed_tokens :: "addr_lib \<Rightarrow> x86_lib \<Rightarrow> pcid \<Rightarrow> unit res" where
  "x86_test_pcid_mode_is_carried_into_installed_tokens L X pcid7 =
     (let activation = X86PagingActivation L X; controls = x86_controls_pcid pcid7 True in
      bind_res (unwrap (install activation 0x8000 controls)) (\<lambda>token.
      assert_all [xc_cr3 (xt_controls token) = Cr3ModePcid pcid7 True]))"

definition x86_test_activation_carries_cr0_and_cr4_controls :: "addr_lib \<Rightarrow> x86_lib \<Rightarrow> u64 \<Rightarrow> u64 \<Rightarrow> u64 \<Rightarrow> unit res" where
  "x86_test_activation_carries_cr0_and_cr4_controls L X pae paging write_protect =
     (let controls = x86_with_cr0 (x86_with_cr4 (x86_controls_legacy 0) pae) (paging OR write_protect);
          activation = X86PagingActivation L X in
      bind_res (unwrap (install activation 0xc000 controls)) (\<lambda>token.
      assert_all [xt_controls token = controls, xc_cr4 (xt_controls token) = Some pae,
        xc_cr0 (xt_controls token) = Some (paging OR write_protect)]))"

definition x86_test_install_accepts_per_token_controls :: "addr_lib \<Rightarrow> x86_lib \<Rightarrow> pcid \<Rightarrow> unit res" where
  "x86_test_install_accepts_per_token_controls L X pcid9 =
     (let activation = X86PagingActivation L X; controls = x86_controls_pcid pcid9 False in
      bind_res (unwrap (install activation 0x10000 controls)) (\<lambda>token.
      assert_all [xt_controls token = controls]))"

definition x86_vas_tests :: "addr_lib \<Rightarrow> x86_lib \<Rightarrow> pcid \<Rightarrow> pcid \<Rightarrow> u64 \<Rightarrow> u64 \<Rightarrow> u64 \<Rightarrow> unit res list" where
  "x86_vas_tests L X pcid7 pcid9 pae paging write_protect =
     [x86_test_install_validates_cr3_root_alignment L X,
      x86_test_pcid_mode_is_carried_into_installed_tokens L X pcid7,
      x86_test_activation_carries_cr0_and_cr4_controls L X pae paging write_protect,
      x86_test_install_accepts_per_token_controls L X pcid9]"

lemma x86_install_small:
  assumes "addr_lib_ok L" "x86_addrs_ok X" "root AND mask 12 = 0" "root < push_bit 52 1"
  shows "x86_install L X root c = Ok \<lparr>xt_root = root, xt_controls = c\<rparr>"
proof -
  have "\<forall>n\<ge>52. \<not> bit root n"
    using assms(4) word_less_push_bit [of 52 root] by (simp del: push_bit_of_1)
  then show ?thesis
    using assms(3) by (simp add: x86_install_def frame_from_root_iff [OF assms(1,2)])
qed

lemma x86_vas_tests_pass:
  assumes "addr_lib_ok L" "x86_addrs_ok X"
  shows "run_all (x86_vas_tests L X pcid7 pcid9 pae paging write_protect) = Ok ()"
proof -
  have "x86_install L X 0x1234 (x86_controls_legacy 0) = Err NotAligned"
    by (simp add: x86_install_def frame_from_root_iff [OF assms] mask_numeral)
  then show ?thesis
    by (simp add: x86_vas_tests_def X86PagingActivation_def x86_install_small [OF assms] mask_numeral
        x86_test_install_validates_cr3_root_alignment_def x86_test_pcid_mode_is_carried_into_installed_tokens_def
        x86_test_activation_carries_cr0_and_cr4_controls_def x86_test_install_accepts_per_token_controls_def
        x86_controls_legacy_def x86_controls_pcid_def x86_controls_new_def x86_with_cr0_def x86_with_cr4_def)
qed

end
