(* ===== verification/A64Rv64Tests.thy ===== *)
theory A64Rv64Tests
  imports TestKit A64Walker Rv64Walker Mmio
begin

text \<open>
  The unit tests of the \<^verbatim>\<open>entry.rs\<close> of AArch64 and RISC-V, of \<^verbatim>\<open>mapping.rs\<close> and of \<^verbatim>\<open>paging.rs\<close>.
\<close>

section \<open>AArch64 entries\<close>

definition a64_test_leaf_4k_round_trip :: "tte_family \<Rightarrow> unit res" where
  "a64_test_leaf_4k_round_trip F =
     (let P = A64Pte4K48 F;
          flags = a64_with_cache (a64_flags_new (af_union AF_READ AF_WRITE)) WriteThrough;
          pte = new_leaf P 0x4000 flags Size4K in
      assert_all [is_present P pte, entry_kind P pte 1 = Leaf, pte_paddr P pte = 0x4000,
        af_contains (a64_access (pte_flags P pte)) AF_WRITE, a64_cache (pte_flags P pte) = WriteThrough])"

definition a64_test_block_and_table_discriminate_by_level :: "tte_family \<Rightarrow> unit res" where
  "a64_test_block_and_table_discriminate_by_level F =
     (let P = A64Pte4K48 F;
          block = new_leaf P 0x200000 (a64_flags_new AF_READ) Size2M;
          table = new_table P 0x8000 3 in
      assert_all [entry_kind P block 2 = Leaf, entry_kind P table 3 = Table])"

text \<open>The default entry of every format.\<close>

definition a64_pte_default :: u64 where
  "a64_pte_default = 0"

definition a64_test_invalid_entry_is_invalid_kind :: "tte_family \<Rightarrow> unit res" where
  "a64_test_invalid_entry_is_invalid_kind F =
     assert_all [entry_kind (A64Pte4K48 F) a64_pte_default 1 = Invalid]"

definition a64_test_canonical_va_accepts_configured_halves :: "unit res" where
  "a64_test_canonical_va_accepts_configured_halves =
     assert_all [vaddr_is_valid A64Meta4K48 0x00007ffffffff000, vaddr_is_valid A64Meta4K48 0xffff800000000000,
       \<not> vaddr_is_valid A64Meta4K48 0x0001000000000000,
       vaddr_is_valid A64Meta4K52 0x0007fffffffff000, vaddr_is_valid A64Meta4K52 0xfff8000000000000,
       \<not> vaddr_is_valid A64Meta4K52 0x0010000000000000]"

definition a64_test_metadata_covers_arm_granule_width_matrix :: "unit res" where
  "a64_test_metadata_covers_arm_granule_width_matrix =
     assert_all [LEVELS A64Meta4K48 = 4, LEVELS A64Meta4K52 = 5, BASE_PAGE_SIZE A64Meta16K48 = Size16K,
       level_index_bits A64Meta16K48 4 = 1, level_index_bits A64Meta16K52 4 = 5,
       BASE_PAGE_SIZE A64Meta64K48 = Size64K, level_index_bits A64Meta64K48 3 = 6,
       level_index_bits A64Meta64K52 3 = 10]"

definition a64_test_huge_sizes_match_non_4k_granule_levels :: "unit res" where
  "a64_test_huge_sizes_match_non_4k_granule_levels =
     assert_all [level_supports_leaf A64Meta16K48 2 Size32M, level_supports_leaf A64Meta16K48 3 Size64G,
       level_supports_leaf A64Meta64K48 2 Size512M, level_supports_leaf A64Meta64K48 3 Size4T]"

definition a64_test_mair_indices_are_stable :: "unit res" where
  "a64_test_mair_indices_are_stable =
     assert_all [cache_to_attr_index Writeback = 0, cache_to_attr_index Uncached = 1,
       cache_to_attr_index WriteCombine = 2, cache_to_attr_index WriteThrough = 3]"

definition a64_test_mair_value_matches_cache_policy_indices :: "unit res" where
  "a64_test_mair_value_matches_cache_policy_indices =
     (let attr = (\<lambda>index :: u64. drop_bit (unat (index * 8)) A64_MAIR_EL1_VALUE AND 0xff) in
      assert_all [attr A64_MAIR_WRITEBACK_INDEX = A64_MAIR_ATTR_WRITEBACK,
        attr A64_MAIR_DEVICE_INDEX = A64_MAIR_ATTR_DEVICE_NGNRNE,
        attr A64_MAIR_NORMAL_NC_INDEX = A64_MAIR_ATTR_NORMAL_NC,
        attr A64_MAIR_WRITETHROUGH_INDEX = A64_MAIR_ATTR_WRITETHROUGH])"

definition a64_entry_tests :: "tte_family \<Rightarrow> unit res list" where
  "a64_entry_tests F =
     [a64_test_leaf_4k_round_trip F, a64_test_block_and_table_discriminate_by_level F,
      a64_test_invalid_entry_is_invalid_kind F, a64_test_canonical_va_accepts_configured_halves,
      a64_test_metadata_covers_arm_granule_width_matrix, a64_test_huge_sizes_match_non_4k_granule_levels,
      a64_test_mair_indices_are_stable, a64_test_mair_value_matches_cache_policy_indices]"

lemma a64_ground_tests:
  "a64_test_canonical_va_accepts_configured_halves = Ok ()"
  "a64_test_metadata_covers_arm_granule_width_matrix = Ok ()"
  "a64_test_huge_sizes_match_non_4k_granule_levels = Ok ()"
  "a64_test_mair_indices_are_stable = Ok ()"
  "a64_test_mair_value_matches_cache_policy_indices = Ok ()"
  by code_simp+

lemma a64_entry_tests_pass:
  assumes "tte_ok (F Granule4KB OA48) 12 48"
  shows "run_all (a64_entry_tests F) = Ok ()"
proof -
  let ?T = "F Granule4KB OA48"
  let ?f = "a64_with_cache (a64_flags_new (af_union AF_READ AF_WRITE)) WriteThrough"
  note fields = a64_new_leaf_fields [OF assms]
  have "(0x4000 :: u64) < push_bit 48 1" by simp
  then have small: "\<forall>k\<ge>48. \<not> bit (0x4000 :: u64) k" by (subst (asm) word_less_push_bit) simp_all
  have "tte_address ?T (a64_new_leaf ?T 0x4000 ?f Size4K) = 0x4000"
    using fields(9) [of "0x4000" ?f Size4K] small by (simp add: mask_numeral tte_view_simps)
  moreover have "af_contains (a64_access (a64_normal_flags ?f)) AF_WRITE" "a64_cache (a64_normal_flags ?f) = WriteThrough"
    by code_simp+
  ultimately have "a64_test_leaf_4k_round_trip F = Ok ()"
    using fields(1) [of "0x4000" ?f Size4K]
    by (simp add: a64_test_leaf_4k_round_trip_def A64Pte4K48_def A64PteFor_def a64_entry_kind_def
        a64_new_leaf_flags [OF assms] tte_view_simps)
  moreover have "a64_test_block_and_table_discriminate_by_level F = Ok ()"
    using fields(1) [of "0x200000" "a64_flags_new AF_READ" Size2M] fields(8) [of Size2M "0x200000" "a64_flags_new AF_READ"] assms
    by (simp add: a64_test_block_and_table_discriminate_by_level_def A64Pte4K48_def A64PteFor_def
        a64_entry_kind_def a64_new_table_def tte_view_simps tte_ok_def)
  moreover have "a64_test_invalid_entry_is_invalid_kind F = Ok ()"
    using assms by (simp add: a64_test_invalid_entry_is_invalid_kind_def A64Pte4K48_def A64PteFor_def
        a64_entry_kind_def a64_pte_default_def tte_ok_def)
  ultimately show ?thesis by (simp add: a64_entry_tests_def a64_ground_tests)
qed

section \<open>RISC-V entries\<close>

definition rv64_test_leaf_round_trip :: "unit res" where
  "rv64_test_leaf_round_trip =
     (let P = Rv64Pte;
          flags = rv64_with_cache (rv64_flags_new (af_union (af_union AF_READ AF_WRITE) AF_USER)) WriteCombine;
          pte = new_leaf P 0x4000 flags Size4K in
      assert_all [is_present P pte, entry_kind P pte 1 = Leaf, pte_paddr P pte = 0x4000,
        af_contains (rv_access (pte_flags P pte)) AF_READ, af_contains (rv_access (pte_flags P pte)) AF_WRITE,
        rv64_cache (pte_flags P pte) = Writeback, pte AND RV64_PBMT_MASK = 0])"

definition rv64_test_svpbmt_leaf_round_trip_cache_policy :: "unit res" where
  "rv64_test_svpbmt_leaf_round_trip_cache_policy =
     (let P = Rv64SvpbmtPte;
          flags = rv64_with_cache (rv64_flags_new AF_READ) WriteCombine;
          pte = new_leaf P 0x8000 flags Size4K;
          flags' = rv64_with_cache (rv64_flags_new AF_READ) Uncached;
          pte' = new_leaf P 0xc000 flags' Size4K in
      assert_all [drop_bit 61 (pte AND RV64_PBMT_MASK) = RV64_PBMT_NC, rv64_cache (pte_flags P pte) = WriteCombine,
        drop_bit 61 (pte' AND RV64_PBMT_MASK) = RV64_PBMT_IO, rv64_cache (pte_flags P pte') = Uncached])"

definition rv64_test_base_pte_rejects_svpbmt_bits :: "unit res" where
  "rv64_test_base_pte_rejects_svpbmt_bits =
     (let pte = pte_from_bits Rv64Pte (RV_VALID OR RV_READ OR RV_ACCESSED OR push_bit 61 RV64_PBMT_NC) in
      assert_all [entry_kind Rv64Pte pte 1 = Invalid])"

definition rv64_test_write_without_read_is_invalid :: "unit res" where
  "rv64_test_write_without_read_is_invalid =
     (let pte = pte_from_bits Rv64Pte (RV_VALID OR RV_WRITE OR RV_ACCESSED OR push_bit 7 1) in
      assert_all [entry_kind Rv64Pte pte 1 = Invalid])"

definition rv64_test_table_and_leaf_discriminate_by_rwx :: "unit res" where
  "rv64_test_table_and_leaf_discriminate_by_rwx =
     (let table = new_table Rv64Pte 0x4000 3;
          leaf = new_leaf Rv64Pte 0x200000 (rv64_flags_new AF_READ) Size2M in
      assert_all [entry_kind Rv64Pte table 3 = Table, entry_kind Rv64Pte table 1 = Invalid,
        entry_kind Rv64Pte leaf 2 = Leaf])"

definition rv64_test_metadata_covers_sv_widths :: "unit res" where
  "rv64_test_metadata_covers_sv_widths =
     assert_all [LEVELS Rv64Meta39 = 3, LEVELS Rv64Meta48 = 4, LEVELS Rv64Meta57 = 5,
       level_supports_leaf Rv64Meta39 3 Size1G, \<not> level_supports_leaf Rv64Meta39 4 Size512G,
       level_supports_leaf Rv64Meta48 4 Size512G, level_supports_leaf Rv64Meta57 4 Size512G]"

definition rv64_test_canonical_va_accepts_configured_halves :: "unit res" where
  "rv64_test_canonical_va_accepts_configured_halves =
     assert_all [vaddr_is_valid Rv64Meta39 0x0000003ffffff000, vaddr_is_valid Rv64Meta39 0xffffffffc0000000,
       \<not> vaddr_is_valid Rv64Meta39 0x0000004000000000,
       vaddr_is_valid Rv64Meta57 0x00fffffffffff000, vaddr_is_valid Rv64Meta57 0xff00000000000000,
       \<not> vaddr_is_valid Rv64Meta57 0x0100000000000000]"

definition rv64_entry_tests :: "unit res list" where
  "rv64_entry_tests =
     [rv64_test_leaf_round_trip, rv64_test_svpbmt_leaf_round_trip_cache_policy,
      rv64_test_base_pte_rejects_svpbmt_bits, rv64_test_write_without_read_is_invalid,
      rv64_test_table_and_leaf_discriminate_by_rwx, rv64_test_metadata_covers_sv_widths,
      rv64_test_canonical_va_accepts_configured_halves]"

lemma rv64_entry_tests_pass: "run_all rv64_entry_tests = Ok ()"
  by code_simp

section \<open>Mappings\<close>

text \<open>The address of the array of eight bytes is an argument; its end is computed by an addition.\<close>

definition mapping_test_typed_access_may_end_at_range_boundary :: "addr_lib \<Rightarrow> usize \<Rightarrow> unit res" where
  "mapping_test_typed_access_may_end_at_range_boundary L start =
     bind_res (case checked_add start 8 of None \<Rightarrow> Panic | Some e \<Rightarrow> Ok e) (\<lambda>fin.
     let mapping = mapping_new \<lparr>rng_start = start, rng_end = fin\<rparr> 0 () in
     assert_all [(case as_ptr_of L 4 mapping 4 of Ok _ \<Rightarrow> True | _ \<Rightarrow> False),
       (case as_ptr_of L 8 mapping 1 of Err _ \<Rightarrow> True | _ \<Rightarrow> False)])"

lemma mapping_test_passes:
  assumes "addr_lib_ok L" "unat start + 8 < 2 ^ 64"
  shows "mapping_test_typed_access_may_end_at_range_boundary L start = Ok ()"
proof -
  have sum: "unat (start + 8) = unat start + 8" "unat (start + 4) = unat start + 4"
    using assms(2) by (simp_all add: unat_word_ariths)
  have "start \<le> start + 8" unfolding word_le_nat_alt sum by simp
  then have "range_size L \<lparr>rng_start = start, rng_end = start + 8\<rparr> = 8"
    by (simp add: addr_size [OF assms(1)])
  then show ?thesis
    using assms(2) by (simp add: mapping_test_typed_access_may_end_at_range_boundary_def as_ptr_of_def
        offset_with_def mapping_start_def mapping_new_def checked_add_def addr_checked_add [OF assms(1)] Let_def)
qed

section \<open>Activation\<close>

record mock_token =
  mt_root :: paddr

definition MockActivation :: "(mock_token, unit, 'c) activation_impl" where
  "MockActivation =
     \<lparr>token_root = mt_root, install = (\<lambda>root _. Ok \<lparr>mt_root = root\<rparr>),
      activate = (\<lambda>_ c. (Ok (), c)), current = default_current, uninstall = default_uninstall\<rparr>"

definition paging_test_activation_trait_installs_tokens_with_portable_root :: "'c \<Rightarrow> unit res" where
  "paging_test_activation_trait_installs_tokens_with_portable_root c =
     (let activation = MockActivation; root = 0x2000 in
      bind_res (unwrap (install activation root ())) (\<lambda>token.
      bind_res (assert_all [token_root activation token = root]) (\<lambda>_.
      bind_res (unwrap (fst (current activation c))) (\<lambda>observed.
      bind_res (assert_all [observed = None]) (\<lambda>_.
      bind_res (unwrap (fst (activate activation token c))) (\<lambda>_.
      unwrap (uninstall activation token)))))))"

lemma paging_test_passes: "paging_test_activation_trait_installs_tokens_with_portable_root c = Ok ()"
  by (simp add: paging_test_activation_trait_installs_tokens_with_portable_root_def MockActivation_def
      default_current_def default_uninstall_def)

end
