(* ===== verification/MockHost.thy ===== *)
theory MockHost
  imports RefHost Canonical HostSpec
begin

text \<open>
  The host of the walker's unit tests (the test module of \<^verbatim>\<open>src/src/walker.rs\<close>): a simple entry format,
  two metadata types, an allocator over the heap of the process and a TLB that counts. The heap
  (\<^verbatim>\<open>alloc_zeroed\<close>) is an argument, a function from the blocks in use and a layout to an address;
  what a heap does is the predicate \<open>heap_ok\<close>. Entry, metadata and allocator meet the contracts of the
  walker, so its theorems apply to the tests.
\<close>

section \<open>Entries\<close>

definition MOCK_PRESENT :: u64 where "MOCK_PRESENT = push_bit 0 1"
definition MOCK_LEAF :: u64 where "MOCK_LEAF = push_bit 1 1"
definition MOCK_INVALID :: u64 where "MOCK_INVALID = push_bit 63 1"
definition MOCK_PADDR_MASK :: u64 where "MOCK_PADDR_MASK = 0x000ffffffffff000"

record mock_flags =
  mk_access :: access_flags
  mk_cache :: cache_policy

definition mock_new_leaf :: "paddr \<Rightarrow> mock_flags \<Rightarrow> page_size \<Rightarrow> u64" where
  "mock_new_leaf p f sz =
     (let b = p AND MOCK_PADDR_MASK;
          b = b OR (MOCK_PRESENT OR MOCK_LEAF);
          b = b OR push_bit 2 (ucast (af_bits (mk_access f)) AND 0xf)
      in b OR push_bit 6 (of_nat (cache_as_usize (mk_cache f)) AND 0x3))"

definition mock_new_table :: "paddr \<Rightarrow> nat \<Rightarrow> u64" where
  "mock_new_table p level = (p AND MOCK_PADDR_MASK) OR MOCK_PRESENT"

definition mock_paddr :: "u64 \<Rightarrow> paddr" where
  "mock_paddr e = e AND MOCK_PADDR_MASK"

definition mock_pte_flags :: "u64 \<Rightarrow> mock_flags" where
  "mock_pte_flags e =
     (let access_bits = (ucast (drop_bit 2 e AND 0xf) :: u8);
          cache_bits = (ucast (drop_bit 6 e AND 0x3) :: u8);
          access = af_empty;
          access = (if access_bits AND 0b0001 \<noteq> 0 then af_union access AF_READ else access);
          access = (if access_bits AND 0b0010 \<noteq> 0 then af_union access AF_WRITE else access);
          access = (if access_bits AND 0b0100 \<noteq> 0 then af_union access AF_EXECUTE else access);
          access = (if access_bits AND 0b1000 \<noteq> 0 then af_union access AF_USER else access);
          cache = (if cache_bits = 0 then Writeback
                   else if cache_bits = 1 then Uncached
                   else if cache_bits = 2 then WriteCombine
                   else WriteThrough)
      in \<lparr>mk_access = access, mk_cache = cache\<rparr>)"

definition mock_is_present :: "u64 \<Rightarrow> bool" where
  "mock_is_present e \<longleftrightarrow> e AND MOCK_PRESENT \<noteq> 0"

definition mock_entry_kind :: "u64 \<Rightarrow> nat \<Rightarrow> pte_kind" where
  "mock_entry_kind e level =
     (if e AND MOCK_INVALID \<noteq> 0 then Invalid
      else if level = 1 \<or> e AND MOCK_LEAF \<noteq> 0 then Leaf
      else Table)"

definition mock_clear :: "u64 \<Rightarrow> u64" where
  "mock_clear e = 0"

definition mock_from_bits :: "u64 \<Rightarrow> u64" where
  "mock_from_bits b = b"

definition MockPte :: "mock_flags pte_impl" where
  "MockPte =
     \<lparr>new_leaf = mock_new_leaf, new_table = mock_new_table, pte_paddr = mock_paddr,
      pte_flags = mock_pte_flags, is_present = mock_is_present, entry_kind = mock_entry_kind,
      pte_clear = mock_clear, pte_from_bits = mock_from_bits\<rparr>"

section \<open>Metadata\<close>

definition mock_level_shift :: "nat \<Rightarrow> nat" where
  "mock_level_shift level = 12 + (level - 1) * 9"

definition mock_level_supports_leaf :: "nat \<Rightarrow> page_size \<Rightarrow> bool" where
  "mock_level_supports_leaf level sz \<longleftrightarrow>
     level = 1 \<and> sz = Size4K \<or> level = 2 \<and> sz = Size2M \<or> level = 3 \<and> sz = Size1G"

definition MockMeta :: meta_impl where
  "MockMeta =
     \<lparr>LEVELS = 4, PA_MAX_BITS = 52, VA_MAX_BITS = 48, INDEX_BITS = 9,
      BASE_PAGE_SIZE = Size4K, TABLE_FRAME_SIZE = Size4K, ENTRIES_PER_TABLE = 2 ^ 9,
      level_shift = mock_level_shift, level_index_bits = (\<lambda>_. 9),
      level_supports_leaf = mock_level_supports_leaf,
      leaf_size_at_level = default_leaf_size_at_level mock_level_shift,
      size_to_level = default_size_to_level 4 mock_level_supports_leaf,
      vaddr_is_valid = default_vaddr_is_valid 48,
      paddr_is_valid = default_paddr_is_valid 52\<rparr>"

definition wide_level_shift :: "nat \<Rightarrow> nat" where
  "wide_level_shift level = 14 + (level - 1) * 11"

definition wide_level_supports_leaf :: "nat \<Rightarrow> page_size \<Rightarrow> bool" where
  "wide_level_supports_leaf level sz \<longleftrightarrow> level = 1 \<and> sz = Size16K"

definition WideTableMeta :: meta_impl where
  "WideTableMeta =
     \<lparr>LEVELS = 2, PA_MAX_BITS = 52, VA_MAX_BITS = 48, INDEX_BITS = 11,
      BASE_PAGE_SIZE = Size16K, TABLE_FRAME_SIZE = Size16K, ENTRIES_PER_TABLE = 2 ^ 11,
      level_shift = wide_level_shift, level_index_bits = (\<lambda>_. 11),
      level_supports_leaf = wide_level_supports_leaf,
      leaf_size_at_level = default_leaf_size_at_level wide_level_shift,
      size_to_level = default_size_to_level 2 wide_level_supports_leaf,
      vaddr_is_valid = default_vaddr_is_valid 48,
      paddr_is_valid = default_paddr_is_valid 52\<rparr>"

section \<open>The allocator\<close>

text \<open>
  \<^verbatim>\<open>std::alloc::Layout\<close>: a size and an alignment, a power of two; the size rounded up to the alignment
  must fit an \<^verbatim>\<open>isize\<close>. The static hash map of blocks is an association list; the pointer of a block is
  its key.
\<close>

type_synonym layout = "usize \<times> usize"

type_synonym frame_store = "(usize \<times> layout) list"

type_synonym os_heap = "frame_store \<Rightarrow> layout \<Rightarrow> usize"

definition layout_from_size_align :: "usize \<Rightarrow> usize \<Rightarrow> layout option" where
  "layout_from_size_align sz align =
     (if align \<noteq> 0 \<and> align AND (align - 1) = 0 \<and> unat sz + (unat align - 1) < 2 ^ 63
      then Some (sz, align) else None)"

record mock_heap =
  frame_store :: frame_store
  live_counter :: usize

definition store_insert :: "usize \<Rightarrow> layout \<Rightarrow> frame_store \<Rightarrow> frame_store" where
  "store_insert key block st = (key, block) # filter (\<lambda>b. fst b \<noteq> key) st"

definition store_remove :: "usize \<Rightarrow> frame_store \<Rightarrow> frame_store" where
  "store_remove key st = filter (\<lambda>b. fst b \<noteq> key) st"

definition zero_block :: "usize \<Rightarrow> usize \<Rightarrow> memory \<Rightarrow> memory" where
  "zero_block p n m = (\<lambda>a. if unat p \<le> unat a \<and> unat a < unat p + unat n then 0 else m a)"

definition reset_alloc :: "mock_heap \<Rightarrow> mock_heap" where
  "reset_alloc s = s\<lparr>frame_store := [], live_counter := 0\<rparr>"

definition mock_allocate :: "addr_lib \<Rightarrow> os_heap \<Rightarrow> usize \<Rightarrow> page_size \<Rightarrow> mock_heap \<times> memory \<Rightarrow>
    addr_range res \<times> mock_heap \<times> memory" where
  "mock_allocate L alloc_zeroed sz align sm =
     (case sm of (s, m) \<Rightarrow>
      if sz = 0 \<or> sz AND 0xfff \<noteq> 0 then (Err NotAligned, s, m)
      else
        (case layout_from_size_align sz (bytes align) of
           None \<Rightarrow> (Err NotAligned, s, m)
         | Some layout \<Rightarrow>
             (let raw = alloc_zeroed (frame_store s) layout in
              if raw = 0 then (Err OutOfMemory, s, m)
              else (range_from_start_size L raw sz,
                    s\<lparr>frame_store := store_insert raw layout (frame_store s),
                      live_counter := live_counter s + 1\<rparr>,
                    zero_block raw sz m))))"

definition mock_deallocate :: "addr_lib \<Rightarrow> addr_range \<Rightarrow> mock_heap \<times> memory \<Rightarrow>
    unit res \<times> mock_heap \<times> memory" where
  "mock_deallocate L r sm =
     (case sm of (s, m) \<Rightarrow>
      (case map_of (frame_store s) (rng_start r) of
         None \<Rightarrow> (Err AddressOutOfRange, s, m)
       | Some layout \<Rightarrow>
           (let s' = s\<lparr>frame_store := store_remove (rng_start r) (frame_store s)\<rparr> in
            if fst layout \<noteq> range_size L r
            then (Err NotAligned,
                  s'\<lparr>frame_store := store_insert (rng_start r) layout (frame_store s')\<rparr>, m)
            else (Ok (), s'\<lparr>live_counter := live_counter s' - 1\<rparr>, m))))"

definition MockAlloc :: "addr_lib \<Rightarrow> os_heap \<Rightarrow> mock_heap alloc_impl" where
  "MockAlloc L alloc_zeroed =
     \<lparr>allocate = mock_allocate L alloc_zeroed, deallocate = mock_deallocate L, phys_to_virt = (\<lambda>p. p)\<rparr>"

section \<open>The recording TLB\<close>

text \<open>The counters of the TLB are statics; they are functions of the log of its calls.\<close>

datatype rec_call = LocalFlush vaddr | FullFlush | RangeFlush vaddr usize

definition RecordingTlb :: "rec_call tlb_impl" where
  "RecordingTlb =
     \<lparr>flush_tlb_local = (\<lambda>v. [LocalFlush v]),
      flush_tlb_all_local = [FullFlush],
      flush_tlb_range_local = (\<lambda>start _ count_pages. [RangeFlush start count_pages]),
      prefer_full_flush = (\<lambda>_. False)\<rparr>"

definition mock_env :: "addr_lib \<Rightarrow> os_heap \<Rightarrow> meta_impl \<Rightarrow> 'h tlb_impl \<Rightarrow> (mock_flags, mock_heap, 'h) env" where
  "mock_env L alloc_zeroed M T =
     \<lparr>e_meta = M, e_pte = MockPte, e_alloc = MockAlloc L alloc_zeroed, e_tlb = T, e_addr = L\<rparr>"

lemma mock_env_fields [simp]:
  "e_meta (mock_env L h M T) = M" "e_pte (mock_env L h M T) = MockPte"
  "e_alloc (mock_env L h M T) = MockAlloc L h" "e_tlb (mock_env L h M T) = T" "e_addr (mock_env L h M T) = L"
  by (simp_all add: mock_env_def)

section \<open>Geometry\<close>

lemma mock_supports_shift: "mock_level_supports_leaf l sz \<Longrightarrow> mock_level_shift l = size_shift sz"
  by (auto simp: mock_level_supports_leaf_def mock_level_shift_def)

lemma mock_shift_Suc [simp]: "mock_level_shift (Suc l) = 12 + l * 9"
  by (simp add: mock_level_shift_def)

lemma mock_finer:
  assumes "1 \<le> l" "l < 4" "mock_level_shift l = size_shift sz"
  shows "mock_level_supports_leaf l sz"
proof -
  have "l = 1 \<or> l = 2 \<or> l = 3" using assms(1,2) by auto
  then show ?thesis
    using assms(3) by (elim disjE; cases sz; simp add: mock_level_shift_def mock_level_supports_leaf_def)
qed

lemma mock_vaddr_bits: "default_vaddr_is_valid 48 v \<longleftrightarrow> (\<forall>n\<ge>48. \<not> bit v n)"
  by (simp add: default_vaddr_is_valid_def word_less_push_bit del: push_bit_of_1)

interpretation mock_meta: paging_geometry MockMeta
proof (unfold_locales, goal_cases)
  case (12 l sz)
  then show ?case by (simp add: MockMeta_def mock_supports_shift)
next
  case (13 sz t)
  then show ?case by (simp add: MockMeta_def default_size_to_level_Some)
next
  case (15 l sz)
  then show ?case using mock_finer [of l sz] by (simp add: MockMeta_def default_leaf_size_iff)
next
  case (19 v v' n)
  then show ?case by (auto simp: MockMeta_def mock_vaddr_bits)
next
  case (20 v v')
  then show ?case by (auto simp: MockMeta_def mock_vaddr_bits)
next
  case (21 l sz)
  then show ?case by (simp add: MockMeta_def default_size_to_level_exists)
qed (simp_all add: MockMeta_def MAX_LEVELS_def default_leaf_size_iff default_paddr_valid_bits mock_level_shift_def)

section \<open>The entry\<close>

lemma bit_mock_consts:
  "bit MOCK_PRESENT n \<longleftrightarrow> n = 0"
  "bit MOCK_LEAF n \<longleftrightarrow> n = 1"
  "bit MOCK_INVALID n \<longleftrightarrow> n = 63"
  unfolding MOCK_PRESENT_def MOCK_LEAF_def MOCK_INVALID_def bit_push_bit_one by auto

lemma bit_MOCK_PADDR_MASK: "bit MOCK_PADDR_MASK n \<longleftrightarrow> 12 \<le> n \<and> n < 52"
proof -
  have "MOCK_PADDR_MASK = push_bit 12 (mask 40)"
    by (simp add: MOCK_PADDR_MASK_def mask_numeral)
  show ?thesis
    unfolding \<open>MOCK_PADDR_MASK = _\<close> by (auto simp: bit_push_bit_iff bit_mask_word)
qed

lemma and_single_bit:
  "e AND MOCK_PRESENT \<noteq> 0 \<longleftrightarrow> bit e 0" "e AND MOCK_LEAF \<noteq> 0 \<longleftrightarrow> bit e 1"
  "e AND MOCK_INVALID \<noteq> 0 \<longleftrightarrow> bit e 63"
  unfolding MOCK_PRESENT_def MOCK_LEAF_def MOCK_INVALID_def by (rule and_bit_one)+

lemma bit_cache_field:
  "bit (push_bit 6 (of_nat (cache_as_usize c) AND 0x3 :: u64)) n \<longleftrightarrow>
     n = 6 \<and> odd (cache_as_usize c) \<or> n = 7 \<and> 2 \<le> cache_as_usize c"
proof -
  have "push_bit 6 (of_nat (cache_as_usize c) AND 0x3 :: u64) =
      (if odd (cache_as_usize c) then push_bit 6 1 else 0) OR (if 2 \<le> cache_as_usize c then push_bit 7 1 else 0)"
    by (cases c) simp_all
  then show ?thesis by (simp add: bit_or_iff bit_push_bit_one del: push_bit_of_1)
qed

lemma bit_mock_new_leaf:
  "bit (mock_new_leaf p f sz) n \<longleftrightarrow> 12 \<le> n \<and> n < 52 \<and> bit p n \<or> n = 0 \<or> n = 1 \<or>
     2 \<le> n \<and> n < 6 \<and> bit (af_bits (mk_access f)) (n - 2) \<or>
     n = 6 \<and> odd (cache_as_usize (mk_cache f)) \<or> n = 7 \<and> 2 \<le> cache_as_usize (mk_cache f)"
proof -
  have m: "(0xf :: u64) = mask 4" "(0x3 :: u64) = mask 2" by (simp_all add: mask_numeral)
  have a: "bit (push_bit 2 (ucast (af_bits (mk_access f)) AND 0xf :: u64)) n \<longleftrightarrow>
      2 \<le> n \<and> n < 6 \<and> bit (af_bits (mk_access f)) (n - 2)"
    unfolding m by (auto simp: bit_push_bit_iff bit_and_iff bit_mask_word bit_unsigned_iff)
  have c: "bit (push_bit 6 (of_nat (cache_as_usize (mk_cache f)) AND 0x3 :: u64)) n \<longleftrightarrow>
      n = 6 \<and> odd (cache_as_usize (mk_cache f)) \<or> n = 7 \<and> 2 \<le> cache_as_usize (mk_cache f)"
    by (rule bit_cache_field)
  show ?thesis
    unfolding mock_new_leaf_def Let_def bit_or_iff a c bit_and_iff bit_MOCK_PADDR_MASK bit_mock_consts by auto
qed

lemma mock_access_bits:
  "ucast (drop_bit 2 e AND 0xf :: u64) AND (push_bit k 1 :: u8) \<noteq> 0 \<longleftrightarrow> k < 4 \<and> bit e (k + 2)"
proof -
  have m: "(0xf :: u64) = mask 4" by (simp add: mask_numeral)
  show ?thesis
    unfolding and_bit_one m
    by (auto simp: bit_unsigned_iff bit_and_iff bit_mask_word bit_drop_bit_eq add.commute)
qed

lemma bit_mock_decoded_access:
  "bit (af_bits (mk_access (mock_pte_flags e))) n \<longleftrightarrow> n < 4 \<and> bit e (n + 2)"
proof -
  have a: "ucast (drop_bit 2 e AND 0xf :: u64) AND (0b0001 :: u8) \<noteq> 0 \<longleftrightarrow> bit e 2"
    "ucast (drop_bit 2 e AND 0xf :: u64) AND (0b0010 :: u8) \<noteq> 0 \<longleftrightarrow> bit e 3"
    "ucast (drop_bit 2 e AND 0xf :: u64) AND (0b0100 :: u8) \<noteq> 0 \<longleftrightarrow> bit e 4"
    "ucast (drop_bit 2 e AND 0xf :: u64) AND (0b1000 :: u8) \<noteq> 0 \<longleftrightarrow> bit e 5"
    using mock_access_bits [of e 0] mock_access_bits [of e 1] mock_access_bits [of e 2] mock_access_bits [of e 3]
    by (simp_all add: numeral_eq_Suc)
  have n: "n < 4 \<and> bit e (n + 2) \<longleftrightarrow> n = 0 \<and> bit e 2 \<or> n = 1 \<and> bit e 3 \<or> n = 2 \<and> bit e 4 \<or> n = 3 \<and> bit e 5"
    by (auto simp: numeral_eq_Suc less_Suc_eq)
  have e: "bit (af_bits af_empty) n = False" by (simp add: af_empty_def)
  show ?thesis
    unfolding mock_pte_flags_def Let_def mock_flags.select_convs a n
    by (auto simp: af_union_def bit_or_iff bit_af_consts e split: if_splits)
qed

lemma mock_cache_bits:
  "(ucast (drop_bit 6 e AND 0x3 :: u64) :: u8) = push_bit 0 (of_bool (bit e 6)) OR push_bit 1 (of_bool (bit e 7))"
proof (rule bit_word_eqI)
  fix n
  have m: "(0x3 :: u64) = mask 2" by (simp add: mask_numeral)
  have n: "n < 2 \<longleftrightarrow> n = 0 \<or> n = 1" for n :: nat by auto
  show "bit (ucast (drop_bit 6 e AND 0x3 :: u64) :: u8) n =
      bit (push_bit 0 (of_bool (bit e 6)) OR push_bit 1 (of_bool (bit e 7)) :: u8) n"
    unfolding m bit_unsigned_iff bit_and_iff bit_mask_word n bit_or_iff bit_push_bit_of_bool
    by (auto simp: bit_drop_bit_eq)
qed

lemma mock_decoded_cache:
  "mk_cache (mock_pte_flags e) =
     (if bit e 7 then (if bit e 6 then WriteThrough else WriteCombine)
      else if bit e 6 then Uncached else Writeback)"
  unfolding mock_pte_flags_def Let_def mock_flags.select_convs mock_cache_bits by simp

text \<open>The entry keeps four access bits.\<close>

definition mock_normal_flags :: "mock_flags \<Rightarrow> mock_flags" where
  "mock_normal_flags f = f\<lparr>mk_access := AccessFlags (af_bits (mk_access f) AND 0xf)\<rparr>"

lemma bit_mock_normal: "bit (af_bits (mk_access (mock_normal_flags f))) n \<longleftrightarrow> n < 4 \<and> bit (af_bits (mk_access f)) n"
proof -
  have m: "(0xf :: u8) = mask 4" by (simp add: mask_numeral)
  show ?thesis unfolding mock_normal_flags_def m by (auto simp: bit_and_iff bit_mask_iff)
qed

lemma mock_new_leaf_flags: "mock_pte_flags (mock_new_leaf p f sz) = mock_normal_flags f"
proof -
  have "mk_access (mock_pte_flags (mock_new_leaf p f sz)) = mk_access (mock_normal_flags f)"
    by (rule access_eqI) (auto simp: bit_mock_decoded_access bit_mock_normal bit_mock_new_leaf)
  moreover have "mk_cache (mock_pte_flags (mock_new_leaf p f sz)) = mk_cache (mock_normal_flags f)"
    unfolding mock_decoded_cache bit_mock_new_leaf mock_normal_flags_def
    by (cases "mk_cache f") simp_all
  ultimately show ?thesis by (simp add: mock_flags.equality)
qed

lemma mock_decoded_normal: "mock_normal_flags (mock_pte_flags e) = mock_pte_flags e"
proof -
  have "mk_access (mock_normal_flags (mock_pte_flags e)) = mk_access (mock_pte_flags e)"
    by (rule access_eqI) (auto simp: bit_mock_decoded_access bit_mock_normal)
  then show ?thesis by (simp add: mock_flags.equality mock_normal_flags_def)
qed

lemma mock_paddr_fits:
  assumes "is_aligned sz p" "default_paddr_is_valid 52 p" "bit p n"
  shows "12 \<le> n \<and> n < 52"
  using aligned_4k [OF assms(1)] assms(2,3) unfolding aligned_iff_bits
  by (auto simp: default_paddr_valid_bits) (meson not_le)+

lemma mock_present_bit: "mock_is_present e \<longleftrightarrow> bit e 0"
  unfolding mock_is_present_def by (rule and_single_bit)

lemma mock_kind_bits:
  "mock_entry_kind e l = (if bit e 63 then Invalid else if l = 1 \<or> bit e 1 then Leaf else Table)"
  unfolding mock_entry_kind_def and_single_bit ..

lemma bit_mock_new_table: "bit (mock_new_table p l) n \<longleftrightarrow> 12 \<le> n \<and> n < 52 \<and> bit p n \<or> n = 0"
  by (auto simp: mock_new_table_def bit_or_iff bit_and_iff bit_MOCK_PADDR_MASK bit_mock_consts)

interpretation mock_codec: pte_codec MockPte MockMeta "\<lambda>_. True" mock_normal_flags
proof (unfold_locales, goal_cases)
  case (6 l sz p f)
  then have "\<And>n. bit p n \<Longrightarrow> 12 \<le> n \<and> n < 52" using mock_paddr_fits by (simp add: MockMeta_def)
  then show ?case
    unfolding MockPte_def pte_impl.select_convs mock_paddr_def
    by (intro bit_word_eqI) (auto simp: bit_and_iff bit_mock_new_leaf bit_MOCK_PADDR_MASK)
next
  case (7 p l)
  then have "\<And>n. bit p n \<Longrightarrow> 12 \<le> n \<and> n < 52" using mock_paddr_fits by (simp add: MockMeta_def)
  then show ?case
    unfolding MockPte_def pte_impl.select_convs mock_paddr_def
    by (intro bit_word_eqI) (auto simp: bit_and_iff bit_mock_new_table bit_MOCK_PADDR_MASK)
qed (auto simp: MockPte_def MockMeta_def mock_present_bit mock_kind_bits bit_mock_new_leaf bit_mock_new_table
    mock_new_leaf_flags mock_decoded_normal mock_clear_def mock_paddr_def bit_and_iff bit_MOCK_PADDR_MASK
    default_paddr_valid_bits)

section \<open>The allocator\<close>

text \<open>
  What \<^verbatim>\<open>alloc_zeroed\<close> promises: null, or the aligned address of a block that is disjoint from every
  block in use; and addresses of the process have at most 52 bits.
\<close>

definition heap_ok :: "os_heap \<Rightarrow> bool" where
  "heap_ok h \<longleftrightarrow> (\<forall>st sz align. sz \<noteq> 0 \<longrightarrow> h st (sz, align) \<noteq> 0 \<longrightarrow>
     unat align dvd unat (h st (sz, align)) \<and> unat (h st (sz, align)) + unat sz \<le> 2 ^ 52 \<and>
     (\<forall>q n a. (q, (n, a)) \<in> set st \<longrightarrow>
        unat q + unat n \<le> unat (h st (sz, align)) \<or> unat (h st (sz, align)) + unat sz \<le> unat q))"

text \<open>The table frames in use.\<close>

definition mock_live :: "mock_heap \<Rightarrow> paddr set" where
  "mock_live s = {f. frame_ok MockMeta f \<and> (\<exists>a. map_of (frame_store s) f = Some (bytes Size4K, a))}"

lemma map_of_store:
  "map_of (store_insert k b st) f = (if f = k then Some b else map_of st f)"
  "map_of (store_remove k st) f = (if f = k then None else map_of st f)"
proof -
  have "map_of (filter (\<lambda>b. fst b \<noteq> k) st) f = (if f = k then None else map_of st f)"
    by (induction st) auto
  then show "map_of (store_insert k b st) f = (if f = k then Some b else map_of st f)"
    "map_of (store_remove k st) f = (if f = k then None else map_of st f)"
    by (simp_all add: store_insert_def store_remove_def)
qed

lemma mock_frame_layout: "layout_from_size_align (bytes Size4K) (bytes Size4K) = Some (bytes Size4K, bytes Size4K)"
  by (simp add: layout_from_size_align_def)

lemma mock_meta_fields:
  "TABLE_FRAME_SIZE MockMeta = Size4K" "BASE_PAGE_SIZE MockMeta = Size4K" "LEVELS MockMeta = 4"
  "ENTRIES_PER_TABLE MockMeta = 512" "vaddr_is_valid MockMeta = default_vaddr_is_valid 48"
  "paddr_is_valid MockMeta = default_paddr_is_valid 52"
  by (simp_all add: MockMeta_def)

lemma mock_cell: "entry_cell (mock_env L h MockMeta T) f i = f + of_nat i * 8"
  by (simp add: entry_cell_def MockAlloc_def)

lemma mock_cell_in:
  assumes "frame_ok MockMeta f" "i < 512"
  shows "(f + of_nat i * 8) AND NOT (mask 12) = f" "unat (f + of_nat i * 8) = unat f + i * 8"
    "unat f + 4096 \<le> 2 ^ 64"
proof -
  have al: "f AND mask 12 = 0" using assms(1) by (simp add: frame_ok_def mock_meta_fields is_aligned_mask)
  note off = entry_offset [of i 512 12, OF assms(2)]
  have u: "unat (of_nat i * 8 :: u64) = i * 8" using off(1) by simp
  show "(f + of_nat i * 8) AND NOT (mask 12) = f"
    by (rule frame_cell [OF al]) (use off(2) in simp_all)
  have "4096 dvd unat f" using assms(1) by (simp add: frame_ok_def mock_meta_fields is_aligned_dvd)
  then obtain k where k: "unat f = 4096 * k" by blast
  then have "unat f + 4096 \<le> 2 ^ 64" using unat_u64_less [of f] by simp
  then show "unat f + 4096 \<le> 2 ^ 64" .
  then have "unat f + i * 8 < 2 ^ 64" using assms(2) by simp
  then have "unat f + unat (of_nat i * 8 :: u64) < 2 ^ LENGTH(64)" by (simp add: u)
  then have "unat (f + of_nat i * 8) = unat f + unat (of_nat i * 8 :: u64)" by (rule unat_add_lem [THEN iffD1])
  then show "unat (f + of_nat i * 8) = unat f + i * 8" unfolding u .
qed

lemma mock_allocate_frame:
  assumes "addr_lib_ok L" "heap_ok h"
    and "mock_allocate L h (bytes Size4K) Size4K (s, m) = (res, s', m')"
  shows "res = Err OutOfMemory \<and> s' = s \<and> m' = m \<and> h (frame_store s) (bytes Size4K, bytes Size4K) = 0 \<or>
    (\<exists>raw. raw = h (frame_store s) (bytes Size4K, bytes Size4K) \<and> raw \<noteq> 0 \<and>
       res = Ok \<lparr>rng_start = raw, rng_end = raw + bytes Size4K\<rparr> \<and>
       s' = s\<lparr>frame_store := store_insert raw (bytes Size4K, bytes Size4K) (frame_store s),
              live_counter := live_counter s + 1\<rparr> \<and>
       m' = zero_block raw (bytes Size4K) m \<and> frame_ok MockMeta raw \<and> unat raw + 4096 \<le> 2 ^ 52 \<and>
       (\<forall>q n a. (q, (n, a)) \<in> set (frame_store s) \<longrightarrow> unat q + unat n \<le> unat raw \<or> unat raw + 4096 \<le> unat q))"
proof (cases "h (frame_store s) (bytes Size4K, bytes Size4K) = 0")
  case True
  then show ?thesis
    using assms(3) mock_frame_layout by (simp add: mock_allocate_def)
next
  case False
  let ?raw = "h (frame_store s) (bytes Size4K, bytes Size4K)"
  have "bytes Size4K \<noteq> 0" by simp
  then have ok: "unat (bytes Size4K) dvd unat ?raw" "unat ?raw + unat (bytes Size4K) \<le> 2 ^ 52"
    "\<forall>q n a. (q, (n, a)) \<in> set (frame_store s) \<longrightarrow>
       unat q + unat n \<le> unat ?raw \<or> unat ?raw + unat (bytes Size4K) \<le> unat q"
    using assms(2) False unfolding heap_ok_def by blast+
  have "unat ?raw < 2 ^ 52" using ok(2) by simp
  then have "?raw < push_bit 52 1" by (simp add: word_less_nat_alt)
  then have fr: "frame_ok MockMeta ?raw"
    using ok(1) by (simp add: frame_ok_def mock_meta_fields is_aligned_dvd default_paddr_is_valid_def)
  have "range_from_start_size L ?raw (bytes Size4K) = Ok \<lparr>rng_start = ?raw, rng_end = ?raw + bytes Size4K\<rparr>"
    using ok(2) by (simp add: addr_from_start_size [OF assms(1)] checked_add_def)
  moreover have "bytes Size4K AND 0xfff = 0" by simp
  ultimately have "res = Ok \<lparr>rng_start = ?raw, rng_end = ?raw + bytes Size4K\<rparr>"
    "s' = s\<lparr>frame_store := store_insert ?raw (bytes Size4K, bytes Size4K) (frame_store s),
              live_counter := live_counter s + 1\<rparr>"
    "m' = zero_block ?raw (bytes Size4K) m"
    using assms(3) False mock_frame_layout \<open>bytes Size4K \<noteq> 0\<close> by (simp_all add: mock_allocate_def Let_def)
  then show ?thesis using False fr ok by simp
qed

lemma mock_host:
  assumes L: "addr_lib_ok L" and h: "heap_ok h"
  shows "frame_host (mock_env L h MockMeta T) mock_live"
proof (unfold_locales, goal_cases)
  case 1
  then show ?case by (simp add: L)
next
  case (2 f g i j)
  then show ?case using mock_cell_in [of f i] mock_cell_in [of g j] by (auto simp: mock_cell mock_meta_fields)
next
  case (3 s m r s' m')
  have a: "mock_allocate L h (bytes Size4K) Size4K (s, m) = (Ok r, s', m')"
    using 3 by (simp add: MockAlloc_def mock_meta_fields)
  from mock_allocate_frame [OF L h a] obtain raw where raw: "r = \<lparr>rng_start = raw, rng_end = raw + bytes Size4K\<rparr>"
    "s' = s\<lparr>frame_store := store_insert raw (bytes Size4K, bytes Size4K) (frame_store s),
              live_counter := live_counter s + 1\<rparr>"
    "m' = zero_block raw (bytes Size4K) m" "frame_ok MockMeta raw"
    and sep: "\<And>q n a. (q, (n, a)) \<in> set (frame_store s) \<Longrightarrow> unat q + unat n \<le> unat raw \<or> unat raw + 4096 \<le> unat q"
    by blast
  have apart: "unat f + 4096 \<le> unat raw \<or> unat raw + 4096 \<le> unat f" if f: "f \<in> mock_live s" for f
  proof -
    obtain a where "map_of (frame_store s) f = Some (bytes Size4K, a)" using f by (auto simp: mock_live_def)
    from sep [OF map_of_SomeD [OF this]] show ?thesis by simp
  qed
  then have "raw \<notin> mock_live s" by fastforce
  moreover have "mock_live s' = insert raw (mock_live s)"
    using raw(4) by (auto simp: mock_live_def raw(2) map_of_store)
  moreover have "read_entry (mock_env L h MockMeta T) m' raw i = 0" if "i < 512" for i
    using mock_cell_in(2) [OF raw(4) that] that by (simp add: read_entry_def mock_cell raw(3) zero_block_def)
  moreover have "read_entry (mock_env L h MockMeta T) m' f i = read_entry (mock_env L h MockMeta T) m f i"
    if "f \<in> mock_live s" "i < 512" for f i
  proof -
    have "frame_ok MockMeta f" using that(1) by (simp add: mock_live_def)
    from mock_cell_in(2) [OF this that(2)] apart [OF that(1)] that(2) show ?thesis
      by (auto simp: read_entry_def mock_cell raw(3) zero_block_def)
  qed
  ultimately show ?case using raw(4)
    by (simp add: raw(1) mock_meta_fields same_entries_def frame_ok_def)
next
  case (4 s m e s' m')
  then have a: "mock_allocate L h (bytes Size4K) Size4K (s, m) = (Err e, s', m')"
    by (simp add: MockAlloc_def mock_meta_fields)
  from mock_allocate_frame [OF L h a] show ?case by (auto simp: same_entries_def)
next
  case (5 s m)
  obtain r s' m' where "mock_allocate L h (bytes Size4K) Size4K (s, m) = (r, s', m')" by (metis prod_cases3)
  with mock_allocate_frame [OF L h this] show ?case by (auto simp: MockAlloc_def mock_meta_fields)
next
  case (6 r s m res s' m')
  then have "mock_deallocate L r (s, m) = (res, s', m')" by (simp add: MockAlloc_def)
  then show ?case
    by (auto simp: mock_deallocate_def Let_def mock_live_def map_of_store same_entries_def
        split: option.splits if_splits)
qed

lemma mock_walker:
  assumes "addr_lib_ok L" "heap_ok h"
  shows "walker (mock_env L h MockMeta T) (\<lambda>_. True) mock_normal_flags mock_live"
proof (rule walker.intro)
  show "paging_geometry (e_meta (mock_env L h MockMeta T))"
    unfolding mock_env_fields by unfold_locales
  show "pte_codec (e_pte (mock_env L h MockMeta T)) (e_meta (mock_env L h MockMeta T)) (\<lambda>_. True) mock_normal_flags"
    unfolding mock_env_fields by unfold_locales
qed (rule mock_host [OF assms])

lemma mock_dealloc_total:
  assumes "addr_lib_ok L"
  shows "dealloc_total (mock_env L h MockMeta T) mock_live"
  unfolding dealloc_total_def
proof (intro allI impI)
  fix g s m assume g: "g \<in> mock_live s"
  then obtain a where a: "map_of (frame_store s) g = Some (bytes Size4K, a)" and f: "frame_ok MockMeta g"
    by (auto simp: mock_live_def)
  have "unat g < 2 ^ 52"
    using f by (simp add: frame_ok_def mock_meta_fields default_paddr_is_valid_def word_less_nat_alt)
  then have "unat (g + bytes Size4K) = unat g + unat (bytes Size4K)"
    by (intro unat_add_lem [THEN iffD1]) simp
  then have "g \<le> g + bytes Size4K" by (simp add: word_le_nat_alt)
  then have "range_size L (frame_range (mock_env L h MockMeta T) g) = bytes Size4K"
    using addr_size [OF assms, of "frame_range (mock_env L h MockMeta T) g"]
    by (simp add: frame_range_def mock_meta_fields)
  then show "fst (deallocate (e_alloc (mock_env L h MockMeta T)) (frame_range (mock_env L h MockMeta T) g) (s, m)) = Ok ()"
    by (simp add: MockAlloc_def mock_deallocate_def a Let_def)
qed

end
