(* ===== verification/MockTests.thy ===== *)
theory MockTests
  imports MockHost TestKit Cursor
begin

text \<open>
  The unit tests of \<^verbatim>\<open>src/src/walker.rs\<close>, one definition per test function, over an environment built by
  \<open>mock_env\<close>. A test is a run on a world: it panics when an assertion fails. The drop of the table at
  the end of its scope, and of a cursor at the end of its block, are part of the run.
\<close>

section \<open>The harness\<close>

definition mock_flags_of :: "access_flags \<Rightarrow> mock_flags" where
  "mock_flags_of access = \<lparr>mk_access = access, mk_cache = Writeback\<rparr>"

definition vrange :: "addr_lib \<Rightarrow> usize \<Rightarrow> page_size \<Rightarrow> addr_range res" where
  "vrange L start sz = range_from_start_size L start (bytes sz)"

text \<open>
  \<^verbatim>\<open>test_setup\<close> empties the allocator and zeroes the counters. The counters of the TLB are read off the
  log, which therefore starts empty.
\<close>

definition test_setup :: "(mock_heap, 'h) world \<Rightarrow> (mock_heap, 'h) world" where
  "test_setup w = w\<lparr>astate := reset_alloc (astate w), log := []\<rparr>"

definition live_count :: "(mock_heap, 'h) world \<Rightarrow> usize" where
  "live_count w = live_counter (astate w)"

fun tlb_calls :: "'h event list \<Rightarrow> 'h list" where
  "tlb_calls [] = []"
| "tlb_calls (Freed r # es) = tlb_calls es"
| "tlb_calls (Tlb h # es) = h # tlb_calls es"

definition range_flushes :: "('s, rec_call) world \<Rightarrow> (vaddr \<times> usize) list" where
  "range_flushes w = concat (map (\<lambda>c. case c of RangeFlush v n \<Rightarrow> [(v, n)] | _ \<Rightarrow> []) (tlb_calls (log w)))"

definition local_flush_calls :: "('s, rec_call) world \<Rightarrow> nat" where
  "local_flush_calls w = length (filter (\<lambda>c. case c of LocalFlush _ \<Rightarrow> True | _ \<Rightarrow> False) (tlb_calls (log w)))"

definition full_flush_calls :: "('s, rec_call) world \<Rightarrow> nat" where
  "full_flush_calls w = length (filter (\<lambda>c. c = FullFlush) (tlb_calls (log w)))"

definition unwrap_st :: "'a res \<times> 'w \<Rightarrow> 'a res \<times> 'w" where
  "unwrap_st rw = (unwrap (fst rw), snd rw)"

definition with_table :: "('f, 's, 'h) env \<Rightarrow> (paddr \<Rightarrow> ('s, 'h) world \<Rightarrow> unit res \<times> ('s, 'h) world) \<Rightarrow>
    ('s, 'h) world \<Rightarrow> unit res \<times> ('s, 'h) world" where
  "with_table E body w =
     bind_st (unwrap_st (try_new E w)) (\<lambda>pt w.
     bind_st (body pt w) (\<lambda>_ w. walker_drop E pt w))"

definition with_cursor :: "('f, 's, 'h) env \<Rightarrow> (('s, 'h) cstate \<Rightarrow> unit res \<times> ('s, 'h) cstate) \<Rightarrow>
    ('s, 'h) world \<Rightarrow> unit res \<times> ('s, 'h) world" where
  "with_cursor E body w =
     (case body (cursor_new, w) of
        (Panic, cw) \<Rightarrow> (Panic, snd cw)
      | (r, cw) \<Rightarrow> (r, cursor_drop E cw))"

text \<open>Where a test calls \<^verbatim>\<open>finish\<close> at the end of the scope, which always succeeds.\<close>

definition with_finished_cursor :: "('f, 's, 'h) env \<Rightarrow> (('s, 'h) cstate \<Rightarrow> unit res \<times> ('s, 'h) cstate) \<Rightarrow>
    ('s, 'h) world \<Rightarrow> unit res \<times> ('s, 'h) world" where
  "with_finished_cursor E body w =
     (case body (cursor_new, w) of
        (Panic, cw) \<Rightarrow> (Panic, snd cw)
      | (Err e, cw) \<Rightarrow> (Err e, cursor_drop E cw)
      | (Ok _, cw) \<Rightarrow> (Ok (), cursor_finish E cw))"

lemma with_finished_cursor_eq: "with_finished_cursor E body w = with_cursor E body w"
  by (simp add: with_finished_cursor_def with_cursor_def cursor_finish_drop split: prod.split res.split)

fun for_st :: "nat list \<Rightarrow> (nat \<Rightarrow> 'w \<Rightarrow> unit res \<times> 'w) \<Rightarrow> 'w \<Rightarrow> unit res \<times> 'w" where
  "for_st [] body w = (Ok (), w)"
| "for_st (i # is) body w = bind_st (body i w) (\<lambda>_ w. for_st is body w)"

text \<open>\<^verbatim>\<open>pt.map(vrange(..), p, f, tlb)\<close> and \<^verbatim>\<open>c.map(vrange(..), p, f)\<close>.\<close>

definition map_page :: "(mock_flags, 's, 'h) env \<Rightarrow> paddr \<Rightarrow> usize \<Rightarrow> page_size \<Rightarrow> paddr \<Rightarrow> access_flags \<Rightarrow>
    ('s, 'h) world \<Rightarrow> unit res \<times> ('s, 'h) world" where
  "map_page E pt start sz p access w =
     bind_st (vrange (e_addr E) start sz, w) (\<lambda>range w.
     walker_map E pt range (FromPhysAddr p) (mapping_flags_new (mock_flags_of access)) w)"

definition cursor_map_page :: "(mock_flags, 's, 'h) env \<Rightarrow> paddr \<Rightarrow> usize \<Rightarrow> page_size \<Rightarrow> paddr \<Rightarrow> access_flags \<Rightarrow>
    ('s, 'h) cstate \<Rightarrow> unit res \<times> ('s, 'h) cstate" where
  "cursor_map_page E pt start sz p access cw =
     bind_st (vrange (e_addr E) start sz, cw) (\<lambda>range cw.
     cursor_map E pt range (FromPhysAddr p) (mapping_flags_new (mock_flags_of access)) cw)"

text \<open>\<^verbatim>\<open>let mapping = pt.query(v).unwrap()\<close>, followed by assertions on it.\<close>

definition check_query :: "('f, 's, 'h) env \<Rightarrow> paddr \<Rightarrow> vaddr \<Rightarrow> ('f mapping \<Rightarrow> bool list) \<Rightarrow>
    ('s, 'h) world \<Rightarrow> unit res \<times> ('s, 'h) world" where
  "check_query E pt v asserts w =
     (bind_res (unwrap (query E pt v (mem w))) (\<lambda>mapping. assert_all (asserts mapping)), w)"

definition check :: "(('s, 'h) world \<Rightarrow> bool list) \<Rightarrow> ('s, 'h) world \<Rightarrow> unit res \<times> ('s, 'h) world" where
  "check asserts w = (assert_all (asserts w), w)"

text \<open>An array of physical ranges, each built by \<^verbatim>\<open>from_start_size\<close>.\<close>

fun bind_ranges :: "addr_lib \<Rightarrow> (usize \<times> usize) list \<Rightarrow> addr_range list res" where
  "bind_ranges L [] = Ok []"
| "bind_ranges L ((start, sz) # rest) =
     bind_res (range_from_start_size L start sz) (\<lambda>r.
     bind_res (bind_ranges L rest) (\<lambda>rs. Ok (r # rs)))"

section \<open>Walker tests\<close>

definition test_map_query_unmap_4k_round_trip :: "(mock_flags, mock_heap, 'h) env \<Rightarrow> (mock_heap, 'h) world \<Rightarrow>
    unit res \<times> (mock_heap, 'h) world" where
  "test_map_query_unmap_4k_round_trip E w =
     with_table E (\<lambda>pt w.
       let v = 0x10000000; p = 0xdead0000; f = mock_flags_of (af_union AF_READ AF_WRITE) in
       bind_st (vrange (e_addr E) v Size4K, w) (\<lambda>range w.
       bind_st (unwrap_st (walker_map E pt range (FromPhysAddr p) (mapping_flags_new f) w)) (\<lambda>_ w.
       bind_st (check_query E pt v (\<lambda>mapping.
         [m_paddr mapping = p, m_range mapping = range, mapping_size (e_addr E) mapping = Some Size4K,
          af_contains (mk_access (m_flags mapping)) AF_WRITE]) w) (\<lambda>_ w.
       bind_st (unwrap_st (unmap E pt range w)) (\<lambda>unmapped w.
       check (\<lambda>w.
         [m_paddr unmapped = p, m_range unmapped = range, mapping_size (e_addr E) unmapped = Some Size4K,
          query E pt v (mem w) = Err NotMapped]) w)))))
     (test_setup w)"

definition test_present_invalid_entry_fails_closed :: "(mock_flags, mock_heap, 'h) env \<Rightarrow> (mock_heap, 'h) world \<Rightarrow>
    unit res \<times> (mock_heap, 'h) world" where
  "test_present_invalid_entry_fails_closed E w =
     with_table E (\<lambda>pt w.
       let w = store E pt 0 (MOCK_PRESENT OR MOCK_INVALID) w in
       check (\<lambda>w. [query E pt 0 (mem w) = Err InvalidEntryKind]) w)
     (test_setup w)"

text \<open>This test runs over \<open>WideTableMeta\<close>.\<close>

definition test_metadata_controls_table_frame_granule :: "(mock_flags, mock_heap, 'h) env \<Rightarrow> (mock_heap, 'h) world \<Rightarrow>
    unit res \<times> (mock_heap, 'h) world" where
  "test_metadata_controls_table_frame_granule E w =
     bind_st (with_table E (\<lambda>pt. check (\<lambda>w. [is_aligned Size16K pt, live_count w = 1])) (test_setup w)) (\<lambda>_.
     check (\<lambda>w. [live_count w = 0]))"

definition test_map_2m_huge_then_query :: "(mock_flags, mock_heap, 'h) env \<Rightarrow> (mock_heap, 'h) world \<Rightarrow>
    unit res \<times> (mock_heap, 'h) world" where
  "test_map_2m_huge_then_query E w =
     with_table E (\<lambda>pt w.
       let v = 0x40000000; p = 0x200000000; f = mock_flags_of AF_READ in
       bind_st (vrange (e_addr E) v Size2M, w) (\<lambda>range w.
       bind_st (unwrap_st (walker_map E pt range (FromPhysAddr p) (mapping_flags_new f) w)) (\<lambda>_.
       check_query E pt v (\<lambda>mapping. [m_range mapping = range, mapping_size (e_addr E) mapping = Some Size2M]))))
     (test_setup w)"

definition test_exact_range_ops_refuse_interior_subranges :: "(mock_flags, mock_heap, 'h) env \<Rightarrow>
    (mock_heap, 'h) world \<Rightarrow> unit res \<times> (mock_heap, 'h) world" where
  "test_exact_range_ops_refuse_interior_subranges E w =
     with_table E (\<lambda>pt w.
       let v = 0x40000000; p = 0x200000000 in
       bind_st (vrange (e_addr E) v Size2M, w) (\<lambda>range w.
       bind_st (vrange (e_addr E) (v + 0x1000) Size4K, w) (\<lambda>interior w.
       bind_st (unwrap_st (walker_map E pt range (FromPhysAddr p) (mapping_flags_new (mock_flags_of AF_READ)) w)) (\<lambda>_ w.
       let (r1, w) = protect E pt interior (mock_flags_of (af_union AF_READ AF_WRITE)) w;
           (r2, w) = remap E pt interior 0x300000000 (mock_flags_of AF_READ) w;
           (r3, w) = unmap E pt interior w in
       bind_st (check (\<lambda>w. [r1 = Err NotMapped, r2 = Err NotMapped, r3 = Err NotMapped]) w) (\<lambda>_.
       check_query E pt v (\<lambda>mapping. [m_range mapping = range, m_paddr mapping = p]))))))
     (test_setup w)"

definition test_double_map_returns_already_mapped :: "(mock_flags, mock_heap, 'h) env \<Rightarrow>
    (mock_heap, 'h) world \<Rightarrow> unit res \<times> (mock_heap, 'h) world" where
  "test_double_map_returns_already_mapped E w =
     with_table E (\<lambda>pt w.
       let v = 0x2000; p = 0x4000; f = mapping_flags_new (mock_flags_of AF_READ) in
       bind_st (vrange (e_addr E) v Size4K, w) (\<lambda>range w.
       bind_st (unwrap_st (walker_map E pt range (FromPhysAddr p) f w)) (\<lambda>_ w.
       let (r, w) = walker_map E pt range (FromPhysAddr p) f w in
       check (\<lambda>w. [r = Err AlreadyMapped]) w)))
     (test_setup w)"

definition test_multiple_virtual_ranges_may_share_one_physical_frame :: "(mock_flags, mock_heap, 'h) env \<Rightarrow>
    (mock_heap, 'h) world \<Rightarrow> unit res \<times> (mock_heap, 'h) world" where
  "test_multiple_virtual_ranges_may_share_one_physical_frame E w =
     with_table E (\<lambda>pt w.
       let p = 0x90000000; f = mapping_flags_new (mock_flags_of (af_union AF_READ AF_WRITE)) in
       bind_st (vrange (e_addr E) 0x10000000 Size4K, w) (\<lambda>r1 w.
       bind_st (vrange (e_addr E) 0x20000000 Size4K, w) (\<lambda>r2 w.
       bind_st (unwrap_st (walker_map E pt r1 (FromPhysAddr p) f w)) (\<lambda>_ w.
       bind_st (unwrap_st (walker_map E pt r2 (FromPhysAddr p) f w)) (\<lambda>_ w.
       bind_st (check_query E pt 0x10000000 (\<lambda>mapping. [m_paddr mapping = p]) w) (\<lambda>_ w.
       bind_st (check_query E pt 0x20000000 (\<lambda>mapping. [m_paddr mapping = p]) w) (\<lambda>_ w.
       bind_st (unwrap_st (unmap E pt r1 w)) (\<lambda>_ w.
       bind_st (check (\<lambda>w. [query E pt 0x10000000 (mem w) = Err NotMapped]) w) (\<lambda>_.
       check_query E pt 0x20000000 (\<lambda>mapping. [m_paddr mapping = p]))))))))))
     (test_setup w)"

definition test_unmap_reclaims_emptied_intermediates :: "(mock_flags, mock_heap, 'h) env \<Rightarrow>
    (mock_heap, 'h) world \<Rightarrow> unit res \<times> (mock_heap, 'h) world" where
  "test_unmap_reclaims_emptied_intermediates E w =
     (let w = test_setup w; baseline = live_count w in
      with_table E (\<lambda>pt w.
        let v = 0x12345000; p = 0x6000; f = mock_flags_of AF_READ in
        bind_st (check (\<lambda>w. [live_count w = baseline + 1]) w) (\<lambda>_ w.
        bind_st (vrange (e_addr E) v Size4K, w) (\<lambda>range w.
        bind_st (unwrap_st (walker_map E pt range (FromPhysAddr p) (mapping_flags_new f) w)) (\<lambda>_ w.
        bind_st (check (\<lambda>w. [live_count w = baseline + 4]) w) (\<lambda>_ w.
        bind_st (unwrap_st (unmap E pt range w)) (\<lambda>_.
        check (\<lambda>w. [live_count w = baseline + 1])))))))
      w)"

definition test_drop_reclaims_entire_subtree :: "(mock_flags, mock_heap, 'h) env \<Rightarrow>
    (mock_heap, 'h) world \<Rightarrow> unit res \<times> (mock_heap, 'h) world" where
  "test_drop_reclaims_entire_subtree E w =
     (let w = test_setup w; baseline = live_count w in
      bind_st (with_table E (\<lambda>pt w.
        bind_st (for_st [0..<5] (\<lambda>i w.
          unwrap_st (map_page E pt (0x10000000 + of_nat i * 0x40000000) Size4K (0x100000 + of_nat i * 0x1000) AF_READ w)) w)
        (\<lambda>_. check (\<lambda>w. [baseline + 1 < live_count w]))) w) (\<lambda>_.
      check (\<lambda>w. [live_count w = baseline])))"

definition test_split_2m_into_4k_leaves :: "(mock_flags, mock_heap, 'h) env \<Rightarrow>
    (mock_heap, 'h) world \<Rightarrow> unit res \<times> (mock_heap, 'h) world" where
  "test_split_2m_into_4k_leaves E w =
     with_table E (\<lambda>pt w.
       let v = 0x40000000; p = 0x80000000 in
       bind_st (vrange (e_addr E) v Size2M, w) (\<lambda>range w.
       bind_st (unwrap_st (walker_map E pt range (FromPhysAddr p) (mapping_flags_new (mock_flags_of AF_READ)) w)) (\<lambda>_ w.
       bind_st (unwrap_st (split_at E pt range w)) (\<lambda>new_size w.
       bind_st (check (\<lambda>w. [new_size = Size4K]) w) (\<lambda>_.
       for_st [0..<ENTRIES_PER_TABLE (e_meta E)] (\<lambda>i.
         check_query E pt (v + of_nat i * 0x1000) (\<lambda>mapping.
           [mapping_size (e_addr E) mapping = Some Size4K, m_paddr mapping = p + of_nat i * 0x1000])))))))
     (test_setup w)"

definition test_merge_after_split_round_trips :: "(mock_flags, mock_heap, 'h) env \<Rightarrow>
    (mock_heap, 'h) world \<Rightarrow> unit res \<times> (mock_heap, 'h) world" where
  "test_merge_after_split_round_trips E w =
     with_table E (\<lambda>pt w.
       let v = 0x40000000; p = 0x80000000 in
       bind_st (vrange (e_addr E) v Size2M, w) (\<lambda>range w.
       bind_st (unwrap_st (walker_map E pt range (FromPhysAddr p) (mapping_flags_new (mock_flags_of AF_READ)) w)) (\<lambda>_ w.
       bind_st (unwrap_st (split_at E pt range w)) (\<lambda>_ w.
       bind_st (unwrap_st (merge_at E pt range w)) (\<lambda>merged w.
       bind_st (check (\<lambda>w. [merged = Size2M]) w) (\<lambda>_.
       check_query E pt v (\<lambda>mapping. [mapping_size (e_addr E) mapping = Some Size2M])))))))
     (test_setup w)"

definition test_merge_refuses_when_not_contiguous :: "(mock_flags, mock_heap, 'h) env \<Rightarrow>
    (mock_heap, 'h) world \<Rightarrow> unit res \<times> (mock_heap, 'h) world" where
  "test_merge_refuses_when_not_contiguous E w =
     with_table E (\<lambda>pt w.
       let v = 0x40000000 in
       bind_st (for_st [0..<ENTRIES_PER_TABLE (e_meta E)] (\<lambda>i w.
         let phys_base = (if i < 256 then 0x80000000 else 0xc0000000) in
         unwrap_st (map_page E pt (v + of_nat i * 0x1000) Size4K (phys_base + of_nat (i mod 256) * 0x1000) AF_READ w)) w)
       (\<lambda>_ w.
       bind_st (vrange (e_addr E) v Size2M, w) (\<lambda>range w.
       let (r, w) = merge_at E pt range w in
       check (\<lambda>w. [r = Err NotCoalescable]) w)))
     (test_setup w)"

definition test_merge_refuses_on_mismatched_flags :: "(mock_flags, mock_heap, 'h) env \<Rightarrow>
    (mock_heap, 'h) world \<Rightarrow> unit res \<times> (mock_heap, 'h) world" where
  "test_merge_refuses_on_mismatched_flags E w =
     with_table E (\<lambda>pt w.
       let v = 0x40000000; p_base = 0x80000000 in
       bind_st (for_st [0..<ENTRIES_PER_TABLE (e_meta E)] (\<lambda>i w.
         let f = (if i = 100 then af_union AF_READ AF_WRITE else AF_READ) in
         unwrap_st (map_page E pt (v + of_nat i * 0x1000) Size4K (p_base + of_nat i * 0x1000) f w)) w)
       (\<lambda>_ w.
       bind_st (vrange (e_addr E) v Size2M, w) (\<lambda>range w.
       let (r, w) = merge_at E pt range w in
       check (\<lambda>w. [r = Err NotCoalescable]) w)))
     (test_setup w)"

definition test_protect_keeps_paddr_changes_flags :: "(mock_flags, mock_heap, 'h) env \<Rightarrow>
    (mock_heap, 'h) world \<Rightarrow> unit res \<times> (mock_heap, 'h) world" where
  "test_protect_keeps_paddr_changes_flags E w =
     with_table E (\<lambda>pt w.
       let v = 0x1000; p = 0x2000 in
       bind_st (vrange (e_addr E) v Size4K, w) (\<lambda>range w.
       bind_st (unwrap_st (walker_map E pt range (FromPhysAddr p) (mapping_flags_new (mock_flags_of AF_READ)) w)) (\<lambda>_ w.
       bind_st (unwrap_st (protect E pt range (mock_flags_of (af_union AF_READ AF_WRITE)) w)) (\<lambda>_.
       check_query E pt v (\<lambda>mapping.
         [m_paddr mapping = p, af_contains (mk_access (m_flags mapping)) AF_WRITE])))))
     (test_setup w)"

definition test_remap_changes_paddr :: "(mock_flags, mock_heap, 'h) env \<Rightarrow>
    (mock_heap, 'h) world \<Rightarrow> unit res \<times> (mock_heap, 'h) world" where
  "test_remap_changes_paddr E w =
     with_table E (\<lambda>pt w.
       let v = 0x1000; p1 = 0x2000; p2 = 0x5000 in
       bind_st (vrange (e_addr E) v Size4K, w) (\<lambda>range w.
       bind_st (unwrap_st (walker_map E pt range (FromPhysAddr p1) (mapping_flags_new (mock_flags_of AF_READ)) w)) (\<lambda>_ w.
       bind_st (unwrap_st (remap E pt range p2 (mock_flags_of AF_READ) w)) (\<lambda>_.
       check_query E pt v (\<lambda>mapping. [m_paddr mapping = p2])))))
     (test_setup w)"

section \<open>Cursor tests\<close>

definition test_cursor_maps_contiguous_range_correctly :: "(mock_flags, mock_heap, 'h) env \<Rightarrow>
    (mock_heap, 'h) world \<Rightarrow> unit res \<times> (mock_heap, 'h) world" where
  "test_cursor_maps_contiguous_range_correctly E w =
     with_table E (\<lambda>pt w.
       let base_v = 0x10000000; base_p = 0x40000000; count = 64 in
       bind_st (with_finished_cursor E (for_st [0..<count] (\<lambda>i cw.
         unwrap_st (cursor_map_page E pt (base_v + of_nat i * 0x1000) Size4K (base_p + of_nat i * 0x1000) AF_READ cw))) w)
       (\<lambda>_. for_st [0..<count] (\<lambda>i.
         check_query E pt (base_v + of_nat i * 0x1000) (\<lambda>mapping.
           [mapping_size (e_addr E) mapping = Some Size4K, m_paddr mapping = base_p + of_nat i * 0x1000]))))
     (test_setup w)"

definition test_cursor_maps_across_level2_boundary_correctly :: "(mock_flags, mock_heap, 'h) env \<Rightarrow>
    (mock_heap, 'h) world \<Rightarrow> unit res \<times> (mock_heap, 'h) world" where
  "test_cursor_maps_across_level2_boundary_correctly E w =
     with_table E (\<lambda>pt w.
       let addrs = [0x1ff000, 0x200000, 0x201000] in
       bind_st (with_cursor E (for_st [0..<length addrs] (\<lambda>i cw.
         unwrap_st (cursor_map_page E pt (addrs ! i) Size4K (0x40000000 + of_nat i * 0x1000) AF_READ cw))) w)
       (\<lambda>_. for_st [0..<length addrs] (\<lambda>i.
         check_query E pt (addrs ! i) (\<lambda>mapping.
           [mapping_size (e_addr E) mapping = Some Size4K, m_paddr mapping = 0x40000000 + of_nat i * 0x1000]))))
     (test_setup w)"

definition test_cursor_drop_flushes_pending :: "(mock_flags, mock_heap, 'h) env \<Rightarrow>
    (mock_heap, 'h) world \<Rightarrow> unit res \<times> (mock_heap, 'h) world" where
  "test_cursor_drop_flushes_pending E w =
     with_table E (\<lambda>pt w.
       bind_st (with_cursor E (\<lambda>cw. unwrap_st (cursor_map_page E pt 0x1000 Size4K 0x2000 AF_READ cw)) w) (\<lambda>_.
       check_query E pt 0x1000 (\<lambda>mapping. [m_paddr mapping = 0x2000])))
     (test_setup w)"

definition test_cursor_flushes_contiguous_pending_pages_as_range :: "(mock_flags, mock_heap, rec_call) env \<Rightarrow>
    (mock_heap, rec_call) world \<Rightarrow> unit res \<times> (mock_heap, rec_call) world" where
  "test_cursor_flushes_contiguous_pending_pages_as_range E w =
     with_table E (\<lambda>pt w.
       let base_v = 0x50000000; count = FLUSH_RANGE_CAP + 5 in
       bind_st (with_finished_cursor E (for_st [0..<count] (\<lambda>i cw.
         unwrap_st (cursor_map_page E pt (base_v + of_nat i * 0x1000) Size4K (0x90000000 + of_nat i * 0x1000) AF_READ cw))) w)
       (\<lambda>_. check (\<lambda>w. [length (range_flushes w) = 1, local_flush_calls w = 0, full_flush_calls w = 0,
          fst (last (range_flushes w)) = base_v, snd (last (range_flushes w)) = of_nat count])))
     (test_setup w)"

definition test_cursor_fragmented_range_overflow_falls_back_to_full_flush :: "(mock_flags, mock_heap, rec_call) env \<Rightarrow>
    (mock_heap, rec_call) world \<Rightarrow> unit res \<times> (mock_heap, rec_call) world" where
  "test_cursor_fragmented_range_overflow_falls_back_to_full_flush E w =
     with_table E (\<lambda>pt w.
       let base_v = 0x40000000; base_p = 0x80000000; count = FLUSH_RANGE_CAP + 1 in
       bind_st (with_cursor E (\<lambda>cw.
         bind_st (for_st [0..<count] (\<lambda>i cw.
           unwrap_st (cursor_map_page E pt (base_v + of_nat i * 0x2000) Size4K (base_p + of_nat i * 0x1000) AF_READ cw)) cw)
         (\<lambda>_ (c, w). (assert_all [needs_full_flush c], (c, w)))) w) (\<lambda>_ w.
       bind_st (check (\<lambda>w. [length (range_flushes w) = 0, local_flush_calls w = 0, full_flush_calls w = 1]) w) (\<lambda>_.
       for_st [0..<count] (\<lambda>i.
         check_query E pt (base_v + of_nat i * 0x2000) (\<lambda>mapping. [m_paddr mapping = base_p + of_nat i * 0x1000])))))
     (test_setup w)"

definition test_cursor_unmap_then_remap_roundtrip :: "(mock_flags, mock_heap, 'h) env \<Rightarrow>
    (mock_heap, 'h) world \<Rightarrow> unit res \<times> (mock_heap, 'h) world" where
  "test_cursor_unmap_then_remap_roundtrip E w =
     with_table E (\<lambda>pt w.
       let v = 0x10000000; p1 = 0x40000000; p2 = 0x80000000 in
       bind_st (vrange (e_addr E) v Size4K, w) (\<lambda>range w.
       bind_st (unwrap_st (walker_map E pt range (FromPhysAddr p1) (mapping_flags_new (mock_flags_of AF_READ)) w)) (\<lambda>_ w.
       bind_st (with_cursor E (\<lambda>cw.
         bind_st (unwrap_st (cursor_unmap E pt range cw)) (\<lambda>_ cw.
         unwrap_st (cursor_map E pt range (FromPhysAddr p2)
           (mapping_flags_new (mock_flags_of (af_union AF_READ AF_WRITE))) cw))) w) (\<lambda>_.
       check_query E pt v (\<lambda>mapping.
         [m_paddr mapping = p2, af_contains (mk_access (m_flags mapping)) AF_WRITE])))))
     (test_setup w)"

definition test_map_scattered_backing_accepts_array_reference :: "(mock_flags, mock_heap, 'h) env \<Rightarrow>
    (mock_heap, 'h) world \<Rightarrow> unit res \<times> (mock_heap, 'h) world" where
  "test_map_scattered_backing_accepts_array_reference E w =
     with_table E (\<lambda>pt w.
       bind_st (bind_ranges (e_addr E) (map (\<lambda>i. (0x60000000 + of_nat i * 0x2000, 0x1000)) [0..<16]), w) (\<lambda>ranges w.
       bind_st (vrange (e_addr E) 0x20000000 Size64K, w) (\<lambda>range w.
       bind_st (unwrap_st (walker_map E pt range (FromSlice ranges)
         (mapping_flags_scattered (mock_flags_of AF_READ) Size4K) w)) (\<lambda>_.
       for_st [0..<16] (\<lambda>i.
         check_query E pt (0x20000000 + of_nat i * 0x1000) (\<lambda>mapping.
           [m_paddr mapping = 0x60000000 + of_nat i * 0x2000]))))))
     (test_setup w)"

definition test_map_scattered_backing_accepts_heapless_vec :: "(mock_flags, mock_heap, 'h) env \<Rightarrow>
    (mock_heap, 'h) world \<Rightarrow> unit res \<times> (mock_heap, 'h) world" where
  "test_map_scattered_backing_accepts_heapless_vec E w =
     with_table E (\<lambda>pt w.
       bind_st (bind_ranges (e_addr E) (map (\<lambda>i. (0x70000000 + of_nat i * 0x3000, 0x1000)) [0..<4]), w) (\<lambda>ranges w.
       bind_st (vrange (e_addr E) 0x30000000 Size16K, w) (\<lambda>range w.
       bind_st (unwrap_st (walker_map E pt range (FromSlice ranges)
         (mapping_flags_with_contiguity (mapping_flags_new (mock_flags_of AF_READ)) (Scattered Size4K)) w)) (\<lambda>_.
       for_st [0..<4] (\<lambda>i.
         check_query E pt (0x30000000 + of_nat i * 0x1000) (\<lambda>mapping.
           [m_paddr mapping = 0x70000000 + of_nat i * 0x3000]))))))
     (test_setup w)"

definition test_cursor_error_invalidates_descent :: "(mock_flags, mock_heap, 'h) env \<Rightarrow>
    (mock_heap, 'h) world \<Rightarrow> unit res \<times> (mock_heap, 'h) world" where
  "test_cursor_error_invalidates_descent E w =
     with_table E (\<lambda>pt w.
       let v1 = 0x1000; v2 = 0x40000000; f = mapping_flags_new (mock_flags_of AF_READ) in
       bind_st (vrange (e_addr E) v1 Size4K, w) (\<lambda>r1 w.
       bind_st (vrange (e_addr E) v2 Size4K, w) (\<lambda>r2 w.
       bind_st (unwrap_st (walker_map E pt r1 (FromPhysAddr 0x2000) f w)) (\<lambda>_ w.
       bind_st (with_cursor E (\<lambda>cw.
         let (r, cw) = cursor_map E pt r1 (FromPhysAddr 0x2000) f cw in
         bind_st (assert_all [r = Err AlreadyMapped], cw) (\<lambda>_ cw.
         unwrap_st (cursor_map E pt r2 (FromPhysAddr 0x50000000) f cw))) w) (\<lambda>_.
       check_query E pt v2 (\<lambda>mapping. [m_paddr mapping = 0x50000000]))))))
     (test_setup w)"

end
