(* ===== verification/AllocInv.thy ===== *)
theory AllocInv
  imports Walker
begin

text \<open>
  Invariants of an allocator: what every allocation and deallocation keeps, every operation of the
  walker keeps, since it reaches the allocator through those two calls only.
\<close>

lemma bind_keeps:
  assumes "J (astate (snd rw))" "\<And>a w. fst rw = Ok a \<Longrightarrow> J (astate w) \<Longrightarrow> J (astate (snd (f a w)))"
  shows "J (astate (snd (bind_st rw f)))"
  using assms by (cases rw; cases "fst rw") auto

lemma astate_store [simp]: "astate (store E c i e w) = astate w"
  by (simp add: store_def)

lemma astate_flush [simp]: "astate (flush_leaf_range E rg w) = astate w"
  by (simp add: flush_leaf_range_def emit_def Let_def)

locale alloc_invariant =
  fixes E :: "('f, 's, 'h) env" and J :: "'s \<Rightarrow> bool"
  assumes allocate_keeps: "J s \<Longrightarrow> allocate (e_alloc E) (bytes (TABLE_FRAME_SIZE (e_meta E)))
      (TABLE_FRAME_SIZE (e_meta E)) (s, m) = (r, s', m') \<Longrightarrow> J s'"
    and deallocate_keeps: "J s \<Longrightarrow> deallocate (e_alloc E) rg (s, m) = (u, s', m') \<Longrightarrow> J s'"
begin

lemmas bindJ = bind_keeps [where J = J]

lemma call_deallocate_keeps: "J (astate w) \<Longrightarrow> J (astate (snd (call_deallocate E r w)))"
  using deallocate_keeps by (auto simp: call_deallocate_def split: prod.splits)

lemma dealloc_frame_keeps: "J (astate w) \<Longrightarrow> J (astate (snd (dealloc_table_frame E pa w)))"
  unfolding dealloc_table_frame_def by (rule bindJ) (simp_all add: call_deallocate_keeps)

lemma alloc_frame_keeps:
  assumes "J (astate w)"
  shows "J (astate (snd (alloc_table_frame E w)))"
proof -
  let ?ts = "TABLE_FRAME_SIZE (e_meta E)"
  obtain r s m where a: "allocate (e_alloc E) (bytes ?ts) ?ts (astate w, mem w) = (r, s, m)"
    by (metis prod_cases3)
  have s: "J s" by (rule allocate_keeps [OF assms a])
  show ?thesis
    unfolding alloc_table_frame_def Let_def a prod.case
  proof (rule bindJ, goal_cases)
    case (2 rg w')
    then show ?case using call_deallocate_keeps [of w' rg]
      by (cases "call_deallocate E rg w'"; cases "fst (call_deallocate E rg w')") auto
  qed (simp add: s)
qed

lemma try_new_keeps: "J (astate w) \<Longrightarrow> J (astate (snd (try_new E w)))"
  unfolding try_new_def by (rule bindJ) (simp_all add: alloc_frame_keeps)

lemma map_descend_keeps: "J (astate w) \<Longrightarrow> J (astate (snd (map_descend E target v l cur w)))"
proof (induction l arbitrary: cur w)
  case (Suc l)
  show ?case
    unfolding map_descend.simps Let_def
    by (auto intro!: bindJ Suc alloc_frame_keeps)
qed simp

lemma map_leaf_keeps: "J (astate w) \<Longrightarrow> J (astate (snd (map_leaf_direct_sized_no_flush E root rg p flags sz t w)))"
  unfolding map_leaf_direct_sized_no_flush_def
  by (rule bindJ) (auto simp: map_descend_keeps install_leaf_def Let_def)

lemma unmap_descend_keeps: "J (astate w) \<Longrightarrow> J (astate (snd (unmap_descend E rg l cur parents w)))"
proof (induction l arbitrary: cur parents w)
  case (Suc l)
  show ?case
    unfolding unmap_descend.simps Let_def by (auto intro!: bindJ Suc)
qed simp

lemma reclaim_keeps: "J (astate w) \<Longrightarrow> J (astate (snd (reclaim E parents child w)))"
  by (induction parents arbitrary: child w) (auto simp: Let_def intro!: bindJ dealloc_frame_keeps)

lemma unmap_keeps: "J (astate w) \<Longrightarrow> J (astate (snd (unmap E root rg w)))"
  unfolding unmap_def unmap_no_flush_def
  by (auto intro!: bindJ unmap_descend_keeps reclaim_keeps split: prod.split)

lemma ignore_keeps: "J (astate (snd rw)) \<Longrightarrow> J (astate (snd (ignore_result rw)))"
  by (cases rw; cases "fst rw") (auto simp: ignore_result_def)

lemma drop_children_keeps:
  assumes "\<And>pa w. J (astate w) \<Longrightarrow> J (astate (snd (rec pa w)))"
  shows "J (astate w) \<Longrightarrow> J (astate (snd (drop_children E rec level pa is w)))"
  by (induction "is" arbitrary: w) (auto simp: Let_def intro!: bindJ assms)

lemma drop_subtree_keeps: "J (astate w) \<Longrightarrow> J (astate (snd (drop_subtree E l pa w)))"
  by (induction l arbitrary: pa w) (auto intro!: bindJ ignore_keeps drop_children_keeps dealloc_frame_keeps)

lemma drop_keeps: "J (astate w) \<Longrightarrow> J (astate (snd (walker_drop E root w)))"
  unfolding walker_drop_def by (rule drop_subtree_keeps)

end

end
