(* ===== verification/CursorSupply.thy ===== *)
theory CursorSupply
  imports ReclaimSpec
begin

text \<open>
  A cursor that maps free leaves of an allocator with a supply of frames: it succeeds, it logs
  nothing and the tables on the path of a leaf are counted.
\<close>

section \<open>Trees and logs\<close>

lemma length_concat_member: "x \<in> set xs \<Longrightarrow> length (f x) \<le> length (concat (map f xs))"
  by (simp add: length_concat o_def member_le_sum_list)

context walker
begin

text \<open>A path goes through as many tables as it has levels.\<close>

lemma path_tables:
  "\<lbrakk>table_at E m l f v t = Some g; l \<le> LEVELS (e_meta E)\<rbrakk> \<Longrightarrow> l < length (tables E m l f) + t"
proof (induction l arbitrary: f)
  case (Suc l)
  show ?case
  proof (cases "t = Suc l")
    case False
    then obtain h where h: "child E (Suc l) (read_entry E m f (index_at (e_meta E) (Suc l) v)) = Some h"
      "table_at E m l h v t = Some g"
      using Suc.prems(1) table_at_child by blast
    let ?b = "\<lambda>i. case child E (Suc l) (read_entry E m f i) of None \<Rightarrow> [] | Some g \<Rightarrow> tables E m l g"
    have "index_at (e_meta E) (Suc l) v \<in> set [0..<ENTRIES_PER_TABLE (e_meta E)]"
      using index_at_less [of "Suc l"] Suc.prems(2) by simp
    from length_concat_member [OF this, of ?b] have
      "length (tables E m l h) \<le> length (concat (map ?b [0..<ENTRIES_PER_TABLE (e_meta E)]))"
      by (simp add: h(1))
    moreover have "l < length (tables E m l h) + t" using Suc.IH [OF h(2)] Suc.prems(2) by simp
    ultimately show ?thesis unfolding tables.simps length_Cons by linarith
  qed (simp add: tables.simps)
qed simp

lemma mapped_tables:
  assumes "root_view E w root v = Ok (t, e)"
  shows "LEVELS (e_meta E) < length (root_tables E w root) + t"
proof -
  from assms obtain f where "find_leaf E (mem w) (LEVELS (e_meta E)) root v = Ok (t, f, e)"
    by (auto simp: view_def bind_res_eq_Ok)
  from find_leaf_table_at [OF this] show ?thesis using path_tables by blast
qed

lemma map_descend_log:
  "map_descend E target v l cur w = (Ok ck, w') \<Longrightarrow> log w' = log w"
proof (induction l arbitrary: cur w)
  case (Suc l)
  let ?i = "index_at (e_meta E) (Suc l) v"
  let ?e = "read_entry E (mem w) cur ?i"
  obtain ra w1 where a: "alloc_table_frame E w = (ra, w1)" by fastforce
  show ?case
  proof (cases "target < Suc l")
    case True
    show ?thesis
    proof (cases "is_present (e_pte E) ?e")
      case p: True
      then show ?thesis using Suc True
        by (auto simp: Let_def entry_is_leaf_def split: pte_kind.splits if_splits)
    next
      case False
      show ?thesis
      proof (cases ra)
        case (Ok g)
        with Suc True False a show ?thesis
          using alloc_table_frame_spec(3) [OF a] by (force simp: Let_def store_def)
      qed (use Suc.prems True False a in \<open>simp_all add: Let_def\<close>)
    qed
  qed (use Suc.prems in \<open>auto simp: Let_def\<close>)
qed simp

lemma map_leaf_log:
  assumes "map_leaf_direct_sized_no_flush E root rg p flags sz t w = (Ok (), w')"
  shows "log w' = log w"
proof -
  obtain r w1 where d: "map_descend E t (rng_start rg) (LEVELS (e_meta E)) root w = (r, w1)" by fastforce
  show ?thesis
  proof (cases r)
    case (Ok ck)
    then show ?thesis using assms map_descend_log [OF d [unfolded Ok]] d
      by (auto simp: map_leaf_direct_sized_no_flush_def install_leaf_def Let_def store_def
          split: prod.splits if_splits)
  qed (use assms d in \<open>simp_all add: map_leaf_direct_sized_no_flush_def\<close>)
qed

text \<open>Mapping one free leaf through a cursor.\<close>

lemma map_contiguous_leaf:
  fixes w :: "('s, 'h) world"
  assumes ok: "tree_ok E live root w" and acc: "accounts live out E root w" and cache: "cache_ok E root c w"
    and sup: "frame_supply E room" "LEVELS (e_meta E) - target \<le> room (astate w)"
    and free: "slot_free E root (rng_start rg) target w"
    and sz: "size_to_level (e_meta E) sz = Some target"
    and p: "is_aligned sz p" "paddr_is_valid (e_meta E) p" "flags_ok flags"
    and chk: "check_leaf_range (e_addr E) (e_meta E) rg = Ok sz"
    and fixed: "fixed = None \<or> fixed = Some sz"
  shows "\<exists>c' w'. map_contiguous E root rg \<lparr>rng_start = p, rng_end = p + bytes sz\<rparr> flags fixed (c, w) = (Ok (), (c', w')) \<and>
    cache_ok E root c' w' \<and> same_queue (queue_flush_range E rg c) c' \<and>
    map_leaf_direct_sized_no_flush E root rg p flags sz target w = (Ok (), w')"
proof -
  from map_leaf_supply [OF ok acc sup free sz p] obtain w1 where
    d: "map_leaf_direct_sized_no_flush E root rg p flags sz target w = (Ok (), w1)" by blast
  note rg = check_leaf_range_Ok [OF chk] and t = size_to_level_size [OF sz]
  let ?phys = "\<lparr>rng_start = p, rng_end = p + bytes sz\<rparr>"
  have ex: "exact_leaf_size (e_addr E) (e_meta E) rg p fixed = Ok (Some (sz, target))"
    using chk p sz rg(2) fixed
    by (auto simp: check_leaf_range_def exact_leaf_size_def check_paddr_def bind_res_eq_Ok split: if_splits)
  have le: "p \<le> p + bytes sz"
    using conjunct2 [OF checked_add_Some [OF paddr_checked_add [OF p(2), of sz]]]
    unfolding word_le_nat_alt by linarith
  have ps: "range_size (e_addr E) ?phys = bytes sz" "\<not> range_is_empty (e_addr E) ?phys"
    using le addr_size [OF addr_ok, of ?phys] addr_is_empty [OF addr_ok, of ?phys] by auto
  have ne: "\<not> range_is_empty (e_addr E) rg" using chk by (auto simp: check_leaf_range_def split: if_splits)
  obtain r c' w' where m: "map_leaf_sized_at_level E root rg p flags sz target (c, w) = (r, (c', w'))"
    by (metis prod_cases3)
  note sp = map_leaf_at_level_spec [OF ok cache t(1,2) m]
  have r: "r = Ok ()" "w' = w1" using sp(1) d by simp_all
  have "map_contiguous E root rg ?phys flags fixed (c, w) = (Ok (), (c', w'))"
    using ps ne ex m r by (simp add: map_contiguous_def rg(2))
  then show ?thesis using sp(2) [OF r(1)] d r by blast
qed

lemma cursor_map_leaf:
  fixes w :: "('s, 'h) world"
  assumes ok: "tree_ok E live root w" and acc: "accounts live out E root w" and cache: "cache_ok E root c w"
    and sup: "frame_supply E room" "LEVELS (e_meta E) - target \<le> room (astate w)"
    and free: "slot_free E root (rng_start rg) target w"
    and sz: "size_to_level (e_meta E) sz = Some target"
    and p: "is_aligned sz p" "paddr_is_valid (e_meta E) p" "flags_ok flags"
    and chk: "check_leaf_range (e_addr E) (e_meta E) rg = Ok sz"
  shows "\<exists>c' w'. cursor_map E root rg (FromPhysAddr p) (mapping_flags_new flags) (c, w) = (Ok (), (c', w')) \<and>
    cache_ok E root c' w' \<and> same_queue (queue_flush_range E rg c) c' \<and>
    map_leaf_direct_sized_no_flush E root rg p flags sz target w = (Ok (), w')"
proof -
  have le: "p \<le> p + bytes sz"
    using conjunct2 [OF checked_add_Some [OF paddr_checked_add [OF p(2), of sz]]]
    unfolding word_le_nat_alt by linarith
  have "into_map_backing (e_addr E) (FromPhysAddr p) (range_size (e_addr E) rg) =
      Ok (ContiguousBacking \<lparr>rng_start = p, rng_end = p + bytes sz\<rparr>)"
    using paddr_checked_add [OF p(2)] le
    by (simp add: check_leaf_range_Ok(2) [OF chk] contiguous_from_start_size_def addr_from_start_size [OF addr_ok])
  then show ?thesis
    using map_contiguous_leaf [OF assms, of None] by (simp add: cursor_map_def mapping_flags_new_def)
qed

end

end
