(* ===== verification/MockRuns.thy ===== *)
theory MockRuns
  imports MockTests AllocInv CursorSupply
begin

text \<open>
  The theorems of the walker applied to the test host: from a fresh table every step that the unit
  tests make succeeds, its lookups are known and the live counter of the allocator is the number of
  tables, as long as the heap still has frames.
\<close>

section \<open>Room\<close>

text \<open>The blocks are table frames, each in use once, and the counter counts them.\<close>

definition mock_counted :: "mock_heap \<Rightarrow> bool" where
  "mock_counted s \<longleftrightarrow> distinct (map fst (frame_store s)) \<and>
     live_counter s = of_nat (length (frame_store s)) \<and>
     (\<forall>b\<in>set (frame_store s). snd b = (bytes Size4K, bytes Size4K) \<and> frame_ok MockMeta (fst b))"

text \<open>A heap that serves a frame as long as fewer than \<open>N\<close> blocks are in use, all of them frames.\<close>

definition heap_room :: "os_heap \<Rightarrow> nat \<Rightarrow> bool" where
  "heap_room h N \<longleftrightarrow> (\<forall>s. mock_counted s \<longrightarrow> length (frame_store s) < N \<longrightarrow>
     h (frame_store s) (bytes Size4K, bytes Size4K) \<noteq> 0)"

lemma filter_absent: "k \<notin> fst ` set st \<Longrightarrow> filter (\<lambda>b. fst b \<noteq> k) st = st"
  by (induction st) auto

lemma length_remove:
  "distinct (map fst st) \<Longrightarrow> k \<in> fst ` set st \<Longrightarrow> Suc (length (store_remove k st)) = length st"
proof (induction st)
  case (Cons b st)
  then show ?case
    by (cases "fst b = k") (auto simp: store_remove_def filter_absent)
qed simp

lemma distinct_filter_fst: "distinct (map fst st) \<Longrightarrow> distinct (map fst (filter P st))"
  by (induction st) auto

lemma counted_allocate:
  assumes L: "addr_lib_ok L" and h: "heap_ok h" and c: "mock_counted s"
    and a: "mock_allocate L h (bytes Size4K) Size4K (s, m) = (r, s', m')"
  shows "mock_counted s' \<and> length (frame_store s') \<le> Suc (length (frame_store s))"
  using mock_allocate_frame [OF L h a]
proof (elim disjE exE conjE, goal_cases)
  case 1
  then show ?case using c by simp
next
  case (2 raw)
  have "raw \<notin> fst ` set (frame_store s)"
  proof
    assume "raw \<in> fst ` set (frame_store s)"
    then obtain b where "b \<in> set (frame_store s)" "fst b = raw" by auto
    moreover from this have "snd b = (bytes Size4K, bytes Size4K)" using c by (simp add: mock_counted_def)
    ultimately have "(raw, (bytes Size4K, bytes Size4K)) \<in> set (frame_store s)" by (metis prod.collapse)
    with 2(8) have "unat raw + unat (bytes Size4K) \<le> unat raw \<or> unat raw + 4096 \<le> unat raw" by blast
    then show False by simp
  qed
  then show ?case
    using c 2 by (simp add: mock_counted_def store_insert_def filter_absent)
qed

lemma counted_deallocate:
  assumes c: "mock_counted s" and d: "mock_deallocate L rg (s, m) = (u, s', m')"
  shows "mock_counted s'"
proof (cases "map_of (frame_store s) (rng_start rg)")
  case None
  then show ?thesis using c d by (simp add: mock_deallocate_def)
next
  case (Some layout)
  let ?k = "rng_start rg"
  have mem: "(?k, layout) \<in> set (frame_store s)" by (rule map_of_SomeD [OF Some])
  then have k: "?k \<in> fst ` set (frame_store s)" by force
  have b: "layout = (bytes Size4K, bytes Size4K)" "frame_ok MockMeta ?k"
    using c mem by (auto simp: mock_counted_def)
  have dist: "distinct (map fst (frame_store s))" using c by (simp add: mock_counted_def)
  note len = length_remove [OF dist k]
  have rem: "distinct (map fst (store_remove ?k (frame_store s)))" "?k \<notin> fst ` set (store_remove ?k (frame_store s))"
    "\<forall>b\<in>set (store_remove ?k (frame_store s)). snd b = (bytes Size4K, bytes Size4K) \<and> frame_ok MockMeta (fst b)"
    using c distinct_filter_fst [OF dist] by (auto simp: mock_counted_def store_remove_def)
  have cnt: "live_counter s = of_nat (Suc (length (store_remove ?k (frame_store s))))"
    using c len by (simp add: mock_counted_def)
  show ?thesis
  proof (cases "fst layout = range_size L rg")
    case True
    then have "s' = s\<lparr>frame_store := store_remove ?k (frame_store s), live_counter := live_counter s - 1\<rparr>"
      using d by (simp add: mock_deallocate_def Some Let_def)
    then show ?thesis using rem cnt by (simp add: mock_counted_def)
  next
    case False
    then have "s' = s\<lparr>frame_store := store_insert ?k layout (store_remove ?k (frame_store s))\<rparr>"
      using d by (simp add: mock_deallocate_def Some Let_def)
    then show ?thesis
      using rem cnt b by (simp add: mock_counted_def store_insert_def filter_absent)
  qed
qed

text \<open>The counter is the number of live frames.\<close>

lemma counted_live:
  assumes "mock_counted s"
  shows "mock_live s = set (map fst (frame_store s))" "live_counter s = of_nat (card (mock_live s))"
proof -
  have d: "distinct (map fst (frame_store s))"
    and b: "\<And>b. b \<in> set (frame_store s) \<Longrightarrow> snd b = (bytes Size4K, bytes Size4K) \<and> frame_ok MockMeta (fst b)"
    using assms by (auto simp: mock_counted_def)
  have eq: "map_of (frame_store s) f = Some l \<longleftrightarrow> (f, l) \<in> set (frame_store s)" for f l
    by (rule map_of_eq_Some_iff [OF d])
  show live: "mock_live s = set (map fst (frame_store s))"
    using b unfolding mock_live_def eq by (auto simp: image_iff) (metis fst_conv snd_conv)+
  show "live_counter s = of_nat (card (mock_live s))"
    unfolding live distinct_card [OF d] using assms by (simp add: mock_counted_def)
qed

section \<open>Pages\<close>

definition page_at :: "usize \<Rightarrow> page_size \<Rightarrow> addr_range" where
  "page_at start sz = \<lparr>rng_start = start, rng_end = start + bytes sz\<rparr>"

text \<open>A leaf-sized request that the format can encode.\<close>

definition page_ok :: "usize \<Rightarrow> page_size \<Rightarrow> paddr \<Rightarrow> bool" where
  "page_ok start sz p \<longleftrightarrow> is_aligned sz start \<and> is_aligned sz p \<and>
     unat start + unat (bytes sz) \<le> 2 ^ 48 \<and> unat p < 2 ^ 52"

lemma page_at_sel [simp]: "rng_start (page_at start sz) = start"
  by (simp add: page_at_def)

lemma page_end:
  assumes "unat start + unat (bytes sz) \<le> 2 ^ 48"
  shows "unat (start + bytes sz) = unat start + unat (bytes sz)"
  using assms by (intro unat_add_lem [THEN iffD1]) simp

lemma in_page:
  assumes "unat start + unat (bytes sz) \<le> 2 ^ 48"
  shows "in_range (page_at start sz) v \<longleftrightarrow> unat start \<le> unat v \<and> unat v < unat start + unat (bytes sz)"
  using page_end [OF assms] by (simp add: in_range_def page_at_def word_le_nat_alt word_less_nat_alt)

lemma vrange_page:
  assumes "addr_lib_ok L" "unat start + unat (bytes sz) \<le> 2 ^ 48"
  shows "vrange L start sz = Ok (page_at start sz)"
  using assms(2) by (simp add: vrange_def page_at_def addr_from_start_size [OF assms(1)] checked_add_def)

lemma page_check:
  assumes L: "addr_lib_ok L" and ok: "page_ok start sz p"
  shows "check_leaf_range L MockMeta (page_at start sz) = Ok sz"
    "paddr_is_valid MockMeta p" "vaddr_is_valid MockMeta start"
    "range_size L (page_at start sz) = bytes sz" "range_ok (page_at start sz)"
proof -
  have b: "unat start + unat (bytes sz) \<le> 2 ^ 48" using ok by (simp add: page_ok_def)
  note e = page_end [OF b]
  have pos: "0 < unat (bytes sz)" by (simp add: unat_bytes)
  then have le: "start < start + bytes sz" by (simp add: word_less_nat_alt e)
  show sz: "range_size L (page_at start sz) = bytes sz"
    using addr_size [OF L, of "page_at start sz"] le by (simp add: page_at_def)
  show "range_ok (page_at start sz)" using le by (simp add: range_ok_def page_at_def)
  have s: "unat start < 2 ^ 48" using b pos by linarith
  then show vs: "vaddr_is_valid MockMeta start"
    by (simp add: mock_meta_fields default_vaddr_is_valid_def word_less_nat_alt)
  have "0 < unat (start + bytes sz)" using pos e by linarith
  then have one: "1 \<le> start + bytes sz" by (simp add: word_le_nat_alt)
  have "unat (start + bytes sz - 1) = unat (start + bytes sz) - 1" using unat_sub [OF one] by simp
  then have "unat (start + bytes sz - 1) < 2 ^ 48" using b pos e by linarith
  then have vl: "vaddr_is_valid MockMeta (start + bytes sz - 1)"
    by (simp add: mock_meta_fields default_vaddr_is_valid_def word_less_nat_alt)
  show "check_leaf_range L MockMeta (page_at start sz) = Ok sz"
    using ok le vs vl sz one
    by (simp add: check_leaf_range_def addr_is_empty [OF L] check_vaddr_def addr_checked_sub [OF L] page_ok_def)
      (simp add: page_at_def)
  show "paddr_is_valid MockMeta p"
    using ok by (simp add: page_ok_def mock_meta_fields default_paddr_is_valid_def word_less_nat_alt)
qed

lemma mock_size_to_level:
  "size_to_level MockMeta Size4K = Some 1" "size_to_level MockMeta Size2M = Some 2"
  by (simp_all add: MockMeta_def default_size_to_level_Some mock_level_supports_leaf_def)

section \<open>The test host\<close>

locale test_host =
  fixes L :: addr_lib and h :: os_heap and T :: "'h tlb_impl" and N :: nat
  assumes addr: "addr_lib_ok L" and heap: "heap_ok h" and room: "heap_room h N" and many: "2000 \<le> N"

sublocale test_host < mock: walker "mock_env L h MockMeta T" "\<lambda>_. True" mock_normal_flags mock_live
  by (rule mock_walker [OF addr heap])

sublocale test_host < counted: alloc_invariant "mock_env L h MockMeta T" mock_counted
proof (unfold_locales, goal_cases)
  case (1 s m r s' m')
  then show ?case using counted_allocate [OF addr heap] by (simp add: MockAlloc_def mock_meta_fields)
next
  case (2 s rg m u s' m')
  then show ?case using counted_deallocate by (simp add: MockAlloc_def)
qed

context test_host
begin

abbreviation E :: "(mock_flags, mock_heap, 'h) env" where
  "E \<equiv> mock_env L h MockMeta T"

abbreviation used :: "(mock_heap, 'h) world \<Rightarrow> nat" where
  "used w \<equiv> length (frame_store (astate w))"

abbreviation room_of :: "mock_heap \<Rightarrow> nat" where
  "room_of s \<equiv> if mock_counted s then N - length (frame_store s) else 0"

lemma total: "dealloc_total E mock_live"
  by (rule mock_dealloc_total [OF addr])

lemma mock_supply: "frame_supply E room_of"
  unfolding frame_supply_def
proof (intro allI impI)
  fix s m
  assume "0 < room_of s"
  then have cs: "mock_counted s" and r: "h (frame_store s) (bytes Size4K, bytes Size4K) \<noteq> 0"
    using room unfolding heap_room_def by (auto split: if_splits)
  obtain res s' m' where a: "mock_allocate L h (bytes Size4K) Size4K (s, m) = (res, s', m')"
    by (metis prod_cases3)
  from mock_allocate_frame [OF addr heap a] r obtain raw where raw:
    "res = Ok \<lparr>rng_start = raw, rng_end = raw + bytes Size4K\<rparr>"
    "s' = s\<lparr>frame_store := store_insert raw (bytes Size4K, bytes Size4K) (frame_store s),
              live_counter := live_counter s + 1\<rparr>"
    "frame_ok MockMeta raw" "unat raw + 4096 \<le> 2 ^ 52" by blast
  have "unat (raw + bytes Size4K) = unat raw + unat (bytes Size4K)"
    using raw(4) by (intro unat_add_lem [THEN iffD1]) simp
  then have "raw \<le> raw + bytes Size4K" by (simp add: word_le_nat_alt)
  then have "range_size L \<lparr>rng_start = raw, rng_end = raw + bytes Size4K\<rparr> = bytes Size4K"
    by (simp add: addr_size [OF addr])
  then have size: "range_size (e_addr E) \<lparr>rng_start = raw, rng_end = raw + bytes Size4K\<rparr> = bytes (TABLE_FRAME_SIZE (e_meta E))"
    by (simp add: mock_meta_fields)
  have le: "room_of s \<le> Suc (room_of s')" using counted_allocate [OF addr heap cs a] cs by simp linarith
  have al: "allocate (e_alloc E) (bytes (TABLE_FRAME_SIZE (e_meta E))) (TABLE_FRAME_SIZE (e_meta E)) (s, m) =
      (Ok \<lparr>rng_start = raw, rng_end = raw + bytes Size4K\<rparr>, s', m')"
    using a raw(1) by (simp add: MockAlloc_def mock_meta_fields)
  have "is_aligned (TABLE_FRAME_SIZE (e_meta E)) raw" using raw(3) by (simp add: frame_ok_def)
  then show "\<exists>r s' m'. allocate (e_alloc E) (bytes (TABLE_FRAME_SIZE (e_meta E))) (TABLE_FRAME_SIZE (e_meta E)) (s, m) =
       (Ok r, s', m') \<and> range_size (e_addr E) r = bytes (TABLE_FRAME_SIZE (e_meta E)) \<and>
     is_aligned (TABLE_FRAME_SIZE (e_meta E)) (rng_start r) \<and> room_of s \<le> Suc (room_of s')"
    using al size le by (metis addr_range.select_convs(1))
qed

text \<open>
  The state between the steps of a test: the invariant, no frame lost, the counter right, and room
  for \<open>n\<close> more tables.
\<close>

definition ready :: "paddr \<Rightarrow> (mock_heap, 'h) world \<Rightarrow> nat \<Rightarrow> bool" where
  "ready root w n \<longleftrightarrow> tree_ok E mock_live root w \<and> accounts mock_live {} E root w \<and> mock_counted (astate w) \<and>
     used w + n \<le> N"

lemma ready_le: "ready root w n \<Longrightarrow> k \<le> n \<Longrightarrow> ready root w k"
  by (simp add: ready_def)

lemma tables_used:
  assumes t: "tree_ok E mock_live root w" and "accounts mock_live {} E root w" "mock_counted (astate w)"
  shows "used w = length (root_tables E w root)" "live_count w = of_nat (length (root_tables E w root))"
proof -
  have c: "mock_counted (astate w)" "mock_live (astate w) = set (root_tables E w root)"
    "distinct (root_tables E w root)"
    using assms tree_okD(1) [OF t] by (simp_all add: accounts_def)
  then have "distinct (map fst (frame_store (astate w)))" by (simp add: mock_counted_def)
  then have "used w = card (mock_live (astate w))" using counted_live(1) [OF c(1)] by (metis distinct_card length_map)
  then show "used w = length (root_tables E w root)" using c(2) distinct_card [OF c(3)] by simp
  show "live_count w = of_nat (length (root_tables E w root))"
    using counted_live(2) [OF c(1)] c(2) distinct_card [OF c(3)] by (simp add: live_count_def)
qed

lemma ready_used:
  assumes "ready root w n"
  shows "used w = length (root_tables E w root)" "live_count w = of_nat (length (root_tables E w root))"
  using tables_used [of root w] assms by (simp_all add: ready_def)

section \<open>Scopes\<close>

lemma try_new_ready:
  assumes "Suc n \<le> N"
  obtains pt w' where "try_new E (test_setup w) = (Ok pt, w')" "ready pt w' n" "\<And>v t. slot_free E pt v t w'"
    "log w' = []" "used w' = 1"
proof -
  let ?w = "test_setup w"
  have st: "frame_store (astate ?w) = []" "mock_counted (astate ?w)"
    by (simp_all add: test_setup_def reset_alloc_def mock_counted_def)
  then have "0 < room_of (astate ?w)" using assms st by simp
  from supply_alloc [OF mock_supply this] obtain pt w' where a: "alloc_table_frame E ?w = (Ok pt, w')" by blast
  then have t: "try_new E ?w = (Ok pt, w')" by (simp add: try_new_def mock.assert_layout)
  have c: "mock_counted (astate w')" using counted.try_new_keeps [OF st(2)] t by simp
  have l: "mock_live (astate ?w) = {}" by (simp add: mock_live_def st)
  note new = mock.try_new_spec(3) [OF t refl]
  have one: "length (root_tables E w' pt) = 1" using new by simp
  have "accounts mock_live {} E pt w'" using mock.try_new_accounts [OF t] l by simp
  then have k: "tree_ok E mock_live pt w' \<and> accounts mock_live {} E pt w' \<and> mock_counted (astate w')"
    using new c by simp
  have u: "used w' = 1" using k one counted_live(1) [OF c]
    by (metis accounts_def distinct_card length_map mock_counted_def sup_bot.left_neutral tree_okD(1))
  then have r: "ready pt w' n" using k assms by (simp add: ready_def)
  have "log w' = []" using mock.alloc_table_frame_spec(3) [OF a refl] by (simp add: test_setup_def)
  then show thesis using that t r u mock.try_new_slot_free [OF t] by blast
qed

text \<open>A table scope: its body starts from an empty table and the drop returns every frame.\<close>

lemma with_table_run:
  assumes "Suc n \<le> N"
    and "\<And>pt w'. \<lbrakk>ready pt w' n; \<And>v t. slot_free E pt v t w'; log w' = []; used w' = 1\<rbrakk> \<Longrightarrow>
      \<exists>w''. body pt w' = (Ok (), w'') \<and> ready pt w'' 0"
  shows "\<exists>w'. with_table E body (test_setup w) = (Ok (), w') \<and> live_count w' = 0"
proof -
  from try_new_ready [OF assms(1)] obtain pt w1 where t: "try_new E (test_setup w) = (Ok pt, w1)"
    and r: "ready pt w1 n" "\<And>v t. slot_free E pt v t w1" "log w1 = []" "used w1 = 1" by blast
  from assms(2) [OF r] obtain w2 where b: "body pt w1 = (Ok (), w2)" "ready pt w2 0" by blast
  have ok: "tree_ok E mock_live pt w2" "mock_counted (astate w2)"
    "mock_live (astate w2) = set (root_tables E w2 pt)"
    using b(2) by (simp_all add: ready_def accounts_def)
  obtain w' where d: "walker_drop E pt w2 = (Ok (), w')" "releases E mock_live (set (root_tables E w2 pt)) w2 w'"
    using mock.walker_drop_spec [OF ok(1)] by blast
  have "mock_live (astate w') = {}" using d(2) total ok(3) unfolding releases_def by blast
  moreover have "mock_counted (astate w')" using counted.drop_keeps [OF ok(2), of pt] d(1) by simp
  ultimately have "live_count w' = 0" using counted_live(2) by (simp add: live_count_def)
  then show ?thesis using d(1) by (simp add: with_table_def t unwrap_st_def b(1))
qed

lemma with_table_pass:
  assumes "Suc n \<le> N"
    and "\<And>pt w'. \<lbrakk>ready pt w' n; \<And>v t. slot_free E pt v t w'; log w' = []; used w' = 1\<rbrakk> \<Longrightarrow>
      \<exists>w''. body pt w' = (Ok (), w'') \<and> tree_ok E mock_live pt w''"
  shows "fst (with_table E body (test_setup w)) = Ok ()"
proof -
  from try_new_ready [OF assms(1)] obtain pt w1 where t: "try_new E (test_setup w) = (Ok pt, w1)"
    and r: "ready pt w1 n" "\<And>v t. slot_free E pt v t w1" "log w1 = []" "used w1 = 1" by metis
  from assms(2) [OF r] obtain w2 where b: "body pt w1 = (Ok (), w2)" "tree_ok E mock_live pt w2" by blast
  show ?thesis using mock.walker_drop_spec [OF b(2)] by (auto simp: with_table_def t unwrap_st_def b(1))
qed

lemma fresh_query:
  assumes "\<And>v t. slot_free E pt v t w" "unat v < 2 ^ 48"
  shows "query E pt v (mem w) = Err NotMapped"
  by (rule mock.query_not_mapped)
    (use assms in \<open>simp_all add: slot_free_def mock_meta_fields default_vaddr_is_valid_def word_less_nat_alt\<close>)

section \<open>Steps\<close>

lemma mapping_page_at:
  "m_range (mapping_new rg p f) = rg" "m_paddr (mapping_new rg p f) = p" "m_flags (mapping_new rg p f) = f"
  by (simp_all add: mapping_new_def)

lemma mapping_size_page:
  assumes "page_ok start sz p"
  shows "mapping_size L (mapping_new (page_at start sz) q f) = Some sz"
  by (simp add: mapping_size_def mapping_new_def page_check(4) [OF addr assms])

text \<open>What a successful map of one page does to a table.\<close>

definition maps_page :: "paddr \<Rightarrow> usize \<Rightarrow> page_size \<Rightarrow> paddr \<Rightarrow> mock_flags \<Rightarrow> (mock_heap, 'h) world \<Rightarrow>
    (mock_heap, 'h) world \<Rightarrow> bool" where
  "maps_page pt start sz p f w w' \<longleftrightarrow>
     (\<forall>v. query E pt v (mem w') = (if unat start \<le> unat v \<and> unat v < unat start + unat (bytes sz)
       then Ok (mapping_new (page_at start sz) p (mock_normal_flags f)) else query E pt v (mem w)))"

lemma leaf_step:
  assumes r: "ready pt w (Suc (n + 3))" and p: "page_ok start sz p" and t: "size_to_level MockMeta sz = Some t"
    and free: "slot_free E pt start t w"
  obtains w' where "map_leaf_direct_sized_no_flush E pt (page_at start sz) p f sz t w = (Ok (), w')"
    "ready pt w' (Suc n)" "maps_page pt start sz p f w w'" "log w' = log w" "used w' \<le> used w + 3"
proof -
  note c = page_check [OF addr p]
  have ok: "tree_ok E mock_live pt w" "accounts mock_live {} E pt w" "mock_counted (astate w)" "used w + n + 4 \<le> N"
    using r by (simp_all add: ready_def)
  have t1: "1 \<le> t" "t \<le> 4" "size_to_level (e_meta E) sz = Some t"
    using mock_meta.size_to_level_size [OF t] t by (simp_all add: mock_meta_fields)
  then have sp: "LEVELS (e_meta E) - t \<le> room_of (astate w)" using ok(3,4) by (simp add: mock_meta_fields)
  have al: "is_aligned sz p" "paddr_is_valid (e_meta E) p" using p c by (simp_all add: page_ok_def)
  have chk: "check_leaf_range (e_addr E) (e_meta E) (page_at start sz) = Ok sz" using c(1) by simp
  have free': "slot_free E pt (rng_start (page_at start sz)) t w" using free by simp
  from mock.map_leaf_supply [OF ok(1,2) mock_supply sp free' t1(3) al TrueI] obtain w' where
    d: "map_leaf_direct_sized_no_flush E pt (page_at start sz) p f sz t w = (Ok (), w')"
      "accounts mock_live {} E pt w'" "room_of (astate w) \<le> room_of (astate w') + (LEVELS (e_meta E) - t)" by blast
  note rg = mock.check_leaf_range_Ok [OF chk]
  note q = mock.map_leaf_direct_query [OF ok(1) t1(3) al TrueI rg d(1)]
  have c': "mock_counted (astate w')" using counted.map_leaf_keeps [OF ok(3), of pt "page_at start sz" p f sz t] d(1) by simp
  have u: "used w' \<le> used w + 3" using d(3) t1 ok(3,4) c' by (simp add: mock_meta_fields)
  have "ready pt w' (Suc n)" using q d(2) u ok(4) c' by (simp add: ready_def)
  moreover have "maps_page pt start sz p f w w'"
    using q in_page [of start sz] p by (simp add: maps_page_def page_ok_def)
  ultimately show thesis using that d(1) mock.map_leaf_log [OF d(1)] u by blast
qed

lemma page_free:
  assumes "ready pt w n" "page_ok start sz p" "query E pt start (mem w) = Err NotMapped"
  shows "slot_free E pt start 1 w"
  using mock.page_slot_free [of pt w start] assms page_check(3) [OF addr assms(2)] by (simp add: ready_def)

lemma map_step:
  assumes r: "ready pt w (Suc (n + 3))" and p: "page_ok start sz p" and t: "size_to_level MockMeta sz = Some t"
    and free: "slot_free E pt start t w"
  obtains w' where "walker_map E pt (page_at start sz) (FromPhysAddr p) (mapping_flags_new f) w = (Ok (), w')"
    "ready pt w' (Suc n)" "maps_page pt start sz p f w w'" "used w' \<le> used w + 3"
proof -
  from leaf_step [OF assms] obtain w1 where d: "map_leaf_direct_sized_no_flush E pt (page_at start sz) p f sz t w = (Ok (), w1)"
    "ready pt w1 (Suc n)" "maps_page pt start sz p f w w1" "used w1 \<le> used w + 3" by blast
  note c = page_check [OF addr p]
  have ok: "tree_ok E mock_live pt w" "accounts mock_live {} E pt w" "mock_counted (astate w)" "used w + n + 4 \<le> N"
    using r by (simp_all add: ready_def)
  have t1: "1 \<le> t" "t \<le> 4" "size_to_level (e_meta E) sz = Some t"
    using mock_meta.size_to_level_size [OF t] t by (simp_all add: mock_meta_fields)
  then have sp: "LEVELS (e_meta E) - t \<le> room_of (astate w)" using ok(3,4) by (simp add: mock_meta_fields)
  have al: "is_aligned sz p" "paddr_is_valid (e_meta E) p" using p c by (simp_all add: page_ok_def)
  have chk: "check_leaf_range (e_addr E) (e_meta E) (page_at start sz) = Ok sz" using c(1) by simp
  have free': "slot_free E pt (rng_start (page_at start sz)) t w" using free by simp
  from mock.walker_map_leaf [OF ok(1,2) mock_supply sp free' t1(3) al TrueI chk, of f] d(1) have
    m: "walker_map E pt (page_at start sz) (FromPhysAddr p) (mapping_flags_new f) w =
      (Ok (), flush_leaf_range E (page_at start sz) w1)" by auto
  have "ready pt (flush_leaf_range E (page_at start sz) w1) (Suc n)"
    "maps_page pt start sz p f w (flush_leaf_range E (page_at start sz) w1)"
    using d by (simp_all add: ready_def maps_page_def flush_leaf_range_state)
  then show thesis using that m d(4) by simp
qed

definition unmaps_page :: "paddr \<Rightarrow> usize \<Rightarrow> page_size \<Rightarrow> (mock_heap, 'h) world \<Rightarrow> (mock_heap, 'h) world \<Rightarrow> bool" where
  "unmaps_page pt start sz w w' \<longleftrightarrow>
     (\<forall>v. query E pt v (mem w') = (if unat start \<le> unat v \<and> unat v < unat start + unat (bytes sz)
       then Err NotMapped else query E pt v (mem w)))"

text \<open>Unmap, protect and remap of a page that is mapped; without the flush, as a cursor runs them.\<close>

lemma exact_page:
  assumes "query E pt start (mem w) = Ok mp" "m_range mp = page_at start sz"
  shows "exact_query E pt (page_at start sz) (mem w) = Ok mp"
  using assms by (simp add: exact_query_Ok)

lemma unmap_step:
  assumes r: "ready pt w n" and p: "page_ok start sz p"
    and q: "query E pt start (mem w) = Ok mp" "m_range mp = page_at start sz"
  obtains w' where "unmap_no_flush E pt (page_at start sz) w = (Ok mp, w')" "ready pt w' n"
    "unmap E pt (page_at start sz) w = (Ok mp, flush_leaf_range E (page_at start sz) w')"
    "unmaps_page pt start sz w w'"
proof -
  have ok: "tree_ok E mock_live pt w" "accounts mock_live {} E pt w" "mock_counted (astate w)"
    using r by (simp_all add: ready_def)
  obtain res w' where u: "unmap_no_flush E pt (page_at start sz) w = (res, w')" by fastforce
  have res: "res = Ok mp"
    using mock.unmap_outcome(1) [OF ok(1) total, of "page_at start sz"] exact_page [OF q] u by simp
  have un: "unmap E pt (page_at start sz) w = (Ok mp, flush_leaf_range E (page_at start sz) w')"
    using u res q(2) by (simp add: unmap_def)
  note sp = mock.unmap_no_flush_spec [OF ok(1) u]
  have ok': "tree_ok E mock_live pt w'" "accounts mock_live {} E pt w'"
    using sp mock.unmap_accounts [OF ok(1,2) total u] by simp_all
  have c: "mock_counted (astate w')" using counted.unmap_keeps [OF ok(3), of pt "page_at start sz"] un by simp
  have qs: "\<forall>v. query E pt v (mem w') = (if in_range (page_at start sz) v then Err NotMapped else query E pt v (mem w))"
    and ms: "\<exists>fs. mset (root_tables E w pt) = mset (root_tables E w' pt) + mset fs"
    using sp res by auto
  from ms have "length (root_tables E w' pt) \<le> length (root_tables E w pt)"
    by (metis le_add1 size_mset size_union)
  then have "used w' \<le> used w" using tables_used(1) [OF ok' c] ready_used(1) [OF r] by simp
  then have "ready pt w' n" using ok' c r by (simp add: ready_def)
  then show thesis using that u res un qs in_page [of start sz] p by (simp add: page_ok_def unmaps_page_def)
qed

lemma protect_step:
  assumes r: "ready pt w n" and p: "page_ok start sz p"
    and q: "query E pt start (mem w) = Ok mp" "m_range mp = page_at start sz"
  obtains w' where "protect E pt (page_at start sz) f w = (Ok (mapping_new (page_at start sz) (m_paddr mp) f), w')"
    "tree_ok E mock_live pt w'"
    "query E pt start (mem w') = Ok (mapping_new (page_at start sz) (m_paddr mp) (mock_normal_flags f))"
proof -
  have ok: "tree_ok E mock_live pt w" using r by (simp add: ready_def)
  obtain res w' where u: "protect_no_flush E pt (page_at start sz) f w = (res, w')" by fastforce
  have res: "res = Ok (mapping_new (page_at start sz) (m_paddr mp) f)"
    using mock.protect_outcome [of pt "page_at start sz" f w] exact_page [OF q] u by simp
  have "in_range (page_at start sz) start" using in_page [of start sz] p by (simp add: page_ok_def unat_bytes)
  with mock.protect_no_flush_spec [OF ok TrueI u] res q have "tree_ok E mock_live pt w'"
    "query E pt start (mem w') = Ok (mapping_new (page_at start sz) (m_paddr mp) (mock_normal_flags f))" by auto
  moreover have "protect E pt (page_at start sz) f w =
      (Ok (mapping_new (page_at start sz) (m_paddr mp) f), flush_leaf_range E (page_at start sz) w')"
    using u res by (simp add: protect_def mapping_page_at)
  ultimately show thesis using that by (simp add: flush_leaf_range_state)
qed

lemma remap_step:
  assumes r: "ready pt w n" and p: "page_ok start sz p"
    and q: "query E pt start (mem w) = Ok mp" "m_range mp = page_at start sz"
  obtains w' where "remap E pt (page_at start sz) p f w = (Ok (mapping_new (page_at start sz) p f), w')"
    "tree_ok E mock_live pt w'"
    "query E pt start (mem w') = Ok (mapping_new (page_at start sz) p (mock_normal_flags f))"
proof -
  have ok: "tree_ok E mock_live pt w" using r by (simp add: ready_def)
  obtain res w' where u: "remap_no_flush E pt (page_at start sz) p f w = (res, w')" by fastforce
  have "unat (range_size (e_addr E) (page_at start sz)) dvd unat p"
    using p page_check(4) [OF addr p] by (simp add: page_ok_def is_aligned_dvd unat_bytes)
  then have res: "res = Ok (mapping_new (page_at start sz) p f)"
    using mock.remap_outcome [of pt "page_at start sz" p f w] exact_page [OF q] u page_check(2) [OF addr p]
    by (simp add: check_paddr_def)
  have "in_range (page_at start sz) start" using in_page [of start sz] p by (simp add: page_ok_def unat_bytes)
  with mock.remap_no_flush_spec [OF ok TrueI u] res q have "tree_ok E mock_live pt w'"
    "query E pt start (mem w') = Ok (mapping_new (page_at start sz) p (mock_normal_flags f))" by auto
  moreover have "remap E pt (page_at start sz) p f w =
      (Ok (mapping_new (page_at start sz) p f), flush_leaf_range E (page_at start sz) w')"
    using u res by (simp add: remap_def mapping_page_at)
  ultimately show thesis using that by (simp add: flush_leaf_range_state)
qed

text \<open>On a range that is not a leaf they report the same error and change nothing.\<close>

lemma refused_step:
  assumes ok: "tree_ok E mock_live pt w" and q: "exact_query E pt rg (mem w) = Err x"
  shows "unmap E pt rg w = (Err x, w)" "protect E pt rg f w = (Err x, w)"
    "paddr_is_valid MockMeta p \<Longrightarrow> remap E pt rg p f w = (Err x, w)"
proof -
  obtain r1 w1 where u: "unmap_no_flush E pt rg w = (r1, w1)" by fastforce
  obtain r2 w2 where v: "protect_no_flush E pt rg f w = (r2, w2)" by fastforce
  obtain r3 w3 where m: "remap_no_flush E pt rg p f w = (r3, w3)" by fastforce
  have "r1 = Err x" "r2 = Err x" "paddr_is_valid MockMeta p \<Longrightarrow> r3 = Err x"
    using mock.unmap_outcome(1) [OF ok total, of rg] mock.protect_outcome [of pt rg f w]
      mock.remap_outcome [of pt rg p f w] q u v m by (simp_all add: check_paddr_def)
  moreover from this have "w1 = w" "w2 = w" "paddr_is_valid MockMeta p \<Longrightarrow> w3 = w"
    using mock.unmap_outcome(2) [OF ok total, of rg] mock.protect_no_flush_spec [OF ok TrueI v]
      mock.remap_no_flush_spec [OF ok TrueI m] u by auto
  ultimately show "unmap E pt rg w = (Err x, w)" "protect E pt rg f w = (Err x, w)"
    "paddr_is_valid MockMeta p \<Longrightarrow> remap E pt rg p f w = (Err x, w)"
    using u v m by (simp_all add: unmap_def protect_def remap_def)
qed

text \<open>A page that is mapped is not mapped again.\<close>

lemma exact_leaf_page:
  assumes p: "page_ok start sz p" and t: "size_to_level MockMeta sz = Some t"
  shows "exact_leaf_size L MockMeta (page_at start sz) p None = Ok (Some (sz, t))"
  using page_check [OF addr p] p t
  by (auto simp: check_leaf_range_def exact_leaf_size_def check_paddr_def bind_res_eq_Ok page_ok_def split: if_splits)

lemma backing_page:
  assumes p: "page_ok start sz p"
  shows "into_map_backing L (FromPhysAddr p) (bytes sz) = Ok (ContiguousBacking \<lparr>rng_start = p, rng_end = p + bytes sz\<rparr>)"
    "range_size L \<lparr>rng_start = p, rng_end = p + bytes sz\<rparr> = bytes sz"
    "\<not> range_is_empty L \<lparr>rng_start = p, rng_end = p + bytes sz\<rparr>"
proof -
  have "unat (bytes sz) \<le> 2 ^ 48" "unat p < 2 ^ 52" "0 < unat (bytes sz)"
    using p by (simp_all add: page_ok_def unat_bytes)
  then have e: "unat (p + bytes sz) = unat p + unat (bytes sz)" "checked_add p (bytes sz) = Some (p + bytes sz)"
    by (simp_all add: unat_add_lem [THEN iffD1] checked_add_def)
  then have le: "p < p + bytes sz" using \<open>0 < unat (bytes sz)\<close> by (simp add: word_less_nat_alt)
  show "into_map_backing L (FromPhysAddr p) (bytes sz) = Ok (ContiguousBacking \<lparr>rng_start = p, rng_end = p + bytes sz\<rparr>)"
    using e le by (simp add: contiguous_from_start_size_def addr_from_start_size [OF addr])
  show "range_size L \<lparr>rng_start = p, rng_end = p + bytes sz\<rparr> = bytes sz"
    "\<not> range_is_empty L \<lparr>rng_start = p, rng_end = p + bytes sz\<rparr>"
    using le addr_size [OF addr] addr_is_empty [OF addr] by auto
qed

lemma map_again:
  assumes r: "ready pt w n" and p: "page_ok start sz p" and t: "size_to_level MockMeta sz = Some t"
    and q: "query E pt start (mem w) = Ok mp"
  shows "walker_map E pt (page_at start sz) (FromPhysAddr p) (mapping_flags_new f) w = (Err AlreadyMapped, w)"
proof -
  obtain t' e where v: "root_view E w pt start = Ok (t', e)" using mock.query_OkD [OF q] by metis
  have t1: "1 \<le> t" "t \<le> LEVELS (e_meta E)"
    using mock_meta.size_to_level_size [OF t] by (simp_all add: mock_meta_fields)
  have "map_leaf_direct_sized_no_flush E pt (page_at start sz) p f sz t w = (Err AlreadyMapped, w)"
    by (rule mock.map_leaf_direct_mapped [OF _ t1]) (use v in simp)
  then show ?thesis
    using backing_page [OF p] page_check(4) [OF addr p] exact_leaf_page [OF p t]
    by (simp add: walker_map_def mapping_flags_new_def)
qed

text \<open>Unmapping what was mapped leaves as many tables as there were.\<close>

lemma map_unmap_used:
  assumes r: "ready pt w (Suc (n + 3))" and p: "page_ok start sz p" and t: "size_to_level MockMeta sz = Some t"
    and free: "slot_free E pt start t w"
    and m: "walker_map E pt (page_at start sz) (FromPhysAddr p) (mapping_flags_new f) w = (Ok (), w1)"
    and u: "unmap E pt (page_at start sz) w1 = (res, w2)" and r2: "mock_counted (astate w2)"
  shows "used w2 \<le> used w"
proof -
  note c = page_check [OF addr p]
  have ok: "tree_ok E mock_live pt w" "accounts mock_live {} E pt w" "mock_counted (astate w)" "used w + n + 4 \<le> N"
    using r by (simp_all add: ready_def)
  have t1: "1 \<le> t" "t \<le> 4" "size_to_level (e_meta E) sz = Some t"
    using mock_meta.size_to_level_size [OF t] t by (simp_all add: mock_meta_fields)
  then have sp: "LEVELS (e_meta E) - t \<le> room_of (astate w)" using ok(3,4) by (simp add: mock_meta_fields)
  have al: "is_aligned sz p" "paddr_is_valid (e_meta E) p" using p c by (simp_all add: page_ok_def)
  have chk: "check_leaf_range (e_addr E) (e_meta E) (page_at start sz) = Ok sz" using c(1) by simp
  have free': "slot_free E pt (rng_start (page_at start sz)) t w" using free by simp
  from mock.map_unmap_roundtrip [OF ok(1,2) total mock_supply sp free' t1(3) al TrueI chk, of f] m u
  have "mock_live (astate w2) \<subseteq> mock_live (astate w)" by auto
  moreover have "used x = card (mock_live (astate x))" "finite (mock_live (astate x))" if "mock_counted (astate x)" for x
    using counted_live(1) [OF that] distinct_card [of "map fst (frame_store (astate x))"] that
    by (simp_all add: mock_counted_def)
  ultimately show ?thesis using ok(3) r2 by (simp add: card_mono)
qed

lemma used_pos:
  assumes "ready pt w n"
  shows "1 \<le> used w"
proof -
  have "tables E m (Suc l) f \<noteq> []" for m l f unfolding tables.simps by (rule list.distinct(2))
  from this [of "mem w" 3 pt] have "root_tables E w pt \<noteq> []" by (simp add: mock_meta_fields)
  then show ?thesis using ready_used(1) [OF assms] by (simp add: Suc_le_eq)
qed

section \<open>Lookups after a step\<close>

lemma maps_here:
  "maps_page pt start sz p f w w' \<Longrightarrow>
     query E pt start (mem w') = Ok (mapping_new (page_at start sz) p (mock_normal_flags f))"
  by (simp add: maps_page_def unat_bytes)

lemma unmaps_here: "unmaps_page pt start sz w w' \<Longrightarrow> query E pt start (mem w') = Err NotMapped"
  by (simp add: unmaps_page_def unat_bytes)

lemma other_page:
  assumes "is_aligned sz a" "is_aligned sz b" "a \<noteq> b"
  shows "\<not> (unat a \<le> unat b \<and> unat b < unat a + unat (bytes sz))"
proof
  assume in_a: "unat a \<le> unat b \<and> unat b < unat a + unat (bytes sz)"
  let ?n = "unat (bytes sz)"
  obtain i j where ij: "unat a = ?n * i" "unat b = ?n * j"
    using assms(1,2) unfolding is_aligned_dvd unat_bytes dvd_def by blast
  then have "?n * j < ?n * Suc i" "?n * i \<le> ?n * j" using in_a by simp_all
  moreover have "0 < ?n" by (simp add: unat_bytes)
  ultimately have "j < Suc i" "i \<le> j" using mult_less_cancel1 mult_le_cancel1 by blast+
  then have "i = j" by simp
  then show False using ij assms(3) by (simp add: word_unat_eq_iff)
qed

lemma maps_elsewhere:
  assumes "maps_page pt a sz p f w w'" "is_aligned sz a" "is_aligned sz b" "a \<noteq> b"
  shows "query E pt b (mem w') = query E pt b (mem w)"
  using assms(1) other_page [OF assms(2-4)] unfolding maps_page_def by presburger

lemma unmaps_elsewhere:
  assumes "unmaps_page pt a sz w w'" "is_aligned sz a" "is_aligned sz b" "a \<noteq> b"
  shows "query E pt b (mem w') = query E pt b (mem w)"
  using assms(1) other_page [OF assms(2-4)] unfolding unmaps_page_def by presburger

end

section \<open>Loops\<close>

lemma for_st_check: "\<forall>i\<in>set is. body i w = (Ok (), w) \<Longrightarrow> for_st is body w = (Ok (), w)"
  by (induction "is") simp_all

lemma for_st_snoc: "for_st (is @ [i]) body w = bind_st (for_st is body w) (\<lambda>_. body i)"
proof (induction "is" arbitrary: w)
  case Nil
  then show ?case by (cases "body i w"; cases "fst (body i w)") auto
next
  case (Cons j "is")
  then show ?case by (cases "body j w"; cases "fst (body j w)") auto
qed

text \<open>A loop over \<open>[0..<n]\<close> with an invariant.\<close>

lemma for_st_run:
  assumes "I 0 w" "\<And>k w. k < n \<Longrightarrow> I k w \<Longrightarrow> \<exists>w'. body k w = (Ok (), w') \<and> I (Suc k) w'"
  shows "\<exists>w'. for_st [0..<n] body w = (Ok (), w') \<and> I n w'"
  using assms(2)
proof (induction n)
  case 0
  then show ?case using assms(1) by simp
next
  case (Suc n)
  then obtain w1 where w1: "for_st [0..<n] body w = (Ok (), w1)" "I n w1" by (meson less_Suc_eq)
  from Suc.prems [OF lessI w1(2)] w1(1) show ?case by (auto simp: for_st_snoc)
qed

lemma bind_unwrap [simp]:
  "bind_st (unwrap_st (Ok a, w)) f = f a w" "bind_st (unwrap_st (Err x, w)) f = (Panic, w)"
  by (simp_all add: unwrap_st_def)

lemma check_query_Ok:
  "query E pt v (mem w) = Ok mp \<Longrightarrow> list_all id (asserts mp) \<Longrightarrow> check_query E pt v asserts w = (Ok (), w)"
  by (simp add: check_query_def list_all_iff)

lemma check_Ok: "list_all id (asserts w) \<Longrightarrow> check asserts w = (Ok (), w)"
  by (simp add: check_def list_all_iff)

section \<open>Arithmetic progressions of pages\<close>

lemma unat_stride:
  fixes base st :: usize
  assumes "unat base + i * unat st < 2 ^ 64" "i < 2 ^ 32"
  shows "unat (base + of_nat i * st) = unat base + i * unat st"
proof -
  have i: "unat (of_nat i :: usize) = i" using assms(2) by (simp add: unsigned_of_nat take_bit_nat_eq_self)
  have m: "unat (of_nat i * st) = i * unat st"
    using unat_mult_lem [of "of_nat i" st, THEN iffD1] assms(1) by (simp add: i)
  show ?thesis using unat_add_lem [of base "of_nat i * st", THEN iffD1] assms(1) by (simp add: m)
qed

definition stride_ok :: "nat \<Rightarrow> usize \<Rightarrow> usize \<Rightarrow> bool" where
  "stride_ok cnt base st \<longleftrightarrow> cnt < 2 ^ 32 \<and> 4096 dvd unat base \<and> 4096 dvd unat st \<and>
     unat base + cnt * unat st \<le> 2 ^ 48"

lemma stride:
  assumes "stride_ok cnt base st" "i < cnt"
  shows "unat (base + of_nat i * st) = unat base + i * unat st"
    "unat base + i * unat st + unat st \<le> 2 ^ 48" "is_aligned Size4K (base + of_nat i * st)"
proof -
  have le: "Suc i * unat st \<le> cnt * unat st" using assms(2) by (intro mult_le_mono1) simp
  then show b: "unat base + i * unat st + unat st \<le> 2 ^ 48" using assms(1) by (simp add: stride_ok_def)
  then show u: "unat (base + of_nat i * st) = unat base + i * unat st"
    using assms by (intro unat_stride) (simp_all add: stride_ok_def)
  show "is_aligned Size4K (base + of_nat i * st)"
    using assms(1) by (simp add: is_aligned_dvd u stride_ok_def)
qed

lemma stride_page:
  assumes "stride_ok cnt base st" "stride_ok cnt pbase pst" "i < cnt" "0 < unat st"
  shows "page_ok (base + of_nat i * st) Size4K (pbase + of_nat i * pst)"
proof -
  note v = stride [OF assms(1,3)] and p = stride [OF assms(2,3)]
  have "4096 \<le> unat st" using assms(1,4) by (auto simp: stride_ok_def dvd_imp_le)
  then show ?thesis using v p by (simp add: page_ok_def)
qed

lemma stride_inj:
  assumes "stride_ok cnt base st" "0 < unat st"
  shows "inj_on (\<lambda>i. base + of_nat i * st) {..<cnt}"
proof (rule inj_onI)
  fix i j assume ij: "i \<in> {..<cnt}" "j \<in> {..<cnt}" "base + of_nat i * st = base + of_nat j * st"
  then have "unat (base + of_nat i * st) = unat (base + of_nat j * st)" by (simp only:)
  then have "unat base + i * unat st = unat base + j * unat st"
    using stride(1) [OF assms(1), of i] stride(1) [OF assms(1), of j] ij(1,2) by (simp only: lessThan_iff)
  then show "i = j" using assms(2) by simp
qed

lemma page_offset:
  assumes "k < 2 ^ 32"
  shows "checked_add (of_nat k * 0x1000) 0x1000 = Some (of_nat (Suc k) * 0x1000 :: usize)"
proof -
  have u: "unat (of_nat k * 0x1000 :: usize) = k * 4096" "unat (0x1000 :: usize) = 4096"
    using unat_stride [of 0 k "0x1000"] assms by simp_all
  have e: "of_nat k * 0x1000 + 0x1000 = (of_nat (Suc k) * 0x1000 :: usize)" by (simp add: algebra_simps)
  have "k * 4096 + 4096 < (2 :: nat) ^ 64" using assms by simp
  then show ?thesis unfolding checked_add_def u e by (rule if_P)
qed

context test_host
begin

text \<open>Pages with distinct starts, mapped one after the other.\<close>

definition pages_mapped :: "paddr \<Rightarrow> nat \<Rightarrow> (nat \<Rightarrow> usize) \<Rightarrow> (nat \<Rightarrow> paddr) \<Rightarrow> (nat \<Rightarrow> access_flags) \<Rightarrow> nat \<Rightarrow>
    (mock_heap, 'h) world \<Rightarrow> bool" where
  "pages_mapped pt cnt s p a k w \<longleftrightarrow> (\<forall>i<cnt. query E pt (s i) (mem w) =
     (if i < k then Ok (mapping_new (page_at (s i) Size4K) (p i) (mock_normal_flags (mock_flags_of (a i))))
      else Err NotMapped))"

lemma pages_step:
  assumes ok: "\<And>i. i < cnt \<Longrightarrow> page_ok (s i) Size4K (p i)" and inj: "inj_on s {..<cnt}"
    and k: "k < cnt" and pm: "pages_mapped pt cnt s p a k w"
    and m: "maps_page pt (s k) Size4K (p k) (mock_flags_of (a k)) w w'"
  shows "pages_mapped pt cnt s p a (Suc k) w'"
  unfolding pages_mapped_def
proof (intro allI impI)
  fix i assume i: "i < cnt"
  show "query E pt (s i) (mem w') =
      (if i < Suc k then Ok (mapping_new (page_at (s i) Size4K) (p i) (mock_normal_flags (mock_flags_of (a i))))
       else Err NotMapped)"
  proof (cases "i = k")
    case True
    then show ?thesis using maps_here [OF m] by simp
  next
    case False
    then have "s k \<noteq> s i" using inj i k by (auto simp: inj_on_def)
    then have "query E pt (s i) (mem w') = query E pt (s i) (mem w)"
      using maps_elsewhere [OF m] ok [OF i] ok [OF k] by (simp add: page_ok_def)
    then show ?thesis using pm i False by (auto simp: pages_mapped_def)
  qed
qed

lemma map_page_step:
  assumes r: "ready pt w (Suc (n + 3))" and p: "page_ok start Size4K p"
    and q: "query E pt start (mem w) = Err NotMapped"
  obtains w' where "map_page E pt start Size4K p access w = (Ok (), w')" "ready pt w' (Suc n)"
    "maps_page pt start Size4K p (mock_flags_of access) w w'" "used w' \<le> used w + 3"
proof -
  have "vrange L start Size4K = Ok (page_at start Size4K)"
    using p by (intro vrange_page [OF addr]) (simp add: page_ok_def)
  then show thesis
    using map_step [OF r p mock_size_to_level(1) page_free [OF r p q], of "mock_flags_of access"] that
    by (auto simp: map_page_def)
qed

lemma map_pages_run:
  assumes r: "ready pt w (Suc (3 * cnt))" and ok: "\<And>i. i < cnt \<Longrightarrow> page_ok (s i) Size4K (p i)"
    and inj: "inj_on s {..<cnt}" and free: "pages_mapped pt cnt s p a 0 w"
  shows "\<exists>w'. for_st [0..<cnt] (\<lambda>i w. unwrap_st (map_page E pt (s i) Size4K (p i) (a i) w)) w = (Ok (), w') \<and>
    ready pt w' 1 \<and> pages_mapped pt cnt s p a cnt w' \<and> used w' \<le> used w + 3 * cnt"
proof -
  let ?I = "\<lambda>k w'. ready pt w' (Suc (3 * (cnt - k))) \<and> pages_mapped pt cnt s p a k w' \<and> used w' \<le> used w + 3 * k"
  have step: "\<exists>w'. unwrap_st (map_page E pt (s k) Size4K (p k) (a k) w) = (Ok (), w') \<and> ?I (Suc k) w'"
    if k: "k < cnt" and I: "?I k w" for k w
  proof -
    have "3 * (cnt - k) = 3 * (cnt - Suc k) + 3" using k by linarith
    then have r: "ready pt w (Suc (3 * (cnt - Suc k) + 3))" using I by simp
    have "query E pt (s k) (mem w) = Err NotMapped" using I k by (simp add: pages_mapped_def)
    from map_page_step [OF r ok [OF k] this] obtain w' where
      "map_page E pt (s k) Size4K (p k) (a k) w = (Ok (), w')" "ready pt w' (Suc (3 * (cnt - Suc k)))"
      "maps_page pt (s k) Size4K (p k) (mock_flags_of (a k)) w w'" "used w' \<le> used w + 3" by metis
    then show ?thesis using pages_step [OF ok inj k] I by (auto simp: unwrap_st_def)
  qed
  have "?I 0 w" using r free by simp
  then have "\<exists>w'. for_st [0..<cnt] (\<lambda>i w. unwrap_st (map_page E pt (s i) Size4K (p i) (a i) w)) w = (Ok (), w') \<and>
      ?I cnt w'"
    by (rule for_st_run [where I = ?I]) (rule step)
  then show ?thesis by simp
qed

text \<open>A mapped base page lies below four tables.\<close>

lemma page_tables:
  assumes r: "ready pt w n" and q: "query E pt v (mem w) = Ok mp" "m_range mp = page_at v Size4K"
  shows "4 \<le> used w"
proof -
  from mock.query_OkD [OF q(1)] obtain t e sz where t: "root_view E w pt v = Ok (t, e)"
    "leaf_size_at_level (e_meta E) t = Some sz" "leaf_range (e_addr E) v sz = Ok (m_range mp)" by metis
  have "range_size (e_addr E) (m_range mp) = bytes sz" by (rule mock.leaf_range_size [OF t(3)])
  moreover have "rng_end (m_range mp) = rng_start (m_range mp) + bytes sz"
    using t(3) leaf_range_Ok [of L] addr by (auto dest!: checked_add_Some)
  ultimately have "bytes sz = bytes Size4K" using q(2) by (simp add: page_at_def)
  then have "sz = Size4K" by (metis from_bytes_bytes option.inject)
  then have "t \<le> 1" using t(2) by (auto simp: MockMeta_def default_leaf_size_iff mock_level_shift_def)
  then show ?thesis using mock.mapped_tables [OF t(1)] ready_used(1) [OF r] by (simp add: mock_meta_fields)
qed

section \<open>Pages through a cursor\<close>

lemma contiguous_page_step:
  assumes r: "ready pt w (Suc (n + 3))" and cache: "cache_ok E pt c w" and p: "page_ok start Size4K p"
    and q: "query E pt start (mem w) = Err NotMapped" and fixed: "fixed = None \<or> fixed = Some Size4K"
  obtains c' w' where "map_contiguous E pt (page_at start Size4K) \<lparr>rng_start = p, rng_end = p + bytes Size4K\<rparr> f fixed (c, w) =
      (Ok (), (c', w'))"
    "ready pt w' (Suc n)" "cache_ok E pt c' w'" "maps_page pt start Size4K p f w w'" "log w' = log w"
    "same_queue (queue_flush_range E (page_at start Size4K) c) c'"
proof -
  note c = page_check [OF addr p]
  have free: "slot_free E pt start 1 w" by (rule page_free [OF r p q])
  from leaf_step [OF r p mock_size_to_level(1) free] obtain w1 where
    d: "map_leaf_direct_sized_no_flush E pt (page_at start Size4K) p f Size4K 1 w = (Ok (), w1)"
    "ready pt w1 (Suc n)" "maps_page pt start Size4K p f w w1" "log w1 = log w" by metis
  have ok: "tree_ok E mock_live pt w" "accounts mock_live {} E pt w" "mock_counted (astate w)" "used w + n + 4 \<le> N"
    using r by (simp_all add: ready_def)
  have sp: "LEVELS (e_meta E) - 1 \<le> room_of (astate w)" using ok(3,4) by (simp add: mock_meta_fields)
  have free': "slot_free E pt (rng_start (page_at start Size4K)) 1 w" using free by simp
  have sz: "size_to_level (e_meta E) Size4K = Some 1" using mock_size_to_level by simp
  have al: "is_aligned Size4K p" "paddr_is_valid (e_meta E) p" using p c by (simp_all add: page_ok_def)
  have chk: "check_leaf_range (e_addr E) (e_meta E) (page_at start Size4K) = Ok Size4K" using c(1) by simp
  from mock.map_contiguous_leaf [OF ok(1,2) cache mock_supply sp free' sz al TrueI chk fixed, of f] d that show thesis
    by auto
qed

lemma cursor_page_step:
  assumes r: "ready pt w (Suc (n + 3))" and cache: "cache_ok E pt c w" and p: "page_ok start Size4K p"
    and q: "query E pt start (mem w) = Err NotMapped"
  obtains c' w' where "cursor_map E pt (page_at start Size4K) (FromPhysAddr p) (mapping_flags_new f) (c, w) = (Ok (), (c', w'))"
    "ready pt w' (Suc n)" "cache_ok E pt c' w'" "maps_page pt start Size4K p f w w'" "log w' = log w"
    "same_queue (queue_flush_range E (page_at start Size4K) c) c'"
proof -
  have "cursor_map E pt (page_at start Size4K) (FromPhysAddr p) (mapping_flags_new f) (c, w) =
      map_contiguous E pt (page_at start Size4K) \<lparr>rng_start = p, rng_end = p + bytes Size4K\<rparr> f None (c, w)"
    using backing_page(1) [OF p] page_check(4) [OF addr p] by (simp add: cursor_map_def mapping_flags_new_def)
  then show thesis
    using contiguous_page_step [OF assms, of None f] that by metis
qed

lemma cursor_pages_run:
  assumes r: "ready pt w (Suc (3 * cnt))" and cache: "cache_ok E pt c w"
    and ok: "\<And>i. i < cnt \<Longrightarrow> page_ok (s i) Size4K (p i)"
    and inj: "inj_on s {..<cnt}" and free: "pages_mapped pt cnt s p a 0 w"
  shows "\<exists>c' w'. for_st [0..<cnt] (\<lambda>i cw. unwrap_st (cursor_map_page E pt (s i) Size4K (p i) (a i) cw)) (c, w) =
      (Ok (), (c', w')) \<and>
    ready pt w' 1 \<and> pages_mapped pt cnt s p a cnt w' \<and> log w' = log w \<and>
    same_queue (fold (\<lambda>i. queue_flush_range E (page_at (s i) Size4K)) [0..<cnt] c) c'"
proof -
  let ?Q = "\<lambda>k. fold (\<lambda>i. queue_flush_range E (page_at (s i) Size4K)) [0..<k] c"
  let ?I = "\<lambda>k cw. ready pt (snd cw) (Suc (3 * (cnt - k))) \<and> cache_ok E pt (fst cw) (snd cw) \<and>
    pages_mapped pt cnt s p a k (snd cw) \<and> log (snd cw) = log w \<and> same_queue (?Q k) (fst cw)"
  have step: "\<exists>cw'. unwrap_st (cursor_map_page E pt (s k) Size4K (p k) (a k) cw) = (Ok (), cw') \<and> ?I (Suc k) cw'"
    if k: "k < cnt" and I: "?I k cw" for k cw
  proof -
    obtain c1 w1 where cw: "cw = (c1, w1)" by fastforce
    have "3 * (cnt - k) = 3 * (cnt - Suc k) + 3" using k by linarith
    then have r: "ready pt w1 (Suc (3 * (cnt - Suc k) + 3))" and c1: "cache_ok E pt c1 w1" using I cw by simp_all
    have "query E pt (s k) (mem w1) = Err NotMapped" using I k cw by (simp add: pages_mapped_def)
    from cursor_page_step [OF r c1 ok [OF k] this] obtain c2 w2 where st:
      "cursor_map E pt (page_at (s k) Size4K) (FromPhysAddr (p k)) (mapping_flags_new (mock_flags_of (a k))) (c1, w1) =
         (Ok (), (c2, w2))"
      "ready pt w2 (Suc (3 * (cnt - Suc k)))" "cache_ok E pt c2 w2"
      "maps_page pt (s k) Size4K (p k) (mock_flags_of (a k)) w1 w2" "log w2 = log w1"
      "same_queue (queue_flush_range E (page_at (s k) Size4K) c1) c2" by metis
    have "vrange L (s k) Size4K = Ok (page_at (s k) Size4K)"
      using ok [OF k] by (intro vrange_page [OF addr]) (simp add: page_ok_def)
    then have "cursor_map_page E pt (s k) Size4K (p k) (a k) cw = (Ok (), (c2, w2))"
      using st(1) by (simp add: cursor_map_page_def cw)
    moreover have "same_queue (?Q (Suc k)) c2"
      using same_queue_trans [OF same_queue_flush_range st(6)] I by (simp add: cw)
    moreover have "pages_mapped pt cnt s p a (Suc k) w2"
      by (rule pages_step [of cnt s p k pt a w1 w2]) (use ok inj k st(4) I in \<open>simp_all add: cw\<close>)
    ultimately show ?thesis using st I by (simp add: unwrap_st_def cw)
  qed
  have "?I 0 (c, w)" using r free cache by simp
  then have "\<exists>cw'. for_st [0..<cnt] (\<lambda>i cw. unwrap_st (cursor_map_page E pt (s i) Size4K (p i) (a i) cw)) (c, w) =
      (Ok (), cw') \<and> ?I cnt cw'"
    by (rule for_st_run [where I = ?I]) (rule step)
  then show ?thesis by auto
qed

text \<open>A block with a cursor ends with the drain of its queue.\<close>

lemma flush_pending_same: "same_queue c c' \<Longrightarrow> snd (flush_pending E c w) = snd (flush_pending E c' w)"
  by (simp add: flush_pending_def same_queue_def Let_def)

lemma with_cursor_run:
  assumes "body (cursor_new, w) = (Ok (), (c', w'))" "same_queue c c'"
  shows "with_cursor E body w = (Ok (), snd (flush_pending E c w'))"
  using assms flush_pending_same [OF assms(2), of w'] by (simp add: with_cursor_def cursor_drain)

lemma drained_state:
  "mem (snd (flush_pending E c w)) = mem w" "astate (snd (flush_pending E c w)) = astate w"
  by (simp_all add: flush_pending_def Let_def emit_def)

lemma drained_ready: "ready pt (snd (flush_pending E c w)) n = ready pt w n"
  by (simp add: ready_def accounts_def drained_state tree_ok_def)

lemma drained_pages: "pages_mapped pt cnt s p a k (snd (flush_pending E c w)) = pages_mapped pt cnt s p a k w"
  by (simp add: pages_mapped_def drained_state)

text \<open>A fresh table maps none of the pages.\<close>

lemma fresh_pages:
  assumes "\<And>v t. slot_free E pt v t w" "\<And>i. i < cnt \<Longrightarrow> page_ok (s i) Size4K (p i)"
  shows "pages_mapped pt cnt s p a 0 w"
proof -
  have "query E pt (s i) (mem w) = Err NotMapped" if "i < cnt" for i
    using fresh_query [OF assms(1), of "s i"] assms(2) [OF that] by (simp add: page_ok_def)
  then show ?thesis by (simp add: pages_mapped_def)
qed

text \<open>Through a cursor: a mapped page is refused, with the cache intact, and a page is unmapped.\<close>

lemma cursor_page_again:
  assumes r: "ready pt w n" and cache: "cache_ok E pt c w" and p: "page_ok start Size4K p"
    and q: "query E pt start (mem w) = Ok mp"
  obtains c' where "cursor_map E pt (page_at start Size4K) (FromPhysAddr p) (mapping_flags_new f) (c, w) =
      (Err AlreadyMapped, (c', w))" "cache_ok E pt c' w"
proof -
  obtain t' e where v: "root_view E w pt start = Ok (t', e)" using mock.query_OkD [OF q] by metis
  obtain res c' w' where m: "map_leaf_sized_at_level E pt (page_at start Size4K) p f Size4K 1 (c, w) = (res, (c', w'))"
    by (metis prod_cases3)
  have ok: "tree_ok E mock_live pt w" using r by (simp add: ready_def)
  have t1: "1 \<le> (1 :: nat)" "1 \<le> LEVELS (e_meta E)" by (simp_all add: mock_meta_fields)
  have "map_leaf_direct_sized_no_flush E pt (page_at start Size4K) p f Size4K 1 w = (Err AlreadyMapped, w)"
    by (rule mock.map_leaf_direct_mapped [OF _ t1]) (use v in simp)
  with mock.map_leaf_at_level_spec [OF ok cache t1 m] v have
    "res = Err AlreadyMapped" "w' = w" "cache_ok E pt c' w" by auto
  moreover have "\<not> range_is_empty L (page_at start Size4K)"
    using page_check(1) [OF addr p] by (auto simp: check_leaf_range_def split: if_splits)
  ultimately show thesis
    using that m backing_page [OF p] page_check(4) [OF addr p] exact_leaf_page [OF p mock_size_to_level(1)]
    by (simp add: cursor_map_def mapping_flags_new_def map_contiguous_def)
qed

lemma cursor_unmap_step:
  assumes r: "ready pt w n" and cache: "cache_ok E pt c w" and p: "page_ok start sz p"
    and q: "query E pt start (mem w) = Ok mp" "m_range mp = page_at start sz"
  obtains c' w' where "cursor_unmap E pt (page_at start sz) (c, w) = (Ok mp, (c', w'))" "ready pt w' n"
    "cache_ok E pt c' w'" "unmaps_page pt start sz w w'"
proof -
  obtain w' where u: "unmap_no_flush E pt (page_at start sz) w = (Ok mp, w')" "ready pt w' n" "unmaps_page pt start sz w w'"
    using unmap_step [OF r p q] by metis
  let ?c = "(invalidate_below (LEVELS (e_meta E)) c)\<lparr>last_vaddr := None\<rparr>"
  have "length (descent c) = MAX_LEVELS" using cache by (simp add: cache_ok_def)
  then have "length (descent ?c) = MAX_LEVELS" by (simp add: invalidate_below_def Let_def mock_meta_fields MAX_LEVELS_def)
  then have "cache_ok E pt (queue_flush_range E (m_range mp) ?c) w'"
    by (simp add: cache_ok_def queue_flush_range_cursor)
  then show thesis using that u by (simp add: cursor_unmap_def Let_def)
qed

text \<open>A block that maps pages through a fresh cursor.\<close>

lemma cursor_block_run:
  assumes "ready pt w (Suc (3 * cnt))" "\<And>i. i < cnt \<Longrightarrow> page_ok (s i) Size4K (p i)"
    and "inj_on s {..<cnt}" "pages_mapped pt cnt s p a 0 w"
  shows "\<exists>w'. with_cursor E (for_st [0..<cnt] (\<lambda>i cw.
      unwrap_st (cursor_map_page E pt (s i) Size4K (p i) (a i) cw))) w = (Ok (), w') \<and>
    tree_ok E mock_live pt w' \<and> pages_mapped pt cnt s p a cnt w'"
proof -
  from cursor_pages_run [OF assms(1) cache_ok_new assms(2-4)] obtain c' w' where run:
    "for_st [0..<cnt] (\<lambda>i cw. unwrap_st (cursor_map_page E pt (s i) Size4K (p i) (a i) cw)) (cursor_new, w) =
      (Ok (), (c', w'))" "ready pt w' 1" "pages_mapped pt cnt s p a cnt w'" by blast
  have "tree_ok E mock_live pt (snd (flush_pending E c' w'))" using run(2) drained_ready by (metis ready_def)
  then show ?thesis using run drained_pages [of pt cnt s p a cnt c' w'] by (simp add: with_cursor_def cursor_drain)
qed

lemma pages_queried:
  assumes "pages_mapped pt cnt s p a cnt w"
    and "\<And>i. i < cnt \<Longrightarrow> list_all id (asserts i (mapping_new (page_at (s i) Size4K) (p i) (mock_normal_flags (mock_flags_of (a i)))))"
  shows "for_st [0..<cnt] (\<lambda>i. check_query E pt (s i) (asserts i)) w = (Ok (), w)"
proof (rule for_st_check, rule ballI)
  fix i assume "i \<in> set [0..<cnt]"
  then have i: "i < cnt" by simp
  then have "query E pt (s i) (mem w) = Ok (mapping_new (page_at (s i) Size4K) (p i) (mock_normal_flags (mock_flags_of (a i))))"
    using assms(1) by (simp add: pages_mapped_def)
  then show "check_query E pt (s i) (asserts i) w = (Ok (), w)"
    by (rule check_query_Ok) (rule assms(2) [OF i])
qed

section \<open>Scatter lists of pages\<close>

definition page_seg :: "paddr \<Rightarrow> addr_range" where
  "page_seg p = \<lparr>rng_start = p, rng_end = p + bytes Size4K\<rparr>"

lemma bind_ranges_pages:
  assumes "\<And>i. i \<in> set is \<Longrightarrow> page_ok 0 Size4K (p i)"
  shows "bind_ranges L (map (\<lambda>i. (p i, 0x1000)) is) = Ok (map (\<lambda>i. page_seg (p i)) is)"
  using assms
proof (induction "is")
  case (Cons i "is")
  have "unat (p i) < 2 ^ 52" using Cons.prems [of i] by (simp add: page_ok_def)
  then have "range_from_start_size L (p i) 0x1000 = Ok (page_seg (p i))"
    by (simp add: addr_from_start_size [OF addr] checked_add_def page_seg_def)
  then show ?case using Cons by simp
qed simp

lemma seg_facts:
  assumes "page_ok start Size4K p"
  shows "range_size L (page_seg p) = 0x1000" "\<not> range_is_empty L (page_seg p)"
    "check_scatter_segment L (page_seg p) Size4K = Ok ()"
  using backing_page(2,3) [OF assms] assms
  by (simp_all add: check_scatter_segment_def page_seg_def page_ok_def is_aligned_def)

lemma scatter_total_pages:
  assumes "\<And>i. i < cnt \<Longrightarrow> page_ok (s i) Size4K (p i)" "range_size L rg = of_nat cnt * 0x1000" "cnt < 2 ^ 32" "k \<le> cnt"
  shows "scatter_total L rg Size4K (map (\<lambda>i. page_seg (p i)) [k..<cnt]) (of_nat k * 0x1000) = Ok (of_nat cnt * 0x1000)"
  using assms(4)
proof (induction "cnt - k" arbitrary: k)
  case 0
  then show ?case by simp
next
  case (Suc n)
  then have k: "k < cnt" by simp
  have u: "unat (of_nat j * 0x1000 :: usize) = j * 0x1000" if "j \<le> cnt" for j
    using unat_stride [of 0 j "0x1000"] that assms(3) by simp
  have add: "checked_add (of_nat k * 0x1000) 0x1000 = Some (of_nat (Suc k) * 0x1000 :: usize)"
    by (rule page_offset) (use k assms(3) in simp)
  have le: "\<not> of_nat cnt * 0x1000 < (of_nat (Suc k) * 0x1000 :: usize)"
    unfolding word_less_nat_alt using u [of cnt] u [of "Suc k"] k by simp
  have "[k..<cnt] = k # [Suc k..<cnt]" using k by (rule upt_conv_Cons)
  moreover have "scatter_total L rg Size4K (map (\<lambda>i. page_seg (p i)) [Suc k..<cnt]) (of_nat (Suc k) * 0x1000) =
      Ok (of_nat cnt * 0x1000)"
    using Suc k by (intro Suc.hyps(1)) simp_all
  ultimately show ?case
    using seg_facts [OF assms(1) [OF k]] add le by (simp del: of_nat_Suc add: assms(2))
qed

lemma map_segments_pages:
  fixes base :: usize
  defines "s \<equiv> \<lambda>i. base + of_nat i * 0x1000"
  assumes ok: "\<And>i. i < cnt \<Longrightarrow> page_ok (s i) Size4K (p i)" and st: "stride_ok cnt base 0x1000"
    and rg: "rng_start rg = base" and k: "k \<le> cnt"
    and I: "ready pt (snd cw) (Suc (3 * (cnt - k)))" "cache_ok E pt (fst cw) (snd cw)"
      "pages_mapped pt cnt s p (\<lambda>_. a) k (snd cw)"
  shows "\<exists>cw'. map_segments E pt rg (mock_flags_of a) Size4K (map (\<lambda>i. page_seg (p i)) [k..<cnt]) (of_nat k * 0x1000) cw =
      (Ok (), cw') \<and> ready pt (snd cw') 1 \<and> pages_mapped pt cnt s p (\<lambda>_. a) cnt (snd cw')"
  using k I
proof (induction "cnt - k" arbitrary: k cw)
  case 0
  then show ?case by simp
next
  case (Suc n)
  then have k: "k < cnt" by simp
  obtain c w where cw: "cw = (c, w)" by fastforce
  have "3 * (cnt - k) = 3 * (cnt - Suc k) + 3" using k by linarith
  then have r: "ready pt w (Suc (3 * (cnt - Suc k) + 3))" and c: "cache_ok E pt c w" using Suc.prems cw by simp_all
  have "query E pt (s k) (mem w) = Err NotMapped" using Suc.prems(4) k by (simp add: pages_mapped_def cw)
  from contiguous_page_step [OF r c ok [OF k] this, of "Some Size4K" "mock_flags_of a"] obtain c1 w1 where m:
    "map_contiguous E pt (page_at (s k) Size4K) (page_seg (p k)) (mock_flags_of a) (Some Size4K) (c, w) = (Ok (), (c1, w1))"
    "ready pt w1 (Suc (3 * (cnt - Suc k)))" "cache_ok E pt c1 w1" "maps_page pt (s k) Size4K (p k) (mock_flags_of a) w w1"
    unfolding page_seg_def by metis
  have inj: "inj_on s {..<cnt}" unfolding s_def by (rule stride_inj [OF st]) simp
  have pm: "pages_mapped pt cnt s p (\<lambda>_. a) (Suc k) w1"
    by (rule pages_step [of cnt s p k pt "\<lambda>_. a" w w1]) (use ok inj k m(4) Suc.prems(4) in \<open>simp_all add: cw\<close>)
  have "n = cnt - Suc k" using Suc.hyps(2) by simp
  from Suc.hyps(1) [OF this] k m(2,3) pm obtain cw' where rest:
    "map_segments E pt rg (mock_flags_of a) Size4K (map (\<lambda>i. page_seg (p i)) [Suc k..<cnt]) (of_nat (Suc k) * 0x1000) (c1, w1) =
      (Ok (), cw')" "ready pt (snd cw') 1" "pages_mapped pt cnt s p (\<lambda>_. a) cnt (snd cw')" by fastforce
  have u: "unat (s k) = unat base + k * 4096" "unat base + k * 4096 + 4096 \<le> 2 ^ 48"
    using stride [OF st k] by (simp_all add: s_def)
  have "unat (of_nat k * 0x1000 :: usize) = k * 4096"
    using unat_stride [of 0 k "0x1000"] st k by (simp add: stride_ok_def)
  then have off: "offset_vaddr base (of_nat k * 0x1000) = Ok (s k)"
    using u by (simp add: offset_vaddr_def checked_add_def s_def)
  have vr: "range_try_from_start_size L (s k) 0x1000 = Some (page_at (s k) Size4K)"
    using u by (simp add: addr_try_from_start_size [OF addr] checked_add_def page_at_def)
  have nxt: "checked_add (of_nat k * 0x1000) 0x1000 = Some (of_nat (Suc k) * 0x1000 :: usize)"
    by (rule page_offset) (use st k in \<open>simp add: stride_ok_def\<close>)
  have "[k..<cnt] = k # [Suc k..<cnt]" using k by (rule upt_conv_Cons)
  then show ?case
    using rest seg_facts(1) [OF ok [OF k]] off vr nxt m(1) by (simp add: cw rg del: of_nat_Suc)
qed

lemma scattered_run:
  fixes base :: usize
  defines "s \<equiv> \<lambda>i. base + of_nat i * 0x1000"
  assumes ok: "\<And>i. i < cnt \<Longrightarrow> page_ok (s i) Size4K (p i)" and st: "stride_ok cnt base 0x1000" "0 < cnt"
    and rg: "rng_start rg = base" "range_size L rg = of_nat cnt * 0x1000" "\<not> range_is_empty L rg"
    and r: "ready pt w (Suc (3 * cnt))" and fresh: "\<And>v t. slot_free E pt v t w"
    and f: "flags = \<lparr>mf_leaf = mock_flags_of a, mf_contiguity = Scattered Size4K\<rparr>"
  shows "\<exists>w'. walker_map E pt rg (FromSlice (map (\<lambda>i. page_seg (p i)) [0..<cnt])) flags w = (Ok (), w') \<and>
    tree_ok E mock_live pt w' \<and> pages_mapped pt cnt s p (\<lambda>_. a) cnt w'"
proof -
  let ?segs = "map (\<lambda>i. page_seg (p i)) [0..<cnt]"
  have fr: "pages_mapped pt cnt s p (\<lambda>_. a) 0 w" by (rule fresh_pages [OF fresh ok])
  have "\<exists>cw'. map_segments E pt rg (mock_flags_of a) Size4K ?segs (of_nat 0 * 0x1000) (cursor_new, w) = (Ok (), cw') \<and>
      ready pt (snd cw') 1 \<and> pages_mapped pt cnt s p (\<lambda>_. a) cnt (snd cw')"
    unfolding s_def
    by (rule map_segments_pages) (use ok st(1) rg(1) r cache_ok_new fr in \<open>simp_all add: s_def\<close>)
  then obtain c' w' where seg: "map_segments E pt rg (mock_flags_of a) Size4K ?segs 0 (cursor_new, w) = (Ok (), (c', w'))"
    "ready pt w' 1" "pages_mapped pt cnt s p (\<lambda>_. a) cnt w'" by fastforce
  have cnt: "cnt < 2 ^ 32" using st(1) by (simp add: stride_ok_def)
  have tot: "scatter_total L rg Size4K ?segs 0 = Ok (of_nat cnt * 0x1000)"
    using scatter_total_pages [of cnt s p rg 0] ok rg(2) cnt by simp
  have u: "unat (of_nat cnt * 0x1000 :: usize) = cnt * 4096" using unat_stride [of 0 cnt "0x1000"] cnt by simp
  have al: "is_aligned Size4K (of_nat cnt * 0x1000)" by (simp add: is_aligned_dvd u)
  have lv: "size_to_level (e_meta E) Size4K \<noteq> None" using mock_size_to_level(1) by simp
  have "map_scattered E pt rg (ScatteredBacking ?segs) (mock_flags_of a) Size4K (cursor_new, w) = (Ok (), (c', w'))"
    using seg(1) tot al rg lv st(2) by (simp add: map_scattered_def)
  then have "walker_map E pt rg (FromSlice ?segs) flags w = (Ok (), snd (flush_pending E c' w'))"
    by (simp add: walker_map_def map_via_cursor_def cursor_map_def f cursor_drain)
  moreover have "tree_ok E mock_live pt (snd (flush_pending E c' w'))" using seg(2) drained_ready by (metis ready_def)
  moreover have "pages_mapped pt cnt s p (\<lambda>_. a) cnt (snd (flush_pending E c' w'))"
    using seg(3) drained_pages [of pt cnt s p "\<lambda>_. a" cnt c' w'] by simp
  ultimately show ?thesis by blast
qed

section \<open>Split and merge\<close>

lemma huge_split:
  assumes r: "ready pt w (Suc n)" and p: "page_ok v Size2M p"
    and q: "query E pt v (mem w) = Ok (mapping_new (page_at v Size2M) p f)"
  obtains w' where "split_at E pt (page_at v Size2M) w = (Ok Size4K, w')" "tree_ok E mock_live pt w'"
proof -
  let ?rg = "page_at v Size2M"
  have ok: "tree_ok E mock_live pt w" "0 < room_of (astate w)" using r by (simp_all add: ready_def)
  obtain g w1 where a: "alloc_table_frame E w = (Ok g, w1)" using supply_alloc [OF mock_supply ok(2)] by blast
  have lv: "leaf_size_at_level MockMeta (Suc 0) = Some Size4K"
    by (simp add: MockMeta_def default_leaf_size_iff mock_level_shift_def)
  have "finer_size E ?rg = Ok Size4K"
    using page_check(4) [OF addr p] from_bytes_bytes [of Size2M] mock_size_to_level(2) lv
    by (simp add: finer_size_def numeral_2_eq_2)
  then have "fst (split_at E pt ?rg w) = Ok Size4K"
    using mock.split_outcome [OF ok(1), of ?rg] exact_page [OF q mapping_page_at(1)] a by simp
  then obtain w' where w': "split_at E pt ?rg w = (Ok Size4K, w')" by (metis prod.collapse)
  then show thesis using that mock.split_at_spec [OF ok(1) w'] by blast
qed

lemma mock_page_level: "leaf_size_at_level MockMeta (Suc 0) = Some Size4K"
  by (simp add: MockMeta_def default_leaf_size_iff mock_level_shift_def)

lemma part_in_huge:
  assumes "page_ok v Size2M p" "stride_ok 512 v 0x1000" "i < 512"
  shows "in_range (page_at v Size2M) (v + of_nat i * 0x1000)"
proof -
  have "i * 4096 < 2097152" using assms(3) by simp
  then show ?thesis
    using in_page [of v Size2M] assms(1) stride(1) [OF assms(2,3)] by (simp add: page_ok_def)
qed

lemma split_parts:
  assumes ok: "tree_ok E mock_live pt w" and p: "page_ok v Size2M p"
    and q: "query E pt v (mem w) = Ok (mapping_new (page_at v Size2M) p f)"
    and sp: "split_at E pt (page_at v Size2M) w = (Ok Size4K, w')"
    and st: "stride_ok 512 v 0x1000" and i: "i < 512"
  shows "\<exists>mp. query E pt (v + of_nat i * 0x1000) (mem w') = Ok mp \<and> mapping_size L mp = Some Size4K \<and>
    m_paddr mp = p + of_nat i * 0x1000"
proof -
  let ?v = "v + of_nat i * 0x1000"
  note spec = mock.split_at_spec [OF ok sp] and in_h = part_in_huge [OF p st i]
  have "query E pt ?v (mem w) = Ok (mapping_new (page_at v Size2M) p f)"
    using mock.query_shape [OF ok q] in_h by (metis mapping_page_at(1))
  then have rs: "resolve E pt ?v (mem w') = Ok (p + of_nat i * 0x1000, f)"
    using spec by (simp add: resolve_def mapping_page_at)
  from spec in_h obtain mp where mp: "query E pt ?v (mem w') = Ok mp"
    "rng_start (m_range mp) = ?v AND NOT (mask (size_shift Size4K))"
    "rng_end (m_range mp) = rng_start (m_range mp) + bytes Size4K" by blast
  have "?v AND NOT (mask 12) = ?v"
    using stride(3) [OF st i] aligned_block [of ?v 12] by (simp add: is_aligned_mask)
  then have st': "rng_start (m_range mp) = ?v" using mp(2) by simp
  have "page_ok ?v Size4K 0" using stride(2,3) [OF st i] stride(1) [OF st i] by (simp add: page_ok_def is_aligned_def)
  moreover have "m_range mp = page_at ?v Size4K" using mp(3) st' by (cases "m_range mp") (simp add: page_at_def)
  ultimately have "mapping_size L mp = Some Size4K"
    using page_check(4) [OF addr] from_bytes_bytes [of Size4K] by (simp add: mapping_size_def)
  moreover have "m_paddr mp = p + of_nat i * 0x1000" using rs mp(1) st' by (simp add: resolve_def)
  ultimately show ?thesis using mp(1) by blast
qed

lemma merge_refused:
  fixes v :: usize
  defines "s \<equiv> \<lambda>i. v + of_nat i * 0x1000"
  assumes r: "ready pt w n" and pv: "page_ok v Size2M 0" and st: "stride_ok 512 v 0x1000"
    and pm: "pages_mapped pt 512 s p a 512 w" and ok: "\<And>i. i < 512 \<Longrightarrow> page_ok (s i) Size4K (p i)"
    and bad: "i < 512" "p i \<noteq> p 0 + of_nat i * 0x1000 \<or>
      mock_normal_flags (mock_flags_of (a i)) \<noteq> mock_normal_flags (mock_flags_of (a 0))"
  shows "merge_at E pt (page_at v Size2M) w = (Err NotCoalescable, w)"
proof -
  let ?rg = "page_at v Size2M" and ?mp = "\<lambda>i. mapping_new (page_at (s i) Size4K) (p i) (mock_normal_flags (mock_flags_of (a i)))"
  have t: "tree_ok E mock_live pt w" using r by (simp add: ready_def)
  have q: "query E pt (s i) (mem w) = Ok (?mp i)" if "i < 512" for i using pm that by (simp add: pages_mapped_def)
  have fine: "finer_mapped E pt ?rg Size4K w"
    unfolding finer_mapped_def
  proof (intro allI impI)
    fix x assume "in_range ?rg x"
    then have x: "unat v \<le> unat x" "unat x < unat v + 2097152"
      using in_page [of v Size2M x] pv by (simp_all add: page_ok_def)
    define k where "k = (unat x - unat v) div 4096"
    have k: "k < 512" using x by (simp add: k_def less_mult_imp_div_less)
    have "unat v + k * 4096 \<le> unat x" "unat x < unat v + k * 4096 + 4096"
      using x(1) div_mult_mod_eq [of "unat x - unat v" 4096] mod_less_divisor [of 4096 "unat x - unat v"]
      unfolding k_def by linarith+
    then have "in_range (page_at (s k) Size4K) x"
      using in_page [of "s k" Size4K x] ok [OF k] stride(1) [OF st k] by (simp add: page_ok_def s_def)
    then have "query E pt x (mem w) = Ok (?mp k)"
      using mock.query_shape [OF t q [OF k]] by (metis mapping_page_at(1))
    then show "\<exists>mp. query E pt x (mem w) = Ok mp \<and> mapping_size (e_addr E) mp = Some Size4K"
      using mapping_size_page [OF ok [OF k]] by simp
  qed
  have "\<not> linear_range E pt ?rg b flags w" for b flags
  proof
    assume lin: "linear_range E pt ?rg b flags w"
    have "p j = b + of_nat j * 0x1000 \<and> mock_normal_flags (mock_flags_of (a j)) = flags" if j: "j < 512" for j
    proof -
      have "resolve E pt (s j) (mem w) = Ok (b + (s j - v), flags)"
        using lin part_in_huge [OF pv st j] by (simp add: linear_range_def s_def)
      then show ?thesis using q [OF j] by (simp add: resolve_def mapping_page_at s_def)
    qed
    from this [of 0] this [OF bad(1)] bad(2) show False by auto
  qed
  then show ?thesis
    using mock.merge_outcome [OF t total, of ?rg Size2M 0 Size4K] page_check(1) [OF addr pv] mock_size_to_level(2)
      mock_page_level fine by (simp add: numeral_2_eq_2)
qed

end

end
