(* ===== verification/MockPass.thy ===== *)
theory MockPass
  imports MockRuns
begin

text \<open>
  The unit tests of the walker pass on every heap that has frames to give: the steps of each test,
  one by one.
\<close>

lemma mock_normal_write: "af_contains (mk_access (mock_normal_flags (mock_flags_of (af_union AF_READ AF_WRITE)))) AF_WRITE"
  by code_simp

lemmas run_simps = Let_def check_query_Ok check_Ok unwrap_st_def flush_leaf_range_state

context test_host
begin

lemma vrange_at: "page_ok start sz p \<Longrightarrow> vrange L start sz = Ok (page_at start sz)"
  by (intro vrange_page [OF addr]) (simp add: page_ok_def)

section \<open>Single mappings\<close>

lemma passes_round_trip: "fst (test_map_query_unmap_4k_round_trip E w) = Ok ()"
  unfolding test_map_query_unmap_4k_round_trip_def
proof (rule with_table_pass [where n = 4], goal_cases)
  case (2 pt w)
  let ?v = "0x10000000 :: usize" and ?p = "0xdead0000 :: paddr" and ?f = "mock_flags_of (af_union AF_READ AF_WRITE)"
  let ?mp = "mapping_new (page_at ?v Size4K) ?p (mock_normal_flags ?f)"
  have p: "page_ok ?v Size4K ?p" by (simp add: page_ok_def is_aligned_def)
  have r: "ready pt w (Suc (0 + 3))" using 2(1) by (simp add: numeral_eq_Suc)
  obtain w1 where m: "walker_map E pt (page_at ?v Size4K) (FromPhysAddr ?p) (mapping_flags_new ?f) w = (Ok (), w1)"
    "ready pt w1 (Suc 0)" "maps_page pt ?v Size4K ?p ?f w w1"
    using map_step [OF r p mock_size_to_level(1) 2(2)] by metis
  note q = maps_here [OF m(3)]
  obtain w2 where u: "unmap E pt (page_at ?v Size4K) w1 = (Ok ?mp, flush_leaf_range E (page_at ?v Size4K) w2)"
    "ready pt w2 (Suc 0)" "unmaps_page pt ?v Size4K w1 w2"
    using unmap_step [OF m(2) p q mapping_page_at(1)] by metis
  show ?case
    using u(2) by (simp add: run_simps vrange_at [OF p] m(1) u(1) q unmaps_here [OF u(3)] mapping_page_at mapping_size_page [OF p]
        mock_normal_write ready_def)
qed (use many in simp)

lemma passes_huge_query: "fst (test_map_2m_huge_then_query E w) = Ok ()"
  unfolding test_map_2m_huge_then_query_def
proof (rule with_table_pass [where n = 4], goal_cases)
  case (2 pt w)
  let ?v = "0x40000000 :: usize" and ?p = "0x200000000 :: paddr" and ?f = "mock_flags_of AF_READ"
  have p: "page_ok ?v Size2M ?p" by (simp add: page_ok_def is_aligned_def)
  have r: "ready pt w (Suc (0 + 3))" using 2(1) by (simp add: numeral_eq_Suc)
  obtain w1 where m: "walker_map E pt (page_at ?v Size2M) (FromPhysAddr ?p) (mapping_flags_new ?f) w = (Ok (), w1)"
    "ready pt w1 (Suc 0)" "maps_page pt ?v Size2M ?p ?f w w1"
    using map_step [OF r p mock_size_to_level(2) 2(2)] by metis
  show ?case
    using m(2) by (simp add: run_simps vrange_at [OF p] m(1) maps_here [OF m(3)] mapping_page_at mapping_size_page [OF p] ready_def)
qed (use many in simp)

lemma passes_interior: "fst (test_exact_range_ops_refuse_interior_subranges E w) = Ok ()"
  unfolding test_exact_range_ops_refuse_interior_subranges_def
proof (rule with_table_pass [where n = 4], goal_cases)
  case (2 pt w)
  let ?v = "0x40000000 :: usize" and ?p = "0x200000000 :: paddr" and ?f = "mock_flags_of AF_READ"
  let ?i = "page_at 0x40001000 Size4K"
  have p: "page_ok ?v Size2M ?p" "page_ok 0x40001000 Size4K 0x300000000" by (simp_all add: page_ok_def is_aligned_def)
  have r: "ready pt w (Suc (0 + 3))" using 2(1) by (simp add: numeral_eq_Suc)
  obtain w1 where m: "walker_map E pt (page_at ?v Size2M) (FromPhysAddr ?p) (mapping_flags_new ?f) w = (Ok (), w1)"
    "ready pt w1 (Suc 0)" "maps_page pt ?v Size2M ?p ?f w w1"
    using map_step [OF r p(1) mock_size_to_level(2) 2(2)] by metis
  have ok: "tree_ok E mock_live pt w1" using m(2) by (simp add: ready_def)
  have "query E pt 0x40001000 (mem w1) = Ok (mapping_new (page_at ?v Size2M) ?p (mock_normal_flags ?f))"
    using m(3) by (simp add: maps_page_def)
  then have ex: "exact_query E pt ?i (mem w1) = Err NotMapped"
    by (simp add: exact_query_def mapping_new_def page_at_def)
  note no = refused_step [OF ok ex] and valid = page_check(2) [OF addr p(2)]
  show ?case
    using ok by (simp add: run_simps vrange_at [OF p(1)] vrange_at [OF p(2)] m(1) maps_here [OF m(3)]
        mapping_page_at mapping_size_page [OF p(1)] no(1,2) no(3) [OF valid])
qed (use many in simp)

lemma passes_double_map: "fst (test_double_map_returns_already_mapped E w) = Ok ()"
  unfolding test_double_map_returns_already_mapped_def
proof (rule with_table_pass [where n = 4], goal_cases)
  case (2 pt w)
  let ?v = "0x2000 :: usize" and ?p = "0x4000 :: paddr" and ?f = "mock_flags_of AF_READ"
  have p: "page_ok ?v Size4K ?p" by (simp add: page_ok_def is_aligned_def)
  have r: "ready pt w (Suc (0 + 3))" using 2(1) by (simp add: numeral_eq_Suc)
  obtain w1 where m: "walker_map E pt (page_at ?v Size4K) (FromPhysAddr ?p) (mapping_flags_new ?f) w = (Ok (), w1)"
    "ready pt w1 (Suc 0)" "maps_page pt ?v Size4K ?p ?f w w1"
    using map_step [OF r p mock_size_to_level(1) 2(2)] by metis
  have "walker_map E pt (page_at ?v Size4K) (FromPhysAddr ?p) (mapping_flags_new ?f) w1 = (Err AlreadyMapped, w1)"
    by (rule map_again [OF m(2) p mock_size_to_level(1) maps_here [OF m(3)]])
  then show ?case
    using m(2) by (simp add: run_simps vrange_at [OF p] m(1) ready_def)
qed (use many in simp)

lemma passes_shared_frame: "fst (test_multiple_virtual_ranges_may_share_one_physical_frame E w) = Ok ()"
  unfolding test_multiple_virtual_ranges_may_share_one_physical_frame_def
proof (rule with_table_pass [where n = 7], goal_cases)
  case (2 pt w)
  let ?a = "0x10000000 :: usize" and ?b = "0x20000000 :: usize" and ?p = "0x90000000 :: paddr"
  let ?f = "mock_flags_of (af_union AF_READ AF_WRITE)"
  let ?mp = "\<lambda>v. mapping_new (page_at v Size4K) ?p (mock_normal_flags ?f)"
  have p: "page_ok ?a Size4K ?p" "page_ok ?b Size4K ?p" by (simp_all add: page_ok_def is_aligned_def)
  have ab: "is_aligned Size4K ?a" "is_aligned Size4K ?b" "?a \<noteq> ?b" "?b \<noteq> ?a" by (simp_all add: is_aligned_def)
  have r: "ready pt w (Suc (3 + 3))" using 2(1) by (simp add: numeral_eq_Suc)
  obtain w1 where m: "walker_map E pt (page_at ?a Size4K) (FromPhysAddr ?p) (mapping_flags_new ?f) w = (Ok (), w1)"
    "ready pt w1 (Suc (0 + 3))" "maps_page pt ?a Size4K ?p ?f w w1"
    using map_step [OF r p(1) mock_size_to_level(1) 2(2)] by (metis add_0)
  have q1: "query E pt ?b (mem w1) = Err NotMapped"
    using maps_elsewhere [OF m(3) ab(1-3)] fresh_query [OF 2(2), of ?b] by simp
  obtain w2 where m2: "walker_map E pt (page_at ?b Size4K) (FromPhysAddr ?p) (mapping_flags_new ?f) w1 = (Ok (), w2)"
    "ready pt w2 (Suc 0)" "maps_page pt ?b Size4K ?p ?f w1 w2"
    using map_step [OF m(2) p(2) mock_size_to_level(1) page_free [OF m(2) p(2) q1]] by metis
  have q: "query E pt ?a (mem w2) = Ok (?mp ?a)" "query E pt ?b (mem w2) = Ok (?mp ?b)"
    using maps_elsewhere [OF m2(3) ab(2,1,4)] maps_here [OF m(3)] maps_here [OF m2(3)] by simp_all
  obtain w3 where u: "unmap E pt (page_at ?a Size4K) w2 = (Ok (?mp ?a), flush_leaf_range E (page_at ?a Size4K) w3)"
    "ready pt w3 (Suc 0)" "unmaps_page pt ?a Size4K w2 w3"
    using unmap_step [OF m2(2) p(1) q(1) mapping_page_at(1)] by metis
  have q3: "query E pt ?a (mem w3) = Err NotMapped" "query E pt ?b (mem w3) = Ok (?mp ?b)"
    using unmaps_here [OF u(3)] unmaps_elsewhere [OF u(3) ab(1-3)] q(2) by simp_all
  show ?case
    using u(2) by (simp add: run_simps vrange_at [OF p(1)] vrange_at [OF p(2)] m(1) m2(1) q u(1) q3 mapping_page_at ready_def)
qed (use many in simp)

lemma passes_protect: "fst (test_protect_keeps_paddr_changes_flags E w) = Ok ()"
  unfolding test_protect_keeps_paddr_changes_flags_def
proof (rule with_table_pass [where n = 4], goal_cases)
  case (2 pt w)
  let ?v = "0x1000 :: usize" and ?p = "0x2000 :: paddr" and ?f = "mock_flags_of AF_READ"
  let ?g = "mock_flags_of (af_union AF_READ AF_WRITE)"
  have p: "page_ok ?v Size4K ?p" by (simp add: page_ok_def is_aligned_def)
  have r: "ready pt w (Suc (0 + 3))" using 2(1) by (simp add: numeral_eq_Suc)
  obtain w1 where m: "walker_map E pt (page_at ?v Size4K) (FromPhysAddr ?p) (mapping_flags_new ?f) w = (Ok (), w1)"
    "ready pt w1 (Suc 0)" "maps_page pt ?v Size4K ?p ?f w w1"
    using map_step [OF r p mock_size_to_level(1) 2(2)] by metis
  obtain w2 where u: "protect E pt (page_at ?v Size4K) ?g w1 = (Ok (mapping_new (page_at ?v Size4K) ?p ?g), w2)"
    "tree_ok E mock_live pt w2" "query E pt ?v (mem w2) = Ok (mapping_new (page_at ?v Size4K) ?p (mock_normal_flags ?g))"
    using protect_step [OF m(2) p maps_here [OF m(3)] mapping_page_at(1)] by (metis mapping_page_at(2))
  show ?case
    using u(2) by (simp add: run_simps vrange_at [OF p] m(1) u(1,3) mapping_page_at mock_normal_write)
qed (use many in simp)

lemma passes_remap: "fst (test_remap_changes_paddr E w) = Ok ()"
  unfolding test_remap_changes_paddr_def
proof (rule with_table_pass [where n = 4], goal_cases)
  case (2 pt w)
  let ?v = "0x1000 :: usize" and ?f = "mock_flags_of AF_READ"
  have p: "page_ok ?v Size4K 0x2000" "page_ok ?v Size4K 0x5000" by (simp_all add: page_ok_def is_aligned_def)
  have r: "ready pt w (Suc (0 + 3))" using 2(1) by (simp add: numeral_eq_Suc)
  obtain w1 where m: "walker_map E pt (page_at ?v Size4K) (FromPhysAddr 0x2000) (mapping_flags_new ?f) w = (Ok (), w1)"
    "ready pt w1 (Suc 0)" "maps_page pt ?v Size4K 0x2000 ?f w w1"
    using map_step [OF r p(1) mock_size_to_level(1) 2(2)] by metis
  obtain w2 where u: "remap E pt (page_at ?v Size4K) 0x5000 ?f w1 = (Ok (mapping_new (page_at ?v Size4K) 0x5000 ?f), w2)"
    "tree_ok E mock_live pt w2" "query E pt ?v (mem w2) = Ok (mapping_new (page_at ?v Size4K) 0x5000 (mock_normal_flags ?f))"
    using remap_step [OF m(2) p(2) maps_here [OF m(3)] mapping_page_at(1)] by metis
  show ?case
    using u(2) by (simp add: run_simps vrange_at [OF p(1)] m(1) u(1,3) mapping_page_at)
qed (use many in simp)

section \<open>Frames\<close>

lemma count_used: "ready pt w n \<Longrightarrow> live_count w = of_nat (used w)"
  using ready_used by metis

lemma count_flush: "live_count (flush_leaf_range E rg w) = live_count w"
  by (simp add: live_count_def)

lemma passes_reclaim: "fst (test_unmap_reclaims_emptied_intermediates E w) = Ok ()"
  unfolding test_unmap_reclaims_emptied_intermediates_def Let_def
proof (rule with_table_pass [where n = 4], goal_cases)
  case (2 pt w1)
  let ?v = "0x12345000 :: usize" and ?p = "0x6000 :: paddr" and ?f = "mock_flags_of AF_READ"
  let ?mp = "mapping_new (page_at ?v Size4K) ?p (mock_normal_flags ?f)"
  have p: "page_ok ?v Size4K ?p" by (simp add: page_ok_def is_aligned_def)
  have r: "ready pt w1 (Suc (0 + 3))" using 2(1) by (simp add: numeral_eq_Suc)
  obtain w2 where m: "walker_map E pt (page_at ?v Size4K) (FromPhysAddr ?p) (mapping_flags_new ?f) w1 = (Ok (), w2)"
    "ready pt w2 (Suc 0)" "maps_page pt ?v Size4K ?p ?f w1 w2" "used w2 \<le> used w1 + 3"
    using map_step [OF r p mock_size_to_level(1) 2(2)] by metis
  note q = maps_here [OF m(3)]
  obtain w3 where u: "unmap E pt (page_at ?v Size4K) w2 = (Ok ?mp, flush_leaf_range E (page_at ?v Size4K) w3)"
    "ready pt w3 (Suc 0)"
    using unmap_step [OF m(2) p q mapping_page_at(1)] by metis
  have "used w2 = 4" using page_tables [OF m(2) q mapping_page_at(1)] m(4) 2(4) by simp
  then have c2: "live_count w2 = 4" using count_used [OF m(2)] by simp
  have "used w3 = 1" using map_unmap_used [OF r p mock_size_to_level(1) 2(2) m(1) u(1)] used_pos [OF u(2)] u(2) 2(4)
    by (simp add: ready_def)
  then have c3: "live_count w3 = 1" using count_used [OF u(2)] by simp
  have c0: "live_count (test_setup w) = 0" "live_count w1 = 1"
    using count_used [OF 2(1)] 2(4) by (simp_all add: live_count_def test_setup_def reset_alloc_def)
  show ?case
    using u(2) by (simp add: run_simps vrange_at [OF p] m(1) u(1) c0 c2 c3 count_flush ready_def)
qed (use many in simp)

lemma passes_drop: "fst (test_drop_reclaims_entire_subtree E w) = Ok ()"
proof -
  let ?s = "\<lambda>i. 0x10000000 + of_nat i * 0x40000000 :: usize" and ?p = "\<lambda>i. 0x100000 + of_nat i * 0x1000 :: paddr"
  let ?body = "\<lambda>pt w. bind_st (for_st [0..<5] (\<lambda>i w. unwrap_st (map_page E pt (?s i) Size4K (?p i) AF_READ w)) w)
    (\<lambda>_. check (\<lambda>w. [live_count (test_setup w) + 1 < live_count w]))"
  have st: "stride_ok 5 (0x10000000 :: usize) 0x40000000" "stride_ok 5 (0x100000 :: usize) 0x1000"
    by (simp_all add: stride_ok_def)
  have p: "page_ok (?s i) Size4K (?p i)" if "i < 5" for i
    using stride_page [OF st that] by simp
  have inj: "inj_on ?s {..<5}" by (rule stride_inj [OF st(1)]) simp
  have z: "live_count (test_setup w) = 0" for w :: "(mock_heap, 'h) world"
    by (simp add: live_count_def test_setup_def reset_alloc_def)
  have "\<exists>w'. with_table E ?body (test_setup w) = (Ok (), w') \<and> live_count w' = 0"
  proof (rule with_table_run [where n = 16], goal_cases)
    case (2 pt w1)
    have "ready pt w1 (Suc (3 * 5))" using 2(1) by simp
    from map_pages_run [where a = "\<lambda>_. AF_READ", OF this p inj fresh_pages [OF 2(2) p]] obtain w2 where
      w2: "for_st [0..<5] (\<lambda>i w. unwrap_st (map_page E pt (?s i) Size4K (?p i) AF_READ w)) w1 = (Ok (), w2)"
      "ready pt w2 1" "pages_mapped pt 5 ?s ?p (\<lambda>_. AF_READ) 5 w2" "used w2 \<le> used w1 + 3 * 5" by blast
    have "query E pt (?s 0) (mem w2) = Ok (mapping_new (page_at (?s 0) Size4K) (?p 0) (mock_normal_flags (mock_flags_of AF_READ)))"
      using w2(3) unfolding pages_mapped_def by (rule allE [where x = 0]) simp
    from page_tables [OF w2(2) this] have u: "4 \<le> used w2" by (simp add: mapping_page_at)
    have "unat (live_count w2) = used w2"
      using u w2(4) 2(4) count_used [OF w2(2)] by (simp add: unsigned_of_nat take_bit_nat_eq_self)
    then have "1 < live_count w2" using u by (simp add: word_less_nat_alt)
    then show ?case using w2(1,2) by (simp add: check_Ok z ready_def)
  qed (use many in simp)
  then show ?thesis
    by (auto simp: test_drop_reclaims_entire_subtree_def Let_def z check_Ok)
qed

section \<open>Cursors\<close>

lemma passes_cursor_drop: "fst (test_cursor_drop_flushes_pending E w) = Ok ()"
  unfolding test_cursor_drop_flushes_pending_def
proof (rule with_table_pass [where n = 4], goal_cases)
  case (2 pt w)
  let ?f = "mock_flags_of AF_READ"
  have p: "page_ok 0x1000 Size4K 0x2000" by (simp add: page_ok_def is_aligned_def)
  have r: "ready pt w (Suc (0 + 3))" using 2(1) by (simp add: numeral_eq_Suc)
  have q: "query E pt 0x1000 (mem w) = Err NotMapped" by (rule fresh_query [OF 2(2)]) simp
  obtain c' w1 where m: "cursor_map E pt (page_at 0x1000 Size4K) (FromPhysAddr 0x2000) (mapping_flags_new ?f) (cursor_new, w) =
      (Ok (), (c', w1))" "ready pt w1 (Suc 0)" "maps_page pt 0x1000 Size4K 0x2000 ?f w w1"
    using cursor_page_step [OF r cache_ok_new p q] by metis
  have "tree_ok E mock_live pt (snd (flush_pending E c' w1))" using m(2) drained_ready by (metis ready_def)
  then show ?case
    by (simp add: run_simps vrange_at [OF p] cursor_map_page_def with_cursor_def cursor_drain m(1)
        drained_state maps_here [OF m(3)] mapping_page_at)
qed (use many in simp)

lemma passes_cursor_unmap_remap: "fst (test_cursor_unmap_then_remap_roundtrip E w) = Ok ()"
  unfolding test_cursor_unmap_then_remap_roundtrip_def
proof (rule with_table_pass [where n = 7], goal_cases)
  case (2 pt w)
  let ?v = "0x10000000 :: usize" and ?f = "mock_flags_of AF_READ" and ?g = "mock_flags_of (af_union AF_READ AF_WRITE)"
  have p: "page_ok ?v Size4K 0x40000000" "page_ok ?v Size4K 0x80000000" by (simp_all add: page_ok_def is_aligned_def)
  have r: "ready pt w (Suc (3 + 3))" using 2(1) by (simp add: numeral_eq_Suc)
  obtain w1 where m: "walker_map E pt (page_at ?v Size4K) (FromPhysAddr 0x40000000) (mapping_flags_new ?f) w = (Ok (), w1)"
    "ready pt w1 (Suc (0 + 3))" "maps_page pt ?v Size4K 0x40000000 ?f w w1"
    using map_step [OF r p(1) mock_size_to_level(1) 2(2)] by (metis add_0)
  note q = maps_here [OF m(3)]
  obtain c2 w2 where u: "cursor_unmap E pt (page_at ?v Size4K) (cursor_new, w1) =
      (Ok (mapping_new (page_at ?v Size4K) 0x40000000 (mock_normal_flags ?f)), (c2, w2))"
    "ready pt w2 (Suc (0 + 3))" "cache_ok E pt c2 w2" "unmaps_page pt ?v Size4K w1 w2"
    using cursor_unmap_step [OF m(2) cache_ok_new p(1) q mapping_page_at(1)] by metis
  obtain c3 w3 where m3: "cursor_map E pt (page_at ?v Size4K) (FromPhysAddr 0x80000000) (mapping_flags_new ?g) (c2, w2) =
      (Ok (), (c3, w3))" "ready pt w3 (Suc 0)" "maps_page pt ?v Size4K 0x80000000 ?g w2 w3"
    using cursor_page_step [OF u(2,3) p(2) unmaps_here [OF u(4)]] by metis
  have "tree_ok E mock_live pt (snd (flush_pending E c3 w3))" using m3(2) drained_ready by (metis ready_def)
  then show ?case
    by (simp add: run_simps vrange_at [OF p(1)] m(1) with_cursor_def cursor_drain u(1) m3(1)
        drained_state maps_here [OF m3(3)] mapping_page_at mock_normal_write)
qed (use many in simp)

lemma passes_cursor_error: "fst (test_cursor_error_invalidates_descent E w) = Ok ()"
  unfolding test_cursor_error_invalidates_descent_def
proof (rule with_table_pass [where n = 7], goal_cases)
  case (2 pt w)
  let ?a = "0x1000 :: usize" and ?b = "0x40000000 :: usize" and ?f = "mock_flags_of AF_READ"
  have p: "page_ok ?a Size4K 0x2000" "page_ok ?b Size4K 0x50000000" by (simp_all add: page_ok_def is_aligned_def)
  have r: "ready pt w (Suc (3 + 3))" using 2(1) by (simp add: numeral_eq_Suc)
  obtain w1 where m: "walker_map E pt (page_at ?a Size4K) (FromPhysAddr 0x2000) (mapping_flags_new ?f) w = (Ok (), w1)"
    "ready pt w1 (Suc (0 + 3))" "maps_page pt ?a Size4K 0x2000 ?f w w1"
    using map_step [OF r p(1) mock_size_to_level(1) 2(2)] by (metis add_0)
  have q: "query E pt ?b (mem w1) = Err NotMapped"
    using maps_elsewhere [OF m(3), of ?b] fresh_query [OF 2(2), of ?b] by (simp add: is_aligned_def)
  obtain c2 where no: "cursor_map E pt (page_at ?a Size4K) (FromPhysAddr 0x2000) (mapping_flags_new ?f) (cursor_new, w1) =
      (Err AlreadyMapped, (c2, w1))" "cache_ok E pt c2 w1"
    using cursor_page_again [OF m(2) cache_ok_new p(1) maps_here [OF m(3)]] by metis
  obtain c3 w3 where m3: "cursor_map E pt (page_at ?b Size4K) (FromPhysAddr 0x50000000) (mapping_flags_new ?f) (c2, w1) =
      (Ok (), (c3, w3))" "ready pt w3 (Suc 0)" "maps_page pt ?b Size4K 0x50000000 ?f w1 w3"
    using cursor_page_step [OF m(2) no(2) p(2) q] by metis
  have "tree_ok E mock_live pt (snd (flush_pending E c3 w3))" using m3(2) drained_ready by (metis ready_def)
  then show ?case
    by (simp add: run_simps vrange_at [OF p(1)] vrange_at [OF p(2)] m(1) with_cursor_def cursor_drain no(1) m3(1)
        drained_state maps_here [OF m3(3)] mapping_page_at)
qed (use many in simp)

lemma passes_cursor_contiguous: "fst (test_cursor_maps_contiguous_range_correctly E w) = Ok ()"
  unfolding test_cursor_maps_contiguous_range_correctly_def Let_def
proof (rule with_table_pass [where n = 193], goal_cases)
  case (2 pt w)
  let ?s = "\<lambda>i. 0x10000000 + of_nat i * 0x1000 :: usize" and ?p = "\<lambda>i. 0x40000000 + of_nat i * 0x1000 :: paddr"
  have st: "stride_ok 64 (0x10000000 :: usize) 0x1000" "stride_ok 64 (0x40000000 :: usize) 0x1000"
    by (simp_all add: stride_ok_def)
  have p: "page_ok (?s i) Size4K (?p i)" if "i < 64" for i
    using stride_page [OF st that] by simp
  have inj: "inj_on ?s {..<64}" by (rule stride_inj [OF st(1)]) simp
  have "ready pt w (Suc (3 * 64))" using 2(1) by simp
  from cursor_block_run [where a = "\<lambda>_. AF_READ", OF this p inj fresh_pages [OF 2(2) p]] obtain w2 where w2:
    "with_cursor E (for_st [0..<64] (\<lambda>i cw. unwrap_st (cursor_map_page E pt (?s i) Size4K (?p i) AF_READ cw))) w = (Ok (), w2)"
    "tree_ok E mock_live pt w2" "pages_mapped pt 64 ?s ?p (\<lambda>_. AF_READ) 64 w2" by blast
  have "for_st [0..<64] (\<lambda>i. check_query E pt (?s i) (\<lambda>mapping.
      [mapping_size (e_addr E) mapping = Some Size4K, m_paddr mapping = ?p i])) w2 = (Ok (), w2)"
    by (rule pages_queried [OF w2(3)]) (simp add: mapping_page_at mapping_size_page [OF p])
  then show ?case using w2(1,2) by (simp add: with_finished_cursor_eq)
qed (use many in simp)

lemma passes_cursor_boundary: "fst (test_cursor_maps_across_level2_boundary_correctly E w) = Ok ()"
  unfolding test_cursor_maps_across_level2_boundary_correctly_def Let_def
proof (rule with_table_pass [where n = 10], goal_cases)
  case (2 pt w)
  let ?a = "[0x1ff000, 0x200000, 0x201000] :: usize list"
  let ?s = "\<lambda>i. ?a ! i" and ?p = "\<lambda>i. 0x40000000 + of_nat i * 0x1000 :: paddr"
  have s: "?a ! i = 0x1ff000 + of_nat i * 0x1000" if "i < 3" for i
  proof -
    have "i = 0 \<or> i = 1 \<or> i = 2" using that by auto
    then show ?thesis by auto
  qed
  have st: "stride_ok 3 (0x1ff000 :: usize) 0x1000" "stride_ok 3 (0x40000000 :: usize) 0x1000"
    by (simp_all add: stride_ok_def)
  have p: "page_ok (?s i) Size4K (?p i)" if "i < 3" for i
    using stride_page [OF st that] s [OF that] by simp
  have inj: "inj_on ?s {..<3}"
    using stride_inj [OF st(1)] s by (simp add: inj_on_def)
  have "ready pt w (Suc (3 * 3))" using 2(1) by simp
  from cursor_block_run [where a = "\<lambda>_. AF_READ", OF this p inj fresh_pages [OF 2(2) p]] obtain w2 where w2:
    "with_cursor E (for_st [0..<3] (\<lambda>i cw. unwrap_st (cursor_map_page E pt (?s i) Size4K (?p i) AF_READ cw))) w = (Ok (), w2)"
    "tree_ok E mock_live pt w2" "pages_mapped pt 3 ?s ?p (\<lambda>_. AF_READ) 3 w2" by blast
  have "for_st [0..<3] (\<lambda>i. check_query E pt (?s i) (\<lambda>mapping.
      [mapping_size (e_addr E) mapping = Some Size4K, m_paddr mapping = ?p i])) w2 = (Ok (), w2)"
    by (rule pages_queried [OF w2(3)]) (simp add: mapping_page_at mapping_size_page [OF p])
  then show ?case using w2(1,2) by (simp add: numeral_3_eq_3)
qed (use many in simp)

section \<open>Scatter lists\<close>

lemma passes_scattered_array: "fst (test_map_scattered_backing_accepts_array_reference E w) = Ok ()"
  unfolding test_map_scattered_backing_accepts_array_reference_def
proof (rule with_table_pass [where n = 49], goal_cases)
  case (2 pt w)
  let ?s = "\<lambda>i. 0x20000000 + of_nat i * 0x1000 :: usize" and ?p = "\<lambda>i. 0x60000000 + of_nat i * 0x2000 :: paddr"
  have st: "stride_ok 16 (0x20000000 :: usize) 0x1000" "stride_ok 16 (0x60000000 :: usize) 0x2000"
    by (simp_all add: stride_ok_def)
  have p: "page_ok (?s i) Size4K (?p i)" if "i < 16" for i using stride_page [OF st that] by simp
  have rg: "page_ok 0x20000000 Size64K 0" by (simp add: page_ok_def is_aligned_def)
  note c = page_check [OF addr rg]
  have ne: "\<not> range_is_empty L (page_at 0x20000000 Size64K)"
    using c(1) by (auto simp: check_leaf_range_def split: if_splits)
  have "\<exists>w'. walker_map E pt (page_at 0x20000000 Size64K) (FromSlice (map (\<lambda>i. page_seg (?p i)) [0..<16]))
      (mapping_flags_scattered (mock_flags_of AF_READ) Size4K) w = (Ok (), w') \<and> tree_ok E mock_live pt w' \<and>
      pages_mapped pt 16 ?s ?p (\<lambda>_. AF_READ) 16 w'"
    by (rule scattered_run [OF _ st(1)]) (use p 2 c(4) ne in \<open>simp_all add: mapping_flags_scattered_def\<close>)
  then obtain w2 where w2: "walker_map E pt (page_at 0x20000000 Size64K) (FromSlice (map (\<lambda>i. page_seg (?p i)) [0..<16]))
      (mapping_flags_scattered (mock_flags_of AF_READ) Size4K) w = (Ok (), w2)" "tree_ok E mock_live pt w2"
      "pages_mapped pt 16 ?s ?p (\<lambda>_. AF_READ) 16 w2" by blast
  have b: "bind_ranges L (map (\<lambda>i. (?p i, 0x1000)) [0..<16]) = Ok (map (\<lambda>i. page_seg (?p i)) [0..<16])"
    by (rule bind_ranges_pages) (use p in \<open>simp add: page_ok_def is_aligned_def\<close>)
  have q: "for_st [0..<16] (\<lambda>i. check_query E pt (?s i) (\<lambda>mapping. [m_paddr mapping = ?p i])) w2 = (Ok (), w2)"
    by (rule pages_queried [OF w2(3)]) (simp add: mapping_page_at)
  show ?case
    using w2(2) unfolding mock_env_fields b vrange_at [OF rg] bind_st_simps w2(1) bind_unwrap q by simp
qed (use many in simp)

lemma passes_scattered_vec: "fst (test_map_scattered_backing_accepts_heapless_vec E w) = Ok ()"
  unfolding test_map_scattered_backing_accepts_heapless_vec_def
proof (rule with_table_pass [where n = 13], goal_cases)
  case (2 pt w)
  let ?s = "\<lambda>i. 0x30000000 + of_nat i * 0x1000 :: usize" and ?p = "\<lambda>i. 0x70000000 + of_nat i * 0x3000 :: paddr"
  let ?f = "mapping_flags_with_contiguity (mapping_flags_new (mock_flags_of AF_READ)) (Scattered Size4K)"
  have st: "stride_ok 4 (0x30000000 :: usize) 0x1000" "stride_ok 4 (0x70000000 :: usize) 0x3000"
    by (simp_all add: stride_ok_def)
  have p: "page_ok (?s i) Size4K (?p i)" if "i < 4" for i using stride_page [OF st that] by simp
  have rg: "page_ok 0x30000000 Size16K 0" by (simp add: page_ok_def is_aligned_def)
  note c = page_check [OF addr rg]
  have ne: "\<not> range_is_empty L (page_at 0x30000000 Size16K)"
    using c(1) by (auto simp: check_leaf_range_def split: if_splits)
  have "\<exists>w'. walker_map E pt (page_at 0x30000000 Size16K) (FromSlice (map (\<lambda>i. page_seg (?p i)) [0..<4])) ?f w = (Ok (), w') \<and>
      tree_ok E mock_live pt w' \<and> pages_mapped pt 4 ?s ?p (\<lambda>_. AF_READ) 4 w'"
    by (rule scattered_run [OF _ st(1)])
      (use p 2 c(4) ne in \<open>simp_all add: mapping_flags_with_contiguity_def mapping_flags_new_def\<close>)
  then obtain w2 where w2: "walker_map E pt (page_at 0x30000000 Size16K) (FromSlice (map (\<lambda>i. page_seg (?p i)) [0..<4])) ?f w =
      (Ok (), w2)" "tree_ok E mock_live pt w2" "pages_mapped pt 4 ?s ?p (\<lambda>_. AF_READ) 4 w2" by blast
  have b: "bind_ranges L (map (\<lambda>i. (?p i, 0x1000)) [0..<4]) = Ok (map (\<lambda>i. page_seg (?p i)) [0..<4])"
    by (rule bind_ranges_pages) (use p in \<open>simp add: page_ok_def is_aligned_def\<close>)
  have q: "for_st [0..<4] (\<lambda>i. check_query E pt (?s i) (\<lambda>mapping. [m_paddr mapping = ?p i])) w2 = (Ok (), w2)"
    by (rule pages_queried [OF w2(3)]) (simp add: mapping_page_at)
  show ?case
    using w2(2) unfolding mock_env_fields b vrange_at [OF rg] bind_st_simps w2(1) bind_unwrap q by simp
qed (use many in simp)

section \<open>Split and merge\<close>

lemma passes_split: "fst (test_split_2m_into_4k_leaves E w) = Ok ()"
  unfolding test_split_2m_into_4k_leaves_def Let_def
proof (rule with_table_pass [where n = 5], goal_cases)
  case (2 pt w)
  let ?v = "0x40000000 :: usize" and ?p = "0x80000000 :: paddr" and ?f = "mock_flags_of AF_READ"
  have p: "page_ok ?v Size2M ?p" by (simp add: page_ok_def is_aligned_def)
  have st: "stride_ok 512 ?v 0x1000" by (simp add: stride_ok_def)
  have r: "ready pt w (Suc (1 + 3))" using 2(1) by (simp add: numeral_eq_Suc)
  obtain w1 where m: "walker_map E pt (page_at ?v Size2M) (FromPhysAddr ?p) (mapping_flags_new ?f) w = (Ok (), w1)"
    "ready pt w1 (Suc 1)" "maps_page pt ?v Size2M ?p ?f w w1"
    using map_step [OF r p mock_size_to_level(2) 2(2)] by metis
  note q = maps_here [OF m(3)]
  obtain w2 where sp: "split_at E pt (page_at ?v Size2M) w1 = (Ok Size4K, w2)" "tree_ok E mock_live pt w2"
    using huge_split [OF m(2) p q] by metis
  have ok: "tree_ok E mock_live pt w1" using m(2) by (simp add: ready_def)
  have "for_st [0..<ENTRIES_PER_TABLE (e_meta E)] (\<lambda>i. check_query E pt (?v + of_nat i * 0x1000) (\<lambda>mapping.
      [mapping_size (e_addr E) mapping = Some Size4K, m_paddr mapping = ?p + of_nat i * 0x1000])) w2 = (Ok (), w2)"
  proof (rule for_st_check, rule ballI)
    fix i assume "i \<in> set [0..<ENTRIES_PER_TABLE (e_meta E)]"
    then have "i < 512" by (simp add: mock_meta_fields)
    from split_parts [OF ok p q sp(1) st this] obtain mp where
      "query E pt (?v + of_nat i * 0x1000) (mem w2) = Ok mp" "mapping_size L mp = Some Size4K"
      "m_paddr mp = ?p + of_nat i * 0x1000" by blast
    then show "check_query E pt (?v + of_nat i * 0x1000) (\<lambda>mapping.
        [mapping_size (e_addr E) mapping = Some Size4K, m_paddr mapping = ?p + of_nat i * 0x1000]) w2 = (Ok (), w2)"
      by (simp add: check_query_def)
  qed
  then show ?case
    using sp(2) by (simp add: vrange_at [OF p] m(1) sp(1) check_Ok)
qed (use many in simp)

lemma passes_merge: "fst (test_merge_after_split_round_trips E w) = Ok ()"
  unfolding test_merge_after_split_round_trips_def Let_def
proof (rule with_table_pass [where n = 5], goal_cases)
  case (2 pt w)
  let ?v = "0x40000000 :: usize" and ?p = "0x80000000 :: paddr" and ?f = "mock_flags_of AF_READ"
  have p: "page_ok ?v Size2M ?p" by (simp add: page_ok_def is_aligned_def)
  have r: "ready pt w (Suc (1 + 3))" using 2(1) by (simp add: numeral_eq_Suc)
  obtain w1 where m: "walker_map E pt (page_at ?v Size2M) (FromPhysAddr ?p) (mapping_flags_new ?f) w = (Ok (), w1)"
    "ready pt w1 (Suc 1)" "maps_page pt ?v Size2M ?p ?f w w1"
    using map_step [OF r p mock_size_to_level(2) 2(2)] by metis
  note q = maps_here [OF m(3)]
  obtain w2 where sp: "split_at E pt (page_at ?v Size2M) w1 = (Ok Size4K, w2)"
    using huge_split [OF m(2) p q] by metis
  have ok: "tree_ok E mock_live pt w1" using m(2) by (simp add: ready_def)
  obtain res w3 where mg: "merge_at E pt (page_at ?v Size2M) w2 = (res, w3)" by fastforce
  note rt = mock.split_merge_roundtrip [OF ok total sp mg]
  then obtain sz where "res = Ok sz" "bytes Size2M = bytes sz" using page_check(4) [OF addr p] by auto
  then have res: "res = Ok Size2M" by (metis from_bytes_bytes option.inject)
  have "query E pt ?v (mem w3) = Ok (mapping_new (page_at ?v Size2M) ?p (mock_normal_flags ?f))" using rt q by simp
  then show ?case
    using rt by (simp add: vrange_at [OF p] m(1) sp mg res check_Ok check_query_Ok mapping_size_page [OF p])
qed (use many in simp)

lemma passes_merge_gap: "fst (test_merge_refuses_when_not_contiguous E w) = Ok ()"
  unfolding test_merge_refuses_when_not_contiguous_def Let_def
proof (rule with_table_pass [where n = 1537], goal_cases)
  case (2 pt w)
  let ?s = "\<lambda>i. 0x40000000 + of_nat i * 0x1000 :: usize"
  let ?p = "\<lambda>i. (if i < 256 then 0x80000000 else 0xc0000000) + of_nat (i mod 256) * 0x1000 :: paddr"
  have v: "page_ok 0x40000000 Size2M 0" by (simp add: page_ok_def is_aligned_def)
  have st: "stride_ok 512 (0x40000000 :: usize) 0x1000" "stride_ok 256 (0x80000000 :: usize) 0x1000"
    "stride_ok 256 (0xc0000000 :: usize) 0x1000"
    by (simp_all add: stride_ok_def)
  have p: "page_ok (?s i) Size4K (?p i)" if i: "i < 512" for i
  proof -
    have "i mod 256 < 256" by simp
    then have "is_aligned Size4K (?p i) \<and> unat (?p i) < 2 ^ 52"
      using stride [OF st(2), of "i mod 256"] stride [OF st(3), of "i mod 256"] by (auto split: if_splits)
    then show ?thesis using stride [OF st(1) i] by (simp add: page_ok_def)
  qed
  have inj: "inj_on ?s {..<512}" by (rule stride_inj [OF st(1)]) simp
  have "ready pt w (Suc (3 * 512))" using 2(1) by simp
  from map_pages_run [where a = "\<lambda>_. AF_READ", OF this p inj fresh_pages [OF 2(2) p]] obtain w2 where w2:
    "for_st [0..<512] (\<lambda>i w. unwrap_st (map_page E pt (?s i) Size4K (?p i) AF_READ w)) w = (Ok (), w2)"
    "ready pt w2 1" "pages_mapped pt 512 ?s ?p (\<lambda>_. AF_READ) 512 w2" by blast
  have "merge_at E pt (page_at 0x40000000 Size2M) w2 = (Err NotCoalescable, w2)"
    by (rule merge_refused [OF w2(2) v st(1) w2(3) p, where i = 256]) simp_all
  then show ?case
    using w2(1,2) by (simp add: vrange_at [OF v] check_Ok mock_meta_fields ready_def)
qed (use many in simp)

lemma passes_merge_flags: "fst (test_merge_refuses_on_mismatched_flags E w) = Ok ()"
  unfolding test_merge_refuses_on_mismatched_flags_def Let_def
proof (rule with_table_pass [where n = 1537], goal_cases)
  case (2 pt w)
  let ?s = "\<lambda>i. 0x40000000 + of_nat i * 0x1000 :: usize" and ?p = "\<lambda>i. 0x80000000 + of_nat i * 0x1000 :: paddr"
  let ?a = "\<lambda>i :: nat. if i = 100 then af_union AF_READ AF_WRITE else AF_READ"
  have v: "page_ok 0x40000000 Size2M 0" by (simp add: page_ok_def is_aligned_def)
  have st: "stride_ok 512 (0x40000000 :: usize) 0x1000" "stride_ok 512 (0x80000000 :: usize) 0x1000"
    by (simp_all add: stride_ok_def)
  have p: "page_ok (?s i) Size4K (?p i)" if "i < 512" for i using stride_page [OF st that] by simp
  have inj: "inj_on ?s {..<512}" by (rule stride_inj [OF st(1)]) simp
  have "ready pt w (Suc (3 * 512))" using 2(1) by simp
  from map_pages_run [where a = ?a, OF this p inj fresh_pages [OF 2(2) p]] obtain w2 where w2:
    "for_st [0..<512] (\<lambda>i w. unwrap_st (map_page E pt (?s i) Size4K (?p i) (?a i) w)) w = (Ok (), w2)"
    "ready pt w2 1" "pages_mapped pt 512 ?s ?p ?a 512 w2" by blast
  have "mock_normal_flags (mock_flags_of (af_union AF_READ AF_WRITE)) \<noteq> mock_normal_flags (mock_flags_of AF_READ)"
    by code_simp
  then have "merge_at E pt (page_at 0x40000000 Size2M) w2 = (Err NotCoalescable, w2)"
    by (intro merge_refused [OF w2(2) v st(1) w2(3) p, where i = 100]) simp_all
  then show ?case
    using w2(1,2) by (simp add: vrange_at [OF v] check_Ok mock_meta_fields ready_def)
qed (use many in simp)

end

section \<open>Counted invalidations\<close>

locale recording_host = test_host L h RecordingTlb N
  for L :: addr_lib and h :: os_heap and N :: nat
begin

lemma queue_page:
  assumes "page_ok start Size4K 0" "\<not> needs_full_flush c"
  shows "queue_flush_range E (page_at start Size4K) c =
    (case coalesce Size4K 0 start (start + 0x1000) (pending_flushes c) of
       None \<Rightarrow> escalate c
     | Some (start, fin, q) \<Rightarrow>
         if length q < FLUSH_RANGE_CAP
         then c\<lparr>pending_flushes := q @ [\<lparr>fr_start = start, fr_pages = (fin - start) div 0x1000\<rparr>]\<rparr>
         else escalate (c\<lparr>pending_flushes := q\<rparr>))"
proof -
  have "unat start + 4096 \<le> 2 ^ 48" using assms(1) by (simp add: page_ok_def)
  then have "checked_add start 0x1000 = Some (start + 0x1000)" by (simp add: checked_add_def)
  then show ?thesis
    using page_check(4) [OF addr assms(1)] assms(2)
    by (simp add: queue_flush_range_def mock_meta_fields checked_mul_def Let_def split: option.split)
qed

text \<open>Pages in a row coalesce into one range.\<close>

lemma queue_row:
  assumes st: "stride_ok cnt base 0x1000" and k: "k \<le> cnt"
  shows "same_queue (fold (\<lambda>i. queue_flush_range E (page_at (base + of_nat i * 0x1000) Size4K)) [0..<k] cursor_new)
    (cursor_new\<lparr>pending_flushes := if k = 0 then [] else [\<lparr>fr_start = base, fr_pages = of_nat k\<rparr>]\<rparr>)"
  using k
proof (induction k)
  case 0
  then show ?case by (simp add: same_queue_def cursor_new_def)
next
  case (Suc k)
  let ?q = "fold (\<lambda>i. queue_flush_range E (page_at (base + of_nat i * 0x1000) Size4K)) [0..<k] cursor_new"
  let ?s = "base + of_nat k * 0x1000"
  have k: "k < cnt" "cnt < 2 ^ 32" using Suc.prems st by (simp_all add: stride_ok_def)
  note u = stride [OF st k(1)]
  have p: "page_ok ?s Size4K 0" using u by (simp add: page_ok_def is_aligned_def)
  have q: "\<not> needs_full_flush ?q" "pending_flushes ?q = (if k = 0 then [] else [\<lparr>fr_start = base, fr_pages = of_nat k\<rparr>])"
    using Suc by (simp_all add: same_queue_def cursor_new_def)
  have off: "unat (of_nat k * 0x1000 :: usize) = k * 4096" "unat (of_nat k :: usize) = k"
    using unat_stride [of 0 k "0x1000"] k by (simp_all add: unsigned_of_nat take_bit_nat_eq_self)
  have e: "fr_end Size4K \<lparr>fr_start = base, fr_pages = of_nat k\<rparr> = Some ?s"
    using off u by (simp add: fr_end_def checked_mul_def checked_add_def)
  have s4: "unat (?s + 0x1000) = unat base + k * 4096 + 4096"
    using u by (subst unat_add_lem [THEN iffD1]) simp_all
  then have "base \<le> ?s" "?s \<le> ?s + 0x1000" "\<not> ?s + 0x1000 < base"
    using u(1) by (simp_all add: word_le_nat_alt word_less_nat_alt)
  then have "coalesce Size4K 0 ?s (?s + 0x1000) (pending_flushes ?q) = Some (base, ?s + 0x1000, [])"
    unfolding q(2) using e
    by (auto simp: coalesce.simps [of _ 0 _ _ "[_]"] coalesce.simps [of _ 0 _ _ "[]"] swap_remove_def min_def max_def)
  moreover have "(?s + 0x1000 - base) div 0x1000 = of_nat (Suc k)"
  proof -
    have "?s + 0x1000 - base = of_nat (Suc k) * 0x1000" by (simp add: algebra_simps)
    moreover have "unat (of_nat (Suc k) * 0x1000 :: usize) = Suc k * 4096" "unat (of_nat (Suc k) :: usize) = Suc k"
      using unat_stride [of 0 "Suc k" "0x1000"] k by (simp_all add: unsigned_of_nat take_bit_nat_eq_self del: of_nat_Suc)
    ultimately show ?thesis by (simp add: word_unat_eq_iff unat_div_distrib del: of_nat_Suc)
  qed
  ultimately have "queue_flush_range E (page_at ?s Size4K) ?q =
      ?q\<lparr>pending_flushes := [\<lparr>fr_start = base, fr_pages = of_nat (Suc k)\<rparr>]\<rparr>"
    using queue_page [OF p q(1)] by (simp add: FLUSH_RANGE_CAP_def)
  then show ?case using q(1) by (simp add: same_queue_def cursor_new_def)
qed

lemma passes_flush_row: "fst (test_cursor_flushes_contiguous_pending_pages_as_range E w) = Ok ()"
  unfolding test_cursor_flushes_contiguous_pending_pages_as_range_def Let_def
proof (rule with_table_pass [where n = 400], goal_cases)
  case (2 pt w)
  let ?s = "\<lambda>i. 0x50000000 + of_nat i * 0x1000 :: usize" and ?p = "\<lambda>i. 0x90000000 + of_nat i * 0x1000 :: paddr"
  have cap: "FLUSH_RANGE_CAP + 5 = 133" by (simp add: FLUSH_RANGE_CAP_def)
  have st: "stride_ok 133 (0x50000000 :: usize) 0x1000" "stride_ok 133 (0x90000000 :: usize) 0x1000"
    by (simp_all add: stride_ok_def)
  have p: "page_ok (?s i) Size4K (?p i)" if "i < 133" for i using stride_page [OF st that] by simp
  have inj: "inj_on ?s {..<133}" by (rule stride_inj [OF st(1)]) simp
  have "ready pt w (Suc (3 * 133))" using 2(1) by simp
  from cursor_pages_run [where a = "\<lambda>_. AF_READ", OF this cache_ok_new p inj fresh_pages [OF 2(2) p]] obtain c' w' where run:
    "for_st [0..<133] (\<lambda>i cw. unwrap_st (cursor_map_page E pt (?s i) Size4K (?p i) AF_READ cw)) (cursor_new, w) = (Ok (), (c', w'))"
    "ready pt w' 1" "log w' = log w"
    "same_queue (fold (\<lambda>i. queue_flush_range E (page_at (?s i) Size4K)) [0..<133] cursor_new) c'" by blast
  have "pending_flushes c' = [\<lparr>fr_start = 0x50000000, fr_pages = 133\<rparr>]" "\<not> needs_full_flush c'"
    using run(4) queue_row [OF st(1) order.refl] by (simp_all add: same_queue_def cursor_new_def)
  then have fl: "snd (flush_pending E c' w') = emit [RangeFlush 0x50000000 133] w'"
    by (simp add: flush_pending_def pending_count_def saturating_add_def RecordingTlb_def flush_ranges_def)
  have ok: "tree_ok E mock_live pt (snd (flush_pending E c' w'))" using run(2) drained_ready by (metis ready_def)
  have lg: "log (emit [RangeFlush 0x50000000 133] w') = [Tlb (RangeFlush 0x50000000 133)]"
    using run(3) 2(3) by (simp add: emit_def)
  show ?case
    unfolding cap
    using ok by (simp add: with_finished_cursor_eq with_cursor_def cursor_drain run(1) fl check_Ok range_flushes_def local_flush_calls_def
        full_flush_calls_def lg)
qed (use many in simp)

text \<open>Pages apart do not coalesce; the queue overflows at its capacity.\<close>

lemma coalesce_apart:
  assumes "\<forall>r\<in>set q. \<exists>e. fr_end ps r = Some e \<and> (fin < fr_start r \<or> e < start)"
  shows "coalesce ps idx start fin q = Some (start, fin, q)"
proof (induction "length q - idx" arbitrary: idx)
  case 0
  then show ?case by (subst coalesce.simps) simp
next
  case (Suc n)
  then have idx: "idx < length q" by simp
  then obtain e where e: "fr_end ps (q ! idx) = Some e" "fin < fr_start (q ! idx) \<or> e < start"
    using assms nth_mem by blast
  have "coalesce ps (idx + 1) start fin q = Some (start, fin, q)" using Suc by simp
  then show ?case using idx e by (subst coalesce.simps) simp
qed

lemma queue_apart_coalesce:
  assumes st: "stride_ok cnt base 0x2000" and k: "k < cnt"
  shows "coalesce Size4K 0 (base + of_nat k * 0x2000) (base + of_nat k * 0x2000 + 0x1000)
      (map (\<lambda>i. \<lparr>fr_start = base + of_nat i * 0x2000, fr_pages = 1\<rparr>) [0..<k]) =
    Some (base + of_nat k * 0x2000, base + of_nat k * 0x2000 + 0x1000,
      map (\<lambda>i. \<lparr>fr_start = base + of_nat i * 0x2000, fr_pages = 1\<rparr>) [0..<k])"
proof (rule coalesce_apart, rule ballI)
  fix r assume "r \<in> set (map (\<lambda>i. \<lparr>fr_start = base + of_nat i * 0x2000, fr_pages = 1\<rparr>) [0..<k])"
  then obtain i where i: "i < k" "r = \<lparr>fr_start = base + of_nat i * 0x2000, fr_pages = 1\<rparr>" by auto
  let ?r = "base + of_nat i * 0x2000"
  have u: "unat ?r = unat base + i * 0x2000" "unat ?r + 0x2000 \<le> 2 ^ 48"
    "unat (base + of_nat k * 0x2000) = unat base + k * 0x2000"
    using stride [OF st, of i] stride [OF st k] i(1) k by simp_all
  have e: "unat (?r + 0x1000) = unat ?r + 0x1000" using u(2) by (subst unat_add_lem [THEN iffD1]) simp_all
  have "fr_end Size4K r = Some (?r + 0x1000)"
    using u(2) by (simp add: fr_end_def checked_mul_def checked_add_def i(2))
  moreover have "?r + 0x1000 < base + of_nat k * 0x2000"
    using i(1) unfolding word_less_nat_alt e u(1,3) by simp
  ultimately show "\<exists>e. fr_end Size4K r = Some e \<and>
      (base + of_nat k * 0x2000 + 0x1000 < fr_start r \<or> e < base + of_nat k * 0x2000)" by blast
qed

lemma queue_apart:
  assumes st: "stride_ok cnt base 0x2000" and k: "k \<le> cnt" "k \<le> FLUSH_RANGE_CAP"
  shows "same_queue (fold (\<lambda>i. queue_flush_range E (page_at (base + of_nat i * 0x2000) Size4K)) [0..<k] cursor_new)
    (cursor_new\<lparr>pending_flushes := map (\<lambda>i. \<lparr>fr_start = base + of_nat i * 0x2000, fr_pages = 1\<rparr>) [0..<k]\<rparr>)"
  using k
proof (induction k)
  case 0
  then show ?case by (simp add: same_queue_def cursor_new_def)
next
  case (Suc k)
  let ?q = "fold (\<lambda>i. queue_flush_range E (page_at (base + of_nat i * 0x2000) Size4K)) [0..<k] cursor_new"
  let ?rs = "map (\<lambda>i. \<lparr>fr_start = base + of_nat i * 0x2000, fr_pages = 1 :: usize\<rparr>) [0..<k]"
  let ?s = "base + of_nat k * 0x2000"
  have k: "k < cnt" using Suc.prems by simp
  have p: "page_ok ?s Size4K 0" using stride [OF st k] by (simp add: page_ok_def is_aligned_def)
  have q: "\<not> needs_full_flush ?q" "pending_flushes ?q = ?rs"
    using Suc by (simp_all add: same_queue_def cursor_new_def)
  have ap: "coalesce Size4K 0 ?s (?s + 0x1000) ?rs = Some (?s, ?s + 0x1000, ?rs)"
    by (rule queue_apart_coalesce [OF st k])
  have "queue_flush_range E (page_at ?s Size4K) ?q = ?q\<lparr>pending_flushes := ?rs @ [\<lparr>fr_start = ?s, fr_pages = 1\<rparr>]\<rparr>"
    using queue_page [OF p q(1)] ap Suc.prems(2) by (simp add: q(2))
  then show ?case using q(1) by (simp add: same_queue_def cursor_new_def)
qed

lemma queue_overflow:
  assumes st: "stride_ok 129 base 0x2000"
  shows "needs_full_flush (fold (\<lambda>i. queue_flush_range E (page_at (base + of_nat i * 0x2000) Size4K)) [0..<129] cursor_new)"
proof -
  let ?f = "\<lambda>i. queue_flush_range E (page_at (base + of_nat i * 0x2000) Size4K)"
  let ?q = "fold ?f [0..<128] cursor_new" and ?s = "base + of_nat 128 * 0x2000 :: usize"
  have k: "(128 :: nat) < 129" by simp
  have p: "page_ok ?s Size4K 0" using stride [OF st k] by (simp add: page_ok_def is_aligned_def)
  have q: "\<not> needs_full_flush ?q"
    "pending_flushes ?q = map (\<lambda>i. \<lparr>fr_start = base + of_nat i * 0x2000, fr_pages = 1\<rparr>) [0..<128]"
    using queue_apart [OF st, of 128] by (simp_all add: same_queue_def cursor_new_def FLUSH_RANGE_CAP_def)
  have "needs_full_flush (?f 128 ?q)"
    unfolding queue_page [OF p q(1)] q(2) queue_apart_coalesce [OF st k] by (simp add: FLUSH_RANGE_CAP_def escalate_def)
  moreover have "[0..<129] = [0..<128] @ [128]" using upt_Suc_append [of 0 128] by simp
  ultimately show ?thesis unfolding \<open>[0..<129] = _\<close> fold_append by simp
qed

lemma passes_flush_overflow: "fst (test_cursor_fragmented_range_overflow_falls_back_to_full_flush E w) = Ok ()"
  unfolding test_cursor_fragmented_range_overflow_falls_back_to_full_flush_def Let_def
proof (rule with_table_pass [where n = 388], goal_cases)
  case (2 pt w)
  let ?s = "\<lambda>i. 0x40000000 + of_nat i * 0x2000 :: usize" and ?p = "\<lambda>i. 0x80000000 + of_nat i * 0x1000 :: paddr"
  have cap: "FLUSH_RANGE_CAP + 1 = 129" by (simp add: FLUSH_RANGE_CAP_def)
  have st: "stride_ok 129 (0x40000000 :: usize) 0x2000" "stride_ok 129 (0x80000000 :: usize) 0x1000"
    by (simp_all add: stride_ok_def)
  have p: "page_ok (?s i) Size4K (?p i)" if "i < 129" for i using stride_page [OF st that] by simp
  have inj: "inj_on ?s {..<129}" by (rule stride_inj [OF st(1)]) simp
  have "ready pt w (Suc (3 * 129))" using 2(1) by simp
  from cursor_pages_run [where a = "\<lambda>_. AF_READ", OF this cache_ok_new p inj fresh_pages [OF 2(2) p]] obtain c' w' where run:
    "for_st [0..<129] (\<lambda>i cw. unwrap_st (cursor_map_page E pt (?s i) Size4K (?p i) AF_READ cw)) (cursor_new, w) = (Ok (), (c', w'))"
    "ready pt w' 1" "pages_mapped pt 129 ?s ?p (\<lambda>_. AF_READ) 129 w'" "log w' = log w"
    "same_queue (fold (\<lambda>i. queue_flush_range E (page_at (?s i) Size4K)) [0..<129] cursor_new) c'" by blast
  have full: "needs_full_flush c'" using run(5) queue_overflow [OF st(1)] by (simp add: same_queue_def)
  then have fl: "snd (flush_pending E c' w') = emit [FullFlush] w'"
    by (simp add: flush_pending_def RecordingTlb_def Let_def)
  have ok: "tree_ok E mock_live pt (emit [FullFlush] w')" using run(2) drained_ready fl by (metis ready_def)
  have lg: "log (emit [FullFlush] w') = [Tlb FullFlush]" using run(4) 2(3) by (simp add: emit_def)
  have pm: "pages_mapped pt 129 ?s ?p (\<lambda>_. AF_READ) 129 (emit [FullFlush] w')"
    using run(3) drained_pages [of pt 129 ?s ?p "\<lambda>_. AF_READ" 129 c' w'] fl by simp
  have q: "for_st [0..<129] (\<lambda>i. check_query E pt (?s i) (\<lambda>mapping. [m_paddr mapping = ?p i])) (emit [FullFlush] w') =
      (Ok (), emit [FullFlush] w')"
    by (rule pages_queried [OF pm]) (simp add: mapping_page_at)
  show ?case
    unfolding cap
    using ok q by (simp add: with_cursor_def cursor_drain run(1) fl full check_Ok range_flushes_def
        local_flush_calls_def full_flush_calls_def lg)
qed (use many in simp)

end

section \<open>Tables without children\<close>

lemma drop_no_children:
  assumes "\<forall>i\<in>set is. \<not> (is_present (e_pte E) (read_entry E (mem w) pa i) \<and>
      kind_is_table (entry_kind (e_pte E) (read_entry E (mem w) pa i) level))"
  shows "drop_children E rec level pa is w = (Ok (), w)"
  using assms by (induction "is") (auto simp: Let_def)

context test_host
begin

lemma passes_invalid_entry: "fst (test_present_invalid_entry_fails_closed E w) = Ok ()"
proof -
  obtain pt w1 where t: "try_new E (test_setup w) = (Ok pt, w1)"
  proof -
    have "Suc 1 \<le> N" using many by simp
    then show thesis using try_new_ready [of 1 w] that by metis
  qed
  then have a: "alloc_table_frame E (test_setup w) = (Ok pt, w1)" by (simp add: try_new_def mock.assert_layout)
  have f: "frame_ok (e_meta E) pt" and z: "\<forall>i<512. read_entry E (mem w1) pt i = 0"
    using mock.alloc_table_frame_spec(3) [OF a refl] by (simp_all add: mock_meta_fields)
  let ?e = "MOCK_PRESENT OR MOCK_INVALID"
  let ?w = "store E pt 0 ?e w1"
  have rd: "read_entry E (mem ?w) pt i = (if i = 0 then ?e else 0)" if "i < 512" for i
    using mock.cells_inj [OF f f, of 0 i] that z
    by (auto simp: store_def read_entry_def write_entry_def mock_meta_fields)
  have bits: "mock_is_present ?e" "mock_entry_kind ?e l = Invalid" "\<not> mock_is_present 0" for l
    by (simp_all add: mock_present_bit mock_kind_bits bit_or_iff bit_mock_consts)
  have q: "query E pt 0 (mem ?w) = Err InvalidEntryKind"
  proof -
    have "query_walk E (mem ?w) (Suc 3) pt 0 = Err InvalidEntryKind"
      unfolding query_walk.simps Let_def
      using rd [of 0] bits by (simp add: index_at_def entry_is_leaf_def MockPte_def)
    then show ?thesis by (simp add: query_def check_vaddr_def mock_meta_fields default_vaddr_is_valid_def)
  qed
  have "drop_children E (drop_subtree E 3) (Suc 3) pt [0..<ENTRIES_PER_TABLE (e_meta E)] ?w = (Ok (), ?w)"
    by (rule drop_no_children) (auto simp: mock_meta_fields rd bits MockPte_def kind_is_table_def)
  then have d: "drop_subtree E (Suc 3) pt ?w = ignore_result (dealloc_table_frame E pt ?w)"
    unfolding drop_subtree.simps by simp
  from mock.ignore_dealloc [OF f, of ?w] d have "fst (walker_drop E pt ?w) = Ok ()"
    by (auto simp: walker_drop_def mock_meta_fields)
  then show ?thesis
    by (simp add: test_present_invalid_entry_fails_closed_def Let_def with_table_def t q check_Ok)
qed

end

section \<open>A table of 16 KiB\<close>

lemma passes_wide:
  assumes L: "addr_lib_ok L" and h: "heap_ok h" and big: "h [] (bytes Size16K, bytes Size16K) \<noteq> 0"
  shows "fst (test_metadata_controls_table_frame_granule (mock_env L h WideTableMeta T) w) = Ok ()"
proof -
  let ?E = "mock_env L h WideTableMeta T" and ?l = "(bytes Size16K, bytes Size16K)"
  let ?raw = "h [] ?l" and ?w = "test_setup w"
  let ?rg = "\<lparr>rng_start = ?raw, rng_end = ?raw + bytes Size16K\<rparr>"
  have f: "TABLE_FRAME_SIZE WideTableMeta = Size16K" "ENTRIES_PER_TABLE WideTableMeta = 2048" "LEVELS WideTableMeta = 2"
    by (simp_all add: WideTableMeta_def)
  have "bytes Size16K \<noteq> 0" by simp
  then have ok: "unat (bytes Size16K) dvd unat ?raw" "unat ?raw + 16384 \<le> 2 ^ 52"
    using h big unfolding heap_ok_def by fastforce+
  have lay: "layout_from_size_align (bytes Size16K) (bytes Size16K) = Some ?l" by (simp add: layout_from_size_align_def)
  have "unat (?raw + bytes Size16K) = unat ?raw + 16384" using ok(2) by (subst unat_add_lem [THEN iffD1]) simp_all
  then have "?raw \<le> ?raw + bytes Size16K" by (simp add: word_le_nat_alt)
  then have size: "range_size L ?rg = bytes Size16K" by (simp add: addr_size [OF L])
  have rg: "range_from_start_size L ?raw (bytes Size16K) = Ok ?rg"
    using ok(2) by (simp add: addr_from_start_size [OF L] checked_add_def)
  let ?s = "\<lparr>frame_store = [(?raw, ?l)], live_counter = 1\<rparr>"
  define w1 where "w1 = ?w\<lparr>astate := ?s, mem := zero_block ?raw (bytes Size16K) (mem ?w)\<rparr>"
  have al: "is_aligned Size16K ?raw" using ok(1) by (simp add: is_aligned_dvd)
  have st: "astate ?w = \<lparr>frame_store = [], live_counter = 0\<rparr>" by (simp add: test_setup_def reset_alloc_def)
  have "mock_allocate L h (bytes Size16K) Size16K (astate ?w, mem ?w) = (Ok ?rg, ?s, mem w1)"
    using big lay rg by (simp add: mock_allocate_def st Let_def store_insert_def w1_def)
  then have "alloc_table_frame ?E ?w = (Ok ?raw, w1)"
    using size al by (simp add: alloc_table_frame_def f MockAlloc_def w1_def)
  then have t: "try_new ?E ?w = (Ok ?raw, w1)"
    by (simp add: try_new_def assert_walker_layout_def f MAX_LEVELS_def)
  have z: "read_entry ?E (mem w1) ?raw i = 0" if "i < 2048" for i
  proof -
    have "unat (?raw + of_nat i * 8) = unat ?raw + i * 8"
      using unat_stride [of ?raw i 8] ok(2) that by simp
    then show ?thesis
      using that by (simp add: read_entry_def entry_cell_def MockAlloc_def w1_def zero_block_def)
  qed
  have "drop_children ?E (drop_subtree ?E 1) (Suc 1) ?raw [0..<ENTRIES_PER_TABLE (e_meta ?E)] w1 = (Ok (), w1)"
    by (rule drop_no_children) (use z in \<open>auto simp: f MockPte_def mock_present_bit\<close>)
  then have "walker_drop ?E ?raw w1 = ignore_result (dealloc_table_frame ?E ?raw w1)"
    by (simp add: walker_drop_def f numeral_2_eq_2)
  moreover have "mock_deallocate L ?rg (?s, mem w1) = (Ok (), \<lparr>frame_store = [], live_counter = 0\<rparr>, mem w1)"
    using size by (simp add: mock_deallocate_def store_remove_def)
  then have "dealloc_table_frame ?E ?raw w1 = (Ok (), w1\<lparr>astate := \<lparr>frame_store = [], live_counter = 0\<rparr>, log := log w1 @ [Freed ?rg]\<rparr>)"
    using rg by (simp add: dealloc_table_frame_def f call_deallocate_def MockAlloc_def w1_def)
  ultimately have d: "walker_drop ?E ?raw w1 = (Ok (), w1\<lparr>astate := \<lparr>frame_store = [], live_counter = 0\<rparr>, log := log w1 @ [Freed ?rg]\<rparr>)"
    by (simp add: ignore_result_def)
  have c: "live_count w1 = 1" "live_count (w1\<lparr>astate := \<lparr>frame_store = [], live_counter = 0\<rparr>, log := l\<rparr>) = 0" for l
    by (simp_all add: live_count_def w1_def)
  show ?thesis
    unfolding test_metadata_controls_table_frame_granule_def with_table_def t
    using al c d by (simp add: check_Ok)
qed

end
