(* ===== verification/WalkerTests.thy ===== *)
theory WalkerTests
  imports MockPass
begin

text \<open>
  All unit tests of \<^verbatim>\<open>src/src/walker.rs\<close> together, and a heap on which they run: a first-fit allocator
  over two thousand frames.
\<close>

definition table_tests :: "((mock_flags, mock_heap, 'h) env \<Rightarrow> (mock_heap, 'h) world \<Rightarrow> unit res \<times> (mock_heap, 'h) world) list" where
  "table_tests =
     [test_map_query_unmap_4k_round_trip, test_present_invalid_entry_fails_closed, test_map_2m_huge_then_query,
      test_exact_range_ops_refuse_interior_subranges, test_double_map_returns_already_mapped,
      test_multiple_virtual_ranges_may_share_one_physical_frame, test_unmap_reclaims_emptied_intermediates,
      test_drop_reclaims_entire_subtree, test_split_2m_into_4k_leaves, test_merge_after_split_round_trips,
      test_merge_refuses_when_not_contiguous, test_merge_refuses_on_mismatched_flags,
      test_protect_keeps_paddr_changes_flags, test_remap_changes_paddr,
      test_cursor_maps_contiguous_range_correctly, test_cursor_maps_across_level2_boundary_correctly,
      test_cursor_drop_flushes_pending, test_cursor_unmap_then_remap_roundtrip,
      test_map_scattered_backing_accepts_array_reference, test_map_scattered_backing_accepts_heapless_vec,
      test_cursor_error_invalidates_descent]"

definition recording_tests :: "((mock_flags, mock_heap, rec_call) env \<Rightarrow> (mock_heap, rec_call) world \<Rightarrow>
    unit res \<times> (mock_heap, rec_call) world) list" where
  "recording_tests =
     [test_cursor_flushes_contiguous_pending_pages_as_range,
      test_cursor_fragmented_range_overflow_falls_back_to_full_flush]"

context test_host
begin

lemmas table_passes = passes_round_trip passes_invalid_entry passes_huge_query passes_interior passes_double_map
  passes_shared_frame passes_reclaim passes_drop passes_split passes_merge passes_merge_gap passes_merge_flags
  passes_protect passes_remap passes_cursor_contiguous passes_cursor_boundary passes_cursor_drop
  passes_cursor_unmap_remap passes_scattered_array passes_scattered_vec passes_cursor_error

lemma table_tests_pass: "t \<in> set table_tests \<Longrightarrow> fst (t E w) = Ok ()"
  unfolding table_tests_def by (auto simp: table_passes)

end

context recording_host
begin

lemma recording_tests_pass: "t \<in> set recording_tests \<Longrightarrow> fst (t E w) = Ok ()"
  unfolding recording_tests_def by (auto simp: passes_flush_row passes_flush_overflow)

end

section \<open>A first-fit heap\<close>

definition fits :: "frame_store \<Rightarrow> layout \<Rightarrow> nat \<Rightarrow> bool" where
  "fits st block a \<longleftrightarrow> unat (snd block) dvd a \<and> a + unat (fst block) \<le> 2 ^ 52 \<and>
     list_all (\<lambda>b. unat (fst b) + unat (fst (snd b)) \<le> a \<or> a + unat (fst block) \<le> unat (fst b)) st"

definition first_fit :: os_heap where
  "first_fit st block = (case find (fits st block) (map (\<lambda>k. k * 4096) [1..<2001]) of None \<Rightarrow> 0 | Some a \<Rightarrow> of_nat a)"

lemma find_SomeD: "find P xs = Some a \<Longrightarrow> P a \<and> a \<in> set xs"
  by (induction xs) (auto split: if_splits)

lemma first_fit_found:
  assumes "find (fits st block) (map (\<lambda>k. k * 4096) [1..<2001]) = Some a"
  shows "unat (first_fit st block) = a" "fits st block a" "0 < a"
proof -
  from find_SomeD [OF assms] have f: "fits st block a" "0 < a" "a < 2 ^ 64" by auto
  then show "unat (first_fit st block) = a" "fits st block a" "0 < a"
    using assms by (simp_all add: first_fit_def unsigned_of_nat take_bit_nat_eq_self)
qed

lemma first_fit_ok: "heap_ok first_fit"
  unfolding heap_ok_def
proof (intro allI impI)
  fix st and sz align :: usize
  assume "first_fit st (sz, align) \<noteq> 0"
  then obtain a where "find (fits st (sz, align)) (map (\<lambda>k. k * 4096) [1..<2001]) = Some a"
    by (auto simp: first_fit_def split: option.splits)
  note a = first_fit_found [OF this]
  then show "unat align dvd unat (first_fit st (sz, align)) \<and> unat (first_fit st (sz, align)) + unat sz \<le> 2 ^ 52 \<and>
      (\<forall>q n a. (q, (n, a)) \<in> set st \<longrightarrow>
         unat q + unat n \<le> unat (first_fit st (sz, align)) \<or> unat (first_fit st (sz, align)) + unat sz \<le> unat q)"
    using a(2) unfolding a(1) by (force simp: fits_def list_all_iff)
qed

lemma first_fit_room: "heap_room first_fit 2000"
  unfolding heap_room_def
proof (intro allI impI notI)
  fix s assume c: "mock_counted s" and len: "length (frame_store s) < 2000"
    and z: "first_fit (frame_store s) (bytes Size4K, bytes Size4K) = 0"
  let ?K = "(\<lambda>k. k * 4096) ` {1..<2001 :: nat}" and ?B = "(\<lambda>b. unat (fst b)) ` set (frame_store s)"
  have "?K \<subseteq> ?B"
  proof
    fix a assume "a \<in> ?K"
    then obtain k where k: "a = k * 4096" "1 \<le> k" "k < 2001" by auto
    have no: "\<not> fits (frame_store s) (bytes Size4K, bytes Size4K) a"
    proof
      assume "fits (frame_store s) (bytes Size4K, bytes Size4K) a"
      moreover have "a \<in> set (map (\<lambda>k. k * 4096) [1..<2001])" using k by auto
      ultimately have "find (fits (frame_store s) (bytes Size4K, bytes Size4K)) (map (\<lambda>k. k * 4096) [1..<2001]) \<noteq> None"
        unfolding find_None_iff by blast
      then show False using first_fit_found(1,3) z by fastforce
    qed
    have "a + 4096 \<le> 2 ^ 52" using k by simp
    then obtain b where b: "b \<in> set (frame_store s)"
      "\<not> (unat (fst b) + unat (fst (snd b)) \<le> a \<or> a + 4096 \<le> unat (fst b))"
      using no k(1) by (auto simp: fits_def list_all_iff)
    have "snd b = (bytes Size4K, bytes Size4K)" "frame_ok MockMeta (fst b)" using c b(1) by (auto simp: mock_counted_def)
    then have ov: "a < unat (fst b) + 4096" "unat (fst b) < a + 4096" and "4096 dvd unat (fst b)"
      using b(2) by (auto simp: frame_ok_def mock_meta_fields is_aligned_dvd)
    then obtain j where j: "unat (fst b) = 4096 * j" by blast
    have "j = k" using ov unfolding j k(1) by linarith
    then have "a = unat (fst b)" using j k(1) by simp
    then show "a \<in> ?B" using b(1) by (rule image_eqI)
  qed
  then have "card ?K \<le> card ?B" by (intro card_mono) simp_all
  moreover have "card ?K = 2000" by (subst card_image) (simp_all add: inj_on_def)
  moreover have "card ?B \<le> length (frame_store s)" using card_image_le [of "set (frame_store s)"] card_length le_trans by blast
  ultimately show False using len by simp
qed

lemma first_fit_big: "first_fit [] (bytes Size16K, bytes Size16K) \<noteq> 0"
proof -
  have "fits [] (bytes Size16K, bytes Size16K) 16384" by (simp add: fits_def)
  moreover have "(16384 :: nat) = 4 * 4096" "4 \<in> set [1..<2001 :: nat]" by simp_all
  then have "16384 \<in> set (map (\<lambda>k. k * 4096) [1..<2001 :: nat])" by force
  ultimately have "find (fits [] (bytes Size16K, bytes Size16K)) (map (\<lambda>k. k * 4096) [1..<2001]) \<noteq> None"
    unfolding find_None_iff by blast
  then show ?thesis using first_fit_found(1,3) by fastforce
qed

interpretation first_fit: recording_host ref_addr_lib first_fit 2000
  by unfold_locales (simp_all add: ref_addr_lib_ok first_fit_ok first_fit_room)

section \<open>All tests\<close>

lemma walker_tests_pass:
  assumes "addr_lib_ok L" "heap_ok h" "heap_room h N" "2000 \<le> N" "h [] (bytes Size16K, bytes Size16K) \<noteq> 0"
  shows "t \<in> set table_tests \<Longrightarrow> fst (t (mock_env L h MockMeta T) w) = Ok ()"
    "r \<in> set recording_tests \<Longrightarrow> fst (r (mock_env L h MockMeta RecordingTlb) w') = Ok ()"
    "fst (test_metadata_controls_table_frame_granule (mock_env L h WideTableMeta T) w) = Ok ()"
proof -
  have host: "test_host L h N" using assms by unfold_locales
  then have rec: "recording_host L h N" by (simp add: recording_host_def)
  show "t \<in> set table_tests \<Longrightarrow> fst (t (mock_env L h MockMeta T) w) = Ok ()"
    by (rule test_host.table_tests_pass [OF host])
  show "r \<in> set recording_tests \<Longrightarrow> fst (r (mock_env L h MockMeta RecordingTlb) w') = Ok ()"
    by (rule recording_host.recording_tests_pass [OF rec])
  show "fst (test_metadata_controls_table_frame_granule (mock_env L h WideTableMeta T) w) = Ok ()"
    by (rule passes_wide [OF assms(1,2,5)])
qed

end
