(* ===== verification/Spec2Isabelle.thy ===== *)
theory Spec2Isabelle
  imports GlobalTlb Mmio X86Tests A64Rv64Tests WalkerTests
begin

text \<open>
  Verification of the page-table crate under \<^verbatim>\<open>src/\<close>: a generic radix page-table walker, the entry
  formats, metadata, address-space activation and TLB back ends of x86_64, AArch64 and RISC-V, and
  the bounds-checked access to mapped memory.

  \<^bold>\<open>How the program is put together.\<close> \<^verbatim>\<open>src/src/paging.rs\<close> declares the traits: metadata of a format,
  page-table entries, frame allocation, TLB invalidation, address spaces. \<^verbatim>\<open>src/src/walker.rs\<close> implements
  every operation once, generically, over memory that it reaches through the allocator's physical to
  virtual window. \<^verbatim>\<open>src/src/arch/\<close> instantiates the traits. Mapping of ranges goes through a cursor that
  caches the last descent and batches invalidations; everything else acts on one leaf and flushes it.

  \<^bold>\<open>Theories and sources.\<close>
  \<^item> \<open>Prelude\<close>: the errors of \<^verbatim>\<open>error.rs\<close>; a result is \<open>Ok\<close>, \<open>Err\<close> or \<open>Panic\<close>; checked and saturating
    arithmetic of 64-bit words.
  \<^item> \<open>AddrLib\<close>: the interface of the crate \<^verbatim>\<open>memory_addr\<close>, a record of functions with its documented
    behaviour as the predicate \<open>addr_lib_ok\<close>.
  \<^item> \<open>Attrs\<close>, \<open>Paging\<close>, \<open>Mappings\<close>, \<open>Mmio\<close>: \<^verbatim>\<open>meta.rs\<close>, \<^verbatim>\<open>paging.rs\<close> (a trait is a record of functions, a
    default method a definition over it) and \<^verbatim>\<open>mapping.rs\<close> (backings; the accessors over a byte memory).
  \<^item> \<open>Frames\<close>, \<open>Walker\<close>, \<open>FlushQueue\<close>, \<open>Cursor\<close>: \<^verbatim>\<open>walker.rs\<close>, one definition per function or loop. The
    type parameters are the record \<open>env\<close>; the machine is the record \<open>world\<close> (memory, allocator state, log
    of freed frames and invalidations); a walker is its root frame; a cursor is a record next to the
    world.
  \<^item> \<open>X86Entry\<close>, \<open>Rv64Entry\<close>, \<open>A64Entry\<close> and \<open>Canonical\<close>: the \<^verbatim>\<open>entry.rs\<close> of each architecture.
  \<^item> \<open>X86Vas\<close>, \<open>Rv64Vas\<close>, \<open>A64Vas\<close>: \<^verbatim>\<open>vas.rs\<close> and \<^verbatim>\<open>tlb.rs\<close>, over a trace of privileged operations.
  \<^item> \<open>Geometry\<close>, \<open>Contracts\<close>: the interfaces the walker relies on, as locales: \<open>paging_geometry\<close>
    (metadata), \<open>pte_codec\<close> (entries), \<open>frame_host\<close> (allocator and kernel window), joined in \<open>walker\<close>.
    \<open>X86Walker\<close>, \<open>Rv64Walker\<close>, \<open>A64Walker\<close> interpret the first on all eleven formats and the
    second on all but the two named below; \<open>RefHost\<close> is a host that
    meets the contract. \<open>PageTables\<close>: the page-table types of \<^verbatim>\<open>arch/*/mod.rs\<close>, each an \<open>env\<close> with the
    allocator open.
  \<^item> \<open>Tree\<close>, \<open>TreeOk\<close>, \<open>HostSpec\<close>: the tree a root denotes (its tables, its view as a function of the
    address), the invariant \<open>tree_ok\<close> (no frame shared, frames live and encodable, leaves legal) and how
    rewriting one entry changes the view.
  \<^item> \<open>QuerySpec\<close>, \<open>MapSpec\<close>, \<open>RemapSpec\<close>, \<open>UnmapSpec\<close>, \<open>SplitSpec\<close>, \<open>MergeSpec\<close>, \<open>DropSpec\<close>, \<open>Progress\<close>: the
    contract of each operation of the walker, proved once inside the locale.
  \<^item> \<open>OutcomeSpec\<close>, \<open>RestructureSpec\<close>, \<open>SupplySpec\<close>, \<open>ReclaimSpec\<close>: when each operation succeeds and with
    which error it fails otherwise; what split and merge decide; that a supply of frames suffices; that
    the frames of the allocator and those of the tree balance. \<open>RefSupply\<close> instantiates them.
  \<^item> \<open>FlushSpec\<close>, \<open>TlbSpec\<close>: the queue as a set of addresses; the locale \<open>tlb_contract\<close> of a TLB back end
    and its interpretations.
  \<^item> \<open>CursorSpec\<close>, \<open>BatchSpec\<close>, \<open>MapApiSpec\<close>, \<open>CursorOps\<close>, \<open>Issued\<close>, \<open>Lifecycle\<close>: the descent cache, mapping of
    ranges and scatter lists, \<^verbatim>\<open>PageTableWalker::map\<close>, the other cursor operations, the instructions an
    operation issues (what it appends to the log), and batches as a step relation.
  \<^item> \<open>EntryForms\<close>, \<open>FormOps\<close>, \<open>FormTables\<close>, \<open>FormCursor\<close>: every entry of every table of a walker is empty, a
    table pointer as \<^verbatim>\<open>new_table\<close> builds it or a leaf as \<^verbatim>\<open>new_leaf\<close> builds it, from \<^verbatim>\<open>try_new\<close> through all
    requests and batches (\<open>walker_life\<close>).
  \<^item> \<open>Hardware\<close>, \<open>HwX86\<close>, \<open>HwRv64\<close>, \<open>Coherence\<close>, \<open>HwSystem\<close>: the page walk of an x86_64 and of a RISC-V CPU,
    written from the architecture manuals over physical memory and independent of the crate's decoding; a
    CPU with a TLB next to the walker as the step relation \<open>cpu_run\<close>, its invariant in the locale
    \<open>coherent_cpu\<close>, and the interpretations on the three architectures. \<open>GlobalTlb\<close>: what the operations
    invalidate of the global translations of x86_64.
  \<^item> \<open>PageTableApi\<close>: the trait \<^verbatim>\<open>PageTable\<close> as a record, its implementation by the walker, its contract as
    the locale \<open>page_table\<close> over an abstract address space, and programs of requests.
  \<^item> \<open>Architectures\<close>, \<open>X86Example\<close>, \<open>Rv64Example\<close>: the properties of the architecture modules; concrete
    walkers, from which the general theorems are applied.
  \<^item> \<open>TestKit\<close>, \<open>X86Tests\<close>, \<open>A64Rv64Tests\<close>, \<open>MockHost\<close>, \<open>MockTests\<close>: the test modules of the crate, one
    definition per test function, and the host of the walker tests (\<^verbatim>\<open>MockPte\<close>, \<^verbatim>\<open>MockMeta\<close>, \<^verbatim>\<open>MockAlloc\<close>,
    \<^verbatim>\<open>RecordingTlb\<close>). \<open>AllocInv\<close>, \<open>CursorSupply\<close>, \<open>MockRuns\<close>, \<open>MockPass\<close>, \<open>WalkerTests\<close> prove that the tests
    pass: the walker's theorems are applied to the host, an interpretation of \<open>walker\<close>, not evaluated.

  \<^bold>\<open>What the lemmas show.\<close> The specification of the walker is its lookup: \<open>query\<close> as a function from
  addresses to mappings, and \<open>resolve\<close>, the physical address and flags. Map adds exactly its range (a
  prefix of it on an error), unmap removes it, remap and protect replace it, split and merge are
  invisible, drop returns every table once; errors leave lookups alone. The cache equals the walk from
  the root. Requests succeed exactly when the lookup, the alignment and the supply of frames allow it, and
  a program over the trait runs as on a partial function from addresses. Whatever changed since a batch began is queued, the queue never loses an address, and the
  drain invalidates all of it. The hardware agrees: what the CPU
  finds by walking the same memory is what \<open>query\<close> returns, address, rights and memory type, and no cached
  translation outlives the request or batch that changed it. Entries round trip on every format; activation writes the registers in
  the documented order, restores the interrupt state and is observed back.

  \<^bold>\<open>Parameters and hypotheses.\<close> Code outside the repository is an argument: \<^verbatim>\<open>memory_addr\<close>
  (\<open>addr_lib_ok\<close>), the descriptor type of \<^verbatim>\<open>aarch64-cpu-ext\<close> (\<open>tte_ok\<close>: fields are independent and read back.
  It is stated of the formats with 48 output bits and, with 52, of the 64 KiB granule, and has instances
  there, \<open>family_ok\<close> and \<open>arm_family_ok\<close>; the 4 KiB and 16 KiB granules with 52 output bits keep address
  bits where the code writes the shareability, so nothing is claimed of them, although the operations of
  the model take them), the register crates (\<open>x86_lib\<close>, \<open>riscv_lib\<close>, \<open>a64_cpu\<close> with \<open>x86_regs_ok\<close>,
  \<open>x86_addrs_ok\<close>, \<open>riscv_ok\<close>, \<open>a64_regs_ok\<close>, \<open>a64_fields_ok\<close>; that \<^verbatim>\<open>satp\<close> reads back what was written, as
  \<open>riscv_ok\<close> says, is the safety condition of the caller: the fields are WARL, the mode and the width of
  the ASID must be supported), the frame allocator (\<open>frame_host\<close>), and what an
  invalidation instruction invalidates (\<open>sfence_ok\<close>, \<open>tlbi_ok\<close>, \<open>x86_hw_ok\<close>) or
  spares (\<open>x86_spares_globals\<close>). Each has a reference instance.
  \<open>no_invalid\<close> (no lookup meets an undefined entry kind) holds of every walker that \<^verbatim>\<open>try_new\<close> made and is
  preserved; \<open>dealloc_total\<close> says that the allocator never refuses a live frame (that it is then not live is
  part of \<open>frame_host\<close>); \<open>linear_window\<close> that the kernel window
  maps the words of a table frame at consecutive addresses (physical memory is then read at
  frame address plus offset); \<open>frame_supply\<close> that an allocation succeeds while there is room and takes one unit of it, of which mapping a
  leaf needs \<open>missing_below\<close>, one for each table that is not there yet; \<open>accounts\<close>
  that the live frames are those of the tree and of others. The heap of the tests hands out aligned
  disjoint blocks (\<open>heap_ok\<close>) and does so for at least \<open>N\<close> blocks (\<open>heap_room\<close>); 2000 is above what the
  largest test uses, and the first-fit heap of \<open>WalkerTests\<close> has that many.

  \<^bold>\<open>Termination and panics.\<close> No fuel is used: walks recurse on the level, loops over tables on the
  list of indices, the mapping loop and the coalescing loop terminate by a measure, and reaching level 0
  is a panic because \<^verbatim>\<open>level_shift(0)\<close> underflows; the theorems show it unreachable. In the traces of
  x86_64 a panic inside a TLB back end, whose interface returns nothing, is the operation \<open>X86Abort\<close>.

  \<^bold>\<open>The CPU model.\<close> On x86_64 execute-disable is on, 52 physical address bits are implemented and the PAT
  holds the value the crate installs; protection keys, SMEP and SMAP are off. On RISC-V a leaf must have its
  accessed bit set and a writable one its dirty bit, as without hardware updates. The TLB may be
  filled and emptied at any moment between requests; a fill that races with one request or cursor
  operation returns the translation before or after it; the invalidations of an operation take effect after its
  writes. The x86_64 result is about 4-level paging and translations that are not global, because of what
  \<open>GlobalTlb\<close> shows of the others. The bits of an AArch64 descriptor belong to an
  external crate, so there the walk of the CPU is the lookup itself and only the invalidation is proved.

  \<^bold>\<open>Not modelled.\<close> Derived \<^verbatim>\<open>Debug\<close>, \<^verbatim>\<open>Clone\<close> and comparison implementations and plain getters;
  benchmarks; crate roots, which only re-export; the test that only names types
  (\<^verbatim>\<open>pte_types_cover_output_widths\<close>) and the locks that serialise the tests. Memory is sequentially consistent
  and the program single-threaded: other CPUs (the back ends invalidate locally), intermediate states of one
  operation as the hardware walker may see them, and caches of upper-level entries are
  outside the model; a world has one walker at a time.
\<close>

section \<open>Properties of the walker\<close>

text \<open>
  Mapping one leaf on the direct path (\<^verbatim>\<open>map_leaf_direct_sized_no_flush\<close>) is functionally
  correct on every architecture that meets the contracts. It keeps the tree invariant; when it
  succeeds, every lookup inside the range returns exactly the requested mapping (with the flags as
  the format can represent them), nothing was mapped there before, and every other lookup is
  unchanged; when it fails (conflict, allocation failure), no lookup changes at all.
\<close>

theorem map_leaf_correct:
  assumes "walker E flags_ok norm live" "tree_ok E live root w"
    and "size_to_level (e_meta E) sz = Some target"
    and "is_aligned sz p" "paddr_is_valid (e_meta E) p" "flags_ok flags"
    and "range_ok rg" "range_size (e_addr E) rg = bytes sz" "is_aligned sz (rng_start rg)"
      "vaddr_is_valid (e_meta E) (rng_start rg)"
    and "map_leaf_direct_sized_no_flush E root rg p flags sz target w = (res, w')"
  shows "tree_ok E live root w' \<and>
    (res = Ok () \<and>
       (\<forall>v. query E root v (mem w') =
          (if in_range rg v then Ok (mapping_new rg p (norm flags)) else query E root v (mem w))) \<and>
       (\<forall>v. in_range rg v \<longrightarrow> query E root v (mem w) = Err NotMapped) \<or>
     (\<exists>x. res = Err x) \<and> (\<forall>v. query E root v (mem w') = query E root v (mem w)))"
  using walker.map_leaf_direct_query [OF assms] by blast

theorem map_leaf_correct_witness:
  "query x86_ref ex_root 0x200123 (mem ex_mapped) =
     Ok (mapping_new ex_page 0x5000 (x86_normal_flags ex_flags))"
  using map_leaf_correct [OF x86_ref.walker_axioms ex_new_ok ex_size_level ex_page_facts(5,6) TrueI
      ex_page_facts(1-4) ex_map]
  by (simp add: in_range_def ex_page_def)

text \<open>
  C7: \<^verbatim>\<open>unmap_no_flush\<close> removes exactly the range it was given. It never panics and keeps the tree
  invariant; either the walk failed and nothing changed, or the range was mapped by exactly one
  leaf, afterwards every lookup inside it reports \<^verbatim>\<open>NotMapped\<close> and every other lookup is
  unchanged; the frames handed back are exactly the tables that left the tree. With an allocator
  that takes its frames back, the outcome is a function of the lookup at the start of the range.
\<close>

theorem unmap_correct:
  assumes "walker E flags_ok norm live" "tree_ok E live root w"
    and "unmap_no_flush E root rg w = (res, w')"
  shows "res \<noteq> Panic \<and> tree_ok E live root w' \<and>
    ((\<exists>mp fs. query E root (rng_start rg) (mem w) = Ok mp \<and> m_range mp = rg \<and>
        (res = Ok mp \<or> (\<exists>x. res = Err x)) \<and>
        (\<forall>v. query E root v (mem w') =
           (if in_range rg v then Err NotMapped else query E root v (mem w))) \<and>
        log w' = log w @ map (\<lambda>f. Freed (frame_range E f)) fs \<and>
        mset (root_tables E w root) = mset (root_tables E w' root) + mset fs \<and>
        (dealloc_total E live \<longrightarrow> res = Ok mp \<and> live (astate w') = live (astate w) - set fs)) \<or>
     (\<exists>x. res = Err x) \<and> w' = w \<and> \<not> exact_mapped E root rg w) \<and>
    (dealloc_total E live \<longrightarrow> res = exact_query E root rg (mem w))"
  using walker.unmap_no_flush_spec [OF assms] walker.unmap_outcome(1) [OF assms(1,2), of rg]
  unfolding assms(3) fst_conv by blast

theorem unmap_correct_witness:
  "\<exists>w'. unmap_no_flush x86_ref ex_root ex_page ex_mapped =
       (Ok (mapping_new ex_page 0x5000 (x86_normal_flags ex_flags)), w') \<and>
     query x86_ref ex_root 0x200123 (mem w') = Err NotMapped"
proof -
  obtain res w' where r: "unmap_no_flush x86_ref ex_root ex_page ex_mapped = (res, w')" by fastforce
  from unmap_correct [OF x86_ref.walker_axioms ex_mapped_facts(1) r] ex_total
  have u: "res = exact_query x86_ref ex_root ex_page (mem ex_mapped)"
    "(\<forall>v. query x86_ref ex_root v (mem w') =
       (if in_range ex_page v then Err NotMapped else query x86_ref ex_root v (mem ex_mapped))) \<or> (\<exists>x. res = Err x)"
    by blast+
  have "res = Ok (mapping_new ex_page 0x5000 (x86_normal_flags ex_flags))"
    unfolding u(1) exact_query_Ok ex_mapped_facts(2) by (simp add: in_range_def ex_page_def mapping_new_def)
  with u(2) r show ?thesis by (simp add: in_range_def ex_page_def)
qed

text \<open>
  C11: mapping never overwrites, for every kind of backing and both contiguity modes of
  \<^verbatim>\<open>PageTableWalker::map\<close>. Every address that was mapped before resolves to the very same leaf afterwards,
  whether the request succeeds or fails; a request whose range meets a mapped address anywhere, at its
  start, inside or below a table where a huge leaf would go, fails; and when the range is to become one
  leaf, it fails with \<^verbatim>\<open>AlreadyMapped\<close> and the whole world (memory, allocator, log) is the one before.
\<close>

theorem map_never_overwrites:
  assumes "walker E flags_ok norm live" "tree_ok E live root w" "flags_ok (mf_leaf flags)"
    and "range_ok rg" "backing_ok b"
    and "into_map_backing (e_addr E) src (range_size (e_addr E) rg) = Ok b"
    and "walker_map E root rg src flags w = (res, w')"
  shows "(\<forall>v mp. query E root v (mem w) = Ok mp \<longrightarrow> query E root v (mem w') = Ok mp) \<and>
    (\<forall>v mp. in_range rg v \<and> query E root v (mem w) = Ok mp \<longrightarrow> (\<exists>x. res = Err x) \<and>
       (\<forall>phys st. b = ContiguousBacking phys \<and> mf_contiguity flags = Contiguous \<and>
          range_size (e_addr E) phys = range_size (e_addr E) rg \<and>
          exact_leaf_size (e_addr E) (e_meta E) rg (rng_start phys) None = Ok (Some st) \<longrightarrow>
          res = Err AlreadyMapped \<and> w' = w))"
proof -
  from walker.walker_map_spec [OF assms] obtain n where n: "res \<noteq> Panic"
      "res = Ok () \<Longrightarrow> n = unat (range_size (e_addr E) rg)"
    and m: "maps_range E root (rng_start rg) n (backing_paddr (e_addr E) b) (norm (mf_leaf flags)) w w'" by blast
  have kept: "query E root v (mem w') = Ok mp" if "query E root v (mem w) = Ok mp" for v mp
    using m [unfolded maps_range_def, rule_format, of v] that by (simp split: if_splits)
  have hit: "\<exists>x. res = Err x" if v: "in_range rg v" "query E root v (mem w) = Ok mp" for v mp
  proof (cases res)
    case (Ok u)
    have "unat (rng_end rg) = unat (rng_start rg) + n"
      using range_end_nat [OF frame_host.addr_ok [OF walker.axioms(3) [OF assms(1)]] assms(4)] n(2) Ok by simp
    then show ?thesis
      using m [unfolded maps_range_def, rule_format, of v] v
      by (simp add: in_range_def word_le_nat_alt word_less_nat_alt)
  qed (use n(1) in simp_all)
  have whole: "res = Err AlreadyMapped \<and> w' = w"
    if "in_range rg v" "query E root v (mem w) = Ok mp" "b = ContiguousBacking phys"
      "mf_contiguity flags = Contiguous" "range_size (e_addr E) phys = range_size (e_addr E) rg"
      "exact_leaf_size (e_addr E) (e_meta E) rg (rng_start phys) None = Ok (Some st)" for v mp phys st
    using walker.walker_map_occupied [OF assms(1,6) [unfolded that(3)] that(4,5) assms(4) _ that(6,2,1)]
      assms(5,7) that(3) by simp
  show ?thesis using kept hit whole by blast
qed

text \<open>A 2 MiB page is refused on the range of a table that maps one of its base pages.\<close>

theorem map_never_overwrites_witness:
  "walker_map x86_ref ex_root ex_huge_range (FromPhysAddr 0x80000000) (mapping_flags_new ex_flags) ex_split =
     (Err AlreadyMapped, ex_split)"
proof -
  obtain res w' where
    r: "walker_map x86_ref ex_root ex_huge_range (FromPhysAddr 0x80000000) (mapping_flags_new ex_flags) ex_split =
      (res, w')" by fastforce
  have b: "into_map_backing (e_addr x86_ref) (FromPhysAddr 0x80000000) (range_size (e_addr x86_ref) ex_huge_range) =
      Ok (ContiguousBacking \<lparr>rng_start = 0x80000000, rng_end = 0x80200000\<rparr>)"
    "backing_ok (ContiguousBacking \<lparr>rng_start = 0x80000000, rng_end = 0x80200000\<rparr>)"
    "range_ok ex_huge_range"
    by (simp_all add: ex_huge_range_def x86_ref_fields ref_addr_lib_def contiguous_from_start_size_def
        checked_add_def range_ok_def)
  have "in_range ex_huge_range 0x40001000" by (simp add: ex_huge_range_def in_range_def)
  then obtain mp where q: "query x86_ref ex_root 0x40001000 (mem ex_split) = Ok mp"
    using ex_split_facts(2) unfolding finer_mapped_def by blast
  have ex: "exact_leaf_size (e_addr x86_ref) (e_meta x86_ref) ex_huge_range 0x80000000 None = Ok (Some (Size2M, 2))"
    using ex_huge_check
    by (auto simp: check_leaf_range_def exact_leaf_size_def check_paddr_def bind_res_eq_Ok split: if_splits)
  have size: "range_size (e_addr x86_ref) \<lparr>rng_start = 0x80000000, rng_end = 0x80200000\<rparr> =
      range_size (e_addr x86_ref) ex_huge_range"
    by (simp add: ex_huge_range_def x86_ref_fields ref_addr_lib_def)
  from map_never_overwrites [OF x86_ref.walker_axioms ex_split_facts(1) TrueI b(3,2,1) r] q ex size
  have "res = Err AlreadyMapped \<and> w' = ex_split"
    by (auto simp: mapping_flags_new_def ex_huge_range_def in_range_def)
  then show ?thesis using r by simp
qed

text \<open>
  C19: \<^verbatim>\<open>remap_no_flush\<close> replaces exactly one leaf. It either reports an error and changes nothing at
  all, or its range was mapped by exactly one leaf and afterwards every lookup inside it returns the
  new frame and flags, every lookup outside is unchanged, and no frame was allocated or freed. Which
  of the two happens depends on the new address, its alignment and the lookup only.
\<close>

theorem remap_correct:
  assumes "walker E flags_ok norm live" "tree_ok E live root w" "flags_ok flags"
    and "remap_no_flush E root rg p flags w = (res, w')"
  shows "tree_ok E live root w' \<and> astate w' = astate w \<and>
    (res = Ok (mapping_new rg p flags) \<and> exact_mapped E root rg w \<and>
       (\<forall>v. query E root v (mem w') =
          (if in_range rg v then Ok (mapping_new rg p (norm flags)) else query E root v (mem w))) \<or>
     (\<exists>x. res = Err x) \<and> w' = w) \<and>
    res = bind_res (check_paddr (e_meta E) p) (\<lambda>_. bind_res (exact_query E root rg (mem w)) (\<lambda>mp.
      if unat (range_size (e_addr E) rg) dvd unat p then Ok (mapping_new rg p flags) else Err NotAligned))"
  using walker.remap_no_flush_spec [OF assms] walker.remap_outcome [OF assms(1), of root rg p flags w]
  unfolding assms(4) fst_conv by blast

theorem remap_correct_witness:
  "\<exists>w'. remap_no_flush x86_ref ex_root ex_page 0x9000 ex_flags ex_mapped =
       (Ok (mapping_new ex_page 0x9000 ex_flags), w') \<and>
     query x86_ref ex_root 0x200123 (mem w') = Ok (mapping_new ex_page 0x9000 (x86_normal_flags ex_flags))"
proof -
  obtain res w' where r: "remap_no_flush x86_ref ex_root ex_page 0x9000 ex_flags ex_mapped = (res, w')"
    by fastforce
  note c = remap_correct [OF x86_ref.walker_axioms ex_mapped_facts(1) TrueI r]
  have "exact_query x86_ref ex_root ex_page (mem ex_mapped) =
      Ok (mapping_new ex_page 0x5000 (x86_normal_flags ex_flags))"
    unfolding exact_query_Ok ex_mapped_facts(2) by (simp add: in_range_def ex_page_def mapping_new_def)
  moreover have "check_paddr (e_meta x86_ref) 0x9000 = Ok ()"
    by (simp add: check_paddr_def x86_ref_fields x86_meta_fields default_paddr_is_valid_def)
  ultimately have "res = Ok (mapping_new ex_page 0x9000 ex_flags)"
    using c by (simp add: ex_page_facts)
  with c r show ?thesis by (simp add: in_range_def ex_page_def)
qed

text \<open>
  C20: \<^verbatim>\<open>protect_no_flush\<close> changes the flags of exactly one leaf and keeps the frame it maps; on any
  error nothing changes. It succeeds exactly when the lookup finds a leaf of that range.
\<close>

theorem protect_correct:
  assumes "walker E flags_ok norm live" "tree_ok E live root w" "flags_ok flags"
    and "protect_no_flush E root rg flags w = (res, w')"
  shows "tree_ok E live root w' \<and> astate w' = astate w \<and>
    ((\<exists>mp. query E root (rng_start rg) (mem w) = Ok mp \<and> m_range mp = rg \<and>
       res = Ok (mapping_new rg (m_paddr mp) flags) \<and>
       (\<forall>v. query E root v (mem w') =
          (if in_range rg v then Ok (mapping_new rg (m_paddr mp) (norm flags))
           else query E root v (mem w)))) \<or>
     (\<exists>x. res = Err x) \<and> w' = w) \<and>
    res = bind_res (exact_query E root rg (mem w)) (\<lambda>mp. Ok (mapping_new rg (m_paddr mp) flags))"
  using walker.protect_no_flush_spec [OF assms] walker.protect_outcome [OF assms(1), of root rg flags w]
  unfolding assms(4) fst_conv by blast

theorem protect_correct_witness:
  "fst (protect_no_flush x86_ref ex_root ex_page (x86_flags_new AF_READ) ex_mapped) =
     Ok (mapping_new ex_page 0x5000 (x86_flags_new AF_READ))"
proof -
  obtain res w' where
    r: "protect_no_flush x86_ref ex_root ex_page (x86_flags_new AF_READ) ex_mapped = (res, w')"
    by fastforce
  have "exact_query x86_ref ex_root ex_page (mem ex_mapped) =
      Ok (mapping_new ex_page 0x5000 (x86_normal_flags ex_flags))"
    unfolding exact_query_Ok ex_mapped_facts(2) by (simp add: in_range_def ex_page_def mapping_new_def)
  with protect_correct [OF x86_ref.walker_axioms ex_mapped_facts(1) TrueI r] r show ?thesis
    by (simp add: mapping_new_def)
qed

text \<open>
  C12: \<^verbatim>\<open>split_at\<close> is invisible to translation: on every outcome, errors included, each virtual
  address resolves to the same physical address and flags as before. When it succeeds, the range
  was one leaf and each address of it is now covered by a leaf of the next finer size. It succeeds
  on every leaf that has a finer size, unless the allocator fails; on anything else it reports the
  error of the lookup (or \<^verbatim>\<open>NotMapped\<close>) and changes nothing.
\<close>

theorem split_correct:
  assumes "walker E flags_ok norm live" "tree_ok E live root w"
    and "split_at E root rg w = (res, w')"
  shows "res \<noteq> Panic \<and> tree_ok E live root w' \<and>
    (\<forall>v. resolve E root v (mem w') = resolve E root v (mem w)) \<and>
    (\<forall>v. \<not> in_range rg v \<longrightarrow> query E root v (mem w') = query E root v (mem w)) \<and>
    (\<forall>fsz. res = Ok fsz \<longrightarrow> exact_mapped E root rg w \<and>
       (\<forall>v. in_range rg v \<longrightarrow> (\<exists>mp. query E root v (mem w') = Ok mp \<and>
          rng_start (m_range mp) = v AND NOT (mask (size_shift fsz)) \<and>
          rng_end (m_range mp) = rng_start (m_range mp) + bytes fsz))) \<and>
    (case exact_query E root rg (mem w) of
       Ok mp \<Rightarrow> res = bind_res (finer_size E rg) (\<lambda>fsz. bind_res (fst (alloc_table_frame E w)) (\<lambda>_. Ok fsz))
     | Err x \<Rightarrow> (res = Err x \<or> res = Err NotMapped) \<and> w' = w
     | Panic \<Rightarrow> False)"
  using walker.split_at_spec [OF assms] walker.split_outcome [OF assms(1,2), of rg]
  unfolding assms(3) by (auto split: res.splits)

theorem split_correct_witness:
  "resolve x86_ref ex_root 0x40123456 (mem ex_split) = Ok (0x80123456, x86_normal_flags ex_flags)"
proof -
  have "query x86_ref ex_root 0x40123456 (mem ex_huge) =
      Ok (mapping_new ex_huge_range 0x80000000 (x86_normal_flags ex_flags))"
    unfolding ex_huge_facts(3) by (simp add: in_range_def ex_huge_range_def)
  then show ?thesis
    using split_correct [OF x86_ref.walker_axioms ex_huge_facts(2) ex_split_run]
    by (simp add: resolve_def mapping_new_def ex_huge_range_def)
qed

text \<open>
  C13: \<^verbatim>\<open>merge_at\<close> is invisible to translation in the same sense, on every outcome; when it
  succeeds the whole range is covered by one leaf.
\<close>

theorem merge_correct:
  assumes "walker E flags_ok norm live" "tree_ok E live root w"
    and "merge_at E root rg w = (res, w')"
  shows "res \<noteq> Panic \<and> tree_ok E live root w' \<and>
    (\<forall>v. resolve E root v (mem w') = resolve E root v (mem w)) \<and>
    (\<forall>v. \<not> in_range rg v \<longrightarrow> query E root v (mem w') = query E root v (mem w)) \<and>
    ((\<exists>tsize. res = Ok tsize) \<longrightarrow>
       (\<exists>mp. m_range mp = rg \<and> (\<forall>v. in_range rg v \<longrightarrow> query E root v (mem w') = Ok mp)))"
  using walker.merge_at_spec [OF assms] unfolding merge_ok_def .

theorem merge_correct_witness:
  "\<exists>w'. merge_at x86_ref ex_root ex_huge_range ex_split = (Ok Size2M, w') \<and>
     (\<exists>mp. m_range mp = ex_huge_range \<and> query x86_ref ex_root 0x40123456 (mem w') = Ok mp)"
proof -
  obtain res w' where r: "merge_at x86_ref ex_root ex_huge_range ex_split = (res, w')" by fastforce
  have ok: "tree_ok x86_ref (ref_live X86Meta48) ex_root ex_split"
    using x86_ref.split_at_spec [OF ex_huge_facts(2) ex_split_run] by blast
  from x86_ref.split_merge_roundtrip [OF ex_huge_facts(2) ex_total ex_split_run r] obtain sz where
    sz: "res = Ok sz" "range_size (e_addr x86_ref) ex_huge_range = bytes sz" by blast
  have "bytes sz = bytes Size2M" using sz(2) by (simp add: ex_huge_range_def x86_ref_fields ref_addr_lib_def)
  then have "res = Ok Size2M" using sz(1) by (metis from_bytes_bytes option.inject)
  with merge_correct [OF x86_ref.walker_axioms ok r] r show ?thesis
    by (auto simp: in_range_def ex_huge_range_def)
qed

text \<open>
  C14: \<^verbatim>\<open>merge_at\<close> decides. On a leaf-sized range whose addresses are all mapped by leaves of the next
  finer size, it merges exactly when the range is linear, that is when it translates with one set of
  flags to an aligned physical range; otherwise it reports \<^verbatim>\<open>NotCoalescable\<close> and changes nothing.
\<close>

theorem merge_decides:
  assumes "walker E flags_ok norm live" "tree_ok E live root w" "dealloc_total E live"
    and "check_leaf_range (e_addr E) (e_meta E) rg = Ok sz"
    and "size_to_level (e_meta E) sz = Some (Suc (Suc l))" "leaf_size_at_level (e_meta E) (Suc l) = Some fsz"
    and "finer_mapped E root rg fsz w"
  shows "if \<exists>p flags. is_aligned sz p \<and> linear_range E root rg p flags w
    then fst (merge_at E root rg w) = Ok sz
    else merge_at E root rg w = (Err NotCoalescable, w)"
  by (rule walker.merge_outcome [OF assms])

theorem merge_decides_witness: "fst (merge_at x86_ref ex_root ex_huge_range ex_split) = Ok Size2M"
proof -
  have "\<exists>p flags. is_aligned Size2M p \<and> linear_range x86_ref ex_root ex_huge_range p flags ex_split"
    using ex_split_facts(3) ex_huge_check(3) by blast
  with merge_decides [OF x86_ref.walker_axioms ex_split_facts(1) ex_total ex_huge_check(1) _ _ ex_split_facts(2)]
    ex_huge_check(2) ex_page_level show ?thesis by (simp add: numeral_2_eq_2)
qed

text \<open>
  C15: splitting a leaf and merging the range again is the identity on lookups: the merge succeeds
  with the size of the leaf and every address is mapped as before the split.
\<close>

theorem split_then_merge:
  assumes "walker E flags_ok norm live" "tree_ok E live root w" "dealloc_total E live"
    and "split_at E root rg w = (Ok fsz, w1)" "merge_at E root rg w1 = (res, w2)"
  shows "(\<exists>sz. res = Ok sz \<and> range_size (e_addr E) rg = bytes sz) \<and> tree_ok E live root w2 \<and>
    (\<forall>v. query E root v (mem w2) = query E root v (mem w))"
  by (rule walker.split_merge_roundtrip [OF assms])

theorem split_then_merge_witness:
  "query x86_ref ex_root 0x40123456 (mem (snd (merge_at x86_ref ex_root ex_huge_range ex_split))) =
     Ok (mapping_new ex_huge_range 0x80000000 (x86_normal_flags ex_flags))"
proof -
  have "query x86_ref ex_root 0x40123456 (mem ex_huge) =
      Ok (mapping_new ex_huge_range 0x80000000 (x86_normal_flags ex_flags))"
    unfolding ex_huge_facts(3) by (simp add: in_range_def ex_huge_range_def)
  then show ?thesis
    using split_then_merge [OF x86_ref.walker_axioms ex_huge_facts(2) ex_total ex_split_run surjective_pairing]
    by simp
qed

text \<open>
  C18: mapping the range of a leaf and unmapping it again is the identity. With a supply of frames
  both succeed, the unmap returns the mapping that was made, every lookup is as before, and every
  table the mapping added is handed back: no frame is live that was not live at the start.
\<close>

theorem map_then_unmap:
  assumes "walker E flags_ok norm live" "tree_ok E live root w"
    and "accounts live out E root w" "dealloc_total E live"
    and "frame_supply E room" "LEVELS (e_meta E) - target \<le> room (astate w)"
    and "slot_free E root (rng_start rg) target w" "size_to_level (e_meta E) sz = Some target"
    and "is_aligned sz p" "paddr_is_valid (e_meta E) p" "flags_ok flags"
    and "check_leaf_range (e_addr E) (e_meta E) rg = Ok sz"
  shows "\<exists>w1 w2. walker_map E root rg (FromPhysAddr p) (mapping_flags_new flags) w = (Ok (), w1) \<and>
    (\<forall>v. in_range rg v \<longrightarrow> query E root v (mem w1) = Ok (mapping_new rg p (norm flags))) \<and>
    unmap E root rg w1 = (Ok (mapping_new rg p (norm flags)), w2) \<and>
    tree_ok E live root w2 \<and> accounts live out E root w2 \<and> live (astate w2) \<subseteq> live (astate w) \<and>
    (\<forall>v. query E root v (mem w2) = query E root v (mem w))"
  by (rule walker.map_unmap_roundtrip [OF assms])

theorem map_then_unmap_witness:
  "\<exists>w2. unmap x86_ref ex_root ex_huge_range ex_huge =
       (Ok (mapping_new ex_huge_range 0x80000000 (x86_normal_flags ex_flags)), w2) \<and>
     ref_live X86Meta48 (astate w2) \<subseteq> ref_live X86Meta48 (astate ex_new)"
  using map_then_unmap [where flags = ex_flags, OF x86_ref.walker_axioms ex_new_ok ex_new_accounts ex_total ex_supply ex_huge_room
      ex_new_free ex_huge_check(2-4) TrueI ex_huge_check(1)] ex_huge_facts(1) by auto

text \<open>
  C16: dropping a walker terminates and hands every table frame of the tree back to the allocator,
  each exactly once and nothing else; entries of other live frames are untouched. With an allocator
  that takes live frames back, none of them stays live.
\<close>

theorem drop_correct:
  assumes "walker E flags_ok norm live" "tree_ok E live root w"
  shows "\<exists>w' fs. walker_drop E root w = (Ok (), w') \<and>
    log w' = log w @ map (\<lambda>f. Freed (frame_range E f)) fs \<and>
    mset fs = mset (root_tables E w root) \<and> distinct fs \<and>
    releases E live (set (root_tables E w root)) w w'"
  by (rule walker.walker_drop_spec [OF assms])

theorem drop_correct_witness:
  "fst (walker_drop x86_ref ex_root ex_mapped) = Ok ()"
  using drop_correct [OF x86_ref.walker_axioms ex_mapped_facts(1)] by auto

text \<open>
  A walker that \<^verbatim>\<open>try_new\<close> returns satisfies the tree invariant, owns exactly its root table
  and maps nothing.
\<close>

theorem try_new_correct:
  assumes "walker E flags_ok norm live" "try_new E w = (Ok root, w')"
  shows "tree_ok E live root w' \<and> root_tables E w' root = [root] \<and>
    (\<forall>v. \<exists>x. query E root v (mem w') = Err x)"
proof -
  note new = walker.try_new_spec(3) [OF assms refl]
  have "\<exists>x. query E root v (mem w') = Err x" for v
    using new by (simp add: query_view check_vaddr_def)
  with new show ?thesis by blast
qed

theorem try_new_correct_witness:
  "\<exists>x. query x86_ref ex_root 0x200000 (mem ex_new) = Err x"
  using try_new_correct [OF x86_ref.walker_axioms ex_try_new] by blast

text \<open>A lookup never panics and always returns, on any memory whatever: the walk is bounded by the levels.\<close>

lemma query_total:
  assumes "walker E flags_ok norm live"
  shows "query E root v m \<noteq> Panic"
  by (rule walker.query_not_Panic [OF assms])

section \<open>The trait\<close>

text \<open>
  C2: the trait \<^verbatim>\<open>PageTable\<close> refines a partial function from addresses to physical addresses and
  flags. Any program of map, remap, protect, unmap, split and merge requests, errors in between
  included, run by the walker's implementation of the trait, is a run of the abstract space: a
  request that succeeds acts as the function of its arguments that \<open>space_exec\<close> names, on a range in
  the state it needs; one that fails changes nothing, or has mapped a prefix. None panics, the root
  stays, and after a program without errors the translation is computed from the requests alone.
\<close>

theorem page_table_refines:
  assumes "walker E flags_ok norm live" "dealloc_total E live" "tree_ok E live root w"
    and "\<forall>op\<in>set ops. op_legal (e_addr E) flags_ok op"
    and "table_run (walker_page_table E) ops (root, w) = (rs, (root', w'))"
  shows "root' = root \<and> tree_ok E live root w' \<and>
    space_run (e_addr E) norm ops rs (space_of (walker_page_table E) (root, w))
      (space_of (walker_page_table E) (root, w')) \<and>
    ((\<forall>r\<in>set rs. r = Ok ()) \<longrightarrow>
       space_of (walker_page_table E) (root, w') =
         fold (space_exec (e_addr E) norm) ops (space_of (walker_page_table E) (root, w)))"
proof -
  have "reliable_walker E flags_ok norm live"
    using assms(1,2) by (simp add: reliable_walker_def reliable_walker_axioms_def)
  note run = reliable_walker.table_run_refines [OF this assms(3-5)]
  with space_run_ok show ?thesis by blast
qed

theorem page_table_refines_witness:
  "\<exists>w'. table_run (walker_page_table x86_ref) ex_program (ex_root, ex_new) = ([Ok (), Ok ()], (ex_root, w')) \<and>
     space_of (walker_page_table x86_ref) (ex_root, w') 0x200123 = Some (0x9123, x86_normal_flags ex_flags)"
proof -
  obtain w' where run: "table_run (walker_page_table x86_ref) ex_program (ex_root, ex_new) = ([Ok (), Ok ()], (ex_root, w'))"
    by (rule ex_program_run)
  from page_table_refines [OF x86_ref.walker_axioms ex_total ex_new_ok ex_program_legal run]
  have "space_of (walker_page_table x86_ref) (ex_root, w') =
      fold (space_exec (e_addr x86_ref) x86_normal_flags) ex_program (space_of (walker_page_table x86_ref) (ex_root, ex_new))"
    by simp
  then have "space_of (walker_page_table x86_ref) (ex_root, w') 0x200123 = Some (0x9123, x86_normal_flags ex_flags)"
    unfolding ex_program_def by (simp add: in_range_def ex_page_def)
  with run show ?thesis by blast
qed

section \<open>Batches and invalidation\<close>

text \<open>
  C1: \<^verbatim>\<open>PageTableWalker::map\<close>, for every kind of backing (a physical address, a range, a scatter
  list) and both contiguity modes. It never panics once the backing resolved, keeps the tree
  invariant, and maps a prefix of the requested range, all of it exactly when it succeeds: each byte
  of the prefix was unmapped before and now translates to the byte at the same distance in the
  backing, with the flags as the format can represent them. No other lookup changes, on success or
  on any error.
\<close>

theorem map_correct:
  assumes "walker E flags_ok norm live" "tree_ok E live root w" "flags_ok (mf_leaf flags)"
    and "range_ok rg" "backing_ok b"
    and "into_map_backing (e_addr E) src (range_size (e_addr E) rg) = Ok b"
    and "walker_map E root rg src flags w = (res, w')"
  shows "res \<noteq> Panic \<and> tree_ok E live root w' \<and>
    (\<exists>n\<le>unat (range_size (e_addr E) rg). (res = Ok () \<longrightarrow> n = unat (range_size (e_addr E) rg)) \<and>
       (\<forall>v. if unat (rng_start rg) \<le> unat v \<and> unat v < unat (rng_start rg) + n
         then query E root v (mem w) = Err NotMapped \<and>
              resolve E root v (mem w') =
                Ok (backing_paddr (e_addr E) b (unat v - unat (rng_start rg)), norm (mf_leaf flags))
         else query E root v (mem w') = query E root v (mem w)))"
  using walker.walker_map_spec [OF assms] unfolding maps_range_def by blast

theorem map_correct_witness:
  "resolve x86_ref ex_root 0x200123 (mem (snd (walker_map x86_ref ex_root ex_page (FromPhysAddr 0x5000)
      (mapping_flags_new ex_flags) ex_new))) = Ok (0x5123, x86_normal_flags ex_flags)"
proof -
  have "range_size (e_addr x86_ref) ex_page = 0x1000" using ex_page_facts(2) by simp
  with map_correct [OF x86_ref.walker_axioms ex_new_ok TrueI ex_page_facts(1) ex_backing_facts(2,1)
      ex_walker_map]
  have "\<forall>v. unat (rng_start ex_page) \<le> unat v \<and> unat v < unat (rng_start ex_page) + 0x1000 \<longrightarrow>
      resolve x86_ref ex_root v (mem (flush_leaf_range x86_ref ex_page ex_mapped)) =
        Ok (backing_paddr (e_addr x86_ref) ex_backing (unat v - unat (rng_start ex_page)),
            x86_normal_flags (mf_leaf (mapping_flags_new ex_flags)))"
    by (auto split: if_splits)
  from this [rule_format, of "0x200123"] show ?thesis
    unfolding ex_walker_map snd_conv by (simp add: ex_page_def ex_backing_def mapping_flags_new_def)
qed

text \<open>
  C10: the descent cache of \<^verbatim>\<open>PageTableCursor\<close> is transparent. Whenever the cache holds frames of the
  path of the last mapped address, mapping a leaf through it gives the result and the world of the
  walk from the root, and the cache is again such a cache, on success and on every error of a walk
  that meets no undefined entry.
\<close>

theorem cursor_cache_transparent:
  assumes "walker E flags_ok norm live" "tree_ok E live root w" "cache_ok E root c w"
    and "1 \<le> target" "target \<le> LEVELS (e_meta E)"
    and "map_leaf_sized_at_level E root rg p flags sz target (c, w) = (res, (c', w'))"
  shows "map_leaf_direct_sized_no_flush E root rg p flags sz target w = (res, w') \<and>
    (cache_ok E root c' w' \<or>
     res \<noteq> Ok () \<and> (res = Panic \<or> root_view E w root (rng_start rg) = Err InvalidEntryKind))"
  using walker.map_leaf_at_level_spec [OF assms] by (cases res) auto

theorem cursor_cache_transparent_witness:
  "\<exists>c' w'. map_leaf_sized_at_level x86_ref ex_root ex_page 0x5000 ex_flags Size4K 1 (cursor_new, ex_new) =
       (Ok (), (c', w')) \<and> w' = ex_mapped"
proof -
  obtain res c' w' where r: "map_leaf_sized_at_level x86_ref ex_root ex_page 0x5000 ex_flags Size4K 1
      (cursor_new, ex_new) = (res, (c', w'))"
    by (metis prod_cases3)
  have "(1 :: nat) \<le> LEVELS (e_meta x86_ref)" by (simp add: x86_ref_fields x86_meta_fields)
  from cursor_cache_transparent [OF x86_ref.walker_axioms ex_new_ok cache_ok_new order.refl this r] r
  show ?thesis using ex_map by auto
qed

text \<open>
  C9: every state that a batch can reach is sound. Starting from a walker whose tree is well formed,
  any sequence of map, unmap, protect and remap requests through a cursor, each with any outcome,
  keeps the tree invariant, the descent cache consistent with the tree, the flush queue well formed
  and within its capacity, and every address whose lookup differs from the start is pending in the
  queue or a full flush is.
\<close>

theorem batch_invariant:
  assumes "walker E flags_ok norm live" "tree_ok E live root w0" "no_invalid E root w0" "dealloc_total E live"
    and "cursor_reach E flags_ok root w0 (c, w)"
  shows "tree_ok E live root w \<and> cache_ok E root c w \<and>
    queue_ok (BASE_PAGE_SIZE (e_meta E)) (pending_flushes c) \<and>
    length (pending_flushes c) \<le> FLUSH_RANGE_CAP \<and>
    (\<forall>v. query E root v (mem w) \<noteq> query E root v (mem w0) \<longrightarrow>
       needs_full_flush c \<or> unat v \<in> covered (BASE_PAGE_SIZE (e_meta E)) (pending_flushes c))"
  using walker.reach_inv [OF assms]
  by (cases "needs_full_flush c") (auto simp: cursor_inv_def flush_inv_def covers_def Let_def to_flush_def)

theorem batch_invariant_witness:
  "\<exists>res c w. cursor_exec rv_ref rv_root rv_request (cursor_new, rv_new) = (res, (c, w)) \<and>
     tree_ok rv_ref (ref_live Rv64Meta39) rv_root w \<and> cache_ok rv_ref rv_root c w"
proof -
  obtain res c w where r: "cursor_exec rv_ref rv_root rv_request (cursor_new, rv_new) = (res, (c, w))"
    by (metis prod_cases3)
  have "cursor_reach rv_ref rv64_flags_ok rv_root rv_new (c, w)"
    by (rule cursor_reach.more [OF cursor_reach.fresh cursor_step.request [OF rv_request_ok r]])
  from batch_invariant [OF rv_ref.walker_axioms rv_new_ok rv_new_no_invalid rv_dealloc_total this] r
  show ?thesis by blast
qed

text \<open>
  C8: no stale translation survives a batch. When a batch is finished (or its cursor dropped), the
  instructions issued last invalidate every address whose lookup differs from the start of the
  batch, on every TLB back end that meets its contract and accepts the valid addresses of the format.
\<close>

theorem batch_leaves_no_stale:
  assumes "walker E flags_ok norm live" "tree_ok E live root w0" "no_invalid E root w0" "dealloc_total E live"
    and "tlb_contract (e_tlb E) (BASE_PAGE_SIZE (e_meta E)) iv accepts"
    and "\<And>v. vaddr_is_valid (e_meta E) v \<Longrightarrow> accepts v"
    and "cursor_reach E flags_ok root w0 (c, w)"
  shows "\<exists>hs. cursor_finish E (c, w) = emit hs w \<and>
    (\<forall>v. query E root v (mem (cursor_finish E (c, w))) \<noteq> query E root v (mem w0) \<longrightarrow>
       unat v \<in> invalidated iv hs)"
  using walker.reach_inv [OF assms(1-4,7)] walker.finish_flushes [OF assms(1,5,6)]
  by (simp add: cursor_inv_def)

theorem batch_leaves_no_stale_witness:
  "\<exists>res c w hs. cursor_exec rv_ref rv_root rv_request (cursor_new, rv_new) = (res, (c, w)) \<and>
     cursor_finish rv_ref (c, w) = emit hs w"
proof -
  obtain res c w where r: "cursor_exec rv_ref rv_root rv_request (cursor_new, rv_new) = (res, (c, w))"
    by (metis prod_cases3)
  have "cursor_reach rv_ref rv64_flags_ok rv_root rv_new (c, w)"
    by (rule cursor_reach.more [OF cursor_reach.fresh cursor_step.request [OF rv_request_ok r]])
  from batch_leaves_no_stale [OF rv_ref.walker_axioms rv_new_ok rv_new_no_invalid rv_dealloc_total
      rv_tlb_ok TrueI this] r
  show ?thesis by blast
qed

text \<open>
  C21: the operations of the walker flush what they change: \<^verbatim>\<open>map\<close>, \<^verbatim>\<open>unmap\<close>, \<^verbatim>\<open>protect\<close> and \<^verbatim>\<open>remap\<close> never panic,
  keep the tree invariant, and end, after their last write to a table, with instructions that invalidate
  every address whose lookup they changed, whatever their result.
\<close>

theorem operations_leave_no_stale:
  assumes "walker E flags_ok norm live" "tree_ok E live root w" "dealloc_total E live"
    and "tlb_contract (e_tlb E) (BASE_PAGE_SIZE (e_meta E)) iv accepts"
    and "\<And>v. vaddr_is_valid (e_meta E) v \<Longrightarrow> accepts v"
    and "op_ok E flags_ok p" "walker_exec E root p w = (res, w')"
  shows "res \<noteq> Panic \<and> tree_ok E live root w' \<and>
    (\<exists>w1 hs. logged w w1 \<and> w' = emit hs w1 \<and>
       (\<forall>v. query E root v (mem w') \<noteq> query E root v (mem w) \<longrightarrow> unat v \<in> invalidated iv hs))"
  using walker.exec_flushed [OF assms(1,4,5,2,3,6,7)] unfolding flushed_def .

theorem operations_leave_no_stale_witness:
  "\<exists>res w'. walker_exec rv_ref rv_root rv_request rv_new = (res, w') \<and> res \<noteq> Panic \<and>
     tree_ok rv_ref (ref_live Rv64Meta39) rv_root w'"
proof -
  obtain res w' where r: "walker_exec rv_ref rv_root rv_request rv_new = (res, w')" by (meson surj_pair)
  from operations_leave_no_stale [OF rv_ref.walker_axioms rv_new_ok rv_dealloc_total rv_tlb_ok TrueI
      rv_request_ok r] r
  show ?thesis by blast
qed

text \<open>
  C22: queueing a range keeps the queue well formed (page-aligned ranges that do not wrap and lie
  pairwise apart, at most \<^verbatim>\<open>FLUSH_RANGE_CAP\<close> of them). Unless it escalates to a full flush, the
  coalesced queue stands for exactly the addresses it stood for and those of the new range; a
  pending full flush stays pending.
\<close>

theorem queue_covers_exactly:
  assumes "flush_inv (BASE_PAGE_SIZE (e_meta E)) c" "addr_lib_ok (e_addr E)"
    and "page_range (BASE_PAGE_SIZE (e_meta E)) rg" "c' = queue_flush_range E rg c"
  shows "flush_inv (BASE_PAGE_SIZE (e_meta E)) c' \<and>
    (needs_full_flush c \<longrightarrow> needs_full_flush c') \<and>
    (\<not> needs_full_flush c' \<longrightarrow> covered (BASE_PAGE_SIZE (e_meta E)) (pending_flushes c') =
       covered (BASE_PAGE_SIZE (e_meta E)) (pending_flushes c) \<union> addrs rg)"
  using queue_flush_range_spec [OF assms] by (auto simp: to_flush_def split: if_splits)

theorem queue_covers_exactly_witness:
  "flush_inv Size4K (queue_flush_range rv_ref rv_range cursor_new)"
proof -
  have "flush_inv Size4K cursor_new" by (rule flush_inv_empty) (simp add: cursor_new_def)
  moreover have "page_range Size4K rv_range" by (simp add: page_range_def rv_range_def)
  moreover have "BASE_PAGE_SIZE (e_meta rv_ref) = Size4K"
    by (simp add: rv_ref_fields Rv64Meta39_def rv64_meta_def)
  ultimately show ?thesis
    using queue_covers_exactly [OF _ rv_ref.addr_ok _ refl, of cursor_new rv_range] by simp
qed

text \<open>
  Draining issues one full flush when the queue escalated or the back end prefers it, nothing
  when nothing is pending, and otherwise one range invalidation per queued range, in the order of
  their addresses. Afterwards nothing is pending, and draining again (as the drop of a finished
  cursor does) issues nothing.
\<close>

theorem drain_once:
  assumes "flush_inv (BASE_PAGE_SIZE (e_meta E)) c" "flush_pending E c w = (c', w')"
  shows "w' = (if needs_full_flush c \<or> pending_flushes c \<noteq> [] \<and>
                   prefer_full_flush (e_tlb E) (pending_count (pending_flushes c))
               then emit (flush_tlb_all_local (e_tlb E)) w
               else emit (concat (map (\<lambda>r. flush_tlb_range_local (e_tlb E) (fr_start r)
                            (BASE_PAGE_SIZE (e_meta E)) (fr_pages r)) (sort_key fr_start (pending_flushes c)))) w) \<and>
    pending_flushes c' = [] \<and> \<not> needs_full_flush c' \<and> flush_pending E c' u = (c', u)"
proof -
  have q: "queue_ok (BASE_PAGE_SIZE (e_meta E)) (pending_flushes c)"
    using assms(1) by (simp add: flush_inv_def)
  show ?thesis
    using assms(2) pending_count_0 [OF q]
    by (cases "needs_full_flush c"; cases "pending_flushes c = []")
      (auto simp: flush_pending_def flush_ranges_def Let_def emit_def pending_count_def split: if_splits)
qed

theorem drain_once_witness:
  "snd (flush_pending rv_ref cursor_new rv_new) = rv_new"
proof -
  obtain c' w' where r: "flush_pending rv_ref cursor_new rv_new = (c', w')" by (meson surj_pair)
  have "flush_inv (BASE_PAGE_SIZE (e_meta rv_ref)) cursor_new"
    by (rule flush_inv_empty) (simp add: cursor_new_def)
  from drain_once [OF this r] r show ?thesis by (simp add: cursor_new_def emit_def)
qed

section \<open>Lookups, sizes and progress\<close>

text \<open>
  C23: every mapping that a lookup returns is well formed: its range contains the address, is as long
  as a page size and aligned to it, its physical address is aligned to that size and encodable, its
  flags are legal, and every address of the range returns the same mapping.
\<close>

theorem query_well_formed:
  assumes "walker E flags_ok norm live" "tree_ok E live root w" "query E root v (mem w) = Ok mp"
  shows "\<exists>sz. in_range (m_range mp) v \<and> mapping_size (e_addr E) mp = Some sz \<and>
    is_aligned sz (rng_start (m_range mp)) \<and> is_aligned sz (m_paddr mp) \<and>
    paddr_is_valid (e_meta E) (m_paddr mp) \<and> flags_ok (m_flags mp) \<and>
    (\<forall>v'. in_range (m_range mp) v' \<longrightarrow> query E root v' (mem w) = Ok mp)"
  by (rule walker.query_shape [OF assms]) blast

theorem query_well_formed_witness:
  "\<exists>mp. query x86_ref ex_root 0x200123 (mem ex_mapped) = Ok mp \<and> in_range (m_range mp) 0x200123"
proof -
  have "query x86_ref ex_root 0x200123 (mem ex_mapped) =
      Ok (mapping_new ex_page 0x5000 (x86_normal_flags ex_flags))"
    by (simp add: ex_mapped_facts in_range_def ex_page_def)
  with query_well_formed [OF x86_ref.walker_axioms ex_mapped_facts(1)] show ?thesis by blast
qed

text \<open>
  The leaf size that a contiguous mapping takes at each step is the largest one that fits in what
  remains, is aligned on both sides and exists on the format; it fails only when there is none.
\<close>

theorem leaf_size_is_largest:
  "(best_leaf_size M v p remaining = Ok sz) =
     (bytes sz \<le> remaining \<and> is_aligned sz v \<and> is_aligned sz p \<and> size_to_level M sz \<noteq> None \<and>
      (\<forall>sz'. bytes sz' \<le> remaining \<and> is_aligned sz' v \<and> is_aligned sz' p \<and> size_to_level M sz' \<noteq> None \<longrightarrow>
         bytes sz' \<le> bytes sz))"
  unfolding best_leaf_size_spec(1) leaf_fits_def less_eq_page_size_def by blast

theorem leaf_size_is_largest_witness:
  "best_leaf_size Rv64Meta39 0x400000 0x80000000 0x3fffff = Ok Size2M"
  unfolding leaf_size_is_largest
proof (intro conjI allI impI)
  fix sz' assume "bytes sz' \<le> 0x3fffff \<and> is_aligned sz' 0x400000 \<and> is_aligned sz' 0x80000000 \<and>
      size_to_level Rv64Meta39 sz' \<noteq> None"
  then show "bytes sz' \<le> bytes Size2M" by (cases sz') simp_all
qed (simp_all add: is_aligned_def Rv64Meta39_def rv64_meta_def default_size_to_level_Some
  rv64_level_supports_leaf_def)

text \<open>
  C17: mapping succeeds. The range of a leaf whose slot is free (for a base page: that no lookup finds)
  is mapped as requested whenever the allocator still has a frame for each table that is missing on the
  way from the root to the leaf (none when the walk reaches the leaf's table); at most that many frames
  are taken, and every frame that becomes live is a table of the tree.
\<close>

theorem map_succeeds:
  assumes "walker E flags_ok norm live" "tree_ok E live root w" "accounts live out E root w"
    and "frame_supply E room" "missing_below E w root (rng_start rg) target \<le> room (astate w)"
    and "slot_free E root (rng_start rg) target w \<or>
      target = 1 \<and> query E root (rng_start rg) (mem w) = Err NotMapped"
    and "size_to_level (e_meta E) sz = Some target"
    and "is_aligned sz p" "paddr_is_valid (e_meta E) p" "flags_ok flags"
    and "check_leaf_range (e_addr E) (e_meta E) rg = Ok sz"
  shows "\<exists>w'. walker_map E root rg (FromPhysAddr p) (mapping_flags_new flags) w = (Ok (), w') \<and>
    tree_ok E live root w' \<and> accounts live out E root w' \<and>
    room (astate w) \<le> room (astate w') + missing_below E w root (rng_start rg) target \<and>
    (\<forall>v. query E root v (mem w') =
       (if in_range rg v then Ok (mapping_new rg p (norm flags)) else query E root v (mem w)))"
proof -
  have "slot_free E root (rng_start rg) target w"
    using assms(6) walker.page_slot_free [OF assms(1,2) walker.check_leaf_range_Ok(4) [OF assms(1,11)]] by blast
  from walker.walker_map_missing [OF assms(1-5) this assms(7-)] show ?thesis by blast
qed

theorem map_succeeds_witness:
  "fst (walker_map x86_ref ex_root ex_huge_range (FromPhysAddr 0x80000000) (mapping_flags_new ex_flags) ex_new) =
     Ok ()"
  using map_succeeds [where flags = ex_flags, OF x86_ref.walker_axioms ex_new_ok ex_new_accounts ex_supply
      order.trans [OF missing_tables_le ex_huge_room] disjI1 [OF ex_new_free] ex_huge_check(2-4) TrueI
      ex_huge_check(1)] by auto

text \<open>Without a supply the only error of mapping an unmapped base page is the allocator's.\<close>

theorem unmapped_page_maps:
  assumes "walker E flags_ok norm live" "tree_ok E live root w"
    and "query E root (rng_start rg) (mem w) = Err NotMapped"
    and "vaddr_is_valid (e_meta E) (rng_start rg)" "size_to_level (e_meta E) sz = Some 1"
    and "map_leaf_direct_sized_no_flush E root rg p flags sz 1 w = (res, w')"
  shows "res = Ok () \<or> (\<exists>x w1 w2. res = Err x \<and> alloc_table_frame E w1 = (Err x, w2))"
  by (rule walker.map_page_progress [OF assms])

theorem unmapped_page_maps_witness:
  "\<exists>res w'. map_leaf_direct_sized_no_flush x86_ref ex_root ex_page 0x5000 ex_flags Size4K 1 ex_new = (res, w') \<and>
     (res = Ok () \<or> (\<exists>x w1 w2. res = Err x \<and> alloc_table_frame x86_ref w1 = (Err x, w2)))"
proof -
  obtain res w' where
    r: "map_leaf_direct_sized_no_flush x86_ref ex_root ex_page 0x5000 ex_flags Size4K 1 ex_new = (res, w')"
    by (meson surj_pair)
  have "query x86_ref ex_root (rng_start ex_page) (mem ex_new) = Err NotMapped"
    using ex_page_facts(4) ex_new_empty by (simp add: query_view check_vaddr_def)
  from unmapped_page_maps [OF x86_ref.walker_axioms ex_new_ok this ex_page_facts(4) ex_size_level r] r
  show ?thesis by blast
qed

section \<open>The unit tests\<close>

text \<open>
  C40: the unit tests of the crate pass on the model, every test of \<^verbatim>\<open>walker.rs\<close>, of the entries of the
  three architectures, of the x86_64 address spaces, of mappings and of the activation trait: on
  every heap that hands out disjoint aligned blocks and has two thousand frames, and for every
  implementation of the crates they call that behaves as documented.
\<close>

theorem unit_tests_pass:
  assumes "addr_lib_ok L" "heap_ok h" "heap_room h N" "2000 \<le> N" "h [] (bytes Size16K, bytes Size16K) \<noteq> 0"
    and "x86_addrs_ok X" "tte_ok (F Granule4KB OA48) 12 48" "unat start + 8 < 2 ^ 64"
  shows "(\<forall>t\<in>set table_tests. fst (t (mock_env L h MockMeta T) w) = Ok ()) \<and>
    (\<forall>t\<in>set recording_tests. fst (t (mock_env L h MockMeta RecordingTlb) w') = Ok ()) \<and>
    fst (test_metadata_controls_table_frame_granule (mock_env L h WideTableMeta T) w) = Ok () \<and>
    run_all x86_entry_tests = Ok () \<and> run_all (a64_entry_tests F) = Ok () \<and> run_all rv64_entry_tests = Ok () \<and>
    run_all (x86_vas_tests L X pcid7 pcid9 pae paging write_protect) = Ok () \<and>
    mapping_test_typed_access_may_end_at_range_boundary L start = Ok () \<and>
    paging_test_activation_trait_installs_tokens_with_portable_root c = Ok ()"
  by (intro conjI ballI walker_tests_pass [OF assms(1-5)] x86_entry_tests_pass a64_entry_tests_pass [of F, OF assms(7)]
      rv64_entry_tests_pass x86_vas_tests_pass [OF assms(1,6)] mapping_test_passes [OF assms(1,8)] paging_test_passes)

theorem unit_tests_pass_witness:
  "fst (test_merge_refuses_when_not_contiguous (mock_env ref_addr_lib first_fit MockMeta RecordingTlb)
      \<lparr>mem = (\<lambda>_. 0), astate = \<lparr>frame_store = [], live_counter = 0\<rparr>, log = []\<rparr>) = Ok ()"
proof -
  have F: "tte_ok (arm_family Granule4KB OA48) 12 48" using arm_tte_ok [of 12] by (simp add: arm_family_def granule_bits.simps)
  have start: "unat (0x1000 :: usize) + 8 < 2 ^ 64" by simp
  show ?thesis
    by (rule unit_tests_pass [where T = RecordingTlb and F = arm_family,
          OF ref_addr_lib_ok first_fit_ok first_fit_room order.refl first_fit_big ref_x86_ok(1) F start,
          THEN conjunct1, THEN bspec]) (simp add: table_tests_def)
qed

end
